(* ===== verification/Prelude.thy ===== *)
theory Prelude
  imports Complex_Main "HOL-Library.Sublist"
begin

text \<open>
  What every component of the gateway uses of the Go language and its standard library.

  Strings are byte strings (\<^typ>\<open>string\<close>, one \<^typ>\<open>char\<close> per byte). Case mapping and
  white space follow Go's rules on the ASCII range; bytes above 127 are left alone, so the
  model of \<^verbatim>\<open>strings.ToLower\<close>, \<^verbatim>\<open>strings.EqualFold\<close> and \<^verbatim>\<open>strings.TrimSpace\<close> is exact
  for ASCII input (every marker, header, status code and channel name of the program).

  Instants are integers counting nanoseconds from Go's zero time, so \<^verbatim>\<open>t.IsZero()\<close> is
  \<open>t = 0\<close>, \<^verbatim>\<open>After\<close> and \<^verbatim>\<open>Before\<close> are \<open>>\<close> and \<open><\<close>; durations are integers counting
  nanoseconds. \<^verbatim>\<open>time.Now()\<close> is always an argument. A machine integer whose overflow
  matters is an \<^typ>\<open>int\<close> with \<open>wrap64\<close> written out.
\<close>

section \<open>Collections of simplification rules\<close>

text \<open>
  \<open>gostr\<close>: equations that move string operations through concatenation and case mapping;
  \<open>hold_simps\<close>: facts on cooldown deadlines.
\<close>

named_theorems gostr
named_theorems hold_simps

section \<open>Types\<close>

type_synonym instant = int
type_synonym duration = int

abbreviation millisecond :: duration where "millisecond \<equiv> 1000000"
abbreviation second :: duration where "second \<equiv> 1000000000"
abbreviation minute :: duration where "minute \<equiv> 60000000000"
abbreviation hour :: duration where "hour \<equiv> 3600000000000"

text \<open>\<^verbatim>\<open>t.Sub(u)\<close> saturates at the bounds of a 64-bit duration.\<close>

definition max_duration :: duration where "max_duration = 9223372036854775807"
definition min_duration :: duration where "min_duration = - 9223372036854775808"

definition Sub :: "instant \<Rightarrow> instant \<Rightarrow> duration" where
  "Sub t u = max min_duration (min max_duration (t - u))"

text \<open>Signed 64-bit wrap-around.\<close>

definition wrap64 :: "int \<Rightarrow> int" where
  "wrap64 x = (x + 9223372036854775808) mod 18446744073709551616 - 9223372036854775808"

definition in_int64 :: "int \<Rightarrow> bool" where
  "in_int64 x \<longleftrightarrow> - 9223372036854775808 \<le> x \<and> x \<le> 9223372036854775807"

lemma wrap64_id: "in_int64 x \<Longrightarrow> wrap64 x = x"
  by (simp add: wrap64_def in_int64_def)

lemma wrap64_range: "in_int64 (wrap64 x)"
proof -
  let ?m = "(x + 9223372036854775808) mod 18446744073709551616"
  have "0 \<le> ?m" "?m < 18446744073709551616" by simp_all
  then show ?thesis unfolding wrap64_def in_int64_def by linarith
qed

lemma wrap64_idem [simp]: "wrap64 (wrap64 x) = wrap64 x"
  by (rule wrap64_id) (rule wrap64_range)

lemma wrap64_add_left [simp]: "wrap64 (wrap64 a + b) = wrap64 (a + b)"
proof -
  have "(wrap64 a + b + 9223372036854775808) mod 18446744073709551616
      = (a + b + 9223372036854775808) mod (18446744073709551616::int)"
  proof -
    have "(wrap64 a + b + 9223372036854775808) mod 18446744073709551616
       = ((a + 9223372036854775808) mod 18446744073709551616 + b) mod 18446744073709551616"
      unfolding wrap64_def by (simp add: algebra_simps)
    also have "\<dots> = (a + 9223372036854775808 + b) mod 18446744073709551616"
      by (rule mod_add_left_eq)
    finally show ?thesis by (simp add: algebra_simps)
  qed
  then show ?thesis by (simp add: wrap64_def)
qed

lemma wrap64_add_right [simp]: "wrap64 (a + wrap64 b) = wrap64 (a + b)"
  using wrap64_add_left [of b a] by (simp add: add.commute)

lemma Sub_le_iff: "- 9223372036854775808 < d \<Longrightarrow> d \<le> 9223372036854775807 \<Longrightarrow> (d \<le> Sub t u) = (d \<le> t - u)"
  by (auto simp: Sub_def max_duration_def min_duration_def)

lemma Sub_less_iff: "- 9223372036854775808 < d \<Longrightarrow> d \<le> 9223372036854775807 \<Longrightarrow> (Sub t u < d) = (t - u < d)"
  using Sub_le_iff [of d t u] by linarith

section \<open>Package strings\<close>

definition is_space :: "char \<Rightarrow> bool" where
  "is_space c = (c \<in> {CHR '' '', CHR 0x09, CHR 0x0A, CHR 0x0B, CHR 0x0C, CHR 0x0D})"

definition TrimSpace :: "string \<Rightarrow> string" where
  "TrimSpace s = rev (dropWhile is_space (rev (dropWhile is_space s)))"

definition lower_char :: "char \<Rightarrow> char" where
  "lower_char c = (let n = (of_char c :: nat) in if 65 \<le> n \<and> n \<le> 90 then char_of (n + 32) else c)"

definition ToLower :: "string \<Rightarrow> string" where
  "ToLower s = map lower_char s"

definition EqualFold :: "string \<Rightarrow> string \<Rightarrow> bool" where
  "EqualFold s t = (ToLower s = ToLower t)"

fun HasPrefix :: "string \<Rightarrow> string \<Rightarrow> bool" where
  "HasPrefix s [] = True"
| "HasPrefix [] (p # ps) = False"
| "HasPrefix (c # s) (p # ps) = (c = p \<and> HasPrefix s ps)"

definition HasSuffix :: "string \<Rightarrow> string \<Rightarrow> bool" where
  "HasSuffix s p = HasPrefix (rev s) (rev p)"

definition TrimPrefix :: "string \<Rightarrow> string \<Rightarrow> string" where
  "TrimPrefix s p = (if HasPrefix s p then drop (length p) s else s)"

fun Contains :: "string \<Rightarrow> string \<Rightarrow> bool" where
  "Contains [] p = (p = [])"
| "Contains (c # s) p = (HasPrefix (c # s) p \<or> Contains s p)"

text \<open>\<^verbatim>\<open>strings.Index\<close>: the least position of the needle, \<^const>\<open>None\<close> for -1.\<close>

fun Index :: "string \<Rightarrow> string \<Rightarrow> nat option" where
  "Index [] p = (if p = [] then Some 0 else None)"
| "Index (c # s) p = (if HasPrefix (c # s) p then Some 0 else map_option Suc (Index s p))"

text \<open>\<^verbatim>\<open>strings.TrimLeft(s, cutset)\<close>, the text up to \<^verbatim>\<open>strings.IndexAny(s, chars)\<close>, and
  \<^verbatim>\<open>strings.ReplaceAll(s, c, "")\<close> for a single byte.\<close>

definition TrimLeft :: "string \<Rightarrow> char list \<Rightarrow> string" where
  "TrimLeft s cutset = dropWhile (\<lambda>c. c \<in> set cutset) s"

definition before_any :: "string \<Rightarrow> char list \<Rightarrow> string" where
  "before_any s chars = takeWhile (\<lambda>c. c \<notin> set chars) s"

definition remove_byte :: "char \<Rightarrow> string \<Rightarrow> string" where
  "remove_byte b s = filter (\<lambda>c. c \<noteq> b) s"

text \<open>\<^verbatim>\<open>strings.Split(s, sep)\<close> for a one-byte separator; it never returns the empty list.\<close>

fun Split :: "char \<Rightarrow> string \<Rightarrow> string list" where
  "Split d [] = [[]]"
| "Split d (c # s) = (if c = d then [] # Split d s
     else (case Split d s of [] \<Rightarrow> [[c]] | w # ws \<Rightarrow> (c # w) # ws))"

text \<open>A string literal outside ASCII, by its UTF-8 bytes.\<close>

definition utf8 :: "nat list \<Rightarrow> string" where
  "utf8 bs = map char_of bs"

text \<open>Decimal printing (\<^verbatim>\<open>%d\<close>, \<^verbatim>\<open>strconv.Itoa\<close>) of a natural number.\<close>

definition digit_char :: "nat \<Rightarrow> char" where
  "digit_char d = char_of (48 + d)"

function show_nat :: "nat \<Rightarrow> string" where
  "show_nat n = (if n < 10 then [digit_char n] else show_nat (n div 10) @ [digit_char (n mod 10)])"
  by pat_completeness auto
termination
  by (relation "measure id") auto

declare show_nat.simps [simp del]

subsection \<open>Facts on the string operations\<close>

lemma HasPrefix_iff: "HasPrefix s p \<longleftrightarrow> (\<exists>t. s = p @ t)"
  by (induction s p rule: HasPrefix.induct) auto

lemma HasPrefix_append [simp, gostr]: "HasPrefix (p @ t) p"
  by (auto simp: HasPrefix_iff)

lemma HasPrefix_length: "HasPrefix s p \<Longrightarrow> length p \<le> length s"
  by (auto simp: HasPrefix_iff)

lemma Contains_iff: "Contains s p \<longleftrightarrow> (\<exists>a b. s = a @ p @ b)"
proof (induction s)
  case Nil
  show ?case by simp
next
  case (Cons c s)
  show ?case
  proof
    assume "Contains (c # s) p"
    then consider "HasPrefix (c # s) p" | "Contains s p" by auto
    then show "\<exists>a b. c # s = a @ p @ b"
    proof cases
      case 1
      then obtain t where "c # s = p @ t" by (auto simp: HasPrefix_iff)
      then have "c # s = [] @ p @ t" by simp
      then show ?thesis by blast
    next
      case 2
      then obtain a b where "s = a @ p @ b" using Cons.IH by auto
      then have "c # s = (c # a) @ p @ b" by simp
      then show ?thesis by blast
    qed
  next
    assume "\<exists>a b. c # s = a @ p @ b"
    then obtain a b where ab: "c # s = a @ p @ b" by blast
    show "Contains (c # s) p"
    proof (cases a)
      case Nil
      with ab have "HasPrefix (c # s) p" by (auto simp: HasPrefix_iff)
      then show ?thesis by simp
    next
      case (Cons d a')
      with ab have "s = a' @ p @ b" by simp
      then have "Contains s p" using Cons.IH by blast
      then show ?thesis by simp
    qed
  qed
qed

lemma Contains_Nil [simp]: "Contains s []"
  by (cases s) auto

lemma Contains_appendI1: "Contains s p \<Longrightarrow> Contains (s @ t) p"
  unfolding Contains_iff by (metis append.assoc)

lemma Contains_appendI2: "Contains t p \<Longrightarrow> Contains (s @ t) p"
  unfolding Contains_iff by (metis append.assoc)

lemma Contains_self [simp, gostr]: "Contains p p"
  using Contains_iff by (metis append_Nil append_Nil2)

lemma Contains_mid [simp, gostr]: "Contains (a @ p @ b) p"
  by (auto simp: Contains_iff)

lemma Contains_trans: "Contains s t \<Longrightarrow> Contains t p \<Longrightarrow> Contains s p"
  unfolding Contains_iff by (metis append.assoc)

lemma Index_Some: "Index s p = Some i \<Longrightarrow> HasPrefix (drop i s) p \<and> i \<le> length s"
  by (induction s p arbitrary: i rule: Index.induct) (auto split: if_splits)

lemma Index_Some_lt: "Index s p = Some i \<Longrightarrow> p \<noteq> [] \<Longrightarrow> i < length s"
  by (induction s p arbitrary: i rule: Index.induct) (auto split: if_splits)

lemma Index_None_iff: "Index s p = None \<longleftrightarrow> \<not> Contains s p"
  by (induction s p rule: Index.induct) auto

lemma Index_least: "Index s p = Some i \<Longrightarrow> j < i \<Longrightarrow> \<not> HasPrefix (drop j s) p"
proof (induction s p arbitrary: i j rule: Index.induct)
  case (2 c s p)
  then show ?case by (cases j) (auto split: if_splits)
qed (auto split: if_splits)

lemma ToLower_append [gostr]: "ToLower (s @ t) = ToLower s @ ToLower t"
  by (simp add: ToLower_def)

lemma ToLower_Nil [simp]: "ToLower [] = []"
  by (simp add: ToLower_def)

lemma ToLower_length [simp]: "length (ToLower s) = length s"
  by (simp add: ToLower_def)

lemma ToLower_eq_Nil [simp]: "(ToLower s = []) = (s = [])"
  by (simp add: ToLower_def)

lemma lower_char_idem [simp]: "lower_char (lower_char c) = lower_char c"
proof -
  have lt: "(of_char c :: nat) < 256" by simp
  show ?thesis
  proof (cases "65 \<le> (of_char c :: nat) \<and> (of_char c :: nat) \<le> 90")
    case True
    then have "lower_char c = char_of (of_char c + 32 :: nat)" by (simp add: lower_char_def)
    moreover have "(of_char (char_of (of_char c + 32 :: nat) :: char) :: nat) = of_char c + 32"
      using True by simp
    ultimately show ?thesis using True by (simp add: lower_char_def Let_def)
  next
    case False
    then have "lower_char c = c" by (auto simp: lower_char_def Let_def)
    then show ?thesis by simp
  qed
qed

lemma ToLower_idem [simp]: "ToLower (ToLower s) = ToLower s"
  by (simp add: ToLower_def)

lemma EqualFold_refl [simp]: "EqualFold s s"
  by (simp add: EqualFold_def)

lemma EqualFold_sym: "EqualFold s t \<Longrightarrow> EqualFold t s"
  by (simp add: EqualFold_def)

lemma EqualFold_trans: "EqualFold s t \<Longrightarrow> EqualFold t u \<Longrightarrow> EqualFold s u"
  by (simp add: EqualFold_def)

lemma ToLower_Contains: "Contains s p \<Longrightarrow> Contains (ToLower s) (ToLower p)"
  unfolding Contains_iff by (metis ToLower_append)

lemma lower_char_space [simp]: "is_space (lower_char c) = is_space c"
proof (cases "65 \<le> (of_char c :: nat) \<and> (of_char c :: nat) \<le> 90")
  case True
  have small: "is_space d \<Longrightarrow> (of_char d :: nat) \<le> 32" for d
    by (auto simp: is_space_def)
  have eq: "(of_char (lower_char c) :: nat) = of_char c + 32"
    using True by (simp add: lower_char_def Let_def)
  from True small [of c] have "\<not> is_space c" by auto
  moreover from True eq small [of "lower_char c"] have "\<not> is_space (lower_char c)" by auto
  ultimately show ?thesis by simp
next
  case False
  then have "lower_char c = c" by (auto simp: lower_char_def Let_def)
  then show ?thesis by simp
qed

lemma dropWhile_space_ToLower: "dropWhile is_space (ToLower s) = ToLower (dropWhile is_space s)"
  by (induction s) (auto simp: ToLower_def)

lemma TrimSpace_ToLower [gostr]: "TrimSpace (ToLower s) = ToLower (TrimSpace s)"
proof -
  have rv: "rev (ToLower t) = ToLower (rev t)" for t by (simp add: ToLower_def rev_map)
  show ?thesis by (simp add: TrimSpace_def dropWhile_space_ToLower rv)
qed

lemma TrimSpace_Nil [simp]: "TrimSpace [] = []"
  by (simp add: TrimSpace_def)

lemma dropWhile_rev_fixed:
  "dropWhile P (rev (dropWhile P (rev (dropWhile P s)))) = rev (dropWhile P (rev (dropWhile P s)))"
proof (cases "rev (dropWhile P (rev (dropWhile P s)))")
  case Nil
  then show ?thesis by (simp only: dropWhile.simps)
next
  case (Cons c t)
  define u where "u = dropWhile P s"
  have "u = rev (dropWhile P (rev u)) @ rev (takeWhile P (rev u))"
    by (metis rev_append rev_rev_ident takeWhile_dropWhile_id)
  then have "hd u = c" "u \<noteq> []" using Cons u_def by (metis append_Cons list.sel(1), metis append_is_Nil_conv list.distinct(1))
  then have "\<not> P c" unfolding u_def by (metis hd_dropWhile)
  then show ?thesis using Cons by simp
qed

lemma TrimSpace_idem [simp]: "TrimSpace (TrimSpace s) = TrimSpace s"
  unfolding TrimSpace_def
  by (simp add: dropWhile_rev_fixed)

lemma TrimSpace_length: "length (TrimSpace s) \<le> length s"
  unfolding TrimSpace_def by (metis length_dropWhile_le length_rev order_trans)

lemma TrimSpace_infix: "\<exists>a b. s = a @ TrimSpace s @ b"
proof -
  define u where "u = dropWhile is_space s"
  have "s = takeWhile is_space s @ u" unfolding u_def by simp
  moreover have "u = TrimSpace s @ rev (takeWhile is_space (rev u))"
    unfolding TrimSpace_def u_def [symmetric] by (metis rev_append rev_rev_ident takeWhile_dropWhile_id)
  ultimately show ?thesis by metis
qed

lemma Contains_TrimSpace: "Contains (TrimSpace s) p \<Longrightarrow> Contains s p"
  using TrimSpace_infix [of s] Contains_trans Contains_mid by metis

lemma Split_nonempty [simp]: "Split d s \<noteq> []"
  by (induction s) (auto split: list.splits)

lemma show_nat_nonempty: "show_nat n \<noteq> []"
  by (subst show_nat.simps) simp

section \<open>Generic lemmas on lists and maps\<close>

text \<open>
  A chain of guarded branches: \<open>all_if\<close> when every branch has the property, \<open>skip_if\<close> to
  step over a branch the property excludes, \<open>prop_if\<close> to keep the guards.
\<close>

lemma all_if: "Q x \<Longrightarrow> Q y \<Longrightarrow> Q (if b then x else y)"
  by simp

lemma prop_if: "(b \<Longrightarrow> Q x) \<Longrightarrow> (\<not> b \<Longrightarrow> Q y) \<Longrightarrow> Q (if b then x else y)"
  by simp

lemma skip_if: "\<not> b \<Longrightarrow> Q y \<Longrightarrow> Q (if b then x else y)"
  by simp

lemma find_Some_iff_prefix: "List.find P xs = Some x \<Longrightarrow> x \<in> set xs \<and> P x"
  by (induction xs) (auto split: if_splits)

lemma find_None_all: "List.find P xs = None \<longleftrightarrow> (\<forall>x \<in> set xs. \<not> P x)"
  by (induction xs) auto

lemma sum_list_filter_le:
  fixes f :: "'a \<Rightarrow> int"
  assumes "\<And>x. x \<in> set xs \<Longrightarrow> 0 \<le> f x"
  shows "sum_list (map f (filter P xs)) \<le> sum_list (map f xs)"
  using assms by (induction xs) fastforce+

end
