(* ===== verification/Model_Catalog.thy ===== *)
theory Model_Catalog
  imports Prelude
begin

text \<open>
  Upstream model metadata (\<^verbatim>\<open>src/internal/modelcatalog/profile.go\<close>): normalisation of one
  profile, the projection to model ids, and the conservative aggregation of the catalogs of
  several accounts. A public route may be served by any eligible account, so the aggregate
  may advertise only what every observation of a model allows; that is what the lemmas show.
\<close>

section \<open>Profiles\<close>

record Profile =
  ModelID :: string
  ReasoningEfforts :: "string list"
  DefaultReasoningEffort :: string
  SupportsReasoningEffort :: bool
  ContextWindow :: int
  MaxCompletionTokens :: int
  SupportsBackendSearch :: bool

definition knownReasoningEffort :: "string \<Rightarrow> bool" where
  "knownReasoningEffort value =
     (value \<in> {''none'', ''minimal'', ''low'', ''medium'', ''high'', ''xhigh'', ''max''})"

text \<open>The effort loop of \<^verbatim>\<open>Normalize\<close>: \<open>seen\<close> is the list built so far.\<close>

fun normalize_efforts :: "string list \<Rightarrow> string list \<Rightarrow> string list" where
  "normalize_efforts seen [] = seen"
| "normalize_efforts seen (raw # rest) =
     (let value = ToLower (TrimSpace raw) in
      if value = [] \<or> \<not> knownReasoningEffort value then normalize_efforts seen rest
      else if value \<in> set seen then normalize_efforts seen rest
      else normalize_efforts (seen @ [value]) rest)"

definition Normalize :: "Profile \<Rightarrow> Profile" where
  "Normalize profile =
     (let efforts = normalize_efforts [] (ReasoningEfforts profile);
          dflt = ToLower (TrimSpace (DefaultReasoningEffort profile))
      in profile\<lparr>ModelID := TrimSpace (ModelID profile),
                 ReasoningEfforts := efforts,
                 DefaultReasoningEffort := (if dflt \<in> set efforts then dflt else ''''),
                 SupportsReasoningEffort := (if efforts \<noteq> [] then True else SupportsReasoningEffort profile),
                 ContextWindow := (if ContextWindow profile < 0 then 0 else ContextWindow profile),
                 MaxCompletionTokens := (if MaxCompletionTokens profile < 0 then 0 else MaxCompletionTokens profile)\<rparr>)"

text \<open>\<^verbatim>\<open>CloneProfiles\<close> copies; a copy of a value is the value.\<close>

definition CloneProfiles :: "Profile list \<Rightarrow> Profile list" where
  "CloneProfiles profiles = profiles"

fun ModelIDs_loop :: "string list \<Rightarrow> Profile list \<Rightarrow> string list" where
  "ModelIDs_loop seen [] = []"
| "ModelIDs_loop seen (raw # rest) =
     (let i = TrimSpace (ModelID raw); key = ToLower i in
      if i = [] then ModelIDs_loop seen rest
      else if key \<in> set seen then ModelIDs_loop seen rest
      else i # ModelIDs_loop (key # seen) rest)"

definition ModelIDs :: "Profile list \<Rightarrow> string list" where
  "ModelIDs profiles = ModelIDs_loop [] profiles"

section \<open>Aggregation\<close>

text \<open>The merge of one more observation into the profile already in the result.\<close>

definition merge_profile :: "Profile \<Rightarrow> Profile \<Rightarrow> Profile" where
  "merge_profile current profile =
     Normalize (current\<lparr>
       ReasoningEfforts := filter (\<lambda>e. e \<in> set (ReasoningEfforts profile)) (ReasoningEfforts current),
       DefaultReasoningEffort :=
         (if DefaultReasoningEffort current \<noteq> DefaultReasoningEffort profile then ''''
          else DefaultReasoningEffort current),
       SupportsReasoningEffort := SupportsReasoningEffort current \<and> SupportsReasoningEffort profile,
       SupportsBackendSearch := SupportsBackendSearch current \<and> SupportsBackendSearch profile,
       ContextWindow :=
         (if ContextWindow profile > 0 \<and> (ContextWindow current = 0 \<or> ContextWindow profile < ContextWindow current)
          then ContextWindow profile else ContextWindow current),
       MaxCompletionTokens :=
         (if MaxCompletionTokens profile > 0 \<and>
             (MaxCompletionTokens current = 0 \<or> MaxCompletionTokens profile < MaxCompletionTokens current)
          then MaxCompletionTokens profile else MaxCompletionTokens current)\<rparr>)"

text \<open>One round of the loop on the result list and the index of its keys.\<close>

definition aggregate_step :: "Profile list \<times> (string \<rightharpoonup> nat) \<Rightarrow> Profile \<Rightarrow> Profile list \<times> (string \<rightharpoonup> nat)" where
  "aggregate_step st raw =
     (case st of (out, index) \<Rightarrow>
      let profile = Normalize raw; key = ToLower (ModelID profile) in
      if key = [] then (out, index)
      else (case index key of
              None \<Rightarrow> (out @ [profile], index(key \<mapsto> length out))
            | Some pos \<Rightarrow> (out[pos := merge_profile (out ! pos) profile], index)))"

definition Aggregate :: "Profile list list \<Rightarrow> Profile list" where
  "Aggregate catalogs = CloneProfiles (fst (foldl aggregate_step ([], Map.empty) (concat catalogs)))"

section \<open>Properties\<close>

lemma knownReasoningEffort_nonempty [simp]: "\<not> knownReasoningEffort []"
  by (simp add: knownReasoningEffort_def)

lemma normalize_efforts_set:
  "set (normalize_efforts seen es) =
   set seen \<union> {v. knownReasoningEffort v \<and> v \<in> (ToLower \<circ> TrimSpace) ` set es}"
  by (induction seen es rule: normalize_efforts.induct)
    (auto simp: Let_def)

lemma normalize_efforts_distinct: "distinct seen \<Longrightarrow> distinct (normalize_efforts seen es)"
  by (induction seen es rule: normalize_efforts.induct) (auto simp: Let_def)

lemma knownReasoningEffort_fixed: "knownReasoningEffort v \<Longrightarrow> ToLower (TrimSpace v) = v"
proof -
  assume "knownReasoningEffort v"
  moreover have "list_all (\<lambda>v. ToLower (TrimSpace v) = v)
      [''none'', ''minimal'', ''low'', ''medium'', ''high'', ''xhigh'', ''max'']" by code_simp
  ultimately show ?thesis by (auto simp: knownReasoningEffort_def)
qed

text \<open>Normalising a list that is already normal keeps its set of levels.\<close>

lemma normalize_efforts_normal:
  "\<forall>e \<in> set es. knownReasoningEffort e \<Longrightarrow> set (normalize_efforts [] es) = set es"
  using knownReasoningEffort_fixed by (fastforce simp: normalize_efforts_set image_iff)

definition normal_profile :: "Profile \<Rightarrow> bool" where
  "normal_profile p \<longleftrightarrow>
     TrimSpace (ModelID p) = ModelID p \<and>
     distinct (ReasoningEfforts p) \<and>
     (\<forall>e \<in> set (ReasoningEfforts p). knownReasoningEffort e) \<and>
     (DefaultReasoningEffort p = '''' \<or> DefaultReasoningEffort p \<in> set (ReasoningEfforts p)) \<and>
     (ReasoningEfforts p \<noteq> [] \<longrightarrow> SupportsReasoningEffort p) \<and>
     0 \<le> ContextWindow p \<and> 0 \<le> MaxCompletionTokens p"

lemma Normalize_normal: "normal_profile (Normalize p)"
  by (auto simp: normal_profile_def Normalize_def Let_def normalize_efforts_set
      intro: normalize_efforts_distinct)

text \<open>\<open>below p r\<close>: everything \<open>p\<close> advertises, the normalised observation \<open>r\<close> allows.\<close>

definition below :: "Profile \<Rightarrow> Profile \<Rightarrow> bool" where
  "below p r \<longleftrightarrow>
     set (ReasoningEfforts p) \<subseteq> set (ReasoningEfforts r) \<and>
     (SupportsBackendSearch p \<longrightarrow> SupportsBackendSearch r) \<and>
     (ContextWindow r > 0 \<longrightarrow> 0 < ContextWindow p \<and> ContextWindow p \<le> ContextWindow r) \<and>
     (MaxCompletionTokens r > 0 \<longrightarrow> 0 < MaxCompletionTokens p \<and> MaxCompletionTokens p \<le> MaxCompletionTokens r)"

lemma below_refl: "below p p"
  by (simp add: below_def)

lemma Normalize_efforts_subset:
  "normal_profile c \<Longrightarrow> set es \<subseteq> set (ReasoningEfforts c) \<Longrightarrow> set (normalize_efforts [] es) = set es"
  by (rule normalize_efforts_normal) (auto simp: normal_profile_def)

lemma merge_profile_sel:
  assumes c: "normal_profile c" and r: "normal_profile r"
  shows "set (ReasoningEfforts (merge_profile c r)) = set (ReasoningEfforts c) \<inter> set (ReasoningEfforts r)"
    "SupportsBackendSearch (merge_profile c r) = (SupportsBackendSearch c \<and> SupportsBackendSearch r)"
    "ContextWindow (merge_profile c r) =
       (if ContextWindow r > 0 \<and> (ContextWindow c = 0 \<or> ContextWindow r < ContextWindow c)
        then ContextWindow r else ContextWindow c)"
    "MaxCompletionTokens (merge_profile c r) =
       (if MaxCompletionTokens r > 0 \<and> (MaxCompletionTokens c = 0 \<or> MaxCompletionTokens r < MaxCompletionTokens c)
        then MaxCompletionTokens r else MaxCompletionTokens c)"
    "ModelID (merge_profile c r) = ModelID c"
proof -
  let ?es = "filter (\<lambda>e. e \<in> set (ReasoningEfforts r)) (ReasoningEfforts c)"
  have es: "set (normalize_efforts [] ?es) = set ?es"
    by (rule Normalize_efforts_subset [OF c]) simp
  then show "set (ReasoningEfforts (merge_profile c r)) = set (ReasoningEfforts c) \<inter> set (ReasoningEfforts r)"
    unfolding merge_profile_def Normalize_def Let_def by auto
  have pos: "0 \<le> ContextWindow c" "0 \<le> MaxCompletionTokens c" "TrimSpace (ModelID c) = ModelID c"
    using c by (simp_all add: normal_profile_def)
  show "SupportsBackendSearch (merge_profile c r) = (SupportsBackendSearch c \<and> SupportsBackendSearch r)"
    by (simp add: merge_profile_def Normalize_def Let_def)
  show "ContextWindow (merge_profile c r) =
       (if ContextWindow r > 0 \<and> (ContextWindow c = 0 \<or> ContextWindow r < ContextWindow c)
        then ContextWindow r else ContextWindow c)"
    using pos by (simp add: merge_profile_def Normalize_def Let_def)
  show "MaxCompletionTokens (merge_profile c r) =
       (if MaxCompletionTokens r > 0 \<and> (MaxCompletionTokens c = 0 \<or> MaxCompletionTokens r < MaxCompletionTokens c)
        then MaxCompletionTokens r else MaxCompletionTokens c)"
    using pos by (simp add: merge_profile_def Normalize_def Let_def)
  show "ModelID (merge_profile c r) = ModelID c"
    using pos by (simp add: merge_profile_def Normalize_def Let_def)
qed

lemma merge_profile_below:
  assumes c: "normal_profile c" and r: "normal_profile r"
  shows "below (merge_profile c r) r" "below c x \<Longrightarrow> below (merge_profile c r) x"
proof -
  have nonneg: "0 \<le> ContextWindow c" "0 \<le> MaxCompletionTokens c" using c by (simp_all add: normal_profile_def)
  show "below (merge_profile c r) r"
    unfolding below_def merge_profile_sel [OF c r] using nonneg by (auto split: if_splits)
  show "below c x \<Longrightarrow> below (merge_profile c r) x"
    unfolding below_def merge_profile_sel [OF c r] by (auto split: if_splits)
qed

definition profile_key :: "Profile \<Rightarrow> string" where
  "profile_key p = ToLower (TrimSpace (ModelID p))"

text \<open>
  The invariant of the loop after the observations \<open>raws\<close>: the index names exactly the
  positions of the keys, every entry is normal and below every observation of its key, and
  every keyed observation has an entry.
\<close>

definition agg_inv :: "Profile list \<Rightarrow> Profile list \<times> (string \<rightharpoonup> nat) \<Rightarrow> bool" where
  "agg_inv raws st \<longleftrightarrow> (case st of (out, index) \<Rightarrow>
     (\<forall>k i. index k = Some i \<longleftrightarrow> i < length out \<and> profile_key (out ! i) = k) \<and>
     (\<forall>p \<in> set out. normal_profile p \<and> profile_key p \<noteq> [] \<and>
        (\<forall>r \<in> set raws. profile_key r = profile_key p \<longrightarrow> below p (Normalize r))) \<and>
     (\<forall>r \<in> set raws. profile_key r \<noteq> [] \<longrightarrow> index (profile_key r) \<noteq> None))"

lemma Normalize_ModelID [simp]: "ModelID (Normalize p) = TrimSpace (ModelID p)"
  by (simp add: Normalize_def Let_def)

lemma profile_key_Normalize [simp]: "profile_key (Normalize p) = profile_key p"
  by (simp add: profile_key_def)

lemma profile_key_merge:
  "normal_profile c \<Longrightarrow> profile_key (merge_profile c (Normalize r)) = profile_key c"
  using merge_profile_sel(5) [OF _ Normalize_normal] by (simp add: profile_key_def)

lemma merge_profile_normal: "normal_profile (merge_profile c r)"
  unfolding merge_profile_def by (rule Normalize_normal)

lemma agg_invD:
  assumes "agg_inv raws (out, index)"
  shows "\<And>k i. index k = Some i \<longleftrightarrow> i < length out \<and> profile_key (out ! i) = k"
    and "\<And>p. p \<in> set out \<Longrightarrow> normal_profile p \<and> profile_key p \<noteq> [] \<and>
        (\<forall>r \<in> set raws. profile_key r = profile_key p \<longrightarrow> below p (Normalize r))"
    and "\<And>r. r \<in> set raws \<Longrightarrow> profile_key r \<noteq> [] \<Longrightarrow> index (profile_key r) \<noteq> None"
  using assms unfolding agg_inv_def by auto

lemma agg_invI:
  assumes "\<And>k i. index k = Some i \<longleftrightarrow> i < length out \<and> profile_key (out ! i) = k"
    and "\<And>p. p \<in> set out \<Longrightarrow> normal_profile p \<and> profile_key p \<noteq> []"
    and "\<And>p r. p \<in> set out \<Longrightarrow> r \<in> set raws \<Longrightarrow> profile_key r = profile_key p \<Longrightarrow> below p (Normalize r)"
    and "\<And>r. r \<in> set raws \<Longrightarrow> profile_key r \<noteq> [] \<Longrightarrow> index (profile_key r) \<noteq> None"
  shows "agg_inv raws (out, index)"
  using assms unfolding agg_inv_def by (simp only: prod.case) blast

text \<open>An observation without a model id is skipped.\<close>

lemma agg_inv_skip:
  assumes inv: "agg_inv raws (out, index)" and k: "profile_key raw = []"
  shows "agg_inv (raws @ [raw]) (out, index)"
proof (rule agg_invI)
  fix p r assume p: "p \<in> set out" and r: "r \<in> set (raws @ [raw])" "profile_key r = profile_key p"
  then have "r \<in> set raws" using agg_invD(2) [OF inv p] k by auto
  then show "below p (Normalize r)" using agg_invD(2) [OF inv p] r by auto
qed (use agg_invD [OF inv] k in auto)

text \<open>The first observation of a model is appended.\<close>

lemma agg_inv_new:
  assumes inv: "agg_inv raws (out, index)" and k: "profile_key raw \<noteq> []" "index (profile_key raw) = None"
  shows "agg_inv (raws @ [raw]) (out @ [Normalize raw], index(profile_key raw \<mapsto> length out))"
proof (rule agg_invI)
  note ix = agg_invD(1) [OF inv] and ok = agg_invD(2) [OF inv] and cover = agg_invD(3) [OF inv]
  have fresh: "profile_key (out ! i) \<noteq> profile_key raw" if "i < length out" for i
    using ix [of "profile_key raw" i] k(2) that by auto
  fix k' i
  show "(index(profile_key raw \<mapsto> length out)) k' = Some i \<longleftrightarrow>
      i < length (out @ [Normalize raw]) \<and> profile_key ((out @ [Normalize raw]) ! i) = k'"
    using ix [of k' i] fresh [of i] by (auto simp: nth_append less_Suc_eq)
next
  note ok = agg_invD(2) [OF inv] and cover = agg_invD(3) [OF inv]
  fix p r assume p: "p \<in> set (out @ [Normalize raw])" and r: "r \<in> set (raws @ [raw])" "profile_key r = profile_key p"
  have o: "profile_key q \<noteq> profile_key raw" if q: "q \<in> set out" for q
  proof -
    obtain i where "i < length out" "out ! i = q" using q by (metis in_set_conv_nth)
    then have "index (profile_key q) = Some i" using agg_invD(1) [OF inv] by simp
    with k(2) show ?thesis by auto
  qed
  have w: "profile_key q \<noteq> profile_key raw" if "q \<in> set raws" for q
    using cover [OF that] k by metis
  show "below p (Normalize r)"
  proof (cases "p \<in> set out")
    case True
    then have "r \<in> set raws" using o [OF True] r by auto
    then show ?thesis using ok [OF True] r(2) by blast
  next
    case False
    then have "p = Normalize raw" using p by simp
    then have "r = raw" using w [of r] r by auto
    then show ?thesis using \<open>p = Normalize raw\<close> below_refl by simp
  qed
next
  show "normal_profile p \<and> profile_key p \<noteq> []" if "p \<in> set (out @ [Normalize raw])" for p
    using that agg_invD(2) [OF inv, of p] k(1) Normalize_normal [of raw] profile_key_Normalize [of raw]
    by (cases "p = Normalize raw") simp_all
next
  show "(index(profile_key raw \<mapsto> length out)) (profile_key r) \<noteq> None"
    if "r \<in> set (raws @ [raw])" "profile_key r \<noteq> []" for r
    using that agg_invD(3) [OF inv, of r] by (cases "profile_key r = profile_key raw") auto
qed

text \<open>A further observation is merged into the entry the index names.\<close>

lemma agg_inv_merge:
  assumes inv: "agg_inv raws (out, index)" and k: "index (profile_key raw) = Some i"
  shows "agg_inv (raws @ [raw]) (out[i := merge_profile (out ! i) (Normalize raw)], index)"
proof (rule agg_invI)
  note ix = agg_invD(1) [OF inv] and ok = agg_invD(2) [OF inv]
  let ?m = "merge_profile (out ! i) (Normalize raw)"
  have i: "i < length out" "profile_key (out ! i) = profile_key raw" using ix k by auto
  have c: "normal_profile (out ! i)" using ok i by simp
  have mk: "profile_key ?m = profile_key raw"
    using profile_key_merge [OF c] i(2) by simp
  have el: "q = ?m \<or> (q \<in> set out \<and> profile_key q \<noteq> profile_key raw)" if q: "q \<in> set (out[i := ?m])" for q
  proof -
    obtain j where j: "j < length out" "out[i := ?m] ! j = q" using q by (auto simp: in_set_conv_nth)
    then show ?thesis using ix [of "profile_key raw" j] k i by (cases "j = i") auto
  qed
  show "index k' = Some j \<longleftrightarrow> j < length (out[i := ?m]) \<and> profile_key (out[i := ?m] ! j) = k'" for k' j
    using ix [of k' j] i mk by (cases "j = i") auto
  show "normal_profile p \<and> profile_key p \<noteq> []" if "p \<in> set (out[i := ?m])" for p
    using el [OF that] ok [of p] ok [of "out ! i"] i mk merge_profile_normal by auto
  show "below p (Normalize r)" if p: "p \<in> set (out[i := ?m])"
    and r: "r \<in> set (raws @ [raw])" "profile_key r = profile_key p" for p r
  proof (cases "p = ?m")
    case True
    then have pk: "profile_key r = profile_key (out ! i)" using r(2) mk i(2) by simp
    show ?thesis
    proof (cases "r = raw")
      case False
      then have "below (out ! i) (Normalize r)" using r(1) pk ok [of "out ! i"] i(1) by auto
      then show ?thesis unfolding True by (rule merge_profile_below(2) [OF c Normalize_normal])
    qed (simp add: True merge_profile_below(1) [OF c Normalize_normal])
  next
    case False
    with el [OF p] have "p \<in> set out" "profile_key p \<noteq> profile_key raw" by auto
    then show ?thesis using ok [of p] r by auto
  qed
  show "index (profile_key r) \<noteq> None" if "r \<in> set (raws @ [raw])" "profile_key r \<noteq> []" for r
    using that agg_invD(3) [OF inv] k by auto
qed

lemma agg_inv_step:
  "agg_inv raws (out, index) \<Longrightarrow> agg_inv (raws @ [raw]) (aggregate_step (out, index) raw)"
  by (auto simp: aggregate_step_def Let_def profile_key_def [symmetric]
      simp del: ToLower_eq_Nil intro: agg_inv_skip agg_inv_new agg_inv_merge split: option.splits)

lemma agg_inv_foldl:
  "agg_inv raws st \<Longrightarrow> agg_inv (raws @ rs) (foldl aggregate_step st rs)"
proof (induction rs arbitrary: raws st)
  case (Cons r rs)
  obtain out index where st: "st = (out, index)" by (cases st)
  have "agg_inv ((raws @ [r]) @ rs) (foldl aggregate_step (aggregate_step st r) rs)"
    by (rule Cons.IH) (use agg_inv_step Cons.prems st in blast)
  then show ?case by simp
qed simp

lemma agg_inv_Aggregate: "agg_inv (concat cs) (foldl aggregate_step ([], Map.empty) (concat cs))"
  using agg_inv_foldl [of "[]" "([], Map.empty)" "concat cs"] by (simp add: agg_inv_def)

text \<open>
  The aggregated catalog is conservative. After merging any number of account
  catalogs, every profile in it carries no reasoning level and no search capability that one of
  the observations of that model lacks and no limit above any observed one, no model appears
  twice under case folding, and every model observed with a name is present.
\<close>

theorem Aggregate_is_conservative:
  "distinct (map profile_key (Aggregate cs)) \<and>
   list_all (\<lambda>p. list_all (\<lambda>r. profile_key r = profile_key p \<longrightarrow> below p (Normalize r)) (concat cs)) (Aggregate cs) \<and>
   list_all (\<lambda>r. profile_key r = [] \<or> profile_key r \<in> set (map profile_key (Aggregate cs))) (concat cs)"
proof -
  obtain out index where f: "foldl aggregate_step ([], Map.empty) (concat cs) = (out, index)" by fastforce
  have agg: "Aggregate cs = out" by (simp add: Aggregate_def f CloneProfiles_def)
  have inv: "agg_inv (concat cs) (out, index)" using agg_inv_Aggregate [of cs] f by simp
  note ix = agg_invD(1) [OF inv]
  have "distinct (map profile_key out)"
    unfolding distinct_conv_nth
  proof (intro allI impI)
    fix i j assume "i < length (map profile_key out)" "j < length (map profile_key out)" "i \<noteq> j"
    then show "map profile_key out ! i \<noteq> map profile_key out ! j"
      using ix [of "profile_key (out ! i)" i] ix [of "profile_key (out ! i)" j] by auto
  qed
  moreover have "profile_key r \<in> set (map profile_key out)" if r: "r \<in> set (concat cs)" "profile_key r \<noteq> []" for r
  proof -
    obtain i where "index (profile_key r) = Some i" using agg_invD(3) [OF inv r] by blast
    then have "i < length out" "profile_key (out ! i) = profile_key r" using ix by auto
    then show ?thesis by (metis length_map nth_map nth_mem)
  qed
  ultimately show ?thesis using agg_invD(2) [OF inv] unfolding agg list_all_iff by blast
qed

definition sample_profile :: "int \<Rightarrow> Profile" where
  "sample_profile n = \<lparr>ModelID = ''Grok-4'', ReasoningEfforts = [''low''], DefaultReasoningEffort = [],
     SupportsReasoningEffort = True, ContextWindow = n, MaxCompletionTokens = 9, SupportsBackendSearch = True\<rparr>"

theorem Aggregate_is_conservative_witness:
  "\<exists>p \<in> set (Aggregate [[sample_profile 9], [sample_profile 5]]). below p (Normalize (sample_profile 5))"
proof -
  let ?cs = "[[sample_profile 9], [sample_profile 5]]"
  have "profile_key (sample_profile 5) = ''grok-4''" by code_simp
  then obtain p where "p \<in> set (Aggregate ?cs)" "profile_key (sample_profile 5) = profile_key p"
    using Aggregate_is_conservative [of ?cs] by auto
  then show ?thesis using Aggregate_is_conservative [of ?cs] by (auto simp: list_all_iff)
qed

end
