(* ===== verification/Account.thy ===== *)
theory Account
  imports Model_Catalog "HOL-Library.AList"
begin

text \<open>
  The account row (\<^verbatim>\<open>src/internal/store/store.go\<close>, \<^verbatim>\<open>quota_snapshots.go\<close>) and the per-model
  cooldowns it carries (\<^verbatim>\<open>account_cooldown.go\<close>). The flat Go struct is split into a core
  record and one record per provider. A Go map is an association list, in the order a
  \<^verbatim>\<open>range\<close> visits it; \<^const>\<open>map_of\<close> reads it, \<^const>\<open>AList.update\<close> writes it and a nil map is
  the empty list. A slice that is tested against nil is an option. Go's \<^verbatim>\<open>float64\<close> counters
  are rationals. A pointer receiver that may be nil is an option.
\<close>

section \<open>Snapshots\<close>

record QoderQuotaSnapshot =
  qq_Limit :: rat
  qq_Remaining :: rat
  qq_Used :: rat
  qq_Exhausted :: bool
  qq_PlanTier :: string
  qq_UserType :: string
  qq_PaidPlan :: bool
  qq_Unit :: string
  qq_UpgradeURL :: string
  qq_ResetAt :: instant
  qq_PeriodEnd :: instant
  qq_LastKnownLimit :: rat
  qq_SyncedAt :: instant

definition QoderResyncAt :: "QoderQuotaSnapshot \<Rightarrow> instant" where
  "QoderResyncAt s =
     (if qq_SyncedAt s = 0 then 0 else if qq_ResetAt s \<noteq> 0 then qq_ResetAt s else qq_SyncedAt s)"

record WorkBuddyQuotaSnapshot =
  wq_Limit :: rat
  wq_Remaining :: rat
  wq_Used :: rat
  wq_PackageRemaining :: rat
  wq_LastConsumedUnits :: int
  wq_ResetAt :: instant
  wq_PeriodEnd :: instant
  wq_PackageName :: string
  wq_Unit :: string
  wq_SyncedAt :: instant

definition WorkBuddyResyncAt :: "WorkBuddyQuotaSnapshot \<Rightarrow> instant" where
  "WorkBuddyResyncAt s =
     (if wq_SyncedAt s = 0 then 0 else if wq_ResetAt s = 0 then wq_SyncedAt s else wq_ResetAt s)"

record GrokQuotaWindow =
  gw_Limit :: rat
  gw_Remaining :: rat
  gw_UsagePercent :: rat
  gw_HasLimit :: bool
  gw_HasRemaining :: bool
  gw_HasUsage :: bool
  gw_ResetAt :: instant

record GrokBillingSnapshot =
  gb_Weekly :: GrokQuotaWindow
  gb_Monthly :: GrokQuotaWindow
  gb_SyncedAt :: instant
  gb_Source :: string
  gb_NextProbeAt :: instant
  gb_LastProbeAt :: instant

definition GrokPaidQuotaProbeInterval :: duration where
  "GrokPaidQuotaProbeInterval = 15 * minute"

definition IsExhausted :: "GrokBillingSnapshot \<Rightarrow> bool" where
  "IsExhausted b =
     (if gw_HasLimit (gb_Monthly b) \<and> gw_Limit (gb_Monthly b) > 0 \<and>
         gw_HasRemaining (gb_Monthly b) \<and> gw_Remaining (gb_Monthly b) \<le> 0 then True
      else gw_HasUsage (gb_Weekly b) \<and> gw_UsagePercent (gb_Weekly b) \<ge> 100 \<and> gw_ResetAt (gb_Weekly b) \<noteq> 0)"

definition PeriodEnd :: "GrokBillingSnapshot \<Rightarrow> instant" where
  "PeriodEnd b =
     (if gw_ResetAt (gb_Monthly b) > gw_ResetAt (gb_Weekly b) then gw_ResetAt (gb_Monthly b)
      else gw_ResetAt (gb_Weekly b))"

record GrokRateLimitSnapshot =
  gr_Requests :: GrokQuotaWindow
  gr_Tokens :: GrokQuotaWindow
  gr_Model :: string
  gr_ObservedAt :: instant

record GrokFreeQuotaSnapshot =
  gf_Used :: rat
  gf_Limit :: rat
  gf_HasLimit :: bool
  gf_ResetAt :: instant
  gf_ConfirmedAt :: instant

section \<open>The account\<close>

text \<open>\<^verbatim>\<open>ModelCooldownReason\<close> is a string type with two known values.\<close>

definition ModelCooldownThrottled :: string where "ModelCooldownThrottled = ''throttled''"
definition ModelCooldownUnavailable :: string where "ModelCooldownUnavailable = ''unavailable''"
definition ModelCooldownEntitlementFloor :: duration where "ModelCooldownEntitlementFloor = hour"

text \<open>The provider parts of the row.\<close>

record GrokState =
  CredentialType :: string
  OAuthAccessToken :: string
  OAuthRefreshToken :: string
  OAuthExpiresAt :: instant
  TeamID :: string
  GrokProvider :: string
  GrokModels :: "string list option"
  GrokModelCatalog :: "Profile list option"
  GrokModelsSyncedAt :: instant
  GrokBilling :: GrokBillingSnapshot
  GrokRateLimits :: GrokRateLimitSnapshot
  GrokFreeQuota :: GrokFreeQuotaSnapshot

record WorkBuddyState =
  WorkBuddyAccessToken :: string
  WorkBuddyRefreshToken :: string
  WorkBuddyExpiresAt :: instant
  WorkBuddyUID :: string
  ReplaceWorkBuddyCredentials :: bool
  WorkBuddyModelIDs :: "string list"
  WorkBuddyModelsSyncedAt :: instant
  WorkBuddyQuota :: WorkBuddyQuotaSnapshot

record QoderState =
  QoderAccessToken :: string
  QoderRefreshToken :: string
  QoderExpiresAt :: instant
  ReplaceQoderCredentials :: bool
  QoderMachineID :: string
  QoderUserID :: string
  QoderUserName :: string
  QoderOrganizationID :: string
  QoderOrganizationTags :: "string list"
  QoderDataPolicy :: bool
  QoderRuntimeInfo :: string
  QoderRuntimeKey :: string
  QoderModelIDs :: "string list"
  QoderModelsSyncedAt :: instant
  QoderQuota :: QoderQuotaSnapshot

record ClineState =
  ClineAccessToken :: string
  ClineRefreshToken :: string
  ClineExpiresAt :: instant
  ClineEmail :: string
  ClinePlan :: string
  ReplaceClineCredentials :: bool
  ClineModelIDs :: "string list"
  ClineModelsSyncedAt :: instant

record Account =
  ID :: int
  Name :: string
  AccountType :: string
  ClientCookie :: string
  RefreshToken :: string
  UserID :: string
  AgentMode :: string
  Email :: string
  Weight :: int
  MaxConcurrent :: int
  Enabled :: bool
  Token :: string
  Subscription :: string
  UsageCurrent :: rat
  UsageTotal :: rat
  UsageLimit :: rat
  TokensToday :: rat
  TokensDate :: string
  StatusCode :: string
  AuthStatus :: string
  RateLimitFailures :: int
  QualityFailures :: int
  QualityCooldownUntil :: instant
  StatusMessage :: string
  LastAttempt :: instant
  VerifiedAt :: instant
  ClearVerifiedAt :: bool
  QuotaResetAt :: instant
  RequestCount :: int
  LastUsedAt :: instant
  CreatedAt :: instant
  UpdatedAt :: instant
  GrokPart :: GrokState
  ModelCooldowns :: "(string \<times> instant) list"
  ModelCooldownReasons :: "(string \<times> string) list"
  WorkBuddyPart :: WorkBuddyState
  QoderPart :: QoderState
  ClinePart :: ClineState

text \<open>The zero value \<^verbatim>\<open>Account{}\<close>, from which concrete rows are built.\<close>

definition zero_window :: GrokQuotaWindow where
  "zero_window = \<lparr>gw_Limit = 0, gw_Remaining = 0, gw_UsagePercent = 0, gw_HasLimit = False,
     gw_HasRemaining = False, gw_HasUsage = False, gw_ResetAt = 0\<rparr>"

definition zero_grok :: GrokState where
  "zero_grok = \<lparr>CredentialType = [], OAuthAccessToken = [], OAuthRefreshToken = [], OAuthExpiresAt = 0,
     TeamID = [], GrokProvider = [], GrokModels = None, GrokModelCatalog = None, GrokModelsSyncedAt = 0,
     GrokBilling = \<lparr>gb_Weekly = zero_window, gb_Monthly = zero_window, gb_SyncedAt = 0, gb_Source = [],
       gb_NextProbeAt = 0, gb_LastProbeAt = 0\<rparr>,
     GrokRateLimits = \<lparr>gr_Requests = zero_window, gr_Tokens = zero_window, gr_Model = [], gr_ObservedAt = 0\<rparr>,
     GrokFreeQuota = \<lparr>gf_Used = 0, gf_Limit = 0, gf_HasLimit = False, gf_ResetAt = 0, gf_ConfirmedAt = 0\<rparr>\<rparr>"

definition zero_workbuddy :: WorkBuddyState where
  "zero_workbuddy = \<lparr>WorkBuddyAccessToken = [], WorkBuddyRefreshToken = [], WorkBuddyExpiresAt = 0,
     WorkBuddyUID = [], ReplaceWorkBuddyCredentials = False, WorkBuddyModelIDs = [],
     WorkBuddyModelsSyncedAt = 0, WorkBuddyQuota = \<lparr>wq_Limit = 0, wq_Remaining = 0, wq_Used = 0,
       wq_PackageRemaining = 0, wq_LastConsumedUnits = 0, wq_ResetAt = 0, wq_PeriodEnd = 0,
       wq_PackageName = [], wq_Unit = [], wq_SyncedAt = 0\<rparr>\<rparr>"

definition zero_qoder :: QoderState where
  "zero_qoder = \<lparr>QoderAccessToken = [], QoderRefreshToken = [], QoderExpiresAt = 0,
     ReplaceQoderCredentials = False, QoderMachineID = [], QoderUserID = [], QoderUserName = [],
     QoderOrganizationID = [], QoderOrganizationTags = [], QoderDataPolicy = False,
     QoderRuntimeInfo = [], QoderRuntimeKey = [], QoderModelIDs = [], QoderModelsSyncedAt = 0,
     QoderQuota = \<lparr>qq_Limit = 0, qq_Remaining = 0, qq_Used = 0, qq_Exhausted = False, qq_PlanTier = [],
       qq_UserType = [], qq_PaidPlan = False, qq_Unit = [], qq_UpgradeURL = [], qq_ResetAt = 0,
       qq_PeriodEnd = 0, qq_LastKnownLimit = 0, qq_SyncedAt = 0\<rparr>\<rparr>"

definition zero_cline :: ClineState where
  "zero_cline = \<lparr>ClineAccessToken = [], ClineRefreshToken = [], ClineExpiresAt = 0, ClineEmail = [],
     ClinePlan = [], ReplaceClineCredentials = False, ClineModelIDs = [], ClineModelsSyncedAt = 0\<rparr>"

definition zero_account :: Account where
  "zero_account = \<lparr>ID = 0, Name = [], AccountType = [], ClientCookie = [], RefreshToken = [], UserID = [],
     AgentMode = [], Email = [], Weight = 0, MaxConcurrent = 0, Enabled = False, Token = [],
     Subscription = [], UsageCurrent = 0, UsageTotal = 0, UsageLimit = 0, TokensToday = 0, TokensDate = [],
     StatusCode = [], AuthStatus = [], RateLimitFailures = 0, QualityFailures = 0, QualityCooldownUntil = 0,
     StatusMessage = [], LastAttempt = 0, VerifiedAt = 0, ClearVerifiedAt = False, QuotaResetAt = 0,
     RequestCount = 0, LastUsedAt = 0, CreatedAt = 0, UpdatedAt = 0, GrokPart = zero_grok,
     ModelCooldowns = [], ModelCooldownReasons = [], WorkBuddyPart = zero_workbuddy,
     QoderPart = zero_qoder, ClinePart = zero_cline\<rparr>"

lemmas zero_defs = zero_account_def zero_cline_def zero_qoder_def zero_workbuddy_def zero_grok_def zero_window_def

definition AccountAuthStatusActive :: string where "AccountAuthStatusActive = ''active''"

definition AccountAuthActive :: "Account option \<Rightarrow> bool" where
  "AccountAuthActive acc = (case acc of None \<Rightarrow> False
     | Some a \<Rightarrow> (let status = TrimSpace (AuthStatus a) in
         status = [] \<or> EqualFold status AccountAuthStatusActive))"

section \<open>Per-model cooldowns\<close>

text \<open>\<^verbatim>\<open>m[k]\<close> of a Go map yields the zero value when the key is absent.\<close>

definition deadline_of :: "(string \<times> instant) list \<Rightarrow> string \<Rightarrow> instant" where
  "deadline_of m k = (case map_of m k of None \<Rightarrow> 0 | Some t \<Rightarrow> t)"

definition reason_of :: "(string \<times> string) list \<Rightarrow> string \<Rightarrow> string" where
  "reason_of m k = (case map_of m k of None \<Rightarrow> [] | Some t \<Rightarrow> t)"

text \<open>The body of the inner loop of \<^verbatim>\<open>mergeModelCooldowns\<close>, one entry of one source map.\<close>

definition merge_cooldown_entry ::
    "instant \<Rightarrow> string \<times> instant \<Rightarrow> (string \<times> instant) list \<Rightarrow> (string \<times> instant) list" where
  "merge_cooldown_entry now entry merged = (let name = TrimSpace (fst entry); until = snd entry in
     if name = [] \<or> until = 0 \<or> \<not> until > now then merged
     else case map_of merged name of
       None \<Rightarrow> AList.update name until merged
     | Some current \<Rightarrow> if until > current then AList.update name until merged else merged)"

definition mergeModelCooldowns ::
    "instant \<Rightarrow> (string \<times> instant) list \<Rightarrow> (string \<times> instant) list \<Rightarrow> (string \<times> instant) list" where
  "mergeModelCooldowns now existing incoming =
     fold (merge_cooldown_entry now) incoming (fold (merge_cooldown_entry now) existing [])"

definition knownModelCooldownReason :: "string \<Rightarrow> string" where
  "knownModelCooldownReason reason =
     (if reason = ModelCooldownThrottled \<or> reason = ModelCooldownUnavailable then reason else [])"

definition merge_existing_reason :: "instant \<Rightarrow> (string \<times> instant) list \<Rightarrow> string \<times> string \<Rightarrow>
    (string \<times> string) list \<Rightarrow> (string \<times> string) list" where
  "merge_existing_reason now existingUntil entry merged =
     (let name = TrimSpace (fst entry); until = deadline_of existingUntil name in
      if name = [] \<or> until = 0 \<or> \<not> until > now then merged
      else let known = knownModelCooldownReason (snd entry) in
        if known \<noteq> [] then AList.update name known merged else merged)"

definition merge_incoming_reason :: "instant \<Rightarrow> (string \<times> instant) list \<Rightarrow> (string \<times> instant) list \<Rightarrow>
    string \<times> string \<Rightarrow> (string \<times> string) list \<Rightarrow> (string \<times> string) list" where
  "merge_incoming_reason now existingUntil incomingUntil entry merged =
     (let name = TrimSpace (fst entry) in
      case map_of incomingUntil name of None \<Rightarrow> merged
      | Some until \<Rightarrow>
        if name = [] \<or> until = 0 \<or> \<not> until > now then merged
        else if (case map_of existingUntil name of None \<Rightarrow> False | Some stored \<Rightarrow> stored > until) then merged
        else let known = knownModelCooldownReason (snd entry) in
          if known \<noteq> [] then AList.update name known merged else merged)"

definition mergeModelCooldownReasons :: "instant \<Rightarrow> (string \<times> string) list \<Rightarrow> (string \<times> string) list \<Rightarrow>
    (string \<times> instant) list \<Rightarrow> (string \<times> instant) list \<Rightarrow> (string \<times> string) list" where
  "mergeModelCooldownReasons now existing incoming existingUntil incomingUntil =
     fold (merge_incoming_reason now existingUntil incomingUntil) incoming
       (fold (merge_existing_reason now existingUntil) existing [])"

definition RecordModelCooldownWithReason :: "instant \<Rightarrow> Account \<Rightarrow> string \<Rightarrow> instant \<Rightarrow> string \<Rightarrow> Account" where
  "RecordModelCooldownWithReason now acc model until reason =
     (if until = 0 \<or> \<not> until > now then acc
      else let name = TrimSpace model in
        if name = [] then acc
        else if (case map_of (ModelCooldowns acc) name of None \<Rightarrow> False | Some current \<Rightarrow> \<not> until > current) then acc
        else let known = knownModelCooldownReason reason in
          acc\<lparr>ModelCooldowns := AList.update name until (ModelCooldowns acc),
              ModelCooldownReasons := AList.update name
                (if known \<noteq> [] then known else ModelCooldownThrottled) (ModelCooldownReasons acc)\<rparr>)"

definition RecordModelCooldown :: "instant \<Rightarrow> Account \<Rightarrow> string \<Rightarrow> instant \<Rightarrow> Account" where
  "RecordModelCooldown now acc model until =
     RecordModelCooldownWithReason now acc model until ModelCooldownThrottled"

definition ModelCooldownRemaining :: "Account \<Rightarrow> string \<Rightarrow> instant \<Rightarrow> duration" where
  "ModelCooldownRemaining acc model now =
     (case map_of (ModelCooldowns acc) (TrimSpace model) of None \<Rightarrow> 0
      | Some until \<Rightarrow> if until = 0 \<or> \<not> until > now then 0 else Sub until now)"

definition ModelCooldownKind :: "Account \<Rightarrow> string \<Rightarrow> instant \<Rightarrow> string" where
  "ModelCooldownKind acc model now =
     (let name = TrimSpace model; remaining = ModelCooldownRemaining acc name now in
      if remaining \<le> 0 then []
      else let known = knownModelCooldownReason (reason_of (ModelCooldownReasons acc) name) in
        if known \<noteq> [] then known
        else if remaining > ModelCooldownEntitlementFloor then ModelCooldownUnavailable
        else ModelCooldownThrottled)"

subsection \<open>Merged deadlines\<close>

text \<open>The live deadlines a list of entries states for a model.\<close>

definition live_deadlines :: "instant \<Rightarrow> (string \<times> instant) list \<Rightarrow> string \<Rightarrow> instant list" where
  "live_deadlines now entries name =
     (if name = [] then [] else
      map snd (filter (\<lambda>(m, u). TrimSpace m = name \<and> u \<noteq> 0 \<and> u > now) entries))"

definition latest :: "instant list \<Rightarrow> instant option" where
  "latest ts = (if ts = [] then None else Some (Max (set ts)))"

lemma latest_snoc: "latest (ts @ [t]) = (case latest ts of None \<Rightarrow> Some t | Some u \<Rightarrow> Some (max u t))"
  by (auto simp: latest_def max.commute)

lemma map_of_update: "map_of (AList.update k v m) = (map_of m)(k \<mapsto> v)"
  by (rule update_conv')

lemma merge_entry_latest:
  assumes "\<forall>name. map_of merged name = latest (live_deadlines now seen name)"
  shows "map_of (merge_cooldown_entry now e merged) name = latest (live_deadlines now (seen @ [e]) name)"
proof -
  obtain m u where e: "e = (m, u)" by (cases e)
  show ?thesis
  proof (cases "TrimSpace m = name \<and> name \<noteq> [] \<and> u \<noteq> 0 \<and> u > now")
    case True
    then have "live_deadlines now (seen @ [e]) name = live_deadlines now seen name @ [u]"
      by (auto simp: live_deadlines_def e)
    then show ?thesis using True assms
      by (auto simp: merge_cooldown_entry_def e latest_snoc map_of_update max_def split: option.splits)
  next
    case False
    then have "live_deadlines now (seen @ [e]) name = live_deadlines now seen name"
      by (auto simp: live_deadlines_def e)
    then show ?thesis using False assms
      by (auto simp: merge_cooldown_entry_def e Let_def map_of_update split: option.splits)
  qed
qed

lemma merge_entries_latest:
  assumes "\<forall>name. map_of merged name = latest (live_deadlines now seen name)"
  shows "map_of (fold (merge_cooldown_entry now) es merged) name = latest (live_deadlines now (seen @ es) name)"
  using assms
proof (induction es arbitrary: merged seen name)
  case (Cons e es)
  have "map_of (fold (merge_cooldown_entry now) es (merge_cooldown_entry now e merged)) name
      = latest (live_deadlines now ((seen @ [e]) @ es) name)"
    by (rule Cons.IH) (use merge_entry_latest [OF Cons.prems] in blast)
  then show ?case by simp
qed simp

lemma mergeModelCooldowns_latest:
  "map_of (mergeModelCooldowns now existing incoming) name
     = latest (live_deadlines now (existing @ incoming) name)"
proof -
  have "\<forall>n. map_of (fold (merge_cooldown_entry now) existing []) n = latest (live_deadlines now existing n)"
    using merge_entries_latest [where merged = "[]" and seen = "[]"] by (simp add: latest_def live_deadlines_def)
  from merge_entries_latest [OF this] show ?thesis by (simp add: mergeModelCooldowns_def)
qed

lemma latest_ge: "t \<in> set ts \<Longrightarrow> \<exists>u. latest ts = Some u \<and> t \<le> u"
  by (auto simp: latest_def)

lemma latest_mem: "latest ts = Some u \<Longrightarrow> u \<in> set ts"
  unfolding latest_def by (auto split: if_splits dest!: sym [of _ u])

lemma live_deadlines_mem:
  "u \<in> set (live_deadlines now es name) \<longleftrightarrow>
     name \<noteq> [] \<and> (\<exists>m. (m, u) \<in> set es \<and> TrimSpace m = name) \<and> u \<noteq> 0 \<and> u > now"
  by (auto simp: live_deadlines_def image_iff)

lemma map_of_live:
  "map_of es name = Some u \<Longrightarrow> TrimSpace name = name \<Longrightarrow> name \<noteq> [] \<Longrightarrow> u \<noteq> 0 \<Longrightarrow> u > now
     \<Longrightarrow> u \<in> set (live_deadlines now es name)"
  by (auto simp: live_deadlines_mem dest: map_of_SomeD)

text \<open>
  Merging the stored and the incoming cooldowns of an account keeps, for every
  model, the latest of the live deadlines either side states, and nothing else: a live
  cooldown is never dropped or shortened, and an expired one never survives.
\<close>

theorem mergeModelCooldowns_keeps_latest:
  "(map_of (mergeModelCooldowns now existing incoming) name = Some t) \<longleftrightarrow>
     (t \<in> set (live_deadlines now (existing @ incoming) name) \<and>
      list_all (\<lambda>u. u \<le> t) (live_deadlines now (existing @ incoming) name))"
  unfolding mergeModelCooldowns_latest list_all_iff
  by (auto simp: latest_def Max_ge intro: Max_eqI split: if_splits)

subsection \<open>Recording a cooldown\<close>

lemma record_other_model:
  "TrimSpace model \<noteq> TrimSpace other \<Longrightarrow>
   ModelCooldownRemaining (RecordModelCooldownWithReason now acc model until reason) other now' =
   ModelCooldownRemaining acc other now'"
  by (auto simp: RecordModelCooldownWithReason_def ModelCooldownRemaining_def Let_def map_of_update)

lemma Sub_mono: "a \<le> b \<Longrightarrow> Sub a c \<le> Sub b c"
  by (auto simp: Sub_def)

lemma Sub_pos: "now < u \<Longrightarrow> 0 < Sub u now"
  by (auto simp: Sub_def max_duration_def min_duration_def)

lemma knownReason_cases:
  "knownModelCooldownReason r = r \<and> r \<noteq> [] \<or> knownModelCooldownReason r = []"
  by (auto simp: knownModelCooldownReason_def ModelCooldownThrottled_def ModelCooldownUnavailable_def)

lemma record_cooldown_deadline:
  assumes "0 < now" "now < until" "TrimSpace model \<noteq> []"
  shows "map_of (ModelCooldowns (RecordModelCooldownWithReason now acc model until reason)) (TrimSpace model)
    = Some (max until (case map_of (ModelCooldowns acc) (TrimSpace model) of None \<Rightarrow> until | Some t \<Rightarrow> t))"
  using assms by (auto simp: RecordModelCooldownWithReason_def Let_def map_of_update split: option.splits)

text \<open>
  Recording a cooldown whose deadline lies in the future leaves the model
  cooling down at least until that deadline, whatever the row held before, and the reading
  path reports the verdict the cooldown was recorded with whenever the new deadline is the
  one that stands.
\<close>

theorem RecordModelCooldown_holds:
  assumes "0 < now" "now < until" "TrimSpace model \<noteq> []"
    and acc': "acc' = RecordModelCooldownWithReason now acc model until reason"
  shows "ModelCooldownRemaining acc' model now \<ge> Sub until now \<and>
    (deadline_of (ModelCooldowns acc) (TrimSpace model) < until \<longrightarrow>
      ModelCooldownKind acc' model now =
        (if reason = ModelCooldownUnavailable then ModelCooldownUnavailable else ModelCooldownThrottled))"
proof (intro conjI impI)
  let ?n = "TrimSpace model"
  obtain t where t: "map_of (ModelCooldowns acc') ?n = Some t" "until \<le> t"
    unfolding acc' using record_cooldown_deadline [OF assms(1-3)] by simp
  then show le: "ModelCooldownRemaining acc' model now \<ge> Sub until now"
    using assms(1,2) by (auto simp: ModelCooldownRemaining_def intro: Sub_mono)
  assume "deadline_of (ModelCooldowns acc) ?n < until"
  then have "reason_of (ModelCooldownReasons acc') ?n =
      (if knownModelCooldownReason reason \<noteq> [] then knownModelCooldownReason reason else ModelCooldownThrottled)"
    using assms(1-3) unfolding acc'
    by (auto simp: RecordModelCooldownWithReason_def Let_def map_of_update reason_of_def deadline_of_def
        split: option.splits)
  moreover have "ModelCooldownRemaining acc' ?n now > 0"
    using le Sub_pos [OF assms(2)] by (simp add: ModelCooldownRemaining_def)
  ultimately show "ModelCooldownKind acc' model now =
      (if reason = ModelCooldownUnavailable then ModelCooldownUnavailable else ModelCooldownThrottled)"
    by (auto simp: ModelCooldownKind_def Let_def knownModelCooldownReason_def
        ModelCooldownThrottled_def ModelCooldownUnavailable_def)
qed

theorem RecordModelCooldown_holds_witness:
  "ModelCooldownRemaining (RecordModelCooldownWithReason 100 zero_account ''grok-4'' 160 ModelCooldownUnavailable)
     ''grok-4'' 100 \<ge> Sub 160 100 \<and>
   ModelCooldownKind (RecordModelCooldownWithReason 100 zero_account ''grok-4'' 160 ModelCooldownUnavailable)
     ''grok-4'' 100 = ModelCooldownUnavailable"
proof -
  have ne: "TrimSpace ''grok-4'' \<noteq> []" by code_simp
  have d: "deadline_of (ModelCooldowns zero_account) (TrimSpace ''grok-4'') < 160"
    by (simp add: zero_account_def deadline_of_def)
  show ?thesis
    using RecordModelCooldown_holds [of 100 160 "''grok-4''" _ zero_account ModelCooldownUnavailable] ne d
    by simp
qed

end
