(* ===== verification/Credential_Cipher.thy ===== *)
theory Credential_Cipher
  imports Account
begin

text \<open>
  Encryption of the credentials of an account row at rest
  (\<^verbatim>\<open>src/internal/store/credential_cipher.go\<close>). A stored row is an account whose credential
  fields hold what is on disk; the JSON encoding around it is left out. The AEAD of the
  Go library together with the base64 text encoding of nonce and ciphertext is a parameter, a
  record of a sealing and an opening function; a store without a key has the cipher
  \<^const>\<open>None\<close>. What the code relies on is \<open>cipher_ok\<close>: opening a sealed text gives it back.
\<close>

record credentialCipher =
  seal :: "string \<Rightarrow> string"
  unseal :: "string \<Rightarrow> string + string"

definition cipher_ok :: "credentialCipher option \<Rightarrow> bool" where
  "cipher_ok c \<longleftrightarrow> (case c of None \<Rightarrow> True | Some k \<Rightarrow> (\<forall>x. unseal k (seal k x) = Inr x))"

definition encryptedCredentialPrefix :: string where "encryptedCredentialPrefix = ''enc:v1:''"

definition encrypt :: "credentialCipher option \<Rightarrow> string \<Rightarrow> string" where
  "encrypt c val = (case c of None \<Rightarrow> val
     | Some k \<Rightarrow> if val = [] then val else encryptedCredentialPrefix @ seal k val)"

definition decrypt :: "credentialCipher option \<Rightarrow> string \<Rightarrow> string + string" where
  "decrypt c val =
     (if val = [] \<or> \<not> HasPrefix val encryptedCredentialPrefix then Inr val
      else case c of None \<Rightarrow> Inl ''encrypted credential found but no encryption key is configured''
      | Some k \<Rightarrow> unseal k (TrimPrefix val encryptedCredentialPrefix))"

text \<open>The pointers \<^verbatim>\<open>accountCredentialFields\<close> returns: a reader and a writer for each.\<close>

type_synonym field = "(Account \<Rightarrow> string) \<times> (string \<Rightarrow> Account \<Rightarrow> Account)"

definition accountCredentialFields :: "field list" where
  "accountCredentialFields =
    [(ClientCookie, \<lambda>v a. a\<lparr>ClientCookie := v\<rparr>),
     (RefreshToken, \<lambda>v a. a\<lparr>RefreshToken := v\<rparr>),
     (Token, \<lambda>v a. a\<lparr>Token := v\<rparr>),
     (\<lambda>a. OAuthAccessToken (GrokPart a), \<lambda>v a. a\<lparr>GrokPart := (GrokPart a)\<lparr>OAuthAccessToken := v\<rparr>\<rparr>),
     (\<lambda>a. OAuthRefreshToken (GrokPart a), \<lambda>v a. a\<lparr>GrokPart := (GrokPart a)\<lparr>OAuthRefreshToken := v\<rparr>\<rparr>),
     (\<lambda>a. WorkBuddyAccessToken (WorkBuddyPart a),
        \<lambda>v a. a\<lparr>WorkBuddyPart := (WorkBuddyPart a)\<lparr>WorkBuddyAccessToken := v\<rparr>\<rparr>),
     (\<lambda>a. WorkBuddyRefreshToken (WorkBuddyPart a),
        \<lambda>v a. a\<lparr>WorkBuddyPart := (WorkBuddyPart a)\<lparr>WorkBuddyRefreshToken := v\<rparr>\<rparr>),
     (\<lambda>a. QoderAccessToken (QoderPart a), \<lambda>v a. a\<lparr>QoderPart := (QoderPart a)\<lparr>QoderAccessToken := v\<rparr>\<rparr>),
     (\<lambda>a. QoderRefreshToken (QoderPart a), \<lambda>v a. a\<lparr>QoderPart := (QoderPart a)\<lparr>QoderRefreshToken := v\<rparr>\<rparr>),
     (\<lambda>a. QoderRuntimeInfo (QoderPart a), \<lambda>v a. a\<lparr>QoderPart := (QoderPart a)\<lparr>QoderRuntimeInfo := v\<rparr>\<rparr>),
     (\<lambda>a. QoderRuntimeKey (QoderPart a), \<lambda>v a. a\<lparr>QoderPart := (QoderPart a)\<lparr>QoderRuntimeKey := v\<rparr>\<rparr>),
     (\<lambda>a. ClineAccessToken (ClinePart a), \<lambda>v a. a\<lparr>ClinePart := (ClinePart a)\<lparr>ClineAccessToken := v\<rparr>\<rparr>),
     (\<lambda>a. ClineRefreshToken (ClinePart a), \<lambda>v a. a\<lparr>ClinePart := (ClinePart a)\<lparr>ClineRefreshToken := v\<rparr>\<rparr>)]"

text \<open>The intent flags of the row carry the tag \<^verbatim>\<open>json:"-"\<close>: they are never stored.\<close>

definition json_row :: "Account \<Rightarrow> Account" where
  "json_row a = a\<lparr>ClearVerifiedAt := False,
     WorkBuddyPart := (WorkBuddyPart a)\<lparr>ReplaceWorkBuddyCredentials := False\<rparr>,
     QoderPart := (QoderPart a)\<lparr>ReplaceQoderCredentials := False\<rparr>,
     ClinePart := (ClinePart a)\<lparr>ReplaceClineCredentials := False\<rparr>\<rparr>"

definition marshalAccount :: "credentialCipher option \<Rightarrow> Account \<Rightarrow> Account" where
  "marshalAccount c acc =
     json_row (fold (\<lambda>(get, put) stored. put (encrypt c (get stored)) stored) accountCredentialFields acc)"

fun decrypt_fields :: "credentialCipher option \<Rightarrow> field list \<Rightarrow> Account \<Rightarrow> string + Account" where
  "decrypt_fields c [] acc = Inr acc"
| "decrypt_fields c ((get, put) # fs) acc = (case decrypt c (get acc) of
     Inl err \<Rightarrow> Inl err
   | Inr plain \<Rightarrow> decrypt_fields c fs (put plain acc))"

definition unmarshalAccount :: "credentialCipher option \<Rightarrow> Account \<Rightarrow> int \<Rightarrow> string + Account" where
  "unmarshalAccount c row fallbackID = (case decrypt_fields c accountCredentialFields row of
     Inl err \<Rightarrow> Inl err
   | Inr acc \<Rightarrow> Inr (if ID acc = 0 then acc\<lparr>ID := fallbackID\<rparr> else acc))"

text \<open>The JSON names \<^verbatim>\<open>hasLegacyCredential\<close> looks at: the two Cline tokens are not among them.\<close>

definition legacy_names :: "(Account \<Rightarrow> string) list" where
  "legacy_names = [ClientCookie, RefreshToken, Token, \<lambda>a. OAuthAccessToken (GrokPart a),
     \<lambda>a. OAuthRefreshToken (GrokPart a), \<lambda>a. WorkBuddyAccessToken (WorkBuddyPart a),
     \<lambda>a. WorkBuddyRefreshToken (WorkBuddyPart a), \<lambda>a. QoderAccessToken (QoderPart a),
     \<lambda>a. QoderRefreshToken (QoderPart a), \<lambda>a. QoderRuntimeInfo (QoderPart a),
     \<lambda>a. QoderRuntimeKey (QoderPart a)]"

definition plaintext :: "string \<Rightarrow> bool" where
  "plaintext val \<longleftrightarrow> val \<noteq> [] \<and> \<not> HasPrefix val encryptedCredentialPrefix"

definition hasLegacyCredential :: "Account \<Rightarrow> bool" where
  "hasLegacyCredential row = list_ex (\<lambda>get. plaintext (get row)) legacy_names"

text \<open>
  The start-up migration of one row: the row it leaves behind, or the error that stops the
  migration.
\<close>

definition migrateLegacyAccountCredentials :: "credentialCipher option \<Rightarrow> int \<Rightarrow> Account \<Rightarrow> string + Account" where
  "migrateLegacyAccountCredentials c i raw =
     (case unmarshalAccount c raw i of
        Inl err \<Rightarrow> Inl err
      | Inr acc \<Rightarrow> if \<not> hasLegacyCredential raw \<or> c = None then Inr raw
          else Inr (marshalAccount c acc))"

section \<open>Round trip\<close>

text \<open>A credential the store can hold: without a key it must not look encrypted.\<close>

definition storable :: "credentialCipher option \<Rightarrow> string \<Rightarrow> bool" where
  "storable c val \<longleftrightarrow> c \<noteq> None \<or> \<not> HasPrefix val encryptedCredentialPrefix"

lemma decrypt_encrypt:
  "cipher_ok c \<Longrightarrow> storable c val \<Longrightarrow> decrypt c (encrypt c val) = Inr val"
  by (cases c) (auto simp: decrypt_def encrypt_def storable_def cipher_ok_def TrimPrefix_def
      encryptedCredentialPrefix_def)

lemma encrypt_not_plaintext: "\<not> plaintext (encrypt (Some k) val)"
  by (simp add: plaintext_def encrypt_def)

lemma json_row_id:
  "\<not> ClearVerifiedAt a \<Longrightarrow> \<not> ReplaceWorkBuddyCredentials (WorkBuddyPart a) \<Longrightarrow>
   \<not> ReplaceQoderCredentials (QoderPart a) \<Longrightarrow> \<not> ReplaceClineCredentials (ClinePart a) \<Longrightarrow> json_row a = a"
  by (simp add: json_row_def)

lemma json_row_idem [simp]: "json_row (json_row a) = json_row a"
  by (simp add: json_row_def)

lemma marshalAccount_eq:
  "marshalAccount c acc = (json_row acc)\<lparr>
     ClientCookie := encrypt c (ClientCookie acc), RefreshToken := encrypt c (RefreshToken acc),
     Token := encrypt c (Token acc),
     GrokPart := (GrokPart acc)\<lparr>OAuthAccessToken := encrypt c (OAuthAccessToken (GrokPart acc)),
       OAuthRefreshToken := encrypt c (OAuthRefreshToken (GrokPart acc))\<rparr>,
     WorkBuddyPart := (WorkBuddyPart (json_row acc))\<lparr>WorkBuddyAccessToken := encrypt c (WorkBuddyAccessToken (WorkBuddyPart acc)),
       WorkBuddyRefreshToken := encrypt c (WorkBuddyRefreshToken (WorkBuddyPart acc))\<rparr>,
     QoderPart := (QoderPart (json_row acc))\<lparr>QoderAccessToken := encrypt c (QoderAccessToken (QoderPart acc)),
       QoderRefreshToken := encrypt c (QoderRefreshToken (QoderPart acc)),
       QoderRuntimeInfo := encrypt c (QoderRuntimeInfo (QoderPart acc)),
       QoderRuntimeKey := encrypt c (QoderRuntimeKey (QoderPart acc))\<rparr>,
     ClinePart := (ClinePart (json_row acc))\<lparr>ClineAccessToken := encrypt c (ClineAccessToken (ClinePart acc)),
       ClineRefreshToken := encrypt c (ClineRefreshToken (ClinePart acc))\<rparr>\<rparr>"
  by (simp add: marshalAccount_def accountCredentialFields_def json_row_def)

lemma unmarshal_marshal:
  assumes "cipher_ok c" "list_all (\<lambda>(get, put). storable c (get acc)) accountCredentialFields" "ID acc \<noteq> 0"
  shows "unmarshalAccount c (marshalAccount c acc) fallback = Inr (json_row acc)"
  using assms
  by (simp add: unmarshalAccount_def marshalAccount_eq accountCredentialFields_def decrypt_encrypt json_row_def)

lemma storable_fields: "list_all (\<lambda>(get, put). storable (Some k) (get acc)) accountCredentialFields"
  by (simp add: accountCredentialFields_def storable_def)



section \<open>Migration\<close>

lemma migrate_no_legacy:
  assumes "hasLegacyCredential raw" "migrateLegacyAccountCredentials (Some k) i raw = Inr row"
  shows "\<not> hasLegacyCredential row"
  using assms
  by (auto simp: migrateLegacyAccountCredentials_def hasLegacyCredential_def legacy_names_def
      marshalAccount_eq encrypt_not_plaintext split: sum.splits)

text \<open>
  The migration misses the Cline channel: for every cipher, a row whose only
  plaintext credential is a Cline token is left as it is, in plaintext, although the writer
  encrypts that field in every row it writes.
\<close>

theorem migration_keeps_cline_plaintext:
  "migrateLegacyAccountCredentials (Some k) 1
     (zero_account\<lparr>ID := 1, ClinePart := zero_cline\<lparr>ClineRefreshToken := ''token''\<rparr>\<rparr>)
   = Inr (zero_account\<lparr>ID := 1, ClinePart := zero_cline\<lparr>ClineRefreshToken := ''token''\<rparr>\<rparr>) \<and>
   \<not> plaintext (ClineRefreshToken (ClinePart (marshalAccount (Some k)
     (zero_account\<lparr>ID := 1, ClinePart := zero_cline\<lparr>ClineRefreshToken := ''token''\<rparr>\<rparr>))))"
  by (simp add: migrateLegacyAccountCredentials_def unmarshalAccount_def accountCredentialFields_def
      hasLegacyCredential_def legacy_names_def plaintext_def decrypt_def encryptedCredentialPrefix_def
      marshalAccount_eq encrypt_def zero_defs)

end
