(* ===== verification/Account_Merge.thy ===== *)
theory Account_Merge
  imports Credential_Cipher
begin

text \<open>
  The merge of a partial account snapshot into the stored row
  (\<^verbatim>\<open>src/internal/store/account_merge.go\<close>, \<^verbatim>\<open>credential_patch.go\<close> and the mutation of
  \<^verbatim>\<open>UpdateAccount\<close> in \<^verbatim>\<open>redis_store.go\<close>). One definition per merge step, each a function on the
  patch record whose field \<open>updated\<close> is the row under construction. The clock of the step
  that prunes expired cooldowns is an argument.
\<close>

section \<open>Model\<close>

record accountPatch =
  updated :: Account
  incoming :: Account
  existing :: Account
  staleSnapshot :: bool

text \<open>\<^verbatim>\<open>patchString(&target, incoming)\<close>: the new value of the target.\<close>

definition patchString :: "string \<Rightarrow> string \<Rightarrow> string" where
  "patchString target new = (let val = TrimSpace new in if val \<noteq> [] then val else target)"

text \<open>\<^verbatim>\<open>applyCredentialPatch\<close>: the new access token, refresh token and expiry, or the error.\<close>

definition applyCredentialPatch :: "string \<Rightarrow> string \<Rightarrow> string \<Rightarrow> string \<Rightarrow> instant \<Rightarrow>
    string \<Rightarrow> string \<Rightarrow> instant \<Rightarrow> string + string \<times> string \<times> instant" where
  "applyCredentialPatch channel expected0 access refresh0 expires accessTarget refreshTarget expiresTarget =
     (let expected = TrimSpace expected0; refresh = TrimSpace refresh0 in
      if expected \<noteq> [] \<and> refreshTarget \<noteq> expected \<and> refreshTarget \<noteq> refresh
      then Inl (channel @ '' credential changed concurrently'')
      else Inr (patchString accessTarget access, patchString refreshTarget refresh,
        if expires \<noteq> 0 then expires else expiresTarget))"

definition workBuddyMeterReadingIsNewer :: "Account \<Rightarrow> Account \<Rightarrow> bool" where
  "workBuddyMeterReadingIsNewer acc stored =
     (if wq_SyncedAt (WorkBuddyQuota (WorkBuddyPart acc)) = 0 then False
      else \<not> wq_SyncedAt (WorkBuddyQuota (WorkBuddyPart acc)) < wq_SyncedAt (WorkBuddyQuota (WorkBuddyPart stored)))"

definition mergeIdentity :: "accountPatch \<Rightarrow> accountPatch" where
  "mergeIdentity p = (let acc = incoming p in p\<lparr>updated := (updated p)\<lparr>
     Name := Name acc,
     AccountType := (if AccountType acc = [] then AccountType (existing p) else AccountType acc),
     ClientCookie := ClientCookie acc,
     RefreshToken := RefreshToken acc,
     UserID := UserID acc,
     AgentMode := AgentMode acc,
     Email := Email acc,
     Weight := Weight acc,
     MaxConcurrent := MaxConcurrent acc,
     Enabled := Enabled acc,
     Token := Token acc,
     Subscription := Subscription acc\<rparr>\<rparr>)"

definition mergeUsageMeter :: "accountPatch \<Rightarrow> accountPatch" where
  "mergeUsageMeter p =
     (if \<not> EqualFold (AccountType (incoming p)) ''workbuddy'' \<or> workBuddyMeterReadingIsNewer (incoming p) (existing p)
      then p\<lparr>updated := (updated p)\<lparr>UsageCurrent := UsageCurrent (incoming p), UsageLimit := UsageLimit (incoming p)\<rparr>\<rparr>
      else p)"

definition mergeStatusAndVerdict :: "accountPatch \<Rightarrow> accountPatch" where
  "mergeStatusAndVerdict p = (let acc = incoming p; u = updated p in p\<lparr>updated := u\<lparr>
     StatusCode := StatusCode acc,
     AuthStatus := (if ClearVerifiedAt acc then AccountAuthStatusActive else AuthStatus acc),
     RateLimitFailures := RateLimitFailures acc,
     StatusMessage := (if TrimSpace (StatusCode acc) = [] then [] else StatusMessage acc),
     LastAttempt := LastAttempt acc,
     VerifiedAt := (if ClearVerifiedAt acc then 0
       else if VerifiedAt acc \<noteq> 0 then VerifiedAt acc else VerifiedAt u),
     ClearVerifiedAt := False,
     QuotaResetAt := (if QuotaResetAt acc > QuotaResetAt u then QuotaResetAt acc
       else if \<not> staleSnapshot p then QuotaResetAt acc else QuotaResetAt u)\<rparr>\<rparr>)"

text \<open>\<^verbatim>\<open>append([]string(nil), xs...)\<close> is nil when \<^verbatim>\<open>xs\<close> is empty.\<close>

definition copy_slice :: "'a list \<Rightarrow> 'a list option" where
  "copy_slice xs = (if xs = [] then None else Some xs)"

definition mergeGrokState :: "accountPatch \<Rightarrow> GrokState \<Rightarrow> GrokState \<Rightarrow> GrokState \<Rightarrow> GrokState" where
  "mergeGrokState p acc stored u =
     (let modelsNewer = GrokModelsSyncedAt acc > GrokModelsSyncedAt stored;
          fresh = (\<not> staleSnapshot p \<or> modelsNewer) in u\<lparr>
     CredentialType := (if TrimSpace (CredentialType acc) = [] then CredentialType stored else CredentialType acc),
     OAuthAccessToken := OAuthAccessToken acc,
     OAuthRefreshToken := OAuthRefreshToken acc,
     OAuthExpiresAt := OAuthExpiresAt acc,
     TeamID := (if TrimSpace (TeamID acc) = [] then TeamID stored else TeamID acc),
     GrokProvider := (if TrimSpace (GrokProvider acc) = [] then GrokProvider stored else GrokProvider acc),
     GrokModels := (case GrokModels acc of Some ms \<Rightarrow> if fresh then copy_slice ms else GrokModels u | None \<Rightarrow> GrokModels u),
     GrokModelCatalog := (case GrokModelCatalog acc of
         Some ps \<Rightarrow> if fresh then Some (CloneProfiles ps) else GrokModelCatalog u | None \<Rightarrow> GrokModelCatalog u),
     GrokModelsSyncedAt := (if GrokModelsSyncedAt acc \<noteq> 0 \<and> fresh then GrokModelsSyncedAt acc else GrokModelsSyncedAt u),
     GrokBilling := (if gb_SyncedAt (GrokBilling acc) \<noteq> 0 then GrokBilling acc else GrokBilling u),
     GrokRateLimits := (if gr_ObservedAt (GrokRateLimits acc) \<noteq> 0 then GrokRateLimits acc else GrokRateLimits u),
     GrokFreeQuota := (if gf_ConfirmedAt (GrokFreeQuota acc) \<noteq> 0 then GrokFreeQuota acc else GrokFreeQuota u)\<rparr>)"

definition mergeGrokCredentials :: "accountPatch \<Rightarrow> accountPatch" where
  "mergeGrokCredentials p = p\<lparr>updated := (updated p)\<lparr>GrokPart :=
     mergeGrokState p (GrokPart (incoming p)) (GrokPart (existing p)) (GrokPart (updated p))\<rparr>\<rparr>"

definition mergeModelCooldownState :: "instant \<Rightarrow> accountPatch \<Rightarrow> accountPatch" where
  "mergeModelCooldownState now p = p\<lparr>updated := (updated p)\<lparr>
     ModelCooldowns := mergeModelCooldowns now (ModelCooldowns (existing p)) (ModelCooldowns (incoming p)),
     ModelCooldownReasons := mergeModelCooldownReasons now
       (ModelCooldownReasons (existing p)) (ModelCooldownReasons (incoming p))
       (ModelCooldowns (existing p)) (ModelCooldowns (incoming p))\<rparr>\<rparr>"

definition mergeWorkBuddyCredentials :: "accountPatch \<Rightarrow> accountPatch" where
  "mergeWorkBuddyCredentials p = (let acc = WorkBuddyPart (incoming p); u = WorkBuddyPart (updated p);
       r = ReplaceWorkBuddyCredentials acc in
     p\<lparr>updated := (updated p)\<lparr>WorkBuddyPart := u\<lparr>
       WorkBuddyAccessToken := (if r then TrimSpace (WorkBuddyAccessToken acc) else WorkBuddyAccessToken u),
       WorkBuddyRefreshToken := (if r then TrimSpace (WorkBuddyRefreshToken acc) else WorkBuddyRefreshToken u),
       WorkBuddyExpiresAt := (if r then WorkBuddyExpiresAt acc else WorkBuddyExpiresAt u),
       WorkBuddyUID := patchString (WorkBuddyUID u) (WorkBuddyUID acc),
       WorkBuddyModelIDs := (if WorkBuddyModelIDs acc \<noteq> [] then WorkBuddyModelIDs acc else WorkBuddyModelIDs u),
       WorkBuddyModelsSyncedAt := (if WorkBuddyModelsSyncedAt acc \<noteq> 0 then WorkBuddyModelsSyncedAt acc
         else WorkBuddyModelsSyncedAt u),
       WorkBuddyQuota := (if workBuddyMeterReadingIsNewer (incoming p) (existing p) then WorkBuddyQuota acc
         else WorkBuddyQuota u)\<rparr>\<rparr>\<rparr>)"

definition mergeQoderCredentials :: "accountPatch \<Rightarrow> accountPatch" where
  "mergeQoderCredentials p = (let acc = QoderPart (incoming p); stored = QoderPart (existing p);
       u = QoderPart (updated p); r = ReplaceQoderCredentials acc in
     p\<lparr>updated := (updated p)\<lparr>QoderPart := u\<lparr>
       QoderAccessToken := (if r then TrimSpace (QoderAccessToken acc) else QoderAccessToken u),
       QoderRefreshToken := (if r then TrimSpace (QoderRefreshToken acc) else QoderRefreshToken u),
       QoderExpiresAt := (if r then QoderExpiresAt acc else QoderExpiresAt u),
       QoderMachineID := (if r then TrimSpace (QoderMachineID acc) else QoderMachineID u),
       QoderRuntimeInfo := (if r then TrimSpace (QoderRuntimeInfo acc) else QoderRuntimeInfo u),
       QoderRuntimeKey := (if r then TrimSpace (QoderRuntimeKey acc) else QoderRuntimeKey u),
       QoderUserID := patchString (QoderUserID u) (QoderUserID acc),
       QoderUserName := patchString (QoderUserName u) (QoderUserName acc),
       QoderOrganizationID := patchString (QoderOrganizationID u) (QoderOrganizationID acc),
       QoderOrganizationTags := (if QoderOrganizationTags acc \<noteq> [] then QoderOrganizationTags acc
         else QoderOrganizationTags u),
       QoderDataPolicy := (if QoderDataPolicy acc then True else QoderDataPolicy u),
       QoderModelIDs := (if QoderModelIDs acc \<noteq> [] then QoderModelIDs acc else QoderModelIDs u),
       QoderModelsSyncedAt := (if QoderModelsSyncedAt acc \<noteq> 0 \<and>
           (QoderModelsSyncedAt stored = 0 \<or> \<not> QoderModelsSyncedAt acc < QoderModelsSyncedAt stored)
         then QoderModelsSyncedAt acc else QoderModelsSyncedAt u),
       QoderQuota := (if qq_SyncedAt (QoderQuota acc) \<noteq> 0 \<and>
           (qq_SyncedAt (QoderQuota stored) = 0 \<or> \<not> qq_SyncedAt (QoderQuota acc) < qq_SyncedAt (QoderQuota stored))
         then QoderQuota acc else QoderQuota u)\<rparr>\<rparr>\<rparr>)"

definition mergeClineCredentials :: "accountPatch \<Rightarrow> accountPatch" where
  "mergeClineCredentials p = (let acc = ClinePart (incoming p); stored = ClinePart (existing p);
       u = ClinePart (updated p); r = ReplaceClineCredentials acc in
     p\<lparr>updated := (updated p)\<lparr>ClinePart := u\<lparr>
       ClineAccessToken := (if r then TrimSpace (ClineAccessToken acc) else ClineAccessToken u),
       ClineRefreshToken := (if r then TrimSpace (ClineRefreshToken acc) else ClineRefreshToken u),
       ClineExpiresAt := (if r then ClineExpiresAt acc else ClineExpiresAt u),
       ClineEmail := patchString (ClineEmail u) (ClineEmail acc),
       ClinePlan := patchString (ClinePlan u) (ClinePlan acc),
       ClineModelIDs := (if ClineModelIDs acc \<noteq> [] then ClineModelIDs acc else ClineModelIDs u),
       ClineModelsSyncedAt := (if ClineModelsSyncedAt acc \<noteq> 0 \<and>
           (ClineModelsSyncedAt stored = 0 \<or> \<not> ClineModelsSyncedAt acc < ClineModelsSyncedAt stored)
         then ClineModelsSyncedAt acc else ClineModelsSyncedAt u)\<rparr>\<rparr>\<rparr>)"

text \<open>The closure \<^verbatim>\<open>UpdateAccount\<close> hands to the atomic update.\<close>

definition merge_account :: "instant \<Rightarrow> Account \<Rightarrow> Account \<Rightarrow> Account" where
  "merge_account now acc stored =
     (let p = \<lparr>updated = stored, incoming = acc, existing = stored,
               staleSnapshot = (UpdatedAt acc \<noteq> 0 \<and> UpdatedAt acc < UpdatedAt stored)\<rparr> in
      updated (mergeClineCredentials (mergeQoderCredentials (mergeWorkBuddyCredentials
        (mergeModelCooldownState now (mergeGrokCredentials (mergeStatusAndVerdict
          (mergeUsageMeter (mergeIdentity p)))))))))"

lemmas merge_steps = mergeClineCredentials_def mergeQoderCredentials_def mergeWorkBuddyCredentials_def
  mergeModelCooldownState_def mergeGrokCredentials_def mergeStatusAndVerdict_def mergeUsageMeter_def
  mergeIdentity_def

section \<open>What a merge leaves alone\<close>

text \<open>
  The fields owned by other writers: the counters of the increment script, the verdict of the
  quality guard, the identity of the row and its version marker.
\<close>

definition owned_elsewhere :: "Account \<Rightarrow> rat \<times> rat \<times> string \<times> int \<times> instant \<times> int \<times> instant \<times> int \<times> instant \<times> instant" where
  "owned_elsewhere a = (UsageTotal a, TokensToday a, TokensDate a, RequestCount a, LastUsedAt a,
     QualityFailures a, QualityCooldownUntil a, ID a, CreatedAt a, UpdatedAt a)"

text \<open>Every step reads the same snapshot and row, and keeps the fields of the other writers.\<close>

lemma step_context [simp]:
  "incoming (mergeIdentity p) = incoming p"
  "incoming (mergeUsageMeter p) = incoming p"
  "incoming (mergeStatusAndVerdict p) = incoming p"
  "incoming (mergeGrokCredentials p) = incoming p"
  "incoming (mergeModelCooldownState now p) = incoming p"
  "incoming (mergeWorkBuddyCredentials p) = incoming p"
  "incoming (mergeQoderCredentials p) = incoming p"
  "incoming (mergeClineCredentials p) = incoming p"
  "existing (mergeIdentity p) = existing p"
  "existing (mergeUsageMeter p) = existing p"
  "existing (mergeStatusAndVerdict p) = existing p"
  "existing (mergeGrokCredentials p) = existing p"
  "existing (mergeModelCooldownState now p) = existing p"
  "existing (mergeWorkBuddyCredentials p) = existing p"
  "existing (mergeQoderCredentials p) = existing p"
  "existing (mergeClineCredentials p) = existing p"
  "staleSnapshot (mergeIdentity p) = staleSnapshot p"
  "staleSnapshot (mergeUsageMeter p) = staleSnapshot p"
  "staleSnapshot (mergeStatusAndVerdict p) = staleSnapshot p"
  "staleSnapshot (mergeGrokCredentials p) = staleSnapshot p"
  "staleSnapshot (mergeModelCooldownState now p) = staleSnapshot p"
  "staleSnapshot (mergeWorkBuddyCredentials p) = staleSnapshot p"
  "staleSnapshot (mergeQoderCredentials p) = staleSnapshot p"
  "staleSnapshot (mergeClineCredentials p) = staleSnapshot p"
  by (simp_all add: merge_steps Let_def)

lemma step_owned [simp]:
  "owned_elsewhere (updated (mergeIdentity p)) = owned_elsewhere (updated p)"
  "owned_elsewhere (updated (mergeUsageMeter p)) = owned_elsewhere (updated p)"
  "owned_elsewhere (updated (mergeStatusAndVerdict p)) = owned_elsewhere (updated p)"
  "owned_elsewhere (updated (mergeGrokCredentials p)) = owned_elsewhere (updated p)"
  "owned_elsewhere (updated (mergeModelCooldownState now p)) = owned_elsewhere (updated p)"
  "owned_elsewhere (updated (mergeWorkBuddyCredentials p)) = owned_elsewhere (updated p)"
  "owned_elsewhere (updated (mergeQoderCredentials p)) = owned_elsewhere (updated p)"
  "owned_elsewhere (updated (mergeClineCredentials p)) = owned_elsewhere (updated p)"
  by (simp_all add: merge_steps Let_def owned_elsewhere_def)

text \<open>Each provider part and the cooldowns are written by one step only.\<close>

lemma step_parts [simp]:
  "ClinePart (updated (mergeIdentity p)) = ClinePart (updated p)"
  "ClinePart (updated (mergeUsageMeter p)) = ClinePart (updated p)"
  "ClinePart (updated (mergeStatusAndVerdict p)) = ClinePart (updated p)"
  "ClinePart (updated (mergeGrokCredentials p)) = ClinePart (updated p)"
  "ClinePart (updated (mergeModelCooldownState now p)) = ClinePart (updated p)"
  "ClinePart (updated (mergeWorkBuddyCredentials p)) = ClinePart (updated p)"
  "ClinePart (updated (mergeQoderCredentials p)) = ClinePart (updated p)"
  "QoderPart (updated (mergeIdentity p)) = QoderPart (updated p)"
  "QoderPart (updated (mergeUsageMeter p)) = QoderPart (updated p)"
  "QoderPart (updated (mergeStatusAndVerdict p)) = QoderPart (updated p)"
  "QoderPart (updated (mergeGrokCredentials p)) = QoderPart (updated p)"
  "QoderPart (updated (mergeModelCooldownState now p)) = QoderPart (updated p)"
  "QoderPart (updated (mergeWorkBuddyCredentials p)) = QoderPart (updated p)"
  "QoderPart (updated (mergeClineCredentials p)) = QoderPart (updated p)"
  "WorkBuddyPart (updated (mergeIdentity p)) = WorkBuddyPart (updated p)"
  "WorkBuddyPart (updated (mergeUsageMeter p)) = WorkBuddyPart (updated p)"
  "WorkBuddyPart (updated (mergeStatusAndVerdict p)) = WorkBuddyPart (updated p)"
  "WorkBuddyPart (updated (mergeGrokCredentials p)) = WorkBuddyPart (updated p)"
  "WorkBuddyPart (updated (mergeModelCooldownState now p)) = WorkBuddyPart (updated p)"
  "WorkBuddyPart (updated (mergeQoderCredentials p)) = WorkBuddyPart (updated p)"
  "WorkBuddyPart (updated (mergeClineCredentials p)) = WorkBuddyPart (updated p)"
  "ModelCooldowns (updated (mergeIdentity p)) = ModelCooldowns (updated p)"
  "ModelCooldowns (updated (mergeUsageMeter p)) = ModelCooldowns (updated p)"
  "ModelCooldowns (updated (mergeStatusAndVerdict p)) = ModelCooldowns (updated p)"
  "ModelCooldowns (updated (mergeGrokCredentials p)) = ModelCooldowns (updated p)"
  "ModelCooldowns (updated (mergeWorkBuddyCredentials p)) = ModelCooldowns (updated p)"
  "ModelCooldowns (updated (mergeQoderCredentials p)) = ModelCooldowns (updated p)"
  "ModelCooldowns (updated (mergeClineCredentials p)) = ModelCooldowns (updated p)"
  "QuotaResetAt (updated (mergeIdentity p)) = QuotaResetAt (updated p)"
  "QuotaResetAt (updated (mergeUsageMeter p)) = QuotaResetAt (updated p)"
  "QuotaResetAt (updated (mergeGrokCredentials p)) = QuotaResetAt (updated p)"
  "QuotaResetAt (updated (mergeModelCooldownState now p)) = QuotaResetAt (updated p)"
  "QuotaResetAt (updated (mergeWorkBuddyCredentials p)) = QuotaResetAt (updated p)"
  "QuotaResetAt (updated (mergeQoderCredentials p)) = QuotaResetAt (updated p)"
  "QuotaResetAt (updated (mergeClineCredentials p)) = QuotaResetAt (updated p)"
  by (simp_all add: merge_steps Let_def)

lemma merge_account_owned: "owned_elsewhere (merge_account now acc stored) = owned_elsewhere stored"
  by (simp add: merge_account_def Let_def)

lemma merge_account_quota_reset:
  "QuotaResetAt (merge_account now acc stored) =
     (if UpdatedAt acc \<noteq> 0 \<and> UpdatedAt acc < UpdatedAt stored
      then max (QuotaResetAt acc) (QuotaResetAt stored) else QuotaResetAt acc)"
  by (simp add: merge_account_def Let_def) (simp add: mergeStatusAndVerdict_def Let_def)

lemma merge_account_cooldowns:
  "ModelCooldowns (merge_account now acc stored) = mergeModelCooldowns now (ModelCooldowns stored) (ModelCooldowns acc)"
  by (simp add: merge_account_def Let_def) (simp add: mergeModelCooldownState_def)

lemma merge_account_parts:
  assumes "\<not> ReplaceWorkBuddyCredentials (WorkBuddyPart acc)" "\<not> ReplaceQoderCredentials (QoderPart acc)"
    "\<not> ReplaceClineCredentials (ClinePart acc)"
  shows "WorkBuddyAccessToken (WorkBuddyPart (merge_account now acc stored)) = WorkBuddyAccessToken (WorkBuddyPart stored)"
    "WorkBuddyRefreshToken (WorkBuddyPart (merge_account now acc stored)) = WorkBuddyRefreshToken (WorkBuddyPart stored)"
    "WorkBuddyExpiresAt (WorkBuddyPart (merge_account now acc stored)) = WorkBuddyExpiresAt (WorkBuddyPart stored)"
    "QoderAccessToken (QoderPart (merge_account now acc stored)) = QoderAccessToken (QoderPart stored)"
    "QoderRefreshToken (QoderPart (merge_account now acc stored)) = QoderRefreshToken (QoderPart stored)"
    "QoderRuntimeKey (QoderPart (merge_account now acc stored)) = QoderRuntimeKey (QoderPart stored)"
    "ClineAccessToken (ClinePart (merge_account now acc stored)) = ClineAccessToken (ClinePart stored)"
    "ClineRefreshToken (ClinePart (merge_account now acc stored)) = ClineRefreshToken (ClinePart stored)"
  using assms
  by (simp_all add: merge_account_def Let_def)
    (simp_all add: mergeClineCredentials_def mergeQoderCredentials_def mergeWorkBuddyCredentials_def Let_def)

text \<open>
  A snapshot read before the row was last written can only extend the deadline
  of a quota reset: the row keeps the later of the two deadlines, so a request that finishes
  late never erases what a quota refresh wrote meanwhile.
\<close>

theorem stale_snapshot_extends_only:
  assumes "UpdatedAt acc \<noteq> 0" "UpdatedAt acc < UpdatedAt stored"
  shows "QuotaResetAt (merge_account now acc stored) = max (QuotaResetAt acc) (QuotaResetAt stored)"
  using assms by (simp add: merge_account_quota_reset)

theorem stale_snapshot_extends_only_witness:
  "QuotaResetAt (merge_account 50 (zero_account\<lparr>UpdatedAt := 10\<rparr>) (zero_account\<lparr>UpdatedAt := 20, QuotaResetAt := 90\<rparr>)) = 90"
  using stale_snapshot_extends_only [of "zero_account\<lparr>UpdatedAt := 10\<rparr>" "zero_account\<lparr>UpdatedAt := 20, QuotaResetAt := 90\<rparr>" 50]
  by (simp add: zero_account_def)



text \<open>
  A live per-model cooldown of the stored row survives every merge, with the same
  deadline or a later one: no snapshot, stale or not, can put a throttled model back into
  rotation early.
\<close>

theorem merge_never_shortens_cooldown:
  assumes "map_of (ModelCooldowns stored) name = Some t" "TrimSpace name = name" "name \<noteq> []" "0 < now" "now < t"
  shows "\<exists>u \<ge> t. map_of (ModelCooldowns (merge_account now acc stored)) name = Some u"
proof -
  have "t \<in> set (live_deadlines now (ModelCooldowns stored @ ModelCooldowns acc) name)"
    using map_of_live [OF assms(1-3)] assms(4,5) by (auto simp: live_deadlines_def)
  from latest_ge [OF this] show ?thesis
    by (auto simp: merge_account_cooldowns mergeModelCooldowns_latest)
qed

theorem merge_never_shortens_cooldown_witness:
  "\<exists>u \<ge> 90. map_of (ModelCooldowns (merge_account 50 zero_account (zero_account\<lparr>ModelCooldowns := [(''m'', 90)]\<rparr>))) ''m'' = Some u"
proof -
  have "TrimSpace ''m'' = ''m''" by code_simp
  then show ?thesis
    using merge_never_shortens_cooldown [of "zero_account\<lparr>ModelCooldowns := [(''m'', 90)]\<rparr>" "''m''" 90 50 zero_account]
    by simp
qed

end
