(* ===== verification/Account_Store.thy ===== *)
theory Account_Store
  imports Account_Merge
begin

text \<open>
  The Redis account store (\<^verbatim>\<open>src/internal/store/redis_store.go\<close>, the account script of
  \<^verbatim>\<open>redis_scripts.go\<close>, \<^verbatim>\<open>account_changes.go\<close> and \<^verbatim>\<open>redis_batch.go\<close>). The state holds the rows as
  they are on disk, the two index sets, the id counter, the operation ids of the statistics
  script and the pending change notifications. Redis executes one command, transaction or
  script at a time; a transaction that lost its optimistic lock is a \<open>Raced\<close> entry of the list
  of races, which carries the store the competing writer left. Network failures are left out.
\<close>

section \<open>State\<close>

record AccountChange =
  ch_Previous :: "Account option"
  ch_Origin :: string

record redisStore =
  rows :: "int \<rightharpoonup> Account"
  ids :: "int set"
  enabled :: "int set"
  next_id :: int
  stats_operations :: "int \<Rightarrow> string set \<times> instant"
  changeEmitter :: bool
  changeClosed :: bool
  changePending :: "int \<rightharpoonup> AccountChange"

definition pipeAccountMembership :: "int \<Rightarrow> bool \<Rightarrow> redisStore \<Rightarrow> redisStore" where
  "pipeAccountMembership i on s = s\<lparr>ids := insert i (ids s),
     enabled := (if on then insert i (enabled s) else enabled s - {i})\<rparr>"

definition publishChange :: "string \<Rightarrow> Account option \<Rightarrow> int \<Rightarrow> redisStore \<Rightarrow> redisStore" where
  "publishChange origin previous i s =
     (if i = 0 then s
      else if \<not> changeEmitter s \<or> changeClosed s then s
      else case changePending s i of
        Some pending \<Rightarrow> s\<lparr>changePending := (changePending s)(i \<mapsto> pending\<lparr>ch_Origin := TrimSpace origin\<rparr>)\<rparr>
      | None \<Rightarrow> s\<lparr>changePending := (changePending s)(i \<mapsto> \<lparr>ch_Previous = previous, ch_Origin = TrimSpace origin\<rparr>)\<rparr>)"

text \<open>
  \<^verbatim>\<open>flushChanges\<close> takes the pending changes one by one in the order \<^verbatim>\<open>range\<close> visits them, here
  the given list of ids, and hands each to the emitter; the list returned is what the emitter
  received.
\<close>

fun flushChanges :: "int list \<Rightarrow> redisStore \<Rightarrow> (int \<times> AccountChange) list \<times> redisStore" where
  "flushChanges [] s = ([], s)"
| "flushChanges (i # order) s = (case changePending s i of
     None \<Rightarrow> flushChanges order s
   | Some change \<Rightarrow>
       let (sent, s') = flushChanges order (s\<lparr>changePending := (changePending s)(i := None)\<rparr>)
       in (if changeEmitter s then (i, change) # sent else sent, s'))"

section \<open>Reading\<close>

definition getAccount :: "credentialCipher option \<Rightarrow> int \<Rightarrow> redisStore \<Rightarrow> string + Account" where
  "getAccount c i s = (if i = 0 then Inl ''no rows''
     else case rows s i of None \<Rightarrow> Inl ''no rows'' | Some row \<Rightarrow> unmarshalAccount c row i)"

text \<open>The decoding loop of \<^verbatim>\<open>getAccountsByIDs\<close> over the sorted ids: the first decode error wins.\<close>

fun decode_rows :: "credentialCipher option \<Rightarrow> redisStore \<Rightarrow> bool \<Rightarrow> int list \<Rightarrow> string + Account list" where
  "decode_rows c s onlyEnabled [] = Inr []"
| "decode_rows c s onlyEnabled (i # is) = (case rows s i of
     None \<Rightarrow> decode_rows c s onlyEnabled is
   | Some row \<Rightarrow> (case unmarshalAccount c row i of
       Inl err \<Rightarrow> Inl err
     | Inr acc \<Rightarrow> (case decode_rows c s onlyEnabled is of
         Inl err \<Rightarrow> Inl err
       | Inr accs \<Rightarrow> Inr (if onlyEnabled \<and> \<not> Enabled acc then accs else acc # accs))))"

definition getAccountsByIDs :: "credentialCipher option \<Rightarrow> redisStore \<Rightarrow> int set \<Rightarrow> bool \<Rightarrow> string + Account list" where
  "getAccountsByIDs c s is onlyEnabled = decode_rows c s onlyEnabled (sorted_list_of_set is)"

definition ListAccounts :: "credentialCipher option \<Rightarrow> redisStore \<Rightarrow> string + Account list" where
  "ListAccounts c s = getAccountsByIDs c s (ids s) False"

definition GetEnabledAccounts :: "credentialCipher option \<Rightarrow> redisStore \<Rightarrow> string + Account list" where
  "GetEnabledAccounts c s = getAccountsByIDs c s (enabled s) True"

section \<open>Creating and deleting\<close>

definition CreateAccount :: "credentialCipher option \<Rightarrow> instant \<Rightarrow> string \<Rightarrow> Account \<Rightarrow> redisStore \<Rightarrow> redisStore" where
  "CreateAccount c now origin acc s =
     (let i = next_id s + 1;
          acc' = acc\<lparr>ID := i,
            CreatedAt := (if CreatedAt acc = 0 then now else CreatedAt acc),
            UpdatedAt := (if UpdatedAt acc = 0 then now else UpdatedAt acc)\<rparr>;
          s1 = s\<lparr>next_id := i, rows := (rows s)(i \<mapsto> marshalAccount c acc')\<rparr>
      in publishChange origin None i (pipeAccountMembership i (Enabled acc') s1))"

definition DeleteAccount :: "credentialCipher option \<Rightarrow> string \<Rightarrow> int \<Rightarrow> redisStore \<Rightarrow> string option \<times> redisStore" where
  "DeleteAccount c origin i s =
     (if i = 0 then (None, s)
      else let s' = s\<lparr>rows := (rows s)(i := None), stats_operations := (stats_operations s)(i := ({}, 0)),
                      ids := ids s - {i}, enabled := enabled s - {i}\<rparr>
        in case rows s i of
          None \<Rightarrow> (None, s')
        | Some row \<Rightarrow> (case unmarshalAccount c row i of
            Inl err \<Rightarrow> (Some err, s)
          | Inr previous \<Rightarrow> (None, publishChange origin (Some previous) i s')))"

section \<open>The atomic update\<close>

text \<open>\<^verbatim>\<open>reflect.DeepEqual\<close> on two accounts: maps are compared as maps.\<close>

definition same_map :: "('a \<times> 'b) list \<Rightarrow> ('a \<times> 'b) list \<Rightarrow> bool" where
  "same_map m n = list_all (\<lambda>(k, _). map_of m k = map_of n k) (m @ n)"

definition DeepEqual :: "Account \<Rightarrow> Account \<Rightarrow> bool" where
  "DeepEqual a b \<longleftrightarrow>
     a\<lparr>ModelCooldowns := [], ModelCooldownReasons := []\<rparr> = b\<lparr>ModelCooldowns := [], ModelCooldownReasons := []\<rparr> \<and>
     same_map (ModelCooldowns a) (ModelCooldowns b) \<and> same_map (ModelCooldownReasons a) (ModelCooldownReasons b)"

text \<open>
  The outcome of an atomic update: no such row (the caller sees success), an error of the
  mutation or of decoding, nothing to change, a committed write, or eight lost races.
\<close>

datatype 'r outcome = NoRow | Failed string | Unchanged 'r | Committed 'r | Contended

datatype race = Quiet | Raced redisStore

type_synonym 'r mutation = "Account \<Rightarrow> string + Account \<times> 'r"

text \<open>The row to write: the mutated row with a version marker later than the one it replaces.\<close>

definition bump :: "instant \<Rightarrow> Account \<Rightarrow> Account \<Rightarrow> Account" where
  "bump now previous current =
     current\<lparr>UpdatedAt := (if now > UpdatedAt previous then now else UpdatedAt previous + 1)\<rparr>"

fun update_attempts :: "nat \<Rightarrow> credentialCipher option \<Rightarrow> instant \<Rightarrow> string \<Rightarrow> int \<Rightarrow> 'r mutation \<Rightarrow>
    race list \<Rightarrow> redisStore \<Rightarrow> 'r outcome \<times> redisStore" where
  "update_attempts 0 c now origin i mutate races s = (Contended, s)"
| "update_attempts (Suc n) c now origin i mutate races s = (case rows s i of
     None \<Rightarrow> (NoRow, s)
   | Some val \<Rightarrow> (case unmarshalAccount c val i of
       Inl err \<Rightarrow> (Failed err, s)
     | Inr previous \<Rightarrow> (case mutate previous of
         Inl err \<Rightarrow> (Failed err, s)
       | Inr (mutated, r) \<Rightarrow>
           let current = mutated\<lparr>UpdatedAt := UpdatedAt previous\<rparr> in
           if DeepEqual current previous \<and> \<not> (hasLegacyCredential val \<and> c \<noteq> None) then (Unchanged r, s)
           else (case races of
               Raced s' # rest \<Rightarrow> update_attempts n c now origin i mutate rest s'
             | _ \<Rightarrow> let new = bump now previous current in
                 (Committed r, publishChange origin (Some previous) i (pipeAccountMembership i (Enabled new)
                    (s\<lparr>rows := (rows s)(i \<mapsto> marshalAccount c new)\<rparr>)))))))"

definition updateAccountAtomic :: "credentialCipher option \<Rightarrow> instant \<Rightarrow> string \<Rightarrow> int \<Rightarrow> 'r mutation \<Rightarrow>
    race list \<Rightarrow> redisStore \<Rightarrow> 'r outcome \<times> redisStore" where
  "updateAccountAtomic c now origin i mutate races s =
     (if i = 0 then (NoRow, s) else update_attempts 8 c now origin i mutate races s)"

section \<open>The account writers\<close>

definition UpdateAccount :: "credentialCipher option \<Rightarrow> instant \<Rightarrow> string \<Rightarrow> Account \<Rightarrow> race list \<Rightarrow>
    redisStore \<Rightarrow> unit outcome \<times> redisStore" where
  "UpdateAccount c now origin acc races s =
     (if ID acc = 0 then (NoRow, s)
      else updateAccountAtomic c now origin (ID acc) (\<lambda>stored. Inr (merge_account now acc stored, ())) races s)"

definition UpdateAccountQuality :: "credentialCipher option \<Rightarrow> instant \<Rightarrow> string \<Rightarrow> int \<Rightarrow> int \<Rightarrow> instant \<Rightarrow>
    race list \<Rightarrow> redisStore \<Rightarrow> unit outcome \<times> redisStore" where
  "UpdateAccountQuality c now origin i failures cooldownUntil races s =
     updateAccountAtomic c now origin i (\<lambda>stored. Inr (stored\<lparr>
       QualityFailures := (if failures < 0 then 0 else failures), QualityCooldownUntil := cooldownUntil\<rparr>, ())) races s"

record WorkBuddyCredentialPatch =
  wp_ExpectedRefreshToken :: string
  wp_AccessToken :: string
  wp_RefreshToken :: string
  wp_ExpiresAt :: instant
  wp_UID :: string
  wp_Email :: string

definition patch_workbuddy :: "WorkBuddyCredentialPatch \<Rightarrow> unit mutation" where
  "patch_workbuddy patch acc = (let w = WorkBuddyPart acc in
     case applyCredentialPatch ''workbuddy'' (wp_ExpectedRefreshToken patch) (wp_AccessToken patch)
         (wp_RefreshToken patch) (wp_ExpiresAt patch)
         (WorkBuddyAccessToken w) (WorkBuddyRefreshToken w) (WorkBuddyExpiresAt w) of
       Inl err \<Rightarrow> Inl err
     | Inr (access, refresh, expires) \<Rightarrow> Inr (acc\<lparr>
         ClientCookie := patchString (ClientCookie acc) (wp_RefreshToken patch),
         Email := (if TrimSpace (wp_Email patch) \<noteq> [] \<and> TrimSpace (Email acc) = []
           then TrimSpace (wp_Email patch) else Email acc),
         WorkBuddyPart := w\<lparr>WorkBuddyAccessToken := access, WorkBuddyRefreshToken := refresh,
           WorkBuddyExpiresAt := expires, WorkBuddyUID := patchString (WorkBuddyUID w) (wp_UID patch)\<rparr>\<rparr>, ()))"

record QoderAccountPatch =
  qp_ExpectedRefreshToken :: string
  qp_AccessToken :: string
  qp_RefreshToken :: string
  qp_ExpiresAt :: instant
  qp_UserID :: string
  qp_RuntimeInfo :: string
  qp_RuntimeKey :: string
  qp_ModelIDs :: "string list option"
  qp_Quota :: "QoderQuotaSnapshot option"

definition patch_qoder :: "QoderAccountPatch \<Rightarrow> unit mutation" where
  "patch_qoder patch acc = (let q = QoderPart acc in
     case applyCredentialPatch ''qoder'' (qp_ExpectedRefreshToken patch) (qp_AccessToken patch)
         (qp_RefreshToken patch) (qp_ExpiresAt patch)
         (QoderAccessToken q) (QoderRefreshToken q) (QoderExpiresAt q) of
       Inl err \<Rightarrow> Inl err
     | Inr (access, refresh, expires) \<Rightarrow> Inr (acc\<lparr>QoderPart := q\<lparr>
         QoderAccessToken := access, QoderRefreshToken := refresh, QoderExpiresAt := expires,
         QoderUserID := patchString (QoderUserID q) (qp_UserID patch),
         QoderRuntimeInfo := patchString (QoderRuntimeInfo q) (qp_RuntimeInfo patch),
         QoderRuntimeKey := patchString (QoderRuntimeKey q) (qp_RuntimeKey patch),
         QoderModelIDs := (case qp_ModelIDs patch of None \<Rightarrow> QoderModelIDs q | Some ms \<Rightarrow> ms),
         QoderQuota := (case qp_Quota patch of None \<Rightarrow> QoderQuota q
           | Some new \<Rightarrow> if qq_SyncedAt (QoderQuota q) = 0 \<or> \<not> qq_SyncedAt new < qq_SyncedAt (QoderQuota q)
               then new else QoderQuota q)\<rparr>\<rparr>, ()))"

record ClineCredentialPatch =
  cp_ExpectedRefreshToken :: string
  cp_AccessToken :: string
  cp_RefreshToken :: string
  cp_ExpiresAt :: instant
  cp_Email :: string
  cp_ModelIDs :: "string list option"

definition patch_cline :: "ClineCredentialPatch \<Rightarrow> unit mutation" where
  "patch_cline patch acc = (let k = ClinePart acc in
     case applyCredentialPatch ''cline'' (cp_ExpectedRefreshToken patch) (cp_AccessToken patch)
         (cp_RefreshToken patch) (cp_ExpiresAt patch)
         (ClineAccessToken k) (ClineRefreshToken k) (ClineExpiresAt k) of
       Inl err \<Rightarrow> Inl err
     | Inr (access, refresh, expires) \<Rightarrow> Inr (acc\<lparr>ClinePart := k\<lparr>
         ClineAccessToken := access, ClineRefreshToken := refresh, ClineExpiresAt := expires,
         ClineEmail := patchString (ClineEmail k) (cp_Email patch),
         ClineModelIDs := (case cp_ModelIDs patch of None \<Rightarrow> ClineModelIDs k | Some ms \<Rightarrow> ms)\<rparr>\<rparr>, ()))"

definition UpdateWorkBuddyCredentials :: "credentialCipher option \<Rightarrow> instant \<Rightarrow> string \<Rightarrow> int \<Rightarrow> WorkBuddyCredentialPatch \<Rightarrow>
    race list \<Rightarrow> redisStore \<Rightarrow> unit outcome \<times> redisStore" where
  "UpdateWorkBuddyCredentials c now origin i patch = updateAccountAtomic c now origin i (patch_workbuddy patch)"

definition UpdateQoderAccount :: "credentialCipher option \<Rightarrow> instant \<Rightarrow> string \<Rightarrow> int \<Rightarrow> QoderAccountPatch \<Rightarrow>
    race list \<Rightarrow> redisStore \<Rightarrow> unit outcome \<times> redisStore" where
  "UpdateQoderAccount c now origin i patch = updateAccountAtomic c now origin i (patch_qoder patch)"

definition UpdateClineCredentials :: "credentialCipher option \<Rightarrow> instant \<Rightarrow> string \<Rightarrow> int \<Rightarrow> ClineCredentialPatch \<Rightarrow>
    race list \<Rightarrow> redisStore \<Rightarrow> unit outcome \<times> redisStore" where
  "UpdateClineCredentials c now origin i patch = updateAccountAtomic c now origin i (patch_cline patch)"

definition decrementQuotaWindow :: "GrokQuotaWindow \<Rightarrow> rat \<Rightarrow> bool \<times> GrokQuotaWindow" where
  "decrementQuotaWindow window amount =
     (if \<not> gw_HasRemaining window \<or> gw_Remaining window \<le> 0 \<or> amount \<le> 0 then (False, window)
      else (True, window\<lparr>gw_Remaining := max 0 (gw_Remaining window - amount)\<rparr>))"

definition consume_grok :: "instant \<Rightarrow> string \<Rightarrow> rat \<Rightarrow> bool mutation" where
  "consume_grok now provider amount acc =
     (if \<not> EqualFold (TrimSpace provider) ''build'' then Inr (acc, False)
      else let g = GrokPart acc; rl = GrokRateLimits g;
               (consumed, w) = decrementQuotaWindow (gr_Requests rl) amount;
               rl1 = rl\<lparr>gr_Requests := w\<rparr>;
               rl2 = (if consumed then rl1\<lparr>gr_ObservedAt := now\<rparr> else rl1) in
        Inr (acc\<lparr>GrokPart := g\<lparr>GrokRateLimits := rl2\<rparr>\<rparr>, consumed))"

definition claim_probe :: "instant \<Rightarrow> bool mutation" where
  "claim_probe now acc =
     (let g = GrokPart acc; billing = GrokBilling g in
      if \<not> IsExhausted billing then Inr (acc, False)
      else let due = (if gb_NextProbeAt billing = 0 then PeriodEnd billing else gb_NextProbeAt billing) in
        if due = 0 \<or> now < due then Inr (acc, False)
        else Inr (acc\<lparr>GrokPart := g\<lparr>GrokBilling := billing\<lparr>gb_LastProbeAt := now,
               gb_NextProbeAt := now + GrokPaidQuotaProbeInterval\<rparr>\<rparr>\<rparr>, True))"

text \<open>What the caller is told: the flag the mutation set, or the error.\<close>

definition flag_of :: "bool outcome \<Rightarrow> string + bool" where
  "flag_of out = (case out of NoRow \<Rightarrow> Inr False | Failed err \<Rightarrow> Inl err | Unchanged b \<Rightarrow> Inr b
     | Committed b \<Rightarrow> Inr b | Contended \<Rightarrow> Inl ''changed too frequently; update could not be committed'')"

definition ConsumeGrokQuota :: "credentialCipher option \<Rightarrow> instant \<Rightarrow> string \<Rightarrow> int \<Rightarrow> string \<Rightarrow> rat \<Rightarrow>
    race list \<Rightarrow> redisStore \<Rightarrow> (string + bool) \<times> redisStore" where
  "ConsumeGrokQuota c now origin i provider amount races s =
     (if amount \<le> 0 \<or> i = 0 then (Inr False, s)
      else let (out, s') = updateAccountAtomic c now origin i (consume_grok now provider amount) races s
        in (flag_of out, s'))"

definition ClaimGrokPaidQuotaProbe :: "credentialCipher option \<Rightarrow> instant \<Rightarrow> string \<Rightarrow> int \<Rightarrow> instant \<Rightarrow>
    race list \<Rightarrow> redisStore \<Rightarrow> (string + bool) \<times> redisStore" where
  "ClaimGrokPaidQuotaProbe c clock origin i now0 races s =
     (if i = 0 then (Inr False, s)
      else let now = (if now0 = 0 then clock else now0);
               (out, s') = updateAccountAtomic c clock origin i (claim_probe now) races s
        in (flag_of out, s'))"

section \<open>The statistics script\<close>

text \<open>Lua's \<^verbatim>\<open><\<close> on strings of the same alphabet: byte order.\<close>

fun string_less :: "string \<Rightarrow> string \<Rightarrow> bool" where
  "string_less s [] = False"
| "string_less [] (d # t) = True"
| "string_less (c # s) (d # t) = ((of_char c :: nat) < of_char d \<or> (c = d \<and> string_less s t))"

text \<open>
  A date is absent from the row when it is empty. The set of operation ids expires as a whole
  eight days after the last insertion; an expired set is empty.
\<close>

definition live_operations :: "instant \<Rightarrow> redisStore \<Rightarrow> int \<Rightarrow> string set" where
  "live_operations now s i = (let (ops, expiry) = stats_operations s i in if now < expiry then ops else {})"

definition incrementAccountStats_row :: "instant \<Rightarrow> rat \<Rightarrow> int \<Rightarrow> string \<Rightarrow> Account \<Rightarrow> Account" where
  "incrementAccountStats_row now usage count today acc =
     (let acc_type = ToLower (AccountType acc) in acc\<lparr>
        UsageCurrent := (if acc_type \<noteq> ''grok'' \<and> acc_type \<noteq> ''qoder'' \<and> acc_type \<noteq> ''workbuddy''
          then UsageCurrent acc + usage else UsageCurrent acc),
        UsageTotal := UsageTotal acc + usage,
        TokensDate := (if TokensDate acc = [] \<or> string_less (TokensDate acc) today then today else TokensDate acc),
        TokensToday := (if TokensDate acc = [] \<or> string_less (TokensDate acc) today then usage
          else if TokensDate acc = today then TokensToday acc + usage else TokensToday acc),
        RequestCount := RequestCount acc + count,
        LastUsedAt := now,
        UpdatedAt := now\<rparr>)"

definition IncrementAccountStatsOperation :: "instant \<Rightarrow> int \<Rightarrow> rat \<Rightarrow> int \<Rightarrow> string \<Rightarrow> string \<Rightarrow>
    redisStore \<Rightarrow> string option \<times> redisStore" where
  "IncrementAccountStatsOperation now i usage count operationID today s =
     (let operation_id = TrimSpace operationID; live = live_operations now s i in
      if i = 0 then (None, s)
      else if usage \<le> 0 \<and> count \<le> 0 then (None, s)
      else if operation_id \<noteq> [] \<and> operation_id \<in> live then (None, s)
      else case rows s i of
        None \<Rightarrow> (Some ''account not found'', s)
      | Some acc \<Rightarrow> (None, s\<lparr>rows := (rows s)(i \<mapsto> incrementAccountStats_row now usage count today acc),
          stats_operations := (if operation_id \<noteq> []
            then (stats_operations s)(i := (insert operation_id live, now + 691200 * second))
            else stats_operations s)\<rparr>))"

definition IncrementAccountStats :: "instant \<Rightarrow> int \<Rightarrow> rat \<Rightarrow> int \<Rightarrow> string \<Rightarrow> redisStore \<Rightarrow> string option \<times> redisStore" where
  "IncrementAccountStats now i usage count today s = IncrementAccountStatsOperation now i usage count [] today s"

text \<open>The empty store, and a store with one account under a transparent cipher.\<close>

definition empty_store :: redisStore where
  "empty_store = \<lparr>rows = Map.empty, ids = {}, enabled = {}, next_id = 0, stats_operations = (\<lambda>_. ({}, 0)),
      changeEmitter = True, changeClosed = False, changePending = Map.empty\<rparr>"

definition clear_cipher :: credentialCipher where
  "clear_cipher = \<lparr>seal = id, unseal = Inr\<rparr>"

definition sample_store :: redisStore where
  "sample_store = CreateAccount (Some clear_cipher) 5 [] (zero_account\<lparr>Enabled := True\<rparr>) empty_store"

lemma clear_cipher_ok: "cipher_ok (Some clear_cipher)"
  by (simp add: cipher_ok_def clear_cipher_def)

section \<open>Linearization of the optimistic update\<close>

definition raced :: "race list \<Rightarrow> redisStore list" where
  "raced races = concat (map (\<lambda>r. case r of Quiet \<Rightarrow> [] | Raced s \<Rightarrow> [s]) races)"

lemma raced_simps [simp]: "raced [] = []" "raced (Quiet # rs) = raced rs" "raced (Raced s # rs) = s # raced rs"
  by (simp_all add: raced_def)

lemma update_attempts_linear:
  assumes "update_attempts n c now origin i mutate races s = (out, s')" "out \<noteq> Contended"
  shows "\<exists>base \<in> set (s # raced races). update_attempts 1 c now origin i mutate [] base = (out, s')"
  using assms
proof (induction n arbitrary: races s)
  case (Suc n)
  show ?case
  proof (cases "update_attempts (Suc n) c now origin i mutate races s = update_attempts 1 c now origin i mutate [] s")
    case True
    then show ?thesis using Suc.prems by auto
  next
    case False
    then obtain s1 rest where r: "races = Raced s1 # rest"
      and "update_attempts (Suc n) c now origin i mutate races s = update_attempts n c now origin i mutate rest s1"
      by (auto simp: Let_def split: option.splits sum.splits prod.splits list.splits race.splits if_splits)
    with Suc.prems have "update_attempts n c now origin i mutate rest s1 = (out, s')" by simp
    from Suc.IH [OF this Suc.prems(2)] show ?thesis by (auto simp: r)
  qed
qed simp

lemma update_attempts_contended:
  assumes "fst (update_attempts n c now origin i mutate races s) = Contended"
  shows "n \<le> length (raced races)"
  using assms
proof (induction n arbitrary: races s)
  case (Suc n)
  from Suc.prems obtain s1 rest where "races = Raced s1 # rest"
      "fst (update_attempts n c now origin i mutate rest s1) = Contended"
    by (auto simp: Let_def split: option.splits sum.splits prod.splits list.splits race.splits if_splits)
  then show ?case using Suc.IH [of rest s1] by simp
qed simp

lemma undisturbed_attempt:
  "update_attempts (Suc n) c now origin i mutate [] s = update_attempts 1 c now origin i mutate [] s"
  by (simp only: One_nat_def update_attempts.simps list.case)

text \<open>
  Property C25: an account update is atomic under contention. Whatever other writers commit
  between its reads and its writes, either it has lost eight races in a row and reports that,
  or the store it leaves is the store some writer left (or the one it started from) with this
  one mutation applied to the row found there: no intermediate write is overwritten.
\<close>

theorem update_is_atomic:
  assumes "updateAccountAtomic c now origin i mutate races s = (out, s')" "i \<noteq> 0"
  shows "if out = Contended then 8 \<le> length (raced races)
    else (\<exists>base \<in> set (s # raced races). updateAccountAtomic c now origin i mutate [] base = (out, s'))"
proof -
  have eq: "update_attempts 8 c now origin i mutate races s = (out, s')"
    using assms by (simp add: updateAccountAtomic_def)
  have one: "update_attempts 8 c now origin i mutate [] base = update_attempts 1 c now origin i mutate [] base" for base
    using undisturbed_attempt [of 7] by simp
  show ?thesis
    using update_attempts_contended [of 8 c now origin i mutate races s] update_attempts_linear [OF eq] eq assms(2)
    by (simp add: updateAccountAtomic_def one del: update_attempts.simps)
qed

theorem update_is_atomic_witness:
  "\<exists>base \<in> set [empty_store, sample_store]. updateAccountAtomic None 9 [] 1 (\<lambda>a. Inr (a, ())) [] base = (NoRow, empty_store)"
  using update_is_atomic [of None 9 "[]" 1 "\<lambda>a. Inr (a, ())" "[Raced sample_store]" empty_store NoRow empty_store]
  by (simp add: updateAccountAtomic_def empty_store_def eval_nat_numeral)

section \<open>Version marker\<close>

lemma json_row_sel [simp]:
  "UpdatedAt (json_row a) = UpdatedAt a" "ID (json_row a) = ID a" "Enabled (json_row a) = Enabled a"
  "UsageTotal (json_row a) = UsageTotal a" "RequestCount (json_row a) = RequestCount a"
  "GrokPart (json_row a) = GrokPart a" "CreatedAt (json_row a) = CreatedAt a"
  by (simp_all add: json_row_def)

lemma marshal_sel [simp]:
  "UpdatedAt (marshalAccount c a) = UpdatedAt a" "ID (marshalAccount c a) = ID a"
  "Enabled (marshalAccount c a) = Enabled a" "UsageTotal (marshalAccount c a) = UsageTotal a"
  "RequestCount (marshalAccount c a) = RequestCount a"
  "GrokBilling (GrokPart (marshalAccount c a)) = GrokBilling (GrokPart a)"
  by (simp_all add: marshalAccount_eq)

lemma bump_later: "UpdatedAt (bump now previous current) > UpdatedAt previous"
  by (simp add: bump_def)

lemma publishChange_sel [simp]:
  "rows (publishChange origin previous i s) = rows s" "ids (publishChange origin previous i s) = ids s"
  "enabled (publishChange origin previous i s) = enabled s" "next_id (publishChange origin previous i s) = next_id s"
  "stats_operations (publishChange origin previous i s) = stats_operations s"
  by (simp_all add: publishChange_def split: option.split)

lemma pipeAccountMembership_sel [simp]:
  "rows (pipeAccountMembership i on s) = rows s" "next_id (pipeAccountMembership i on s) = next_id s"
  "ids (pipeAccountMembership i on s) = insert i (ids s)"
  "enabled (pipeAccountMembership i on s) = (if on then insert i (enabled s) else enabled s - {i})"
  "stats_operations (pipeAccountMembership i on s) = stats_operations s"
  by (simp_all add: pipeAccountMembership_def)

text \<open>One undisturbed attempt, by the row it finds.\<close>

lemma single_update:
  assumes "i \<noteq> 0" "updateAccountAtomic c now origin i mutate [] s = (out, s')"
  shows "(s' = s \<and> (\<forall>r. out \<noteq> Committed r)) \<or>
    (\<exists>val previous mutated r. rows s i = Some val \<and> unmarshalAccount c val i = Inr previous \<and>
       mutate previous = Inr (mutated, r) \<and> out = Committed r \<and>
       s' = publishChange origin (Some previous) i (pipeAccountMembership i (Enabled mutated)
         (s\<lparr>rows := (rows s)(i \<mapsto> marshalAccount c (bump now previous mutated))\<rparr>)))"
proof -
  have bump: "bump now p (m\<lparr>UpdatedAt := u\<rparr>) = bump now p m" "Enabled (bump now p m) = Enabled m" for p m u
    by (simp_all add: bump_def)
  have "update_attempts 1 c now origin i mutate [] s = (out, s')"
    using assms undisturbed_attempt [of 7 c now origin i mutate s] by (simp add: updateAccountAtomic_def)
  then show ?thesis
    by (auto simp: Let_def bump split: option.splits sum.splits prod.splits if_splits)
qed

text \<open>Decoding keeps every field that is not a credential.\<close>

lemma decrypt_fields_sel:
  assumes "decrypt_fields c accountCredentialFields row = Inr a"
  shows "UpdatedAt a = UpdatedAt row \<and> ID a = ID row \<and> Enabled a = Enabled row \<and> UsageTotal a = UsageTotal row \<and>
    RequestCount a = RequestCount row \<and> GrokBilling (GrokPart a) = GrokBilling (GrokPart row)"
  using assms by (auto simp: accountCredentialFields_def split: sum.splits)

lemma unmarshal_sel:
  assumes "unmarshalAccount c row i = Inr a"
  shows "UpdatedAt a = UpdatedAt row" "ID a = (if ID row = 0 then i else ID row)" "Enabled a = Enabled row"
    "UsageTotal a = UsageTotal row" "RequestCount a = RequestCount row"
    "GrokBilling (GrokPart a) = GrokBilling (GrokPart row)"
  using assms decrypt_fields_sel [of c row] by (auto simp: unmarshalAccount_def split: sum.splits if_splits)

text \<open>
  A committed update gives the row a strictly later version marker than the row
  it replaced, whatever the clock says, and leaves every other row alone: two snapshots with
  the same marker are snapshots of the same row.
\<close>

theorem committed_update_advances_version:
  assumes "updateAccountAtomic c now origin i mutate [] s = (Committed r, s')" "i \<noteq> 0"
  shows "\<exists>old new. rows s i = Some old \<and> rows s' i = Some new \<and> UpdatedAt old < UpdatedAt new \<and>
    rows s' = (rows s)(i \<mapsto> new)"
  using single_update [OF assms(2,1)] bump_later unmarshal_sel(1) by auto metis

lemma sample_row:
  "rows sample_store 1 = Some (marshalAccount (Some clear_cipher)
     (zero_account\<lparr>ID := 1, Enabled := True, CreatedAt := 5, UpdatedAt := 5\<rparr>))"
  by (simp add: sample_store_def CreateAccount_def empty_store_def zero_account_def)

lemma sample_decoded:
  "unmarshalAccount (Some clear_cipher) (the (rows sample_store 1)) 1 =
     Inr (json_row (zero_account\<lparr>ID := 1, Enabled := True, CreatedAt := 5, UpdatedAt := 5\<rparr>))"
  unfolding sample_row option.sel
  by (rule unmarshal_marshal [OF clear_cipher_ok storable_fields]) simp

theorem committed_update_advances_version_witness:
  "\<exists>old new s'. rows sample_store 1 = Some old \<and> rows s' 1 = Some new \<and> UpdatedAt old < UpdatedAt new \<and>
     UpdateAccountQuality (Some clear_cipher) 3 [] 1 2 50 [] sample_store = (Committed (), s')"
proof -
  obtain s' where s': "UpdateAccountQuality (Some clear_cipher) 3 [] 1 2 50 [] sample_store = (Committed (), s')"
    using sample_decoded
    by (auto simp: UpdateAccountQuality_def updateAccountAtomic_def eval_nat_numeral sample_row Let_def
        DeepEqual_def zero_account_def json_row_def)
  show ?thesis
    using committed_update_advances_version [OF s' [unfolded UpdateAccountQuality_def]] s' by fastforce
qed

section \<open>The probe claim\<close>

definition next_probe :: "int \<Rightarrow> redisStore \<Rightarrow> instant" where
  "next_probe i s = (case rows s i of None \<Rightarrow> 0 | Some row \<Rightarrow> gb_NextProbeAt (GrokBilling (GrokPart row)))"

lemma claim_probe_True:
  "claim_probe now acc = Inr (acc', True) \<Longrightarrow>
     (gb_NextProbeAt (GrokBilling (GrokPart acc)) = 0 \<or> gb_NextProbeAt (GrokBilling (GrokPart acc)) \<le> now) \<and>
     gb_NextProbeAt (GrokBilling (GrokPart acc')) = now + GrokPaidQuotaProbeInterval"
  by (auto simp: claim_probe_def Let_def split: if_splits)

lemma claim_probe_False: "claim_probe now acc = Inr (acc', False) \<Longrightarrow> acc' = acc"
  by (auto simp: claim_probe_def Let_def split: if_splits)

lemma claim_probe_not_Inl: "claim_probe now acc \<noteq> Inl err"
  by (auto simp: claim_probe_def Let_def)

lemma GrokBilling_bump [simp]: "GrokPart (bump now p a) = GrokPart a"
  by (simp add: bump_def)

lemma flag_of_True: "flag_of out = Inr True \<Longrightarrow> out = Unchanged True \<or> out = Committed True"
  by (auto simp: flag_of_def split: outcome.splits)

lemma DeepEqual_GrokPart: "DeepEqual a b \<Longrightarrow> GrokPart a = GrokPart b"
  unfolding DeepEqual_def by (metis Account.select_convs(33) Account.surjective Account.update_convs(34,35))

text \<open>One undisturbed claim, successful or not.\<close>

lemma claim_step:
  assumes t: "0 < t" and "ClaimGrokPaidQuotaProbe c clock origin i t [] s = (res, s')"
  shows "if res = Inr True
    then (next_probe i s = 0 \<or> next_probe i s \<le> t) \<and> next_probe i s' = t + GrokPaidQuotaProbeInterval
    else next_probe i s' = next_probe i s"
proof (cases "i = 0")
  case False
  with assms obtain out where up: "update_attempts 1 c clock origin i (claim_probe t) [] s = (out, s')"
    and res: "res = flag_of out"
    using undisturbed_attempt [of 7 c clock origin i "claim_probe t" s]
    by (auto simp: ClaimGrokPaidQuotaProbe_def updateAccountAtomic_def Let_def split: prod.splits)
  show ?thesis
  proof (cases "rows s i")
    case (Some val)
    show ?thesis
    proof (cases "unmarshalAccount c val i")
      case (Inr previous)
      obtain m r where m: "claim_probe t previous = Inr (m, r)"
        using claim_probe_not_Inl [of t previous] by (cases "claim_probe t previous") auto
      have gp: "gb_NextProbeAt (GrokBilling (GrokPart previous)) = next_probe i s"
        using unmarshal_sel(6) [OF Inr] Some by (simp add: next_probe_def)
      consider "s' = s" "out = Unchanged r" "DeepEqual (m\<lparr>UpdatedAt := UpdatedAt previous\<rparr>) previous"
        | "out = Committed r" "next_probe i s' = gb_NextProbeAt (GrokBilling (GrokPart m))"
        using up Some Inr m by (auto simp: Let_def next_probe_def split: if_splits)
      then show ?thesis
      proof cases
        case 1
        then have "GrokPart m = GrokPart previous" using DeepEqual_GrokPart [OF 1(3)] by simp
        then have "r = False"
          using m gp claim_probe_True [of t previous m] t GrokPaidQuotaProbeInterval_def by (cases r) auto
        with 1 show ?thesis by (simp add: res flag_of_def)
      next
        case 2
        then show ?thesis
          using m gp claim_probe_True [of t previous m] claim_probe_False [of t previous m]
          by (cases r) (auto simp: res flag_of_def)
      qed
    qed (use up Some res in \<open>auto simp: flag_of_def\<close>)
  qed (use up res in \<open>auto simp: flag_of_def\<close>)
qed (use assms in \<open>auto simp: ClaimGrokPaidQuotaProbe_def\<close>)

text \<open>The times at which a sequence of claims on one account succeeds.\<close>

fun run_claims :: "credentialCipher option \<Rightarrow> string \<Rightarrow> int \<Rightarrow> (instant \<times> instant) list \<Rightarrow> redisStore \<Rightarrow> instant list" where
  "run_claims c origin i [] s = []"
| "run_claims c origin i ((clock, t) # ts) s =
     (let (res, s') = ClaimGrokPaidQuotaProbe c clock origin i t [] s in
      if res = Inr True then t # run_claims c origin i ts s' else run_claims c origin i ts s')"

lemma run_claims_after:
  "\<forall>(clock, t) \<in> set ts. 0 < t \<Longrightarrow>
     sorted_wrt (\<lambda>a b. a + GrokPaidQuotaProbeInterval \<le> b) (run_claims c origin i ts s) \<and>
     (next_probe i s \<noteq> 0 \<longrightarrow> (\<forall>t \<in> set (run_claims c origin i ts s). next_probe i s \<le> t))"
proof (induction ts arbitrary: s)
  case (Cons p ts)
  obtain clock t where p: "p = (clock, t)" by (cases p)
  obtain res s' where cl: "ClaimGrokPaidQuotaProbe c clock origin i t [] s = (res, s')" by fastforce
  have t: "0 < t" "\<forall>(clock, t) \<in> set ts. 0 < t" using Cons.prems p by auto
  note IH = Cons.IH [OF t(2), of s'] and st = claim_step [OF t(1) cl]
  show ?case
  proof (cases "res = Inr True")
    case True
    have I: "GrokPaidQuotaProbeInterval > 0" by (simp add: GrokPaidQuotaProbeInterval_def)
    from True st have n: "next_probe i s' = t + GrokPaidQuotaProbeInterval" "next_probe i s = 0 \<or> next_probe i s \<le> t"
      by auto
    then have "\<forall>t' \<in> set (run_claims c origin i ts s'). t + GrokPaidQuotaProbeInterval \<le> t'"
      using IH t(1) I by auto
    with IH n I True cl show ?thesis by (fastforce simp: p)
  next
    case False
    with IH st cl show ?thesis by (simp add: p)
  qed
qed simp

text \<open>
  Of any sequence of claims of the paid-quota probe of an account, in whatever
  order their times come, the successful ones are at least fifteen minutes apart, so an
  exhausted account is probed at most once per interval.
\<close>

theorem probe_claims_spaced:
  assumes "list_all (\<lambda>(clock, t). 0 < t) ts"
  shows "sorted_wrt (\<lambda>a b. a + 15 * minute \<le> b) (run_claims c origin i ts s)"
  using run_claims_after [of ts c origin i s] assms
  by (simp add: list_all_iff GrokPaidQuotaProbeInterval_def)

theorem probe_claims_spaced_witness:
  "sorted_wrt (\<lambda>a b. a + 15 * minute \<le> b) (run_claims (Some clear_cipher) [] 1 [(5, 5), (6, 6)] sample_store)"
  by (rule probe_claims_spaced) simp

section \<open>The index sets and the accounts that are served\<close>

definition decodable :: "credentialCipher option \<Rightarrow> Account \<Rightarrow> bool" where
  "decodable c row = list_all (\<lambda>(get, put). \<exists>plain. decrypt c (get row) = Inr plain) accountCredentialFields"

definition store_ok :: "credentialCipher option \<Rightarrow> redisStore \<Rightarrow> bool" where
  "store_ok c s \<longleftrightarrow> 0 \<le> next_id s \<and> finite (dom (rows s)) \<and> ids s = dom (rows s) \<and>
     enabled s = {i. \<exists>row. rows s i = Some row \<and> Enabled row} \<and>
     (\<forall>i row. rows s i = Some row \<longrightarrow> 0 < i \<and> i \<le> next_id s \<and> ID row = i \<and> decodable c row)"

lemma store_okD:
  assumes "store_ok c s"
  shows "0 \<le> next_id s" "finite (dom (rows s))" "ids s = dom (rows s)"
    "enabled s = {i. \<exists>row. rows s i = Some row \<and> Enabled row}"
    "rows s i = Some row \<Longrightarrow> 0 < i \<and> i \<le> next_id s \<and> ID row = i \<and> decodable c row"
  using assms unfolding store_ok_def by blast+

lemma decodable_unmarshal: "decodable c row \<Longrightarrow> \<exists>a. unmarshalAccount c row i = Inr a"
  by (auto simp: decodable_def accountCredentialFields_def unmarshalAccount_def)

lemma decodable_marshal: "cipher_ok (Some k) \<Longrightarrow> decodable (Some k) (marshalAccount (Some k) a)"
  using decrypt_encrypt [of "Some k"]
  by (simp add: decodable_def accountCredentialFields_def marshalAccount_eq storable_def)

lemma decodable_increment [simp]:
  "decodable c (incrementAccountStats_row now usage count today row) = decodable c row"
  by (simp add: decodable_def accountCredentialFields_def incrementAccountStats_row_def Let_def)

text \<open>Writing one row together with its index entries keeps the store in order.\<close>

lemma store_ok_write:
  assumes ok: "store_ok (Some k) s" and c: "cipher_ok (Some k)" and a: "ID a = i" "0 < i" "i \<le> n" "next_id s \<le> n"
  shows "store_ok (Some k) (publishChange origin previous i (pipeAccountMembership i (Enabled a)
    (s\<lparr>next_id := n, rows := (rows s)(i \<mapsto> marshalAccount (Some k) a)\<rparr>)))"
  unfolding store_ok_def
proof (intro conjI allI impI)
  fix j row
  assume "rows (publishChange origin previous i (pipeAccountMembership i (Enabled a)
      (s\<lparr>next_id := n, rows := (rows s)(i \<mapsto> marshalAccount (Some k) a)\<rparr>))) j = Some row"
  then show "0 < j" "j \<le> next_id (publishChange origin previous i (pipeAccountMembership i (Enabled a)
      (s\<lparr>next_id := n, rows := (rows s)(i \<mapsto> marshalAccount (Some k) a)\<rparr>)))" "ID row = j" "decodable (Some k) row"
    using store_okD(5) [OF ok, of j row] a decodable_marshal [OF c] by (auto split: if_splits)
qed (use store_okD [OF ok] a in \<open>auto split: if_splits\<close>)

text \<open>The mutations of the store keep the identity of the row and its statistics.\<close>

definition keeps_books :: "'r mutation \<Rightarrow> bool" where
  "keeps_books mutate \<longleftrightarrow> (\<forall>a b r. mutate a = Inr (b, r) \<longrightarrow>
     ID b = ID a \<and> UsageTotal b = UsageTotal a \<and> RequestCount b = RequestCount a)"

lemma keeps_books_writers:
  "keeps_books (\<lambda>stored. Inr (merge_account now acc stored, ()))"
  "keeps_books (\<lambda>stored. Inr (stored\<lparr>QualityFailures := f, QualityCooldownUntil := t\<rparr>, ()))"
  "keeps_books (patch_workbuddy wp)" "keeps_books (patch_qoder qp)" "keeps_books (patch_cline cp)"
  "keeps_books (consume_grok now provider amount)" "keeps_books (claim_probe now)"
  using merge_account_owned [of now acc]
  by (auto simp: keeps_books_def owned_elsewhere_def patch_workbuddy_def patch_qoder_def patch_cline_def
      consume_grok_def claim_probe_def Let_def split: sum.splits if_splits prod.splits)

lemma update_keeps_books:
  assumes ok: "store_ok (Some k) s" and c: "cipher_ok (Some k)" and m: "keeps_books mutate"
    and up: "updateAccountAtomic (Some k) now origin i mutate [] s = (out, s')"
  shows "store_ok (Some k) s' \<and> next_id s' = next_id s \<and> (\<forall>j. map_option UsageTotal (rows s' j) = map_option UsageTotal (rows s j) \<and>
     map_option RequestCount (rows s' j) = map_option RequestCount (rows s j))"
proof (cases "i = 0 \<or> s' = s")
  case True
  then show ?thesis using up ok by (auto simp: updateAccountAtomic_def)
next
  case False
  then obtain val previous mutated r where v: "rows s i = Some val" "unmarshalAccount (Some k) val i = Inr previous"
      "mutate previous = Inr (mutated, r)"
    and s': "s' = publishChange origin (Some previous) i (pipeAccountMembership i (Enabled mutated)
         (s\<lparr>rows := (rows s)(i \<mapsto> marshalAccount (Some k) (bump now previous mutated))\<rparr>))"
    using single_update [OF _ up] by blast
  have row: "0 < i" "i \<le> next_id s" "ID val = i" using store_okD(5) [OF ok v(1)] by auto
  have keep: "ID mutated = i" "UsageTotal mutated = UsageTotal val" "RequestCount mutated = RequestCount val"
    using m [unfolded keeps_books_def, rule_format, OF v(3)] unmarshal_sel(2,4,5) [OF v(2)] row by simp_all
  let ?new = "bump now previous mutated"
  have "store_ok (Some k) (publishChange origin (Some previous) i (pipeAccountMembership i (Enabled ?new)
       (s\<lparr>next_id := next_id s, rows := (rows s)(i \<mapsto> marshalAccount (Some k) ?new)\<rparr>)))"
    by (rule store_ok_write [OF ok c]) (use keep row in \<open>auto simp: bump_def\<close>)
  then show ?thesis using keep v(1) by (auto simp: s' bump_def)
qed

section \<open>Runs of the store\<close>

text \<open>
  One atomic step of the store; the label says what the step books: the account and usage of
  a statistics update that was counted, nothing otherwise.
\<close>

definition counted :: "instant \<Rightarrow> int \<Rightarrow> rat \<Rightarrow> int \<Rightarrow> string \<Rightarrow> redisStore \<Rightarrow> bool" where
  "counted now i usage count op s \<longleftrightarrow> i \<noteq> 0 \<and> \<not> (usage \<le> 0 \<and> count \<le> 0) \<and>
     \<not> (TrimSpace op \<noteq> [] \<and> TrimSpace op \<in> live_operations now s i) \<and> rows s i \<noteq> None"

inductive store_step :: "credentialCipher option \<Rightarrow> redisStore \<Rightarrow> (int \<times> rat) list \<Rightarrow> redisStore \<Rightarrow> bool" for c where
  create: "store_step c s [] (CreateAccount c now origin acc s)"
| delete: "DeleteAccount c origin i s = (err, s') \<Longrightarrow> store_step c s [] s'"
| update: "UpdateAccount c now origin acc [] s = (out, s') \<Longrightarrow> store_step c s [] s'"
| quality: "UpdateAccountQuality c now origin i f t [] s = (out, s') \<Longrightarrow> store_step c s [] s'"
| workbuddy: "UpdateWorkBuddyCredentials c now origin i wp [] s = (out, s') \<Longrightarrow> store_step c s [] s'"
| qoder: "UpdateQoderAccount c now origin i qp [] s = (out, s') \<Longrightarrow> store_step c s [] s'"
| cline: "UpdateClineCredentials c now origin i cp [] s = (out, s') \<Longrightarrow> store_step c s [] s'"
| consume: "ConsumeGrokQuota c now origin i provider amount [] s = (res, s') \<Longrightarrow> store_step c s [] s'"
| claim: "ClaimGrokPaidQuotaProbe c now origin i t [] s = (res, s') \<Longrightarrow> store_step c s [] s'"
| increment: "IncrementAccountStatsOperation now i usage count op today s = (err, s') \<Longrightarrow>
    store_step c s (if counted now i usage count op s then [(i, usage)] else []) s'"

inductive store_run :: "credentialCipher option \<Rightarrow> redisStore \<Rightarrow> (int \<times> rat) list \<Rightarrow> redisStore \<Rightarrow> bool" for c where
  nil: "store_run c s [] s"
| more: "store_run c s ls s1 \<Longrightarrow> store_step c s1 l s2 \<Longrightarrow> store_run c s (ls @ l) s2"

definition booked_on :: "int \<Rightarrow> (int \<times> rat) list \<Rightarrow> rat" where
  "booked_on i ls = sum_list (map snd (filter (\<lambda>(j, _). j = i) ls))"

lemma booked_on_simps [simp]: "booked_on i [] = 0" "booked_on i (ls @ l) = booked_on i ls + booked_on i l"
  "booked_on i [(j, u)] = (if j = i then u else 0)"
  by (simp_all add: booked_on_def)

text \<open>What one step does to the books of the rows it leaves: the effect every writer has.\<close>

definition books_step :: "credentialCipher option \<Rightarrow> redisStore \<Rightarrow> (int \<times> rat) list \<Rightarrow> redisStore \<Rightarrow> bool" where
  "books_step c s l s' \<longleftrightarrow> store_ok c s' \<and> next_id s \<le> next_id s' \<and>
     (\<forall>j b. j \<le> next_id s \<and> rows s' j = Some b \<longrightarrow>
        (\<exists>a. rows s j = Some a \<and> UsageTotal b = UsageTotal a + booked_on j l))"

lemma books_step_update:
  assumes "store_ok (Some k) s" "cipher_ok (Some k)" "keeps_books mutate"
    "updateAccountAtomic (Some k) now origin i mutate [] s = (out, s')"
  shows "books_step (Some k) s [] s'"
proof -
  have "\<exists>a. rows s j = Some a \<and> UsageTotal b = UsageTotal a" if "rows s' j = Some b" for j b
  proof -
    have "map_option UsageTotal (rows s' j) = map_option UsageTotal (rows s j)"
      using update_keeps_books [OF assms] by blast
    with that show ?thesis by (cases "rows s j") auto
  qed
  then show ?thesis using update_keeps_books [OF assms] by (auto simp: books_step_def)
qed

lemma books_step_refl: "store_ok c s \<Longrightarrow> books_step c s [] s"
  by (auto simp: books_step_def)

lemma books_step_create:
  assumes ok: "store_ok (Some k) s" and c: "cipher_ok (Some k)"
  shows "books_step (Some k) s [] (CreateAccount (Some k) now origin acc s)"
proof -
  let ?a = "acc\<lparr>ID := next_id s + 1, CreatedAt := if CreatedAt acc = 0 then now else CreatedAt acc,
      UpdatedAt := if UpdatedAt acc = 0 then now else UpdatedAt acc\<rparr>"
  have "store_ok (Some k) (publishChange origin None (next_id s + 1) (pipeAccountMembership (next_id s + 1) (Enabled ?a)
    (s\<lparr>next_id := next_id s + 1, rows := (rows s)(next_id s + 1 \<mapsto> marshalAccount (Some k) ?a)\<rparr>)))"
    by (rule store_ok_write [OF ok c]) (use store_okD(1) [OF ok] in auto)
  then show ?thesis by (simp add: books_step_def CreateAccount_def Let_def)
qed

lemma books_step_delete:
  assumes ok: "store_ok c s" and d: "DeleteAccount c origin i s = (err, s')"
  shows "books_step c s [] s'"
proof -
  let ?s = "s\<lparr>rows := (rows s)(i := None), stats_operations := (stats_operations s)(i := ({}, 0)),
     ids := ids s - {i}, enabled := enabled s - {i}\<rparr>"
  have "store_ok c ?s" using store_okD [OF ok] unfolding store_ok_def by (auto split: if_splits)
  then have pub: "books_step c s [] (publishChange origin p i ?s)" for p
    by (auto simp: books_step_def store_ok_def split: if_splits)
  have "books_step c s [] ?s" using \<open>store_ok c ?s\<close> by (auto simp: books_step_def split: if_splits)
  then show ?thesis using d books_step_refl [OF ok] pub
    by (auto simp: DeleteAccount_def Let_def split: if_splits option.splits sum.splits)
qed

lemma books_step_increment:
  assumes ok: "store_ok c s" and inc: "IncrementAccountStatsOperation now i usage count op today s = (err, s')"
  shows "books_step c s (if counted now i usage count op s then [(i, usage)] else []) s'"
proof (cases "counted now i usage count op s")
  case True
  then obtain row where row: "rows s i = Some row" and i: "i \<noteq> 0" by (auto simp: counted_def)
  have r: "rows s' = (rows s)(i \<mapsto> incrementAccountStats_row now usage count today row)"
    and rest: "ids s' = ids s" "enabled s' = enabled s" "next_id s' = next_id s"
    using inc True row by (auto simp: IncrementAccountStatsOperation_def counted_def Let_def split: if_splits)
  have sel: "ID (incrementAccountStats_row now usage count today row) = ID row"
    "Enabled (incrementAccountStats_row now usage count today row) = Enabled row"
    "UsageTotal (incrementAccountStats_row now usage count today row) = UsageTotal row + usage"
    by (simp_all add: incrementAccountStats_row_def Let_def)
  have "store_ok c s'"
    using store_okD [OF ok] row unfolding store_ok_def r rest by (auto simp: sel)
  then show ?thesis using True row by (auto simp: books_step_def r rest sel)
next
  case False
  then have "s' = s"
    using inc by (auto simp: IncrementAccountStatsOperation_def counted_def Let_def split: if_splits option.splits)
  then show ?thesis using False books_step_refl [OF ok] by simp
qed

lemma store_step_books:
  assumes "store_step (Some k) s l s'" "store_ok (Some k) s" "cipher_ok (Some k)"
  shows "books_step (Some k) s l s'"
  using assms(1)
proof cases
  case create then show ?thesis using books_step_create assms by simp
next
  case delete then show ?thesis using books_step_delete assms by simp
next
  case update then show ?thesis
    using books_step_update [OF assms(2,3) keeps_books_writers(1)] books_step_refl assms(2)
    by (auto simp: UpdateAccount_def split: if_splits)
next
  case quality then show ?thesis
    using books_step_update [OF assms(2,3) keeps_books_writers(2)] by (auto simp: UpdateAccountQuality_def)
next
  case workbuddy then show ?thesis
    using books_step_update [OF assms(2,3) keeps_books_writers(3)] by (auto simp: UpdateWorkBuddyCredentials_def)
next
  case qoder then show ?thesis
    using books_step_update [OF assms(2,3) keeps_books_writers(4)] by (auto simp: UpdateQoderAccount_def)
next
  case cline then show ?thesis
    using books_step_update [OF assms(2,3) keeps_books_writers(5)] by (auto simp: UpdateClineCredentials_def)
next
  case consume then show ?thesis
    using books_step_update [OF assms(2,3) keeps_books_writers(6)] books_step_refl assms(2)
    by (auto simp: ConsumeGrokQuota_def split: if_splits prod.splits)
next
  case claim then show ?thesis
    using books_step_update [OF assms(2,3) keeps_books_writers(7)] books_step_refl assms(2)
    by (auto simp: ClaimGrokPaidQuotaProbe_def Let_def split: if_splits prod.splits)
next
  case increment then show ?thesis using books_step_increment assms(2) by simp
qed

lemma store_run_books:
  assumes "store_run (Some k) s ls s'" "store_ok (Some k) s" "cipher_ok (Some k)"
  shows "books_step (Some k) s ls s'"
  using assms
proof (induction rule: store_run.induct)
  case (nil s)
  then show ?case by (simp add: books_step_refl)
next
  case (more s ls s1 l s2)
  note b1 = more.IH [OF more.prems]
  then have "store_ok (Some k) s1" by (simp add: books_step_def)
  note b2 = store_step_books [OF more.hyps(2) this more.prems(2)]
  show ?case unfolding books_step_def
  proof (intro conjI allI impI)
    fix j b assume j: "j \<le> next_id s \<and> rows s2 j = Some b"
    then have "j \<le> next_id s1" using b1 by (auto simp: books_step_def)
    then obtain a1 where "rows s1 j = Some a1" "UsageTotal b = UsageTotal a1 + booked_on j l"
      using b2 j unfolding books_step_def by blast
    moreover then obtain a where "rows s j = Some a" "UsageTotal a1 = UsageTotal a + booked_on j ls"
      using b1 j unfolding books_step_def by blast
    ultimately show "\<exists>a. rows s j = Some a \<and> UsageTotal b = UsageTotal a + booked_on j (ls @ l)" by simp
  qed (use b1 b2 in \<open>auto simp: books_step_def\<close>)
qed

text \<open>
  Property C5: no usage is lost. In every run of the store, from a consistent store and with
  any interleaving of creations, deletions, snapshot merges, credential rotations, quality
  verdicts, quota updates and statistics updates, the lifetime usage of an account that still
  exists is what it was plus exactly the usage of the statistics updates that were counted.
\<close>

theorem usage_is_conserved:
  assumes "store_run (Some k) s ls s'" "store_ok (Some k) s" "cipher_ok (Some k)"
    "rows s i = Some a" "rows s' i = Some b"
  shows "UsageTotal b = UsageTotal a + booked_on i ls"
  using store_run_books [OF assms(1-3)] assms(4,5) store_okD(5) [OF assms(2,4)]
  unfolding books_step_def by fastforce

lemma store_ok_empty: "store_ok c empty_store"
  by (simp add: store_ok_def empty_store_def)

lemma decode_rows_enabled:
  assumes "store_ok c s" "set is \<subseteq> enabled s"
  shows "\<exists>accs. decode_rows c s True is = Inr accs \<and> map ID accs = is \<and> (\<forall>a \<in> set accs. Enabled a)"
  using assms(2)
proof (induction "is")
  case (Cons i "is")
  then obtain accs where IH: "decode_rows c s True is = Inr accs" "map ID accs = is" "\<forall>a \<in> set accs. Enabled a" by auto
  obtain row where row: "rows s i = Some row" "Enabled row" using Cons.prems store_okD(4) [OF assms(1)] by auto
  then obtain a where a: "unmarshalAccount c row i = Inr a"
    using decodable_unmarshal store_okD(5) [OF assms(1)] by blast
  then have "ID a = i" "Enabled a"
    using unmarshal_sel(2,3) [OF a] row store_okD(5) [OF assms(1) row(1)] by auto
  then show ?case using IH row a by simp
qed simp

text \<open>
  Property C31: in every store reachable from the empty one, the listing of the enabled accounts
  succeeds and returns precisely the rows that are enabled, each once and in the order of
  their ids: the index sets never drift from the rows.
\<close>

theorem enabled_listing_exact:
  assumes "store_run (Some k) empty_store ls s" "cipher_ok (Some k)"
  shows "\<exists>accs. GetEnabledAccounts (Some k) s = Inr accs \<and>
    map ID accs = sorted_list_of_set {i. \<exists>row. rows s i = Some row \<and> Enabled row}"
proof -
  have ok: "store_ok (Some k) s"
    using store_run_books [OF assms(1) store_ok_empty assms(2)] by (simp add: books_step_def)
  have "enabled s \<subseteq> dom (rows s)" using store_okD(4) [OF ok] by auto
  then have "finite (enabled s)" using store_okD(2) [OF ok] finite_subset by blast
  then have "set (sorted_list_of_set (enabled s)) \<subseteq> enabled s" by simp
  from decode_rows_enabled [OF ok this] show ?thesis
    using store_okD(4) [OF ok] by (auto simp: GetEnabledAccounts_def getAccountsByIDs_def)
qed

lemma sample_reachable: "store_run (Some clear_cipher) empty_store [] sample_store"
  using store_run.more [OF store_run.nil store_step.create] unfolding sample_store_def by fastforce

lemma sample_ok: "store_ok (Some clear_cipher) sample_store"
  using store_run_books [OF sample_reachable store_ok_empty clear_cipher_ok] by (simp add: books_step_def)

theorem enabled_listing_exact_witness:
  "\<exists>accs. GetEnabledAccounts (Some clear_cipher) sample_store = Inr accs \<and>
    map ID accs = sorted_list_of_set {i. \<exists>row. rows sample_store i = Some row \<and> Enabled row}"
  by (rule enabled_listing_exact [OF sample_reachable clear_cipher_ok])

theorem usage_is_conserved_witness:
  "\<exists>s' b. store_run (Some clear_cipher) sample_store [(1, 40)] s' \<and> rows s' 1 = Some b \<and> UsageTotal b = 40"
proof -
  have cnt: "counted 9 1 40 1 [] sample_store" by (simp add: counted_def sample_row)
  obtain s' row where s': "IncrementAccountStatsOperation 9 1 40 1 [] ''d'' sample_store = (None, s')" "rows s' 1 = Some row"
    by (auto simp: IncrementAccountStatsOperation_def Let_def sample_row)
  from store_step.increment [OF s'(1), where c = "Some clear_cipher"] cnt
  have "store_run (Some clear_cipher) sample_store ([] @ [(1, 40)]) s'"
    by (intro store_run.more [OF store_run.nil]) simp
  then show ?thesis
    using usage_is_conserved [OF _ sample_ok clear_cipher_ok sample_row s'(2)] s'(2)
    by (auto simp: zero_account_def)
qed

end
