(* ===== verification/Error_Classify.thy ===== *)
theory Error_Classify
  imports Prelude
begin

text \<open>
  The shared classification of upstream error text (\<^verbatim>\<open>src/internal/errors/classify.go\<close>) and
  the client-facing answer of a category (\<^verbatim>\<open>src/internal/errors/public.go\<close>,
  \<^verbatim>\<open>errors.go\<close>). The order of the branches is the order of the source, since the
  first match decides. The lemmas show which classes a text can get, that the scanner for an
  embedded status code finds the leftmost one and stops, and that a client never reads the
  text of an upstream error.
\<close>

section \<open>Status codes in error text\<close>

definition HasExplicitHTTPStatus :: "string \<Rightarrow> string \<Rightarrow> bool" where
  "HasExplicitHTTPStatus lower code0 =
     (let code = TrimSpace code0 in
      if code = [] \<or> lower = [] then False
      else list_ex (\<lambda>p. Contains lower p)
        [''http '' @ code,
         ''http/1.1 '' @ code,
         ''http/2 '' @ code,
         ''status '' @ code,
         ''status='' @ code,
         ''status:'' @ code,
         ''statuscode '' @ code,
         ''statuscode='' @ code,
         ''status code '' @ code,
         ''code '' @ code,
         ''code='' @ code,
         ''code:'' @ code,
         ''response status '' @ code,
         ''response code '' @ code])"

definition statusCodePrefixes :: "string list" where
  "statusCodePrefixes = [''401'', ''402'', ''403'', ''404'', ''429'']"

definition codeAtDelimiter :: "string \<Rightarrow> int \<Rightarrow> string option" where
  "codeAtDelimiter lower start =
     (if start < 0 \<or> int (length lower) \<le> start then None
      else List.find (\<lambda>code. HasPrefix (drop (nat start) lower) code \<and>
             (let rest = drop (nat start + length code) lower
              in rest = [] \<or> HasPrefix rest '':'' \<or> HasPrefix rest '' ''))
           statusCodePrefixes)"

text \<open>
  The loop of \<^verbatim>\<open>scanStatusCode\<close> from \<open>offset\<close>: the next colon, the blanks after it, then
  a delimited code; each round moves past one more colon.
\<close>

function scan_from :: "string \<Rightarrow> nat \<Rightarrow> string" where
  "scan_from lower offset =
     (case Index (drop offset lower) '':'' of
        None \<Rightarrow> ''''
      | Some index \<Rightarrow>
          let position = offset + index + 1;
              trimmed = position + length (takeWhile (\<lambda>c. c = CHR '' '') (drop position lower))
          in (case codeAtDelimiter lower (int trimmed) of
                Some code \<Rightarrow> code
              | None \<Rightarrow> scan_from lower position))"
  by pat_completeness auto
termination
proof (relation "measure (\<lambda>(lower, offset). length lower - offset)")
  fix lower :: string and offset index position trimmed
  assume "Index (drop offset lower) '':'' = Some index" "position = offset + index + 1"
  then show "((lower, position), lower, offset) \<in> measure (\<lambda>(lower, offset). length lower - offset)"
    using Index_Some_lt [of "drop offset lower" "'':''" index] by auto
qed simp

declare scan_from.simps [simp del]

definition scanStatusCode :: "string \<Rightarrow> string" where
  "scanStatusCode lower = scan_from lower 0"

definition LeadingStatusCode :: "string \<Rightarrow> string" where
  "LeadingStatusCode errStr =
     (case codeAtDelimiter (TrimSpace (ToLower errStr)) 0 of None \<Rightarrow> '''' | Some code \<Rightarrow> code)"

section \<open>Refusal markers\<close>

text \<open>\<^verbatim>\<open>upstreamMarkerText\<close>: lower case, JSON escaping backslashes removed.\<close>

definition upstreamMarkerText :: "string \<Rightarrow> string" where
  "upstreamMarkerText text = remove_byte (CHR 0x5C) (ToLower text)"

definition isSharedUpstreamQueueRefusal :: "string \<Rightarrow> bool" where
  "isSharedUpstreamQueueRefusal text0 =
     (let text = upstreamMarkerText text0 in
      Contains text ''available upstream accounts are rate-limited'' \<or>
      Contains text ''available upstream accounts are rate limited'')"

definition flagValue :: "string \<Rightarrow> string \<Rightarrow> string" where
  "flagValue text name =
     (case Index text name of
        None \<Rightarrow> ''''
      | Some idx \<Rightarrow>
          before_any (TrimLeft (drop (idx + length name) text) [CHR 0x22, CHR '':'', CHR ''='', CHR '' ''])
            [CHR '','', CHR 0x22, CHR 0x7D, CHR '' ''])"

definition isUpstreamQueueGate :: "string \<Rightarrow> bool" where
  "isUpstreamQueueGate text0 =
     (let text = upstreamMarkerText text0 in
      if flagValue text ''isqueued'' = ''true'' then True
      else Contains text ''10605'' \<or> Contains text ''qoder gateway is busy'')"

definition isUpstreamServiceUnavailable :: "string \<Rightarrow> bool" where
  "isUpstreamServiceUnavailable text0 =
     (let text = upstreamMarkerText text0 in
      if flagValue text ''isqueued'' = ''true'' then False
      else if flagValue text ''serviceavailable'' = ''false'' then True
      else flagValue text ''queuecount'' = ''0'')"

definition isClineModelEntitlement :: "string \<Rightarrow> bool" where
  "isClineModelEntitlement lower =
     (if \<not> HasExplicitHTTPStatus lower ''403'' then False
      else Contains lower ''entitlement'' \<or>
           Contains lower ''not subscribed to required model plan'' \<or>
           Contains lower ''only available via cline product surfaces'')"

definition IsCreditExhaustion :: "string \<Rightarrow> bool" where
  "IsCreditExhaustion errStr =
     (let lower = ToLower errStr in
      list_ex (\<lambda>phrase. Contains lower phrase)
        [''qoder quota exhausted'',
         ''no ai credits remaining'',
         ''insufficient_funds'',
         ''insufficient funding'',
         ''available funding is insufficient'',
         ''out of credits'',
         ''credits exhausted'',
         ''run out of credits''])"

section \<open>The account status an error text names\<close>

definition ClassifyAccountStatus :: "string \<Rightarrow> string" where
  "ClassifyAccountStatus errStr =
     (let lower = ToLower errStr in
      if Contains lower ''model is not found'' \<or> Contains lower ''model not found'' then ''''
      else if Contains lower ''no usable plan or allowance'' \<or> Contains lower ''qoder.com/pricing''
              \<or> isClineModelEntitlement lower then ''''
      else if LeadingStatusCode lower \<noteq> '''' then LeadingStatusCode lower
      else if scanStatusCode lower \<noteq> '''' then scanStatusCode lower
      else if HasExplicitHTTPStatus lower ''401'' \<or>
              Contains lower ''refresh token is expired'' \<or>
              Contains lower ''new browser login is required'' \<or>
              Contains lower ''sign in again'' \<or>
              Contains lower ''signed out'' \<or>
              Contains lower ''signed_out'' \<or>
              Contains lower ''unauthenticated'' \<or>
              Contains lower ''no active sessions found'' then ''401''
      else if HasExplicitHTTPStatus lower ''403'' \<or> Contains lower ''forbidden'' then ''403''
      else if HasExplicitHTTPStatus lower ''404'' then ''404''
      else if HasExplicitHTTPStatus lower ''402'' \<or>
              IsCreditExhaustion lower \<or>
              Contains lower ''quota_limit'' then ''402''
      else if HasExplicitHTTPStatus lower ''429'' \<or>
              Contains lower ''qoder agent limit reached'' \<or>
              Contains lower ''agentlimitresettime'' \<or>
              Contains lower ''too many requests'' \<or>
              Contains lower ''rate limit'' \<or>
              Contains lower ''rate_limit'' \<or>
              Contains lower ''no remaining quota'' \<or>
              Contains lower ''quota exceeded'' then ''429''
      else '''')"

section \<open>The class of an upstream error\<close>

record UpstreamErrorClass =
  ec_Category :: string
  ec_Retryable :: bool
  ec_SwitchAccount :: bool

text \<open>A composite literal that names only its category, one that also sets \<^verbatim>\<open>Retryable\<close>, one
  that sets both flags.\<close>

definition class_final :: "string \<Rightarrow> UpstreamErrorClass" where
  "class_final c = \<lparr>ec_Category = c, ec_Retryable = False, ec_SwitchAccount = False\<rparr>"

definition class_retry :: "string \<Rightarrow> UpstreamErrorClass" where
  "class_retry c = \<lparr>ec_Category = c, ec_Retryable = True, ec_SwitchAccount = False\<rparr>"

definition class_switch :: "string \<Rightarrow> UpstreamErrorClass" where
  "class_switch c = \<lparr>ec_Category = c, ec_Retryable = True, ec_SwitchAccount = True\<rparr>"

lemmas class_defs = class_final_def class_retry_def class_switch_def

definition ClassifyUpstreamError :: "string \<Rightarrow> UpstreamErrorClass" where
  "ClassifyUpstreamError errStr =
     (let lower = ToLower errStr in
      if Contains lower ''context canceled'' \<or> Contains lower ''canceled''
        then class_final ''canceled''
      else if Contains lower '' is not configured'' \<or> Contains lower ''configuration error''
              \<or> Contains lower ''client is nil''
        then class_final ''configuration''
      else if Contains lower ''content policy rejected'' \<or> Contains lower ''datainspectionfailed''
              \<or> Contains lower ''input text data may contain''
        then class_final ''client''
      else if Contains lower ''empty upstream stream'' then class_final ''protocol''
      else if Contains lower ''rejected the request parameters'' then class_final ''client''
      else if Contains lower ''protocol error'' \<or> Contains lower ''no usable stream events''
        then class_final ''protocol''
      else if Contains lower ''pacing registry capacity reached'' then class_retry ''local_overload''
      else if Contains lower ''billing daily count exceeded'' then class_switch ''quota_exhausted''
      else if Contains lower ''no usable plan or allowance'' then class_switch ''model_unavailable''
      else if Contains lower ''model is not found'' \<or>
              Contains lower ''model not found'' \<or>
              Contains lower ''model is not supported'' \<or>
              Contains lower ''model is not allowed'' \<or>
              Contains lower ''no_implementation_available'' \<or>
              Contains lower ''context_window_exceeded'' \<or>
              Contains lower ''max_token_limit'' \<or>
              Contains lower ''duplicate request''
        then class_final ''client''
      else if isUpstreamQueueGate lower then class_retry ''upstream_queue''
      else if isUpstreamServiceUnavailable lower then class_retry ''upstream_unavailable''
      else if isSharedUpstreamQueueRefusal lower then class_final ''rate_limit''
      else if HasExplicitHTTPStatus lower ''401'' \<or>
              Contains lower ''refresh token is expired'' \<or>
              Contains lower ''new browser login is required'' \<or>
              Contains lower ''sign in again'' \<or>
              Contains lower ''signed out'' \<or>
              Contains lower ''signed_out'' \<or>
              Contains lower ''invalid_api_key''
        then class_switch ''auth''
      else if isClineModelEntitlement lower then class_switch ''model_unavailable''
      else if HasExplicitHTTPStatus lower ''403'' then class_switch ''auth_blocked''
      else if HasExplicitHTTPStatus lower ''404'' then class_final ''auth_blocked''
      else if Contains lower ''input is too long'' \<or> HasExplicitHTTPStatus lower ''400''
        then class_final ''client''
      else if HasExplicitHTTPStatus lower ''402'' \<or>
              IsCreditExhaustion lower \<or>
              Contains lower ''quota_limit''
        then class_switch ''quota_exhausted''
      else if Contains lower ''code=6004'' then class_switch ''rate_limit''
      else if HasExplicitHTTPStatus lower ''429'' \<or>
              Contains lower ''qoder agent limit reached'' \<or>
              Contains lower ''qoder model rate limited'' \<or>
              Contains lower ''cline inference cap reached'' \<or>
              Contains lower ''available upstream accounts are rate-limited'' \<or>
              Contains lower ''agentlimitresettime'' \<or>
              Contains lower ''too many requests'' \<or>
              Contains lower ''rate limit'' \<or>
              Contains lower ''rate_limit'' \<or>
              Contains lower ''no remaining quota'' \<or>
              Contains lower ''quota exceeded''
        then class_switch ''rate_limit''
      else if Contains lower ''timeout'' \<or> Contains lower ''deadline exceeded''
              \<or> Contains lower ''context deadline''
        then class_switch ''timeout''
      else if Contains lower ''connection reset'' \<or> Contains lower ''connection refused'' \<or>
              Contains lower ''unexpected eof'' \<or> Contains lower ''use of closed'' \<or>
              Contains lower ''broken pipe'' \<or> HasSuffix lower '': eof'' \<or> lower = ''eof''
        then class_switch ''network''
      else if HasExplicitHTTPStatus lower ''500'' \<or> HasExplicitHTTPStatus lower ''502''
              \<or> HasExplicitHTTPStatus lower ''503'' \<or> HasExplicitHTTPStatus lower ''504''
              \<or> Contains lower ''llm_unavailable''
              \<or> Contains lower ''internal_error''
        then class_switch ''server''
      else class_switch ''unknown'')"

section \<open>What a client is told\<close>

definition publicStatusForCategory :: "(string \<times> int) list" where
  "publicStatusForCategory =
     [(''quota_exhausted'', 429),
      (''rate_limit'', 429),
      (''upstream_queue'', 429),
      (''upstream_unavailable'', 503),
      (''auth'', 401),
      (''auth_blocked'', 401),
      (''client'', 400),
      (''model_unavailable'', 404),
      (''configuration'', 503),
      (''timeout'', 504),
      (''network'', 502),
      (''server'', 502),
      (''protocol'', 502),
      (''local_overload'', 502),
      (''schema_mismatch'', 502)]"

definition StatusForCategory :: "string \<Rightarrow> int" where
  "StatusForCategory category =
     (case map_of publicStatusForCategory (TrimSpace category) of Some status \<Rightarrow> status | None \<Rightarrow> 502)"

definition messageForCategoryTable :: "(string \<times> string) list" where
  "messageForCategoryTable =
     [(''configuration'', ''This provider is not configured correctly. Contact the gateway administrator.''),
      (''auth'', ''The upstream account session has expired. Re-authenticate the account and retry.''),
      (''auth_blocked'', ''The upstream account is not allowed to use this feature. Check its plan and permissions.''),
      (''quota_exhausted'', ''The available upstream accounts have exhausted their quota. Retry after the quota resets or add capacity.''),
      (''rate_limit'', ''The available upstream accounts are rate-limited. Retry after the cooldown.''),
      (''upstream_queue'', ''The upstream is holding this model's requests in a queue and has not admitted this one yet. Retry after the indicated delay.''),
      (''upstream_unavailable'', ''The upstream service for this model is temporarily unavailable. Retry after the indicated delay.''),
      (''model_unavailable'', ''The requested model is unavailable for the selected upstream accounts.''),
      (''client'', ''The upstream rejected the request parameters or model. Check the request and model selection.''),
      (''timeout'', ''The upstream stream timed out while waiting for generated output.''),
      (''network'', ''The gateway lost its connection to the upstream service. Retry later.''),
      (''server'', ''The upstream service is temporarily unavailable. Retry later.''),
      (''protocol'', ''The upstream returned an unsupported stream format. Use the request ID to inspect diagnostics.''),
      (''local_overload'', ''The gateway is temporarily overloaded. Retry later.''),
      (''schema_mismatch'', ''The model's answer did not match the schema this strict request declared. Relax the schema or retry.''),
      (''canceled'', ''The request was canceled.'')]"

definition messageForCategory :: "string \<Rightarrow> string" where
  "messageForCategory category =
     (case map_of messageForCategoryTable (TrimSpace category) of
        Some message \<Rightarrow> message
      | None \<Rightarrow> if TrimSpace category = [] then ''The upstream request failed.''
                else ''The upstream request failed. Use the request ID to inspect diagnostics.'')"

definition PublicMessage :: "string \<Rightarrow> string" where
  "PublicMessage errText = messageForCategory (ec_Category (ClassifyUpstreamError errText))"

text \<open>
  \<^verbatim>\<open>AppError\<close> and the headers and status \<^verbatim>\<open>WriteResponse\<close> publishes: the \<^verbatim>\<open>Retry-After\<close>
  header in whole seconds, rounded up, when the hint is positive.
\<close>

record AppError =
  ae_Code :: string
  ae_Message :: string
  ae_HTTPStatus :: int
  ae_RetryAfter :: duration

definition New :: "string \<Rightarrow> string \<Rightarrow> int \<Rightarrow> AppError" where
  "New code message httpStatus =
     \<lparr>ae_Code = code, ae_Message = message, ae_HTTPStatus = httpStatus, ae_RetryAfter = 0\<rparr>"

definition NewWithRetryAfter :: "string \<Rightarrow> string \<Rightarrow> int \<Rightarrow> duration \<Rightarrow> AppError" where
  "NewWithRetryAfter code message httpStatus retryAfter =
     (let err = New code message httpStatus in
      if retryAfter > 0 then err\<lparr>ae_RetryAfter := retryAfter\<rparr> else err)"

definition retry_after_header :: "AppError \<Rightarrow> int option" where
  "retry_after_header e =
     (if ae_RetryAfter e > 0 then
        let seconds = (ae_RetryAfter e + second - 1) div second
        in Some (if seconds < 1 then 1 else seconds)
      else None)"

section \<open>Properties of the classification\<close>

lemma codeAtDelimiter_range: "codeAtDelimiter lower k = Some c \<Longrightarrow> c \<in> set statusCodePrefixes"
  using find_Some_iff_prefix by (fastforce simp: codeAtDelimiter_def split: if_splits)

text \<open>
  Reference definition of the scan: the code after the first colon that has one, where a
  colon has a code when the blanks after it are followed by a delimited status code.
\<close>

definition code_after_colon :: "string \<Rightarrow> nat \<Rightarrow> string option" where
  "code_after_colon lower k =
     codeAtDelimiter lower
       (int (k + 1 + length (takeWhile (\<lambda>c. c = CHR '' '') (drop (k + 1) lower))))"

definition scan_spec :: "string \<Rightarrow> nat \<Rightarrow> string" where
  "scan_spec lower offset =
     (case List.find (\<lambda>k. lower ! k = CHR '':'' \<and> code_after_colon lower k \<noteq> None) [offset..<length lower] of
        None \<Rightarrow> '''' | Some k \<Rightarrow> the (code_after_colon lower k))"

lemma scan_from_unfold: "scan_from lower offset =
   (case Index (drop offset lower) '':'' of
      None \<Rightarrow> ''''
    | Some i \<Rightarrow> (case code_after_colon lower (offset + i) of
                  Some code \<Rightarrow> code | None \<Rightarrow> scan_from lower (offset + i + 1)))"
  by (subst scan_from.simps) (simp only: code_after_colon_def Let_def)

lemma find_upt_skip:
  "(\<And>k. a \<le> k \<Longrightarrow> k < b \<Longrightarrow> \<not> P k) \<Longrightarrow> a \<le> b \<Longrightarrow> b \<le> n \<Longrightarrow>
   List.find P [a..<n] = List.find P [b..<n]"
proof (induction "b - a" arbitrary: a)
  case (Suc d)
  then have ab: "a < b" by simp
  with Suc.prems have "[a..<n] = a # [Suc a..<n]" by (simp add: upt_conv_Cons)
  moreover have "\<not> P a" using Suc.prems ab by simp
  moreover have "List.find P [Suc a..<n] = List.find P [b..<n]"
    using Suc ab by (intro Suc.hyps) auto
  ultimately show ?case by simp
qed simp

lemma Index_char_Some:
  "Index s [c] = Some i \<longleftrightarrow> i < length s \<and> s ! i = c \<and> (\<forall>j < i. s ! j \<noteq> c)"
proof (induction s arbitrary: i)
  case (Cons d s)
  show ?case
  proof (cases i)
    case 0
    then show ?thesis by auto
  next
    case (Suc k)
    then show ?thesis using Cons.IH [of k] by (auto simp: nth_Cons less_Suc_eq_0_disj split: nat.splits)
  qed
qed simp

lemma Index_char_None: "Index s [c] = None \<longleftrightarrow> (\<forall>j < length s. s ! j \<noteq> c)"
  by (induction s) (auto simp: nth_Cons less_Suc_eq_0_disj split: nat.splits)

lemma scan_from_eq_spec: "scan_from lower offset = scan_spec lower offset"
proof (induction lower offset rule: scan_from.induct)
  case (1 lower offset)
  let ?P = "\<lambda>k. lower ! k = CHR '':'' \<and> code_after_colon lower k \<noteq> None"
  show ?case
  proof (cases "Index (drop offset lower) '':''")
    case None
    then have "lower ! k \<noteq> CHR '':''" if "offset \<le> k" "k < length lower" for k
      using that by (auto simp: Index_char_None dest: spec [of _ "k - offset"])
    then have "List.find ?P [offset..<length lower] = None" by (auto simp: find_None_all)
    with None show ?thesis by (subst scan_from_unfold) (simp add: scan_spec_def)
  next
    case (Some i)
    then have i: "offset + i < length lower" "lower ! (offset + i) = CHR '':''"
      and before: "\<And>j. j < i \<Longrightarrow> lower ! (offset + j) \<noteq> CHR '':''"
      by (auto simp: Index_char_Some)
    have skip: "List.find ?P [offset..<length lower] = List.find ?P [offset + i..<length lower]"
    proof (rule find_upt_skip)
      fix k assume k: "offset \<le> k" "k < offset + i"
      then have "lower ! (offset + (k - offset)) \<noteq> CHR '':''" by (intro before) simp
      with k show "\<not> ?P k" by simp
    qed (use i in simp_all)
    have hd: "[offset + i..<length lower] = (offset + i) # [offset + i + 1..<length lower]"
      using i by (simp add: upt_conv_Cons)
    show ?thesis
    proof (cases "code_after_colon lower (offset + i)")
      case None
      have "scan_from lower (offset + i + 1) = scan_spec lower (offset + i + 1)"
        using 1 [OF Some refl refl] None by (simp only: code_after_colon_def)
      then show ?thesis
        unfolding scan_from_unfold [of lower offset] scan_spec_def skip hd
        by (simp add: Some None scan_spec_def)
    next
      case (Some c)
      then show ?thesis
        unfolding scan_from_unfold [of lower offset] scan_spec_def skip hd
        by (simp add: \<open>Index (drop offset lower) '':'' = Some i\<close> i)
    qed
  qed
qed

lemma scan_from_range: "scan_from lower k \<in> insert '''' (set statusCodePrefixes)"
proof (cases "List.find (\<lambda>k. lower ! k = CHR '':'' \<and> code_after_colon lower k \<noteq> None) [k..<length lower]")
  case None
  then show ?thesis by (simp add: scan_from_eq_spec scan_spec_def)
next
  case (Some i)
  then obtain c where "code_after_colon lower i = Some c" using find_Some_iff_prefix by fastforce
  with Some show ?thesis
    by (simp add: scan_from_eq_spec scan_spec_def code_after_colon_def codeAtDelimiter_range)
qed

lemma LeadingStatusCode_range: "LeadingStatusCode s \<in> insert '''' (set statusCodePrefixes)"
  by (auto simp: LeadingStatusCode_def dest: codeAtDelimiter_range split: option.splits)

lemma ClassifyAccountStatus_range:
  "ClassifyAccountStatus s \<in> {'''', ''401'', ''402'', ''403'', ''404'', ''429''}"
proof -
  let ?R = "{'''', ''401'', ''402'', ''403'', ''404'', ''429''}"
  have "LeadingStatusCode t \<in> ?R" "scanStatusCode t \<in> ?R" for t
    using LeadingStatusCode_range [of t] scan_from_range [of t 0]
    unfolding scanStatusCode_def statusCodePrefixes_def by auto
  then show ?thesis unfolding ClassifyAccountStatus_def Let_def
    by (intro all_if [where Q = "\<lambda>x. x \<in> ?R"]) simp_all
qed

text \<open>A class that asks for another account is also retryable.\<close>

lemma class_switch_retryable:
  "ec_SwitchAccount (ClassifyUpstreamError s) \<Longrightarrow> ec_Retryable (ClassifyUpstreamError s)"
proof -
  have "ec_SwitchAccount (ClassifyUpstreamError s) \<longrightarrow> ec_Retryable (ClassifyUpstreamError s)"
    unfolding ClassifyUpstreamError_def Let_def
    by (intro all_if [where Q = "\<lambda>c. ec_SwitchAccount c \<longrightarrow> ec_Retryable c"]) (simp_all add: class_defs)
  then show "ec_SwitchAccount (ClassifyUpstreamError s) \<Longrightarrow> ec_Retryable (ClassifyUpstreamError s)" ..
qed

definition upstream_categories :: "string list" where
  "upstream_categories =
     [''canceled'', ''configuration'', ''client'', ''protocol'', ''local_overload'',
      ''quota_exhausted'', ''model_unavailable'', ''upstream_queue'', ''upstream_unavailable'',
      ''rate_limit'', ''auth'', ''auth_blocked'', ''timeout'', ''network'', ''server'', ''unknown'']"

lemma class_category_range: "ec_Category (ClassifyUpstreamError s) \<in> set upstream_categories"
  unfolding ClassifyUpstreamError_def Let_def
  by (intro all_if [where Q = "\<lambda>c. ec_Category c \<in> set upstream_categories"])
    (simp_all add: class_defs upstream_categories_def)

text \<open>Case mapping does not change how a marker reads.\<close>

lemma upstreamMarkerText_ToLower [simp]: "upstreamMarkerText (ToLower t) = upstreamMarkerText t"
  by (simp add: upstreamMarkerText_def)

lemma marker_predicates_ToLower [simp]:
  "isUpstreamQueueGate (ToLower t) = isUpstreamQueueGate t"
  "isUpstreamServiceUnavailable (ToLower t) = isUpstreamServiceUnavailable t"
  "isSharedUpstreamQueueRefusal (ToLower t) = isSharedUpstreamQueueRefusal t"
  "IsCreditExhaustion (ToLower t) = IsCreditExhaustion t"
  by (simp_all add: isUpstreamQueueGate_def isUpstreamServiceUnavailable_def
      isSharedUpstreamQueueRefusal_def IsCreditExhaustion_def)

text \<open>
  A refusal that names the upstream's queue is decided before any branch that reads a status
  code: the text may carry a 401 or 403 envelope and is still not a credential failure.
\<close>

lemma queue_gate_category:
  assumes "isUpstreamQueueGate t"
  shows "ec_Category (ClassifyUpstreamError t) \<in>
    {''canceled'', ''configuration'', ''client'', ''protocol'', ''local_overload'',
     ''quota_exhausted'', ''model_unavailable'', ''upstream_queue''}" (is "_ \<in> ?R")
  unfolding ClassifyUpstreamError_def Let_def marker_predicates_ToLower
  by (simp only: assms if_True) (intro all_if [where Q = "\<lambda>c. ec_Category c \<in> ?R"]; simp add: class_defs)

lemma queue_gate_not_unavailable:
  "isUpstreamServiceUnavailable t \<Longrightarrow> flagValue (upstreamMarkerText t) ''isqueued'' \<noteq> ''true''"
  by (auto simp: isUpstreamServiceUnavailable_def Let_def)

text \<open>A failure that is answered as the caller's own fault is never retried anywhere.\<close>

lemma status_400_final:
  "StatusForCategory (ec_Category (ClassifyUpstreamError t)) = 400 \<Longrightarrow>
   \<not> ec_Retryable (ClassifyUpstreamError t) \<and> \<not> ec_SwitchAccount (ClassifyUpstreamError t)"
proof -
  let ?Q = "\<lambda>c. StatusForCategory (ec_Category c) = 400 \<longrightarrow> \<not> ec_Retryable c \<and> \<not> ec_SwitchAccount c"
  have st: "StatusForCategory c \<noteq> 400"
    if "c \<in> set [''local_overload'', ''quota_exhausted'', ''model_unavailable'', ''upstream_queue'',
      ''upstream_unavailable'', ''rate_limit'', ''auth'', ''auth_blocked'', ''timeout'', ''network'',
      ''server'', ''unknown'']" for c
    using that by (auto simp: StatusForCategory_def publicStatusForCategory_def TrimSpace_def is_space_def)
  have "?Q (ClassifyUpstreamError t)"
    unfolding ClassifyUpstreamError_def Let_def
    by (intro all_if [where Q = ?Q]) (simp_all add: class_defs st)
  then show "StatusForCategory (ec_Category (ClassifyUpstreamError t)) = 400 \<Longrightarrow> ?thesis" by blast
qed

definition public_sentences :: "string list" where
  "public_sentences = map snd messageForCategoryTable @
     [''The upstream request failed.'',
      ''The upstream request failed. Use the request ID to inspect diagnostics.'']"

lemma messageForCategory_range: "messageForCategory c \<in> set public_sentences"
proof (cases "map_of messageForCategoryTable (TrimSpace c)")
  case None
  then show ?thesis by (simp add: messageForCategory_def public_sentences_def)
next
  case (Some m)
  then have "(TrimSpace c, m) \<in> set messageForCategoryTable" by (rule map_of_SomeD)
  then have "m \<in> snd ` set messageForCategoryTable" by force
  with Some show ?thesis by (simp add: messageForCategory_def public_sentences_def)
qed

lemma retry_after_header_ceil:
  assumes "retry_after_header e = Some n"
  shows "(n - 1) * second < ae_RetryAfter e" "ae_RetryAfter e \<le> n * second" "1 \<le> n"
  using assms by (auto simp: retry_after_header_def Let_def split: if_splits)

text \<open>
  The status code found in an error text by the hand-written scan is the one the
  declarative reading gives: the code after the first colon that is followed, after blanks, by
  a delimited status code.
\<close>

theorem scanStatusCode_is_first_delimited:
  "scanStatusCode lower = scan_spec lower 0"
  by (simp add: scanStatusCode_def scan_from_eq_spec)



text \<open>
  No upstream text reaches a client through the public message: whatever the
  error says, the message is one of the fixed sentences of the table.
\<close>

theorem PublicMessage_fixed_sentences: "PublicMessage t \<in> set public_sentences"
  using messageForCategory_range by (simp add: PublicMessage_def public_sentences_def Let_def)

text \<open>
  The Retry-After header of an error is the least whole number of seconds, and at
  least one, that covers the duration the error carries.
\<close>

theorem retry_after_is_ceiling:
  assumes "retry_after_header e = Some n"
  shows "(n - 1) * second < ae_RetryAfter e \<and> ae_RetryAfter e \<le> n * second \<and> 1 \<le> n"
  using retry_after_header_ceil [OF assms] by simp

theorem retry_after_is_ceiling_witness:
  "retry_after_header (NewWithRetryAfter ''c'' ''m'' 429 1500000000) = Some 2 \<and> (1500000000::int) \<le> 2 * second"
  using retry_after_is_ceiling [of "NewWithRetryAfter ''c'' ''m'' 429 1500000000" 2]
  by (simp add: retry_after_header_def NewWithRetryAfter_def New_def)

end
