(* ===== verification/Backoff.thy ===== *)
theory Backoff
  imports Prelude
begin

text \<open>
  The contract of an exponential backoff with a ceiling, which two components promise: the
  rate-limit cooldown of an account and the failure cooldown of an egress node. The laws say
  what the first failure costs and how one more failure changes the cooldown; the closed
  form, the bounds and monotonicity follow once, here.
\<close>

locale capped_doubling =
  fixes backoff :: "int \<Rightarrow> duration"
    and base :: duration
    and cap :: duration
  assumes first: "n \<le> 1 \<Longrightarrow> backoff n = base"
    and again: "1 \<le> n \<Longrightarrow> backoff (n + 1) = min cap (2 * backoff n)"
    and base_pos: "0 < base"
    and base_cap: "base \<le> cap"
begin

lemma closed_nat: "backoff (int k + 1) = min cap (base * 2 ^ k)"
proof (induction k)
  case 0
  show ?case using first [of 1] base_cap by simp
next
  case (Suc k)
  have "0 < base * 2 ^ k" using base_pos by simp
  then show ?case using again [of "int k + 1"] Suc base_pos base_cap by (simp add: min_def add.commute)
qed

lemma closed: "1 \<le> n \<Longrightarrow> backoff n = min cap (base * 2 ^ nat (n - 1))"
  using closed_nat [of "nat (n - 1)"] by simp

lemma lower: "base \<le> backoff n"
proof (cases "1 \<le> n")
  case True
  have "base * 1 \<le> base * 2 ^ nat (n - 1)" using base_pos by (intro mult_left_mono) auto
  then show ?thesis using closed [OF True] base_cap by simp
qed (use first in simp)

lemma upper: "backoff n \<le> cap"
  using closed [of n] first [of n] base_cap by (cases "1 \<le> n") auto

lemma mono: "m \<le> n \<Longrightarrow> backoff m \<le> backoff n"
proof (cases "1 \<le> m")
  case True
  assume "m \<le> n"
  then have "(2::int) ^ nat (m - 1) \<le> 2 ^ nat (n - 1)" by (intro power_increasing) auto
  then have "base * 2 ^ nat (m - 1) \<le> base * 2 ^ nat (n - 1)" using base_pos by (intro mult_left_mono) auto
  then show ?thesis using closed [of m] closed [of n] True \<open>m \<le> n\<close> by simp
qed (use first [of m] lower in simp)

lemma saturates:
  assumes "cap \<le> base * 2 ^ k" "int k + 1 \<le> n"
  shows "backoff n = cap"
proof -
  have "backoff (int k + 1) = cap" using closed_nat assms(1) by simp
  then show ?thesis using mono [OF assms(2)] upper [of n] by simp
qed

end

end
