(* ===== verification/Account_Policy.thy ===== *)
theory Account_Policy
  imports Account Error_Classify Backoff
begin

text \<open>
  How one upstream result becomes an account state change
  (\<^verbatim>\<open>src/internal/accountpolicy/policy.go\<close>): the verdict of an error, its application to the
  account row, and the question the pool asks of the row later. The clock is an argument. An
  error is its text and, when the error value implements the retry-after interface, the
  duration it reports. An account pointer that may be nil is an option.
\<close>

section \<open>Scopes, cooldowns and verdicts\<close>

datatype Scope = ScopeNone | ScopeModel | ScopeAccount | ScopeCredential

definition CooldownAuth :: duration where "CooldownAuth = 5 * minute"
definition CooldownRateLimitBase :: duration where "CooldownRateLimitBase = 30 * second"
definition CooldownRateLimitMax :: duration where "CooldownRateLimitMax = 30 * minute"
definition CooldownRateLimit :: duration where "CooldownRateLimit = CooldownRateLimitBase"
definition CooldownPayment :: duration where "CooldownPayment = 24 * hour"
definition CooldownBlocked :: duration where "CooldownBlocked = 24 * hour"
definition CooldownBlockedGro :: duration where "CooldownBlockedGro = 10 * minute"
definition CooldownTransient :: duration where "CooldownTransient = 5 * minute"
definition CredentialReverify :: duration where "CredentialReverify = 30 * minute"

lemmas cooldown_defs = CooldownAuth_def CooldownRateLimitBase_def CooldownRateLimitMax_def CooldownRateLimit_def
  CooldownPayment_def CooldownBlocked_def CooldownBlockedGro_def CooldownTransient_def CredentialReverify_def

definition AccountStatusQoderQuotaExhausted :: string where
  "AccountStatusQoderQuotaExhausted = ''qoder_quota_exhausted''"
definition AccountStatusWorkBuddyQuotaExhausted :: string where
  "AccountStatusWorkBuddyQuotaExhausted = ''workbuddy_quota_exhausted''"
definition AccountAuthStatusReauthRequired :: string where
  "AccountAuthStatusReauthRequired = ''reauthRequired''"

record Verdict =
  v_Status :: string
  v_Message :: string
  v_Scope :: Scope
  v_Retryable :: bool
  v_SwitchAccount :: bool
  v_NeedsLogin :: bool
  v_Cooldown :: duration
  v_Model :: string
  v_ModelCooldownKind :: string
  v_At :: instant

text \<open>The zero value of the struct, from which the composite literals below are built.\<close>

definition zero_verdict :: Verdict where
  "zero_verdict = \<lparr>v_Status = [], v_Message = [], v_Scope = ScopeNone, v_Retryable = False, v_SwitchAccount = False,
     v_NeedsLogin = False, v_Cooldown = 0, v_Model = [], v_ModelCooldownKind = [], v_At = 0\<rparr>"

record upstream_error =
  err_text :: string
  err_retry_after :: "duration option"

definition Success :: "instant \<Rightarrow> Verdict" where
  "Success t = zero_verdict\<lparr>v_At := t\<rparr>"

text \<open>\<^verbatim>\<open>Verdict.Apply\<close>; the clock is read only when the verdict carries no time.\<close>

definition Apply :: "instant \<Rightarrow> Verdict \<Rightarrow> Account \<Rightarrow> Account" where
  "Apply now v acc =
     (let t = (if v_At v = 0 then now else v_At v);
          status = TrimSpace (v_Status v);
          acc1 = acc\<lparr>StatusCode := status,
            AuthStatus := (if v_NeedsLogin v then AccountAuthStatusReauthRequired
              else if status = [] then AccountAuthStatusActive else AuthStatus acc)\<rparr>;
          acc2 = (if status = [] then acc1\<lparr>StatusMessage := [], LastAttempt := 0, RateLimitFailures := 0\<rparr>
            else let acc3 = acc1\<lparr>StatusMessage := TrimSpace (v_Message v), LastAttempt := t\<rparr> in
              if status = ''429'' then
                let acc4 = acc3\<lparr>RateLimitFailures := RateLimitFailures acc3 + 1\<rparr> in
                if v_Cooldown v > 0 \<and> t + v_Cooldown v > QuotaResetAt acc4
                then acc4\<lparr>QuotaResetAt := t + v_Cooldown v\<rparr> else acc4
              else acc3)
      in acc2\<lparr>VerifiedAt := t\<rparr>)"

definition ScopeForStatus :: "string \<Rightarrow> Scope" where
  "ScopeForStatus status =
     (let s = TrimSpace status in
      if s = ''401'' then ScopeCredential
      else if s \<in> {''402'', ''403'', ''404'', ''429'', AccountStatusQoderQuotaExhausted, AccountStatusWorkBuddyQuotaExhausted}
        then ScopeAccount
      else if s = [] then ScopeNone
      else ScopeAccount)"

definition Retryable :: "upstream_error option \<Rightarrow> bool" where
  "Retryable err = (case err of None \<Rightarrow> False | Some e \<Rightarrow> ec_Retryable (ClassifyUpstreamError (err_text e)))"

section \<open>Text predicates\<close>

definition isClientRefusal :: "string \<Rightarrow> bool" where
  "isClientRefusal lower =
     (Contains lower ''content policy rejected'' \<or>
      Contains lower ''datainspectionfailed'' \<or>
      Contains lower ''input text data may contain'' \<or>
      Contains lower ''rejected the request parameters'')"

definition isGlobalUpstreamRefusal :: "string \<Rightarrow> bool" where
  "isGlobalUpstreamRefusal text0 =
     (let text = remove_byte (CHR 0x5C) (ToLower text0) in
      Contains text ''qoder gateway is busy'' \<or>
      Contains text ''available upstream accounts are rate-limited'' \<or>
      Contains text ''available upstream accounts are rate limited'' \<or>
      Contains text ''10605'' \<or>
      Contains text ([CHR 0x22] @ ''serviceavailable'' @ [CHR 0x22] @ '':false'') \<or>
      Contains text ([CHR 0x22] @ ''isqueued'' @ [CHR 0x22] @ '':true''))"

definition isEntitlementRefusal :: "string \<Rightarrow> bool" where
  "isEntitlementRefusal lower =
     (Contains lower ''no usable plan or allowance'' \<or>
      Contains lower ''not subscribed to required model plan'' \<or>
      Contains lower ''only available via cline product surfaces'' \<or>
      (Contains lower ''http 403'' \<and> Contains lower ''entitlement''))"

definition modelCooldownKindFor :: "string \<Rightarrow> string" where
  "modelCooldownKindFor lower =
     (if isEntitlementRefusal lower then ModelCooldownUnavailable else ModelCooldownThrottled)"

definition isModelScopedFailure :: "string \<Rightarrow> bool" where
  "isModelScopedFailure lower =
     (Contains lower ''code=6004'' \<or>
      Contains lower ''qoder gateway is busy'' \<or>
      Contains lower ''qoder agent limit reached'' \<or>
      Contains lower ''qoder model rate limited'' \<or>
      Contains lower ''available upstream accounts are rate-limited'' \<or>
      Contains lower ''agentlimitresettime'' \<or>
      Contains lower ''model is not found'' \<or>
      Contains lower ''model not found'' \<or>
      Contains lower ''no_implementation_available'' \<or>
      Contains lower ''context_window_exceeded'' \<or>
      Contains lower ''max_token_limit'' \<or>
      Contains lower ''model unavailable'' \<or>
      Contains lower ''not subscribed to required model plan'' \<or>
      Contains lower ''only available via cline product surfaces'' \<or>
      (Contains lower ''http 403'' \<and> Contains lower ''entitlement'') \<or>
      Contains lower ''requested base model'')"

definition accountType :: "Account option \<Rightarrow> string" where
  "accountType acc = (case acc of None \<Rightarrow> [] | Some a \<Rightarrow> AccountType a)"

definition isGrok :: "Account option \<Rightarrow> bool" where
  "isGrok acc = (case acc of None \<Rightarrow> False | Some a \<Rightarrow> EqualFold (TrimSpace (AccountType a)) ''grok'')"

text \<open>The operator-facing sentences, whose non-ASCII part is given by its UTF-8 bytes.\<close>

definition credentialMessage :: "Account option \<Rightarrow> string \<Rightarrow> string" where
  "credentialMessage acc fallback =
     (if isGrok acc then utf8 [228, 184, 138, 230, 184, 184, 230, 139, 146, 231, 187, 157, 232, 175, 165] @ '' Grok Build OAuth '' @ utf8 [230, 142, 136, 230, 157, 131, 239, 188, 140, 232, 175, 183, 229, 156, 168, 232, 180, 166, 229, 143, 183, 231, 174, 161, 231, 144, 134, 228, 184, 173, 233, 135, 141, 230, 150, 176, 229, 174, 140, 230, 136, 144, 229, 174, 152, 230, 150, 185, 231, 153, 187, 229, 189, 149]
      else if acc \<noteq> None \<and> EqualFold (TrimSpace (accountType acc)) ''workbuddy'' then utf8 [228, 184, 138, 230, 184, 184, 230, 139, 146, 231, 187, 157, 232, 175, 165] @ '' WorkBuddy '' @ utf8 [230, 142, 136, 230, 157, 131, 239, 188, 140, 232, 175, 183, 229, 156, 168, 232, 180, 166, 229, 143, 183, 231, 174, 161, 231, 144, 134, 228, 184, 173, 233, 135, 141, 230, 150, 176, 229, 174, 140, 230, 136, 144] @ '' OAuth '' @ utf8 [231, 153, 187, 229, 189, 149]
      else if acc \<noteq> None \<and> EqualFold (TrimSpace (accountType acc)) ''cline'' then utf8 [228, 184, 138, 230, 184, 184, 230, 139, 146, 231, 187, 157, 232, 175, 165] @ '' Cline '' @ utf8 [230, 142, 136, 230, 157, 131, 239, 188, 140, 232, 175, 183, 229, 156, 168, 232, 180, 166, 229, 143, 183, 231, 174, 161, 231, 144, 134, 228, 184, 173, 233, 135, 141, 230, 150, 176, 229, 174, 140, 230, 136, 144] @ '' OAuth '' @ utf8 [231, 153, 187, 229, 189, 149]
      else utf8 [228, 184, 138, 230, 184, 184, 230, 139, 146, 231, 187, 157, 232, 175, 165, 229, 135, 173, 230, 141, 174, 239, 188, 140, 233, 156, 128, 232, 166, 129, 233, 135, 141, 230, 150, 176, 231, 153, 187, 229, 189, 149, 229, 144, 142, 233, 135, 141, 232, 175, 149])"

section \<open>Classification\<close>

definition creditExhaustionVerdict :: "Account option \<Rightarrow> string \<Rightarrow> upstream_error \<Rightarrow> instant \<Rightarrow> Verdict option" where
  "creditExhaustionVerdict acc message err t =
     (if EqualFold (TrimSpace (accountType acc)) ''workbuddy'' then
        Some (zero_verdict\<lparr>v_Status := AccountStatusWorkBuddyQuotaExhausted, v_Message := message,
          v_Scope := ScopeAccount, v_Retryable := Retryable (Some err), v_SwitchAccount := True, v_At := t\<rparr>)
      else if EqualFold (TrimSpace (accountType acc)) ''qoder'' then
        Some (zero_verdict\<lparr>v_Status := AccountStatusQoderQuotaExhausted, v_Message := message,
          v_Scope := ScopeAccount, v_Retryable := Retryable (Some err), v_SwitchAccount := True, v_At := t\<rparr>)
      else None)"

text \<open>The last part of \<^verbatim>\<open>Classify\<close>, the switch on the account status of the text.\<close>

definition classify_by_status :: "Account option \<Rightarrow> upstream_error \<Rightarrow> string \<Rightarrow> instant \<Rightarrow> Verdict" where
  "classify_by_status acc err message now =
     (let status = ClassifyAccountStatus message; retry = Retryable (Some err) in
      if status = ''401'' then
        zero_verdict\<lparr>v_Status := ''401'', v_Message := credentialMessage acc message, v_Scope := ScopeCredential,
          v_Retryable := retry, v_SwitchAccount := True, v_NeedsLogin := True,
          v_Cooldown := CredentialReverify, v_At := now\<rparr>
      else if status = ''403'' \<or> status = ''404'' then
        zero_verdict\<lparr>v_Status := status, v_Message := message, v_Scope := ScopeAccount,
          v_Retryable := retry, v_SwitchAccount := True,
          v_Cooldown := (if isGrok acc then CooldownBlockedGro else CooldownBlocked), v_At := now\<rparr>
      else if status = ''402'' then
        zero_verdict\<lparr>v_Status := ''402'', v_Message := message, v_Scope := ScopeAccount,
          v_Retryable := retry, v_SwitchAccount := True, v_Cooldown := CooldownPayment, v_At := now\<rparr>
      else if status = ''429'' then
        zero_verdict\<lparr>v_Status := ''429'', v_Message := message, v_Scope := ScopeAccount,
          v_Retryable := retry, v_SwitchAccount := True, v_Cooldown := CooldownRateLimit, v_At := now\<rparr>
      else zero_verdict\<lparr>v_Scope := ScopeNone, v_Retryable := retry, v_SwitchAccount := True, v_At := now\<rparr>)"

definition Classify :: "Account option \<Rightarrow> upstream_error option \<Rightarrow> string \<Rightarrow> instant \<Rightarrow> Verdict" where
  "Classify acc err0 model now = (case err0 of None \<Rightarrow> Success now | Some err \<Rightarrow>
     (let message = TrimSpace (err_text err); lower = ToLower message in
      if EqualFold (accountType acc) ''qoder'' \<and> Contains lower ''billing daily count exceeded'' then
        let reset = (case acc of None \<Rightarrow> 0 | Some a \<Rightarrow> qq_ResetAt (QoderQuota (QoderPart a)));
            cooldown = (if reset \<noteq> 0 \<and> reset > now then Sub reset now else CooldownPayment) in
        zero_verdict\<lparr>v_Status := ''429'', v_Message := message, v_Scope := ScopeAccount,
          v_Retryable := True, v_SwitchAccount := True, v_Cooldown := cooldown, v_At := now\<rparr>
      else if EqualFold (accountType acc) ''qoder'' \<and> Contains lower ''no usable plan or allowance'' then
        zero_verdict\<lparr>v_Scope := ScopeModel, v_Message := message, v_Model := model,
          v_Retryable := True, v_SwitchAccount := True, v_Cooldown := CooldownPayment,
          v_ModelCooldownKind := ModelCooldownUnavailable, v_At := now\<rparr>
      else if isGlobalUpstreamRefusal lower then
        zero_verdict\<lparr>v_Scope := ScopeModel, v_Message := message, v_Model := model,
          v_Retryable := True, v_SwitchAccount := False, v_At := now\<rparr>
      else if isClientRefusal lower then
        zero_verdict\<lparr>v_Scope := ScopeNone, v_Message := message, v_Retryable := False,
          v_SwitchAccount := False, v_At := now\<rparr>
      else if Contains lower ''empty upstream stream'' then
        zero_verdict\<lparr>v_Scope := ScopeNone, v_Message := message, v_Retryable := False,
          v_SwitchAccount := False, v_At := now\<rparr>
      else case (if IsCreditExhaustion lower then creditExhaustionVerdict acc message err now else None) of
        Some verdict \<Rightarrow> verdict
      | None \<Rightarrow> (case err_retry_after err of
          Some d \<Rightarrow> zero_verdict\<lparr>v_Status := ''429'', v_Message := message, v_Scope := ScopeAccount,
            v_Retryable := True, v_SwitchAccount := True,
            v_Cooldown := (if d \<le> 0 then CooldownRateLimit else d), v_At := now\<rparr>
        | None \<Rightarrow>
            if isModelScopedFailure lower then
              zero_verdict\<lparr>v_Scope := ScopeModel, v_Message := message, v_Model := model,
                v_Retryable := Retryable (Some err), v_SwitchAccount := True, v_Cooldown := CooldownRateLimit,
                v_ModelCooldownKind := modelCooldownKindFor lower, v_At := now\<rparr>
            else classify_by_status acc err message now)))"

section \<open>The hold the pool reads\<close>

text \<open>The loop of \<^verbatim>\<open>RateLimitCooldown\<close>, by the number of iterations left.\<close>

fun rate_limit_loop :: "nat \<Rightarrow> duration \<Rightarrow> duration" where
  "rate_limit_loop 0 cooldown = cooldown"
| "rate_limit_loop (Suc n) cooldown =
     (if cooldown < CooldownRateLimitMax then rate_limit_loop n (cooldown * 2) else cooldown)"

definition RateLimitCooldown :: "int \<Rightarrow> duration" where
  "RateLimitCooldown failures0 =
     (let failures = (if failures0 < 1 then 1 else failures0);
          cooldown = rate_limit_loop (nat (failures - 1)) CooldownRateLimitBase in
      if cooldown > CooldownRateLimitMax then CooldownRateLimitMax else cooldown)"

definition BoundRateLimitCooldown :: "duration \<Rightarrow> duration" where
  "BoundRateLimitCooldown retryAfter =
     (if retryAfter \<le> 0 then retryAfter
      else if retryAfter > CooldownRateLimitMax then CooldownRateLimitMax else retryAfter)"

definition CooldownFor :: "Account option \<Rightarrow> duration" where
  "CooldownFor acc = (case acc of None \<Rightarrow> CooldownTransient | Some a \<Rightarrow>
     (let status = TrimSpace (StatusCode a) in
      if status = ''401'' then CredentialReverify
      else if status = ''429'' then RateLimitCooldown (RateLimitFailures a)
      else if status = ''402'' then CooldownPayment
      else if status = ''403'' \<or> status = ''404'' then (if isGrok acc then CooldownBlockedGro else CooldownBlocked)
      else CooldownTransient))"

text \<open>A 429 whose recorded reset is an account window and is not cut at the ceiling.\<close>

definition explicit_window :: "Account \<Rightarrow> bool" where
  "explicit_window a =
     (Contains (ToLower (StatusMessage a)) ''cline inference cap reached'' \<or>
      (EqualFold (AccountType a) ''qoder'' \<and> Contains (ToLower (StatusMessage a)) ''billing daily count exceeded''))"

definition AccountHeld :: "Account option \<Rightarrow> instant \<Rightarrow> bool" where
  "AccountHeld acc now = (case acc of None \<Rightarrow> False | Some a \<Rightarrow>
     if \<not> AccountAuthActive acc then True
     else let status = TrimSpace (StatusCode a) in
       if status = [] \<or> status = AccountStatusQoderQuotaExhausted \<or> status = AccountStatusWorkBuddyQuotaExhausted then False
       else if LastAttempt a = 0 then True
       else let until = LastAttempt a + CooldownFor acc;
                ceiling = LastAttempt a + CooldownRateLimitMax;
                until' = (if QuotaResetAt a > until then
                    (if status = ''429'' then
                       (if explicit_window a then QuotaResetAt a
                        else if ceiling < QuotaResetAt a then ceiling else QuotaResetAt a)
                     else if status = ''402'' \<or> \<not> HasPrefix status ''4'' then QuotaResetAt a
                     else until)
                  else until)
         in now < until')"

definition NeedsReverify :: "Account option \<Rightarrow> instant \<Rightarrow> bool" where
  "NeedsReverify acc now = (case acc of None \<Rightarrow> False | Some a \<Rightarrow>
     if TrimSpace (StatusCode a) \<noteq> ''401'' then False
     else if VerifiedAt a = 0 then True
     else Sub now (VerifiedAt a) \<ge> CredentialReverify)"

section \<open>The rate-limit backoff\<close>

lemma rate_limit_loop_min:
  "0 < c \<Longrightarrow> min CooldownRateLimitMax (rate_limit_loop n c) = min CooldownRateLimitMax (c * 2 ^ n)"
proof (induction n arbitrary: c)
  case (Suc n)
  show ?case
  proof (cases "c < CooldownRateLimitMax")
    case True
    then show ?thesis using Suc.IH [of "c * 2"] Suc.prems by (simp add: ac_simps)
  next
    case False
    have "c * 1 \<le> c * 2 ^ Suc n" using Suc.prems by (intro mult_left_mono one_le_power) auto
    with False show ?thesis by simp
  qed
qed simp

lemma RateLimitCooldown_min:
  "RateLimitCooldown n = min CooldownRateLimitMax (CooldownRateLimitBase * 2 ^ nat (n - 1))"
proof -
  have "RateLimitCooldown n = min CooldownRateLimitMax (rate_limit_loop (nat (n - 1)) CooldownRateLimitBase)"
    by (simp add: RateLimitCooldown_def Let_def min_def)
  then show ?thesis using rate_limit_loop_min [of CooldownRateLimitBase "nat (n - 1)"]
    by (simp add: CooldownRateLimitBase_def)
qed

interpretation rate: capped_doubling RateLimitCooldown CooldownRateLimitBase CooldownRateLimitMax
proof
  fix n :: int
  show "n \<le> 1 \<Longrightarrow> RateLimitCooldown n = CooldownRateLimitBase"
    by (simp add: RateLimitCooldown_min cooldown_defs)
  assume "1 \<le> n"
  then have "nat n = Suc (nat (n - 1))" by simp
  then show "RateLimitCooldown (n + 1) = min CooldownRateLimitMax (2 * RateLimitCooldown n)"
    by (auto simp: RateLimitCooldown_min min_def cooldown_defs)
qed (simp_all add: cooldown_defs)

text \<open>
  The cooldown after the n-th consecutive rate limit is thirty seconds doubled
  n - 1 times and cut at thirty minutes; it never falls as failures accumulate, and from the
  seventh failure on it is the ceiling.
\<close>

theorem RateLimitCooldown_backoff:
  assumes "1 \<le> n" "n \<le> m"
  shows "RateLimitCooldown n = min (30 * minute) (30 * second * 2 ^ nat (n - 1)) \<and>
    RateLimitCooldown n \<le> RateLimitCooldown m \<and> (7 \<le> n \<longrightarrow> RateLimitCooldown n = 30 * minute)"
  using rate.closed [OF assms(1)] rate.mono [OF assms(2)] rate.saturates [of 6 n]
  by (simp add: cooldown_defs)

theorem RateLimitCooldown_backoff_witness:
  "RateLimitCooldown 3 = 2 * minute \<and> RateLimitCooldown 3 \<le> RateLimitCooldown 9"
  using RateLimitCooldown_backoff [of 3 9] by simp

section \<open>Coherence of a verdict\<close>

text \<open>
  \<open>coherent v\<close>: the status, the scope and the flags of a verdict agree. Only a refused
  credential needs a login; a verdict about a model or the request writes no status; a status
  is written only with the reason for it and with permission to try another account.
\<close>

definition coherent :: "Verdict \<Rightarrow> bool" where
  "coherent v \<longleftrightarrow>
     (v_NeedsLogin v = (v_Status v = ''401'')) \<and>
     ((v_Scope v = ScopeCredential) = (v_Status v = ''401'')) \<and>
     ((v_Scope v = ScopeNone \<or> v_Scope v = ScopeModel) = (v_Status v = [])) \<and>
     (v_Status v \<noteq> [] \<longrightarrow> v_SwitchAccount v \<and> ScopeForStatus (v_Status v) = v_Scope v) \<and>
     0 \<le> v_Cooldown v"

lemma ScopeForStatus_codes:
  "ScopeForStatus ''401'' = ScopeCredential" "ScopeForStatus ''402'' = ScopeAccount"
  "ScopeForStatus ''403'' = ScopeAccount" "ScopeForStatus ''404'' = ScopeAccount"
  "ScopeForStatus ''429'' = ScopeAccount"
  "ScopeForStatus AccountStatusQoderQuotaExhausted = ScopeAccount"
  "ScopeForStatus AccountStatusWorkBuddyQuotaExhausted = ScopeAccount"
  by code_simp+

lemmas verdict_simps = coherent_def zero_verdict_def ScopeForStatus_codes

lemma coherent_by_status: "coherent (classify_by_status acc err message now)"
  unfolding classify_by_status_def Let_def
  by (intro prop_if [where Q = coherent]) (auto simp: verdict_simps cooldown_defs)

lemma quota_status_neq [simp]:
  "AccountStatusQoderQuotaExhausted \<noteq> ''401''" "AccountStatusQoderQuotaExhausted \<noteq> []"
  "AccountStatusWorkBuddyQuotaExhausted \<noteq> ''401''" "AccountStatusWorkBuddyQuotaExhausted \<noteq> []"
  "''429'' \<noteq> AccountStatusQoderQuotaExhausted" "''429'' \<noteq> AccountStatusWorkBuddyQuotaExhausted"
  by (simp_all add: AccountStatusQoderQuotaExhausted_def AccountStatusWorkBuddyQuotaExhausted_def)

lemma coherent_credit: "creditExhaustionVerdict acc message err now = Some v \<Longrightarrow> coherent v"
  unfolding creditExhaustionVerdict_def by (auto simp: verdict_simps split: if_splits)

text \<open>The literals of \<^verbatim>\<open>Classify\<close>, and the rest of it behind the branches that read only the text.\<close>

lemma coherent_literals:
  "coherent (zero_verdict\<lparr>v_At := t\<rparr>)"
  "0 \<le> d \<Longrightarrow> coherent (zero_verdict\<lparr>v_Status := ''429'', v_Message := m, v_Scope := ScopeAccount,
     v_Retryable := r, v_SwitchAccount := True, v_Cooldown := d, v_At := t\<rparr>)"
  "coherent (zero_verdict\<lparr>v_Scope := ScopeModel, v_Message := m, v_Model := q, v_Retryable := r, v_SwitchAccount := w, v_At := t\<rparr>)"
  "0 \<le> d \<Longrightarrow> coherent (zero_verdict\<lparr>v_Scope := ScopeModel, v_Message := m, v_Model := q, v_Retryable := r,
     v_SwitchAccount := w, v_Cooldown := d, v_ModelCooldownKind := k, v_At := t\<rparr>)"
  "coherent (zero_verdict\<lparr>v_Scope := ScopeNone, v_Message := m, v_Retryable := r, v_SwitchAccount := w, v_At := t\<rparr>)"
  by (simp_all add: verdict_simps)

lemma coherent_credit_or:
  "coherent y \<Longrightarrow> coherent (case (if b then creditExhaustionVerdict acc m err t else None) of Some v \<Rightarrow> v | None \<Rightarrow> y)"
  using coherent_credit [of acc m err t] by (auto split: option.splits)

lemma coherent_retry_or:
  "coherent y \<Longrightarrow> coherent (case r of Some d \<Rightarrow> zero_verdict\<lparr>v_Status := ''429'', v_Message := m, v_Scope := ScopeAccount,
     v_Retryable := True, v_SwitchAccount := True, v_Cooldown := if d \<le> 0 then CooldownRateLimit else d, v_At := t\<rparr> | None \<Rightarrow> y)"
  by (cases r) (auto intro!: coherent_literals simp: cooldown_defs)

lemma coherent_Classify: "coherent (Classify acc err model now)"
proof (cases err)
  case None
  then show ?thesis by (simp add: Classify_def Success_def coherent_literals)
next
  case (Some e)
  have "0 \<le> (if r \<noteq> 0 \<and> now < r then Sub r now else CooldownPayment)" for r
    using Sub_pos [of now r] less_imp_le by (auto simp: cooldown_defs)
  moreover have "0 \<le> CooldownPayment" "0 \<le> CooldownRateLimit" by (simp_all add: cooldown_defs)
  ultimately show ?thesis
    unfolding Classify_def Some option.case(2) Let_def
    by (intro all_if [where Q = coherent] coherent_credit_or coherent_retry_or coherent_by_status coherent_literals)
qed

text \<open>
  Every verdict is coherent: a login is asked for exactly when the status is 401
  and the scope is the credential, a verdict about the model or the request writes no status,
  and a written status comes with the scope the status code itself implies and with leave to
  switch accounts.
\<close>

theorem Classify_coherent: "coherent (Classify acc err model now)"
  by (rule coherent_Classify)

section \<open>A verdict and the hold that follows\<close>

lemma Apply_sel:
  "StatusCode (Apply now v acc) = TrimSpace (v_Status v)"
  "v_NeedsLogin v \<Longrightarrow> AuthStatus (Apply now v acc) = AccountAuthStatusReauthRequired"
  "StatusMessage (Apply now v acc) = (if TrimSpace (v_Status v) = [] then [] else TrimSpace (v_Message v))"
  "LastAttempt (Apply now v acc) = (if TrimSpace (v_Status v) = [] then 0 else if v_At v = 0 then now else v_At v)"
  "VerifiedAt (Apply now v acc) = (if v_At v = 0 then now else v_At v)"
  "QuotaResetAt acc \<le> QuotaResetAt (Apply now v acc)"
  by (simp_all add: Apply_def Let_def)

lemma reauth_inactive: "AuthStatus a = AccountAuthStatusReauthRequired \<Longrightarrow> \<not> AccountAuthActive (Some a)"
proof -
  have "\<not> (TrimSpace AccountAuthStatusReauthRequired = [] \<or>
      EqualFold (TrimSpace AccountAuthStatusReauthRequired) AccountAuthStatusActive)" by code_simp
  then show "AuthStatus a = AccountAuthStatusReauthRequired \<Longrightarrow> ?thesis" by (simp add: AccountAuthActive_def Let_def)
qed

text \<open>
  A credential the upstream refused is never served again by waiting: once a
  verdict with status 401 is applied, the account is held at every later time, whatever its
  cooldowns say.
\<close>

theorem refused_credential_stays_held:
  assumes "v_Status (Classify acc err model now) = ''401''"
  shows "AccountHeld (Some (Apply now (Classify acc err model now) a)) later"
proof -
  have "v_NeedsLogin (Classify acc err model now)" using coherent_Classify [of acc err model now] assms by (simp add: coherent_def)
  then have "AuthStatus (Apply now (Classify acc err model now) a) = AccountAuthStatusReauthRequired"
    by (rule Apply_sel(2))
  then show ?thesis by (simp add: AccountHeld_def reauth_inactive)
qed

theorem refused_credential_stays_held_witness:
  "AccountHeld (Some (Apply 5 (Classify None (Some \<lparr>err_text = ''HTTP 401'', err_retry_after = None\<rparr>) ''m'' 5) zero_account)) (5 + 100 * hour)"
proof -
  have "v_Status (Classify None (Some \<lparr>err_text = ''HTTP 401'', err_retry_after = None\<rparr>) ''m'' 5) = ''401''" by code_simp
  then show ?thesis by (rule refused_credential_stays_held)
qed

lemma codes_trimmed [simp]: "TrimSpace ''429'' = ''429''" "TrimSpace ''401'' = ''401''"
  by code_simp+

lemma rate_limited_held:
  assumes "AccountAuthActive (Some a)" "TrimSpace (StatusCode a) = ''429''" "LastAttempt a \<noteq> 0"
  shows "AccountHeld (Some a) now = (now <
    (let until = LastAttempt a + RateLimitCooldown (RateLimitFailures a) in
     if QuotaResetAt a > until then
       (if explicit_window a then QuotaResetAt a else min (LastAttempt a + CooldownRateLimitMax) (QuotaResetAt a))
     else until))"
  using assms by (simp add: AccountHeld_def CooldownFor_def Let_def min_def)

text \<open>
  An ordinary rate limit holds an account for at least the backoff of its failure
  count and for at most thirty minutes after the attempt, however far away the reset time is
  that a provider left in the row.
\<close>

theorem rate_limit_hold_bounds:
  assumes "AccountAuthActive (Some a)" "TrimSpace (StatusCode a) = ''429''" "LastAttempt a \<noteq> 0" "\<not> explicit_window a"
  shows "(now < LastAttempt a + RateLimitCooldown (RateLimitFailures a) \<longrightarrow> AccountHeld (Some a) now) \<and>
    (LastAttempt a + 30 * minute \<le> now \<longrightarrow> \<not> AccountHeld (Some a) now)"
  using rate_limited_held [OF assms(1-3), of now] rate.upper [of "RateLimitFailures a"] assms(4)
  by (auto simp: Let_def cooldown_defs)

theorem rate_limit_hold_bounds_witness:
  "\<not> AccountHeld (Some (zero_account\<lparr>StatusCode := ''429'', LastAttempt := 7, QuotaResetAt := 7 + 200 * hour\<rparr>)) (7 + 30 * minute)"
proof -
  let ?a = "zero_account\<lparr>StatusCode := ''429'', LastAttempt := 7, QuotaResetAt := 7 + 200 * hour\<rparr>"
  have "AccountAuthActive (Some ?a)" "\<not> explicit_window ?a" by code_simp+
  then show ?thesis using rate_limit_hold_bounds [of ?a "7 + 30 * minute"] by (simp add: zero_account_def)
qed

section \<open>Agreement with the error classification\<close>

text \<open>
  A refusal of the request itself means the same to both classifiers: whatever the
  account, a text that the policy reads as the caller's own fault is neither retried nor moved
  to another account by the upstream-error classification.
\<close>

theorem client_refusal_agrees:
  assumes "isClientRefusal (ToLower text)"
  shows "\<not> ec_Retryable (ClassifyUpstreamError text) \<and> \<not> ec_SwitchAccount (ClassifyUpstreamError text)"
proof -
  have "(Contains (ToLower text) ''content policy rejected'' \<or> Contains (ToLower text) ''datainspectionfailed'' \<or>
      Contains (ToLower text) ''input text data may contain'') \<or> Contains (ToLower text) ''rejected the request parameters''"
    using assms by (auto simp: isClientRefusal_def)
  then show ?thesis
    unfolding ClassifyUpstreamError_def Let_def
    by (elim disjE) (simp_all add: class_defs)
qed

theorem client_refusal_agrees_witness:
  "\<not> ec_Retryable (ClassifyUpstreamError ''HTTP 400: DataInspectionFailed'')"
proof -
  have "isClientRefusal (ToLower ''HTTP 400: DataInspectionFailed'')" by code_simp
  from client_refusal_agrees [OF this] show ?thesis by simp
qed

text \<open>
  The two classifiers disagree about a shared rate limit: for the upstream's
  sentence that its own accounts are rate-limited the policy's verdict says the request may be
  retried on the same account, while the upstream-error classification, which the comments say
  to be retryable as well, says it may not.
\<close>

theorem shared_queue_disagreement:
  "v_Retryable (Classify None (Some \<lparr>err_text = ''available upstream accounts are rate-limited'', err_retry_after = None\<rparr>) ''m'' 5) \<and>
   \<not> Retryable (Some \<lparr>err_text = ''available upstream accounts are rate-limited'', err_retry_after = None\<rparr>)"
  by code_simp

end
