(* ===== verification/Channel.thy ===== *)
theory Channel
  imports Prelude
begin

text \<open>
  Provider identity (\<^verbatim>\<open>src/internal/channel/channel.go\<close>): the table of the four channels,
  the parser that turns a configured or requested name into a channel, and the two routers
  that read a channel off a request path. The lemmas show that the table is unambiguous: a
  name, a channel prefix or a model path denotes at most one channel, whatever follows it.
\<close>

section \<open>The channel table\<close>

definition WorkBuddy :: string where "WorkBuddy = ''workbuddy''"
definition Qoder :: string where "Qoder = ''qoder''"
definition Cline :: string where "Cline = ''cline''"
definition Grok :: string where "Grok = ''grok''"

lemmas channel_ids = WorkBuddy_def Qoder_def Cline_def Grok_def

record Definition =
  def_ID :: string
  def_Label :: string
  def_APIPrefix :: string
  def_Generic :: bool
  def_Default :: bool
  def_Theme :: string
  def_AccountCreate :: string

definition definitions :: "Definition list" where
  "definitions = [
     \<lparr>def_ID = WorkBuddy, def_Label = ''WorkBuddy'', def_APIPrefix = ''/workbuddy/v1'',
       def_Generic = True, def_Default = True, def_Theme = ''orange'', def_AccountCreate = ''browser''\<rparr>,
     \<lparr>def_ID = Qoder, def_Label = ''Qoder'', def_APIPrefix = ''/qoder/v1'',
       def_Generic = True, def_Default = False, def_Theme = ''green'', def_AccountCreate = ''browser''\<rparr>,
     \<lparr>def_ID = Cline, def_Label = ''Cline'', def_APIPrefix = ''/cline/v1'',
       def_Generic = True, def_Default = False, def_Theme = ''blue'', def_AccountCreate = ''browser''\<rparr>,
     \<lparr>def_ID = Grok, def_Label = ''Grok'', def_APIPrefix = ''/grok/v1'',
       def_Generic = False, def_Default = False, def_Theme = ''red'', def_AccountCreate = ''browser''\<rparr>]"

text \<open>\<^verbatim>\<open>All\<close> returns a copy of the table.\<close>

definition All :: "Definition list" where
  "All = definitions"

definition Parse :: "string \<Rightarrow> string option" where
  "Parse value = (let v = ToLower (TrimSpace value) in
     map_option def_ID (List.find (\<lambda>d. v = def_ID d \<or> EqualFold v (def_Label d)) definitions))"

definition IsSupported :: "string \<Rightarrow> bool" where
  "IsSupported value = (Parse value \<noteq> None)"

definition DefinitionFor :: "string \<Rightarrow> Definition option" where
  "DefinitionFor i = List.find (\<lambda>d. def_ID d = i) definitions"

definition Default :: Definition where
  "Default = (case List.find def_Default definitions of Some d \<Rightarrow> d | None \<Rightarrow> definitions ! 0)"

definition GenericPrefixes :: "string list" where
  "GenericPrefixes = map def_APIPrefix (filter def_Generic definitions)"

definition AllPrefixes :: "string list" where
  "AllPrefixes = map def_APIPrefix definitions"

definition FromPath :: "string \<Rightarrow> string option" where
  "FromPath path = map_option def_ID
     (List.find (\<lambda>d. HasPrefix path (def_APIPrefix d @ ''/'') \<or> path = def_APIPrefix d) definitions)"

text \<open>\<^verbatim>\<open>TrimModelPath\<close>: the channel (empty for the unified prefix) and the model id.\<close>

definition TrimModelPath :: "string \<Rightarrow> (string \<times> string) option" where
  "TrimModelPath path =
     (case List.find (\<lambda>d. HasPrefix path (def_APIPrefix d @ ''/models/'')) definitions of
        Some d \<Rightarrow> Some (def_ID d, TrimPrefix path (def_APIPrefix d @ ''/models/''))
      | None \<Rightarrow> if HasPrefix path ''/v1/models/'' then Some ('''', TrimPrefix path ''/v1/models/'') else None)"

section \<open>Properties\<close>

lemma definitions_IDs: "map def_ID definitions = [WorkBuddy, Qoder, Cline, Grok]"
  by (simp add: definitions_def)

lemma Parse_eq: "Parse v =
   (let w = ToLower (TrimSpace v) in
    if w = WorkBuddy then Some WorkBuddy else if w = Qoder then Some Qoder
    else if w = Cline then Some Cline else if w = Grok then Some Grok else None)"
proof -
  define w where "w = ToLower (TrimSpace v)"
  have ids: "ToLower w = w" by (simp add: w_def)
  have lab: "ToLower ''WorkBuddy'' = WorkBuddy" "ToLower ''Qoder'' = Qoder"
      "ToLower ''Cline'' = Cline" "ToLower ''Grok'' = Grok"
    by code_simp+
  show ?thesis
    unfolding Parse_def definitions_def Let_def w_def [symmetric]
    by (auto simp: EqualFold_def ids lab)
qed

lemma DefinitionFor_cases:
  "DefinitionFor i = Some d \<Longrightarrow> d \<in> set definitions \<and> def_ID d = i"
  unfolding DefinitionFor_def using find_Some_iff_prefix by fast

lemma definitions_cases [consumes 1, case_names workbuddy qoder cline grok]:
  assumes "d \<in> set definitions"
  obtains "def_ID d = WorkBuddy" "def_APIPrefix d = ''/workbuddy/v1''"
  | "def_ID d = Qoder" "def_APIPrefix d = ''/qoder/v1''"
  | "def_ID d = Cline" "def_APIPrefix d = ''/cline/v1''"
  | "def_ID d = Grok" "def_APIPrefix d = ''/grok/v1''"
  using assms unfolding definitions_def by auto

lemma FromPath_eq: "FromPath path =
   (if HasPrefix path ''/workbuddy/v1/'' \<or> path = ''/workbuddy/v1'' then Some WorkBuddy
    else if HasPrefix path ''/qoder/v1/'' \<or> path = ''/qoder/v1'' then Some Qoder
    else if HasPrefix path ''/cline/v1/'' \<or> path = ''/cline/v1'' then Some Cline
    else if HasPrefix path ''/grok/v1/'' \<or> path = ''/grok/v1'' then Some Grok else None)"
  unfolding FromPath_def definitions_def by simp

lemma TrimModelPath_eq: "TrimModelPath path =
   (if HasPrefix path ''/workbuddy/v1/models/'' then Some (WorkBuddy, drop (length ''/workbuddy/v1/models/'') path)
    else if HasPrefix path ''/qoder/v1/models/'' then Some (Qoder, drop (length ''/qoder/v1/models/'') path)
    else if HasPrefix path ''/cline/v1/models/'' then Some (Cline, drop (length ''/cline/v1/models/'') path)
    else if HasPrefix path ''/grok/v1/models/'' then Some (Grok, drop (length ''/grok/v1/models/'') path)
    else if HasPrefix path ''/v1/models/'' then Some ('''', drop (length ''/v1/models/'') path) else None)"
  unfolding TrimModelPath_def definitions_def TrimPrefix_def by simp

text \<open>The channel a path prefix names, whatever the rest of the path is.\<close>

lemma FromPath_prefix:
  "d \<in> set definitions \<Longrightarrow> FromPath (def_APIPrefix d @ ''/'' @ rest) = Some (def_ID d)"
  by (cases d rule: definitions_cases) (simp_all add: FromPath_eq)

lemma TrimModelPath_prefix:
  "d \<in> set definitions \<Longrightarrow> TrimModelPath (def_APIPrefix d @ ''/models/'' @ m) = Some (def_ID d, m)"
  by (cases d rule: definitions_cases) (simp_all add: TrimModelPath_eq)

lemma TrimModelPath_unified: "TrimModelPath (''/v1/models/'' @ m) = Some ('''', m)"
  by (simp add: TrimModelPath_eq)

text \<open>
  Routing by path prefix is unambiguous: for every channel definition, a path
  below its API prefix names that channel, whatever follows, and a model path below it is
  split into that channel and exactly the model name that was appended.
\<close>

theorem channel_routing_exact:
  "list_all (\<lambda>d. FromPath (def_APIPrefix d @ ''/'' @ rest) = Some (def_ID d) \<and>
     TrimModelPath (def_APIPrefix d @ ''/models/'' @ m) = Some (def_ID d, m)) definitions"
  using FromPath_prefix TrimModelPath_prefix by (simp add: list_all_iff)

end
