(* ===== verification/Conn_Tracker.thy ===== *)
theory Conn_Tracker
  imports Prelude
begin

text \<open>
  Connection counting per account (\<^verbatim>\<open>src/internal/loadbalancer/conn_tracker.go\<close>). The memory
  tracker is a map of counters; its compare-and-swap loops are modelled twice, as the atomic
  operations a caller sees and as an interleaving step relation over the program counters of
  many threads, which justifies the first. The Redis tracker keeps one expiring sorted-set
  member per lease; its Lua scripts run one at a time. Lease ids come from a random source and
  are arguments. Times on the Redis side are milliseconds.
\<close>

section \<open>The contract of a limited tracker\<close>

text \<open>
  What a caller of \<^verbatim>\<open>TryAcquire\<close> relies on, for one account: a slot is granted exactly when
  there is no limit or the count is below it, a grant adds one and a refusal changes nothing.
\<close>

locale slot_limiter =
  fixes count :: "'s \<Rightarrow> int"
    and try_acquire :: "int \<Rightarrow> 's \<Rightarrow> bool \<times> 's"
    and ok :: "'s \<Rightarrow> bool"
  assumes grant: "ok s \<Longrightarrow> try_acquire limit s = (b, s') \<Longrightarrow> b \<longleftrightarrow> \<not> (limit > 0 \<and> count s \<ge> limit)"
    and counts: "ok s \<Longrightarrow> try_acquire limit s = (b, s') \<Longrightarrow> count s' = (if b then count s + 1 else count s)"
    and keeps: "ok s \<Longrightarrow> try_acquire limit s = (b, s') \<Longrightarrow> ok s'"
begin

text \<open>A burst of \<open>n\<close> requests for a slot: how many are granted and the state left behind.\<close>

primrec burst :: "int \<Rightarrow> nat \<Rightarrow> 's \<Rightarrow> nat \<times> 's" where
  "burst limit 0 s = (0, s)"
| "burst limit (Suc n) s = (let (b, s1) = try_acquire limit s; (k, s2) = burst limit n s1
     in (if b then Suc k else k, s2))"

lemma burst_limit:
  assumes "0 < limit" "ok s" "count s \<le> limit" "burst limit n s = (k, s')"
  shows "ok s' \<and> count s' = count s + int k \<and> count s' \<le> limit \<and> int k = min (int n) (limit - count s)"
  using assms(2-)
proof (induction n arbitrary: s k)
  case (Suc n)
  obtain b s1 where t: "try_acquire limit s = (b, s1)" by fastforce
  obtain k' where b: "burst limit n s1 = (k', s')" and k: "k = (if b then Suc k' else k')"
    using Suc.prems(3) t by (auto split: prod.splits if_splits)
  note g = grant [OF Suc.prems(1) t] and c = counts [OF Suc.prems(1) t] and o = keeps [OF Suc.prems(1) t]
  have "count s1 \<le> limit" using g c Suc.prems(2) assms(1) by (auto split: if_splits)
  from Suc.IH [OF o this b] g c k Suc.prems(2) assms(1) show ?case by (auto split: if_splits)
qed simp

end

section \<open>The memory tracker\<close>

type_synonym conns = "int \<rightharpoonup> int"

definition GetCount :: "int \<Rightarrow> conns \<Rightarrow> int" where
  "GetCount accountID t = (case t accountID of Some v \<Rightarrow> v | None \<Rightarrow> 0)"

definition GetCounts :: "int list \<Rightarrow> conns \<Rightarrow> (int \<times> int) list" where
  "GetCounts accountIDs t = map (\<lambda>i. (i, GetCount i t)) accountIDs"

definition Acquire :: "int \<Rightarrow> conns \<Rightarrow> conns" where
  "Acquire accountID t = t(accountID \<mapsto> GetCount accountID t + 1)"

definition TryAcquire :: "int \<Rightarrow> int \<Rightarrow> conns \<Rightarrow> bool \<times> conns" where
  "TryAcquire accountID limit t =
     (let current = GetCount accountID t in
      if limit > 0 \<and> current \<ge> limit then (False, t(accountID \<mapsto> current))
      else (True, t(accountID \<mapsto> current + 1)))"

definition Release :: "int \<Rightarrow> conns \<Rightarrow> conns" where
  "Release accountID t = (case t accountID of None \<Rightarrow> t
     | Some current \<Rightarrow> if current \<le> 0 then t else t(accountID \<mapsto> current - 1))"

interpretation memory: slot_limiter "GetCount i" "TryAcquire i" "\<lambda>t. True"
  by unfold_locales (auto simp: TryAcquire_def GetCount_def Let_def split: if_splits)

lemma Release_Acquire: "0 \<le> GetCount i t \<Longrightarrow> GetCount i (Release i (Acquire i t)) = GetCount i t"
  by (simp add: Release_def Acquire_def GetCount_def)

lemma Acquire_other: "j \<noteq> i \<Longrightarrow> GetCount j (Acquire i t) = GetCount j t"
  "j \<noteq> i \<Longrightarrow> GetCount j (Release i t) = GetCount j t"
  "j \<noteq> i \<Longrightarrow> GetCount j (snd (TryAcquire i limit t)) = GetCount j t"
  by (auto simp: Acquire_def Release_def TryAcquire_def GetCount_def Let_def split: option.splits)

section \<open>Threads in the compare-and-swap loops\<close>

text \<open>
  Where a thread is: in the loop of \<^verbatim>\<open>TryAcquire\<close>, between its load and its swap, holding a
  slot, in the loop of \<^verbatim>\<open>Release\<close>, between that loop's load and swap, refused, or done.
\<close>

datatype pc = Trying | Loaded int | Holding | Releasing | RelLoaded int | Refused | Finished

definition holds_slot :: "pc \<Rightarrow> bool" where
  "holds_slot p = (case p of Holding \<Rightarrow> True | Releasing \<Rightarrow> True | RelLoaded _ \<Rightarrow> True | _ \<Rightarrow> False)"

inductive cas_step :: "int \<Rightarrow> int \<times> pc list \<Rightarrow> int \<times> pc list \<Rightarrow> bool" for limit where
  load: "t < length pcs \<Longrightarrow> pcs ! t = Trying \<Longrightarrow> \<not> (limit > 0 \<and> c \<ge> limit) \<Longrightarrow>
    cas_step limit (c, pcs) (c, pcs[t := Loaded c])"
| refuse: "t < length pcs \<Longrightarrow> pcs ! t = Trying \<Longrightarrow> limit > 0 \<Longrightarrow> c \<ge> limit \<Longrightarrow>
    cas_step limit (c, pcs) (c, pcs[t := Refused])"
| swap: "t < length pcs \<Longrightarrow> pcs ! t = Loaded c \<Longrightarrow> cas_step limit (c, pcs) (c + 1, pcs[t := Holding])"
| lost: "t < length pcs \<Longrightarrow> pcs ! t = Loaded v \<Longrightarrow> v \<noteq> c \<Longrightarrow> cas_step limit (c, pcs) (c, pcs[t := Trying])"
| finish: "t < length pcs \<Longrightarrow> pcs ! t = Holding \<Longrightarrow> cas_step limit (c, pcs) (c, pcs[t := Releasing])"
| rel_load: "t < length pcs \<Longrightarrow> pcs ! t = Releasing \<Longrightarrow> c > 0 \<Longrightarrow>
    cas_step limit (c, pcs) (c, pcs[t := RelLoaded c])"
| rel_zero: "t < length pcs \<Longrightarrow> pcs ! t = Releasing \<Longrightarrow> c \<le> 0 \<Longrightarrow> cas_step limit (c, pcs) (c, pcs[t := Finished])"
| rel_swap: "t < length pcs \<Longrightarrow> pcs ! t = RelLoaded c \<Longrightarrow> cas_step limit (c, pcs) (c - 1, pcs[t := Finished])"
| rel_lost: "t < length pcs \<Longrightarrow> pcs ! t = RelLoaded v \<Longrightarrow> v \<noteq> c \<Longrightarrow> cas_step limit (c, pcs) (c, pcs[t := Releasing])"

inductive_cases cas_stepE: "cas_step limit (c, pcs) (c', pcs')"

inductive cas_reachable :: "int \<Rightarrow> nat \<Rightarrow> int \<times> pc list \<Rightarrow> bool" for limit n where
  start: "cas_reachable limit n (0, replicate n Trying)"
| step: "cas_reachable limit n s \<Longrightarrow> cas_step limit s s' \<Longrightarrow> cas_reachable limit n s'"

definition holders :: "pc list \<Rightarrow> int" where
  "holders pcs = int (length (filter holds_slot pcs))"

lemma holders_Cons [simp]: "holders (p # pcs) = (if holds_slot p then 1 else 0) + holders pcs" "holders [] = 0"
  by (simp_all add: holders_def)

lemma holders_update:
  "t < length pcs \<Longrightarrow> holders (pcs[t := p]) =
     holders pcs + (if holds_slot p then 1 else 0) - (if holds_slot (pcs ! t) then 1 else 0)"
proof (induction pcs arbitrary: t)
  case (Cons q pcs)
  then show ?case by (cases t) simp_all
qed simp

text \<open>
  The invariant: the counter is the number of threads that hold a slot, it is at most the
  limit, and a thread about to swap loaded a value below the limit.
\<close>

definition cas_inv :: "int \<Rightarrow> int \<times> pc list \<Rightarrow> bool" where
  "cas_inv limit s \<longleftrightarrow> (case s of (c, pcs) \<Rightarrow> c = holders pcs \<and> (0 < limit \<longrightarrow> c \<le> limit) \<and>
     (\<forall>v. Loaded v \<in> set pcs \<longrightarrow> 0 < limit \<longrightarrow> v < limit))"

lemma holds_slot_simps [simp]:
  "\<not> holds_slot Trying" "\<not> holds_slot (Loaded v)" "holds_slot Holding" "holds_slot Releasing"
  "holds_slot (RelLoaded v)" "\<not> holds_slot Refused" "\<not> holds_slot Finished"
  by (simp_all add: holds_slot_def)

lemma holders_pos: "t < length pcs \<Longrightarrow> holds_slot (pcs ! t) \<Longrightarrow> 0 < holders pcs"
proof -
  assume t: "t < length pcs" "holds_slot (pcs ! t)"
  then have "pcs ! t \<in> set (filter holds_slot pcs)" by simp
  then show ?thesis unfolding holders_def using length_pos_if_in_set by fastforce
qed

lemma set_update_mem: "x \<in> set (pcs[t := p]) \<Longrightarrow> x = p \<or> x \<in> set pcs"
  using set_update_subset_insert by fastforce

lemma cas_inv_step:
  assumes "cas_step limit s s'" "cas_inv limit s"
  shows "cas_inv limit s'"
  using assms
proof (induction rule: cas_step.induct)
  case (rel_zero t pcs c)
  then show ?case using holders_pos [of t pcs] by (simp add: cas_inv_def)
next
  case (swap t pcs c)
  then have "Loaded c \<in> set pcs" by (metis nth_mem)
  with swap show ?case by (auto simp: cas_inv_def holders_update dest!: set_update_mem)
qed (auto simp: cas_inv_def holders_update dest!: set_update_mem)

lemma cas_inv_reachable: "cas_reachable limit n s \<Longrightarrow> cas_inv limit s"
proof (induction rule: cas_reachable.induct)
  case start
  then show ?case by (auto simp: cas_inv_def holders_def)
next
  case (step s s')
  then show ?case using cas_inv_step by blast
qed

text \<open>
  Property C28: under every interleaving of any number of threads that take and give back slots
  of one account, the counter equals the number of threads that hold a slot and never exceeds
  the limit; in particular a release never finds the counter at zero.
\<close>

theorem cas_limit_invariant:
  assumes "cas_reachable limit n (c, pcs)"
  shows "c = holders pcs \<and> (0 < limit \<longrightarrow> c \<le> limit)"
  using cas_inv_reachable [OF assms] by (auto simp: cas_inv_def)

theorem cas_limit_invariant_witness:
  "1 = holders [Holding, Trying] \<and> holders [Holding, Trying] \<le> 1"
proof -
  have "cas_reachable 1 2 (0, [Trying, Trying])"
    using cas_reachable.start [of 1 2] by (simp add: eval_nat_numeral)
  moreover have "cas_step 1 (0, [Trying, Trying]) (0, [Loaded 0, Trying])"
    using cas_step.load [of 0 "[Trying, Trying]" 1 0] by simp
  moreover have "cas_step 1 (0, [Loaded 0, Trying]) (1, [Holding, Trying])"
    using cas_step.swap [of 0 "[Loaded 0, Trying]" 0 1] by simp
  ultimately have "cas_reachable 1 2 (1, [Holding, Trying])"
    using cas_reachable.step by blast
  from cas_limit_invariant [OF this] show ?thesis by simp
qed

section \<open>The Redis tracker\<close>

text \<open>
  The sorted set of one account: member and score, the score being the time at which the lease
  expires. The process keeps the leases it holds per account, in the order it took them. The
  legacy string counter a key may hold is left out.
\<close>

type_synonym zset = "(string \<times> int) list"

record redis_conns =
  zsets :: "int \<Rightarrow> zset"
  held :: "int \<Rightarrow> string list"
  closed :: bool

definition redisConnLeaseTTL :: int where "redisConnLeaseTTL = 120000"

definition drop_expired :: "int \<Rightarrow> zset \<Rightarrow> zset" where
  "drop_expired now z = filter (\<lambda>(_, score). now < score) z"

definition zadd :: "string \<Rightarrow> int \<Rightarrow> zset \<Rightarrow> zset" where
  "zadd member score z = (member, score) # filter (\<lambda>(m, _). m \<noteq> member) z"

definition zrem :: "string \<Rightarrow> zset \<Rightarrow> zset" where
  "zrem member z = filter (\<lambda>(m, _). m \<noteq> member) z"

definition acquireScript :: "int \<Rightarrow> int \<Rightarrow> int \<Rightarrow> string \<Rightarrow> zset \<Rightarrow> bool \<times> zset" where
  "acquireScript limit now expiry member z =
     (let z' = drop_expired now z; current = int (length z') in
      if limit > 0 \<and> current \<ge> limit then (False, z') else (True, zadd member expiry z'))"

definition countScript :: "int \<Rightarrow> zset \<Rightarrow> int \<times> zset" where
  "countScript now z = (let z' = drop_expired now z in (int (length z'), z'))"

text \<open>\<^verbatim>\<open>renewConnBatchScript\<close>: only members that are still present get a new score.\<close>

definition renewConnBatchScript :: "int \<Rightarrow> string list \<Rightarrow> zset \<Rightarrow> zset" where
  "renewConnBatchScript expiry members z =
     fold (\<lambda>m z. if m \<in> fst ` set z then zadd m expiry z else z) members z"

definition redis_acquire :: "int \<Rightarrow> int \<Rightarrow> int \<Rightarrow> string \<Rightarrow> redis_conns \<Rightarrow> bool \<times> redis_conns" where
  "redis_acquire accountID limit now lease t =
     (if accountID = 0 then (False, t)
      else let (granted, z) = acquireScript limit now (now + redisConnLeaseTTL) lease (zsets t accountID);
               t' = t\<lparr>zsets := (zsets t)(accountID := z)\<rparr> in
        if \<not> granted then (False, t')
        else if closed t then (False, t\<lparr>zsets := (zsets t)(accountID := zrem lease z)\<rparr>)
        else (True, t'\<lparr>held := (held t)(accountID := held t accountID @ [lease])\<rparr>))"

definition redis_release :: "int \<Rightarrow> redis_conns \<Rightarrow> redis_conns" where
  "redis_release accountID t =
     (if accountID = 0 \<or> held t accountID = [] then t
      else let lease = last (held t accountID) in
        t\<lparr>held := (held t)(accountID := butlast (held t accountID)),
          zsets := (zsets t)(accountID := zrem lease (zsets t accountID))\<rparr>)"

definition redis_renewBatch :: "int \<Rightarrow> int list \<Rightarrow> redis_conns \<Rightarrow> redis_conns" where
  "redis_renewBatch now accountIDs t = t\<lparr>zsets :=
     (\<lambda>i. if i \<in> set accountIDs then renewConnBatchScript (now + redisConnLeaseTTL) (held t i) (zsets t i) else zsets t i)\<rparr>"

definition redis_Close :: "redis_conns \<Rightarrow> redis_conns" where
  "redis_Close t = (if closed t then t
     else t\<lparr>closed := True, held := (\<lambda>_. []),
            zsets := (\<lambda>i. fold zrem (held t i) (zsets t i))\<rparr>)"

text \<open>The live leases of an account, and the contract: with lease ids that are not in use, the
  script is a limited tracker of the live leases.\<close>

definition live_count :: "int \<Rightarrow> zset \<Rightarrow> int" where
  "live_count now z = int (length (drop_expired now z))"

lemma drop_expired_idem [simp]: "drop_expired now (drop_expired now z) = drop_expired now z"
  by (simp add: drop_expired_def)

lemma zadd_fresh: "member \<notin> fst ` set z \<Longrightarrow> zadd member score z = (member, score) # z"
proof -
  assume "member \<notin> fst ` set z"
  then have "filter (\<lambda>(m, _). m \<noteq> member) z = z" by (induction z) auto
  then show ?thesis by (simp add: zadd_def)
qed

lemma acquireScript_count:
  assumes "now < expiry" "member \<notin> fst ` set z" "acquireScript limit now expiry member z = (b, z')"
  shows "b \<longleftrightarrow> \<not> (limit > 0 \<and> live_count now z \<ge> limit)"
    and "live_count now z' = (if b then live_count now z + 1 else live_count now z)"
proof -
  have "member \<notin> fst ` set (drop_expired now z)" using assms(2) by (auto simp: drop_expired_def)
  then have z: "zadd member expiry (drop_expired now z) = (member, expiry) # drop_expired now z"
    by (rule zadd_fresh)
  show "b \<longleftrightarrow> \<not> (limit > 0 \<and> live_count now z \<ge> limit)"
    using assms(3) by (auto simp: acquireScript_def live_count_def Let_def split: if_splits)
  show "live_count now z' = (if b then live_count now z + 1 else live_count now z)"
    using assms(1,3) unfolding acquireScript_def Let_def z
    by (auto simp: live_count_def drop_expired_def split: if_splits)
qed

text \<open>A supply of unused lease ids beside the set, for a burst of acquisitions at one instant.\<close>

definition supply_ok :: "nat \<times> zset \<Rightarrow> bool" where
  "supply_ok s \<longleftrightarrow> (\<forall>k \<ge> fst s. replicate k CHR ''i'' \<notin> fst ` set (snd s))"

definition script_acquire :: "int \<Rightarrow> int \<Rightarrow> nat \<times> zset \<Rightarrow> bool \<times> (nat \<times> zset)" where
  "script_acquire now limit s =
     (let (b, z) = acquireScript limit now (now + redisConnLeaseTTL) (replicate (fst s) CHR ''i'') (snd s)
      in (b, (Suc (fst s), z)))"

lemma acquireScript_members:
  "acquireScript limit now expiry member z = (b, z') \<Longrightarrow> fst ` set z' \<subseteq> insert member (fst ` set z)"
  by (auto simp: acquireScript_def Let_def zadd_def drop_expired_def split: if_splits)

interpretation leases: slot_limiter "\<lambda>s. live_count now (snd s)" "script_acquire now" supply_ok
proof
  fix s s' :: "nat \<times> zset" and limit b
  assume ok: "supply_ok s" and "script_acquire now limit s = (b, s')"
  then have a: "acquireScript limit now (now + redisConnLeaseTTL) (replicate (fst s) CHR ''i'') (snd s) = (b, snd s')"
    and n: "fst s' = Suc (fst s)"
    by (auto simp: script_acquire_def Let_def split: prod.splits)
  have fresh: "replicate (fst s) CHR ''i'' \<notin> fst ` set (snd s)" using ok by (simp add: supply_ok_def)
  show "b \<longleftrightarrow> \<not> (limit > 0 \<and> live_count now (snd s) \<ge> limit)"
    and "live_count now (snd s') = (if b then live_count now (snd s) + 1 else live_count now (snd s))"
    using acquireScript_count [OF _ fresh a] by (simp_all add: redisConnLeaseTTL_def)
  show "supply_ok s'" unfolding supply_ok_def
  proof (intro allI impI)
    fix k assume k: "fst s' \<le> k"
    have "replicate k CHR ''i'' \<noteq> replicate (fst s) CHR ''i''"
      using k n length_replicate [of k "CHR ''i''"] length_replicate [of "fst s" "CHR ''i''"] by (metis Suc_n_not_le_n)
    moreover have "replicate k CHR ''i'' \<notin> fst ` set (snd s)" using ok k n by (simp add: supply_ok_def)
    ultimately show "replicate k CHR ''i'' \<notin> fst ` set (snd s')" using acquireScript_members [OF a] by blast
  qed
qed

text \<open>
  Of a burst of requests for the slots of one account, the in-memory tracker
  grants exactly as many as the limit leaves room for and never more, and its count afterwards
  is the count before plus the number of grants.
\<close>

theorem memory_burst_exact:
  assumes "0 < limit" "GetCount i t \<le> limit" "memory.burst i limit n t = (k, t')"
  shows "GetCount i t' = GetCount i t + int k \<and> int k = min (int n) (limit - GetCount i t)"
  using memory.burst_limit [OF assms(1) _ assms(2,3)] by simp

theorem memory_burst_exact_witness:
  "\<exists>k t'. memory.burst 7 2 5 Map.empty = (k, t') \<and> int k = 2"
proof -
  obtain k t' where b: "memory.burst 7 2 5 Map.empty = (k, t')" by fastforce
  from memory_burst_exact [OF _ _ b] show ?thesis using b by (simp add: GetCount_def)
qed

lemma zadd_members: "m \<in> fst ` set z \<Longrightarrow> fst ` set (zadd m e z) = fst ` set z"
  by (auto simp: zadd_def image_iff)

lemma renew_members: "fst ` set (renewConnBatchScript expiry members z) = fst ` set z"
  unfolding renewConnBatchScript_def
  by (induction members arbitrary: z) (auto simp: zadd_members)

lemma zrem_members: "fst ` set (zrem m z) = fst ` set z - {m}"
  by (auto simp: zrem_def image_iff)

text \<open>
  A renewal never brings a lease back: after a release and any renewal that
  follows it, the members of the account's set are among those the release left.
\<close>

theorem renewal_never_resurrects:
  "fst ` set (zsets (redis_renewBatch now accounts (redis_release i t)) i) =
     fst ` set (zsets t i) - (if i = 0 \<or> held t i = [] then {} else {last (held t i)})"
  by (auto simp: redis_renewBatch_def redis_release_def renew_members zrem_members Let_def)

end
