(* ===== verification/Load_Balancer.thy ===== *)
theory Load_Balancer
  imports Account_Store Account_Policy Channel Conn_Tracker
begin

text \<open>
  Account selection (\<^verbatim>\<open>src/internal/loadbalancer/loadbalancer.go\<close>). The cached snapshot is a list
  of account objects that all callers share; a pointer to one of them is its position in the
  snapshot, so that a status cleared during a scan is seen through every pointer. The store is
  always configured. \<^verbatim>\<open>rand.IntN(n)\<close> is \<open>r mod n\<close> for an arbitrary number \<open>r\<close>; scores are exact
  fractions; the log line a status change writes is left out. One clock reading serves a whole
  selection.
\<close>

section \<open>State\<close>

record LoadBalancer =
  lb_Store :: redisStore
  cachedAccounts :: "Account list"
  cachedByChannel :: "(string \<Rightarrow> nat list) option"
  cacheExpires :: instant
  cacheTTL :: duration
  connTracker :: conns
  scanCursor :: int
  lastSelected :: "int \<rightharpoonup> instant"

definition DefaultAccountConcurrency :: int where "DefaultAccountConcurrency = 10"

definition EffectiveAccountConcurrencyLimit :: "Account \<Rightarrow> int" where
  "EffectiveAccountConcurrencyLimit acc =
     (if MaxConcurrent acc > 0 then MaxConcurrent acc
      else if IsSupported (AccountType acc) then DefaultAccountConcurrency
      else 0)"

definition accountScanWindow :: nat where "accountScanWindow = 64"

definition rotateScanCursor :: "int \<Rightarrow> LoadBalancer \<Rightarrow> int \<times> LoadBalancer" where
  "rotateScanCursor n lb =
     (if n \<le> 0 then (0, lb)
      else let start = scanCursor lb mod n
        in (start, lb\<lparr>scanCursor := (start + int accountScanWindow) mod n\<rparr>))"

section \<open>The cached snapshot\<close>

definition cachedAccountsBefore :: "instant \<Rightarrow> LoadBalancer \<Rightarrow> bool" where
  "cachedAccountsBefore now lb = (cachedAccounts lb \<noteq> [] \<and> now < cacheExpires lb)"

text \<open>The index by account type and agent mode, as positions in the snapshot.\<close>

definition channel_index :: "Account list \<Rightarrow> string \<Rightarrow> nat list" where
  "channel_index accounts key = filter (\<lambda>p.
     let typ = ToLower (AccountType (accounts ! p)); mode = ToLower (AgentMode (accounts ! p)) in
     key \<noteq> [] \<and> (typ = key \<or> (mode = key \<and> mode \<noteq> typ))) [0..<length accounts]"

definition getEnabledAccounts :: "credentialCipher option \<Rightarrow> instant \<Rightarrow> LoadBalancer \<Rightarrow> string + LoadBalancer" where
  "getEnabledAccounts c now lb =
     (if cachedAccountsBefore now lb then Inr lb
      else case GetEnabledAccounts c (lb_Store lb) of
        Inl err \<Rightarrow> Inl err
      | Inr accounts \<Rightarrow> Inr (lb\<lparr>cachedAccounts := accounts, cachedByChannel := Some (channel_index accounts),
          cacheExpires := now + cacheTTL lb\<rparr>))"

definition InvalidateAccounts :: "int list \<Rightarrow> LoadBalancer \<Rightarrow> LoadBalancer" where
  "InvalidateAccounts is lb =
     (if is = [] then lb
      else let changed = filter (\<lambda>i. i \<noteq> 0) is in
        if changed = [] then lb
        else lb\<lparr>cacheExpires := 0, cachedByChannel := None,
                cachedAccounts := filter (\<lambda>a. ID a \<notin> set changed) (cachedAccounts lb)\<rparr>)"

section \<open>Writing a status\<close>

definition resetAccountRuntimeState :: "Account \<Rightarrow> Account" where
  "resetAccountRuntimeState acc = acc\<lparr>StatusCode := [], StatusMessage := [], LastAttempt := 0,
     QuotaResetAt := 0, RateLimitFailures := 0\<rparr>"

text \<open>\<^verbatim>\<open>cachedAccountLocked\<close>: the position of the first cached account with the id.\<close>

definition cachedAccountLocked :: "int \<Rightarrow> LoadBalancer \<Rightarrow> nat option" where
  "cachedAccountLocked i lb = List.find (\<lambda>p. ID (cachedAccounts lb ! p) = i) [0..<length (cachedAccounts lb)]"

definition update_cached :: "int \<Rightarrow> (Account \<Rightarrow> Account) \<Rightarrow> LoadBalancer \<Rightarrow> LoadBalancer" where
  "update_cached i f lb = (case cachedAccountLocked i lb of None \<Rightarrow> lb
     | Some p \<Rightarrow> lb\<lparr>cachedAccounts := (cachedAccounts lb)[p := f (cachedAccounts lb ! p)]\<rparr>)"

definition persistAccountStatus :: "credentialCipher option \<Rightarrow> instant \<Rightarrow> Account \<Rightarrow> LoadBalancer \<Rightarrow> LoadBalancer" where
  "persistAccountStatus c now acc lb = lb\<lparr>lb_Store := snd (UpdateAccount c now [] acc [] (lb_Store lb))\<rparr>"

text \<open>\<^verbatim>\<open>clearAccountStatus\<close> on the account at a position of the snapshot.\<close>

definition clearAccountStatus :: "credentialCipher option \<Rightarrow> instant \<Rightarrow> nat \<Rightarrow> LoadBalancer \<Rightarrow> LoadBalancer" where
  "clearAccountStatus c now p lb =
     (let acc = resetAccountRuntimeState (cachedAccounts lb ! p);
          lb1 = lb\<lparr>cachedAccounts := (cachedAccounts lb)[p := acc]\<rparr>;
          lb2 = update_cached (ID acc) resetAccountRuntimeState lb1
      in persistAccountStatus c now acc lb2)"

definition PersistAppliedAccountStatus :: "credentialCipher option \<Rightarrow> instant \<Rightarrow> Account \<Rightarrow> LoadBalancer \<Rightarrow> LoadBalancer" where
  "PersistAppliedAccountStatus c now acc lb =
     persistAccountStatus c now acc (update_cached (ID acc) (\<lambda>cached. cached\<lparr>
       StatusCode := StatusCode acc, StatusMessage := StatusMessage acc, LastAttempt := LastAttempt acc,
       AuthStatus := AuthStatus acc, RateLimitFailures := RateLimitFailures acc,
       QuotaResetAt := QuotaResetAt acc, VerifiedAt := VerifiedAt acc\<rparr>) lb)"

text \<open>\<^verbatim>\<open>MarkAccountStatus\<close>: the caller's account with the mark, and the load balancer.\<close>

definition mark_account :: "instant \<Rightarrow> string \<Rightarrow> Account \<Rightarrow> Account" where
  "mark_account now status acc =
     (let acc1 = acc\<lparr>StatusCode := status, LastAttempt := now,
            RateLimitFailures := (if status = ''429'' then RateLimitFailures acc + 1 else 0),
            AuthStatus := (if status = ''401'' then AccountAuthStatusReauthRequired else AuthStatus acc)\<rparr>;
          deadline = now + RateLimitCooldown (RateLimitFailures acc1) in
      if status = ''429'' \<and> (QuotaResetAt acc1 = 0 \<or> QuotaResetAt acc1 < deadline)
      then acc1\<lparr>QuotaResetAt := deadline\<rparr> else acc1)"

definition MarkAccountStatus :: "credentialCipher option \<Rightarrow> instant \<Rightarrow> string \<Rightarrow> Account \<Rightarrow> LoadBalancer \<Rightarrow> Account \<times> LoadBalancer" where
  "MarkAccountStatus c now status acc lb =
     (if status = [] then (acc, lb)
      else let acc' = mark_account now status acc in
        (acc', persistAccountStatus c now acc' (update_cached (ID acc') (\<lambda>cached. cached\<lparr>
          StatusCode := status, LastAttempt := now, AuthStatus := AuthStatus acc',
          RateLimitFailures := RateLimitFailures acc', QuotaResetAt := QuotaResetAt acc'\<rparr>) lb)))"

section \<open>Availability\<close>

definition cooldownElapsed :: "instant \<Rightarrow> duration \<Rightarrow> instant \<Rightarrow> bool" where
  "cooldownElapsed lastAttempt cooldown now = (lastAttempt \<noteq> 0 \<and> Sub now lastAttempt \<ge> cooldown)"

definition paid_plans :: "string list" where
  "paid_plans = [''super'', ''pro'', ''heavy'', ''lite'', ''x_basic'', ''xbasic'', ''x_premium'',
     ''xpremium'', ''paid'', ''team'', ''enterprise'']"

definition isPaidGrokBuildAccount :: "Account \<Rightarrow> bool" where
  "isPaidGrokBuildAccount acc =
     (if \<not> EqualFold (TrimSpace (AccountType acc)) ''grok'' then False
      else let provider = ToLower (TrimSpace (GrokProvider (GrokPart acc)));
               credential = ToLower (TrimSpace (CredentialType (GrokPart acc))) in
        if provider \<noteq> ''build'' \<and> \<not> (provider = [] \<and> credential = ''oauth'') then False
        else list_ex (\<lambda>paid. Contains (ToLower (TrimSpace (Subscription acc))) paid) paid_plans)"

text \<open>The probe gate of a paid account whose billing snapshot says it is exhausted.\<close>

definition paid_probe_gate :: "credentialCipher option \<Rightarrow> instant \<Rightarrow> Account \<Rightarrow> LoadBalancer \<Rightarrow> bool \<times> LoadBalancer" where
  "paid_probe_gate c now acc lb =
     (let billing = GrokBilling (GrokPart acc) in
      if isPaidGrokBuildAccount acc \<and> IsExhausted billing then
        if PeriodEnd billing = 0 \<or> now < PeriodEnd billing then (False, lb)
        else let (res, s) = ClaimGrokPaidQuotaProbe c now [] (ID acc) now [] (lb_Store lb)
          in (res = Inr True, lb\<lparr>lb_Store := s\<rparr>)
      else (True, lb))"

text \<open>
  What the status of an account says at a given time: use it, use it after clearing the
  status, or leave it.
\<close>

datatype status_decision = Admit | AdmitCleared | Withhold

definition status_decision :: "Account \<Rightarrow> instant \<Rightarrow> status_decision" where
  "status_decision acc now =
     (let status = TrimSpace (StatusCode acc) in
      if status = [] then Admit
      else if status = AccountStatusQoderQuotaExhausted then
        (let q = QoderQuota (QoderPart acc) in
         if \<not> EqualFold (TrimSpace (AccountType acc)) ''qoder'' then Withhold
         else if \<not> qq_Exhausted q \<and> qq_Remaining q > 0 then AdmitCleared
         else if qq_ResetAt q \<noteq> 0 \<and> \<not> now < qq_ResetAt q \<and> qq_SyncedAt q < qq_ResetAt q then AdmitCleared
         else Admit)
      else if status = AccountStatusWorkBuddyQuotaExhausted then
        (if \<not> EqualFold (TrimSpace (AccountType acc)) ''workbuddy'' then Withhold
         else if UsageCurrent acc > 0 then AdmitCleared else Admit)
      else if status = ''401'' then Withhold
      else if status = ''429'' then
        (if LastAttempt acc = 0 then Withhold
         else if \<not> AccountHeld (Some acc) now then AdmitCleared else Withhold)
      else if status = ''402'' then
        (if EqualFold (TrimSpace (AccountType acc)) ''qoder'' then Admit
         else if isPaidGrokBuildAccount acc \<and> PeriodEnd (GrokBilling (GrokPart acc)) \<noteq> 0 then
           (if \<not> now < PeriodEnd (GrokBilling (GrokPart acc)) then AdmitCleared else Withhold)
         else if QuotaResetAt acc \<noteq> 0 then (if \<not> now < QuotaResetAt acc then AdmitCleared else Withhold)
         else if cooldownElapsed (LastAttempt acc) CooldownPayment now then AdmitCleared else Withhold)
      else if status = ''403'' \<or> status = ''404'' then
        (if cooldownElapsed (LastAttempt acc)
             (if EqualFold (AccountType acc) ''grok'' then CooldownBlockedGro else CooldownBlocked) now
         then AdmitCleared else Withhold)
      else if cooldownElapsed (LastAttempt acc) CooldownAuth now then AdmitCleared else Withhold)"

definition isAccountAvailable :: "credentialCipher option \<Rightarrow> instant \<Rightarrow> nat \<Rightarrow> LoadBalancer \<Rightarrow> bool \<times> LoadBalancer" where
  "isAccountAvailable c now p lb =
     (let acc = cachedAccounts lb ! p in
      if \<not> AccountAuthActive (Some acc) then (False, lb)
      else let (admitted, lb1) = paid_probe_gate c now acc lb in
        if \<not> admitted then (False, lb1)
        else case status_decision acc now of
          Admit \<Rightarrow> (True, lb1)
        | AdmitCleared \<Rightarrow> (True, clearAccountStatus c now p lb1)
        | Withhold \<Rightarrow> (False, lb1))"

section \<open>The scan\<close>

text \<open>The reasons an \<^verbatim>\<open>AccountFilter\<close> may give; a filter that is nil is \<^const>\<open>None\<close>.\<close>

datatype rejection = RejectModelThrottled | RejectModelUnavailable | ErrAccountNotEligible

type_synonym AccountFilter = "(Account \<Rightarrow> rejection option) option"

record scan_state =
  sc_lb :: LoadBalancer
  sc_filtered :: "nat list"
  channelCandidates :: nat
  channelMatched :: nat
  rateLimitedUnavailable :: nat
  allowanceParked :: nat
  filterWithheld :: nat
  filterThrottled :: nat
  filterUnavailable :: nat

definition scan_start :: "LoadBalancer \<Rightarrow> scan_state" where
  "scan_start lb = \<lparr>sc_lb = lb, sc_filtered = [], channelCandidates = 0, channelMatched = 0,
     rateLimitedUnavailable = 0, allowanceParked = 0, filterWithheld = 0, filterThrottled = 0, filterUnavailable = 0\<rparr>"

definition serves_channel :: "string \<Rightarrow> Account \<Rightarrow> bool" where
  "serves_channel chan acc = (chan = [] \<or>
     (TrimSpace (AccountType acc) \<noteq> [] \<and> (EqualFold (AccountType acc) chan \<or> EqualFold (AgentMode acc) chan)))"

definition reject_with :: "AccountFilter \<Rightarrow> Account \<Rightarrow> rejection option" where
  "reject_with flt acc = (case flt of None \<Rightarrow> None | Some f \<Rightarrow> f acc)"

text \<open>The body of the scan loop, for the candidate at a position.\<close>

definition scan_one :: "credentialCipher option \<Rightarrow> instant \<Rightarrow> int list \<Rightarrow> string \<Rightarrow> AccountFilter \<Rightarrow>
    nat \<Rightarrow> scan_state \<Rightarrow> scan_state" where
  "scan_one c now excludeIDs chan flt p st =
     (let acc = cachedAccounts (sc_lb st) ! p in
      if ID acc \<in> set excludeIDs then st
      else if \<not> serves_channel chan acc then st
      else let st1 = st\<lparr>channelCandidates := channelCandidates st + 1\<rparr> in
        case reject_with flt acc of
          Some r \<Rightarrow> st1\<lparr>filterWithheld := filterWithheld st1 + 1,
            filterUnavailable := filterUnavailable st1 + (if r = RejectModelUnavailable then 1 else 0),
            filterThrottled := filterThrottled st1 + (if r = RejectModelThrottled then 1 else 0)\<rparr>
        | None \<Rightarrow>
            let st2 = st1\<lparr>channelMatched := channelMatched st1 + 1\<rparr>;
                (avail, lb') = isAccountAvailable c now p (sc_lb st2);
                st3 = st2\<lparr>sc_lb := lb'\<rparr>;
                status = TrimSpace (StatusCode (cachedAccounts lb' ! p)) in
            if \<not> avail then st3\<lparr>
                rateLimitedUnavailable := rateLimitedUnavailable st3 + (if status = ''429'' then 1 else 0),
                allowanceParked := allowanceParked st3 + (if status = ''402'' then 1 else 0)\<rparr>
            else st3\<lparr>sc_filtered := sc_filtered st3 @ [p]\<rparr>)"

definition scan :: "credentialCipher option \<Rightarrow> instant \<Rightarrow> int list \<Rightarrow> string \<Rightarrow> AccountFilter \<Rightarrow>
    nat list \<Rightarrow> LoadBalancer \<Rightarrow> scan_state" where
  "scan c now excludeIDs chan flt ptrs lb = fold (scan_one c now excludeIDs chan flt) ptrs (scan_start lb)"

text \<open>The window of a large pool that one selection examines first.\<close>

definition scan_window :: "'a list \<Rightarrow> int \<Rightarrow> nat \<Rightarrow> 'a list" where
  "scan_window xs start n = map (\<lambda>offset. xs ! nat ((start + int offset) mod int (length xs))) [0..<n]"

definition scan_pool :: "credentialCipher option \<Rightarrow> instant \<Rightarrow> int list \<Rightarrow> string \<Rightarrow> AccountFilter \<Rightarrow>
    nat list \<Rightarrow> LoadBalancer \<Rightarrow> scan_state" where
  "scan_pool c now excludeIDs chan flt ptrs lb =
     (if length ptrs > accountScanWindow then
        let (start, lb1) = rotateScanCursor (int (length ptrs)) lb;
            st = scan c now excludeIDs chan flt (scan_window ptrs start accountScanWindow) lb1 in
        if sc_filtered st = [] then scan c now excludeIDs chan flt ptrs (sc_lb st) else st
      else scan c now excludeIDs chan flt ptrs lb)"

section \<open>Choosing among the candidates\<close>

definition weight_of :: "Account \<Rightarrow> int" where
  "weight_of acc = (if Weight acc \<le> 0 then 1 else Weight acc)"

definition score_of :: "conns \<Rightarrow> Account \<Rightarrow> rat" where
  "score_of t acc = of_int (GetCount (ID acc) t) / of_int (weight_of acc)"

definition at_limit :: "conns \<Rightarrow> Account \<Rightarrow> bool" where
  "at_limit t acc = (let limit = EffectiveAccountConcurrencyLimit acc in limit > 0 \<and> GetCount (ID acc) t \<ge> limit)"

text \<open>The pass that keeps the least loaded candidates, and the pass that prefers the idle ones.\<close>

fun best_loop :: "conns \<Rightarrow> (nat \<Rightarrow> Account) \<Rightarrow> nat list \<Rightarrow> nat list \<Rightarrow> rat \<Rightarrow> nat list" where
  "best_loop t acc [] best minScore = best"
| "best_loop t acc (p # ps) best minScore =
     (if at_limit t (acc p) then best_loop t acc ps best minScore
      else let score = score_of t (acc p) in
        if best = [] \<or> score < minScore then best_loop t acc ps [p] score
        else if score = minScore then best_loop t acc ps (best @ [p]) minScore
        else best_loop t acc ps best minScore)"

fun coldest_loop :: "(int \<rightharpoonup> instant) \<Rightarrow> (nat \<Rightarrow> Account) \<Rightarrow> nat list \<Rightarrow> nat list \<Rightarrow> nat list \<Rightarrow> instant \<Rightarrow> nat list \<times> nat list" where
  "coldest_loop seen acc [] unseen coldest oldest = (unseen, coldest)"
| "coldest_loop seen acc (p # ps) unseen coldest oldest = (case seen (ID (acc p)) of
     None \<Rightarrow> coldest_loop seen acc ps (unseen @ [p]) coldest oldest
   | Some t \<Rightarrow>
       if coldest = [] \<or> t < oldest then coldest_loop seen acc ps unseen [p] t
       else if t = oldest then coldest_loop seen acc ps unseen (coldest @ [p]) oldest
       else coldest_loop seen acc ps unseen coldest oldest)"

definition select_window :: "nat \<Rightarrow> instant \<Rightarrow> conns \<Rightarrow> nat list \<Rightarrow> LoadBalancer \<Rightarrow> nat option \<times> LoadBalancer" where
  "select_window r now t ptrs lb =
     (let acc = (\<lambda>p. cachedAccounts lb ! p); best = best_loop t acc ptrs [] (- 1) in
      if best = [] then (None, lb)
      else let (unseen, coldest) = coldest_loop (lastSelected lb) acc best [] [] 0;
               pool = (if unseen \<noteq> [] then unseen else if coldest \<noteq> [] then coldest else best);
               picked = pool ! (r mod length pool) in
        (Some picked, lb\<lparr>lastSelected := (lastSelected lb)(ID (acc picked) \<mapsto> now)\<rparr>))"

text \<open>The loop over the windows of a large candidate list, from the given offset on.\<close>

function select_windows :: "nat \<Rightarrow> instant \<Rightarrow> conns \<Rightarrow> nat list \<Rightarrow> int \<Rightarrow> nat \<Rightarrow> LoadBalancer \<Rightarrow> nat option \<times> LoadBalancer" where
  "select_windows r now t ptrs start offset lb =
     (if offset \<ge> length ptrs then (None, lb)
      else let n = min accountScanWindow (length ptrs - offset) in
        case select_window r now t (scan_window ptrs (start + int offset) n) lb of
          (Some p, lb') \<Rightarrow> (Some p, lb')
        | (None, lb') \<Rightarrow> select_windows r now t ptrs start (offset + accountScanWindow) lb')"
  by pat_completeness auto
termination
  by (relation "measure (\<lambda>(r, now, t, ptrs, start, offset, lb). length ptrs - offset)") (auto simp: accountScanWindow_def)

declare select_windows.simps [simp del]

definition selectAccountWithTracker :: "nat \<Rightarrow> instant \<Rightarrow> nat list \<Rightarrow> conns option \<Rightarrow> LoadBalancer \<Rightarrow> nat option \<times> LoadBalancer" where
  "selectAccountWithTracker r now ptrs tracker lb =
     (if ptrs = [] then (None, lb)
      else let t = (case tracker of None \<Rightarrow> connTracker lb | Some t \<Rightarrow> t) in
        if length ptrs > accountScanWindow then
          let (start, lb1) = rotateScanCursor (int (length ptrs)) lb in select_windows r now t ptrs start 0 lb1
        else select_window r now t ptrs lb)"

section \<open>The selection\<close>

definition no_accounts :: "string \<Rightarrow> string" where
  "no_accounts chan = ''no enabled accounts available for channel: '' @ chan"

text \<open>The error of an empty pool, by the counters of the last scan.\<close>

definition empty_pool_error :: "string \<Rightarrow> scan_state \<Rightarrow> string" where
  "empty_pool_error chan st =
     (if chan \<noteq> [] \<and> channelCandidates st > 0 \<and> channelMatched st = 0 then
        (if filterUnavailable st > 0 \<and> filterThrottled st = 0 \<and> filterUnavailable st = filterWithheld st
         then no_accounts chan @ '' (the requested model is not covered by any matching account's plan)''
         else if filterThrottled st > 0 \<and> filterUnavailable st > 0
         then no_accounts chan @ '' (the requested model is cooling down on some matching accounts and not covered by the plans of the rest)''
         else no_accounts chan @ '' (all matching accounts are cooling down for the requested model)'')
      else if chan \<noteq> [] \<and> channelMatched st > 0 \<and> rateLimitedUnavailable st = channelMatched st
        then no_accounts chan @ '' (all matching accounts are rate-limited or cooling down)''
      else if chan \<noteq> [] \<and> channelMatched st > 0 \<and> allowanceParked st = channelMatched st
        then no_accounts chan @ '' (all matching accounts have exhausted their allowance)''
      else if chan \<noteq> [] \<and> allowanceParked st > 0 \<and> rateLimitedUnavailable st > 0
        then no_accounts chan @ '' (all matching accounts are rate-limited or cooling down: '' @
          show_nat (rateLimitedUnavailable st) @ '' rate-limited, '' @ show_nat (allowanceParked st) @
          '' parked for a spent allowance)''
      else no_accounts chan)"

definition pool_pointers :: "string \<Rightarrow> LoadBalancer \<Rightarrow> nat list" where
  "pool_pointers chan lb =
     (case cachedByChannel lb of
        Some index \<Rightarrow> if chan \<noteq> [] then index (ToLower chan) else [0..<length (cachedAccounts lb)]
      | None \<Rightarrow> [0..<length (cachedAccounts lb)])"

definition GetNextAccountExcludingByChannelWithTrackerFilter ::
    "credentialCipher option \<Rightarrow> nat \<Rightarrow> instant \<Rightarrow> int list \<Rightarrow> string \<Rightarrow> conns option \<Rightarrow> AccountFilter \<Rightarrow>
     LoadBalancer \<Rightarrow> (string + Account) \<times> LoadBalancer" where
  "GetNextAccountExcludingByChannelWithTrackerFilter c r now excludeIDs chan tracker flt lb0 =
     (case getEnabledAccounts c now lb0 of
        Inl err \<Rightarrow> (Inl err, lb0)
      | Inr lb \<Rightarrow>
          let st = scan_pool c now excludeIDs chan flt (pool_pointers chan lb) lb in
          if sc_filtered st = [] then (Inl (empty_pool_error chan st), sc_lb st)
          else case selectAccountWithTracker r now (sc_filtered st) tracker (sc_lb st) of
            (None, lb') \<Rightarrow> (Inl (no_accounts chan @ '' (all matching accounts are at their concurrency limit)''), lb')
          | (Some p, lb') \<Rightarrow> (Inr (cachedAccounts lb' ! p), lb'))"

definition GetNextAccountExcludingByChannelWithTracker ::
    "credentialCipher option \<Rightarrow> nat \<Rightarrow> instant \<Rightarrow> int list \<Rightarrow> string \<Rightarrow> conns option \<Rightarrow>
     LoadBalancer \<Rightarrow> (string + Account) \<times> LoadBalancer" where
  "GetNextAccountExcludingByChannelWithTracker c r now excludeIDs chan tracker lb =
     GetNextAccountExcludingByChannelWithTrackerFilter c r now excludeIDs chan tracker None lb"

end
