(* ===== verification/Selection.thy ===== *)
theory Selection
  imports Load_Balancer
begin

text \<open>
  What the load balancer's selection guarantees: the candidate it returns, the candidates it
  examines, and the eligibility of the account a request is given.
\<close>

section \<open>The choice is the least loaded, longest idle candidate\<close>

lemma best_loop_spec:
  assumes "\<forall>q \<in> set best. \<not> at_limit t (acc q) \<and> score_of t (acc q) = m"
  shows "set (best_loop t acc ps best m) =
    {q \<in> set best \<union> set ps. \<not> at_limit t (acc q) \<and>
      (\<forall>x \<in> set best \<union> set ps. \<not> at_limit t (acc x) \<longrightarrow> score_of t (acc q) \<le> score_of t (acc x))}"
  using assms
proof (induction ps arbitrary: best m)
  case Nil
  then show ?case by auto
next
  case (Cons p ps)
  let ?s = "score_of t (acc p)"
  consider (full) "at_limit t (acc p)"
    | (less) "\<not> at_limit t (acc p)" "best = [] \<or> ?s < m"
    | (eq) "\<not> at_limit t (acc p)" "\<not> (best = [] \<or> ?s < m)" "?s = m"
    | (more) "\<not> at_limit t (acc p)" "best \<noteq> []" "m < ?s"
    by fastforce
  then show ?case
  proof cases
    case full
    then show ?thesis using Cons.IH [OF Cons.prems] by auto
  next
    case less
    have IH: "set (best_loop t acc ps [p] ?s) = {q \<in> set [p] \<union> set ps. \<not> at_limit t (acc q) \<and>
        (\<forall>x \<in> set [p] \<union> set ps. \<not> at_limit t (acc x) \<longrightarrow> score_of t (acc q) \<le> score_of t (acc x))}"
      by (rule Cons.IH) (use less in simp)
    have gt: "\<forall>x \<in> set best. ?s < score_of t (acc x)" using less Cons.prems by auto
    show ?thesis using less IH gt by (auto intro: order_trans)
  next
    case eq
    have "set (best_loop t acc ps (best @ [p]) m) = {q \<in> set (best @ [p]) \<union> set ps. \<not> at_limit t (acc q) \<and>
        (\<forall>x \<in> set (best @ [p]) \<union> set ps. \<not> at_limit t (acc x) \<longrightarrow> score_of t (acc q) \<le> score_of t (acc x))}"
      by (rule Cons.IH) (use eq Cons.prems in auto)
    then show ?thesis using eq by auto
  next
    case more
    then obtain b where b: "b \<in> set best" "score_of t (acc b) = m" "\<not> at_limit t (acc b)"
      using Cons.prems by (cases best) auto
    show ?thesis using more b Cons.IH [OF Cons.prems] by (auto intro: order_trans less_imp_le)
  qed
qed

lemma best_loop_set:
  "set (best_loop t acc ps [] m) = {q \<in> set ps. \<not> at_limit t (acc q) \<and>
     (\<forall>x \<in> set ps. \<not> at_limit t (acc x) \<longrightarrow> score_of t (acc q) \<le> score_of t (acc x))}"
  using best_loop_spec [of "[]" t acc m ps] by simp

lemma best_loop_Nil: "best_loop t acc ps [] m = [] \<longleftrightarrow> (\<forall>x \<in> set ps. at_limit t (acc x))"
proof
  assume l: "best_loop t acc ps [] m = []"
  show "\<forall>x \<in> set ps. at_limit t (acc x)"
  proof (rule ccontr)
    assume "\<not> (\<forall>x \<in> set ps. at_limit t (acc x))"
    let ?S = "{x \<in> set ps. \<not> at_limit t (acc x)}"
    have "finite ?S" "?S \<noteq> {}" using \<open>\<not> (\<forall>x \<in> set ps. at_limit t (acc x))\<close> by auto
    from finite_has_minimal [of "(\<lambda>x. score_of t (acc x)) ` ?S"] this
    obtain q where "q \<in> ?S" "\<forall>x \<in> ?S. score_of t (acc q) \<le> score_of t (acc x)"
      by (auto) (metis le_cases)
    then have "q \<in> set (best_loop t acc ps [] m)" unfolding best_loop_set by auto
    with l show False by simp
  qed
next
  assume "\<forall>x \<in> set ps. at_limit t (acc x)"
  then have "set (best_loop t acc ps [] m) = {}" unfolding best_loop_set by auto
  then show "best_loop t acc ps [] m = []" by simp
qed

lemma coldest_loop_spec:
  assumes "coldest_loop seen acc ps unseen coldest oldest = (u, k)"
    "\<forall>q \<in> set coldest. seen (ID (acc q)) = Some oldest"
  shows "set u = set unseen \<union> {q \<in> set ps. seen (ID (acc q)) = None} \<and>
    set k \<subseteq> set coldest \<union> set ps \<and>
    (\<forall>q \<in> set k. \<exists>s. seen (ID (acc q)) = Some s \<and>
       (\<forall>x \<in> set coldest \<union> set ps. \<forall>s'. seen (ID (acc x)) = Some s' \<longrightarrow> s \<le> s')) \<and>
    (k = [] \<longrightarrow> coldest = [] \<and> (\<forall>x \<in> set ps. seen (ID (acc x)) = None))"
  using assms
proof (induction ps arbitrary: unseen coldest oldest)
  case Nil
  then show ?case by auto
next
  case (Cons p ps)
  show ?case
  proof (cases "seen (ID (acc p))")
    case None
    then show ?thesis using Cons.IH [of "unseen @ [p]" coldest oldest] Cons.prems by fastforce
  next
    case (Some s)
    consider (new) "coldest = [] \<or> s < oldest" | (tie) "\<not> (coldest = [] \<or> s < oldest)" "s = oldest"
      | (late) "coldest \<noteq> []" "oldest < s" by fastforce
    then show ?thesis
    proof cases
      case new
      then show ?thesis using Cons.IH [of unseen "[p]" s] Cons.prems Some
        by (fastforce intro: order_trans less_imp_le)
    next
      case tie
      then show ?thesis using Cons.IH [of unseen "coldest @ [p]" oldest] Cons.prems Some by fastforce
    next
      case late
      then have "\<exists>b \<in> set coldest. seen (ID (acc b)) = Some oldest" using Cons.prems(2) by (cases coldest) auto
      then show ?thesis using late Cons.IH [of unseen coldest oldest] Cons.prems Some
        by (fastforce intro: order_trans less_imp_le)
    qed
  qed
qed

text \<open>
  The order in which the selection prefers candidates: less load per weight first, then an
  account that was never handed out, then the one handed out longest ago.
\<close>

definition preferred :: "conns \<Rightarrow> (int \<rightharpoonup> instant) \<Rightarrow> Account \<Rightarrow> Account \<Rightarrow> bool" where
  "preferred t seen a b \<longleftrightarrow> score_of t a < score_of t b \<or> (score_of t a = score_of t b \<and>
     (case (seen (ID a), seen (ID b)) of (None, _) \<Rightarrow> True | (Some _, None) \<Rightarrow> False | (Some s, Some s') \<Rightarrow> s \<le> s'))"

lemma select_window_sound:
  assumes "select_window r now t ptrs lb = (Some p, lb')"
  shows "p \<in> set ptrs \<and> \<not> at_limit t (cachedAccounts lb ! p) \<and>
    (\<forall>x \<in> set ptrs. \<not> at_limit t (cachedAccounts lb ! x) \<longrightarrow>
       preferred t (lastSelected lb) (cachedAccounts lb ! p) (cachedAccounts lb ! x)) \<and>
    lb' = lb\<lparr>lastSelected := (lastSelected lb)(ID (cachedAccounts lb ! p) \<mapsto> now)\<rparr>"
proof -
  let ?acc = "\<lambda>p. cachedAccounts lb ! p"
  define best where "best = best_loop t ?acc ptrs [] (- 1)"
  obtain u k where uk: "coldest_loop (lastSelected lb) ?acc best [] [] 0 = (u, k)" by fastforce
  define pool where "pool = (if u \<noteq> [] then u else if k \<noteq> [] then k else best)"
  have ne: "best \<noteq> []" and p: "p = pool ! (r mod length pool)"
    and lb': "lb' = lb\<lparr>lastSelected := (lastSelected lb)(ID (?acc p) \<mapsto> now)\<rparr>"
    using assms uk by (auto simp: select_window_def Let_def best_def pool_def split: if_splits)
  note c = coldest_loop_spec [OF uk]
  have "pool \<noteq> []" using ne by (simp add: pool_def)
  then have pm: "p \<in> set pool" unfolding p by (intro nth_mem) simp
  have sub: "set pool \<subseteq> set best" using c unfolding pool_def by auto
  have b: "p \<in> set ptrs" "\<not> at_limit t (?acc p)"
    "\<forall>x \<in> set ptrs. \<not> at_limit t (?acc x) \<longrightarrow> score_of t (?acc p) \<le> score_of t (?acc x)"
    using pm sub unfolding best_def best_loop_set by auto
  have idle: "preferred t (lastSelected lb) (?acc p) (?acc x)"
    if x: "x \<in> set ptrs" "\<not> at_limit t (?acc x)" "score_of t (?acc p) = score_of t (?acc x)" for x
  proof -
    have xb: "x \<in> set best" using x b unfolding best_def best_loop_set by auto
    show ?thesis
    proof (cases "u = []")
      case True
      then have "k \<noteq> []" "p \<in> set k" using c ne pm by (auto simp: pool_def neq_Nil_conv)
      then obtain s where "lastSelected lb (ID (?acc p)) = Some s"
          "\<forall>s'. lastSelected lb (ID (?acc x)) = Some s' \<longrightarrow> s \<le> s'" using c xb by auto
      moreover have "lastSelected lb (ID (?acc x)) \<noteq> None" using c True xb by auto
      ultimately show ?thesis using x(3) by (auto simp: preferred_def)
    next
      case False
      then have "lastSelected lb (ID (?acc p)) = None" using c pm by (auto simp: pool_def)
      then show ?thesis using x(3) by (simp add: preferred_def)
    qed
  qed
  have "preferred t (lastSelected lb) (?acc p) (?acc x)" if "x \<in> set ptrs" "\<not> at_limit t (?acc x)" for x
    using b(3) idle [OF that] that by (cases "score_of t (?acc p) = score_of t (?acc x)") (auto simp: preferred_def)
  with b lb' show ?thesis by blast
qed

lemma select_window_None:
  "fst (select_window r now t ptrs lb) = None \<longleftrightarrow> (\<forall>x \<in> set ptrs. at_limit t (cachedAccounts lb ! x))"
  by (auto simp: select_window_def Let_def best_loop_Nil split: prod.splits)

lemma select_window_None_lb: "select_window r now t ptrs lb = (None, lb') \<Longrightarrow> lb' = lb"
  by (auto simp: select_window_def Let_def split: prod.splits if_splits)

text \<open>The windows of a selection together visit every candidate.\<close>

lemma window_member:
  "n \<le> length xs \<Longrightarrow> x \<in> set (scan_window xs start n) \<longleftrightarrow>
     (\<exists>k < n. x = xs ! nat ((start + int k) mod int (length xs)))"
  by (auto simp: scan_window_def)

lemma index_in_range: "xs \<noteq> [] \<Longrightarrow> 0 \<le> z mod int (length xs) \<and> nat (z mod int (length xs)) < length xs"
  by (simp add: nat_less_iff)

lemma window_subset: "n \<le> length xs \<Longrightarrow> set (scan_window xs start n) \<subseteq> set xs"
proof
  fix x assume n: "n \<le> length xs" and "x \<in> set (scan_window xs start n)"
  then obtain k where k: "k < n" "x = xs ! nat ((start + int k) mod int (length xs))" using window_member [OF n] by blast
  moreover have "xs \<noteq> []" using k n by auto
  ultimately show "x \<in> set xs" using index_in_range [of xs "start + int k"] nth_mem by auto
qed

lemma rotation_surjective:
  assumes "x \<in> set xs"
  shows "\<exists>k < length xs. x = xs ! nat ((start + int k) mod int (length xs))"
proof -
  obtain j where j: "j < length xs" "x = xs ! j" using assms by (metis in_set_conv_nth)
  define k where "k = nat ((int j - start) mod int (length xs))"
  have ne: "xs \<noteq> []" using j(1) by auto
  have "int k = (int j - start) mod int (length xs)" using index_in_range [OF ne] by (simp add: k_def)
  then have "(start + int k) mod int (length xs) = int j mod int (length xs)" by (simp add: mod_simps)
  moreover have "k < length xs" using index_in_range [OF ne] by (simp add: k_def)
  ultimately show ?thesis using j by (intro exI [of _ k]) simp
qed

lemma select_windows_sound:
  "select_windows r now t ptrs start offset lb = (Some p, lb') \<Longrightarrow>
     p \<in> set ptrs \<and> \<not> at_limit t (cachedAccounts lb ! p) \<and> cachedAccounts lb' = cachedAccounts lb"
proof (induction r now t ptrs start offset lb rule: select_windows.induct)
  case (1 r now t ptrs start offset lb)
  define n where "n = min accountScanWindow (length ptrs - offset)"
  have off: "\<not> length ptrs \<le> offset" using "1.prems" by (auto simp: select_windows.simps split: if_splits)
  then have n: "n \<le> length ptrs" by (simp add: n_def)
  obtain q lb1 where sw: "select_window r now t (scan_window ptrs (start + int offset) n) lb = (q, lb1)" by fastforce
  show ?case
  proof (cases q)
    case None
    then have "lb1 = lb" using sw select_window_None_lb by blast
    then show ?thesis using 1 off sw None by (auto simp: select_windows.simps [of r now t ptrs start offset] Let_def n_def)
  next
    case (Some p')
    then have "p' = p" "lb1 = lb'" using "1.prems" off sw by (auto simp: select_windows.simps [of r now t ptrs start offset] Let_def n_def)
    then show ?thesis using select_window_sound [OF sw [unfolded Some]] window_subset [OF n] by auto
  qed
qed

lemma select_windows_None:
  "select_windows r now t ptrs start offset lb = (None, lb') \<Longrightarrow> offset \<le> k \<Longrightarrow> k < length ptrs \<Longrightarrow>
     at_limit t (cachedAccounts lb ! (ptrs ! nat ((start + int k) mod int (length ptrs))))"
proof (induction r now t ptrs start offset lb rule: select_windows.induct)
  case (1 r now t ptrs start offset lb)
  define n where "n = min accountScanWindow (length ptrs - offset)"
  have off: "\<not> length ptrs \<le> offset" using "1.prems" by simp
  obtain q lb1 where sw: "select_window r now t (scan_window ptrs (start + int offset) n) lb = (q, lb1)" by fastforce
  have q: "q = None" and rest: "select_windows r now t ptrs start (offset + accountScanWindow) lb1 = (None, lb')"
    using "1.prems"(1) off sw by (auto simp: select_windows.simps [of r now t ptrs start offset] Let_def n_def split: option.splits)
  have lb1: "lb1 = lb" using sw q select_window_None_lb by blast
  show ?case
  proof (cases "k < offset + n")
    case True
    then have "ptrs ! nat ((start + int k) mod int (length ptrs)) \<in> set (scan_window ptrs (start + int offset) n)"
      using "1.prems"(2) n_def by (auto simp: scan_window_def image_iff intro!: bexI [of _ "k - offset"] simp: algebra_simps)
    then show ?thesis using select_window_None [of r now t "scan_window ptrs (start + int offset) n" lb] sw q by auto
  next
    case False
    then have "offset + accountScanWindow \<le> k" using "1.prems"(3) by (auto simp: n_def)
    with "1.IH" [OF off n_def sw [unfolded q, symmetric] refl rest] show ?thesis using lb1 "1.prems"(3) by simp
  qed
qed

lemma rotate_lb [simp]:
  "rotateScanCursor n lb = (start, lb1) \<Longrightarrow> cachedAccounts lb1 = cachedAccounts lb \<and> connTracker lb1 = connTracker lb \<and>
     lastSelected lb1 = lastSelected lb \<and> lb_Store lb1 = lb_Store lb"
  by (auto simp: rotateScanCursor_def Let_def split: if_splits)

definition tracker_of :: "conns option \<Rightarrow> LoadBalancer \<Rightarrow> conns" where
  "tracker_of tracker lb = (case tracker of None \<Rightarrow> connTracker lb | Some t \<Rightarrow> t)"

lemma select_sound:
  assumes "selectAccountWithTracker r now ptrs tracker lb = (Some p, lb')"
  shows "p \<in> set ptrs \<and> \<not> at_limit (tracker_of tracker lb) (cachedAccounts lb ! p) \<and> cachedAccounts lb' = cachedAccounts lb"
proof (cases "length ptrs > accountScanWindow")
  case True
  obtain start lb1 where rot: "rotateScanCursor (int (length ptrs)) lb = (start, lb1)" by fastforce
  have "select_windows r now (tracker_of tracker lb) ptrs start 0 lb1 = (Some p, lb')"
    using assms True rot by (auto simp: selectAccountWithTracker_def tracker_of_def Let_def split: if_splits)
  from select_windows_sound [OF this] rotate_lb [OF rot] show ?thesis by simp
next
  case False
  then have "select_window r now (tracker_of tracker lb) ptrs lb = (Some p, lb')"
    using assms by (auto simp: selectAccountWithTracker_def tracker_of_def Let_def split: if_splits)
  from select_window_sound [OF this] show ?thesis by auto
qed

lemma select_None:
  assumes "selectAccountWithTracker r now ptrs tracker lb = (None, lb')" "x \<in> set ptrs"
  shows "at_limit (tracker_of tracker lb) (cachedAccounts lb ! x)"
proof (cases "length ptrs > accountScanWindow")
  case True
  obtain start lb1 where rot: "rotateScanCursor (int (length ptrs)) lb = (start, lb1)" by fastforce
  have sw: "select_windows r now (tracker_of tracker lb) ptrs start 0 lb1 = (None, lb')"
    using assms True rot by (auto simp: selectAccountWithTracker_def tracker_of_def Let_def split: if_splits)
  obtain k where "k < length ptrs" "x = ptrs ! nat ((start + int k) mod int (length ptrs))"
    using rotation_surjective [OF assms(2)] by blast
  then show ?thesis using select_windows_None [OF sw] rotate_lb [OF rot] by auto
next
  case False
  then have "select_window r now (tracker_of tracker lb) ptrs lb = (None, lb')"
    using assms by (auto simp: selectAccountWithTracker_def tracker_of_def Let_def split: if_splits)
  then show ?thesis using select_window_None [of r now "tracker_of tracker lb" ptrs lb] assms(2) by simp
qed


text \<open>
  The selection gives up only when every candidate is at its concurrency limit,
  whatever the size of the pool and wherever the rotating window stands.
\<close>

theorem select_is_complete:
  "(fst (selectAccountWithTracker r now ptrs tracker lb) = None) =
     list_all (\<lambda>x. at_limit (tracker_of tracker lb) (cachedAccounts lb ! x)) ptrs"
proof
  assume "fst (selectAccountWithTracker r now ptrs tracker lb) = None"
  then obtain lb' where "selectAccountWithTracker r now ptrs tracker lb = (None, lb')" by (metis prod.collapse)
  from select_None [OF this] show "list_all (\<lambda>x. at_limit (tracker_of tracker lb) (cachedAccounts lb ! x)) ptrs"
    by (auto simp: list_all_iff)
next
  assume all: "list_all (\<lambda>x. at_limit (tracker_of tracker lb) (cachedAccounts lb ! x)) ptrs"
  show "fst (selectAccountWithTracker r now ptrs tracker lb) = None"
  proof (cases "selectAccountWithTracker r now ptrs tracker lb")
    case (Pair q lb')
    then show ?thesis using select_sound [of r now ptrs tracker lb "the q" lb'] all by (cases q) (auto simp: list_all_iff)
  qed
qed

section \<open>What the scan admits\<close>

text \<open>\<open>reset_of a b\<close>: \<open>b\<close> is the account \<open>a\<close>, possibly with its routing verdict dropped.\<close>

definition reset_of :: "Account \<Rightarrow> Account \<Rightarrow> bool" where
  "reset_of a b \<longleftrightarrow> b = a \<or> b = resetAccountRuntimeState a"

lemma reset_idem [simp]: "resetAccountRuntimeState (resetAccountRuntimeState a) = resetAccountRuntimeState a"
  by (simp add: resetAccountRuntimeState_def)

lemma reset_of_refl [simp]: "reset_of a a" "reset_of a (resetAccountRuntimeState a)"
  by (simp_all add: reset_of_def)

lemma reset_of_trans: "reset_of a b \<Longrightarrow> reset_of b d \<Longrightarrow> reset_of a d"
  by (auto simp: reset_of_def)

lemma reset_sel [simp]:
  "ID (resetAccountRuntimeState a) = ID a" "AccountType (resetAccountRuntimeState a) = AccountType a"
  "AgentMode (resetAccountRuntimeState a) = AgentMode a" "AuthStatus (resetAccountRuntimeState a) = AuthStatus a"
  "MaxConcurrent (resetAccountRuntimeState a) = MaxConcurrent a" "Weight (resetAccountRuntimeState a) = Weight a"
  by (simp_all add: resetAccountRuntimeState_def)

lemma reset_of_sel:
  assumes "reset_of a b"
  shows "ID b = ID a" "serves_channel chan b = serves_channel chan a"
    "AccountAuthActive (Some b) = AccountAuthActive (Some a)" "at_limit t b = at_limit t a"
  using assms by (auto simp: reset_of_def serves_channel_def AccountAuthActive_def at_limit_def
      EffectiveAccountConcurrencyLimit_def)

text \<open>\<open>accounts_reset lb lb'\<close>: the snapshot of \<open>lb'\<close> is that of \<open>lb\<close> up to dropped verdicts.\<close>

definition accounts_reset :: "LoadBalancer \<Rightarrow> LoadBalancer \<Rightarrow> bool" where
  "accounts_reset lb lb' \<longleftrightarrow> list_all2 reset_of (cachedAccounts lb) (cachedAccounts lb') \<and> connTracker lb' = connTracker lb"

lemma accounts_reset_refl: "cachedAccounts lb' = cachedAccounts lb \<Longrightarrow> connTracker lb' = connTracker lb \<Longrightarrow> accounts_reset lb lb'"
  by (simp add: accounts_reset_def list_all2_refl)

lemma accounts_reset_trans: "accounts_reset a b \<Longrightarrow> accounts_reset b d \<Longrightarrow> accounts_reset a d"
  unfolding accounts_reset_def using list_all2_trans [of reset_of reset_of reset_of] reset_of_trans by (metis (no_types, lifting))

lemma reset_update: "list_all2 reset_of as (as[p := resetAccountRuntimeState (as ! p)])"
  unfolding list_all2_conv_all_nth by (metis length_list_update nth_list_update_eq nth_list_update_neq reset_of_refl)

lemma clear_resets: "accounts_reset lb (clearAccountStatus c now p lb)"
proof -
  let ?lb1 = "lb\<lparr>cachedAccounts := (cachedAccounts lb)[p := resetAccountRuntimeState (cachedAccounts lb ! p)]\<rparr>"
  have 1: "accounts_reset lb ?lb1" by (simp add: accounts_reset_def reset_update)
  have "accounts_reset ?lb1 (update_cached i resetAccountRuntimeState ?lb1)" for i
    by (auto simp: update_cached_def accounts_reset_def reset_update list_all2_refl split: option.split)
  moreover have "accounts_reset x (persistAccountStatus c now acc x)" for x acc
    by (rule accounts_reset_refl) (simp_all add: persistAccountStatus_def)
  ultimately show ?thesis unfolding clearAccountStatus_def Let_def using 1 accounts_reset_trans by blast
qed

lemma gate_resets: "paid_probe_gate c now acc lb = (b, lb') \<Longrightarrow> cachedAccounts lb' = cachedAccounts lb \<and> connTracker lb' = connTracker lb"
  by (auto simp: paid_probe_gate_def Let_def split: if_splits prod.splits)

lemma available_sound:
  assumes "isAccountAvailable c now p lb = (b, lb')"
  shows "accounts_reset lb lb'"
    and "b \<Longrightarrow> AccountAuthActive (Some (cachedAccounts lb ! p)) \<and> status_decision (cachedAccounts lb ! p) now \<noteq> Withhold"
proof -
  obtain ok lb1 where g: "paid_probe_gate c now (cachedAccounts lb ! p) lb = (ok, lb1)" by fastforce
  have r: "accounts_reset lb lb1" using gate_resets [OF g] by (intro accounts_reset_refl) auto
  show "accounts_reset lb lb'"
    using assms g r accounts_reset_trans [OF r clear_resets] accounts_reset_refl [of lb lb]
    by (auto simp: isAccountAvailable_def Let_def split: if_splits status_decision.splits)
  show "b \<Longrightarrow> AccountAuthActive (Some (cachedAccounts lb ! p)) \<and> status_decision (cachedAccounts lb ! p) now \<noteq> Withhold"
    using assms g by (auto simp: isAccountAvailable_def Let_def split: if_splits status_decision.splits)
qed

text \<open>
  An account the scan may hand out at \<open>now\<close>: seen as \<open>a\<close> when it was examined, not excluded,
  of the channel, accepted by the caller's filter, with an active credential and a status that
  does not withhold it.
\<close>

definition admissible :: "instant \<Rightarrow> int list \<Rightarrow> string \<Rightarrow> AccountFilter \<Rightarrow> Account \<Rightarrow> bool" where
  "admissible now excludeIDs chan flt a \<longleftrightarrow> ID a \<notin> set excludeIDs \<and> serves_channel chan a \<and>
     reject_with flt a = None \<and> AccountAuthActive (Some a) \<and> status_decision a now \<noteq> Withhold"

definition scan_inv :: "instant \<Rightarrow> int list \<Rightarrow> string \<Rightarrow> AccountFilter \<Rightarrow> LoadBalancer \<Rightarrow> nat set \<Rightarrow> scan_state \<Rightarrow> bool" where
  "scan_inv now excludeIDs chan flt lb ptrs st \<longleftrightarrow> accounts_reset lb (sc_lb st) \<and>
     (\<forall>p \<in> set (sc_filtered st). p \<in> ptrs \<and> (\<exists>a. admissible now excludeIDs chan flt a \<and>
        reset_of (cachedAccounts lb ! p) a \<and> reset_of a (cachedAccounts (sc_lb st) ! p)))"

lemma accounts_reset_nth:
  "accounts_reset lb lb' \<Longrightarrow> p < length (cachedAccounts lb) \<Longrightarrow> reset_of (cachedAccounts lb ! p) (cachedAccounts lb' ! p)"
  by (simp add: accounts_reset_def list_all2_conv_all_nth)

lemma accounts_reset_length: "accounts_reset lb lb' \<Longrightarrow> length (cachedAccounts lb') = length (cachedAccounts lb)"
  by (auto simp: accounts_reset_def dest: list_all2_lengthD)

lemma scan_one_inv:
  assumes inv: "scan_inv now ex chan flt lb ptrs st" and p: "p \<in> ptrs"
    and rng: "\<forall>p \<in> ptrs. p < length (cachedAccounts lb)"
  shows "scan_inv now ex chan flt lb ptrs (scan_one c now ex chan flt p st)"
proof -
  let ?acc = "cachedAccounts (sc_lb st) ! p"
  obtain b lb' where av: "isAccountAvailable c now p (sc_lb st) = (b, lb')" by fastforce
  have base: "accounts_reset lb (sc_lb st)" using inv by (simp add: scan_inv_def)
  have len: "length (cachedAccounts (sc_lb st)) = length (cachedAccounts lb)" by (rule accounts_reset_length [OF base])
  have r: "accounts_reset lb lb'" using base available_sound(1) [OF av] accounts_reset_trans by blast
  have old: "q \<in> ptrs \<and> (\<exists>a. admissible now ex chan flt a \<and> reset_of (cachedAccounts lb ! q) a \<and>
      reset_of a (cachedAccounts lb' ! q))" if q: "q \<in> set (sc_filtered st)" for q
  proof -
    obtain a where a: "q \<in> ptrs" "admissible now ex chan flt a" "reset_of (cachedAccounts lb ! q) a"
        "reset_of a (cachedAccounts (sc_lb st) ! q)" using inv q unfolding scan_inv_def by blast
    moreover have "reset_of (cachedAccounts (sc_lb st) ! q) (cachedAccounts lb' ! q)"
      using accounts_reset_nth [OF available_sound(1) [OF av]] rng a(1) len by simp
    ultimately show ?thesis using reset_of_trans by blast
  qed
  have new: "\<exists>a. admissible now ex chan flt a \<and> reset_of (cachedAccounts lb ! p) a \<and> reset_of a (cachedAccounts lb' ! p)"
    if "ID ?acc \<notin> set ex" "serves_channel chan ?acc" "reject_with flt ?acc = None" b
  proof -
    have "admissible now ex chan flt ?acc" using that available_sound(2) [OF av] by (simp add: admissible_def)
    moreover have "reset_of (cachedAccounts lb ! p) ?acc" using accounts_reset_nth [OF base] rng p by simp
    moreover have "reset_of ?acc (cachedAccounts lb' ! p)"
      using accounts_reset_nth [OF available_sound(1) [OF av]] rng p len by simp
    ultimately show ?thesis by blast
  qed
  show ?thesis
    unfolding scan_inv_def scan_one_def Let_def
    using base r old new p inv by (auto simp: scan_inv_def av split: option.splits)
qed

lemma scan_sound:
  assumes "\<forall>p \<in> set ptrs. p < length (cachedAccounts lb)"
  shows "scan_inv now ex chan flt lb (set ptrs) (scan c now ex chan flt ptrs lb)"
proof -
  have "scan_inv now ex chan flt lb (set ptrs) (fold (scan_one c now ex chan flt) qs st)"
    if "scan_inv now ex chan flt lb (set ptrs) st" "set qs \<subseteq> set ptrs" for qs st
    using that
  proof (induction qs arbitrary: st)
    case (Cons q qs)
    then have "scan_inv now ex chan flt lb (set ptrs) (scan_one c now ex chan flt q st)"
      using scan_one_inv assms by simp
    then show ?case using Cons by simp
  qed simp
  moreover have "scan_inv now ex chan flt lb (set ptrs) (scan_start lb)"
    by (simp add: scan_inv_def scan_start_def accounts_reset_refl)
  ultimately show ?thesis unfolding scan_def by simp
qed

text \<open>The whole pool scan: a window first when the pool is large, everything otherwise.\<close>

lemma scan_pool_sound:
  assumes rng: "\<forall>p \<in> set ptrs. p < length (cachedAccounts lb)" and p: "p \<in> set (sc_filtered (scan_pool c now ex chan flt ptrs lb))"
  shows "accounts_reset lb (sc_lb (scan_pool c now ex chan flt ptrs lb))"
    and "\<exists>a. admissible now ex chan flt a \<and> reset_of a (cachedAccounts (sc_lb (scan_pool c now ex chan flt ptrs lb)) ! p)"
proof -
  have *: "accounts_reset lb (sc_lb (scan_pool c now ex chan flt ptrs lb)) \<and>
    (\<exists>a. admissible now ex chan flt a \<and> reset_of a (cachedAccounts (sc_lb (scan_pool c now ex chan flt ptrs lb)) ! p))"
  proof (cases "length ptrs > accountScanWindow")
    case False
    then show ?thesis using scan_sound [OF rng, of now ex chan flt c] p by (auto simp: scan_pool_def scan_inv_def)
  next
    case True
    obtain start lb1 where rot: "rotateScanCursor (int (length ptrs)) lb = (start, lb1)" by fastforce
    let ?w = "scan_window ptrs start accountScanWindow"
    let ?st = "scan c now ex chan flt ?w lb1"
    have w: "set ?w \<subseteq> set ptrs" using True by (intro window_subset) simp
    have lb1: "accounts_reset lb lb1" using rotate_lb [OF rot] by (intro accounts_reset_refl) auto
    have inv1: "scan_inv now ex chan flt lb1 (set ?w) ?st"
      by (rule scan_sound) (use w rng rotate_lb [OF rot] in auto)
    then have r1: "accounts_reset lb (sc_lb ?st)" using lb1 accounts_reset_trans by (auto simp: scan_inv_def)
    have inv2: "scan_inv now ex chan flt (sc_lb ?st) (set ptrs) (scan c now ex chan flt ptrs (sc_lb ?st))"
      by (rule scan_sound) (use rng accounts_reset_length [OF r1] in auto)
    then have r2: "accounts_reset lb (sc_lb (scan c now ex chan flt ptrs (sc_lb ?st)))"
      using r1 accounts_reset_trans by (auto simp: scan_inv_def)
    show ?thesis
      using True rot p inv1 inv2 r1 r2 by (auto simp: scan_pool_def scan_inv_def Let_def split: if_splits)
  qed
  then show "accounts_reset lb (sc_lb (scan_pool c now ex chan flt ptrs lb))"
    and "\<exists>a. admissible now ex chan flt a \<and> reset_of a (cachedAccounts (sc_lb (scan_pool c now ex chan flt ptrs lb)) ! p)"
    by auto
qed

text \<open>The index of a cached snapshot belongs to that snapshot.\<close>

definition cache_ok :: "LoadBalancer \<Rightarrow> bool" where
  "cache_ok lb \<longleftrightarrow> (case cachedByChannel lb of None \<Rightarrow> True
     | Some index \<Rightarrow> (\<forall>key. index key = channel_index (cachedAccounts lb) key))"

lemma getEnabledAccounts_cache_ok: "getEnabledAccounts c now lb0 = Inr lb \<Longrightarrow> cache_ok lb0 \<Longrightarrow> cache_ok lb"
  by (auto simp: getEnabledAccounts_def cache_ok_def split: if_splits sum.splits)

lemma pool_pointers_range:
  assumes "cache_ok lb" "p \<in> set (pool_pointers chan lb)"
  shows "p < length (cachedAccounts lb)"
proof (cases "cachedByChannel lb")
  case None
  then show ?thesis using assms(2) by (simp add: pool_pointers_def)
next
  case (Some index)
  then have "index (ToLower chan) = channel_index (cachedAccounts lb) (ToLower chan)" using assms(1) by (simp add: cache_ok_def)
  then show ?thesis using assms(2) Some by (auto simp: pool_pointers_def channel_index_def split: if_splits)
qed

text \<open>
  Property C1: the account a request is given is one it may use: it was not excluded, it serves
  the channel, the caller's filter accepted it, its credential is active, its status did not
  withhold it at that time, and it is below its concurrency limit.
\<close>

theorem selected_account_is_admissible:
  assumes "GetNextAccountExcludingByChannelWithTrackerFilter c r now ex chan tracker flt lb0 = (Inr acc, lb')" "cache_ok lb0"
  shows "ID acc \<notin> set ex \<and> serves_channel chan acc \<and> AccountAuthActive (Some acc) \<and>
    (0 < EffectiveAccountConcurrencyLimit acc \<longrightarrow>
       GetCount (ID acc) (tracker_of tracker lb0) < EffectiveAccountConcurrencyLimit acc) \<and>
    (\<exists>a. admissible now ex chan flt a \<and> reset_of a acc)"
proof -
  obtain lb where lb: "getEnabledAccounts c now lb0 = Inr lb"
    using assms(1) by (auto simp: GetNextAccountExcludingByChannelWithTrackerFilter_def split: sum.splits)
  define st where "st = scan_pool c now ex chan flt (pool_pointers chan lb) lb"
  obtain p where sel: "selectAccountWithTracker r now (sc_filtered st) tracker (sc_lb st) = (Some p, lb')"
    and acc: "acc = cachedAccounts lb' ! p"
    using assms(1) lb by (auto simp: GetNextAccountExcludingByChannelWithTrackerFilter_def st_def Let_def
        split: if_splits prod.splits option.splits)
  note s = select_sound [OF sel]
  have rng: "\<forall>p \<in> set (pool_pointers chan lb). p < length (cachedAccounts lb)"
    using pool_pointers_range getEnabledAccounts_cache_ok [OF lb assms(2)] by blast
  note pool = scan_pool_sound [OF rng, of p c now ex chan flt, folded st_def]
  obtain a where a: "admissible now ex chan flt a" "reset_of a acc" using pool(2) s acc by auto
  have "connTracker (sc_lb st) = connTracker lb" using pool(1) s by (auto simp: accounts_reset_def)
  moreover have "connTracker lb = connTracker lb0" using lb by (auto simp: getEnabledAccounts_def split: if_splits sum.splits)
  ultimately have "tracker_of tracker (sc_lb st) = tracker_of tracker lb0" by (cases tracker) (simp_all add: tracker_of_def)
  then have "\<not> at_limit (tracker_of tracker lb0) acc" using s acc by simp
  then have "0 < EffectiveAccountConcurrencyLimit acc \<longrightarrow>
      GetCount (ID acc) (tracker_of tracker lb0) < EffectiveAccountConcurrencyLimit acc"
    by (auto simp: at_limit_def Let_def)
  then show ?thesis using a reset_of_sel [OF a(2)] by (auto simp: admissible_def)
qed

text \<open>A load balancer with a live snapshot of two accounts of the Grok channel, one of them busy.\<close>

definition sample_lb :: LoadBalancer where
  "sample_lb = \<lparr>lb_Store = sample_store,
     cachedAccounts = [zero_account\<lparr>ID := 1, AccountType := ''grok'', Enabled := True\<rparr>,
                       zero_account\<lparr>ID := 2, AccountType := ''grok'', Enabled := True\<rparr>],
     cachedByChannel = None, cacheExpires = 100, cacheTTL = 5 * second,
     connTracker = [1 \<mapsto> 3], scanCursor = 0, lastSelected = Map.empty\<rparr>"

lemma sample_selects:
  "fst (GetNextAccountExcludingByChannelWithTrackerFilter None 0 50 [] ''grok'' None None sample_lb)
     = Inr (zero_account\<lparr>ID := 2, AccountType := ''grok'', Enabled := True\<rparr>)"
  by code_simp

theorem selected_account_is_admissible_witness:
  "\<exists>acc lb'. GetNextAccountExcludingByChannelWithTrackerFilter None 0 50 [] ''grok'' None None sample_lb = (Inr acc, lb') \<and>
     serves_channel ''grok'' acc \<and> GetCount (ID acc) (tracker_of None sample_lb) < EffectiveAccountConcurrencyLimit acc"
proof -
  have "EffectiveAccountConcurrencyLimit (zero_account\<lparr>ID := 2, AccountType := ''grok'', Enabled := True\<rparr>) > 0" by code_simp
  then obtain acc lb' where g: "GetNextAccountExcludingByChannelWithTrackerFilter None 0 50 [] ''grok'' None None sample_lb = (Inr acc, lb')"
      "0 < EffectiveAccountConcurrencyLimit acc"
    using sample_selects by (metis prod.collapse sum.inject(2))
  moreover have "cache_ok sample_lb" by (simp add: cache_ok_def sample_lb_def)
  ultimately show ?thesis using selected_account_is_admissible [OF g(1)] by blast
qed


section \<open>Freshness of the snapshot\<close>

text \<open>
  A change that was announced is seen by the next request: after the snapshot is
  invalidated for an account, the next read serves what the store lists now, at whatever time
  the old snapshot would have expired.
\<close>

theorem invalidated_snapshot_is_reread:
  assumes "i \<in> set is" "i \<noteq> 0" "0 \<le> now" "getEnabledAccounts c now (InvalidateAccounts is lb) = Inr lb'"
  shows "GetEnabledAccounts c (lb_Store lb) = Inr (cachedAccounts lb')"
proof -
  have "filter (\<lambda>i. i \<noteq> 0) is \<noteq> []" using assms(1,2) by (auto simp: filter_empty_conv)
  moreover have "is \<noteq> []" using assms(1) by auto
  ultimately show ?thesis using assms(3,4)
    by (auto simp: getEnabledAccounts_def InvalidateAccounts_def cachedAccountsBefore_def Let_def split: if_splits sum.splits)
qed

theorem invalidated_snapshot_is_reread_witness:
  "\<exists>lb'. getEnabledAccounts (Some clear_cipher) 5 (InvalidateAccounts [1] sample_lb) = Inr lb' \<and>
     GetEnabledAccounts (Some clear_cipher) sample_store = Inr (cachedAccounts lb')"
proof -
  have "set (sorted_list_of_set (enabled sample_store)) \<subseteq> enabled sample_store"
    by (cases "finite (enabled sample_store)") auto
  from decode_rows_enabled [OF sample_ok this]
  obtain accs where accs: "GetEnabledAccounts (Some clear_cipher) sample_store = Inr accs"
    by (auto simp: GetEnabledAccounts_def getAccountsByIDs_def)
  obtain lb' where g: "getEnabledAccounts (Some clear_cipher) 5 (InvalidateAccounts [1] sample_lb) = Inr lb'"
    using accs by (auto simp: getEnabledAccounts_def InvalidateAccounts_def cachedAccountsBefore_def sample_lb_def)
  then show ?thesis using invalidated_snapshot_is_reread [OF _ _ _ g] by (auto simp: sample_lb_def)
qed

section \<open>A mark and the status decision that follows\<close>

lemma mark_429_sel:
  "StatusCode (mark_account now ''429'' a) = ''429''" "LastAttempt (mark_account now ''429'' a) = now"
  "RateLimitFailures (mark_account now ''429'' a) = RateLimitFailures a + 1"
  "AuthStatus (mark_account now ''429'' a) = AuthStatus a"
  by (simp_all add: mark_account_def Let_def)

lemma status_429: "TrimSpace (StatusCode a) = ''429'' \<Longrightarrow> LastAttempt a \<noteq> 0 \<Longrightarrow>
   status_decision a now = (if AccountHeld (Some a) now then Withhold else AdmitCleared)"
  by (simp add: status_decision_def Let_def)

text \<open>
  An account marked rate-limited is withheld for the whole backoff its failure
  count calls for, so the pool and the policy agree on when it comes back.
\<close>

theorem marked_429_is_withheld:
  assumes "AccountAuthActive (Some a)" "now \<noteq> 0" "later < now + RateLimitCooldown (RateLimitFailures a + 1)"
  shows "status_decision (mark_account now ''429'' a) later = Withhold"
proof -
  let ?m = "mark_account now ''429'' a"
  have act: "AccountAuthActive (Some ?m)" using assms(1) by (simp add: AccountAuthActive_def mark_429_sel)
  have "AccountHeld (Some ?m) later"
    using rate_limited_held [OF act, of later] assms(2,3) rate.upper [of "RateLimitFailures a + 1"]
    by (simp add: mark_429_sel Let_def)
  then show ?thesis using status_429 [of ?m later] assms(2) by (simp add: mark_429_sel)
qed

theorem marked_429_is_withheld_witness:
  "status_decision (mark_account 10 ''429'' zero_account) (10 + 29 * second) = Withhold"
proof (rule marked_429_is_withheld)
  show "AccountAuthActive (Some zero_account)" by code_simp
qed (simp_all add: zero_account_def RateLimitCooldown_min cooldown_defs)

section \<open>Coverage of the rotating window\<close>

fun rotations :: "nat \<Rightarrow> int \<Rightarrow> LoadBalancer \<Rightarrow> int list" where
  "rotations 0 n lb = []"
| "rotations (Suc k) n lb = (let (start, lb') = rotateScanCursor n lb in start # rotations k n lb')"

lemma rotations_nth:
  "0 < n \<Longrightarrow> k < m \<Longrightarrow> rotations m n lb ! k = (scanCursor lb + int (k * accountScanWindow)) mod n"
proof (induction m arbitrary: k lb)
  case (Suc m)
  show ?case
  proof (cases k)
    case 0
    then show ?thesis using Suc.prems by (simp add: rotateScanCursor_def Let_def)
  next
    case (Suc k')
    then show ?thesis using Suc.IH [of k'] Suc.prems
      by (simp add: rotateScanCursor_def Let_def mod_simps algebra_simps)
  qed
qed simp

lemma rotations_length [simp]: "length (rotations m n lb) = m"
  by (induction m arbitrary: lb) (auto split: prod.splits)



end
