(* ===== verification/Pool_Answer.thy ===== *)
theory Pool_Answer
  imports Error_Classify
begin

text \<open>
  The answer to a request that no account of the pool could take
  (\<^verbatim>\<open>src/internal/errors/pool.go\<close>): the pool's own note and the last upstream error decide a
  category and a fixed sentence, and the Grok handlers' use of it
  (\<^verbatim>\<open>src/internal/grok/pool_error.go\<close>, \<^verbatim>\<open>classifyGrokPoolFailure\<close>). The lemmas show that the
  category drives the status, and that the pool's internal note never reaches the client.
\<close>

definition PoolAllowanceMessage :: string where
  "PoolAllowanceMessage = ''Request failed: every account for this channel has exhausted its allowance. Add credits or accounts, or wait for the quota reset.''"
definition PoolQoderModelMessage :: string where
  "PoolQoderModelMessage = ''Request failed: the requested Qoder model is temporarily rate-limited. Please retry after its cooldown or choose another model.''"
definition PoolModelCooldownMessage :: string where
  "PoolModelCooldownMessage = ''Request failed: the requested model is cooling down on this channel. Please retry after its cooldown or choose another model.''"
definition PoolClineInferenceCapMessage :: string where
  "PoolClineInferenceCapMessage = ''Request failed: this Cline account reached its inference cap and is cooling down. Please wait for the cap window to pass or add another Cline account.''"
definition PoolRateLimitedMessage :: string where
  "PoolRateLimitedMessage = ''Request failed: all available accounts for this channel are currently rate-limited. Please wait for cooldown or add another valid account.''"
definition PoolUpstreamQueueMessage :: string where
  "PoolUpstreamQueueMessage = ''Request failed: the upstream is holding this model's requests in a queue and did not admit this one. Retry after the delay indicated by the upstream.''"
definition PoolUpstreamUnavailableMessage :: string where
  "PoolUpstreamUnavailableMessage = ''Request failed: the upstream service for this model is temporarily unavailable. Retry after the delay indicated by the upstream.''"
definition PoolBusyMessage :: string where
  "PoolBusyMessage = ''Request failed: every account for this channel is busy with other requests. Please retry shortly.''"
definition PoolModelUnavailableMessage :: string where
  "PoolModelUnavailableMessage = ''Request failed: the requested model is not available on this channel's accounts. Choose another model or add an account that supports it.''"

record PoolExhaustion =
  pe_Category :: string
  pe_Message :: string

definition Empty :: "PoolExhaustion \<Rightarrow> bool" where
  "Empty p = (TrimSpace (pe_Category p) = [])"

definition no_answer :: PoolExhaustion where
  "no_answer = \<lparr>pe_Category = '''', pe_Message = ''''\<rparr>"

definition answer :: "string \<Rightarrow> string \<Rightarrow> PoolExhaustion" where
  "answer category message = \<lparr>pe_Category = category, pe_Message = message\<rparr>"

text \<open>\<open>selectErr\<close> is the text of the pool's error, \<^const>\<open>None\<close> when there is none.\<close>

definition ClassifyPoolExhaustion :: "string option \<Rightarrow> string \<Rightarrow> PoolExhaustion" where
  "ClassifyPoolExhaustion selectErr lastErr =
     (let lowerLastErr = ToLower (TrimSpace lastErr);
          lowerSelect = (case selectErr of None \<Rightarrow> '''' | Some e \<Rightarrow> ToLower e)
      in if IsCreditExhaustion lowerLastErr \<or> Contains lowerSelect ''exhausted their allowance''
           then answer ''quota_exhausted'' PoolAllowanceMessage
         else if Contains lowerLastErr ''no usable plan or allowance'' \<or>
                 Contains lowerLastErr ''not subscribed to required model plan''
           then answer ''model_unavailable'' PoolModelUnavailableMessage
         else if Contains lowerLastErr ''cline inference cap reached''
           then answer ''rate_limit'' PoolClineInferenceCapMessage
         else if Contains lowerLastErr ''qoder agent limit reached'' \<or>
                 Contains lowerLastErr ''qoder model rate limited'' \<or>
                 Contains lowerLastErr ''model cooldown''
           then answer ''rate_limit'' PoolQoderModelMessage
         else if Contains lowerSelect ''cooling down for the requested model''
           then answer ''rate_limit'' PoolModelCooldownMessage
         else if Contains lowerSelect ''not covered by any matching account's plan''
           then answer ''model_unavailable'' PoolModelUnavailableMessage
         else if Contains lowerSelect ''cooling down on some matching accounts''
           then answer ''rate_limit'' PoolModelCooldownMessage
         else if Contains lowerSelect ''rate-limited or cooling down''
           then answer ''rate_limit'' PoolRateLimitedMessage
         else if Contains lowerSelect ''concurrency limit''
           then answer ''rate_limit'' PoolBusyMessage
         else if Contains lowerSelect ''is not available in the current'' \<and> Contains lowerSelect ''account pool''
           then answer ''model_unavailable'' PoolModelUnavailableMessage
         else if ec_Category (ClassifyUpstreamError lastErr) = ''upstream_queue''
           then answer ''upstream_queue'' PoolUpstreamQueueMessage
         else if ec_Category (ClassifyUpstreamError lastErr) = ''upstream_unavailable''
           then answer ''upstream_unavailable'' PoolUpstreamUnavailableMessage
         else if ec_Category (ClassifyUpstreamError lastErr) = ''rate_limit''
           then answer ''rate_limit'' PoolRateLimitedMessage
         else no_answer)"

section \<open>The Grok handlers\<close>

record grokPoolAnswer =
  gp_status :: int
  gp_code :: string
  gp_message :: string

definition classifyGrokPoolFailure :: "string option \<Rightarrow> string \<Rightarrow> string \<Rightarrow> grokPoolAnswer" where
  "classifyGrokPoolFailure err fallbackCode fallbackMessage =
     (let out = ClassifyPoolExhaustion err '''' in
      if \<not> Empty out
        then \<lparr>gp_status = StatusForCategory (pe_Category out), gp_code = pe_Category out,
               gp_message = pe_Message out\<rparr>
      else \<lparr>gp_status = 503, gp_code = fallbackCode, gp_message = fallbackMessage\<rparr>)"

section \<open>Properties\<close>

lemmas pool_messages =
  PoolAllowanceMessage_def PoolQoderModelMessage_def PoolModelCooldownMessage_def
  PoolClineInferenceCapMessage_def PoolRateLimitedMessage_def PoolUpstreamQueueMessage_def
  PoolUpstreamUnavailableMessage_def PoolBusyMessage_def PoolModelUnavailableMessage_def

definition pool_sentences :: "string list" where
  "pool_sentences = [PoolAllowanceMessage, PoolQoderModelMessage, PoolModelCooldownMessage,
     PoolClineInferenceCapMessage, PoolRateLimitedMessage, PoolUpstreamQueueMessage,
     PoolUpstreamUnavailableMessage, PoolBusyMessage, PoolModelUnavailableMessage]"

definition pool_answer_ok :: "PoolExhaustion \<Rightarrow> bool" where
  "pool_answer_ok p \<longleftrightarrow> p = no_answer \<or>
     (pe_Category p \<in> {''quota_exhausted'', ''model_unavailable'', ''rate_limit'', ''upstream_queue'', ''upstream_unavailable''}
      \<and> pe_Message p \<in> set pool_sentences)"

lemma ClassifyPoolExhaustion_ok: "pool_answer_ok (ClassifyPoolExhaustion s l)"
  unfolding ClassifyPoolExhaustion_def Let_def
  by (intro all_if [where Q = pool_answer_ok]) (simp_all add: pool_answer_ok_def answer_def pool_sentences_def)

lemma pool_status:
  "StatusForCategory ''quota_exhausted'' = 429" "StatusForCategory ''rate_limit'' = 429"
  "StatusForCategory ''upstream_queue'' = 429" "StatusForCategory ''upstream_unavailable'' = 503"
  "StatusForCategory ''model_unavailable'' = 404"
  by (simp_all add: StatusForCategory_def publicStatusForCategory_def TrimSpace_def is_space_def)

text \<open>With no upstream error the pool's own note decides, in the order of the branches.\<close>

lemma ClassifyPoolExhaustion_select: "ClassifyPoolExhaustion (Some note) '''' =
   (let n = ToLower note in
    if Contains n ''exhausted their allowance'' then answer ''quota_exhausted'' PoolAllowanceMessage
    else if Contains n ''cooling down for the requested model'' then answer ''rate_limit'' PoolModelCooldownMessage
    else if Contains n ''not covered by any matching account's plan''
      then answer ''model_unavailable'' PoolModelUnavailableMessage
    else if Contains n ''cooling down on some matching accounts'' then answer ''rate_limit'' PoolModelCooldownMessage
    else if Contains n ''rate-limited or cooling down'' then answer ''rate_limit'' PoolRateLimitedMessage
    else if Contains n ''concurrency limit'' then answer ''rate_limit'' PoolBusyMessage
    else if Contains n ''is not available in the current'' \<and> Contains n ''account pool''
      then answer ''model_unavailable'' PoolModelUnavailableMessage
    else no_answer)"
proof -
  have "IsCreditExhaustion '''' = False" by code_simp
  moreover have "ec_Category (ClassifyUpstreamError '''') = ''unknown''" by code_simp
  ultimately show ?thesis
    unfolding ClassifyPoolExhaustion_def Let_def by simp
qed

text \<open>
  An empty pool is answered from a closed list: the answer is either none or one of
  five categories with one of the fixed pool sentences, and a Grok handler that answers from it
  always uses status 404, 429 or 503, never an internal server error.
\<close>

theorem pool_answer_closed:
  "pool_answer_ok (ClassifyPoolExhaustion selectErr lastErr) \<and>
   gp_status (classifyGrokPoolFailure selectErr code message) \<in> {404, 429, 503}"
proof -
  have "pool_answer_ok (ClassifyPoolExhaustion selectErr [])" by (rule ClassifyPoolExhaustion_ok)
  then have "\<not> Empty (ClassifyPoolExhaustion selectErr []) \<Longrightarrow>
      StatusForCategory (pe_Category (ClassifyPoolExhaustion selectErr [])) \<in> {404, 429, 503}"
    by (auto simp: pool_answer_ok_def Empty_def no_answer_def pool_status)
  then show ?thesis using ClassifyPoolExhaustion_ok by (simp add: classifyGrokPoolFailure_def Let_def)
qed

end
