(* ===== verification/Sse_Frame.thy ===== *)
theory Sse_Frame
  imports Prelude "HOL-Library.Word"
begin

unbundle bit_operations_syntax

text \<open>
  The encoder of server-sent-event payloads (\<^verbatim>\<open>src/internal/handler/sse_frame.go\<close>): the scanner that
  tests eight bytes of a string at once in a 64-bit word and the JSON string encoder built on it.
  The reference is the string encoder of Go's
  \<^verbatim>\<open>encoding/json\<close>, with its rule for invalid UTF-8 written out. Strings are byte strings.
\<close>

section \<open>Eight bytes in a word\<close>

definition swarLo :: "64 word" where "swarLo = 0x0101010101010101"
definition swarHi :: "64 word" where "swarHi = 0x8080808080808080"

definition swarHasZero :: "64 word \<Rightarrow> 64 word" where
  "swarHasZero v = (v - swarLo) AND NOT v AND swarHi"

definition swarHasByte :: "64 word \<Rightarrow> 64 word \<Rightarrow> 64 word" where
  "swarHasByte w c = swarHasZero (w XOR (c * swarLo))"

definition swarQuoteAmpMask :: "64 word" where "swarQuoteAmpMask = 0xFBFBFBFBFBFBFBFB"
definition swarQuoteAmpValue :: "64 word" where "swarQuoteAmpValue = 0x2222222222222222"
definition swarAngleMask :: "64 word" where "swarAngleMask = 0xFDFDFDFDFDFDFDFD"
definition swarAngleValue :: "64 word" where "swarAngleValue = 0x3C3C3C3C3C3C3C3C"

definition swarHasMaskedByte :: "64 word \<Rightarrow> 64 word \<Rightarrow> 64 word \<Rightarrow> 64 word" where
  "swarHasMaskedByte w keep v = swarHasZero ((w AND keep) XOR v)"

abbreviation byte :: "char \<Rightarrow> int" where "byte c \<equiv> of_char c"

text \<open>\<open>load8LE\<close> reads the first eight bytes of the remaining string.\<close>

fun le_value :: "string \<Rightarrow> int" where
  "le_value [] = 0"
| "le_value (c # cs) = byte c + 256 * le_value cs"

definition load8LE :: "string \<Rightarrow> 64 word" where
  "load8LE s = word_of_int (le_value (take 8 s))"

definition jsonRawChunkClean :: "64 word \<Rightarrow> bool" where
  "jsonRawChunkClean w =
     (if w AND swarHi \<noteq> 0 then False
      else if (w - swarLo * 0x20) AND NOT w AND swarHi \<noteq> 0 then False
      else (swarHasMaskedByte w swarQuoteAmpMask swarQuoteAmpValue OR
            swarHasMaskedByte w swarAngleMask swarAngleValue OR swarHasByte w 0x5C) = 0)"

section \<open>UTF-8\<close>

text \<open>\<^verbatim>\<open>utf8.DecodeRuneInString\<close>: the rune and its size; an invalid byte is U+FFFD with size one.\<close>

definition RuneError :: int where "RuneError = 0xFFFD"

definition cont :: "int \<Rightarrow> int \<Rightarrow> string \<Rightarrow> nat \<Rightarrow> bool" where
  "cont lo hi s k = (k < length s \<and> lo \<le> byte (s ! k) \<and> byte (s ! k) \<le> hi)"

definition DecodeRune :: "string \<Rightarrow> int \<times> nat" where
  "DecodeRune s = (case s of [] \<Rightarrow> (RuneError, 0) | c # cs \<Rightarrow>
     let b0 = byte c; b = (\<lambda>k. byte (s ! k) mod 64); tail = cont 0x80 0xBF s in
     if b0 < 0x80 then (b0, 1)
     else if 0xC2 \<le> b0 \<and> b0 \<le> 0xDF then (if tail 1 then ((b0 - 0xC0) * 64 + b 1, 2) else (RuneError, 1))
     else if 0xE0 \<le> b0 \<and> b0 \<le> 0xEF then
       (if cont (if b0 = 0xE0 then 0xA0 else 0x80) (if b0 = 0xED then 0x9F else 0xBF) s 1 \<and> tail 2
        then ((b0 - 0xE0) * 4096 + b 1 * 64 + b 2, 3) else (RuneError, 1))
     else if 0xF0 \<le> b0 \<and> b0 \<le> 0xF4 then
       (if cont (if b0 = 0xF0 then 0x90 else 0x80) (if b0 = 0xF4 then 0x8F else 0xBF) s 1 \<and> tail 2 \<and> tail 3
        then ((b0 - 0xF0) * 262144 + b 1 * 4096 + b 2 * 64 + b 3, 4) else (RuneError, 1))
     else (RuneError, 1))"

lemma DecodeRune_size: "DecodeRune s = (r, sz) \<Longrightarrow> s \<noteq> [] \<Longrightarrow> 0 < sz"
  by (auto simp: DecodeRune_def Let_def split: list.splits if_splits)

section \<open>The encoder\<close>

definition must_escape :: "int \<Rightarrow> bool" where
  "must_escape b \<longleftrightarrow> b < 0x20 \<or> b = 0x5C \<or> b = 0x22 \<or> b = 0x3C \<or> b = 0x3E \<or> b = 0x26"

function canAppendJSONRawString :: "string \<Rightarrow> bool" where
  "canAppendJSONRawString s =
     (if s = [] then True
      else if byte (hd s) < 0x80 \<and> 8 \<le> length s \<and> jsonRawChunkClean (load8LE s) then canAppendJSONRawString (drop 8 s)
      else if byte (hd s) < 0x80 then
        (if must_escape (byte (hd s)) then False else canAppendJSONRawString (tl s))
      else case DecodeRune s of (r, sz) \<Rightarrow>
        if r = RuneError \<and> sz = 1 then False
        else if r = 0x2028 \<or> r = 0x2029 then False
        else canAppendJSONRawString (drop sz s))"
  by pat_completeness auto
termination
  by (relation "measure length") (auto dest: DecodeRune_size [OF sym])

declare canAppendJSONRawString.simps [simp del]

definition hex_digit :: "int \<Rightarrow> char" where
  "hex_digit n = ''0123456789abcdef'' ! nat n"

definition escape_byte :: "int \<Rightarrow> string" where
  "escape_byte b =
     (if b = 0x5C \<or> b = 0x22 then [CHR 0x5C, char_of b]
      else if b = 8 then [CHR 0x5C, CHR ''b'']
      else if b = 12 then [CHR 0x5C, CHR ''f'']
      else if b = 10 then [CHR 0x5C, CHR ''n'']
      else if b = 13 then [CHR 0x5C, CHR ''r'']
      else if b = 9 then [CHR 0x5C, CHR ''t'']
      else [CHR 0x5C, CHR ''u'', CHR ''0'', CHR ''0'', hex_digit (b div 16), hex_digit (b mod 16)])"

text \<open>The escaping loop; \<open>pending\<close> is the run since the last escape. An invalid byte gives \<^const>\<open>None\<close>.\<close>

function escape_loop :: "string \<Rightarrow> string \<Rightarrow> string \<Rightarrow> string option" where
  "escape_loop s pending dst =
     (if s = [] then Some (dst @ pending @ [CHR 0x22])
      else if byte (hd s) < 0x80 then
        (if \<not> must_escape (byte (hd s)) then escape_loop (tl s) (pending @ [hd s]) dst
         else escape_loop (tl s) [] (dst @ pending @ escape_byte (byte (hd s))))
      else case DecodeRune s of (r, sz) \<Rightarrow>
        if r = RuneError \<and> sz = 1 then None
        else if r = 0x2028 then escape_loop (drop sz s) [] (dst @ pending @ CHR 0x5C # ''u2028'')
        else if r = 0x2029 then escape_loop (drop sz s) [] (dst @ pending @ CHR 0x5C # ''u2029'')
        else escape_loop (drop sz s) (pending @ take sz s) dst)"
  by pat_completeness auto
termination
  by (relation "measure (length \<circ> fst)") (auto dest: DecodeRune_size [OF sym])

declare escape_loop.simps [simp del]

text \<open>The string encoder of \<^verbatim>\<open>encoding/json\<close>.\<close>

function marshal_body :: "string \<Rightarrow> string" where
  "marshal_body s =
     (if s = [] then []
      else if byte (hd s) < 0x80 then
        (if must_escape (byte (hd s)) then escape_byte (byte (hd s)) else [hd s]) @ marshal_body (tl s)
      else case DecodeRune s of (r, sz) \<Rightarrow>
        (if r = RuneError \<and> sz = 1 then CHR 0x5C # ''ufffd''
         else if r = 0x2028 then CHR 0x5C # ''u2028''
         else if r = 0x2029 then CHR 0x5C # ''u2029''
         else take sz s) @ marshal_body (drop sz s))"
  by pat_completeness auto
termination
  by (relation "measure length") (auto dest: DecodeRune_size [OF sym])

declare marshal_body.simps [simp del]

definition json_Marshal_string :: "string \<Rightarrow> string" where
  "json_Marshal_string s = CHR 0x22 # marshal_body s @ [CHR 0x22]"

definition appendJSONBytes :: "string \<Rightarrow> string \<Rightarrow> string" where
  "appendJSONBytes dst v =
     (if canAppendJSONRawString v then dst @ [CHR 0x22] @ v @ [CHR 0x22]
      else case escape_loop v [] (dst @ [CHR 0x22]) of
        Some out \<Rightarrow> out
      | None \<Rightarrow> dst @ json_Marshal_string v)"

section \<open>The word tests are exact\<close>

definition byte_at :: "nat \<Rightarrow> int \<Rightarrow> int" where "byte_at k v = v div 256 ^ k mod 256"

primrec lanes :: "nat \<Rightarrow> int" where
  "lanes 0 = 0"
| "lanes (Suc n) = 1 + 256 * lanes n"

lemma split_byte: "a AND b = (a mod 256 AND b mod 256) + 256 * (a div 256 AND b div 256)" for a b :: int
proof -
  have "take_bit 8 (a AND b) = take_bit 8 a AND take_bit 8 b" by simp
  moreover have "drop_bit 8 (a AND b) = drop_bit 8 a AND drop_bit 8 b" by simp
  moreover have "a AND b = 256 * drop_bit 8 (a AND b) + take_bit 8 (a AND b)"
    using bits_ident [of 8 "a AND b"] by (simp add: push_bit_eq_mult)
  ultimately show ?thesis by (simp add: take_bit_eq_mod drop_bit_eq_div)
qed

lemma byte_parts: "0 \<le> r \<Longrightarrow> r < 256 \<Longrightarrow> (r + 256 * q) mod 256 = r \<and> (r + 256 * q) div 256 = q" for r q :: int
  by simp

lemma not_byte: "(NOT a) mod 256 = 255 - a mod 256" "(NOT a) div 256 = NOT (a div 256)" for a :: int
proof -
  have "NOT a = (255 - a mod 256) + 256 * NOT (a div 256)"
    using mult_div_mod_eq [of 256 a] unfolding not_int_def by (simp add: algebra_simps)
  moreover have "0 \<le> 255 - a mod 256" "255 - a mod 256 < 256" using pos_mod_bound [of 256 a] pos_mod_sign [of 256 a] by auto
  ultimately show "(NOT a) mod 256 = 255 - a mod 256" "(NOT a) div 256 = NOT (a div 256)"
    using byte_parts [of "255 - a mod 256" "NOT (a div 256)"] by auto
qed

lemma and_byte: "(a AND b) mod 256 = a mod 256 AND b mod 256" "(a AND b) div 256 = a div 256 AND b div 256" for a b :: int
  using take_bit_and [of 8 a b] drop_bit_and [of 8 a b] by (simp_all add: take_bit_eq_mod drop_bit_eq_div)

lemma low_byte_test:
  "list_all (\<lambda>b. list_all (\<lambda>m. (((b - m) mod 256 AND (255 - b) AND 128) = 0) = (m \<le> b)) [1, 32 :: int]) (map int [0..<256])"
  by code_simp

lemma all_bytes: "list_all P (map int [0..<256]) \<Longrightarrow> 0 \<le> b \<Longrightarrow> b < 256 \<Longrightarrow> P b"
  unfolding list_all_iff set_map set_upt by (erule bspec) (rule image_eqI [of _ _ "nat b"]; simp)

lemma low_byte: "0 \<le> b \<Longrightarrow> b < 256 \<Longrightarrow> m \<in> {1, 32} \<Longrightarrow> (((b - m) mod 256 AND (255 - b) AND 128) = 0) = (m \<le> b)" for b m :: int
  using all_bytes [OF low_byte_test, of b] by auto

lemma has_less:
  assumes "m \<in> {1, 32}"
  shows "((v - m * lanes n) AND NOT v AND 128 * lanes n = 0) \<longleftrightarrow> (\<forall>k < n. m \<le> byte_at k v)"
proof (induction n arbitrary: v)
  case (Suc n)
  let ?b = "v mod 256" and ?u = "v div 256"
  let ?x = "v - m * lanes (Suc n)" and ?h = "128 * lanes (Suc n)"
  have b: "0 \<le> ?b" "?b < 256" by auto
  have m: "1 \<le> m" "m \<le> 32" using assms by auto
  have "?h = 128 + 256 * (128 * lanes n)" by simp
  then have h: "?h mod 256 = 128" "?h div 256 = 128 * lanes n" using byte_parts [of 128 "128 * lanes n"] by auto
  have x: "?x = (?b - m) + 256 * (?u - m * lanes n)" using mult_div_mod_eq [of 256 v] by (simp add: algebra_simps)
  have xm: "?x mod 256 = (?b - m) mod 256" unfolding x by (rule mod_mult_self2)
  have e: "?x AND NOT v AND ?h = ((?b - m) mod 256 AND (255 - ?b) AND 128) + 256 * (?x div 256 AND NOT ?u AND 128 * lanes n)"
    by (subst split_byte) (simp only: and_byte xm h not_byte)
  have nn: "0 \<le> (?b - m) mod 256 AND (255 - ?b) AND 128" by simp
  have bytes: "(\<forall>k < Suc n. m \<le> byte_at k v) \<longleftrightarrow> m \<le> ?b \<and> (\<forall>k < n. m \<le> byte_at k ?u)"
    by (simp add: All_less_Suc2 byte_at_def div_mult2_eq [symmetric] zdiv_zmult2_eq [symmetric])
  show ?case
  proof (cases "m \<le> ?b")
    case True
    then have z: "(?b - m) mod 256 AND (255 - ?b) AND 128 = 0" using low_byte [OF b assms] by simp
    have "?x div 256 = ?u - m * lanes n" unfolding x using byte_parts [of "?b - m" "?u - m * lanes n"] True b m by auto
    then show ?thesis unfolding e z bytes using Suc.IH [of ?u] True by simp
  next
    case False
    then have "(?b - m) mod 256 AND (255 - ?b) AND 128 \<noteq> 0" using low_byte [OF b assms] by simp
    moreover have "(?b - m) mod 256 AND (255 - ?b) AND 128 \<le> 128" by (simp add: and.assoc [symmetric] AND_upper2)
    ultimately have "?x AND NOT v AND ?h \<noteq> 0" unfolding e using nn by presburger
    then show ?thesis unfolding bytes using False by simp
  qed
qed simp

lemma lanes_8: "lanes 8 = 0x0101010101010101"
  by (simp add: eval_nat_numeral)

lemma swar_lanes: "uint swarLo = lanes 8" "uint swarHi = 128 * lanes 8"
  by (simp_all add: swarLo_def swarHi_def lanes_8)

lemma take_bit_and3: "take_bit n a AND take_bit n b AND take_bit n c = a AND b AND take_bit n c" for a b c :: int
  by (rule bit_eqI) (auto simp: bit_simps)

lemma word_has_less:
  assumes "m \<in> {1, 32}"
  shows "((w - of_int m * swarLo) AND NOT w AND swarHi = 0) \<longleftrightarrow> (\<forall>k < 8. m \<le> byte_at k (uint w))"
proof -
  have lo: "uint (of_int m * swarLo) = m * lanes 8"
    using assms by (auto simp: swarLo_def lanes_8)
  have hi: "take_bit 64 (128 * lanes 8) = 128 * lanes 8" by (simp add: lanes_8)
  have sub: "uint (w - of_int m * swarLo) = take_bit 64 (uint w - m * lanes 8)"
    by (simp add: uint_word_ariths(2) take_bit_eq_mod lo)
  have "uint ((w - of_int m * swarLo) AND NOT w AND swarHi) =
      take_bit 64 (uint w - m * lanes 8) AND take_bit 64 (NOT (uint w)) AND take_bit 64 (128 * lanes 8)"
    by (simp add: unsigned_and_eq unsigned_not_eq sub swar_lanes hi)
  then have "uint ((w - of_int m * swarLo) AND NOT w AND swarHi) = (uint w - m * lanes 8) AND NOT (uint w) AND 128 * lanes 8"
    using take_bit_and3 [of 64 "uint w - m * lanes 8" "NOT (uint w)" "128 * lanes 8"] unfolding hi by simp
  then show ?thesis using has_less [OF assms, of "uint w" 8] by (metis unsigned_eq_0_iff)
qed

lemma byte_at_bits: "byte_at k v = take_bit 8 (drop_bit (8 * k) v)"
  by (simp add: byte_at_def take_bit_eq_mod drop_bit_eq_div power_mult)

lemma byte_at_ops:
  "byte_at k (a AND b) = byte_at k a AND byte_at k b" "byte_at k (a XOR b) = byte_at k a XOR byte_at k b"
  by (simp_all add: byte_at_bits)

lemma byte_at_range: "0 \<le> byte_at k v" "byte_at k v < 256"
  by (simp_all add: byte_at_def)

lemma byte_at_lanes: "k < n \<Longrightarrow> 0 \<le> m \<Longrightarrow> m < 256 \<Longrightarrow> byte_at k (m * lanes n) = m"
proof (induction n arbitrary: k)
  case (Suc n)
  have e: "m * lanes (Suc n) = m + 256 * (m * lanes n)" by (simp add: algebra_simps)
  show ?case
  proof (cases k)
    case 0
    then show ?thesis unfolding e byte_at_def using byte_parts [of m "m * lanes n"] Suc.prems by simp
  next
    case (Suc j)
    have "byte_at k (m * lanes (Suc n)) = byte_at j ((m + 256 * (m * lanes n)) div 256)"
      unfolding e byte_at_def by (simp add: Suc zdiv_zmult2_eq)
    then show ?thesis using byte_parts [of m "m * lanes n"] Suc.IH [of j] Suc.prems Suc by simp
  qed
qed simp

lemma all_bytes_zero: "0 \<le> v \<Longrightarrow> v < 256 ^ n \<Longrightarrow> v = 0 \<longleftrightarrow> (\<forall>k < n. byte_at k v = 0)"
proof (induction n arbitrary: v)
  case (Suc n)
  have "v div 256 < 256 ^ n" using Suc.prems by (simp add: int_div_less_self div_less_iff_less_mult algebra_simps)
  then have "v div 256 = 0 \<longleftrightarrow> (\<forall>k < n. byte_at k (v div 256) = 0)" using Suc.IH [of "v div 256"] Suc.prems by simp
  moreover have "byte_at (Suc k) v = byte_at k (v div 256)" for k by (simp add: byte_at_def zdiv_zmult2_eq)
  moreover have "v = 0 \<longleftrightarrow> v mod 256 = 0 \<and> v div 256 = 0" using mult_div_mod_eq [of 256 v] by auto
  ultimately show ?case by (simp add: All_less_Suc2 byte_at_def)
qed simp

lemma word_zero_bytes: "w = 0 \<longleftrightarrow> (\<forall>k < 8. byte_at k (uint w) = 0)" for w :: "64 word"
proof -
  have "uint w < 256 ^ 8" using uint_lt2p [of w] by simp
  then show ?thesis using all_bytes_zero [of "uint w" 8] by (simp add: unsigned_eq_0_iff)
qed

definition clean_byte :: "int \<Rightarrow> bool" where
  "clean_byte b \<longleftrightarrow> b < 0x80 \<and> \<not> must_escape b"

lemma byte_tests:
  "list_all (\<lambda>b. ((b AND 128) = 0) = (b < 128) \<and> (1 \<le> ((b AND 0xFB) XOR 0x22)) = (b \<noteq> 0x22 \<and> b \<noteq> 0x26) \<and>
     (1 \<le> ((b AND 0xFD) XOR 0x3C)) = (b \<noteq> 0x3C \<and> b \<noteq> 0x3E) \<and> (1 \<le> (b XOR 0x5C)) = (b \<noteq> 0x5C)) (map int [0..<256])"
  by code_simp

lemmas byte_test = all_bytes [OF byte_tests]

lemma swarHasZero_bytes: "swarHasZero v = 0 \<longleftrightarrow> (\<forall>k < 8. 1 \<le> byte_at k (uint v))"
  using word_has_less [of 1 v] by (simp add: swarHasZero_def)

lemma swar_constants:
  "uint swarQuoteAmpMask = 0xFB * lanes 8" "uint swarQuoteAmpValue = 0x22 * lanes 8"
  "uint swarAngleMask = 0xFD * lanes 8" "uint swarAngleValue = 0x3C * lanes 8" "uint (0x5C * swarLo) = 0x5C * lanes 8"
  by (simp_all add: swarQuoteAmpMask_def swarQuoteAmpValue_def swarAngleMask_def swarAngleValue_def swarLo_def lanes_8)

lemma jsonRawChunkClean_bytes: "jsonRawChunkClean w \<longleftrightarrow> (\<forall>k < 8. clean_byte (byte_at k (uint w)))"
proof -
  let ?b = "\<lambda>k. byte_at k (uint w)"
  have hi: "w AND swarHi = 0 \<longleftrightarrow> (\<forall>k < 8. ?b k < 128)"
    unfolding word_zero_bytes by (simp add: unsigned_and_eq swar_lanes byte_at_ops byte_at_lanes byte_test byte_at_range)
  have less: "(w - swarLo * 0x20) AND NOT w AND swarHi = 0 \<longleftrightarrow> (\<forall>k < 8. 32 \<le> ?b k)"
    using word_has_less [of 32 w] by (simp add: mult.commute)
  have q: "swarHasMaskedByte w swarQuoteAmpMask swarQuoteAmpValue = 0 \<longleftrightarrow> (\<forall>k < 8. ?b k \<noteq> 0x22 \<and> ?b k \<noteq> 0x26)"
    unfolding swarHasMaskedByte_def swarHasZero_bytes
    by (simp add: unsigned_and_eq unsigned_xor_eq swar_constants byte_at_ops byte_at_lanes byte_test byte_at_range)
  have a: "swarHasMaskedByte w swarAngleMask swarAngleValue = 0 \<longleftrightarrow> (\<forall>k < 8. ?b k \<noteq> 0x3C \<and> ?b k \<noteq> 0x3E)"
    unfolding swarHasMaskedByte_def swarHasZero_bytes
    by (simp add: unsigned_and_eq unsigned_xor_eq swar_constants byte_at_ops byte_at_lanes byte_test byte_at_range)
  have c: "swarHasByte w 0x5C = 0 \<longleftrightarrow> (\<forall>k < 8. ?b k \<noteq> 0x5C)"
    unfolding swarHasByte_def swarHasZero_bytes
    by (simp add: unsigned_xor_eq swar_constants byte_at_ops byte_at_lanes byte_test byte_at_range)
  have or0: "x OR y = 0 \<longleftrightarrow> x = 0 \<and> y = 0" for x y :: "64 word" by (simp add: or_eq_0_iff)
  show ?thesis unfolding jsonRawChunkClean_def or0
    by (auto simp: hi less q a c clean_byte_def must_escape_def)
qed


section \<open>The encoder is the library's encoder\<close>

lemma byte_range: "0 \<le> byte c" "byte c < 256"
proof -
  have "byte c mod 256 = byte c" by (rule of_char_mod_256)
  then show "0 \<le> byte c" "byte c < 256" using pos_mod_sign [of 256 "byte c"] pos_mod_bound [of 256 "byte c"] by simp_all
qed

lemma le_value_bound: "0 \<le> le_value s \<and> le_value s < 256 ^ length s"
proof (induction s)
  case (Cons c s)
  then show ?case using byte_range [of c] by simp
qed simp

lemma byte_at_le_value: "k < length s \<Longrightarrow> byte_at k (le_value s) = byte (s ! k)"
proof (induction s arbitrary: k)
  case (Cons c s)
  have p: "(byte c + 256 * le_value s) mod 256 = byte c" "(byte c + 256 * le_value s) div 256 = le_value s"
    using byte_parts [of "byte c" "le_value s"] byte_range [of c] by auto
  show ?case
  proof (cases k)
    case 0
    then show ?thesis using p by (simp add: byte_at_def)
  next
    case (Suc j)
    then show ?thesis using Cons p by (simp add: byte_at_def zdiv_zmult2_eq)
  qed
qed simp

lemma load8LE_bytes: "8 \<le> length s \<Longrightarrow> k < 8 \<Longrightarrow> byte_at k (uint (load8LE s)) = byte (s ! k)"
proof -
  assume l: "8 \<le> length s" and k: "k < 8"
  have "le_value (take 8 s) < 256 ^ 8" using le_value_bound [of "take 8 s"] l by (metis length_take min.absorb2)
  then have "uint (load8LE s) = le_value (take 8 s)"
    using le_value_bound [of "take 8 s"] unfolding load8LE_def by (intro uint_word_of_int_eq [THEN trans]) (simp add: take_bit_int_eq_self)
  then show ?thesis using byte_at_le_value [of k "take 8 s"] l k by simp
qed

lemma wide_window_clean: "8 \<le> length s \<Longrightarrow> jsonRawChunkClean (load8LE s) \<longleftrightarrow> list_all (\<lambda>c. clean_byte (byte c)) (take 8 s)"
  by (simp add: jsonRawChunkClean_bytes load8LE_bytes list_all_length)

text \<open>The scanner without its wide step.\<close>

function scalarRaw :: "string \<Rightarrow> bool" where
  "scalarRaw s =
     (if s = [] then True
      else if byte (hd s) < 0x80 then \<not> must_escape (byte (hd s)) \<and> scalarRaw (tl s)
      else case DecodeRune s of (r, sz) \<Rightarrow>
        \<not> (r = RuneError \<and> sz = 1) \<and> r \<noteq> 0x2028 \<and> r \<noteq> 0x2029 \<and> scalarRaw (drop sz s))"
  by pat_completeness auto
termination
  by (relation "measure length") (auto dest: DecodeRune_size [OF sym])

declare scalarRaw.simps [simp del]

lemma scalarRaw_clean: "clean_byte (byte c) \<Longrightarrow> scalarRaw (c # s) = scalarRaw s"
  by (subst scalarRaw.simps) (simp add: clean_byte_def)

lemma scalarRaw_skip: "list_all (\<lambda>c. clean_byte (byte c)) p \<Longrightarrow> scalarRaw (p @ s) = scalarRaw s"
  by (induction p) (simp_all add: scalarRaw_clean)

lemma canAppendJSONRawString_scalar: "canAppendJSONRawString s = scalarRaw s"
proof (induction s rule: canAppendJSONRawString.induct)
  case (1 s)
  consider "s = []" | "s \<noteq> []" "byte (hd s) < 0x80 \<and> 8 \<le> length s \<and> jsonRawChunkClean (load8LE s)"
    | "s \<noteq> []" "\<not> (byte (hd s) < 0x80 \<and> 8 \<le> length s \<and> jsonRawChunkClean (load8LE s))" "byte (hd s) < 0x80"
    | "s \<noteq> []" "\<not> byte (hd s) < 0x80" by blast
  then show ?case
  proof cases
    case 1
    then show ?thesis by (simp add: canAppendJSONRawString.simps scalarRaw.simps)
  next
    case 2
    then have "canAppendJSONRawString s = scalarRaw (drop 8 s)"
      using "1.IH"(1) by (simp add: canAppendJSONRawString.simps [of s])
    also have "\<dots> = scalarRaw s"
      using 2 scalarRaw_skip [of "take 8 s" "drop 8 s"] wide_window_clean [of s] by simp
    finally show ?thesis .
  next
    case 3
    then show ?thesis using "1.IH"(2) by (auto simp: canAppendJSONRawString.simps [of s] scalarRaw.simps [of s])
  next
    case 4
    then show ?thesis
      using "1.IH"(3) by (auto simp: canAppendJSONRawString.simps [of s] scalarRaw.simps [of s] split: prod.splits)
  qed
qed

lemma marshal_raw: "scalarRaw s \<Longrightarrow> marshal_body s = s"
proof (induction s rule: scalarRaw.induct)
  case (1 s)
  show ?case
  proof (cases "s = [] \<or> byte (hd s) < 0x80")
    case True
    then show ?thesis using 1 by (auto simp: scalarRaw.simps [of s] marshal_body.simps [of s])
  next
    case False
    then show ?thesis using 1 by (auto simp: scalarRaw.simps [of s] marshal_body.simps [of s] split: prod.splits)
  qed
qed

lemma escape_loop_marshal: "escape_loop s pending dst = Some out \<Longrightarrow> out = dst @ pending @ marshal_body s @ [CHR 0x22]"
proof (induction s pending dst rule: escape_loop.induct)
  case (1 s pending dst)
  show ?case
  proof (cases "s = [] \<or> byte (hd s) < 0x80")
    case True
    then show ?thesis using 1 by (auto simp: escape_loop.simps [of s] marshal_body.simps [of s] split: if_splits)
  next
    case False
    obtain r sz where d: "DecodeRune s = (r, sz)" by fastforce
    then show ?thesis using 1 False by (auto simp: escape_loop.simps [of s] marshal_body.simps [of s] split: if_splits)
  qed
qed

text \<open>Property C39: \<open>appendJSONBytes\<close>, with its eight-byte scanner, its escaping loop and its hand-over of invalid
  UTF-8, appends exactly the literal \<^verbatim>\<open>encoding/json\<close> produces for every byte string.\<close>

theorem appendJSONBytes_is_json: "appendJSONBytes dst v = dst @ json_Marshal_string v"
proof (cases "canAppendJSONRawString v")
  case True
  then show ?thesis
    by (simp add: appendJSONBytes_def json_Marshal_string_def canAppendJSONRawString_scalar marshal_raw)
next
  case False
  then show ?thesis
    using escape_loop_marshal [of v "[]" "dst @ [CHR 0x22]"]
    by (auto simp: appendJSONBytes_def json_Marshal_string_def split: option.splits)
qed


end
