(* ===== verification/Sse_Wire.thy ===== *)
theory Sse_Wire
  imports Sse_Frame
begin

text \<open>
  The payload of every event the relay writes (\<^verbatim>\<open>src/internal/handler/sse_frame.go\<close>), the framing of a
  payload (\<^verbatim>\<open>writeSSEFrameBytes\<close>, \<^verbatim>\<open>writeOpenAIFrame\<close> of \<^verbatim>\<open>stream_handler.go\<close>) and the two readers of the
  receiving side the writer is proved against: one for JSON string literals, one for event streams.
\<close>

section \<open>Literals read back\<close>

text \<open>A JSON string reader, as the receiving side runs it: the opening quote is consumed by the caller.\<close>

definition hex_value :: "char \<Rightarrow> int option" where
  "hex_value c =
     (let b = byte c in
      if 48 \<le> b \<and> b \<le> 57 then Some (b - 48)
      else if 97 \<le> b \<and> b \<le> 102 then Some (b - 87)
      else if 65 \<le> b \<and> b \<le> 70 then Some (b - 55) else None)"

definition hex4 :: "string \<Rightarrow> int option" where
  "hex4 s = (case map hex_value s of
     [Some a, Some b, Some c, Some d] \<Rightarrow> Some (((a * 16 + b) * 16 + c) * 16 + d)
   | _ \<Rightarrow> None)"

definition EncodeRune :: "int \<Rightarrow> string" where
  "EncodeRune r =
     (if r < 0x80 then [char_of r]
      else if r < 0x800 then [char_of (0xC0 + r div 64), char_of (0x80 + r mod 64)]
      else if r < 0x10000 then [char_of (0xE0 + r div 4096), char_of (0x80 + r div 64 mod 64), char_of (0x80 + r mod 64)]
      else [char_of (0xF0 + r div 262144), char_of (0x80 + r div 4096 mod 64), char_of (0x80 + r div 64 mod 64), char_of (0x80 + r mod 64)])"

definition unescape1 :: "char \<Rightarrow> string option" where
  "unescape1 c =
     (if c = CHR 0x22 \<or> c = CHR 0x5C \<or> c = CHR 0x2F then Some [c]
      else if c = CHR ''b'' then Some [CHR 0x08]
      else if c = CHR ''f'' then Some [CHR 0x0C]
      else if c = CHR ''n'' then Some [CHR 0x0A]
      else if c = CHR ''r'' then Some [CHR 0x0D]
      else if c = CHR ''t'' then Some [CHR 0x09] else None)"

definition replacement :: string where "replacement = EncodeRune 0xFFFD"

text \<open>The pair of surrogates a \<^verbatim>\<open>\u\<close> escape may start: the rune and the text behind both escapes.\<close>

definition surrogate_pair :: "int \<Rightarrow> string \<Rightarrow> (int \<times> string) option" where
  "surrogate_pair r rest =
     (if 0xD800 \<le> r \<and> r < 0xDC00 \<and> take 2 rest = [CHR 0x5C, CHR ''u''] then
        (case hex4 (take 4 (drop 2 rest)) of None \<Rightarrow> None
         | Some r2 \<Rightarrow> if 0xDC00 \<le> r2 \<and> r2 < 0xE000
             then Some ((r - 0xD800) * 1024 + (r2 - 0xDC00) + 0x10000, drop 6 rest) else None)
      else None)"

function scan_str :: "string \<Rightarrow> (string \<times> string) option" where
  "scan_str s = (case s of
     [] \<Rightarrow> None
   | c # cs \<Rightarrow>
     if c = CHR 0x22 then Some ([], cs)
     else if byte c < 0x20 then None
     else if c = CHR 0x5C then
       (case cs of
          [] \<Rightarrow> None
        | e # es \<Rightarrow>
          if e = CHR ''u'' then
            (case hex4 (take 4 es) of None \<Rightarrow> None
             | Some r \<Rightarrow>
               if 0xD800 \<le> r \<and> r < 0xE000 then
                 (case surrogate_pair r (drop 4 es) of
                    Some (p, rest) \<Rightarrow> map_option (apfst ((@) (EncodeRune p))) (scan_str (drop 10 es))
                  | None \<Rightarrow> map_option (apfst ((@) replacement)) (scan_str (drop 4 es)))
               else map_option (apfst ((@) (EncodeRune r))) (scan_str (drop 4 es)))
          else (case unescape1 e of None \<Rightarrow> None | Some d \<Rightarrow> map_option (apfst ((@) d)) (scan_str es)))
     else if byte c < 0x80 then map_option (apfst ((#) c)) (scan_str cs)
     else case DecodeRune s of (r, sz) \<Rightarrow>
       if r = RuneError \<and> sz = 1 then map_option (apfst ((@) replacement)) (scan_str cs)
       else map_option (apfst ((@) (take sz s))) (scan_str (drop sz s)))"
  by pat_completeness auto
termination
  by (relation "measure length") (auto dest: DecodeRune_size [OF sym])

declare scan_str.simps [simp del]

function valid_utf8 :: "string \<Rightarrow> bool" where
  "valid_utf8 s =
     (if s = [] then True
      else case DecodeRune s of (r, sz) \<Rightarrow> \<not> (r = RuneError \<and> sz = 1) \<and> valid_utf8 (drop sz s))"
  by pat_completeness auto
termination
  by (relation "measure length") (auto dest: DecodeRune_size [OF sym])

declare valid_utf8.simps [simp del]

lemma DecodeRune_ascii: "s \<noteq> [] \<Longrightarrow> byte (hd s) < 0x80 \<Longrightarrow> DecodeRune s = (byte (hd s), 1)"
  by (cases s) (simp_all add: DecodeRune_def)

lemma valid_utf8_ascii: "s \<noteq> [] \<Longrightarrow> byte (hd s) < 0x80 \<Longrightarrow> valid_utf8 s = valid_utf8 (tl s)"
  by (subst valid_utf8.simps) (simp add: DecodeRune_ascii RuneError_def drop_Suc)

text \<open>Every byte of a multi-byte rune is above the ASCII range.\<close>

lemma DecodeRune_bytes:
  assumes "DecodeRune s = (r, sz)" "s \<noteq> []" "\<not> byte (hd s) < 0x80"
  shows "sz \<le> length s" "k < sz \<Longrightarrow> 0x80 \<le> byte (s ! k)"
proof -
  obtain c cs where s: "s = c # cs" using assms(2) by (cases s) auto
  have sz: "sz \<in> {1, 2, 3, 4}"
    using assms(1) by (auto simp: s DecodeRune_def Let_def split: if_splits)
  have t1: "2 \<le> sz \<Longrightarrow> 1 < length s \<and> 0x80 \<le> byte (s ! 1)"
    and t2: "3 \<le> sz \<Longrightarrow> 2 < length s \<and> 0x80 \<le> byte (s ! 2)"
    and t3: "4 \<le> sz \<Longrightarrow> 3 < length s \<and> 0x80 \<le> byte (s ! 3)"
    using assms(1) unfolding s DecodeRune_def by (auto simp: Let_def cont_def split: if_splits)
  show "sz \<le> length s" using sz t1 t2 t3 s by (auto simp: Suc_le_eq numeral_eq_Suc)
  show "0x80 \<le> byte (s ! k)" if "k < sz"
  proof -
    have "k = 0 \<or> k = 1 \<and> 2 \<le> sz \<or> k = 2 \<and> 3 \<le> sz \<or> k = 3 \<and> 4 \<le> sz" using that sz by auto
    then show ?thesis using t1 t2 t3 assms(3) s by auto
  qed
qed

lemma DecodeRune_nth:
  "s \<noteq> [] \<Longrightarrow> DecodeRune s =
    (let b0 = byte (s ! 0); b = (\<lambda>k. byte (s ! k) mod 64); tail = cont 0x80 0xBF s in
     if b0 < 0x80 then (b0, 1)
     else if 0xC2 \<le> b0 \<and> b0 \<le> 0xDF then (if tail 1 then ((b0 - 0xC0) * 64 + b 1, 2) else (RuneError, 1))
     else if 0xE0 \<le> b0 \<and> b0 \<le> 0xEF then
       (if cont (if b0 = 0xE0 then 0xA0 else 0x80) (if b0 = 0xED then 0x9F else 0xBF) s 1 \<and> tail 2
        then ((b0 - 0xE0) * 4096 + b 1 * 64 + b 2, 3) else (RuneError, 1))
     else if 0xF0 \<le> b0 \<and> b0 \<le> 0xF4 then
       (if cont (if b0 = 0xF0 then 0x90 else 0x80) (if b0 = 0xF4 then 0x8F else 0xBF) s 1 \<and> tail 2 \<and> tail 3
        then ((b0 - 0xF0) * 262144 + b 1 * 4096 + b 2 * 64 + b 3, 4) else (RuneError, 1))
     else (RuneError, 1))"
  by (cases s) (simp_all add: DecodeRune_def Let_def)

lemma cont_take: "cont lo hi s k \<Longrightarrow> k < n \<Longrightarrow> cont lo hi (take n s @ t) k \<and> (take n s @ t) ! k = s ! k"
  by (auto simp: cont_def nth_append)

text \<open>A rune is decoded from its own bytes, whatever follows them.\<close>

lemma DecodeRune_take:
  assumes "DecodeRune s = (r, sz)" "\<not> (r = RuneError \<and> sz = 1)" "s \<noteq> []"
  shows "DecodeRune (take sz s @ t) = (r, sz)"
proof -
  let ?b = "byte (s ! 0)" and ?u = "take sz s @ t"
  have sz: "0 < sz" using DecodeRune_size [OF assms(1,3)] .
  have z: "?u ! 0 = s ! 0" using assms(3) sz by (cases s; cases sz) simp_all
  have st: "?u \<noteq> []" using assms(3) sz by simp
  consider "?b < 0x80" | "0xC2 \<le> ?b \<and> ?b \<le> 0xDF" | "0xE0 \<le> ?b \<and> ?b \<le> 0xEF" | "0xF0 \<le> ?b \<and> ?b \<le> 0xF4"
    | "\<not> ?b < 0x80" "\<not> (0xC2 \<le> ?b \<and> ?b \<le> 0xDF)" "\<not> (0xE0 \<le> ?b \<and> ?b \<le> 0xEF)" "\<not> (0xF0 \<le> ?b \<and> ?b \<le> 0xF4)" by blast
  then show ?thesis
  proof cases
    case 1
    then show ?thesis using assms by (simp add: DecodeRune_nth st z Let_def)
  next
    case 2
    then have k: "cont 0x80 0xBF s 1" "sz = 2" using assms by (simp_all add: DecodeRune_nth Let_def split: if_splits)
    show ?thesis using assms 2 k cont_take [OF k(1), of sz t] st z by (simp add: DecodeRune_nth Let_def)
  next
    case 3
    then have k: "cont (if ?b = 0xE0 then 0xA0 else 0x80) (if ?b = 0xED then 0x9F else 0xBF) s 1" "cont 0x80 0xBF s 2" "sz = 3"
      using assms by (simp_all add: DecodeRune_nth Let_def split: if_splits)
    show ?thesis using assms 3 k cont_take [OF k(1), of sz t] cont_take [OF k(2), of sz t] st z by (simp add: DecodeRune_nth Let_def)
  next
    case 4
    then have k: "cont (if ?b = 0xF0 then 0x90 else 0x80) (if ?b = 0xF4 then 0x8F else 0xBF) s 1" "cont 0x80 0xBF s 2" "cont 0x80 0xBF s 3" "sz = 4"
      using assms by (simp_all add: DecodeRune_nth Let_def split: if_splits)
    show ?thesis
      using assms 4 k cont_take [OF k(1), of sz t] cont_take [OF k(2), of sz t] cont_take [OF k(3), of sz t] st z
      by (simp add: DecodeRune_nth Let_def)
  next
    case 5
    have "DecodeRune s = (RuneError, 1)"
      unfolding DecodeRune_nth [OF assms(3)] Let_def by (simp only: 5 if_False)
    then show ?thesis using assms by simp
  qed
qed

lemma DecodeRune_append:
  assumes "DecodeRune s = (r, sz)" "\<not> (r = RuneError \<and> sz = 1)" "s \<noteq> []"
  shows "DecodeRune (s @ t) = (r, sz)"
  using DecodeRune_take [OF assms, of "drop sz s @ t"] by (metis append.assoc append_take_drop_id)

lemma scan_rune:
  assumes "DecodeRune s = (r, sz)" "\<not> (r = RuneError \<and> sz = 1)" "s \<noteq> []" "\<not> byte (hd s) < 0x80"
  shows "scan_str (take sz s @ t) = map_option (apfst ((@) (take sz s))) (scan_str t)"
proof -
  have sz: "0 < sz" "sz \<le> length s" using DecodeRune_size [OF assms(1,3)] DecodeRune_bytes(1) [OF assms(1,3,4)] by auto
  obtain c cs where u: "take sz s = c # cs" "c = hd s" using sz assms(3) by (cases s; cases sz) auto
  have n: "c \<noteq> CHR 0x22" "c \<noteq> CHR 0x5C" "\<not> byte c < 0x20" "\<not> byte c < 0x80" using assms(4) u by auto
  have d: "DecodeRune (c # cs @ t) = (r, sz)" using DecodeRune_take [OF assms(1-3), of t] u by simp
  have k: "take sz (c # cs @ t) = take sz s" "drop sz (c # cs @ t) = t"
    using u(1) sz by (metis append_Cons append_eq_conv_conj length_take min.absorb2)+
  have "scan_str (c # cs @ t) = map_option (apfst ((@) (take sz s))) (scan_str t)"
    by (subst scan_str.simps) (use n d k assms(2) in auto)
  then show ?thesis using u(1) by simp
qed

lemma scan_clean: "clean_byte (byte c) \<Longrightarrow> scan_str (c # t) = map_option (apfst ((#) c)) (scan_str t)"
  by (subst scan_str.simps) (auto simp: clean_byte_def must_escape_def)

lemma scan_pair:
  "e \<noteq> CHR ''u'' \<Longrightarrow> unescape1 e = Some d \<Longrightarrow> scan_str (CHR 0x5C # e # t) = map_option (apfst ((@) d)) (scan_str t)"
  by (subst scan_str.simps) simp

lemma scan_hex:
  "length h = 4 \<Longrightarrow> hex4 h = Some r \<Longrightarrow> r < 0xD800 \<or> 0xE000 \<le> r \<Longrightarrow>
    scan_str (CHR 0x5C # CHR ''u'' # h @ t) = map_option (apfst ((@) (EncodeRune r))) (scan_str t)"
  by (subst scan_str.simps) auto

lemma hex_table:
  "list_all (\<lambda>b. hex4 [CHR ''0'', CHR ''0'', hex_digit (b div 16), hex_digit (b mod 16)] = Some b) (map int [0..<256])"
  by code_simp

lemmas hex_back = all_bytes [OF hex_table]

lemma byte_char: "byte c = b \<Longrightarrow> c = char_of b"
  by auto

lemma scan_escape_byte:
  assumes "must_escape (byte c)" "byte c < 0x80"
  shows "scan_str (escape_byte (byte c) @ t) = map_option (apfst ((#) c)) (scan_str t)"
proof -
  have h: "scan_str (CHR 0x5C # CHR ''u'' # [CHR ''0'', CHR ''0'', hex_digit (byte c div 16), hex_digit (byte c mod 16)] @ t)
      = map_option (apfst ((@) (EncodeRune (byte c)))) (scan_str t)"
    by (rule scan_hex) (use assms in \<open>simp_all add: hex_back byte_range\<close>)
  have e: "EncodeRune (byte c) = [c]" using assms(2) by (simp add: EncodeRune_def)
  have one: "(@) [c] = (#) c" for c :: char by auto
  consider "byte c = 0x5C" | "byte c = 0x22" | "byte c \<in> {8, 12, 10, 13, 9}" | "byte c \<notin> {0x5C, 0x22, 8, 12, 10, 13, 9}" by blast
  then show ?thesis
  proof cases
    case 1
    then have "c = CHR 0x5C" by (auto dest: byte_char simp: char_of_def)
    then show ?thesis by (simp add: escape_byte_def unescape1_def scan_pair char_of_def one)
  next
    case 2
    then have "c = CHR 0x22" by (auto dest: byte_char simp: char_of_def)
    then show ?thesis by (simp add: escape_byte_def unescape1_def scan_pair char_of_def one)
  next
    case 3
    then show ?thesis by (auto dest!: byte_char simp: escape_byte_def unescape1_def scan_pair char_of_def one)
  next
    case 4
    then show ?thesis using h e by (auto simp: escape_byte_def one)
  qed
qed

lemma continuation: "0x80 \<le> x \<Longrightarrow> x \<le> 0xBF \<Longrightarrow> x mod 64 = x - 0x80" for x :: int
proof -
  assume x: "0x80 \<le> x" "x \<le> 0xBF"
  have "x mod 64 = (x - 0x80 + 64 * 2) mod 64" by simp
  also have "\<dots> = (x - 0x80) mod 64" by (rule mod_mult_self2)
  also have "\<dots> = x - 0x80" using x by simp
  finally show ?thesis .
qed

lemma DecodeRune_three:
  assumes "DecodeRune s = (r, sz)" "s \<noteq> []" "\<not> byte (hd s) < 0x80" "0x800 \<le> r" "r < 0xFFFD"
  shows "sz = 3 \<and> 2 < length s \<and> 0xE0 \<le> byte (s ! 0) \<and> cont 0x80 0xBF s 1 \<and> cont 0x80 0xBF s 2 \<and>
     r = (byte (s ! 0) - 0xE0) * 4096 + (byte (s ! 1) - 0x80) * 64 + (byte (s ! 2) - 0x80)"
proof -
  let ?b = "\<lambda>k. byte (s ! k)"
  obtain c cs where s: "s = c # cs" using assms(2) by (cases s) auto
  have b0: "byte c = ?b 0" by (simp add: s)
  have d: "DecodeRune s = (if 0xC2 \<le> ?b 0 \<and> ?b 0 \<le> 0xDF then (if cont 0x80 0xBF s 1 then ((?b 0 - 0xC0) * 64 + ?b 1 mod 64, 2) else (RuneError, 1))
     else if 0xE0 \<le> ?b 0 \<and> ?b 0 \<le> 0xEF then
       (if cont (if ?b 0 = 0xE0 then 0xA0 else 0x80) (if ?b 0 = 0xED then 0x9F else 0xBF) s 1 \<and> cont 0x80 0xBF s 2
        then ((?b 0 - 0xE0) * 4096 + ?b 1 mod 64 * 64 + ?b 2 mod 64, 3) else (RuneError, 1))
     else if 0xF0 \<le> ?b 0 \<and> ?b 0 \<le> 0xF4 then
       (if cont (if ?b 0 = 0xF0 then 0x90 else 0x80) (if ?b 0 = 0xF4 then 0x8F else 0xBF) s 1 \<and> cont 0x80 0xBF s 2 \<and> cont 0x80 0xBF s 3
        then ((?b 0 - 0xF0) * 262144 + ?b 1 mod 64 * 4096 + ?b 2 mod 64 * 64 + ?b 3 mod 64, 4) else (RuneError, 1))
     else (RuneError, 1))"
    using assms(3) unfolding DecodeRune_def by (simp add: s Let_def)
  have m: "?b k mod 64 = ?b k - 0x80" if "cont lo hi s k" "0x80 \<le> lo" "hi \<le> 0xBF" for k lo hi
    using that continuation [of "?b k"] by (simp add: cont_def)
  have ne: "r \<noteq> RuneError" using assms(5) by (simp add: RuneError_def)
  have m1: "cont 0x80 0xBF s 1 \<Longrightarrow> ?b 1 mod 64 = ?b 1 - 0x80" by (rule m) auto
  have no2: "\<not> (0xC2 \<le> ?b 0 \<and> ?b 0 \<le> 0xDF)"
    using assms(1,4) ne d m1 by (auto simp: cont_def split: if_splits)
  have no4: "\<not> (0xF0 \<le> ?b 0 \<and> ?b 0 \<le> 0xF4)"
  proof
    assume f: "0xF0 \<le> ?b 0 \<and> ?b 0 \<le> 0xF4"
    then have c4: "cont (if ?b 0 = 0xF0 then 0x90 else 0x80) (if ?b 0 = 0xF4 then 0x8F else 0xBF) s 1" "cont 0x80 0xBF s 2" "cont 0x80 0xBF s 3"
      and r: "r = (?b 0 - 0xF0) * 262144 + ?b 1 mod 64 * 4096 + ?b 2 mod 64 * 64 + ?b 3 mod 64"
      using assms(1) ne d by (auto split: if_splits)
    have "?b 1 mod 64 = ?b 1 - 0x80" by (rule m [OF c4(1)]) auto
    then have "0x10000 \<le> r"
      using f c4 r m [OF c4(2)] m [OF c4(3)] by (auto simp: cont_def split: if_splits)
    then show False using assms(5) by simp
  qed
  have c3: "0xE0 \<le> ?b 0" "cont (if ?b 0 = 0xE0 then 0xA0 else 0x80) (if ?b 0 = 0xED then 0x9F else 0xBF) s 1" "cont 0x80 0xBF s 2"
      "r = (?b 0 - 0xE0) * 4096 + ?b 1 mod 64 * 64 + ?b 2 mod 64" "sz = 3"
    using assms(1) ne no2 no4 d by (auto split: if_splits)
  then show ?thesis using m [OF c3(2)] m [OF c3(3)] by (auto simp: cont_def split: if_splits)
qed

lemma DecodeRune_separator:
  assumes "DecodeRune s = (r, sz)" "s \<noteq> []" "\<not> byte (hd s) < 0x80" "r \<in> {0x2028, 0x2029}"
  shows "take sz s = EncodeRune r"
proof -
  have "0x800 \<le> r" "r < 0xFFFD" using assms(4) by auto
  note t = DecodeRune_three [OF assms(1-3) this]
  have b: "0x80 \<le> byte (s ! 1)" "byte (s ! 1) \<le> 0xBF" "0x80 \<le> byte (s ! 2)" "byte (s ! 2) \<le> 0xBF"
    and r: "r = (byte (s ! 0) - 0xE0) * 4096 + (byte (s ! 1) - 0x80) * 64 + (byte (s ! 2) - 0x80)"
    using t by (auto simp: cont_def)
  have b0: "byte (s ! 0) = 0xE2" using r b assms(4) by auto
  have b1: "byte (s ! 1) = 0x80" using r b assms(4) unfolding b0 by auto
  have sz: "sz = 3" "2 < length s" "byte (s ! 0) = 0xE2" "byte (s ! 1) = 0x80" "byte (s ! 2) = r - 0x2028 + 0xA8"
    using t b0 b1 r by auto
  have "take 3 s = [s ! 0, s ! 1, s ! 2]"
    using sz(2) by (intro nth_equalityI) (auto simp: less_Suc_eq numeral_eq_Suc nth_Cons')
  then show ?thesis
    using sz(1) assms(4) byte_char [OF sz(3)] byte_char [OF sz(4)] byte_char [OF sz(5)] by (auto simp: EncodeRune_def)
qed


text \<open>What a reader recovers: the string with every invalid byte replaced by U+FFFD.\<close>

function sanitized :: "string \<Rightarrow> string" where
  "sanitized s =
     (if s = [] then []
      else case DecodeRune s of (r, sz) \<Rightarrow>
        (if r = RuneError \<and> sz = 1 then replacement else take sz s) @ sanitized (drop sz s))"
  by pat_completeness auto
termination
  by (relation "measure length") (auto dest: DecodeRune_size [OF sym])

declare sanitized.simps [simp del]

lemma sanitized_valid: "valid_utf8 s \<Longrightarrow> sanitized s = s"
proof (induction s rule: valid_utf8.induct)
  case (1 s)
  show ?case
  proof (cases "s = []")
    case False
    then show ?thesis using 1 by (auto simp: sanitized.simps [of s] valid_utf8.simps [of s] split: prod.splits)
  qed (simp add: sanitized.simps)
qed

lemma sanitized_ascii: "s \<noteq> [] \<Longrightarrow> byte (hd s) < 0x80 \<Longrightarrow> sanitized s = hd s # sanitized (tl s)"
  by (subst sanitized.simps) (cases s; simp add: DecodeRune_ascii RuneError_def)

lemma scan_marshal: "scan_str (marshal_body s @ CHR 0x22 # t) = Some (sanitized s, t)"
proof (induction s rule: marshal_body.induct)
  case (1 s)
  show ?case
  proof (cases "s = [] \<or> byte (hd s) < 0x80")
    case True
    show ?thesis
    proof (cases s)
      case Nil
      then show ?thesis by (simp add: marshal_body.simps [of "[]"] sanitized.simps [of "[]"] scan_str.simps [of "CHR 0x22 # t"])
    next
      case (Cons c cs)
      then have ih: "scan_str (marshal_body cs @ CHR 0x22 # t) = Some (sanitized cs, t)"
        using True 1 by auto
      show ?thesis
        using True Cons ih scan_escape_byte [of c "marshal_body cs @ CHR 0x22 # t"] sanitized_ascii [of s]
        by (auto simp: marshal_body.simps [of "c # cs"] scan_clean clean_byte_def)
    qed
  next
    case False
    obtain r sz where d: "DecodeRune s = (r, sz)" by fastforce
    have ih: "scan_str (marshal_body (drop sz s) @ CHR 0x22 # t) = Some (sanitized (drop sz s), t)"
      using "1.IH"(2) False d by simp
    have hex: "scan_str (CHR 0x5C # CHR ''u'' # h @ u) = map_option (apfst ((@) (EncodeRune q))) (scan_str u)"
      if "(h, q) \<in> {(''2028'', 0x2028), (''2029'', 0x2029), (''fffd'', 0xFFFD)}" for h q u
      by (rule scan_hex) (use that in \<open>auto simp: hex4_def hex_value_def\<close>)
    consider "r = RuneError \<and> sz = 1" | "\<not> (r = RuneError \<and> sz = 1)" "r \<in> {0x2028, 0x2029}"
      | "\<not> (r = RuneError \<and> sz = 1)" "r \<notin> {0x2028, 0x2029}" by blast
    then show ?thesis
    proof cases
      case 1
      then show ?thesis using False d ih hex [of "''fffd''" "0xFFFD" "marshal_body (drop sz s) @ CHR 0x22 # t"]
        by (simp add: marshal_body.simps [of s] sanitized.simps [of s] replacement_def)
    next
      case 2
      have "take sz s = EncodeRune r" using DecodeRune_separator [OF d] False 2 by auto
      then show ?thesis
        using False d ih 2 hex [of "''2028''" "0x2028"] hex [of "''2029''" "0x2029"]
        by (auto simp: RuneError_def marshal_body.simps [of s] sanitized.simps [of s])
    next
      case 3
      then show ?thesis
        using False d ih scan_rune [OF d] by (auto simp: marshal_body.simps [of s] sanitized.simps [of s])
    qed
  qed
qed

text \<open>Every literal the relay writes reads back as the string it was written for, with invalid UTF-8
  replaced by U+FFFD and nothing else changed, and the reader stops exactly behind it.\<close>

theorem literal_roundtrip:
  "\<exists>body. appendJSONBytes dst v = dst @ CHR 0x22 # body \<and> scan_str (body @ rest) = Some (sanitized v, rest) \<and>
     (valid_utf8 v \<longrightarrow> sanitized v = v)"
  using scan_marshal [of v rest] by (simp add: appendJSONBytes_is_json json_Marshal_string_def sanitized_valid)

theorem literal_roundtrip_witness:
  "\<exists>body. appendJSONBytes ''x='' [CHR 0xE2, CHR 0x80, CHR 0xA8, CHR ''<'', CHR 0x0A, CHR 0x22] = ''x='' @ CHR 0x22 # body \<and>
     scan_str (body @ '','') = Some ([CHR 0xE2, CHR 0x80, CHR 0xA8, CHR ''<'', CHR 0x0A, CHR 0x22], '','')"
proof -
  let ?v = "[CHR 0xE2, CHR 0x80, CHR 0xA8, CHR ''<'', CHR 0x0A, CHR 0x22]"
  have "valid_utf8 ?v" by code_simp
  then show ?thesis using literal_roundtrip [of "''x=''" ?v "'',''"] by auto
qed

section \<open>Payloads\<close>

definition AppendInt :: "string \<Rightarrow> int \<Rightarrow> string" where
  "AppendInt dst n = dst @ (if n < 0 then CHR ''-'' # show_nat (nat (- n)) else show_nat (nat n))"

definition appendSSEContentBlockStartToolUse :: "string \<Rightarrow> int \<Rightarrow> string \<Rightarrow> string \<Rightarrow> string" where
  \<open>appendSSEContentBlockStartToolUse dst index toolID name =
     appendJSONBytes (appendJSONBytes (AppendInt (dst @ ''{"type":"content_block_start","index":'') index
       @ '',"content_block":{"type":"tool_use","id":'') toolID @ '',"name":'') name @ '',"input":{}}}''\<close>

definition appendSSEMessageStart :: "string \<Rightarrow> string \<Rightarrow> string \<Rightarrow> int \<Rightarrow> int \<Rightarrow> string" where
  \<open>appendSSEMessageStart dst msgID model inputTokens outputTokens =
     AppendInt (AppendInt (appendJSONBytes (appendJSONBytes (dst @ ''{"type":"message_start","message":{"id":'') msgID
       @ '',"type":"message","role":"assistant","content":[],"model":'') model @ '',"usage":{"input_tokens":'') inputTokens
       @ '',"output_tokens":'') outputTokens @ ''}}}''\<close>

definition appendSSEContentBlockStartText :: "string \<Rightarrow> int \<Rightarrow> string" where
  \<open>appendSSEContentBlockStartText dst index =
     AppendInt (dst @ ''{"type":"content_block_start","index":'') index @ '',"content_block":{"type":"text","text":""}}''\<close>

definition appendSSEContentBlockStartThinking :: "string \<Rightarrow> int \<Rightarrow> string \<Rightarrow> string" where
  \<open>appendSSEContentBlockStartThinking dst index signature =
     appendJSONBytes (AppendInt (dst @ ''{"type":"content_block_start","index":'') index
       @ '',"content_block":{"type":"thinking","thinking":"","signature":'') signature @ ''}}''\<close>

definition appendSSEContentBlockDeltaInputJSON :: "string \<Rightarrow> int \<Rightarrow> string \<Rightarrow> string" where
  \<open>appendSSEContentBlockDeltaInputJSON dst index partialJSON =
     appendJSONBytes (AppendInt (dst @ ''{"type":"content_block_delta","index":'') index
       @ '',"delta":{"type":"input_json_delta","partial_json":'') partialJSON @ ''}}''\<close>

definition appendSSEContentBlockDeltaText :: "string \<Rightarrow> int \<Rightarrow> string \<Rightarrow> string" where
  \<open>appendSSEContentBlockDeltaText dst index txt =
     appendJSONBytes (AppendInt (dst @ ''{"type":"content_block_delta","index":'') index
       @ '',"delta":{"type":"text_delta","text":'') txt @ ''}}''\<close>

definition appendSSEContentBlockDeltaThinking :: "string \<Rightarrow> int \<Rightarrow> string \<Rightarrow> string" where
  \<open>appendSSEContentBlockDeltaThinking dst index thinking =
     appendJSONBytes (AppendInt (dst @ ''{"type":"content_block_delta","index":'') index
       @ '',"delta":{"type":"thinking_delta","thinking":'') thinking @ ''}}''\<close>

definition appendSSEContentBlockStop :: "string \<Rightarrow> int \<Rightarrow> string" where
  \<open>appendSSEContentBlockStop dst index = AppendInt (dst @ ''{"type":"content_block_stop","index":'') index @ ''}''\<close>

definition appendSSEMessageDelta :: "string \<Rightarrow> string \<Rightarrow> int \<Rightarrow> string" where
  \<open>appendSSEMessageDelta dst stopReason outputTokens =
     AppendInt (appendJSONBytes (dst @ ''{"type":"message_delta","delta":{"stop_reason":'') stopReason
       @ ''},"usage":{"output_tokens":'') outputTokens @ ''}}''\<close>

definition sseMessageStopBytes :: string where
  \<open>sseMessageStopBytes = ''{"type":"message_stop"}''\<close>

definition appendAnthropicError :: "string \<Rightarrow> string \<Rightarrow> string \<Rightarrow> string" where
  \<open>appendAnthropicError dst code message =
     appendJSONBytes (appendJSONBytes (dst @ ''{"type":"error","error":{"type":'') code @ '',"message":'') message @ ''}}''\<close>

definition appendOpenAIError :: "string \<Rightarrow> string \<Rightarrow> string \<Rightarrow> string" where
  \<open>appendOpenAIError dst code message =
     appendJSONBytes (appendJSONBytes (appendJSONBytes (dst @ ''{"error":{"message":'') message @ '',"type":'') code
       @ '',"code":'') code @ ''}}''\<close>

section \<open>Frames\<close>

definition ssePrefix :: "string \<Rightarrow> string" where
  "ssePrefix event = ''event: '' @ event @ CHR 0x0A # ''data: ''"

definition sseFramePrefix :: "string \<Rightarrow> string option" where
  "sseFramePrefix event =
     (if event \<in> {''message_start'', ''message_delta'', ''message_stop'', ''content_block_start'', ''content_block_delta'', ''content_block_stop''}
      then Some (ssePrefix event) else None)"

definition sseLineBreak :: string where "sseLineBreak = [CHR 0x0A, CHR 0x0A]"

definition writeSSEFrameBytes :: "string \<Rightarrow> string \<Rightarrow> string" where
  "writeSSEFrameBytes event dat = (case sseFramePrefix event of
     Some p \<Rightarrow> p @ dat @ sseLineBreak
   | None \<Rightarrow> ''event: '' @ event @ (CHR 0x0A # ''data: '') @ dat @ sseLineBreak)"

definition writeOpenAIFrame :: "string \<Rightarrow> string" where
  "writeOpenAIFrame payload = ''data: '' @ payload @ sseLineBreak"

definition sseKeepAlive :: string where "sseKeepAlive = '': keep-alive'' @ sseLineBreak"

text \<open>The events the relay writes on an Anthropic stream.\<close>

datatype sse_event =
    MessageStart string string int int
  | BlockStartText int
  | BlockStartThinking int string
  | BlockStartToolUse int string string
  | DeltaText int string
  | DeltaThinking int string
  | DeltaInputJSON int string
  | BlockStop int
  | MessageDelta string int
  | MessageStop
  | StreamError string string
  | KeepAlive

fun event_name :: "sse_event \<Rightarrow> string" where
  "event_name (MessageStart _ _ _ _) = ''message_start''"
| "event_name (BlockStartText _) = ''content_block_start''"
| "event_name (BlockStartThinking _ _) = ''content_block_start''"
| "event_name (BlockStartToolUse _ _ _) = ''content_block_start''"
| "event_name (DeltaText _ _) = ''content_block_delta''"
| "event_name (DeltaThinking _ _) = ''content_block_delta''"
| "event_name (DeltaInputJSON _ _) = ''content_block_delta''"
| "event_name (BlockStop _) = ''content_block_stop''"
| "event_name (MessageDelta _ _) = ''message_delta''"
| "event_name MessageStop = ''message_stop''"
| "event_name (StreamError _ _) = ''error''"
| "event_name KeepAlive = ''keep-alive''"

fun payload :: "sse_event \<Rightarrow> string" where
  "payload (MessageStart msgID model i t) = appendSSEMessageStart [] msgID model i t"
| "payload (BlockStartText i) = appendSSEContentBlockStartText [] i"
| "payload (BlockStartThinking i sig) = appendSSEContentBlockStartThinking [] i sig"
| "payload (BlockStartToolUse i tid name) = appendSSEContentBlockStartToolUse [] i tid name"
| "payload (DeltaText i t) = appendSSEContentBlockDeltaText [] i t"
| "payload (DeltaThinking i t) = appendSSEContentBlockDeltaThinking [] i t"
| "payload (DeltaInputJSON i t) = appendSSEContentBlockDeltaInputJSON [] i t"
| "payload (BlockStop i) = appendSSEContentBlockStop [] i"
| "payload (MessageDelta reason t) = appendSSEMessageDelta [] reason t"
| "payload MessageStop = sseMessageStopBytes"
| "payload (StreamError code msg) = appendAnthropicError [] code msg"
| "payload KeepAlive = []"

definition wire :: "sse_event \<Rightarrow> string" where
  "wire e = (if e = KeepAlive then sseKeepAlive else writeSSEFrameBytes (event_name e) (payload e))"

text \<open>A reader of the event stream, line by line.\<close>

fun sse_lines :: "string list \<Rightarrow> string \<Rightarrow> string \<Rightarrow> (string \<times> string) list" where
  "sse_lines [] ev d = []"
| "sse_lines (l # ls) ev d =
     (if l = [] then (if d = [] then sse_lines ls [] [] else (ev, d) # sse_lines ls [] [])
      else if HasPrefix l ''event: '' then sse_lines ls (drop 7 l) d
      else if HasPrefix l ''data: '' then sse_lines ls ev (if d = [] then drop 6 l else d @ CHR 0x0A # drop 6 l)
      else sse_lines ls ev d)"

definition sse_read :: "string \<Rightarrow> (string \<times> string) list" where
  "sse_read s = sse_lines (Split (CHR 0x0A) s) [] []"

definition one_line :: "string \<Rightarrow> bool" where
  "one_line s \<longleftrightarrow> list_all (\<lambda>c. 0x20 \<le> byte c) s"


lemma one_line_append [simp]: "one_line (a @ b) \<longleftrightarrow> one_line a \<and> one_line b"
  by (simp add: one_line_def)

lemma one_line_Cons: "one_line (c # s) \<longleftrightarrow> 0x20 \<le> byte c \<and> one_line s"
  by (simp add: one_line_def)

lemma one_line_Nil [simp]: "one_line []"
  by (simp add: one_line_def)

lemma one_line_digits: "list_all (\<lambda>d. 0x20 \<le> byte (digit_char d)) [0..<10]"
  by code_simp

lemma one_line_show_nat [simp]: "one_line (show_nat n)"
proof (induction n rule: show_nat.induct)
  case (1 n)
  have d: "0x20 \<le> byte (digit_char k)" if "k < 10" for k
    using one_line_digits that by (auto simp: list_all_iff)
  then show ?case using 1 by (auto simp: show_nat.simps [of n] one_line_Cons)
qed

lemma escape_table:
  "list_all (\<lambda>b. one_line (escape_byte b)) (map int [0..<256])"
  by code_simp

lemma one_line_marshal_body: "one_line (marshal_body s)"
proof (induction s rule: marshal_body.induct)
  case (1 s)
  show ?case
  proof (cases "s = [] \<or> byte (hd s) < 0x80")
    case True
    then show ?thesis
      using 1 all_bytes [OF escape_table, of "byte (hd s)"] byte_range [of "hd s"]
      by (auto simp: marshal_body.simps [of s] one_line_Cons must_escape_def)
  next
    case False
    obtain r sz where d: "DecodeRune s = (r, sz)" by fastforce
    have "one_line (take sz s)"
      using DecodeRune_bytes [OF d] False by (force simp: one_line_def list_all_length)
    then show ?thesis using 1 False d by (simp add: marshal_body.simps [of s] one_line_Cons)
  qed
qed

lemma one_line_literal [simp]: "one_line (appendJSONBytes dst v) \<longleftrightarrow> one_line dst"
  by (simp add: appendJSONBytes_is_json json_Marshal_string_def one_line_Cons one_line_marshal_body)

lemma one_line_AppendInt [simp]: "one_line (AppendInt dst n) \<longleftrightarrow> one_line dst"
  by (simp add: AppendInt_def one_line_Cons)

lemmas payload_builders = appendSSEContentBlockStartToolUse_def appendSSEMessageStart_def
  appendSSEContentBlockStartText_def appendSSEContentBlockStartThinking_def appendSSEContentBlockDeltaInputJSON_def
  appendSSEContentBlockDeltaText_def appendSSEContentBlockDeltaThinking_def appendSSEContentBlockStop_def
  appendSSEMessageDelta_def sseMessageStopBytes_def appendAnthropicError_def appendOpenAIError_def

lemma one_line_payload: "one_line (payload e)"
  by (cases e) (simp_all add: payload_builders one_line_Cons)

lemma payload_nonempty: "e \<noteq> KeepAlive \<Longrightarrow> payload e \<noteq> []"
  by (cases e) (simp_all add: payload_builders)

lemma one_line_no_break: "one_line s \<Longrightarrow> CHR 0x0A \<notin> set s"
  by (auto simp: one_line_def list_all_iff)

lemma Split_line: "d \<notin> set a \<Longrightarrow> Split d (a @ d # b) = a # Split d b"
  by (induction a) auto

lemma writeSSEFrameBytes_flat:
  "writeSSEFrameBytes event dat = ''event: '' @ event @ CHR 0x0A # ''data: '' @ dat @ sseLineBreak"
  by (simp add: writeSSEFrameBytes_def sseFramePrefix_def ssePrefix_def)

lemma read_frame:
  assumes "CHR 0x0A \<notin> set ev" "CHR 0x0A \<notin> set dat" "dat \<noteq> []"
  shows "sse_read (writeSSEFrameBytes ev dat @ rest) = (ev, dat) # sse_read rest"
proof -
  have a: "CHR 0x0A \<notin> set (''event: '' @ ev)" "CHR 0x0A \<notin> set (''data: '' @ dat)" using assms by auto
  have "Split (CHR 0x0A) (writeSSEFrameBytes ev dat @ rest) = (''event: '' @ ev) # (''data: '' @ dat) # [] # Split (CHR 0x0A) rest"
    using Split_line [OF a(1)] Split_line [OF a(2)] by (simp add: writeSSEFrameBytes_flat sseLineBreak_def)
  then show ?thesis using assms(3) by (simp add: sse_read_def)
qed

lemma read_keepalive: "sse_read (sseKeepAlive @ rest) = sse_read rest"
proof -
  have "Split (CHR 0x0A) (sseKeepAlive @ rest) = '': keep-alive'' # [] # Split (CHR 0x0A) rest"
    using Split_line [of "CHR 0x0A" "'': keep-alive''" "CHR 0x0A # rest"] by (simp add: sseKeepAlive_def sseLineBreak_def)
  then show ?thesis by (simp add: sse_read_def)
qed

lemma event_name_no_break: "CHR 0x0A \<notin> set (event_name e)"
  by (cases e) simp_all

text \<open>Property C38: whatever bytes the upstream puts into text, tool names, tool inputs, signatures or messages, the
  stream the relay writes is read back as exactly the events that were written, in order and none split, merged or forged.\<close>

theorem stream_frames_intact:
  "sse_read (concat (map wire es)) = map (\<lambda>e. (event_name e, payload e)) (filter (\<lambda>e. e \<noteq> KeepAlive) es)"
proof (induction es)
  case (Cons e es)
  then show ?case
    using read_frame [OF event_name_no_break one_line_no_break [OF one_line_payload] payload_nonempty, of e e "concat (map wire es)"]
    by (cases "e = KeepAlive") (simp_all add: wire_def [of e] wire_def [of KeepAlive] read_keepalive)
qed (simp add: sse_read_def)

end
