(* ===== verification/Json.thy ===== *)
theory Json
  imports Sse_Wire "HOL-Library.AList"
begin

text \<open>
  What the gateway uses of Go's \<^verbatim>\<open>encoding/json\<close>: values, number literals, the decoder and the encoder of
  untyped values. An object keeps its members in source order; decoding into a Go map keeps the last
  of two members with one key, and encoding a map sorts its keys. A number keeps its literal; the text
  Go prints for the nearest double is the argument \<open>ft\<close> of the encoder.
\<close>

section \<open>Values\<close>

datatype json = JNull | JBool bool | JNum string | JStr string | JArr "json list" | JObj "(string \<times> json) list"

text \<open>\<^verbatim>\<open>json.Number.Int64\<close> on a number literal: an optional minus sign and digits, in range.\<close>

definition is_digit :: "char \<Rightarrow> bool" where
  "is_digit ch = (let n = (of_char ch :: nat) in 48 \<le> n \<and> n \<le> 57)"

definition digits_value :: "string \<Rightarrow> int" where
  "digits_value s = foldl (\<lambda>v ch. v * 10 + (int (of_char ch) - 48)) 0 s"

definition number_Int64 :: "string \<Rightarrow> int option" where
  "number_Int64 s =
     (let (neg, ds) = (case s of c # cs \<Rightarrow> if c = CHR ''-'' then (True, cs) else if c = CHR ''+'' then (False, cs) else (False, s)
                        | [] \<Rightarrow> (False, [])) in
      if ds = [] \<or> \<not> list_all is_digit ds then None
      else let v = (if neg then - digits_value ds else digits_value ds) in if in_int64 v then Some v else None)"

text \<open>\<^verbatim>\<open>encoding/json.isValidNumber\<close>, which decides whether a quoted literal is a number.\<close>

definition valid_exponent :: "string \<Rightarrow> bool" where
  "valid_exponent s = (case s of [] \<Rightarrow> True | e # rest \<Rightarrow>
     (e = CHR ''e'' \<or> e = CHR ''E'') \<and>
     (let ds = (case rest of c # cs \<Rightarrow> if c = CHR ''+'' \<or> c = CHR ''-'' then cs else rest | [] \<Rightarrow> [])
      in ds \<noteq> [] \<and> list_all is_digit ds))"

definition valid_fraction :: "string \<Rightarrow> bool" where
  "valid_fraction s = (case s of [] \<Rightarrow> True | d # rest \<Rightarrow>
     if d = CHR ''.'' then takeWhile is_digit rest \<noteq> [] \<and> valid_exponent (dropWhile is_digit rest)
     else valid_exponent s)"

definition isValidNumber :: "string \<Rightarrow> bool" where
  "isValidNumber s =
     (let u = (case s of c # cs \<Rightarrow> if c = CHR ''-'' then cs else s | [] \<Rightarrow> []) in
      case u of [] \<Rightarrow> False | c # cs \<Rightarrow>
        if c = CHR ''0'' then valid_fraction cs
        else is_digit c \<and> valid_fraction (dropWhile is_digit cs))"

section \<open>The decoder\<close>

definition json_space :: "char \<Rightarrow> bool" where
  "json_space c \<longleftrightarrow> c \<in> {CHR '' '', CHR 0x09, CHR 0x0A, CHR 0x0D}"

abbreviation skip_ws :: "string \<Rightarrow> string" where
  "skip_ws \<equiv> dropWhile json_space"

definition num_char :: "char \<Rightarrow> bool" where
  "num_char c \<longleftrightarrow> is_digit c \<or> c \<in> {CHR ''+'', CHR ''-'', CHR ''.'', CHR ''e'', CHR ''E''}"

text \<open>A literal beyond the largest double is refused: \<open>2 ^ 1024 - 2 ^ 970\<close> is the first that rounds to infinity.\<close>

definition float64_overflows :: "string \<Rightarrow> bool" where
  "float64_overflows lit =
     (let u = (case lit of c # cs \<Rightarrow> if c = CHR ''-'' then cs else lit | [] \<Rightarrow> []);
          whole = takeWhile is_digit u; r1 = dropWhile is_digit u;
          frac = (case r1 of c # cs \<Rightarrow> if c = CHR ''.'' then takeWhile is_digit cs else [] | [] \<Rightarrow> []);
          r2 = (case r1 of c # cs \<Rightarrow> if c = CHR ''.'' then dropWhile is_digit cs else r1 | [] \<Rightarrow> []);
          e = (case r2 of c # d # cs \<Rightarrow> if d = CHR ''-'' then - digits_value cs
                 else if d = CHR ''+'' then digits_value cs else digits_value (d # cs) | _ \<Rightarrow> 0) - int (length frac);
          m = digits_value (whole @ frac)
      in if e \<ge> 0 then m * 10 ^ nat e \<ge> 2 ^ 1024 - 2 ^ 970 else m \<ge> (2 ^ 1024 - 2 ^ 970) * 10 ^ nat (- e))"

definition scan_number :: "string \<Rightarrow> (json \<times> string) option" where
  "scan_number s = (let lit = takeWhile num_char s in
     if isValidNumber lit \<and> \<not> float64_overflows lit then Some (JNum lit, dropWhile num_char s) else None)"

definition scan_word :: "string \<Rightarrow> (json \<times> string) option" where
  "scan_word s =
     (if HasPrefix s ''null'' then Some (JNull, drop 4 s)
      else if HasPrefix s ''true'' then Some (JBool True, drop 4 s)
      else if HasPrefix s ''false'' then Some (JBool False, drop 5 s)
      else scan_number s)"

text \<open>\<open>n\<close> bounds the steps, \<open>d\<close> the nesting that is still allowed.\<close>

fun parse_value :: "nat \<Rightarrow> nat \<Rightarrow> string \<Rightarrow> (json \<times> string) option"
  and parse_elems :: "nat \<Rightarrow> nat \<Rightarrow> string \<Rightarrow> json list \<Rightarrow> (json \<times> string) option"
  and parse_members :: "nat \<Rightarrow> nat \<Rightarrow> string \<Rightarrow> (string \<times> json) list \<Rightarrow> (json \<times> string) option" where
  "parse_value 0 d s = None"
| "parse_value (Suc n) d s = (case skip_ws s of
     [] \<Rightarrow> None
   | c # cs \<Rightarrow>
     if c = CHR 0x22 then map_option (apfst JStr) (scan_str cs)
     else if c = CHR ''['' then
       (if d = 0 then None
        else case skip_ws cs of
          [] \<Rightarrow> None
        | b # r \<Rightarrow> if b = CHR '']'' then Some (JArr [], r) else parse_elems n (d - 1) cs [])
     else if c = CHR ''{'' then
       (if d = 0 then None
        else case skip_ws cs of
          [] \<Rightarrow> None
        | b # r \<Rightarrow> if b = CHR ''}'' then Some (JObj [], r) else parse_members n (d - 1) cs [])
     else scan_word (c # cs))"
| "parse_elems 0 d s acc = None"
| "parse_elems (Suc n) d s acc = (case parse_value n d s of
     None \<Rightarrow> None
   | Some (v, r) \<Rightarrow> (case skip_ws r of
       [] \<Rightarrow> None
     | c # cs \<Rightarrow> if c = CHR '','' then parse_elems n d cs (acc @ [v])
                else if c = CHR '']'' then Some (JArr (acc @ [v]), cs) else None))"
| "parse_members 0 d s acc = None"
| "parse_members (Suc n) d s acc = (case skip_ws s of
     [] \<Rightarrow> None
   | q # qs \<Rightarrow>
     if q \<noteq> CHR 0x22 then None
     else (case scan_str qs of
       None \<Rightarrow> None
     | Some (k, r1) \<Rightarrow> (case skip_ws r1 of
         [] \<Rightarrow> None
       | e # es \<Rightarrow>
         if e \<noteq> CHR '':'' then None
         else (case parse_value n d es of
           None \<Rightarrow> None
         | Some (v, r) \<Rightarrow> (case skip_ws r of
             [] \<Rightarrow> None
           | c # cs \<Rightarrow> if c = CHR '','' then parse_members n d cs (acc @ [(k, v)])
                      else if c = CHR ''}'' then Some (JObj (acc @ [(k, v)]), cs) else None)))))"

definition maxNestingDepth :: nat where "maxNestingDepth = 10000"

definition json_decode :: "string \<Rightarrow> json option" where
  "json_decode s = (case parse_value (2 * length s + 2) maxNestingDepth s of
     None \<Rightarrow> None
   | Some (v, r) \<Rightarrow> if skip_ws r = [] then Some v else None)"

text \<open>Decoding into an untyped Go value: a map keeps the last member of a key.\<close>

definition put_field :: "(string \<times> json) list \<Rightarrow> string \<times> json \<Rightarrow> (string \<times> json) list" where
  "put_field fs kv = AList.update (fst kv) (snd kv) fs"

fun as_any :: "json \<Rightarrow> json" where
  "as_any (JArr vs) = JArr (map as_any vs)"
| "as_any (JObj fs) = JObj (foldl put_field [] (map (\<lambda>(k, v). (k, as_any v)) fs))"
| "as_any v = v"

definition json_Unmarshal :: "string \<Rightarrow> json option" where
  "json_Unmarshal s = map_option as_any (json_decode s)"

section \<open>The encoder\<close>

fun str_le :: "string \<Rightarrow> string \<Rightarrow> bool" where
  "str_le [] t = True"
| "str_le (c # s) [] = False"
| "str_le (c # s) (d # t) = (byte c < byte d \<or> byte c = byte d \<and> str_le s t)"

fun insert_key :: "string \<times> 'a \<Rightarrow> (string \<times> 'a) list \<Rightarrow> (string \<times> 'a) list" where
  "insert_key x [] = [x]"
| "insert_key x (y # ys) = (if str_le (fst x) (fst y) then x # y # ys else y # insert_key x ys)"

definition sort_keys :: "(string \<times> 'a) list \<Rightarrow> (string \<times> 'a) list" where
  "sort_keys fs = foldr insert_key fs []"

fun join :: "string \<Rightarrow> string list \<Rightarrow> string" where
  "join sep [] = []"
| "join sep [s] = s"
| "join sep (s # t # ts) = s @ sep @ join sep (t # ts)"

fun json_Marshal :: "(string \<Rightarrow> string) \<Rightarrow> json \<Rightarrow> string" where
  "json_Marshal ft JNull = ''null''"
| "json_Marshal ft (JBool b) = (if b then ''true'' else ''false'')"
| "json_Marshal ft (JNum n) = ft n"
| "json_Marshal ft (JStr s) = json_Marshal_string s"
| "json_Marshal ft (JArr vs) = ''['' @ join '','' (map (json_Marshal ft) vs) @ '']''"
| "json_Marshal ft (JObj fs) =
     ''{'' @ join '','' (map (\<lambda>(k, t). json_Marshal_string k @ '':'' @ t) (sort_keys (map (\<lambda>(k, v). (k, json_Marshal ft v)) fs))) @ ''}''"

section \<open>Members\<close>

definition jget :: "json \<Rightarrow> string \<Rightarrow> json option" where
  "jget v k = (case v of JObj fs \<Rightarrow> map_of fs k | _ \<Rightarrow> None)"

definition is_obj :: "json \<Rightarrow> bool" where
  "is_obj v = (case v of JObj fs \<Rightarrow> True | _ \<Rightarrow> False)"

definition as_str :: "json option \<Rightarrow> string option" where
  "as_str v = (case v of Some (JStr s) \<Rightarrow> Some s | _ \<Rightarrow> None)"

definition as_obj :: "json option \<Rightarrow> (string \<times> json) list option" where
  "as_obj v = (case v of Some (JObj fs) \<Rightarrow> Some fs | _ \<Rightarrow> None)"


section \<open>Struct decoding\<close>

text \<open>
  Decoding an object into a struct: a member sets the field whose name it equals up to case, in source
  order; \<^verbatim>\<open>null\<close> leaves a string or number and clears a pointer; another type is an error that is reported
  after the rest was decoded. A nested struct collects the members of every object it is decoded from.
  The outer option is the error.
\<close>

definition field_values :: "(string \<times> json) list \<Rightarrow> string \<Rightarrow> json list" where
  "field_values fs k = map snd (filter (\<lambda>f. EqualFold (fst f) k) fs)"

definition dec_string :: "(string \<times> json) list \<Rightarrow> string \<Rightarrow> string option" where
  "dec_string fs k = foldl (\<lambda>r v. case v of JStr s \<Rightarrow> map_option (\<lambda>_. s) r | JNull \<Rightarrow> r | _ \<Rightarrow> None) (Some []) (field_values fs k)"

definition dec_string_ptr :: "(string \<times> json) list \<Rightarrow> string \<Rightarrow> string option option" where
  "dec_string_ptr fs k =
     foldl (\<lambda>r v. case v of JStr s \<Rightarrow> map_option (\<lambda>_. Some s) r | JNull \<Rightarrow> map_option (\<lambda>_. None) r | _ \<Rightarrow> None)
       (Some None) (field_values fs k)"

definition dec_int :: "(string \<times> json) list \<Rightarrow> string \<Rightarrow> int option" where
  "dec_int fs k =
     foldl (\<lambda>r v. case v of
         JNum n \<Rightarrow> (case number_Int64 n of Some i \<Rightarrow> map_option (\<lambda>_. i) r | None \<Rightarrow> None)
       | JNull \<Rightarrow> r | _ \<Rightarrow> None) (Some 0) (field_values fs k)"

definition dec_struct_ptr :: "(string \<times> json) list \<Rightarrow> string \<Rightarrow> (string \<times> json) list option option" where
  "dec_struct_ptr fs k =
     foldl (\<lambda>r v. case v of
         JObj g \<Rightarrow> map_option (\<lambda>p. case p of None \<Rightarrow> Some g | Some h \<Rightarrow> Some (h @ g)) r
       | JNull \<Rightarrow> map_option (\<lambda>_. None) r | _ \<Rightarrow> None) (Some None) (field_values fs k)"

text \<open>Every member ever decoded into the nested struct, for the errors among them.\<close>

definition seen_members :: "(string \<times> json) list \<Rightarrow> string \<Rightarrow> (string \<times> json) list" where
  "seen_members fs k = concat (map (\<lambda>v. case v of JObj g \<Rightarrow> g | _ \<Rightarrow> []) (field_values fs k))"

definition members :: "json \<Rightarrow> (string \<times> json) list option" where
  "members v = (case v of JObj fs \<Rightarrow> Some fs | JNull \<Rightarrow> Some [] | _ \<Rightarrow> None)"

section \<open>The step bound is enough\<close>

lemma scan_step:
  assumes "scan_str s = Some (v, r)"
  shows "(\<exists>c. s = c # r) \<or> (\<exists>t u. length t < length s \<and> scan_str t = Some (u, r))"
proof (cases s)
  case Nil
  then show ?thesis using assms by (simp add: scan_str.simps)
next
  case (Cons c cs)
  have sub: "\<exists>t u. length t < length s \<and> scan_str t = Some (u, r)"
    if "map_option (apfst f) (scan_str t) = Some (v, r)" "length t < length s" for f and t :: string
    using that by (auto simp: apfst_def map_prod_def split: prod.splits)
  have d: "length (drop n cs) < length s" for n using Cons by simp
  have es: "length (drop n es) < length s" if "cs = e # es" for e es n using Cons that by simp
  have dz: "length (drop sz s) < length s" if "DecodeRune s = (q, sz)" for q sz
    using DecodeRune_size [OF that] Cons by simp
  note u = assms [unfolded Cons, unfolded scan_str.simps [of "c # cs"] list.case]
  consider "c = CHR 0x22" | "c \<noteq> CHR 0x22" "c = CHR 0x5C" | "c \<noteq> CHR 0x22" "c \<noteq> CHR 0x5C" "byte c < 0x80"
    | "c \<noteq> CHR 0x22" "c \<noteq> CHR 0x5C" "\<not> byte c < 0x80" by blast
  then show ?thesis
  proof cases
    case 1
    then show ?thesis using u Cons by auto
  next
    case 2
    then show ?thesis
      using u es [of _ _ 0] es [of _ _ 4] es [of _ _ 10] sub [of "(@) replacement"]
      by (auto split: list.splits if_splits option.splits dest!: sub)
  next
    case 3
    then show ?thesis using u d [of 0] by (auto split: if_splits dest!: sub)
  next
    case 4
    then show ?thesis
      using u d [of 0] dz Cons by (auto split: if_splits prod.splits dest!: sub)
  qed
qed

lemma scan_str_shorter: "scan_str s = Some (v, r) \<Longrightarrow> length r < length s"
proof (induction "length s" arbitrary: s v rule: less_induct)
  case less
  from scan_step [OF less.prems] show ?case using less.hyps by (fastforce dest: less_trans)
qed


lemma skip_cons: "skip_ws s = c # cs \<Longrightarrow> length cs < length s"
  using length_dropWhile_le [of json_space s] by simp

lemma scan_word_shorter: "scan_word s = Some (v, r) \<Longrightarrow> length r < length s"
proof -
  assume s: "scan_word s = Some (v, r)"
  have n: "length (dropWhile num_char s) < length s" if "isValidNumber (takeWhile num_char s)"
  proof -
    have "takeWhile num_char s \<noteq> []" using that by (auto simp: isValidNumber_def)
    then show ?thesis using takeWhile_dropWhile_id [of num_char s] by (metis length_append length_greater_0_conv less_add_same_cancel2)
  qed
  show ?thesis
    using s n HasPrefix_length [of s "''null''"] HasPrefix_length [of s "''true''"] HasPrefix_length [of s "''false''"]
    by (auto simp: scan_word_def scan_number_def Let_def split: if_splits)
qed

lemma parse_shorter_all:
  "(\<forall>d s v r. parse_value n d s = Some (v, r) \<longrightarrow> length r < length s) \<and>
   (\<forall>d s acc v r. parse_elems n d s acc = Some (v, r) \<longrightarrow> length r < length s) \<and>
   (\<forall>d s mem v r. parse_members n d s mem = Some (v, r) \<longrightarrow> length r < length s)"
proof (induction n)
  case (Suc n)
  then have V: "parse_value n d s = Some (v, r) \<Longrightarrow> length r < length s"
    and E: "parse_elems n d s acc = Some (v, r) \<Longrightarrow> length r < length s"
    and M: "parse_members n d s mem = Some (v, r) \<Longrightarrow> length r < length s" for d s acc mem v r
    by blast+
  have "length r < length s" if "parse_value (Suc n) d s = Some (v, r)" for d s v r
    using that by (auto dest!: skip_cons scan_str_shorter scan_word_shorter E M split: list.splits if_splits)
  moreover have "length r < length s" if "parse_elems (Suc n) d s acc = Some (v, r)" for d s acc v r
    using that by (auto dest!: skip_cons V E split: list.splits if_splits option.splits)
  moreover have "length r < length s" if "parse_members (Suc n) d s mem = Some (v, r)" for d s mem v r
    using that by (auto dest!: skip_cons scan_str_shorter V M split: list.splits if_splits option.splits)
  ultimately show ?case by blast
qed simp

lemmas parse_shorter = parse_shorter_all [THEN conjunct1, rule_format]

text \<open>Every bound above twice the length of the text gives the same result.\<close>

lemma parse_bound_all:
  "(\<forall>d s m. 2 * length s + 1 \<le> n \<longrightarrow> 2 * length s + 1 \<le> m \<longrightarrow> parse_value n d s = parse_value m d s) \<and>
   (\<forall>d s acc m. 2 * length s + 2 \<le> n \<longrightarrow> 2 * length s + 2 \<le> m \<longrightarrow> parse_elems n d s acc = parse_elems m d s acc) \<and>
   (\<forall>d s mem m. 2 * length s + 2 \<le> n \<longrightarrow> 2 * length s + 2 \<le> m \<longrightarrow> parse_members n d s mem = parse_members m d s mem)"
proof (induction n)
  case (Suc n)
  then have V: "2 * length s + 1 \<le> n \<Longrightarrow> 2 * length s + 1 \<le> m \<Longrightarrow> parse_value n d s = parse_value m d s"
    and E: "2 * length s + 2 \<le> n \<Longrightarrow> 2 * length s + 2 \<le> m \<Longrightarrow> parse_elems n d s acc = parse_elems m d s acc"
    and M: "2 * length s + 2 \<le> n \<Longrightarrow> 2 * length s + 2 \<le> m \<Longrightarrow> parse_members n d s mem = parse_members m d s mem"
    for d s acc mem m by blast+
  have "parse_value (Suc n) d s = parse_value m d s" if b: "2 * length s + 1 \<le> Suc n" "2 * length s + 1 \<le> m" for d s m
  proof -
    obtain m' where m: "m = Suc m'" using b by (cases m) auto
    have e: "parse_elems n (d - 1) cs [] = parse_elems m' (d - 1) cs []"
      and k: "parse_members n (d - 1) cs [] = parse_members m' (d - 1) cs []" if "skip_ws s = c # cs" for c cs
      using skip_cons [OF that] b m by (simp_all add: E [of cs m'] M [of cs m'])
    show ?thesis
    proof (cases "skip_ws s")
      case (Cons c cs)
      then show ?thesis unfolding m parse_value.simps by (simp only: list.case e [OF Cons] k [OF Cons])
    next
      case Nil
      then show ?thesis unfolding m parse_value.simps by (simp only: list.case)
    qed
  qed
  moreover have "parse_elems (Suc n) d s acc = parse_elems m d s acc"
    if b: "2 * length s + 2 \<le> Suc n" "2 * length s + 2 \<le> m" for d s acc m
  proof -
    obtain m' where m: "m = Suc m'" using b by (cases m) auto
    have v: "parse_value n d s = parse_value m' d s" using b m by (simp add: V [of s m'])
    have e: "parse_elems n d cs a = parse_elems m' d cs a"
      if "parse_value m' d s = Some (x, r)" "skip_ws r = c # cs" for x r c cs a
      using parse_shorter [OF that(1)] skip_cons [OF that(2)] b m by (simp add: E [of cs m'])
    show ?thesis unfolding m by (auto simp: v e simp del: dropWhile_eq_Nil_conv split: list.split option.split)
  qed
  moreover have "parse_members (Suc n) d s mem = parse_members m d s mem"
    if b: "2 * length s + 2 \<le> Suc n" "2 * length s + 2 \<le> m" for d s mem m
  proof -
    obtain m' where m: "m = Suc m'" using b by (cases m) auto
    have l: "length es < length s"
      if "skip_ws s = q # qs" "scan_str qs = Some (k, r1)" "skip_ws r1 = e # es" for q qs k r1 e es
      using skip_cons [OF that(1)] scan_str_shorter [OF that(2)] skip_cons [OF that(3)] by simp
    have v: "parse_value n d es = parse_value m' d es"
      if "skip_ws s = q # qs" "scan_str qs = Some (k, r1)" "skip_ws r1 = e # es" for q qs k r1 e es
      using l [OF that] b m by (simp add: V [of es m'])
    have w: "parse_members n d cs a = parse_members m' d cs a"
      if "skip_ws s = q # qs" "scan_str qs = Some (k, r1)" "skip_ws r1 = e # es"
        "parse_value m' d es = Some (x, r)" "skip_ws r = c # cs" for q qs k r1 e es x r c cs a
      using l [OF that(1-3)] parse_shorter [OF that(4)] skip_cons [OF that(5)] b m by (simp add: M [of cs m'])
    show ?thesis unfolding m by (auto simp: v w simp del: dropWhile_eq_Nil_conv split: list.split option.split)
  qed
  ultimately show ?case by blast
qed simp

lemma json_decode_bound:
  "2 * length s + 2 \<le> n \<Longrightarrow> parse_value n maxNestingDepth s = parse_value (2 * length s + 2) maxNestingDepth s"
  by (rule parse_bound_all [of n, THEN conjunct1, rule_format]) simp_all


section \<open>Printed integers\<close>

lemma digit_table:
  "list_all (\<lambda>k. is_digit (digit_char k) \<and> int (of_char (digit_char k)) - 48 = int k \<and> (digit_char k = CHR ''0'') = (k = 0) \<and>
     digit_char k \<noteq> CHR ''-'' \<and> digit_char k \<noteq> CHR ''+'' \<and> digit_char k \<noteq> CHR ''.'') [0..<10]"
  by code_simp

lemma digit_facts:
  assumes "k < 10"
  shows "is_digit (digit_char k)" "int (of_char (digit_char k)) - 48 = int k" "(digit_char k = CHR ''0'') = (k = 0)"
  using digit_table assms unfolding list_all_iff set_upt by auto

lemma show_nat_digits: "list_all is_digit (show_nat n)"
proof (induction n rule: show_nat.induct)
  case (1 n)
  then show ?case by (auto simp: show_nat.simps [of n] digit_facts(1))
qed

lemma digits_value_snoc: "digits_value (s @ [c]) = digits_value s * 10 + (int (of_char c) - 48)"
  by (simp add: digits_value_def)

lemma digits_value_show: "digits_value (show_nat n) = int n"
proof (induction n rule: show_nat.induct)
  case (1 n)
  show ?case
  proof (cases "n < 10")
    case True
    then show ?thesis using digit_facts(2) [of n] by (simp add: show_nat.simps [of n] digits_value_def)
  next
    case False
    have "int (n div 10) * 10 + int (n mod 10) = int n"
      by (metis div_mult_mod_eq of_nat_add of_nat_mult of_nat_numeral)
    then show ?thesis
      using False 1 digit_facts(2) [of "n mod 10"] by (simp add: show_nat.simps [of n] digits_value_snoc)
  qed
qed

lemma show_nat_head: "hd (show_nat n) = CHR ''0'' \<Longrightarrow> show_nat n = ''0''"
proof (induction n rule: show_nat.induct)
  case (1 n)
  show ?case
  proof (cases "n < 10")
    case True
    then have "n = 0" using 1 digit_facts(3) [of n] by (simp add: show_nat.simps [of n])
    then show ?thesis using digit_facts(3) [of 0] by (simp add: show_nat.simps [of 0])
  next
    case False
    have "show_nat (n div 10) \<noteq> []" by (rule show_nat_nonempty)
    then have "show_nat (n div 10) = ''0''" using 1 False by (simp add: show_nat.simps [of n])
    then have "n div 10 = 0" using digits_value_show [of "n div 10"] by (simp add: digits_value_def)
    then show ?thesis using False by simp
  qed
qed

lemma show_nat_cases:
  obtains c cs where "show_nat n = c # cs" "is_digit c" "list_all is_digit cs" "c = CHR ''0'' \<longrightarrow> cs = []"
  using show_nat_nonempty [of n] show_nat_digits [of n] show_nat_head [of n] by (cases "show_nat n") auto

lemma no_digit: "\<not> is_digit (CHR ''-'')" "\<not> is_digit (CHR ''+'')" "\<not> is_digit (CHR '','')" "\<not> is_digit (CHR ''}'')"
  by code_simp+

lemma digit_run: "list_all is_digit s \<Longrightarrow> takeWhile is_digit s = s" "list_all is_digit s \<Longrightarrow> dropWhile is_digit s = []"
  by (simp_all add: list_all_iff takeWhile_eq_all_conv)

lemma isValidNumber_show: "isValidNumber (show_nat n)"
proof -
  obtain c cs where s: "show_nat n = c # cs" "is_digit c" "list_all is_digit cs" "c = CHR ''0'' \<longrightarrow> cs = []"
    by (rule show_nat_cases)
  then have "c \<noteq> CHR ''-''" using no_digit by auto
  then show ?thesis using s by (auto simp: isValidNumber_def valid_fraction_def digit_run)
qed

lemma number_Int64_show: "in_int64 (int n) \<Longrightarrow> number_Int64 (show_nat n) = Some (int n)"
proof -
  assume i: "in_int64 (int n)"
  obtain c cs where s: "show_nat n = c # cs" "is_digit c" by (rule show_nat_cases)
  then have "c \<noteq> CHR ''-''" "c \<noteq> CHR ''+''" using no_digit by auto
  then show ?thesis using s show_nat_digits [of n] digits_value_show [of n] i by (simp add: number_Int64_def)
qed

lemma float64_show: "n < 2 ^ 63 \<Longrightarrow> \<not> float64_overflows (show_nat n)"
proof -
  assume n: "n < 2 ^ 63"
  obtain c cs where s: "show_nat n = c # cs" "is_digit c" by (rule show_nat_cases)
  then have c: "c \<noteq> CHR ''-''" using no_digit by auto
  have t: "takeWhile is_digit (show_nat n) = show_nat n" "dropWhile is_digit (show_nat n) = []"
    using digit_run [OF show_nat_digits] by auto
  have u: "(case show_nat n of [] \<Rightarrow> [] | c # cs \<Rightarrow> if c = CHR ''-'' then cs else show_nat n) = show_nat n"
    using c by (simp add: s)
  have "float64_overflows (show_nat n) \<longleftrightarrow> int n \<ge> 2 ^ 1024 - 2 ^ 970"
    unfolding float64_overflows_def u Let_def t by (simp add: digits_value_show)
  moreover have "int n < 2 ^ 63" using n by (metis of_nat_less_iff of_nat_numeral of_nat_power)
  ultimately show ?thesis by simp
qed

lemma scan_number_show:
  assumes "n < 2 ^ 63" "\<not> num_char c"
  shows "scan_word (show_nat n @ c # t) = Some (JNum (show_nat n), c # t)"
proof -
  have d: "list_all num_char (show_nat n)" using show_nat_digits [of n] by (auto simp: list_all_iff num_char_def)
  then have t: "takeWhile num_char (show_nat n @ c # t) = show_nat n" "dropWhile num_char (show_nat n @ c # t) = c # t"
    using assms(2) by (simp_all add: takeWhile_append2 dropWhile_append2 list_all_iff)
  obtain b bs where s: "show_nat n = b # bs" "is_digit b" by (rule show_nat_cases)
  have "\<not> is_digit (CHR ''n'')" "\<not> is_digit (CHR ''t'')" "\<not> is_digit (CHR ''f'')" by code_simp+
  then have "\<not> HasPrefix (show_nat n @ c # t) ''null''" "\<not> HasPrefix (show_nat n @ c # t) ''true''" "\<not> HasPrefix (show_nat n @ c # t) ''false''"
    using s by auto
  then show ?thesis
    using t isValidNumber_show float64_show [OF assms(1)] by (simp add: scan_word_def scan_number_def)
qed

end
