(* ===== verification/Pricing.thy ===== *)
theory Pricing
  imports Json
begin

text \<open>
  The price table and the cost estimators (\<^verbatim>\<open>src/internal/pricing/pricing.go\<close>). Costs are 64-bit
  integers in USD ticks; the products and sums wrap as in Go. The anchored family patterns are
  matched on the dash-separated segments of a name. A request body is given as the JSON value
  it decodes to, or, when it does not decode, by its length and the model name read before the
  error.
\<close>

section \<open>The table\<close>

record tokenPrice =
  CanonicalModel :: string
  InputTicks :: int
  CachedInputTicks :: int
  OutputTicks :: int
  LongContextTokens :: int
  LongInputTicks :: int
  LongCachedTicks :: int
  LongOutputTicks :: int

definition register :: "string \<Rightarrow> tokenPrice \<Rightarrow> string list \<Rightarrow> (string \<times> tokenPrice) list" where
  "register canonical price names =
     (let p = price\<lparr>CanonicalModel := canonical\<rparr> in (canonical, p) # map (\<lambda>name. (name, p)) names)"

definition price_row :: "int \<Rightarrow> int \<Rightarrow> int \<Rightarrow> int \<Rightarrow> int \<Rightarrow> int \<Rightarrow> tokenPrice" where
  "price_row i c out li lc lo = \<lparr>CanonicalModel = [], InputTicks = i, CachedInputTicks = c, OutputTicks = out,
     LongContextTokens = 200000, LongInputTicks = li, LongCachedTicks = lc, LongOutputTicks = lo\<rparr>"

definition standard_price :: tokenPrice where
  "standard_price = price_row 12500 2000 25000 25000 4000 50000"

definition buildOfficialTokenPrices :: "(string \<times> tokenPrice) list" where
  "buildOfficialTokenPrices =
     register ''grok-build-0.1'' (price_row 10000 2000 20000 20000 4000 40000)
       [''grok-code-fast-1'', ''grok-code-fast'', ''grok-code-fast-1-0825'', ''grok-composer-2.5-fast''] @
     register ''grok-4.6'' (price_row 20000 5000 60000 40000 10000 120000) [''grok-4.6-latest''] @
     register ''grok-4.5'' (price_row 20000 3000 60000 40000 6000 120000) [''grok-4.5-latest'', ''grok-build-latest''] @
     register ''grok-4.3'' standard_price [''grok-4.3-latest'', ''grok-latest''] @
     register ''grok-4.20-multi-agent-0309'' standard_price
       [''grok-4.20-multi-agent'', ''grok-4.20-multi-agent-latest'', ''grok-4.20-multi-agent-beta-latest'',
        ''grok-4.20-multi-agent-beta-0309''] @
     register ''grok-4.20-0309-reasoning'' standard_price
       [''grok-4.20-reasoning-latest'', ''grok-4.20'', ''grok-4.20-reasoning'', ''grok-4.20-0309'', ''grok-4.20-beta'',
        ''grok-4.20-beta-0309'', ''grok-4.20-beta-latest'', ''grok-4.20-beta-reasoning'', ''grok-4.20-beta-latest-reasoning''] @
     register ''grok-4.20-0309-non-reasoning'' standard_price
       [''grok-4.20-non-reasoning'', ''grok-4.20-non-reasoning-latest'', ''grok-4.20-beta-non-reasoning'',
        ''grok-4.20-beta-latest-non-reasoning'']"

text \<open>A map keeps the last value assigned to a key.\<close>

definition officialTokenPrices :: "string \<Rightarrow> tokenPrice option" where
  "officialTokenPrices name = map_of (rev buildOfficialTokenPrices) name"

section \<open>Family rules\<close>

definition segment_char :: "char \<Rightarrow> bool" where
  "segment_char ch = (let n = (of_char ch :: nat) in (97 \<le> n \<and> n \<le> 122) \<or> (48 \<le> n \<and> n \<le> 57) \<or> n = 46)"

text \<open>\<open>segments s\<close>: the pieces of \<^verbatim>\<open>(?:-[a-z0-9.]+)*$\<close>, or \<^const>\<open>None\<close> when it does not match.\<close>

definition segments :: "string \<Rightarrow> string list option" where
  "segments s = (if s = [] then Some []
     else case Split CHR ''-'' s of
       w # ws \<Rightarrow> if w = [] \<and> list_all (\<lambda>v. v \<noteq> [] \<and> list_all segment_char v) ws then Some ws else None
     | [] \<Rightarrow> None)"

definition family :: "string \<Rightarrow> string \<Rightarrow> string list option" where
  "family stem name = (if HasPrefix name stem then segments (drop (length stem) name) else None)"

fun adjacent :: "string \<Rightarrow> string \<Rightarrow> string list \<Rightarrow> bool" where
  "adjacent a b (x # y # rest) = ((x = a \<and> y = b) \<or> adjacent a b (y # rest))"
| "adjacent a b _ = False"

definition officialTokenPriceRules :: "((string \<Rightarrow> bool) \<times> string) list" where
  "officialTokenPriceRules =
    [(\<lambda>n. family ''grok-build-0.1'' n \<noteq> None \<or> family ''grok-code-fast'' n \<noteq> None \<or>
          family ''grok-composer-2.5-fast'' n \<noteq> None, ''grok-build-0.1''),
     (\<lambda>n. family ''grok-4.6'' n \<noteq> None, ''grok-4.6''),
     (\<lambda>n. family ''grok-4.5'' n \<noteq> None, ''grok-4.5''),
     (\<lambda>n. family ''grok-4.3'' n \<noteq> None, ''grok-4.3''),
     (\<lambda>n. family ''grok-4.20-multi-agent'' n \<noteq> None, ''grok-4.20-multi-agent-0309''),
     (\<lambda>n. case family ''grok-4.20'' n of None \<Rightarrow> False | Some ws \<Rightarrow> adjacent ''non'' ''reasoning'' ws,
        ''grok-4.20-0309-non-reasoning''),
     (\<lambda>n. family ''grok-4.20'' n \<noteq> None, ''grok-4.20-0309-reasoning'')]"

definition normalizePricingModel :: "string \<Rightarrow> string" where
  "normalizePricingModel model =
     (let normalized = ToLower (TrimSpace model) in
      if HasPrefix normalized ''build/'' then TrimSpace (drop (length ''build/'') normalized)
      else if HasPrefix normalized ''grok_build/'' then TrimSpace (drop (length ''grok_build/'') normalized)
      else normalized)"

definition resolve_normalized :: "string \<Rightarrow> tokenPrice option" where
  "resolve_normalized name = (case officialTokenPrices name of
     Some price \<Rightarrow> Some price
   | None \<Rightarrow> (case List.find (\<lambda>rule. fst rule name) officialTokenPriceRules of
       Some rule \<Rightarrow> officialTokenPrices (snd rule)
     | None \<Rightarrow> None))"

definition resolveOfficialTokenPrice :: "string \<Rightarrow> tokenPrice option" where
  "resolveOfficialTokenPrice model = resolve_normalized (normalizePricingModel model)"

section \<open>Cost of a finished request\<close>

record Result =
  res_Model :: string
  CostInUSDTicks :: int

text \<open>The rates that apply: input, cached input, output.\<close>

definition rates :: "tokenPrice \<Rightarrow> int \<Rightarrow> int \<times> int \<times> int" where
  "rates price contextTokens =
     (if LongContextTokens price > 0 \<and> contextTokens > LongContextTokens price
      then (LongInputTicks price, LongCachedTicks price, LongOutputTicks price)
      else (InputTicks price, CachedInputTicks price, OutputTicks price))"

definition EstimateCost :: "string \<Rightarrow> int \<Rightarrow> int \<Rightarrow> int \<Rightarrow> int \<Rightarrow> Result option" where
  "EstimateCost model inputTokens0 cachedInputTokens outputTokens0 contextInputTokens =
     (case resolveOfficialTokenPrice model of None \<Rightarrow> None | Some price \<Rightarrow>
        let contextTokens = (if contextInputTokens \<le> 0 then inputTokens0 else contextInputTokens);
            (inputPrice, cachedPrice, outputPrice) = rates price contextTokens;
            inputTokens = max 0 inputTokens0;
            cachedTokens = max 0 (min cachedInputTokens inputTokens);
            uncachedTokens = max 0 (inputTokens - cachedTokens);
            outputTokens = max 0 outputTokens0
        in Some \<lparr>res_Model = CanonicalModel price,
             CostInUSDTicks = wrap64 (uncachedTokens * inputPrice + cachedTokens * cachedPrice + outputTokens * outputPrice)\<rparr>)"

section \<open>Reservation from a request body\<close>

definition chunk :: "string \<Rightarrow> int" where
  "chunk s = int ((length s + 2) div 3)"

definition string_tokens :: "string \<Rightarrow> int" where
  "string_tokens s = (let trimmed = TrimSpace s in
     if HasPrefix trimmed ''data:image/'' \<or> HasPrefix trimmed ''data:video/'' then 256 else max 1 (chunk s))"

text \<open>\<^verbatim>\<open>walk(false)\<close>: the estimate of a nested value.\<close>

fun walk :: "json \<Rightarrow> int" where
  "walk JNull = 0"
| "walk (JBool b) = 1"
| "walk (JNum n) = 1"
| "walk (JStr s) = string_tokens s"
| "walk (JArr vs) = sum_list (map (\<lambda>v. 1 + walk v) vs)"
| "walk (JObj fs) = sum_list (map (\<lambda>(k, v). chunk k + 1 + walk v) fs)"

definition defaultOutputTokens :: int where "defaultOutputTokens = 16384"
definition maximumOutputTokens :: int where "maximumOutputTokens = 131072"

record scan_json_state =
  sj_model :: string
  sj_total :: int
  sj_outputs :: "int list"

definition output_priority :: "string \<Rightarrow> nat option" where
  "output_priority key = (if key = ''max_output_tokens'' then Some 0 else if key = ''max_completion_tokens'' then Some 1
     else if key = ''max_tokens'' then Some 2 else None)"

text \<open>
  One field of the top-level object. Decoding a model that is neither a string nor null, or an
  output cap that is neither a number, a quoted number nor null, is an error; the result then
  carries the model read so far.
\<close>

definition scan_field :: "string \<times> json \<Rightarrow> scan_json_state \<Rightarrow> string + scan_json_state" where
  "scan_field field st =
     (let key = fst field; val = snd field; st1 = st\<lparr>sj_total := sj_total st + chunk key + 1\<rparr> in
      if key = ''model'' then
        (case val of
           JStr s \<Rightarrow> Inr (st1\<lparr>sj_model := TrimSpace s, sj_total := sj_total st1 + max 1 (chunk s)\<rparr>)
         | JNull \<Rightarrow> Inr (st1\<lparr>sj_model := [], sj_total := sj_total st1 + 1\<rparr>)
         | _ \<Rightarrow> Inl (sj_model st))
      else case output_priority key of
        Some p \<Rightarrow>
          (let accept = (\<lambda>lit. Inr (case number_Int64 lit of
               Some v \<Rightarrow> (if v > 0 then st1\<lparr>sj_outputs := (sj_outputs st1)[p := min v maximumOutputTokens],
                   sj_total := sj_total st1 + 1\<rparr> else st1\<lparr>sj_total := sj_total st1 + 1\<rparr>)
             | None \<Rightarrow> st1\<lparr>sj_total := sj_total st1 + 1\<rparr>)) in
           case val of JNum lit \<Rightarrow> accept lit
           | JStr s \<Rightarrow> if isValidNumber s then accept s else Inl (sj_model st)
           | JNull \<Rightarrow> accept []
           | _ \<Rightarrow> Inl (sj_model st))
      | None \<Rightarrow> Inr (st1\<lparr>sj_total := sj_total st1 + walk val\<rparr>))"

fun scan_fields :: "(string \<times> json) list \<Rightarrow> scan_json_state \<Rightarrow> string + scan_json_state" where
  "scan_fields [] st = Inr st"
| "scan_fields (f # fs) st = (case scan_field f st of Inl m \<Rightarrow> Inl m | Inr st' \<Rightarrow> scan_fields fs st')"

text \<open>A body: its length and what the decoder makes of it.\<close>

datatype body = Malformed nat string | Decoded nat json

definition body_length :: "body \<Rightarrow> nat" where
  "body_length b = (case b of Malformed n m \<Rightarrow> n | Decoded n v \<Rightarrow> n)"

definition scanReservationJSON :: "body \<Rightarrow> string \<times> int \<times> int" where
  "scanReservationJSON body =
     (let start = \<lparr>sj_model = [], sj_total = 0, sj_outputs = [0, 0, 0]\<rparr>;
          res = (case body of
              Malformed n m \<Rightarrow> Inl m
            | Decoded n v \<Rightarrow> (case v of JObj fs \<Rightarrow> scan_fields fs start | _ \<Rightarrow> Inr (start\<lparr>sj_total := walk v\<rparr>))) in
      case res of
        Inl m \<Rightarrow> (m, max 256 (int ((body_length body + 2) div 3)), defaultOutputTokens)
      | Inr st \<Rightarrow> (sj_model st, max 256 (sj_total st + 128),
          (case List.find (\<lambda>v. v > 0) (sj_outputs st) of Some v \<Rightarrow> v | None \<Rightarrow> defaultOutputTokens)))"

definition EstimateTextReservationFromBody :: "body \<Rightarrow> Result option" where
  "EstimateTextReservationFromBody body =
     (let (model, inputTokens, outputTokens) = scanReservationJSON body in
      if TrimSpace model = [] then None
      else if resolveOfficialTokenPrice model = None then None
      else EstimateCost model inputTokens 0 outputTokens inputTokens)"

section \<open>Reconstruction of a cost\<close>

datatype ComponentKind = ComponentUncachedInput | ComponentCachedInput | ComponentOutput
  | ComponentInputImage | ComponentOutputImage | ComponentOutputSecond

datatype Unit = UnitToken | UnitImage | UnitSecond

record Component =
  co_Kind :: ComponentKind
  co_Unit :: Unit
  co_Quantity :: int
  co_UnitPrice :: int
  co_Cost :: int

record Breakdown =
  bd_Model :: string
  bd_Cost :: int
  bd_Components :: "Component list"

definition add_component :: "ComponentKind \<Rightarrow> Unit \<Rightarrow> int \<Rightarrow> int \<Rightarrow> Breakdown \<Rightarrow> Breakdown" where
  "add_component kind unit quantity unitPrice b =
     (if quantity \<le> 0 \<or> unitPrice \<le> 0 then b
      else let cost = wrap64 (quantity * unitPrice) in
        b\<lparr>bd_Components := bd_Components b @ [\<lparr>co_Kind = kind, co_Unit = unit, co_Quantity = quantity, co_UnitPrice = unitPrice, co_Cost = cost\<rparr>],
          bd_Cost := wrap64 (bd_Cost b + cost)\<rparr>)"

record Quantities =
  q_InputTokens :: int
  q_CachedTokens :: int
  q_OutputTokens :: int
  q_ContextTokens :: int

definition ReconstructBreakdown :: "string \<Rightarrow> Quantities \<Rightarrow> Breakdown option" where
  "ReconstructBreakdown model q =
     (let normalized = normalizePricingModel model in
      case resolveOfficialTokenPrice normalized of None \<Rightarrow> None | Some price \<Rightarrow>
        let contextTokens = (if q_ContextTokens q \<le> 0 then q_InputTokens q else q_ContextTokens q);
            (inputPrice, cachedPrice, outputPrice) = rates price contextTokens;
            cached = max 0 (min (q_CachedTokens q) (q_InputTokens q));
            uncached = max 0 (q_InputTokens q - cached);
            b = add_component ComponentOutput UnitToken (max 0 (q_OutputTokens q)) outputPrice
                 (add_component ComponentCachedInput UnitToken cached cachedPrice
                   (add_component ComponentUncachedInput UnitToken uncached inputPrice
                     \<lparr>bd_Model = normalized, bd_Cost = 0, bd_Components = []\<rparr>))
        in if bd_Cost b > 0 then Some b else None)"

section \<open>The table is well formed\<close>

definition price_ok :: "tokenPrice \<Rightarrow> bool" where
  "price_ok p \<longleftrightarrow> 0 < CachedInputTicks p \<and> CachedInputTicks p \<le> InputTicks p \<and> 0 < OutputTicks p \<and>
     CachedInputTicks p \<le> LongCachedTicks p \<and> InputTicks p \<le> LongInputTicks p \<and> OutputTicks p \<le> LongOutputTicks p \<and>
     LongCachedTicks p \<le> LongInputTicks p \<and> LongInputTicks p \<le> 40000 \<and> LongOutputTicks p \<le> 120000 \<and>
     LongContextTokens p = 200000"

lemma price_ok_table: "(name, p) \<in> set buildOfficialTokenPrices \<Longrightarrow> price_ok p"
  unfolding buildOfficialTokenPrices_def register_def price_row_def standard_price_def Let_def
  by (auto simp: price_ok_def)

lemma officialTokenPrices_ok: "officialTokenPrices name = Some p \<Longrightarrow> price_ok p"
  using price_ok_table by (fastforce simp: officialTokenPrices_def dest: map_of_SomeD)

lemma resolve_ok: "resolveOfficialTokenPrice model = Some p \<Longrightarrow> price_ok p"
  using officialTokenPrices_ok
  by (fastforce simp: resolveOfficialTokenPrice_def resolve_normalized_def split: option.splits)

text \<open>The rates grow with the context, and the cached rate never exceeds the uncached one.\<close>

lemma rates_mono:
  assumes "price_ok p" "k' \<le> k" "rates p k = (i, c, out)" "rates p k' = (i', c', out')"
  shows "0 < c'" "0 < out'" "c' \<le> i'" "c \<le> i" "i' \<le> i" "c' \<le> c" "out' \<le> out" "i \<le> 40000" "out \<le> 120000"
  using assms by (auto simp: price_ok_def rates_def split: if_splits)


section \<open>What the estimators promise\<close>

definition cost_of :: "int \<times> int \<times> int \<Rightarrow> int \<Rightarrow> int \<Rightarrow> int \<Rightarrow> int" where
  "cost_of r uncached cached out = (case r of (i, c, q) \<Rightarrow> uncached * i + cached * c + out * q)"

lemma EstimateCost_eq:
  "EstimateCost model inp cached out ctx = map_option (\<lambda>price.
     \<lparr>res_Model = CanonicalModel price,
      CostInUSDTicks = wrap64 (cost_of (rates price (if ctx \<le> 0 then inp else ctx))
        (max 0 inp - max 0 (min cached (max 0 inp))) (max 0 (min cached (max 0 inp))) (max 0 out))\<rparr>)
     (resolveOfficialTokenPrice model)"
  by (auto simp: EstimateCost_def cost_of_def Let_def max_def min_def split: option.splits prod.splits)

lemma cost_of_mono:
  assumes "price_ok p" "k' \<le> k" "0 \<le> u" "0 \<le> c" "0 \<le> q" "u + c \<le> inp" "q \<le> out"
  shows "0 \<le> cost_of (rates p k') u c q" "cost_of (rates p k') u c q \<le> cost_of (rates p k) inp 0 out"
proof -
  obtain i' c' q' where r': "rates p k' = (i', c', q')" by (cases "rates p k'") auto
  obtain ir cr qr where r: "rates p k = (ir, cr, qr)" by (cases "rates p k") auto
  note m = rates_mono [OF assms(1,2) r r']
  show "0 \<le> cost_of (rates p k') u c q" using m assms by (simp add: r' cost_of_def)
  have "u * i' + c * c' \<le> u * ir + c * ir"
    using m assms by (intro add_mono mult_left_mono) auto
  also have "\<dots> = (u + c) * ir" by (simp add: algebra_simps)
  also have "\<dots> \<le> inp * ir" using m assms by (intro mult_right_mono) auto
  finally have inp: "u * i' + c * c' \<le> inp * ir" .
  have "q * q' \<le> out * qr" using m assms by (intro mult_mono) auto
  with inp show "cost_of (rates p k') u c q \<le> cost_of (rates p k) inp 0 out"
    by (simp add: r r' cost_of_def)
qed

lemma in_int64_between: "0 \<le> x \<Longrightarrow> x \<le> 160000 * 10 ^ 12 \<Longrightarrow> in_int64 x"
  by (simp add: in_int64_def)

lemma cost_of_bound:
  assumes "price_ok p" "0 \<le> inp" "inp \<le> 10 ^ 12" "0 \<le> out" "out \<le> 10 ^ 12"
  shows "cost_of (rates p k) inp 0 out \<le> 160000 * 10 ^ 12"
proof -
  obtain ir cr qr where r: "rates p k = (ir, cr, qr)" by (cases "rates p k") auto
  note m = rates_mono [OF assms(1) order_refl r r]
  have "inp * ir \<le> 10 ^ 12 * 40000" "out * qr \<le> 10 ^ 12 * 120000"
    using m assms by (intro mult_mono; simp)+
  thus ?thesis by (simp add: r cost_of_def)
qed

text \<open>
  Property C33: the hold taken before a request covers its charge. For token counts up to a
  million million, a request that used at most the estimated input and at most the estimated
  output, with any part of the input cached, is charged a non-negative amount no larger than the
  reservation, computed in 64-bit arithmetic and across the long-context threshold.
\<close>

theorem reservation_covers_charge:
  assumes "0 \<le> inp" "inp \<le> 10 ^ 12" "0 \<le> out" "out \<le> 10 ^ 12" "inp' \<le> inp" "out' \<le> out"
    and "EstimateCost model inp 0 out inp = Some held" "EstimateCost model inp' cached' out' inp' = Some charged"
  shows "0 \<le> CostInUSDTicks charged \<and> CostInUSDTicks charged \<le> CostInUSDTicks held \<and>
    res_Model charged = res_Model held"
proof -
  obtain p where p: "resolveOfficialTokenPrice model = Some p"
    using assms(7) by (auto simp: EstimateCost_eq)
  let ?c = "max 0 (min cached' (max 0 inp'))" and ?u = "max 0 inp' - max 0 (min cached' (max 0 inp'))"
  have held: "held = \<lparr>res_Model = CanonicalModel p, CostInUSDTicks = wrap64 (cost_of (rates p inp) inp 0 out)\<rparr>"
    using assms(1,3,7) by (auto simp: EstimateCost_eq p max_def min_def)
  have charged: "charged = \<lparr>res_Model = CanonicalModel p,
      CostInUSDTicks = wrap64 (cost_of (rates p inp') ?u ?c (max 0 out'))\<rparr>"
    using assms(8) by (auto simp: EstimateCost_eq p)
  have ok: "price_ok p" by (rule resolve_ok [OF p])
  have le: "0 \<le> cost_of (rates p inp') ?u ?c (max 0 out')"
    "cost_of (rates p inp') ?u ?c (max 0 out') \<le> cost_of (rates p inp) inp 0 out"
    using assms by (auto intro!: cost_of_mono [OF ok])
  have "cost_of (rates p inp) inp 0 out \<le> 160000 * 10 ^ 12"
    using assms by (intro cost_of_bound [OF ok]) auto
  hence "in_int64 (cost_of (rates p inp') ?u ?c (max 0 out'))" "in_int64 (cost_of (rates p inp) inp 0 out)"
    by (auto intro!: in_int64_between intro: order_trans [OF le(1)] order_trans [OF le(2)] simp: le)
  with le show ?thesis unfolding held charged by (simp only: wrap64_id Result.simps simp_thms)
qed

theorem reservation_covers_charge_witness:
  "let held = EstimateCost ''grok-4.5'' 300000 0 16384 300000; charged = EstimateCost ''grok-4.5'' 1000 900 50 1000 in
   0 \<le> CostInUSDTicks (the charged) \<and> CostInUSDTicks (the charged) \<le> CostInUSDTicks (the held) \<and>
   res_Model (the charged) = res_Model (the held)"
proof -
  have "\<not> Option.is_none (EstimateCost ''grok-4.5'' 300000 0 16384 300000)"
    "\<not> Option.is_none (EstimateCost ''grok-4.5'' 1000 900 50 1000)" by code_simp+
  then obtain h c where "EstimateCost ''grok-4.5'' 300000 0 16384 300000 = Some h"
    "EstimateCost ''grok-4.5'' 1000 900 50 1000 = Some c" by (auto simp: Option.is_none_def)
  then show ?thesis
    using reservation_covers_charge [of 300000 16384 1000 50 "''grok-4.5''" h 900 c] by (simp add: Let_def)
qed

lemma add_component_cost:
  "0 \<le> q \<Longrightarrow> 0 \<le> p \<Longrightarrow> bd_Cost (add_component kind unit q p b) = wrap64 (bd_Cost b + q * p)"
  if "in_int64 (bd_Cost b)"
  using that by (auto simp: add_component_def Let_def wrap64_id)

lemma add_component_sum:
  assumes "bd_Cost b = wrap64 (sum_list (map co_Cost (bd_Components b)))"
  shows "bd_Cost (add_component kind unit q p b) =
    wrap64 (sum_list (map co_Cost (bd_Components (add_component kind unit q p b))))"
  using assms by (simp add: add_component_def Let_def)

text \<open>
  The reconstructed breakdown of a row adds up to the price the estimator charged
  for it. Whenever a row is broken down, and its model name is stable under normalisation, the
  total is the sum of the listed components and equals the estimator's cost, all in 64-bit
  arithmetic.
\<close>

theorem breakdown_adds_up:
  assumes "normalizePricingModel (normalizePricingModel model) = normalizePricingModel model"
    and "ReconstructBreakdown model q = Some b"
  shows "map_option CostInUSDTicks
      (EstimateCost model (q_InputTokens q) (q_CachedTokens q) (q_OutputTokens q) (q_ContextTokens q)) = Some (bd_Cost b) \<and>
    bd_Cost b = wrap64 (sum_list (map co_Cost (bd_Components b)))"
proof -
  have res: "resolveOfficialTokenPrice (normalizePricingModel model) = resolveOfficialTokenPrice model"
    by (simp add: resolveOfficialTokenPrice_def assms(1))
  obtain p where p: "resolveOfficialTokenPrice model = Some p"
    using assms(2) by (auto simp: ReconstructBreakdown_def res Let_def split: option.splits)
  let ?inp = "q_InputTokens q" and ?k = "if q_ContextTokens q \<le> 0 then q_InputTokens q else q_ContextTokens q"
  obtain i c out where r: "rates p ?k = (i, c, out)" by (cases "rates p ?k") auto
  note ok = rates_mono [OF resolve_ok [OF p] order_refl r r]
  let ?c = "max 0 (min (q_CachedTokens q) ?inp)"
  let ?b0 = "\<lparr>bd_Model = normalizePricingModel model, bd_Cost = 0, bd_Components = []\<rparr>"
  let ?b1 = "add_component ComponentUncachedInput UnitToken (max 0 (?inp - ?c)) i ?b0"
  let ?b2 = "add_component ComponentCachedInput UnitToken ?c c ?b1"
  let ?b3 = "add_component ComponentOutput UnitToken (max 0 (q_OutputTokens q)) out ?b2"
  have b: "b = ?b3"
    using assms(2) by (auto simp: ReconstructBreakdown_def res p r Let_def split: if_splits)
  have c1: "bd_Cost ?b1 = wrap64 (max 0 (?inp - ?c) * i)"
    using ok by (subst add_component_cost) (auto simp: in_int64_def)
  have c2: "bd_Cost ?b2 = wrap64 (max 0 (?inp - ?c) * i + ?c * c)"
    using ok by (subst add_component_cost) (auto simp: c1 wrap64_range)
  have c3: "bd_Cost ?b3 = wrap64 (max 0 (?inp - ?c) * i + ?c * c + max 0 (q_OutputTokens q) * out)"
    using ok by (subst add_component_cost) (auto simp: c2 wrap64_range)
  have sum: "bd_Cost ?b3 = wrap64 (sum_list (map co_Cost (bd_Components ?b3)))"
    by (intro add_component_sum) (simp add: wrap64_def)
  have "max 0 ?inp - max 0 (min (q_CachedTokens q) (max 0 ?inp)) = max 0 (?inp - ?c)"
    "max 0 (min (q_CachedTokens q) (max 0 ?inp)) = ?c" by auto
  then show ?thesis using sum by (simp only: b c3 EstimateCost_eq p r cost_of_def option.map Result.simps prod.case simp_thms)
qed

theorem breakdown_adds_up_witness:
  "let q = \<lparr>q_InputTokens = 300000, q_CachedTokens = 1000, q_OutputTokens = 20, q_ContextTokens = 0\<rparr>;
       b = the (ReconstructBreakdown ''grok-4.5'' q) in
   map_option CostInUSDTicks (EstimateCost ''grok-4.5'' 300000 1000 20 0) = Some (bd_Cost b) \<and>
   bd_Cost b = wrap64 (sum_list (map co_Cost (bd_Components b)))"
proof -
  let ?q = "\<lparr>q_InputTokens = 300000, q_CachedTokens = 1000, q_OutputTokens = 20, q_ContextTokens = 0\<rparr>"
  have "\<not> Option.is_none (ReconstructBreakdown ''grok-4.5'' ?q)" by code_simp
  then obtain b where "ReconstructBreakdown ''grok-4.5'' ?q = Some b" by (auto simp: Option.is_none_def)
  moreover have "normalizePricingModel (normalizePricingModel ''grok-4.5'') = normalizePricingModel ''grok-4.5''"
    by code_simp
  ultimately show ?thesis
    using breakdown_adds_up [of "''grok-4.5''" ?q b] by (simp add: Let_def del: map_option_eq_Some)
qed

text \<open>
  The reconstruction normalises a name twice. A name carrying the source prefix twice is unpriced
  for the estimator and priced for the reconstruction.
\<close>

lemma double_prefix_diverges:
  "Option.is_none (EstimateCost ''build/build/grok-4.5'' 1000 0 10 0)"
  "\<not> Option.is_none (ReconstructBreakdown ''build/build/grok-4.5''
     \<lparr>q_InputTokens = 1000, q_CachedTokens = 0, q_OutputTokens = 10, q_ContextTokens = 0\<rparr>)"
  by code_simp+

end
