(* ===== verification/Key_Ledger.thy ===== *)
theory Key_Ledger
  imports Prelude "HOL-Library.AList"
begin

text \<open>
  The spending ledger of one client key: the Redis scripts that reserve, settle, release, reset
  and roll over (\<^verbatim>\<open>src/internal/store/redis_scripts.go\<close>). Each script runs as a unit, so it is one
  function on the keys it touches. A hash is an association list in the order HGETALL returns it;
  deleting the last field deletes the hash with its expiry. Lua numbers are doubles, exact for
  integers below 2 to the 53; \<^verbatim>\<open>tostring\<close> of a number keeps fourteen significant digits, which is
  written out. Amounts are USD ticks.
\<close>

section \<open>State and scripts\<close>

type_synonym holds = "(string \<times> (int \<times> int) option) list"

text \<open>
  A reservation field is its amount and expiry in Unix seconds, or \<^const>\<open>None\<close> for a text without
  both numbers. \<open>lg_res_expire\<close> is the hash's expiry in Unix milliseconds.
\<close>

record ledger =
  lg_reservations :: holds
  lg_res_expire :: "int option"
  lg_used :: "int option"
  lg_settled :: "(string \<times> int) list"
  lg_limit :: "int option"

datatype reply = Reply int | ErrorReply string

definition number_or_0 :: "int option \<Rightarrow> int" where
  "number_or_0 v = (case v of Some n \<Rightarrow> n | None \<Rightarrow> 0)"

text \<open>\<^verbatim>\<open>tostring\<close> of a positive Lua number, read back: fourteen significant digits, ties to even.\<close>

function excess_digits :: "int \<Rightarrow> nat" where
  "excess_digits n = (if n < 100000000000000 then 0 else Suc (excess_digits (n div 10)))"
  by auto
termination by (relation "measure nat") auto

declare excess_digits.simps [simp del]

definition lua_text :: "int \<Rightarrow> int" where
  "lua_text n = (let m = 10 ^ excess_digits n; q = n div m; r = n mod m in
     if 2 * r < m then q * m else if 2 * r > m then (q + 1) * m else if even q then q * m else (q + 1) * m)"

text \<open>Writing the fields of the reservation hash.\<close>

definition set_holds :: "holds \<Rightarrow> ledger \<Rightarrow> ledger" where
  "set_holds fs l = l\<lparr>lg_reservations := fs, lg_res_expire := (if fs = [] then None else lg_res_expire l)\<rparr>"

datatype scan = AlreadyHeld holds | Conflicting holds | Scanned holds int int

text \<open>
  The loop over the fields: what is kept so far, the sum of the live holds and the latest expiry.
\<close>

fun reserve_scan :: "string \<Rightarrow> int \<Rightarrow> int \<Rightarrow> holds \<Rightarrow> holds \<Rightarrow> int \<Rightarrow> int \<Rightarrow> scan" where
  "reserve_scan event_id amount now [] kept live_sum max_expiry = Scanned kept live_sum max_expiry"
| "reserve_scan event_id amount now ((field, raw) # rest) kept live_sum max_expiry =
     (case raw of
        None \<Rightarrow> reserve_scan event_id amount now rest kept live_sum max_expiry
      | Some (held, expiry) \<Rightarrow>
          if expiry \<le> now then reserve_scan event_id amount now rest kept live_sum max_expiry
          else if field = event_id then
            (if held = amount then AlreadyHeld (kept @ (field, raw) # rest) else Conflicting (kept @ (field, raw) # rest))
          else reserve_scan event_id amount now rest (kept @ [(field, raw)]) (live_sum + held)
                 (if expiry > max_expiry then expiry else max_expiry))"

definition reserveApiKeyBillingScript :: "string \<Rightarrow> int \<Rightarrow> int \<Rightarrow> int \<Rightarrow> ledger \<Rightarrow> reply \<times> ledger" where
  "reserveApiKeyBillingScript event_id amount now expires_at l =
     (let limit = number_or_0 (lg_limit l); used = number_or_0 (lg_used l) in
      case reserve_scan event_id amount now (lg_reservations l) [] 0 expires_at of
        AlreadyHeld fs \<Rightarrow> (Reply 1, set_holds fs l)
      | Conflicting fs \<Rightarrow> (ErrorReply ''billing reservation exists with a different amount'', set_holds fs l)
      | Scanned fs live_sum max_expiry \<Rightarrow>
          if limit > 0 \<and> used + live_sum + amount > limit then (Reply 0, set_holds fs l)
          else (Reply 1, l\<lparr>lg_reservations := AList.update event_id (Some (lua_text amount, expires_at)) fs,
                  lg_res_expire := Some (max_expiry * 1000 + 60000)\<rparr>))"

definition settleApiKeyBillingScript :: "string \<Rightarrow> int \<Rightarrow> ledger \<Rightarrow> reply \<times> ledger" where
  "settleApiKeyBillingScript event_id amount l =
     (case map_of (lg_settled l) event_id of
        Some prior \<Rightarrow> if prior \<noteq> amount then (Reply (- 1), l) else (Reply 0, l)
      | None \<Rightarrow>
          (let l1 = set_holds (AList.delete event_id (lg_reservations l))
                      (l\<lparr>lg_settled := AList.update event_id amount (lg_settled l)\<rparr>);
               used = number_or_0 (lg_used l) + amount in
           if in_int64 used then (Reply 1, l1\<lparr>lg_used := Some used\<rparr>)
           else (ErrorReply ''ERR increment or decrement would overflow'', l1)))"

definition releaseApiKeyBillingScript :: "string \<Rightarrow> ledger \<Rightarrow> reply \<times> ledger" where
  "releaseApiKeyBillingScript event_id l =
     (Reply (if map_of (lg_reservations l) event_id = None then 0 else 1),
      set_holds (AList.delete event_id (lg_reservations l)) l)"

definition resetApiKeyBillingScript :: "ledger \<Rightarrow> reply \<times> ledger" where
  "resetApiKeyBillingScript l = (Reply 1, (set_holds [] l)\<lparr>lg_used := Some 0, lg_settled := []\<rparr>)"

text \<open>What the rollover script does to the ledger once it decided to roll over.\<close>

definition rollover_ledger :: "ledger \<Rightarrow> ledger" where
  "rollover_ledger l = l\<lparr>lg_used := Some 0, lg_settled := []\<rparr>"

text \<open>Redis drops the hash when its expiry has passed.\<close>

definition expire_holds :: "ledger \<Rightarrow> ledger" where
  "expire_holds l = set_holds [] l"

definition fresh_ledger :: "int \<Rightarrow> ledger" where
  "fresh_ledger limit = \<lparr>lg_reservations = [], lg_res_expire = None, lg_used = None, lg_settled = [], lg_limit = Some limit\<rparr>"

section \<open>Lemmas on the scan\<close>

definition live_amount :: "int \<Rightarrow> (int \<times> int) option \<Rightarrow> int" where
  "live_amount now raw = (case raw of Some (held, expiry) \<Rightarrow> if now < expiry then held else 0 | None \<Rightarrow> 0)"

definition live_sum :: "int \<Rightarrow> holds \<Rightarrow> int" where
  "live_sum now fs = sum_list (map (\<lambda>f. live_amount now (snd f)) fs)"

definition holds_positive :: "holds \<Rightarrow> bool" where
  "holds_positive fs = list_all (\<lambda>f. case snd f of Some (held, expiry) \<Rightarrow> 0 < held | None \<Rightarrow> True) fs"

definition covered :: "holds \<Rightarrow> int \<Rightarrow> bool" where
  "covered fs d = list_all (\<lambda>f. case snd f of Some (held, expiry) \<Rightarrow> expiry * 1000 + 60000 \<le> d | None \<Rightarrow> True) fs"

lemma live_sum_simps [simp]:
  "live_sum now [] = 0"
  "live_sum now (f # fs) = live_amount now (snd f) + live_sum now fs"
  "live_sum now (fs @ gs) = live_sum now fs + live_sum now gs"
  by (simp_all add: live_sum_def)

lemma holds_positive_simps [simp]:
  "holds_positive []"
  "holds_positive ((e, raw) # fs) \<longleftrightarrow> (case raw of Some (held, expiry) \<Rightarrow> 0 < held | None \<Rightarrow> True) \<and> holds_positive fs"
  "holds_positive (fs @ gs) \<longleftrightarrow> holds_positive fs \<and> holds_positive gs"
  by (simp_all add: holds_positive_def)

lemma covered_simps [simp]:
  "covered [] d"
  "covered ((e, raw) # fs) d \<longleftrightarrow> (case raw of Some (held, expiry) \<Rightarrow> expiry * 1000 + 60000 \<le> d | None \<Rightarrow> True) \<and> covered fs d"
  "covered (fs @ gs) d \<longleftrightarrow> covered fs d \<and> covered gs d"
  by (simp_all add: covered_def)

lemma covered_mono: "covered fs d \<Longrightarrow> d \<le> d' \<Longrightarrow> covered fs d'"
  by (induction fs) (auto split: option.splits)

lemma lua_text_exact: "n < 100000000000000 \<Longrightarrow> lua_text n = n"
  by (simp add: lua_text_def excess_digits.simps)

lemma live_amount_antimono: "now \<le> now' \<Longrightarrow> holds_positive [(e, raw)] \<Longrightarrow> live_amount now' raw \<le> live_amount now raw"
  by (auto simp: live_amount_def split: option.splits)

lemma live_sum_antimono: "now \<le> now' \<Longrightarrow> holds_positive fs \<Longrightarrow> live_sum now' fs \<le> live_sum now fs"
proof (induction fs)
  case (Cons f fs)
  then show ?case using live_amount_antimono [of now now' "fst f" "snd f"] by (cases f) auto
qed simp

lemma live_amount_nonneg: "holds_positive [(e, raw)] \<Longrightarrow> 0 \<le> live_amount now raw"
  by (auto simp: live_amount_def split: option.splits)

lemma live_sum_nonneg: "holds_positive fs \<Longrightarrow> 0 \<le> live_sum now fs"
proof (induction fs)
  case (Cons f fs)
  then show ?case using live_amount_nonneg [of "fst f" "snd f" now] by (cases f) auto
qed simp

definition holds_ok :: "holds \<Rightarrow> bool" where
  "holds_ok fs \<longleftrightarrow> distinct (map fst fs) \<and> holds_positive fs"

lemma scan_Scanned:
  assumes "reserve_scan ev amount now fs kept ls mx = Scanned kept' ls' mx'"
  shows "ls' = ls + live_sum now fs \<and> live_sum now kept' = live_sum now kept + live_sum now fs \<and> mx \<le> mx' \<and>
    (\<exists>fs'. kept' = kept @ fs' \<and> subseq fs' fs \<and> ev \<notin> fst ` set fs' \<and>
      (covered kept (mx * 1000 + 60000) \<longrightarrow> covered kept' (mx' * 1000 + 60000)))"
  using assms
proof (induction ev amount now fs kept ls mx rule: reserve_scan.induct)
  case (1 ev amount now kept ls mx)
  then show ?case by auto
next
  case (2 ev amount now field raw rest kept ls mx)
  show ?case
  proof (cases "\<exists>held expiry. raw = Some (held, expiry) \<and> now < expiry")
    case False
    then have "reserve_scan ev amount now rest kept ls mx = Scanned kept' ls' mx'" "live_amount now raw = 0"
      using 2 by (auto simp: live_amount_def split: option.splits if_splits)
    then show ?thesis using 2(1) 2(2) False by (cases raw) (fastforce split: if_splits)+
  next
    case True
    then obtain held expiry where raw: "raw = Some (held, expiry)" "now < expiry" by auto
    let ?mx = "if expiry > mx then expiry else mx"
    have ne: "field \<noteq> ev" and sc: "reserve_scan ev amount now rest (kept @ [(field, raw)]) (ls + held) ?mx = Scanned kept' ls' mx'"
      using 2(4) raw by (auto split: if_splits)
    from 2(3) [OF raw(1) refl] raw ne sc have ih: "ls' = ls + held + live_sum now rest \<and>
        live_sum now kept' = live_sum now (kept @ [(field, raw)]) + live_sum now rest \<and> ?mx \<le> mx' \<and>
        (\<exists>fs'. kept' = (kept @ [(field, raw)]) @ fs' \<and> subseq fs' rest \<and> ev \<notin> fst ` set fs' \<and>
          (covered (kept @ [(field, raw)]) (?mx * 1000 + 60000) \<longrightarrow> covered kept' (mx' * 1000 + 60000)))"
      by auto
    then obtain fs' where fs': "kept' = kept @ (field, raw) # fs'" "subseq fs' rest" "ev \<notin> fst ` set fs'"
      "covered (kept @ [(field, raw)]) (?mx * 1000 + 60000) \<longrightarrow> covered kept' (mx' * 1000 + 60000)" by auto
    have "covered kept (mx * 1000 + 60000) \<Longrightarrow> covered (kept @ [(field, raw)]) (?mx * 1000 + 60000)"
      using raw by (auto elim: covered_mono)
    then show ?thesis using ih fs' raw ne
      by (auto simp: live_amount_def intro!: exI [of _ "(field, raw) # fs'"])
  qed
qed

lemma scan_early:
  assumes "reserve_scan ev amount now fs kept ls mx \<in> {AlreadyHeld fs', Conflicting fs'}"
  shows "live_sum now fs' = live_sum now kept + live_sum now fs \<and> (\<exists>gs. fs' = kept @ gs \<and> subseq gs fs)"
  using assms
proof (induction ev amount now fs kept ls mx rule: reserve_scan.induct)
  case (1 ev amount now kept ls mx)
  then show ?case by auto
next
  case (2 ev amount now field raw rest kept ls mx)
  show ?case
  proof (cases "\<exists>held expiry. raw = Some (held, expiry) \<and> now < expiry")
    case False
    then have "reserve_scan ev amount now rest kept ls mx \<in> {AlreadyHeld fs', Conflicting fs'}" "live_amount now raw = 0"
      using 2 by (auto simp: live_amount_def split: option.splits if_splits)
    then show ?thesis using 2(1) 2(2) False by (cases raw) (fastforce split: if_splits)+
  next
    case True
    then obtain held expiry where raw: "raw = Some (held, expiry)" "now < expiry" by auto
    show ?thesis
    proof (cases "field = ev")
      case True
      then show ?thesis using 2(4) raw by (auto split: if_splits)
    next
      case ne: False
      let ?mx = "if expiry > mx then expiry else mx"
      have "reserve_scan ev amount now rest (kept @ [(field, raw)]) (ls + held) ?mx \<in> {AlreadyHeld fs', Conflicting fs'}"
        using 2(4) raw ne by simp
      with 2(3) [OF raw(1) refl] raw ne
      have "live_sum now fs' = live_sum now (kept @ [(field, raw)]) + live_sum now rest \<and>
          (\<exists>gs. fs' = (kept @ [(field, raw)]) @ gs \<and> subseq gs rest)" by auto
      then obtain gs where "live_sum now fs' = live_sum now (kept @ [(field, raw)]) + live_sum now rest"
        "fs' = kept @ (field, raw) # gs" "subseq gs rest" by auto
      then show ?thesis by (auto intro!: exI [of _ "(field, raw) # gs"])
    qed
  qed
qed

lemma subseq_set: "subseq gs fs \<Longrightarrow> set gs \<subseteq> set fs"
  by (induction rule: list_emb.induct) auto

lemma subseq_distinct_map: "subseq gs fs \<Longrightarrow> distinct (map f fs) \<Longrightarrow> distinct (map f gs)"
  by (induction rule: list_emb.induct) (auto dest: subseq_set)

lemma holds_ok_subseq: "subseq gs fs \<Longrightarrow> holds_ok fs \<Longrightarrow> holds_ok gs"
  by (auto simp: holds_ok_def holds_positive_def list_all_iff dest: subseq_set subseq_distinct_map)

lemma covered_subseq: "subseq gs fs \<Longrightarrow> covered fs d \<Longrightarrow> covered gs d"
  by (auto simp: covered_def list_all_iff dest: subseq_set)

lemma subseq_delete: "subseq (AList.delete e fs) fs"
  by (simp add: AList.delete_eq subseq_filter_left)

lemma delete_absent: "e \<notin> fst ` set fs \<Longrightarrow> AList.delete e fs = fs"
  by (force simp: AList.delete_eq filter_id_conv)

lemma update_absent: "e \<notin> fst ` set fs \<Longrightarrow> AList.update e v fs = fs @ [(e, v)]"
  by (induction fs) auto

lemma live_sum_delete:
  assumes "holds_ok fs" "map_of fs e = Some raw"
  shows "live_sum now (AList.delete e fs) = live_sum now fs - live_amount now raw"
  using assms
proof (induction fs)
  case (Cons f fs)
  show ?case
  proof (cases "fst f = e")
    case True
    then have "e \<notin> fst ` set fs" using Cons.prems(1) by (auto simp: holds_ok_def)
    then show ?thesis using True Cons.prems(2) delete_absent [of e fs] by (cases f) (simp add: AList.delete_eq)
  next
    case False
    have "holds_ok fs" using Cons.prems(1) by (cases f) (auto simp: holds_ok_def)
    then show ?thesis using False Cons by (cases f) (auto simp: AList.delete_eq)
  qed
qed simp

section \<open>The budget\<close>

text \<open>
  \<open>ledger_ok t l\<close>: at time \<open>t\<close> (Unix milliseconds) the fields are distinct positive holds, the
  hash outlives every hold it has, and what is spent and held stays within a positive limit.
\<close>

definition ledger_ok :: "int \<Rightarrow> ledger \<Rightarrow> bool" where
  "ledger_ok t l \<longleftrightarrow> holds_ok (lg_reservations l) \<and>
     (\<forall>d. lg_res_expire l = Some d \<longrightarrow> covered (lg_reservations l) d) \<and>
     0 \<le> number_or_0 (lg_used l) \<and> 0 < number_or_0 (lg_limit l) \<and>
     number_or_0 (lg_used l) + live_sum (t div 1000) (lg_reservations l) \<le> number_or_0 (lg_limit l)"

text \<open>
  What happens to a ledger over time: the clock advances, Redis drops an expired hash, requests
  reserve and release, a request settles at most what it still holds, the period rolls over, an
  operator resets the usage or raises the limit.
\<close>

inductive ledger_step :: "int \<times> ledger \<Rightarrow> int \<times> ledger \<Rightarrow> bool" where
  wait: "t \<le> t' \<Longrightarrow> ledger_step (t, l) (t', l)"
| expire: "lg_res_expire l = Some d \<Longrightarrow> d \<le> t \<Longrightarrow> ledger_step (t, l) (t, expire_holds l)"
| reserve: "0 < amount \<Longrightarrow> amount < 100000000000000 \<Longrightarrow>
    reserveApiKeyBillingScript ev amount (t div 1000) expires_at l = (rep, l') \<Longrightarrow> ledger_step (t, l) (t, l')"
| settle: "map_of (lg_reservations l) ev = Some (Some (held, expiry)) \<Longrightarrow> t div 1000 < expiry \<Longrightarrow>
    0 \<le> amount \<Longrightarrow> amount \<le> held \<Longrightarrow> settleApiKeyBillingScript ev amount l = (rep, l') \<Longrightarrow> ledger_step (t, l) (t, l')"
| release: "releaseApiKeyBillingScript ev l = (rep, l') \<Longrightarrow> ledger_step (t, l) (t, l')"
| reset: "resetApiKeyBillingScript l = (rep, l') \<Longrightarrow> ledger_step (t, l) (t, l')"
| rollover: "ledger_step (t, l) (t, rollover_ledger l)"
| raise_limit: "number_or_0 (lg_limit l) \<le> n \<Longrightarrow> ledger_step (t, l) (t, l\<lparr>lg_limit := Some n\<rparr>)"

lemma reserve_stepI:
  "0 < amount \<Longrightarrow> amount < 100000000000000 \<Longrightarrow> now = t div 1000 \<Longrightarrow>
   ledger_step (t, l) (t, snd (reserveApiKeyBillingScript ev amount now expires_at l))"
  by (metis ledger_step.reserve prod.collapse)

lemma settle_stepI:
  "map_of (lg_reservations l) ev = Some (Some (held, expiry)) \<Longrightarrow> t div 1000 < expiry \<Longrightarrow> 0 \<le> amount \<Longrightarrow> amount \<le> held \<Longrightarrow>
   ledger_step (t, l) (t, snd (settleApiKeyBillingScript ev amount l))"
  by (metis ledger_step.settle prod.collapse)

lemma set_holds_sel [simp]:
  "lg_reservations (set_holds fs l) = fs" "lg_used (set_holds fs l) = lg_used l"
  "lg_settled (set_holds fs l) = lg_settled l" "lg_limit (set_holds fs l) = lg_limit l"
  "lg_res_expire (set_holds fs l) = (if fs = [] then None else lg_res_expire l)"
  by (simp_all add: set_holds_def)

lemma set_holds_ok:
  assumes "ledger_ok t l" "subseq fs (lg_reservations l)"
    "live_sum (t div 1000) fs \<le> live_sum (t div 1000) (lg_reservations l)"
  shows "ledger_ok t (set_holds fs l)"
  using assms holds_ok_subseq covered_subseq by (fastforce simp: ledger_ok_def)

lemma live_sum_subseq_le: "subseq gs fs \<Longrightarrow> holds_positive fs \<Longrightarrow> live_sum now gs \<le> live_sum now fs"
proof (induction rule: list_emb.induct)
  case (list_emb_Cons xs ys y)
  then show ?case using live_amount_nonneg [of "fst y" "snd y" now] by (cases y) auto
qed (auto simp: split_paired_all live_sum_nonneg)

lemma reserve_ok:
  assumes ok: "ledger_ok t l" and amount: "0 < amount" "amount < 100000000000000"
    and run: "reserveApiKeyBillingScript ev amount (t div 1000) expires_at l = (rep, l')"
  shows "ledger_ok t l'"
proof (cases "reserve_scan ev amount (t div 1000) (lg_reservations l) [] 0 expires_at")
  case (AlreadyHeld fs)
  then show ?thesis using run set_holds_ok [OF ok, of fs] scan_early [of ev amount "t div 1000" "lg_reservations l" "[]" 0 expires_at fs]
    by (auto simp: reserveApiKeyBillingScript_def Let_def)
next
  case (Conflicting fs)
  then show ?thesis using run set_holds_ok [OF ok, of fs] scan_early [of ev amount "t div 1000" "lg_reservations l" "[]" 0 expires_at fs]
    by (auto simp: reserveApiKeyBillingScript_def Let_def)
next
  case (Scanned fs ls mx)
  note sc = scan_Scanned [OF Scanned]
  have fs: "subseq fs (lg_reservations l)" "ev \<notin> fst ` set fs" "covered fs (mx * 1000 + 60000)"
    "live_sum (t div 1000) fs = ls" "expires_at \<le> mx" "ls = live_sum (t div 1000) (lg_reservations l)"
    using sc by auto
  show ?thesis
  proof (cases "number_or_0 (lg_limit l) > 0 \<and> number_or_0 (lg_used l) + ls + amount > number_or_0 (lg_limit l)")
    case True
    then show ?thesis using run Scanned set_holds_ok [OF ok fs(1)] fs
      by (auto simp: reserveApiKeyBillingScript_def Let_def)
  next
    case False
    then have l': "l' = l\<lparr>lg_reservations := fs @ [(ev, Some (amount, expires_at))], lg_res_expire := Some (mx * 1000 + 60000)\<rparr>"
      using run Scanned update_absent [OF fs(2)] lua_text_exact [OF amount(2)]
      by (auto simp: reserveApiKeyBillingScript_def Let_def)
    have "live_amount (t div 1000) (Some (amount, expires_at)) \<le> amount" using amount by (simp add: live_amount_def)
    moreover have "holds_ok fs" using holds_ok_subseq [OF fs(1)] ok by (simp add: ledger_ok_def)
    moreover have "number_or_0 (lg_used l) + ls + amount \<le> number_or_0 (lg_limit l)" "0 < number_or_0 (lg_limit l)"
      using False ok by (auto simp: ledger_ok_def)
    ultimately show ?thesis using ok fs amount by (auto simp: l' ledger_ok_def holds_ok_def)
  qed
qed

lemma settle_ok:
  assumes ok: "ledger_ok t l" and hold: "map_of (lg_reservations l) ev = Some (Some (held, expiry))" "t div 1000 < expiry"
    and amount: "0 \<le> amount" "amount \<le> held" and run: "settleApiKeyBillingScript ev amount l = (rep, l')"
  shows "ledger_ok t l'"
proof (cases "map_of (lg_settled l) ev")
  case (Some prior)
  then show ?thesis using ok run by (auto simp: settleApiKeyBillingScript_def split: if_splits)
next
  case None
  let ?fs = "AList.delete ev (lg_reservations l)"
  have fs: "holds_ok (lg_reservations l)" using ok by (simp add: ledger_ok_def)
  have live: "live_sum (t div 1000) ?fs = live_sum (t div 1000) (lg_reservations l) - held"
    using live_sum_delete [OF fs hold(1)] hold(2) by (simp add: live_amount_def)
  have ok': "holds_ok ?fs" "lg_res_expire l = Some d \<Longrightarrow> covered ?fs d" for d
    using ok holds_ok_subseq [OF subseq_delete] covered_subseq [OF subseq_delete] by (auto simp: ledger_ok_def)
  show ?thesis using run None ok ok' live amount
    by (auto simp: settleApiKeyBillingScript_def ledger_ok_def Let_def number_or_0_def split: if_splits option.splits)
qed

lemma ledger_step_ok: "ledger_step s s' \<Longrightarrow> ledger_ok (fst s) (snd s) \<Longrightarrow> ledger_ok (fst s') (snd s')"
proof (induction rule: ledger_step.induct)
  case (wait t t' l)
  then have "t div 1000 \<le> t' div 1000" by (simp add: zdiv_mono1)
  then show ?case using wait live_sum_antimono [of "t div 1000" "t' div 1000" "lg_reservations l"]
    by (fastforce simp: ledger_ok_def holds_ok_def)
next
  case (expire l d t)
  then show ?case using set_holds_ok [of t l "[]"] live_sum_nonneg [of "lg_reservations l" "t div 1000"]
    by (auto simp: expire_holds_def ledger_ok_def holds_ok_def)
next
  case (reserve amount ev t expires_at l rep l')
  then show ?case using reserve_ok by auto
next
  case (settle l ev held expiry t amount rep l')
  then show ?case using settle_ok by auto
next
  case (release ev l rep l' t)
  then show ?case using set_holds_ok [of t l "AList.delete ev (lg_reservations l)"] subseq_delete [of ev "lg_reservations l"]
      live_sum_subseq_le [OF subseq_delete, of "lg_reservations l" "t div 1000" ev]
    by (auto simp: releaseApiKeyBillingScript_def ledger_ok_def holds_ok_def)
next
  case (reset l rep l' t)
  then show ?case by (auto simp: resetApiKeyBillingScript_def ledger_ok_def holds_ok_def number_or_0_def)
next
  case (rollover t l)
  then show ?case by (auto simp: rollover_ledger_def ledger_ok_def number_or_0_def)
next
  case (raise_limit l n t)
  then show ?case by (auto simp: ledger_ok_def number_or_0_def)
qed

lemma ledger_run_ok: "ledger_step\<^sup>*\<^sup>* s s' \<Longrightarrow> ledger_ok (fst s) (snd s) \<Longrightarrow> ledger_ok (fst s') (snd s')"
  by (induction rule: rtranclp_induct) (auto intro: ledger_step_ok)



section \<open>Exactly-once accounting\<close>

datatype ledger_op = Reserve string int int int | Settle string int | Release string | Reset | Rollover

fun ledger_apply :: "ledger_op \<Rightarrow> ledger \<Rightarrow> ledger" where
  "ledger_apply (Reserve ev amount now expires_at) l = snd (reserveApiKeyBillingScript ev amount now expires_at l)"
| "ledger_apply (Settle ev amount) l = snd (settleApiKeyBillingScript ev amount l)"
| "ledger_apply (Release ev) l = snd (releaseApiKeyBillingScript ev l)"
| "ledger_apply Reset l = snd (resetApiKeyBillingScript l)"
| "ledger_apply Rollover l = rollover_ledger l"

definition ledger_run :: "ledger_op list \<Rightarrow> ledger \<Rightarrow> ledger" where
  "ledger_run ops l = fold ledger_apply ops l"

text \<open>The abstract account book: the first amount settled for each event of the period.\<close>

type_synonym book = "(string \<times> int) list"

fun book_apply :: "ledger_op \<Rightarrow> book \<Rightarrow> book" where
  "book_apply (Settle ev amount) b = (if map_of b ev = None then b @ [(ev, amount)] else b)"
| "book_apply Reset b = []"
| "book_apply Rollover b = []"
| "book_apply _ b = b"

definition book_run :: "ledger_op list \<Rightarrow> book \<Rightarrow> book" where
  "book_run ops b = fold book_apply ops b"

definition book_total :: "book \<Rightarrow> int" where
  "book_total b = sum_list (map snd b)"

definition settle_amount :: "ledger_op \<Rightarrow> int" where
  "settle_amount op = (case op of Settle ev amount \<Rightarrow> amount | _ \<Rightarrow> 0)"

definition settles_sane :: "ledger_op list \<Rightarrow> bool" where
  "settles_sane ops \<longleftrightarrow> list_all (\<lambda>op. 0 \<le> settle_amount op) ops \<and> sum_list (map settle_amount ops) \<le> 9223372036854775807"

definition refines_book :: "ledger \<Rightarrow> book \<Rightarrow> bool" where
  "refines_book l b \<longleftrightarrow> lg_settled l = b \<and> number_or_0 (lg_used l) = book_total b"

lemma reserve_keeps_usage:
  "lg_settled (snd (reserveApiKeyBillingScript ev amount now expires_at l)) = lg_settled l"
  "lg_used (snd (reserveApiKeyBillingScript ev amount now expires_at l)) = lg_used l"
  by (auto simp: reserveApiKeyBillingScript_def Let_def split: scan.splits)

lemma book_step:
  assumes "refines_book l b" "0 \<le> settle_amount op" "0 \<le> book_total b" "book_total b + settle_amount op \<le> 9223372036854775807"
  shows "refines_book (ledger_apply op l) (book_apply op b) \<and> 0 \<le> book_total (book_apply op b) \<and>
    book_total (book_apply op b) \<le> book_total b + settle_amount op"
proof (cases op)
  case (Settle ev amount)
  show ?thesis
  proof (cases "map_of b ev")
    case None
    then have "ev \<notin> fst ` set b" by (simp add: map_of_eq_None_iff)
    then show ?thesis using assms None update_absent [of ev b amount]
      by (auto simp: Settle refines_book_def settleApiKeyBillingScript_def settle_amount_def book_total_def Let_def
          in_int64_def number_or_0_def split: if_splits)
  next
    case (Some prior)
    then show ?thesis using assms by (auto simp: Settle refines_book_def settleApiKeyBillingScript_def settle_amount_def)
  qed
qed (use assms in \<open>auto simp: refines_book_def reserve_keeps_usage settle_amount_def book_total_def number_or_0_def
      releaseApiKeyBillingScript_def resetApiKeyBillingScript_def rollover_ledger_def\<close>)

lemma book_simulation:
  assumes "refines_book l b" "list_all (\<lambda>op. 0 \<le> settle_amount op) ops" "0 \<le> book_total b"
    "book_total b + sum_list (map settle_amount ops) \<le> 9223372036854775807"
  shows "refines_book (ledger_run ops l) (book_run ops b)"
  using assms
proof (induction ops arbitrary: l b)
  case Nil
  then show ?case by (simp add: ledger_run_def book_run_def)
next
  case (Cons op ops)
  have rest: "0 \<le> sum_list (map settle_amount ops)"
    using Cons.prems(2) by (intro sum_list_nonneg) (auto simp: list_all_iff)
  have st: "refines_book (ledger_apply op l) (book_apply op b) \<and> 0 \<le> book_total (book_apply op b) \<and>
      book_total (book_apply op b) \<le> book_total b + settle_amount op"
    using Cons.prems rest by (intro book_step) auto
  then show ?case using Cons.IH [of "ledger_apply op l" "book_apply op b"] Cons.prems
    by (auto simp: ledger_run_def book_run_def)
qed



section \<open>Repeated reservations\<close>

text \<open>A reservation that was admitted, is live and is below the limit of exact printing.\<close>

lemma scan_finds_hold:
  assumes "map_of fs ev = Some (Some (held, expiry))" "now < expiry" "distinct (map fst fs)"
  shows "\<exists>fs'. reserve_scan ev amount now fs kept ls mx = (if held = amount then AlreadyHeld fs' else Conflicting fs') \<and>
    (\<exists>gs. fs' = kept @ gs \<and> map_of gs ev = Some (Some (held, expiry)))"
  using assms
proof (induction ev amount now fs kept ls mx rule: reserve_scan.induct)
  case (2 ev amount now field raw rest kept ls mx)
  show ?case
  proof (cases "field = ev")
    case True
    then show ?thesis using 2(4,5) by auto
  next
    case ne: False
    then have m: "map_of rest ev = Some (Some (held, expiry))" "distinct (map fst rest)" using 2(4,6) by auto
    show ?thesis
    proof (cases "\<exists>h x. raw = Some (h, x) \<and> now < x")
      case False
      then show ?thesis using 2(1) 2(2) m 2(5) ne by (cases raw) (fastforce split: if_splits)+
    next
      case True
      then obtain h x where raw: "raw = Some (h, x)" "now < x" by auto
      with 2(3) [OF raw(1) refl _ ne m(1) 2(5) m(2)] obtain fs' gs where
        "reserve_scan ev amount now rest (kept @ [(field, raw)]) (ls + h) (if x > mx then x else mx) =
           (if held = amount then AlreadyHeld fs' else Conflicting fs')"
        "fs' = (kept @ [(field, raw)]) @ gs" "map_of gs ev = Some (Some (held, expiry))" by auto
      then show ?thesis using raw ne by (auto intro!: exI [of _ "(field, raw) # gs"])
    qed
  qed
qed simp

lemma scan_without_hold:
  assumes "\<not> (\<exists>h y. map_of fs ev = Some (Some (h, y)) \<and> now < y)" "distinct (map fst fs)"
  shows "\<exists>fs' ls' mx'. reserve_scan ev amount now fs kept ls mx = Scanned fs' ls' mx'"
  using assms
proof (induction ev amount now fs kept ls mx rule: reserve_scan.induct)
  case (2 ev amount now field raw rest kept ls mx)
  have rest: "\<not> (\<exists>h y. map_of rest ev = Some (Some (h, y)) \<and> now < y)" "distinct (map fst rest)"
    using 2(4,5) by (auto split: if_splits simp: map_of_eq_None_iff [symmetric] dest: map_of_SomeD)
  show ?case
  proof (cases "\<exists>h x. raw = Some (h, x) \<and> now < x")
    case False
    then show ?thesis using 2(1) 2(2) rest by (cases raw) (fastforce split: if_splits)+
  next
    case True
    then obtain h x where raw: "raw = Some (h, x)" "now < x" by auto
    then have "field \<noteq> ev" using 2(4) by auto
    then show ?thesis using 2(3) [OF raw(1) refl _ _ rest] raw by auto
  qed
qed simp

text \<open>
  A repeated reservation holds nothing twice. While an event has a live hold, a
  further reservation of it answers 1 if the amount is the held one and the conflict error
  otherwise, and in both cases the hold, the sum of the live holds and the usage stay as they are.
\<close>

theorem repeated_reservation_holds_once:
  assumes "distinct (map fst (lg_reservations l))"
    and "map_of (lg_reservations l) ev = Some (Some (held, expiry))" "now < expiry"
  shows "case reserveApiKeyBillingScript ev amount now expires_at l of (rep, l') \<Rightarrow>
    rep = (if held = amount then Reply 1 else ErrorReply ''billing reservation exists with a different amount'') \<and>
    map_of (lg_reservations l') ev = Some (Some (held, expiry)) \<and>
    live_sum now (lg_reservations l') = live_sum now (lg_reservations l) \<and>
    lg_used l' = lg_used l \<and> lg_settled l' = lg_settled l"
proof -
  obtain fs' where sc: "reserve_scan ev amount now (lg_reservations l) [] 0 expires_at =
      (if held = amount then AlreadyHeld fs' else Conflicting fs')" "map_of fs' ev = Some (Some (held, expiry))"
    using scan_finds_hold [OF assms(2,3,1), of amount "[]" 0 expires_at] by auto
  have "live_sum now fs' = live_sum now (lg_reservations l)"
    using scan_early [of ev amount now "lg_reservations l" "[]" 0 expires_at fs'] sc(1) by auto
  then show ?thesis using sc by (auto simp: reserveApiKeyBillingScript_def Let_def)
qed

theorem repeated_reservation_holds_once_witness:
  "let l = snd (reserveApiKeyBillingScript ''req-1'' 60 5 100 (fresh_ledger 100)) in
   case reserveApiKeyBillingScript ''req-1'' 60 6 101 l of (rep, l') \<Rightarrow>
    rep = Reply 1 \<and> map_of (lg_reservations l') ''req-1'' = Some (Some (60, 100)) \<and>
    live_sum 6 (lg_reservations l') = live_sum 6 (lg_reservations l) \<and>
    lg_used l' = lg_used l \<and> lg_settled l' = lg_settled l"
proof -
  let ?l = "snd (reserveApiKeyBillingScript ''req-1'' 60 5 100 (fresh_ledger 100))"
  have "distinct (map fst (lg_reservations ?l))" "map_of (lg_reservations ?l) ''req-1'' = Some (Some (60, 100))"
    by code_simp+
  then show ?thesis using repeated_reservation_holds_once [of ?l "''req-1''" 60 100 6 60 101] by (simp add: Let_def)
qed

text \<open>
  From 10,000 USD on, printing rounds the stored amount, and the same reservation repeated is
  answered as a conflict.
\<close>

lemma large_reservation_conflicts_with_itself:
  "fst (reserveApiKeyBillingScript ''req-1'' 100000000000001 5 100 (fresh_ledger 200000000000000)) = Reply 1"
  "fst (reserveApiKeyBillingScript ''req-1'' 100000000000001 5 100
     (snd (reserveApiKeyBillingScript ''req-1'' 100000000000001 5 100 (fresh_ledger 200000000000000)))) =
   ErrorReply ''billing reservation exists with a different amount''"
  by code_simp+

end
