(* ===== verification/Api_Keys.thy ===== *)
theory Api_Keys
  imports Key_Ledger
begin

text \<open>
  Client keys: their rows and indexes in Redis (\<^verbatim>\<open>src/internal/store/redis_api_keys.go\<close>, the key
  scripts of \<^verbatim>\<open>redis_scripts.go\<close>), authorization (\<^verbatim>\<open>src/internal/store/store_api_keys.go\<close>) and the
  policy of the administration surface (\<^verbatim>\<open>src/internal/api/api_keys.go\<close>).

  A row a Go process wrote is a record. The scripts decode a row with Redis's cjson and encode it
  again; \<open>cjson n\<close> stands for the integer Go reads back from the number the script wrote for \<open>n\<close>,
  \<^const>\<open>None\<close> when it is not an integer literal. A row with such a number is \<open>Unreadable\<close>: a script
  still sees its fields, Go no longer decodes it. The
  digest of a key is the parameter \<open>sha\<close>. Redis answers, and its clock is the caller's.
\<close>

section \<open>Rows\<close>

record ApiKey =
  ak_ID :: int
  ak_Name :: string
  ak_KeyHash :: string
  ak_KeyFull :: string
  ak_KeyPrefix :: string
  ak_KeySuffix :: string
  ak_Enabled :: bool
  ak_AllowedModels :: "string list"
  ak_RPMLimit :: int
  ak_MaxConcurrent :: int
  ak_BillingLimitUSDTicks :: int
  ak_BillingUsedUSDTicks :: int
  ak_BillingPeriodDays :: int
  ak_BillingPeriodStartedAt :: instant
  ak_ExpiresAt :: "instant option"
  ak_LastUsedAt :: "instant option"
  ak_CreatedAt :: instant

record apiKeyRecord =
  kr_ID :: int
  kr_Name :: string
  kr_KeyHash :: string
  kr_KeyPrefix :: string
  kr_KeySuffix :: string
  kr_Enabled :: bool
  kr_AllowedModels :: "string list"
  kr_RPMLimit :: int
  kr_MaxConcurrent :: int
  kr_BillingLimitUSDTicks :: int
  kr_BillingUsedUSDTicks :: int
  kr_BillingPeriodDays :: int
  kr_BillingPeriodStartedAt :: instant
  kr_ExpiresAt :: "instant option"
  kr_LastUsedAt :: "instant option"
  kr_CreatedAt :: instant

definition apiKeyRecordFromKey :: "ApiKey \<Rightarrow> apiKeyRecord" where
  "apiKeyRecordFromKey key = \<lparr>kr_ID = ak_ID key, kr_Name = ak_Name key, kr_KeyHash = ak_KeyHash key,
     kr_KeyPrefix = ak_KeyPrefix key, kr_KeySuffix = ak_KeySuffix key, kr_Enabled = ak_Enabled key,
     kr_AllowedModels = ak_AllowedModels key, kr_RPMLimit = ak_RPMLimit key, kr_MaxConcurrent = ak_MaxConcurrent key,
     kr_BillingLimitUSDTicks = ak_BillingLimitUSDTicks key, kr_BillingUsedUSDTicks = ak_BillingUsedUSDTicks key,
     kr_BillingPeriodDays = ak_BillingPeriodDays key, kr_BillingPeriodStartedAt = ak_BillingPeriodStartedAt key,
     kr_ExpiresAt = ak_ExpiresAt key, kr_LastUsedAt = ak_LastUsedAt key, kr_CreatedAt = ak_CreatedAt key\<rparr>"

definition toApiKey :: "apiKeyRecord \<Rightarrow> ApiKey" where
  "toApiKey r = \<lparr>ak_ID = kr_ID r, ak_Name = kr_Name r, ak_KeyHash = kr_KeyHash r, ak_KeyFull = [],
     ak_KeyPrefix = kr_KeyPrefix r, ak_KeySuffix = kr_KeySuffix r, ak_Enabled = kr_Enabled r,
     ak_AllowedModels = kr_AllowedModels r, ak_RPMLimit = kr_RPMLimit r, ak_MaxConcurrent = kr_MaxConcurrent r,
     ak_BillingLimitUSDTicks = kr_BillingLimitUSDTicks r, ak_BillingUsedUSDTicks = kr_BillingUsedUSDTicks r,
     ak_BillingPeriodDays = kr_BillingPeriodDays r, ak_BillingPeriodStartedAt = kr_BillingPeriodStartedAt r,
     ak_ExpiresAt = kr_ExpiresAt r, ak_LastUsedAt = kr_LastUsedAt r, ak_CreatedAt = kr_CreatedAt r\<rparr>"

datatype stored_key = Row apiKeyRecord | Unreadable apiKeyRecord

text \<open>A script's decoding and encoding of a row: every number goes through cjson.\<close>

definition reencode :: "(int \<Rightarrow> int option) \<Rightarrow> apiKeyRecord \<Rightarrow> stored_key" where
  "reencode cjson r =
     (case (cjson (kr_ID r), cjson (kr_RPMLimit r), cjson (kr_MaxConcurrent r), cjson (kr_BillingLimitUSDTicks r),
            cjson (kr_BillingUsedUSDTicks r), cjson (kr_BillingPeriodDays r)) of
        (Some i, Some rpm, Some conc, Some limit, Some used, Some days) \<Rightarrow>
          Row (r\<lparr>kr_ID := i, kr_RPMLimit := rpm, kr_MaxConcurrent := conc, kr_BillingLimitUSDTicks := limit,
                 kr_BillingUsedUSDTicks := used, kr_BillingPeriodDays := days\<rparr>)
      | _ \<Rightarrow> Unreadable r)"

definition lua_row :: "stored_key \<Rightarrow> apiKeyRecord" where
  "lua_row row = (case row of Row r \<Rightarrow> r | Unreadable r \<Rightarrow> r)"

definition reencode_row :: "(int \<Rightarrow> int option) \<Rightarrow> (apiKeyRecord \<Rightarrow> apiKeyRecord) \<Rightarrow> stored_key \<Rightarrow> stored_key" where
  "reencode_row cjson f row = reencode cjson (f (lua_row row))"

datatype key_error = ErrNoRows | ErrApiKeyExpired | ErrApiKeyRateLimited | KeyFailure string

section \<open>The store\<close>

record keyStore =
  ks_next_id :: int
  ks_rows :: "int \<Rightarrow> stored_key option"
  ks_ids :: "int list"
  ks_hash :: "string \<Rightarrow> int option"
  ks_ledger :: "int \<Rightarrow> ledger"
  ks_rpm :: "int \<times> int \<Rightarrow> (int \<times> int) option"
  ks_keyIndex :: "(string \<times> int) list"
  ks_keyTouches :: "(int \<times> instant) list"

definition no_ledger :: ledger where
  "no_ledger = \<lparr>lg_reservations = [], lg_res_expire = None, lg_used = None, lg_settled = [], lg_limit = None\<rparr>"

definition empty_keys :: keyStore where
  "empty_keys = \<lparr>ks_next_id = 0, ks_rows = (\<lambda>_. None), ks_ids = [], ks_hash = (\<lambda>_. None), ks_ledger = (\<lambda>_. no_ledger),
     ks_rpm = (\<lambda>_. None), ks_keyIndex = [], ks_keyTouches = []\<rparr>"

definition Unix :: "instant \<Rightarrow> int" where
  "Unix t = t div second - 62135596800"

definition CreateApiKey :: "instant \<Rightarrow> ApiKey \<Rightarrow> keyStore \<Rightarrow> ApiKey \<times> keyStore" where
  "CreateApiKey now key0 s =
     (let i = ks_next_id s + 1;
          key = key0\<lparr>ak_ID := i, ak_CreatedAt := (if ak_CreatedAt key0 = 0 then now else ak_CreatedAt key0)\<rparr>;
          r = apiKeyRecordFromKey key;
          l = (ks_ledger s i)\<lparr>lg_limit := Some (kr_BillingLimitUSDTicks r)\<rparr>
      in (key, s\<lparr>ks_next_id := i, ks_rows := (ks_rows s)(i := Some (Row r)), ks_ids := List.insert i (ks_ids s),
            ks_hash := (if kr_KeyHash r \<noteq> [] then (ks_hash s)(kr_KeyHash r := Some i) else ks_hash s),
            ks_ledger := (ks_ledger s)(i := (if kr_BillingUsedUSDTicks r > 0
                then l\<lparr>lg_used := Some (kr_BillingUsedUSDTicks r)\<rparr> else l))\<rparr>))"

definition getApiKeyByID :: "keyStore \<Rightarrow> int \<Rightarrow> key_error + ApiKey" where
  "getApiKeyByID s i =
     (if i = 0 then Inl ErrNoRows
      else case ks_rows s i of
        None \<Rightarrow> Inl ErrNoRows
      | Some (Unreadable r) \<Rightarrow> Inl (KeyFailure ''unmarshal'')
      | Some (Row r) \<Rightarrow>
          (let key = toApiKey r; key1 = (if ak_ID key = 0 then key\<lparr>ak_ID := i\<rparr> else key) in
           Inr (case lg_used (ks_ledger s i) of Some used \<Rightarrow> key1\<lparr>ak_BillingUsedUSDTicks := used\<rparr> | None \<Rightarrow> key1)))"

definition getApiKeysByIDs :: "keyStore \<Rightarrow> int list \<Rightarrow> ApiKey list" where
  "getApiKeysByIDs s ids = List.map_filter (\<lambda>i. case ks_rows s i of
       Some (Row r) \<Rightarrow>
         (let key = toApiKey r; key1 = (if ak_ID key = 0 then key\<lparr>ak_ID := i\<rparr> else key) in
          Some (case lg_used (ks_ledger s i) of Some used \<Rightarrow> key1\<lparr>ak_BillingUsedUSDTicks := used\<rparr> | None \<Rightarrow> key1))
     | _ \<Rightarrow> None) (sort ids)"

definition ListApiKeys :: "keyStore \<Rightarrow> ApiKey list" where
  "ListApiKeys s = getApiKeysByIDs s (ks_ids s)"

definition UpdateApiKey :: "ApiKey \<Rightarrow> keyStore \<Rightarrow> (key_error + unit) \<times> keyStore" where
  "UpdateApiKey key s =
     (if ak_ID key = 0 then (Inl ErrNoRows, s)
      else case getApiKeyByID s (ak_ID key) of
        Inl err \<Rightarrow> (Inl err, s)
      | Inr existing \<Rightarrow>
          (let r = apiKeyRecordFromKey key; i = ak_ID key;
               h1 = (if ak_KeyHash existing \<noteq> kr_KeyHash r \<and> ak_KeyHash existing \<noteq> [] then (ks_hash s)(ak_KeyHash existing := None) else ks_hash s);
               h2 = (if ak_KeyHash existing \<noteq> kr_KeyHash r \<and> kr_KeyHash r \<noteq> [] then h1(kr_KeyHash r := Some i) else h1)
           in (Inr (), s\<lparr>ks_rows := (ks_rows s)(i := Some (Row r)), ks_hash := h2,
                ks_ledger := (ks_ledger s)(i := (ks_ledger s i)\<lparr>lg_limit := Some (kr_BillingLimitUSDTicks r)\<rparr>)\<rparr>)))"

definition DeleteApiKey :: "int \<Rightarrow> keyStore \<Rightarrow> (key_error + unit) \<times> keyStore" where
  "DeleteApiKey i s =
     (if i = 0 then (Inl ErrNoRows, s)
      else case getApiKeyByID s i of
        Inl err \<Rightarrow> (Inl err, s)
      | Inr key \<Rightarrow> (Inr (), s\<lparr>ks_rows := (ks_rows s)(i := None), ks_ids := removeAll i (ks_ids s),
            ks_hash := (if ak_KeyHash key \<noteq> [] then (ks_hash s)(ak_KeyHash key := None) else ks_hash s),
            ks_ledger := (ks_ledger s)(i := no_ledger)\<rparr>))"

text \<open>The lookup by digest goes through the process's index of at most 4096 entries.\<close>

definition remember_hash :: "string \<Rightarrow> int \<Rightarrow> keyStore \<Rightarrow> keyStore" where
  "remember_hash hash i s = s\<lparr>ks_keyIndex := AList.update hash i (if length (ks_keyIndex s) \<ge> 4096 then [] else ks_keyIndex s)\<rparr>"

definition lookup_hash :: "string \<Rightarrow> keyStore \<Rightarrow> (key_error + ApiKey) \<times> keyStore" where
  "lookup_hash hash s = (case ks_hash s hash of
     None \<Rightarrow> (Inl ErrNoRows, s)
   | Some i \<Rightarrow> (case getApiKeyByID s i of
       Inl err \<Rightarrow> (Inl err, s)
     | Inr key \<Rightarrow> if ak_KeyHash key \<noteq> hash then (Inl ErrNoRows, s) else (Inr key, remember_hash hash i s)))"

definition GetApiKeyByHash :: "string \<Rightarrow> keyStore \<Rightarrow> (key_error + ApiKey) \<times> keyStore" where
  "GetApiKeyByHash hash0 s =
     (let hash = TrimSpace hash0 in
      if hash = [] then (Inl ErrNoRows, s)
      else let cachedID = (case map_of (ks_keyIndex s) hash of Some i \<Rightarrow> i | None \<Rightarrow> 0);
               forget = s\<lparr>ks_keyIndex := AList.delete hash (ks_keyIndex s)\<rparr> in
        if cachedID \<noteq> 0 then
          (case getApiKeyByID s cachedID of
             Inr key \<Rightarrow> if ak_KeyHash key = hash then (Inr key, s) else lookup_hash hash forget
           | Inl err \<Rightarrow> if err \<noteq> ErrNoRows then (Inl err, s) else lookup_hash hash forget)
        else lookup_hash hash s)"

section \<open>Rate limit and usage touch\<close>

text \<open>
  One counter per key and minute. \<open>ks_rpm\<close> keeps the count and the second at which Redis
  drops it.
\<close>

definition rpm_count :: "keyStore \<Rightarrow> int \<times> int \<Rightarrow> int \<Rightarrow> (int \<times> int) option" where
  "rpm_count s k t = (case ks_rpm s k of Some (n, e) \<Rightarrow> if e \<le> t then None else Some (n, e) | None \<Rightarrow> None)"

definition ConsumeApiKeyRPM :: "(int \<Rightarrow> int option) \<Rightarrow> int \<Rightarrow> int \<Rightarrow> instant \<Rightarrow> keyStore \<Rightarrow> (key_error + bool) \<times> keyStore" where
  "ConsumeApiKeyRPM cjson i limit now s =
     (if i = 0 then (Inl ErrNoRows, s)
      else let k = (i, Unix now div 60); ttl = 120 in
        case ks_rows s i of
          None \<Rightarrow> (Inl (KeyFailure ''api key not found''), s)
        | Some row \<Rightarrow>
            (let s1 = s\<lparr>ks_rows := (ks_rows s)(i := Some (reencode_row cjson (\<lambda>r. r\<lparr>kr_LastUsedAt := Some now\<rparr>) row))\<rparr> in
             if limit \<le> 0 then (Inr (0 \<le> limit), s1)
             else let (count, expires) = (case rpm_count s k (Unix now) of Some (n, e) \<Rightarrow> (n + 1, e) | None \<Rightarrow> (1, Unix now + ttl))
               in (Inr (count \<le> limit), s1\<lparr>ks_rpm := (ks_rpm s1)(k := Some (count, expires))\<rparr>)))"

definition TouchApiKeyLastUsed :: "(int \<Rightarrow> int option) \<Rightarrow> int \<Rightarrow> instant \<Rightarrow> keyStore \<Rightarrow> (key_error + unit) \<times> keyStore" where
  "TouchApiKeyLastUsed cjson i now s =
     (if i = 0 then (Inl ErrNoRows, s)
      else case ks_rows s i of
        None \<Rightarrow> (Inl (KeyFailure ''api key not found''), s)
      | Some row \<Rightarrow> (Inr (), s\<lparr>ks_rows := (ks_rows s)(i := Some (reencode_row cjson (\<lambda>r. r\<lparr>kr_LastUsedAt := Some now\<rparr>) row))\<rparr>))"

definition touchApiKeyCoalesced :: "(int \<Rightarrow> int option) \<Rightarrow> int \<Rightarrow> instant \<Rightarrow> keyStore \<Rightarrow> (key_error + unit) \<times> keyStore" where
  "touchApiKeyCoalesced cjson i now s =
     (let previous = (case map_of (ks_keyTouches s) i of Some t \<Rightarrow> t | None \<Rightarrow> 0) in
      if previous \<noteq> 0 \<and> Sub now previous < minute then (Inr (), s)
      else let s1 = s\<lparr>ks_keyTouches := AList.update i now (if length (ks_keyTouches s) \<ge> 65536 then [] else ks_keyTouches s)\<rparr> in
        case TouchApiKeyLastUsed cjson i now s1 of
          (Inr u, s2) \<Rightarrow> (Inr u, s2)
        | (Inl err, s2) \<Rightarrow> (Inl err, s2\<lparr>ks_keyTouches := AList.delete i (ks_keyTouches s2)\<rparr>))"

section \<open>Billing\<close>

definition with_ledger :: "int \<Rightarrow> (ledger \<Rightarrow> reply \<times> ledger) \<Rightarrow> keyStore \<Rightarrow> reply \<times> keyStore" where
  "with_ledger i f s = (let (rep, l) = f (ks_ledger s i) in (rep, s\<lparr>ks_ledger := (ks_ledger s)(i := l)\<rparr>))"

definition ReserveApiKeyBilling ::
  "int \<Rightarrow> string \<Rightarrow> int \<Rightarrow> instant \<Rightarrow> instant \<Rightarrow> keyStore \<Rightarrow> (key_error + bool) \<times> keyStore" where
  "ReserveApiKeyBilling i eventID amount expiresAt now s =
     (if i = 0 \<or> TrimSpace eventID = [] then (Inl ErrNoRows, s)
      else if amount \<le> 0 then (Inl (KeyFailure ''billing reservation amount must be positive''), s)
      else if expiresAt = 0 then (Inl (KeyFailure ''billing reservation expiry is required''), s)
      else case with_ledger i (reserveApiKeyBillingScript eventID amount (Unix now) (Unix expiresAt)) s of
        (Reply n, s') \<Rightarrow> (Inr (n = 1), s')
      | (ErrorReply m, s') \<Rightarrow> (Inl (KeyFailure m), s'))"

definition SettleApiKeyBilling :: "int \<Rightarrow> string \<Rightarrow> int \<Rightarrow> keyStore \<Rightarrow> (key_error + unit) \<times> keyStore" where
  "SettleApiKeyBilling i eventID amount s =
     (if i = 0 \<or> TrimSpace eventID = [] then (Inl ErrNoRows, s)
      else if amount < 0 then (Inl (KeyFailure ''billing settlement amount must not be negative''), s)
      else case with_ledger i (settleApiKeyBillingScript eventID amount) s of
        (Reply n, s') \<Rightarrow> (if n < 0 then Inl (KeyFailure ''already settled with a different amount'') else Inr (), s')
      | (ErrorReply m, s') \<Rightarrow> (Inl (KeyFailure m), s'))"

definition ReleaseApiKeyBilling :: "int \<Rightarrow> string \<Rightarrow> keyStore \<Rightarrow> (key_error + bool) \<times> keyStore" where
  "ReleaseApiKeyBilling i eventID s =
     (if i = 0 \<or> TrimSpace eventID = [] then (Inl ErrNoRows, s)
      else case with_ledger i (releaseApiKeyBillingScript eventID) s of
        (Reply n, s') \<Rightarrow> (Inr (n = 1), s')
      | (ErrorReply m, s') \<Rightarrow> (Inl (KeyFailure m), s'))"

definition ResetApiKeyBilling :: "int \<Rightarrow> keyStore \<Rightarrow> (key_error + unit) \<times> keyStore" where
  "ResetApiKeyBilling i s =
     (if i = 0 then (Inl ErrNoRows, s)
      else case with_ledger i resetApiKeyBillingScript s of
        (Reply n, s') \<Rightarrow> (Inr (), s') | (ErrorReply m, s') \<Rightarrow> (Inl (KeyFailure m), s'))"

text \<open>
  The rollover compares the stored period start with the one the caller saw. A start in the year
  one is the zero time.
\<close>

definition year_one :: "instant \<Rightarrow> bool" where
  "year_one t \<longleftrightarrow> 0 \<le> t \<and> t < 365 * 24 * hour"

definition RolloverApiKeyBilling :: "(int \<Rightarrow> int option) \<Rightarrow> ApiKey \<Rightarrow> instant \<Rightarrow> keyStore \<Rightarrow> (key_error + bool) \<times> keyStore" where
  "RolloverApiKeyBilling cjson key now s =
     (let started = ak_BillingPeriodStartedAt key; i = ak_ID key in
      if i = 0 then (Inl ErrNoRows, s)
      else if ak_BillingPeriodDays key \<le> 0 then (Inr False, s)
      else if started \<noteq> 0 \<and> now < started + ak_BillingPeriodDays key * 24 * hour then (Inr False, s)
      else case ks_rows s i of
        None \<Rightarrow> (Inl (KeyFailure ''api key not found''), s)
      | Some row \<Rightarrow>
          (let r = lua_row row in
           if kr_BillingPeriodDays r \<noteq> ak_BillingPeriodDays key then (Inr False, s)
           else if started = 0 \<and> \<not> year_one (kr_BillingPeriodStartedAt r) then (Inr False, s)
           else if started \<noteq> 0 \<and> kr_BillingPeriodStartedAt r \<noteq> started then (Inr False, s)
           else (Inr True, s\<lparr>ks_rows := (ks_rows s)(i := Some (reencode_row cjson (\<lambda>r. r\<lparr>kr_BillingPeriodStartedAt := now\<rparr>) row)),
                   ks_ledger := (ks_ledger s)(i := rollover_ledger (ks_ledger s i))\<rparr>)))"

definition rolloverApiKeyBilling :: "(int \<Rightarrow> int option) \<Rightarrow> ApiKey \<Rightarrow> instant \<Rightarrow> keyStore \<Rightarrow> ApiKey \<times> keyStore" where
  "rolloverApiKeyBilling cjson key now s =
     (if ak_BillingPeriodDays key \<le> 0 then (key, s)
      else case RolloverApiKeyBilling cjson key now s of
        (Inl err, s') \<Rightarrow> (key, s')
      | (Inr rolled, s') \<Rightarrow>
          ((if rolled then key\<lparr>ak_BillingUsedUSDTicks := 0, ak_BillingPeriodStartedAt := now\<rparr> else key), s'))"

section \<open>Authorization\<close>

definition AuthorizeApiKey ::
  "(string \<Rightarrow> string) \<Rightarrow> (int \<Rightarrow> int option) \<Rightarrow> string \<Rightarrow> instant \<Rightarrow> keyStore \<Rightarrow> (key_error + ApiKey) \<times> keyStore" where
  "AuthorizeApiKey sha cjson raw0 now s =
     (let raw = TrimSpace raw0 in
      if raw = [] then (Inl ErrNoRows, s)
      else case GetApiKeyByHash (sha raw) s of
        (Inl err, s1) \<Rightarrow> (Inl err, s1)
      | (Inr key, s1) \<Rightarrow>
          if \<not> ak_Enabled key then (Inl ErrNoRows, s1)
          else if (case ak_ExpiresAt key of Some t \<Rightarrow> t \<le> now | None \<Rightarrow> False) then (Inl ErrApiKeyExpired, s1)
          else
            (let rpm = ak_RPMLimit key;
                 limited = (if rpm > 0 then
                     (case ConsumeApiKeyRPM cjson (ak_ID key) rpm now s1 of
                        (Inl err, s2) \<Rightarrow> (Inl err, s2)
                      | (Inr allowed, s2) \<Rightarrow> ((if allowed then Inr () else Inl ErrApiKeyRateLimited), s2))
                   else touchApiKeyCoalesced cjson (ak_ID key) now s1) in
             case limited of
               (Inl err, s2) \<Rightarrow> (Inl err, s2)
             | (Inr u, s2) \<Rightarrow>
                 (let (key', s3) = rolloverApiKeyBilling cjson (key\<lparr>ak_LastUsedAt := Some now\<rparr>) now s2 in (Inr key', s3))))"

section \<open>Which key a secret opens\<close>

definition current_row :: "keyStore \<Rightarrow> string \<Rightarrow> int \<Rightarrow> apiKeyRecord \<Rightarrow> bool" where
  "current_row s hash i r \<longleftrightarrow> i \<noteq> 0 \<and> ks_rows s i = Some (Row r) \<and> kr_KeyHash r = hash"

text \<open>What \<open>getApiKeyByID\<close> makes of a row.\<close>

definition key_of :: "keyStore \<Rightarrow> int \<Rightarrow> apiKeyRecord \<Rightarrow> ApiKey" where
  "key_of s i r = (toApiKey r)\<lparr>ak_ID := (if kr_ID r = 0 then i else kr_ID r),
     ak_BillingUsedUSDTicks := (case lg_used (ks_ledger s i) of Some used \<Rightarrow> used | None \<Rightarrow> kr_BillingUsedUSDTicks r)\<rparr>"

lemma key_of_sel [simp]:
  "ak_ID (key_of s i r) = (if kr_ID r = 0 then i else kr_ID r)" "ak_KeyHash (key_of s i r) = kr_KeyHash r"
  "ak_Enabled (key_of s i r) = kr_Enabled r" "ak_AllowedModels (key_of s i r) = kr_AllowedModels r"
  "ak_RPMLimit (key_of s i r) = kr_RPMLimit r" "ak_MaxConcurrent (key_of s i r) = kr_MaxConcurrent r"
  "ak_BillingLimitUSDTicks (key_of s i r) = kr_BillingLimitUSDTicks r" "ak_ExpiresAt (key_of s i r) = kr_ExpiresAt r"
  "ak_BillingPeriodDays (key_of s i r) = kr_BillingPeriodDays r"
  "ak_BillingPeriodStartedAt (key_of s i r) = kr_BillingPeriodStartedAt r"
  by (simp_all add: key_of_def toApiKey_def)

lemma getApiKeyByID_Inr: "getApiKeyByID s i = Inr key \<longleftrightarrow> (i \<noteq> 0 \<and> (\<exists>r. ks_rows s i = Some (Row r) \<and> key = key_of s i r))"
  by (auto simp: getApiKeyByID_def key_of_def toApiKey_def Let_def split: option.splits stored_key.splits)

lemma getApiKeyByID_index [simp]: "getApiKeyByID (s\<lparr>ks_keyIndex := x\<rparr>) i = getApiKeyByID s i"
  by (simp add: getApiKeyByID_def Let_def split: option.split stored_key.split)

lemma GetApiKeyByHash_cases:
  "GetApiKeyByHash hash s = (Inl ErrNoRows, s) \<or> GetApiKeyByHash hash s = lookup_hash (TrimSpace hash) s \<or>
   GetApiKeyByHash hash s = lookup_hash (TrimSpace hash) (s\<lparr>ks_keyIndex := AList.delete (TrimSpace hash) (ks_keyIndex s)\<rparr>) \<or>
   (\<exists>err. GetApiKeyByHash hash s = (Inl err, s)) \<or>
   (\<exists>i key. getApiKeyByID s i = Inr key \<and> ak_KeyHash key = TrimSpace hash \<and> GetApiKeyByHash hash s = (Inr key, s))"
  unfolding GetApiKeyByHash_def Let_def
  by (cases "TrimSpace hash = []"; cases "(case map_of (ks_keyIndex s) (TrimSpace hash) of Some i \<Rightarrow> i | None \<Rightarrow> 0) = 0";
      cases "getApiKeyByID s (case map_of (ks_keyIndex s) (TrimSpace hash) of Some i \<Rightarrow> i | None \<Rightarrow> 0)")
    (simp_all, blast+)

lemma lookup_hash_Inr:
  assumes "lookup_hash hash s = (Inr key, s')"
  obtains i r where "current_row s hash i r" "key = key_of s i r" "ks_rows s' = ks_rows s" "ks_ledger s' = ks_ledger s"
    "ks_rpm s' = ks_rpm s"
  using assms that by (auto simp: lookup_hash_def remember_hash_def current_row_def getApiKeyByID_Inr
      split: option.splits sum.splits if_splits)

lemma GetApiKeyByHash_Inr:
  assumes "GetApiKeyByHash hash s = (Inr key, s')"
  obtains i r where "current_row s (TrimSpace hash) i r" "key = key_of s i r" "ks_rows s' = ks_rows s"
    "ks_ledger s' = ks_ledger s" "ks_rpm s' = ks_rpm s"
proof -
  let ?h = "TrimSpace hash"
  let ?f = "s\<lparr>ks_keyIndex := AList.delete ?h (ks_keyIndex s)\<rparr>"
  consider (cached) i where "getApiKeyByID s i = Inr key" "ak_KeyHash key = ?h" "s' = s"
    | (fresh) "lookup_hash ?h ?f = (Inr key, s')" | (direct) "lookup_hash ?h s = (Inr key, s')"
    using GetApiKeyByHash_cases [of hash s] unfolding assms by fastforce
  then show thesis
  proof cases
    case cached
    then show ?thesis using that by (auto simp: getApiKeyByID_Inr current_row_def)
  next
    case fresh
    then show ?thesis by (rule lookup_hash_Inr) (rule that; simp add: current_row_def key_of_def)
  next
    case direct
    then show ?thesis by (rule lookup_hash_Inr) (rule that; simp)
  qed
qed

lemma rolloverApiKeyBilling_sel:
  "rolloverApiKeyBilling cjson key now s = (key', s') \<Longrightarrow> ak_ID key' = ak_ID key \<and> ak_AllowedModels key' = ak_AllowedModels key \<and>
     ak_MaxConcurrent key' = ak_MaxConcurrent key \<and> ak_BillingLimitUSDTicks key' = ak_BillingLimitUSDTicks key \<and>
     ak_RPMLimit key' = ak_RPMLimit key"
  by (auto simp: rolloverApiKeyBilling_def split: if_splits prod.splits sum.splits)

lemma authorized_row:
  assumes "AuthorizeApiKey sha cjson raw now s = (Inr key, s')"
  obtains k s1 s2 i r where "GetApiKeyByHash (sha (TrimSpace raw)) s = (Inr k, s1)" "k = key_of s i r"
    "current_row s (TrimSpace (sha (TrimSpace raw))) i r" "ak_Enabled k"
    "\<not> (case ak_ExpiresAt k of Some t \<Rightarrow> t \<le> now | None \<Rightarrow> False)"
    "rolloverApiKeyBilling cjson (k\<lparr>ak_LastUsedAt := Some now\<rparr>) now s2 = (key, s')"
proof -
  obtain k s1 s2 where g: "GetApiKeyByHash (sha (TrimSpace raw)) s = (Inr k, s1)" "ak_Enabled k"
    "\<not> (case ak_ExpiresAt k of Some t \<Rightarrow> t \<le> now | None \<Rightarrow> False)"
    "rolloverApiKeyBilling cjson (k\<lparr>ak_LastUsedAt := Some now\<rparr>) now s2 = (key, s')"
    using assms by (auto simp: AuthorizeApiKey_def Let_def split: if_splits prod.splits sum.splits)
  from g(1) obtain i r where "current_row s (TrimSpace (sha (TrimSpace raw))) i r" "k = key_of s i r"
    by (rule GetApiKeyByHash_Inr)
  then show thesis using that g by blast
qed

text \<open>
  Property C30: only a current, enabled, unexpired key is authorized. Whatever the process's digest
  index holds, an authorized secret belongs to a row that is stored now under its digest, is
  enabled and has not expired, and the key handed to the request carries that row's identity,
  model list, concurrency limit and billing limit.
\<close>

theorem authorized_key_is_current:
  assumes "AuthorizeApiKey sha cjson raw now s = (Inr key, s')"
  shows "\<exists>i r. i \<noteq> 0 \<and> ks_rows s i = Some (Row r) \<and> kr_KeyHash r = TrimSpace (sha (TrimSpace raw)) \<and> kr_Enabled r \<and>
    (case kr_ExpiresAt r of Some t \<Rightarrow> now < t | None \<Rightarrow> True) \<and> ak_ID key = (if kr_ID r = 0 then i else kr_ID r) \<and>
    ak_AllowedModels key = kr_AllowedModels r \<and> ak_MaxConcurrent key = kr_MaxConcurrent r \<and>
    ak_BillingLimitUSDTicks key = kr_BillingLimitUSDTicks r"
  using assms
proof (rule authorized_row)
  fix k s1 s2 i r
  assume g: "k = key_of s i r" "current_row s (TrimSpace (sha (TrimSpace raw))) i r" "ak_Enabled k"
    "\<not> (case ak_ExpiresAt k of Some t \<Rightarrow> t \<le> now | None \<Rightarrow> False)"
    "rolloverApiKeyBilling cjson (k\<lparr>ak_LastUsedAt := Some now\<rparr>) now s2 = (key, s')"
  then show ?thesis using rolloverApiKeyBilling_sel [OF g(5)]
    by (intro exI [of _ i] exI [of _ r]) (auto simp: current_row_def split: option.splits)
qed

definition sample_key :: ApiKey where
  "sample_key = \<lparr>ak_ID = 0, ak_Name = ''ci'', ak_KeyHash = ''digest'', ak_KeyFull = [], ak_KeyPrefix = ''sk-'', ak_KeySuffix = ''abcd'',
     ak_Enabled = True, ak_AllowedModels = [], ak_RPMLimit = 2, ak_MaxConcurrent = 3, ak_BillingLimitUSDTicks = 100000000000000,
     ak_BillingUsedUSDTicks = 0, ak_BillingPeriodDays = 0, ak_BillingPeriodStartedAt = 0, ak_ExpiresAt = None,
     ak_LastUsedAt = None, ak_CreatedAt = 5\<rparr>"

definition sample_keys :: keyStore where
  "sample_keys = snd (CreateApiKey 5 sample_key empty_keys)"

definition cjson14 :: "int \<Rightarrow> int option" where
  "cjson14 n = (if \<bar>n\<bar> < 100000000000000 then Some n else None)"

definition authorized :: "(key_error + ApiKey) \<times> keyStore \<Rightarrow> bool" where
  "authorized res = (case fst res of Inr key \<Rightarrow> True | Inl err \<Rightarrow> False)"

lemma authorizedE: "authorized res \<Longrightarrow> (\<And>key s'. res = (Inr key, s') \<Longrightarrow> P) \<Longrightarrow> P"
  by (cases res) (auto simp: authorized_def split: sum.splits)

theorem authorized_key_is_current_witness:
  "let key = projr (fst (AuthorizeApiKey (\<lambda>_. ''digest'') Some '' sk-secret '' 7 sample_keys)) in
   \<exists>i r. i \<noteq> 0 \<and> ks_rows sample_keys i = Some (Row r) \<and> kr_KeyHash r = ''digest'' \<and> kr_Enabled r \<and>
    (case kr_ExpiresAt r of Some t \<Rightarrow> 7 < t | None \<Rightarrow> True) \<and> ak_ID key = (if kr_ID r = 0 then i else kr_ID r) \<and>
    ak_AllowedModels key = kr_AllowedModels r \<and> ak_MaxConcurrent key = kr_MaxConcurrent r \<and>
    ak_BillingLimitUSDTicks key = kr_BillingLimitUSDTicks r"
proof -
  have "authorized (AuthorizeApiKey (\<lambda>_. ''digest'') Some '' sk-secret '' 7 sample_keys)" "TrimSpace ''digest'' = ''digest''"
    by code_simp+
  then obtain key s' where "AuthorizeApiKey (\<lambda>_. ''digest'') Some '' sk-secret '' 7 sample_keys = (Inr key, s')"
    "TrimSpace ''digest'' = ''digest''" by (auto elim: authorizedE)
  then show ?thesis using authorized_key_is_current [of "\<lambda>_. ''digest''" Some "'' sk-secret ''" 7 sample_keys key s']
    by (simp only: Let_def fst_conv sum.sel)
qed

text \<open>
  Rotating a key's secret retires the old one at once. When a key is stored with a new
  digest and no other key has the old digest, no secret with the old digest is authorized any more,
  even by a process whose index still knows it.
\<close>

theorem rotated_secret_is_refused:
  assumes "UpdateApiKey key s = (Inr (), s')" "ak_KeyHash key \<noteq> TrimSpace (sha (TrimSpace raw))"
    and "\<forall>i r. i \<noteq> ak_ID key \<longrightarrow> ks_rows s i = Some (Row r) \<longrightarrow> kr_KeyHash r \<noteq> TrimSpace (sha (TrimSpace raw))"
  shows "\<exists>err s''. AuthorizeApiKey sha cjson raw now (s'\<lparr>ks_keyIndex := index\<rparr>) = (Inl err, s'')"
proof (cases "AuthorizeApiKey sha cjson raw now (s'\<lparr>ks_keyIndex := index\<rparr>)")
  case (Pair res s'')
  have rows: "ks_rows s' = (ks_rows s)(ak_ID key := Some (Row (apiKeyRecordFromKey key)))"
    using assms(1) by (auto simp: UpdateApiKey_def Let_def split: if_splits sum.splits)
  show ?thesis
  proof (cases res)
    case (Inr k)
    obtain i r where "ks_rows s' i = Some (Row r)" "kr_KeyHash r = TrimSpace (sha (TrimSpace raw))"
      by (rule authorized_row [OF Pair [unfolded Inr]]) (auto simp: current_row_def)
    then show ?thesis using rows assms(2,3) by (cases "i = ak_ID key") (auto simp: apiKeyRecordFromKey_def)
  qed (use Pair in auto)
qed

theorem rotated_secret_is_refused_witness:
  "let key = (projr (getApiKeyByID sample_keys 1))\<lparr>ak_KeyHash := ''rotated''\<rparr>;
       s' = snd (UpdateApiKey key sample_keys) in
   \<exists>err s''. AuthorizeApiKey (\<lambda>_. ''digest'') Some ''sk-old'' 7 (s'\<lparr>ks_keyIndex := [(''digest'', 1)]\<rparr>) = (Inl err, s'')"
proof -
  let ?key = "(projr (getApiKeyByID sample_keys 1))\<lparr>ak_KeyHash := ''rotated''\<rparr>"
  have f: "fst (UpdateApiKey ?key sample_keys) = Inr ()" "TrimSpace ''digest'' = ''digest''" "ak_ID ?key = 1" "ak_KeyHash ?key = ''rotated''"
    by code_simp+
  have rows: "ks_rows sample_keys i = None" if "i \<noteq> 1" for i
    using that by (simp add: sample_keys_def CreateApiKey_def empty_keys_def Let_def)
  have "UpdateApiKey ?key sample_keys = (Inr (), snd (UpdateApiKey ?key sample_keys))" using f(1) by (metis prod.collapse)
  then show ?thesis using rotated_secret_is_refused [of ?key sample_keys _ "\<lambda>_. ''digest''" "''sk-old''" Some 7 "[(''digest'', 1)]"] f rows
    by (auto simp: Let_def)
qed

section \<open>Requests per minute\<close>

fun rpm_calls :: "(int \<Rightarrow> int option) \<Rightarrow> int \<Rightarrow> int \<Rightarrow> instant list \<Rightarrow> keyStore \<Rightarrow> bool list" where
  "rpm_calls cjson i limit [] s = []"
| "rpm_calls cjson i limit (t # ts) s =
     (case ConsumeApiKeyRPM cjson i limit t s of (res, s') \<Rightarrow> (res = Inr True) # rpm_calls cjson i limit ts s')"

lemma same_minute: "Unix t div 60 = m \<Longrightarrow> m * 60 \<le> Unix t \<and> Unix t < m * 60 + 60"
  by (metis add.commute add_strict_left_mono mult.commute mult_div_mod_eq pos_mod_bound pos_mod_sign
      le_add_same_cancel1 zero_less_numeral)

lemma rpm_step:
  assumes "i \<noteq> 0" "ks_rows s i = Some row" "0 < limit" "Unix t div 60 = m"
    and "ks_rpm s (i, m) = (if n = 0 then None else Some (int n, e))" "n \<noteq> 0 \<Longrightarrow> m * 60 + 120 \<le> e"
  obtains s' row' e' where "ConsumeApiKeyRPM cjson i limit t s = (Inr (int (Suc n) \<le> limit), s')"
    "ks_rows s' i = Some row'" "ks_rpm s' (i, m) = Some (int (Suc n), e')" "m * 60 + 120 \<le> e'"
proof -
  have t: "m * 60 \<le> Unix t" "Unix t < m * 60 + 60" using same_minute assms(4) by auto
  let ?e = "if n = 0 then Unix t + 120 else e"
  have "rpm_count s (i, m) (Unix t) = (if n = 0 then None else Some (int n, e))"
    using t assms(5,6) by (cases "n = 0") (auto simp: rpm_count_def)
  then have "ConsumeApiKeyRPM cjson i limit t s = (Inr (int (Suc n) \<le> limit),
      s\<lparr>ks_rows := (ks_rows s)(i := Some (reencode_row cjson (\<lambda>r. r\<lparr>kr_LastUsedAt := Some t\<rparr>) row)),
        ks_rpm := (ks_rpm s)((i, m) := Some (int (Suc n), ?e))\<rparr>)"
    using assms(1-4) by (simp add: ConsumeApiKeyRPM_def Let_def add.commute)
  then show thesis using t assms(6) by (intro that) auto
qed

lemma rpm_calls_from:
  assumes "i \<noteq> 0" "ks_rows s i = Some row" "0 < limit" "\<forall>t \<in> set ts. Unix t div 60 = m"
    and "ks_rpm s (i, m) = (if n = 0 then None else Some (int n, e))" "n \<noteq> 0 \<Longrightarrow> m * 60 + 120 \<le> e"
  shows "rpm_calls cjson i limit ts s = map (\<lambda>j. int (n + j) < limit) [0..<length ts]"
  using assms
proof (induction ts arbitrary: s row n e)
  case (Cons t ts)
  from Cons.prems obtain s' row' e' where st: "ConsumeApiKeyRPM cjson i limit t s = (Inr (int (Suc n) \<le> limit), s')"
    "ks_rows s' i = Some row'" "ks_rpm s' (i, m) = Some (int (Suc n), e')" "m * 60 + 120 \<le> e'"
    by (auto intro: rpm_step [of i s row limit t m n e cjson])
  have "rpm_calls cjson i limit ts s' = map (\<lambda>j. int (Suc n + j) < limit) [0..<length ts]"
    using Cons.prems st by (intro Cons.IH [where n = "Suc n" and e = e']) auto
  then show ?case using st(1) by (auto simp: upt_conv_Cons map_Suc_upt [symmetric] simp del: upt_Suc)
qed simp

text \<open>
  The per-minute limit is exact. Of any number of calls a key makes within one minute,
  in any order of their instants, the first as many as the limit are allowed and every later one is
  refused; the counter's expiry never forgets a call of that minute.
\<close>

theorem rpm_limit_exact:
  assumes "i \<noteq> 0" "ks_rows s i = Some row" "0 < limit" "\<forall>t \<in> set ts. Unix t div 60 = m" "ks_rpm s (i, m) = None"
  shows "rpm_calls cjson i limit ts s = map (\<lambda>j. int j < limit) [0..<length ts]"
  using rpm_calls_from [of i s row limit ts m 0 0 cjson] assms by simp

theorem rpm_limit_exact_witness:
  "rpm_calls Some 1 2 [0, second, 2 * second] sample_keys = map (\<lambda>j. int j < 2) [0..<length [0, second, 2 * second]]"
proof -
  have row: "\<exists>row. ks_rows sample_keys 1 = Some row"
    by (simp add: sample_keys_def CreateApiKey_def empty_keys_def Let_def)
  have "ks_rpm sample_keys (1, - 1035593280) = None"
    by (simp add: sample_keys_def CreateApiKey_def empty_keys_def Let_def)
  moreover have "\<forall>t \<in> set [0, second, 2 * second]. Unix t div 60 = - 1035593280" by (simp add: Unix_def)
  ultimately show ?thesis using row rpm_limit_exact [of 1 sample_keys _ 2 "[0, second, 2 * second]" "- 1035593280" Some] by auto
qed

section \<open>Billing periods\<close>

text \<open>
  A billing period is closed once. After a rollover (at an instant after the year one)
  every further rollover from the same snapshot of the key, by any process at any time, changes
  nothing, so usage booked in the new period is never cleared a second time; the holds of running
  requests survive the rollover.
\<close>

theorem rollover_happens_once:
  assumes "RolloverApiKeyBilling cjson key now s = (Inr True, s1)" "365 * 24 * hour \<le> now"
  shows "RolloverApiKeyBilling cjson key now' (s1\<lparr>ks_ledger := ledgers\<rparr>) = (Inr False, s1\<lparr>ks_ledger := ledgers\<rparr>) \<and>
    lg_reservations (ks_ledger s1 (ak_ID key)) = lg_reservations (ks_ledger s (ak_ID key)) \<and>
    number_or_0 (lg_used (ks_ledger s1 (ak_ID key))) = 0"
proof -
  obtain row where row: "ak_ID key \<noteq> 0" "0 < ak_BillingPeriodDays key" "ks_rows s (ak_ID key) = Some row"
    "ak_BillingPeriodStartedAt key \<noteq> 0 \<Longrightarrow> ak_BillingPeriodStartedAt key + ak_BillingPeriodDays key * 24 * hour \<le> now"
    "s1 = s\<lparr>ks_rows := (ks_rows s)(ak_ID key := Some (reencode_row cjson (\<lambda>r. r\<lparr>kr_BillingPeriodStartedAt := now\<rparr>) row)),
        ks_ledger := (ks_ledger s)(ak_ID key := rollover_ledger (ks_ledger s (ak_ID key)))\<rparr>"
    using assms(1) by (auto simp: RolloverApiKeyBilling_def Let_def split: if_splits option.splits)
  have start: "kr_BillingPeriodStartedAt (lua_row (reencode_row cjson (\<lambda>r. r\<lparr>kr_BillingPeriodStartedAt := now\<rparr>) row)) = now"
    by (simp add: reencode_row_def reencode_def lua_row_def split: option.split)
  have "\<not> year_one now" using assms(2) by (simp add: year_one_def)
  moreover have "ak_BillingPeriodStartedAt key \<noteq> now" if "ak_BillingPeriodStartedAt key \<noteq> 0"
    using row(2) row(4) [OF that] by auto
  ultimately have "RolloverApiKeyBilling cjson key now' (s1\<lparr>ks_ledger := ledgers\<rparr>) = (Inr False, s1\<lparr>ks_ledger := ledgers\<rparr>)"
    using row(1,2) start by (auto simp: RolloverApiKeyBilling_def Let_def row(5))
  then show ?thesis by (simp add: row(5) rollover_ledger_def number_or_0_def)
qed

theorem rollover_happens_once_witness:
  "let key = sample_key\<lparr>ak_ID := 1, ak_BillingPeriodDays := 30\<rparr>;
       s = snd (CreateApiKey 5 (sample_key\<lparr>ak_BillingPeriodDays := 30\<rparr>) empty_keys);
       s1 = snd (RolloverApiKeyBilling Some key (400 * 24 * hour) s) in
   RolloverApiKeyBilling Some key (900 * 24 * hour) (s1\<lparr>ks_ledger := \<lambda>_. fresh_ledger 9\<rparr>) =
      (Inr False, s1\<lparr>ks_ledger := \<lambda>_. fresh_ledger 9\<rparr>) \<and>
   lg_reservations (ks_ledger s1 (ak_ID key)) = lg_reservations (ks_ledger s (ak_ID key)) \<and>
   number_or_0 (lg_used (ks_ledger s1 (ak_ID key))) = 0"
proof -
  let ?key = "sample_key\<lparr>ak_ID := 1, ak_BillingPeriodDays := 30\<rparr>"
  let ?s = "snd (CreateApiKey 5 (sample_key\<lparr>ak_BillingPeriodDays := 30\<rparr>) empty_keys)"
  let ?r = "RolloverApiKeyBilling Some ?key (400 * 24 * hour) ?s"
  have "fst ?r = Inr True" by code_simp
  then have "?r = (Inr True, snd ?r)" by (metis prod.collapse)
  moreover have "365 * 24 * hour \<le> 400 * 24 * hour" by simp
  ultimately show ?thesis
    using rollover_happens_once [of Some ?key "400 * 24 * hour" ?s "snd ?r" "900 * 24 * hour" "\<lambda>_. fresh_ledger 9"]
    unfolding Let_def by blast
qed

section \<open>Rows a script makes unreadable\<close>

lemma reencode_unreadable: "cjson (kr_BillingLimitUSDTicks r) = None \<Longrightarrow> reencode cjson r = Unreadable r"
  by (simp add: reencode_def split: option.split)

lemma lua_row_reencode_limit:
  "cjson (kr_BillingLimitUSDTicks r) = None \<Longrightarrow> kr_BillingLimitUSDTicks (lua_row (reencode cjson r)) = kr_BillingLimitUSDTicks r"
  by (simp add: reencode_unreadable lua_row_def)

definition locked_out :: "(int \<Rightarrow> int option) \<Rightarrow> int \<Rightarrow> keyStore \<Rightarrow> bool" where
  "locked_out cjson i s \<longleftrightarrow> (\<exists>r. ks_rows s i = Some (Unreadable r) \<and> cjson (kr_BillingLimitUSDTicks r) = None)"

lemma consume_locks_out:
  assumes "ks_rows s i = Some (Row r)" "cjson (kr_BillingLimitUSDTicks r) = None"
    and "ConsumeApiKeyRPM cjson i limit now s = (Inr allowed, s')"
  shows "locked_out cjson i s'"
  using assms reencode_unreadable [of cjson "r\<lparr>kr_LastUsedAt := Some now\<rparr>"]
  by (auto simp: ConsumeApiKeyRPM_def locked_out_def reencode_row_def lua_row_def Let_def split: if_splits option.splits prod.splits)

lemma rollover_keeps_locked_out:
  assumes "locked_out cjson i s" "rolloverApiKeyBilling cjson key now s = (key', s')"
  shows "locked_out cjson i s'"
proof -
  obtain r where r: "ks_rows s i = Some (Unreadable r)" "cjson (kr_BillingLimitUSDTicks r) = None"
    using assms(1) by (auto simp: locked_out_def)
  then have "reencode cjson (r\<lparr>kr_BillingPeriodStartedAt := now\<rparr>) = Unreadable (r\<lparr>kr_BillingPeriodStartedAt := now\<rparr>)"
    by (intro reencode_unreadable) simp
  then show ?thesis using assms(2) r
    by (auto simp: rolloverApiKeyBilling_def RolloverApiKeyBilling_def locked_out_def reencode_row_def lua_row_def Let_def
        split: if_splits option.splits prod.splits sum.splits)
qed

text \<open>
  Property C36: a key whose billing limit Redis prints in exponent notation locks itself out. When
  the number is not read back as an integer, the first authorized request of a key with a
  per-minute limit leaves a row that the store can no longer read, update or delete.
\<close>

theorem large_limit_locks_key_out:
  assumes "AuthorizeApiKey sha cjson raw now s = (Inr key, s')" "\<forall>i r. ks_rows s i = Some (Row r) \<longrightarrow> kr_ID r = i"
    and "0 < ak_RPMLimit key" "cjson (ak_BillingLimitUSDTicks key) = None"
  shows "getApiKeyByID s' (ak_ID key) = Inl (KeyFailure ''unmarshal'') \<and>
    UpdateApiKey key s' = (Inl (KeyFailure ''unmarshal''), s') \<and>
    DeleteApiKey (ak_ID key) s' = (Inl (KeyFailure ''unmarshal''), s')"
proof -
  obtain k s1 s2 allowed where k: "GetApiKeyByHash (sha (TrimSpace raw)) s = (Inr k, s1)"
    "ak_RPMLimit k > 0 \<Longrightarrow> ConsumeApiKeyRPM cjson (ak_ID k) (ak_RPMLimit k) now s1 = (Inr allowed, s2)"
    "rolloverApiKeyBilling cjson (k\<lparr>ak_LastUsedAt := Some now\<rparr>) now s2 = (key, s')"
    using assms(1) by (auto simp: AuthorizeApiKey_def Let_def split: if_splits prod.splits sum.splits)
  from k(1) obtain i r where i: "current_row s (TrimSpace (sha (TrimSpace raw))) i r" "k = key_of s i r" "ks_rows s1 = ks_rows s"
    by (rule GetApiKeyByHash_Inr)
  note sel = rolloverApiKeyBilling_sel [OF k(3)]
  have ids: "kr_ID r = i" "i \<noteq> 0" "ks_rows s1 i = Some (Row r)" using i assms(2) by (auto simp: current_row_def)
  have "cjson (kr_BillingLimitUSDTicks r) = None" "ConsumeApiKeyRPM cjson i (ak_RPMLimit k) now s1 = (Inr allowed, s2)"
    using ids i(2) sel assms(3,4) k(2) by auto
  then have "locked_out cjson i s2" by (rule consume_locks_out [OF ids(3)])
  then have "locked_out cjson i s'" using k(3) by (rule rollover_keeps_locked_out)
  then show ?thesis using ids sel i(2) by (auto simp: locked_out_def getApiKeyByID_def UpdateApiKey_def DeleteApiKey_def)
qed

theorem large_limit_locks_key_out_witness:
  "let res = AuthorizeApiKey (\<lambda>_. ''digest'') cjson14 ''sk-secret'' 7 sample_keys; key = projr (fst res) in
   getApiKeyByID (snd res) (ak_ID key) = Inl (KeyFailure ''unmarshal'') \<and>
   UpdateApiKey key (snd res) = (Inl (KeyFailure ''unmarshal''), snd res) \<and>
   DeleteApiKey (ak_ID key) (snd res) = (Inl (KeyFailure ''unmarshal''), snd res)"
proof -
  let ?res = "AuthorizeApiKey (\<lambda>_. ''digest'') cjson14 ''sk-secret'' 7 sample_keys"
  have c: "authorized ?res" "0 < ak_RPMLimit (projr (fst ?res))" "cjson14 (ak_BillingLimitUSDTicks (projr (fst ?res))) = None"
    by code_simp+
  have ids: "\<forall>i r. ks_rows sample_keys i = Some (Row r) \<longrightarrow> kr_ID r = i"
    by (auto simp: sample_keys_def CreateApiKey_def empty_keys_def apiKeyRecordFromKey_def Let_def)
  from c(1) obtain key s' where "?res = (Inr key, s')" by (rule authorizedE)
  then show ?thesis using large_limit_locks_key_out [OF _ ids, of "\<lambda>_. ''digest''" cjson14 "''sk-secret''" 7 key s'] c(2,3)
    by (simp add: Let_def)
qed

end
