(* ===== verification/Key_Admission.thy ===== *)
theory Key_Admission
  imports Pricing Api_Keys Conn_Tracker
begin

text \<open>
  Admission of an inference request under a client key: authentication, the concurrency slot, the
  budget reservation and its settlement (\<^verbatim>\<open>src/internal/middleware/session.go\<close>,
  \<^verbatim>\<open>src/internal/middleware/billing.go\<close>, the wiring of \<^verbatim>\<open>src/cmd/server/routes.go\<close>) and the key policy of
  the administration surface (\<^verbatim>\<open>src/internal/api/api_keys.go\<close>). What the handler does that matters
  here is the list of settlements it asks for. Writing the response is I/O; its status and code are
  the result.
\<close>

section \<open>Key policy\<close>

definition maxApiKeyBillingLimitUSDTicks :: int where "maxApiKeyBillingLimitUSDTicks = 9000000000000000"
definition maxApiKeyBillingPeriodDays :: int where "maxApiKeyBillingPeriodDays = 3650"
definition maxApiKeyMaxConcurrent :: int where "maxApiKeyMaxConcurrent = 1024"

text \<open>Field, least value, greatest value (0 for none), message.\<close>

definition apiKeyPolicyBounds :: "(string \<times> int \<times> int \<times> string) list" where
  "apiKeyPolicyBounds =
    [(''rpm_limit'', 0, 0, ''rpm_limit must be greater than or equal to zero''),
     (''max_concurrent'', 0, maxApiKeyMaxConcurrent, ''max_concurrent must be between 0 and 1024''),
     (''billing_limit_usd_ticks'', 0, maxApiKeyBillingLimitUSDTicks, ''billing_limit_usd_ticks must be between 0 and 9000000000000000''),
     (''billing_period_days'', 0, maxApiKeyBillingPeriodDays, ''billing_period_days must be between 0 and 3650'')]"

fun policy_error :: "(string \<times> int \<times> int \<times> string) list \<Rightarrow> string \<Rightarrow> int \<Rightarrow> string option" where
  "policy_error [] field v = None"
| "policy_error ((name, lo, hi, message) # rest) field v =
     (if name \<noteq> field then policy_error rest field v
      else if v < lo \<or> (hi > 0 \<and> v > hi) then Some message else policy_error rest field v)"

definition validateApiKeyPolicyValue :: "string \<Rightarrow> int \<Rightarrow> string option" where
  "validateApiKeyPolicyValue field v = policy_error apiKeyPolicyBounds field v"

text \<open>The first violated bound in the order of the table, or \<^const>\<open>None\<close> when the fields are valid.\<close>

definition validateApiKeyPolicy :: "(string \<Rightarrow> int option) \<Rightarrow> string option" where
  "validateApiKeyPolicy fs =
     (case List.find (\<lambda>(name, lo, hi, message). case fs name of None \<Rightarrow> False | Some v \<Rightarrow> validateApiKeyPolicyValue name v \<noteq> None)
        apiKeyPolicyBounds of
        Some (name, lo, hi, message) \<Rightarrow> Some message | None \<Rightarrow> None)"

fun normalize_models :: "string list \<Rightarrow> string list \<Rightarrow> string list" where
  "normalize_models [] normalized = normalized"
| "normalize_models (m # ms) normalized =
     (let model = ToLower (TrimSpace m) in
      if model = [] then normalize_models ms normalized
      else if model = ''*'' then [''*'']
      else if model \<in> set normalized then normalize_models ms normalized
      else normalize_models ms (normalized @ [model]))"

definition normalizeAllowedModels :: "string list \<Rightarrow> string list" where
  "normalizeAllowedModels models = normalize_models models []"

section \<open>Authentication\<close>

record APIKeyPrincipal =
  pr_ID :: int
  pr_AllowedModels :: "string list"
  pr_MaxConcurrent :: int
  pr_BillingLimitUSDTicks :: int
  pr_DenialCode :: string

definition APIKeyDenialExpired :: string where "APIKeyDenialExpired = ''invalid_api_key''"
definition APIKeyDenialRateLimited :: string where "APIKeyDenialRateLimited = ''rate_limit_exceeded''"

definition denial :: "string \<Rightarrow> APIKeyPrincipal" where
  "denial code = \<lparr>pr_ID = 0, pr_AllowedModels = [], pr_MaxConcurrent = 0, pr_BillingLimitUSDTicks = 0, pr_DenialCode = code\<rparr>"

text \<open>The validator wired in \<^verbatim>\<open>routes.go\<close>: no principal for an unknown key, an error otherwise.\<close>

definition validate_key :: "key_error + ApiKey \<Rightarrow> string + APIKeyPrincipal option" where
  "validate_key res = (case res of
     Inr key \<Rightarrow> Inr (Some \<lparr>pr_ID = ak_ID key, pr_AllowedModels = ak_AllowedModels key, pr_MaxConcurrent = ak_MaxConcurrent key,
                  pr_BillingLimitUSDTicks = ak_BillingLimitUSDTicks key, pr_DenialCode = []\<rparr>)
   | Inl ErrNoRows \<Rightarrow> Inr None
   | Inl ErrApiKeyExpired \<Rightarrow> Inr (Some (denial APIKeyDenialExpired))
   | Inl ErrApiKeyRateLimited \<Rightarrow> Inr (Some (denial APIKeyDenialRateLimited))
   | Inl (KeyFailure m) \<Rightarrow> Inl m)"

text \<open>\<^verbatim>\<open>strings.Fields\<close>.\<close>

fun fields_loop :: "string \<Rightarrow> string \<Rightarrow> string list" where
  "fields_loop [] word = (if word = [] then [] else [word])"
| "fields_loop (c # cs) word =
     (if is_space c then (if word = [] then fields_loop cs [] else word # fields_loop cs []) else fields_loop cs (word @ [c]))"

definition Fields :: "string \<Rightarrow> string list" where
  "Fields s = fields_loop s []"

record request =
  rq_Method :: string
  rq_Path :: string
  rq_Authorization :: string
  rq_XApiKey :: string
  rq_Body :: body
  rq_RequestID :: string

definition bearerToken :: "request \<Rightarrow> string" where
  "bearerToken r =
     (let authHeader = TrimSpace (rq_Authorization r) in
      if authHeader = [] then []
      else case Fields authHeader of [scheme, token] \<Rightarrow> if EqualFold scheme ''Bearer'' then token else [] | _ \<Rightarrow> [])"

definition apiKeyToken :: "request \<Rightarrow> string" where
  "apiKeyToken r = (if bearerToken r \<noteq> [] then bearerToken r else TrimSpace (rq_XApiKey r))"

datatype answer = Answer int string | Served

text \<open>An answer, or the principal the rest of the chain runs under (none for an anonymous source).\<close>

definition APIKeyAuthWithRequest ::
  "bool \<Rightarrow> (string \<Rightarrow> keyStore \<Rightarrow> (string + APIKeyPrincipal option) \<times> keyStore) \<Rightarrow> request \<Rightarrow> keyStore \<Rightarrow>
   (answer + APIKeyPrincipal option) \<times> keyStore" where
  "APIKeyAuthWithRequest required validate r s =
     (if \<not> required then (Inr None, s)
      else let token = apiKeyToken r in
        if token = [] then (Inl (Answer 401 ''invalid_api_key''), s)
        else case validate token s of
          (Inl err, s') \<Rightarrow> (Inl (Answer 503 ''auth_unavailable''), s')
        | (Inr None, s') \<Rightarrow> (Inl (Answer 401 ''invalid_api_key''), s')
        | (Inr (Some p), s') \<Rightarrow>
            if pr_DenialCode p = APIKeyDenialExpired then (Inl (Answer 401 APIKeyDenialExpired), s')
            else if pr_DenialCode p = APIKeyDenialRateLimited then (Inl (Answer 429 APIKeyDenialRateLimited), s')
            else (Inr (Some p), s'))"

definition APIKeyAllowsModel :: "APIKeyPrincipal option \<Rightarrow> string \<Rightarrow> bool" where
  "APIKeyAllowsModel who model0 = (case who of None \<Rightarrow> True | Some p \<Rightarrow>
     pr_AllowedModels p = [] \<or>
     (let model = ToLower (TrimSpace model0) in
      list_ex (\<lambda>a. let allowed = ToLower (TrimSpace a) in allowed = ''*'' \<or> (model \<noteq> [] \<and> allowed = model)) (pr_AllowedModels p)))"

section \<open>Settlement\<close>

record BillingReservation =
  br_KeyID :: int
  br_EventID :: string
  br_Amount :: int
  br_settled :: bool
  br_priced :: Result

definition no_result :: Result where "no_result = \<lparr>res_Model = [], CostInUSDTicks = 0\<rparr>"

definition claim :: "Result \<Rightarrow> BillingReservation \<Rightarrow> (Result \<times> bool) \<times> BillingReservation" where
  "claim result r = (if br_settled r then ((br_priced r, False), r)
     else ((result, True), r\<lparr>br_settled := True, br_priced := result\<rparr>))"

datatype UsageSource = UsageSourceUpstream | UsageSourceEstimated | UsageSourceNone

record settlement =
  st_Model :: string
  st_Source :: UsageSource
  st_Input :: int
  st_Cached :: int
  st_Output :: int
  st_allowEstimates :: bool

text \<open>The ledger is wired; \<open>br\<close> is the hold in the request context.\<close>

definition SettleAPIKeyBilling ::
  "settlement \<Rightarrow> BillingReservation option \<Rightarrow> keyStore \<Rightarrow> Result option \<times> BillingReservation option \<times> keyStore" where
  "SettleAPIKeyBilling call br s =
     (if st_Source call \<noteq> UsageSourceUpstream \<and> \<not> st_allowEstimates call then (None, br, s)
      else case EstimateCost (st_Model call) (st_Input call) (st_Cached call) (st_Output call) (st_Input call) of
        None \<Rightarrow> (None, br, s)
      | Some result \<Rightarrow> (case br of
          None \<Rightarrow> (Some result, br, s)
        | Some r \<Rightarrow>
            if br_KeyID r = 0 \<or> br_EventID r = [] then (Some result, br, s)
            else case claim result r of
              ((claimed, first), r') \<Rightarrow>
                if \<not> first then (Some claimed, Some r', s)
                else (Some result, Some r', snd (SettleApiKeyBilling (br_KeyID r) (br_EventID r) (CostInUSDTicks result) s))))"

fun settle_all :: "settlement list \<Rightarrow> BillingReservation option \<Rightarrow> keyStore \<Rightarrow> BillingReservation option \<times> keyStore" where
  "settle_all [] br s = (br, s)"
| "settle_all (c # cs) br s = (case SettleAPIKeyBilling c br s of (res, br', s') \<Rightarrow> settle_all cs br' s')"

section \<open>Reservation\<close>

definition billingRequestPaths :: "string list" where
  "billingRequestPaths = [''/chat/completions'', ''/messages'', ''/responses'']"

definition billingRequestPath :: "string \<Rightarrow> bool" where
  "billingRequestPath path = (if HasSuffix path ''/count_tokens'' then False
     else list_ex (\<lambda>suffix. Contains (ToLower path) suffix) billingRequestPaths)"

definition DefaultBillingReservationTTL :: duration where "DefaultBillingReservationTTL = 30 * minute"

text \<open>
  \<open>rq_Body\<close> is what \<^verbatim>\<open>readBillingBody\<close> hands to the estimator: the body, or its first 8 MiB.
\<close>

definition APIKeyBillingReservation ::
  "duration \<Rightarrow> instant \<Rightarrow> APIKeyPrincipal option \<Rightarrow> request \<Rightarrow> settlement list \<Rightarrow> keyStore \<Rightarrow> answer \<times> keyStore" where
  "APIKeyBillingReservation ttl0 now who r calls s =
     (let ttl = (if ttl0 \<le> 0 then DefaultBillingReservationTTL else ttl0);
          pass = (Served, snd (settle_all calls None s)) in
      case who of None \<Rightarrow> pass | Some p \<Rightarrow>
        if pr_ID p = 0 \<or> pr_BillingLimitUSDTicks p \<le> 0 then pass
        else if rq_Method r \<noteq> ''POST'' \<and> rq_Method r \<noteq> ''PUT'' then pass
        else if \<not> billingRequestPath (rq_Path r) then pass
        else if body_length (rq_Body r) = 0 then pass
        else case EstimateTextReservationFromBody (rq_Body r) of
          None \<Rightarrow> pass
        | Some estimate \<Rightarrow>
            if rq_RequestID r = [] then pass
            else case ReserveApiKeyBilling (pr_ID p) (rq_RequestID r) (CostInUSDTicks estimate) (now + ttl) now s of
              (Inl err, s1) \<Rightarrow> (Answer 503 ''billing_unavailable'', s1)
            | (Inr False, s1) \<Rightarrow> (Answer 402 ''billing_limit_exceeded'', s1)
            | (Inr True, s1) \<Rightarrow>
                (let br = \<lparr>br_KeyID = pr_ID p, br_EventID = rq_RequestID r, br_Amount = CostInUSDTicks estimate,
                      br_settled = False, br_priced = no_result\<rparr>;
                     (br', s2) = settle_all calls (Some br) s1 in
                 (Served, case br' of Some b \<Rightarrow> if br_settled b then s2
                     else snd (ReleaseApiKeyBilling (br_KeyID b) (br_EventID b) s2) | None \<Rightarrow> s2)))"

section \<open>The concurrency slot and the chain\<close>

record gateway =
  gw_keys :: keyStore
  gw_conns :: conns

definition APIKeyConcurrencyWithTracker ::
  "(keyStore \<Rightarrow> answer \<times> keyStore) \<Rightarrow> APIKeyPrincipal option \<Rightarrow> gateway \<Rightarrow> answer \<times> gateway" where
  "APIKeyConcurrencyWithTracker next_handler who g =
     (let pass = (case next_handler (gw_keys g) of (a, s) \<Rightarrow> (a, g\<lparr>gw_keys := s\<rparr>)) in
      case who of None \<Rightarrow> pass | Some p \<Rightarrow>
        if pr_ID p = 0 \<or> pr_MaxConcurrent p \<le> 0 then pass
        else case TryAcquire (- pr_ID p) (pr_MaxConcurrent p) (gw_conns g) of
          (False, t) \<Rightarrow> (Answer 429 ''concurrency_limit_exceeded'', g\<lparr>gw_conns := t\<rparr>)
        | (True, t) \<Rightarrow> (case next_handler (gw_keys g) of (a, s) \<Rightarrow>
            (a, g\<lparr>gw_keys := s, gw_conns := Release (- pr_ID p) t\<rparr>)))"

definition inferenceAuth ::
  "(string \<Rightarrow> string) \<Rightarrow> (int \<Rightarrow> int option) \<Rightarrow> bool \<Rightarrow> instant \<Rightarrow> request \<Rightarrow> settlement list \<Rightarrow> gateway \<Rightarrow> answer \<times> gateway" where
  "inferenceAuth sha cjson required now r calls g =
     (case APIKeyAuthWithRequest required
         (\<lambda>token s. case AuthorizeApiKey sha cjson token now s of (res, s') \<Rightarrow> (validate_key res, s')) r (gw_keys g) of
        (Inl a, s) \<Rightarrow> (a, g\<lparr>gw_keys := s\<rparr>)
      | (Inr who, s) \<Rightarrow>
          APIKeyConcurrencyWithTracker (APIKeyBillingReservation DefaultBillingReservationTTL now who r calls)
            who (g\<lparr>gw_keys := s\<rparr>))"

section \<open>What a list of settlements charges\<close>

definition settle_price :: "settlement \<Rightarrow> Result option" where
  "settle_price call = (if st_Source call \<noteq> UsageSourceUpstream \<and> \<not> st_allowEstimates call then None
     else EstimateCost (st_Model call) (st_Input call) (st_Cached call) (st_Output call) (st_Input call))"

fun first_charge :: "settlement list \<Rightarrow> Result option" where
  "first_charge [] = None"
| "first_charge (c # cs) = (case settle_price c of Some r \<Rightarrow> Some r | None \<Rightarrow> first_charge cs)"

definition live_reservation :: "BillingReservation \<Rightarrow> bool" where
  "live_reservation b \<longleftrightarrow> br_KeyID b \<noteq> 0 \<and> br_EventID b \<noteq> []"

lemma SettleAPIKeyBilling_eq:
  "SettleAPIKeyBilling c br s = (case settle_price c of None \<Rightarrow> (None, br, s) | Some result \<Rightarrow> (case br of
      None \<Rightarrow> (Some result, br, s)
    | Some r \<Rightarrow> if \<not> live_reservation r then (Some result, br, s)
        else if br_settled r then (Some (br_priced r), br, s)
        else (Some result, Some (r\<lparr>br_settled := True, br_priced := result\<rparr>),
              snd (SettleApiKeyBilling (br_KeyID r) (br_EventID r) (CostInUSDTicks result) s))))"
  by (auto simp: SettleAPIKeyBilling_def settle_price_def claim_def live_reservation_def split: option.splits)

lemma settle_all_None [simp]: "settle_all cs None s = (None, s)"
  by (induction cs) (auto simp: SettleAPIKeyBilling_eq split: option.split)

lemma settle_all_settled: "br_settled b \<Longrightarrow> settle_all cs (Some b) s = (Some b, s)"
  by (induction cs) (auto simp: SettleAPIKeyBilling_eq split: option.split)

lemma settle_all_once:
  assumes "live_reservation b" "\<not> br_settled b"
  shows "settle_all cs (Some b) s = (case first_charge cs of
      None \<Rightarrow> (Some b, s)
    | Some result \<Rightarrow> (Some (b\<lparr>br_settled := True, br_priced := result\<rparr>),
        snd (SettleApiKeyBilling (br_KeyID b) (br_EventID b) (CostInUSDTicks result) s)))"
  using assms by (induction cs) (auto simp: SettleAPIKeyBilling_eq settle_all_settled split: option.split)

section \<open>The effect of one request on the ledger\<close>

lemma with_ledger_eq:
  "with_ledger i f s = (fst (f (ks_ledger s i)), s\<lparr>ks_ledger := (ks_ledger s)(i := snd (f (ks_ledger s i)))\<rparr>)"
  by (simp add: with_ledger_def split: prod.split)

lemma SettleApiKeyBilling_ledger:
  assumes "i \<noteq> 0" "TrimSpace e \<noteq> []" "0 \<le> amount"
  shows "snd (SettleApiKeyBilling i e amount s) = s\<lparr>ks_ledger := (ks_ledger s)(i := snd (settleApiKeyBillingScript e amount (ks_ledger s i)))\<rparr>"
  using assms by (simp add: SettleApiKeyBilling_def with_ledger_eq split: prod.split reply.split)

lemma ReleaseApiKeyBilling_ledger:
  assumes "i \<noteq> 0" "TrimSpace e \<noteq> []"
  shows "snd (ReleaseApiKeyBilling i e s) = s\<lparr>ks_ledger := (ks_ledger s)(i := snd (releaseApiKeyBillingScript e (ks_ledger s i)))\<rparr>"
  using assms by (simp add: ReleaseApiKeyBilling_def with_ledger_eq split: prod.split reply.split)

lemma ReserveApiKeyBilling_cases:
  assumes "ReserveApiKeyBilling i e amount x now s = (res, s1)"
  shows "(s1 = s \<and> (\<exists>err. res = Inl err)) \<or> (i \<noteq> 0 \<and> TrimSpace e \<noteq> [] \<and> 0 < amount \<and>
    s1 = s\<lparr>ks_ledger := (ks_ledger s)(i := snd (reserveApiKeyBillingScript e amount (Unix now) (Unix x) (ks_ledger s i)))\<rparr> \<and>
    (res = Inr True \<longleftrightarrow> fst (reserveApiKeyBillingScript e amount (Unix now) (Unix x) (ks_ledger s i)) = Reply 1))"
  using assms by (auto simp: ReserveApiKeyBilling_def with_ledger_eq split: if_splits prod.splits reply.splits)

lemma ReserveApiKeyBilling_True:
  "ReserveApiKeyBilling i e amount x now s = (Inr True, s1) \<Longrightarrow> i \<noteq> 0 \<and> TrimSpace e \<noteq> [] \<and> e \<noteq> [] \<and> 0 < amount"
  by (auto simp: ReserveApiKeyBilling_def split: if_splits)

definition metered :: "APIKeyPrincipal \<Rightarrow> request \<Rightarrow> Result option" where
  "metered p r = (if pr_ID p = 0 \<or> pr_BillingLimitUSDTicks p \<le> 0 \<or> (rq_Method r \<noteq> ''POST'' \<and> rq_Method r \<noteq> ''PUT'') \<or>
       \<not> billingRequestPath (rq_Path r) \<or> body_length (rq_Body r) = 0 \<or> rq_RequestID r = [] then None
     else EstimateTextReservationFromBody (rq_Body r))"

text \<open>The outcome of a request by its three branches: unmetered, refused, held.\<close>

lemma reservation_cases:
  assumes "APIKeyBillingReservation ttl now (Some p) r calls s = (a, s')"
  obtains (unmetered) "metered p r = None" "a = Served" "s' = s"
  | (refused) estimate res where "metered p r = Some estimate" "a \<noteq> Served" "res \<noteq> Inr True"
      "ReserveApiKeyBilling (pr_ID p) (rq_RequestID r) (CostInUSDTicks estimate)
         (now + (if ttl \<le> 0 then DefaultBillingReservationTTL else ttl)) now s = (res, s')"
  | (served) estimate s1 where "metered p r = Some estimate" "a = Served"
      "ReserveApiKeyBilling (pr_ID p) (rq_RequestID r) (CostInUSDTicks estimate)
         (now + (if ttl \<le> 0 then DefaultBillingReservationTTL else ttl)) now s = (Inr True, s1)"
      "s' = (case first_charge calls of Some result \<Rightarrow> snd (SettleApiKeyBilling (pr_ID p) (rq_RequestID r) (CostInUSDTicks result) s1)
         | None \<Rightarrow> snd (ReleaseApiKeyBilling (pr_ID p) (rq_RequestID r) s1))"
proof (cases "metered p r")
  case None
  then have "a = Served \<and> s' = s"
    using assms by (auto simp: APIKeyBillingReservation_def metered_def Let_def split: if_splits option.splits)
  then show ?thesis using unmetered None by blast
next
  case (Some estimate)
  let ?ttl = "if ttl \<le> 0 then DefaultBillingReservationTTL else ttl"
  obtain res s1 where res: "ReserveApiKeyBilling (pr_ID p) (rq_RequestID r) (CostInUSDTicks estimate) (now + ?ttl) now s = (res, s1)"
    by fastforce
  let ?br = "\<lparr>br_KeyID = pr_ID p, br_EventID = rq_RequestID r, br_Amount = CostInUSDTicks estimate, br_settled = False, br_priced = no_result\<rparr>"
  have c: "pr_ID p \<noteq> 0" "\<not> pr_BillingLimitUSDTicks p \<le> 0" "\<not> (rq_Method r \<noteq> ''POST'' \<and> rq_Method r \<noteq> ''PUT'')"
    "billingRequestPath (rq_Path r)" "body_length (rq_Body r) \<noteq> 0" "rq_RequestID r \<noteq> []"
    "EstimateTextReservationFromBody (rq_Body r) = Some estimate"
    using Some by (auto simp: metered_def split: if_splits)
  have run: "APIKeyBillingReservation ttl now (Some p) r calls s = (case res of
        Inl err \<Rightarrow> (Answer 503 ''billing_unavailable'', s1)
      | Inr b \<Rightarrow> if \<not> b then (Answer 402 ''billing_limit_exceeded'', s1) else
          (case settle_all calls (Some ?br) s1 of (br', s2) \<Rightarrow> (Served, case br' of Some b \<Rightarrow> if br_settled b then s2
             else snd (ReleaseApiKeyBilling (br_KeyID b) (br_EventID b) s2) | None \<Rightarrow> s2)))"
    using c by (auto simp: APIKeyBillingReservation_def Let_def res split: sum.split bool.split)
  show ?thesis
  proof (cases "res = Inr True")
    case False
    then have "a \<noteq> Served \<and> s' = s1" using run assms by (auto split: sum.splits if_splits)
    then show ?thesis using refused [OF Some _ False] res by simp
  next
    case True
    have "live_reservation ?br" using ReserveApiKeyBilling_True [OF res [unfolded True]] by (simp add: live_reservation_def)
    then have "settle_all calls (Some ?br) s1 = (case first_charge calls of None \<Rightarrow> (Some ?br, s1)
        | Some result \<Rightarrow> (Some (?br\<lparr>br_settled := True, br_priced := result\<rparr>),
            snd (SettleApiKeyBilling (pr_ID p) (rq_RequestID r) (CostInUSDTicks result) s1)))"
      by (subst settle_all_once) (auto split: option.split)
    then show ?thesis using served [OF Some _ res [unfolded True]] run assms True by (auto split: option.splits)
  qed
qed

lemma reserve_refused_fresh:
  assumes "reserveApiKeyBillingScript e amount n x l = (rep, l')" "rep \<noteq> Reply 1" "map_of (lg_reservations l) e = None"
  shows "map_of (lg_reservations l') e = None"
proof -
  have "subseq (lg_reservations l') (lg_reservations l)"
  proof (cases "reserve_scan e amount n (lg_reservations l) [] 0 x")
    case (Conflicting fs)
    then show ?thesis using assms(1) scan_early [of e amount n "lg_reservations l" "[]" 0 x fs]
      by (auto simp: reserveApiKeyBillingScript_def Let_def)
  qed (use assms(1,2) scan_Scanned in \<open>auto simp: reserveApiKeyBillingScript_def Let_def split: if_splits dest!: scan_Scanned\<close>)
  then show ?thesis using assms(3) subseq_set by (fastforce simp: map_of_eq_None_iff)
qed

lemma settle_effect:
  assumes "map_of (lg_settled l) e = None" "in_int64 (number_or_0 (lg_used l) + amount)"
  shows "map_of (lg_reservations (snd (settleApiKeyBillingScript e amount l))) e = None"
    "number_or_0 (lg_used (snd (settleApiKeyBillingScript e amount l))) = number_or_0 (lg_used l) + amount"
  using assms by (simp_all add: settleApiKeyBillingScript_def Let_def number_or_0_def delete_conv')

lemma release_effect:
  "map_of (lg_reservations (snd (releaseApiKeyBillingScript e l))) e = None"
  "lg_used (snd (releaseApiKeyBillingScript e l)) = lg_used l"
  by (simp_all add: releaseApiKeyBillingScript_def delete_conv')

text \<open>
  Property C27: a request is charged once and leaves no hold. For a request with an identity not
  yet in the ledger, whatever settlements its handler asks for: afterwards no hold of it is left; the
  key's usage grew by the price of the first billable settlement if the request was metered and
  served, and not at all if it was refused, unmetered or never settled; no other key's ledger changed.
\<close>

theorem request_is_charged_once:
  assumes "APIKeyBillingReservation ttl now (Some p) r calls s = (a, s')"
    and "map_of (lg_reservations (ks_ledger s (pr_ID p))) (rq_RequestID r) = None"
    and "map_of (lg_settled (ks_ledger s (pr_ID p))) (rq_RequestID r) = None"
    and "\<forall>res. first_charge calls = Some res \<longrightarrow>
      0 \<le> CostInUSDTicks res \<and> in_int64 (number_or_0 (lg_used (ks_ledger s (pr_ID p))) + CostInUSDTicks res)"
  shows "map_of (lg_reservations (ks_ledger s' (pr_ID p))) (rq_RequestID r) = None \<and>
    number_or_0 (lg_used (ks_ledger s' (pr_ID p))) = number_or_0 (lg_used (ks_ledger s (pr_ID p))) +
      (if a = Served \<and> metered p r \<noteq> None then (case first_charge calls of Some res \<Rightarrow> CostInUSDTicks res | None \<Rightarrow> 0) else 0) \<and>
    (\<forall>i. i \<noteq> pr_ID p \<longrightarrow> ks_ledger s' i = ks_ledger s i)"
  using assms(1)
proof (cases rule: reservation_cases)
  case unmetered
  then show ?thesis using assms(2) by simp
next
  case (refused estimate res)
  from ReserveApiKeyBilling_cases [OF refused(4)] show ?thesis
    using assms(2) refused(2,3) reserve_refused_fresh
    by (auto simp: reserve_keeps_usage prod_eq_iff)
next
  case (served estimate s1)
  let ?x = "now + (if ttl \<le> 0 then DefaultBillingReservationTTL else ttl)"
  define l1 where "l1 = snd (reserveApiKeyBillingScript (rq_RequestID r) (CostInUSDTicks estimate) (Unix now) (Unix ?x) (ks_ledger s (pr_ID p)))"
  have ids: "pr_ID p \<noteq> 0" "TrimSpace (rq_RequestID r) \<noteq> []" and s1: "s1 = s\<lparr>ks_ledger := (ks_ledger s)(pr_ID p := l1)\<rparr>"
    using ReserveApiKeyBilling_cases [OF served(3)] by (auto simp: l1_def)
  have l1: "lg_used l1 = lg_used (ks_ledger s (pr_ID p))" "lg_settled l1 = lg_settled (ks_ledger s (pr_ID p))"
    by (simp_all add: l1_def reserve_keeps_usage)
  show ?thesis
  proof (cases "first_charge calls")
    case None
    then show ?thesis using served(1,2,4) by (simp add: ReleaseApiKeyBilling_ledger [OF ids] release_effect s1 l1)
  next
    case (Some res)
    then show ?thesis using served(1,2,4) assms(3,4) settle_effect [of l1 "rq_RequestID r" "CostInUSDTicks res"]
      by (simp add: SettleApiKeyBilling_ledger [OF ids] s1 l1)
  qed
qed

definition sample_principal :: APIKeyPrincipal where
  "sample_principal = \<lparr>pr_ID = 1, pr_AllowedModels = [], pr_MaxConcurrent = 3, pr_BillingLimitUSDTicks = 100000000000000, pr_DenialCode = []\<rparr>"

definition sample_request :: request where
  "sample_request = \<lparr>rq_Method = ''POST'', rq_Path = ''/v1/chat/completions'', rq_Authorization = ''Bearer sk-secret'', rq_XApiKey = [],
     rq_Body = Decoded 60 (JObj [(''model'', JStr ''grok-4.5''), (''max_tokens'', JNum ''100''), (''messages'', JArr [JStr ''hello''])]),
     rq_RequestID = ''req-1''\<rparr>"

definition sample_call :: settlement where
  "sample_call = \<lparr>st_Model = ''grok-4.5'', st_Source = UsageSourceUpstream, st_Input = 20, st_Cached = 0, st_Output = 7, st_allowEstimates = False\<rparr>"

theorem request_is_charged_once_witness:
  "let res = APIKeyBillingReservation 0 7 (Some sample_principal) sample_request [sample_call, sample_call] sample_keys in
   map_of (lg_reservations (ks_ledger (snd res) 1)) ''req-1'' = None \<and>
   number_or_0 (lg_used (ks_ledger (snd res) 1)) = 820000 \<and> (ks_ledger (snd res) 2 = ks_ledger sample_keys 2)"
proof -
  let ?res = "APIKeyBillingReservation 0 7 (Some sample_principal) sample_request [sample_call, sample_call] sample_keys"
  have f: "fst ?res = Served" "number_or_0 (lg_used (ks_ledger sample_keys 1)) = 0"
    "map_of (lg_reservations (ks_ledger sample_keys 1)) ''req-1'' = None" "map_of (lg_settled (ks_ledger sample_keys 1)) ''req-1'' = None"
    "map_option CostInUSDTicks (first_charge [sample_call, sample_call]) = Some 820000" "\<not> Option.is_none (metered sample_principal sample_request)"
    by code_simp+
  have ids: "pr_ID sample_principal = 1" "rq_RequestID sample_request = ''req-1''" by (simp_all add: sample_principal_def sample_request_def)
  obtain c where c: "first_charge [sample_call, sample_call] = Some c" "CostInUSDTicks c = 820000" using f(5) by auto
  obtain s' where s': "?res = (Served, s')" using f(1) by (cases ?res) simp
  have "in_int64 (820000 :: int)" by (simp add: in_int64_def)
  then show ?thesis using request_is_charged_once [OF s'] f(2-4,6) c
    by (simp add: s' ids Let_def Option.is_none_def)
qed

section \<open>The budget over a whole request\<close>

lemma reserve_granted_hold:
  assumes run: "reserveApiKeyBillingScript e amount n x l = (Reply 1, l')" and "distinct (map fst (lg_reservations l))"
    and amount: "amount < 100000000000000" and x: "n < x"
  shows "\<exists>expiry > n. map_of (lg_reservations l') e = Some (Some (amount, expiry))"
proof (cases "\<exists>h y. map_of (lg_reservations l) e = Some (Some (h, y)) \<and> n < y")
  case True
  then obtain h y where hold: "map_of (lg_reservations l) e = Some (Some (h, y))" "n < y" by auto
  obtain fs where sc: "reserve_scan e amount n (lg_reservations l) [] 0 x = (if h = amount then AlreadyHeld fs else Conflicting fs)"
    "map_of fs e = Some (Some (h, y))" using scan_finds_hold [OF hold assms(2), of amount "[]" 0 x] by auto
  then show ?thesis using run hold(2) by (auto simp: reserveApiKeyBillingScript_def Let_def split: if_splits)
next
  case False
  then obtain fs ls mx where sc: "reserve_scan e amount n (lg_reservations l) [] 0 x = Scanned fs ls mx"
    using scan_without_hold [of "lg_reservations l" e n amount "[]" 0 x] assms(2) by auto
  then show ?thesis using run x lua_text_exact [OF amount]
    by (auto simp: reserveApiKeyBillingScript_def Let_def update_conv' split: if_splits)
qed

lemma reservation_ttl_positive: "second \<le> ttl \<Longrightarrow> Unix now < Unix (now + ttl)"
proof -
  assume "second \<le> ttl"
  then have "(now + second) div second \<le> (now + ttl) div second" by (intro zdiv_mono1) auto
  then show ?thesis by (simp add: Unix_def)
qed



section \<open>Slots and model lists\<close>

lemma Release_TryAcquire:
  assumes "TryAcquire i limit t = (True, t')" "\<forall>j. 0 \<le> GetCount j t"
  shows "GetCount j (Release i t') = GetCount j t"
proof -
  have "0 \<le> GetCount i t" using assms(2) by blast
  then show ?thesis using assms(1) by (auto simp: TryAcquire_def Release_def GetCount_def Let_def split: if_splits)
qed

lemma refused_TryAcquire: "TryAcquire i limit t = (False, t') \<Longrightarrow> GetCount j t' = GetCount j t"
  by (auto simp: TryAcquire_def GetCount_def Let_def split: if_splits)

text \<open>
  Every request gives its slot back, and a key at its concurrency limit is turned
  away before its budget is touched. Whatever the answer, the connection counts after the request
  are those before it; a request refused with the concurrency code leaves the reservation ledgers of
  all keys as authentication left them.
\<close>

theorem admission_returns_slot:
  assumes "APIKeyConcurrencyWithTracker next_handler who g = (a, g')" "\<forall>j. 0 \<le> GetCount j (gw_conns g)"
  shows "GetCount j (gw_conns g') = GetCount j (gw_conns g) \<and>
    (case who of Some p \<Rightarrow> pr_ID p \<noteq> 0 \<and> 0 < pr_MaxConcurrent p \<and> pr_MaxConcurrent p \<le> GetCount (- pr_ID p) (gw_conns g) \<longrightarrow>
       a = Answer 429 ''concurrency_limit_exceeded'' \<and> gw_keys g' = gw_keys g
     | None \<Rightarrow> True)"
proof (cases who)
  case None
  then show ?thesis using assms(1) by (auto simp: APIKeyConcurrencyWithTracker_def split: prod.splits)
next
  case (Some p)
  show ?thesis
  proof (cases "pr_ID p = 0 \<or> pr_MaxConcurrent p \<le> 0")
    case True
    then show ?thesis using assms(1) Some by (auto simp: APIKeyConcurrencyWithTracker_def Let_def split: prod.splits)
  next
    case False
    obtain b t where t: "TryAcquire (- pr_ID p) (pr_MaxConcurrent p) (gw_conns g) = (b, t)" by fastforce
    show ?thesis
    proof (cases b)
      case True
      then have "\<not> pr_MaxConcurrent p \<le> GetCount (- pr_ID p) (gw_conns g)"
        using memory.grant [OF TrueI t] False by auto
      then show ?thesis using assms False t True Some Release_TryAcquire [OF _ assms(2)]
        by (auto simp: APIKeyConcurrencyWithTracker_def Let_def split: prod.splits)
    next
      case b: False
      then show ?thesis using assms(1) False t Some refused_TryAcquire
        by (auto simp: APIKeyConcurrencyWithTracker_def Let_def)
    qed
  qed
qed

theorem admission_returns_slot_witness:
  "let g = \<lparr>gw_keys = sample_keys, gw_conns = [- 1 \<mapsto> 3]\<rparr>;
       res = APIKeyConcurrencyWithTracker (\<lambda>s. (Served, s)) (Some sample_principal) g in
   GetCount (- 1) (gw_conns (snd res)) = 3 \<and> fst res = Answer 429 ''concurrency_limit_exceeded''"
proof -
  let ?g = "\<lparr>gw_keys = sample_keys, gw_conns = [- 1 \<mapsto> 3]\<rparr>"
  let ?res = "APIKeyConcurrencyWithTracker (\<lambda>s. (Served, s)) (Some sample_principal) ?g"
  have "\<forall>j. 0 \<le> GetCount j (gw_conns ?g)" by (simp add: GetCount_def)
  moreover have "GetCount (- 1) (gw_conns ?g) = 3" by (simp add: GetCount_def)
  ultimately show ?thesis
    using admission_returns_slot [of "\<lambda>s. (Served, s)" "Some sample_principal" ?g "fst ?res" "snd ?res" "- 1"]
    by (simp add: Let_def sample_principal_def)
qed

lemma normalize_models_star:
  "''*'' \<in> set (map (\<lambda>m. ToLower (TrimSpace m)) ms) \<Longrightarrow> normalize_models ms acc = [''*'']"
proof (induction ms arbitrary: acc)
  case (Cons m ms)
  then show ?case by (cases "ToLower (TrimSpace m) = ''*''") (simp_all add: Let_def)
qed simp

lemma normalize_models_set:
  "''*'' \<notin> set (map (\<lambda>m. ToLower (TrimSpace m)) ms) \<Longrightarrow>
   set (normalize_models ms acc) = set acc \<union> (set (map (\<lambda>m. ToLower (TrimSpace m)) ms) - {[]})"
  by (induction ms acc rule: normalize_models.induct) (auto simp: Let_def)

lemma normalized_fixed: "ToLower (TrimSpace (ToLower (TrimSpace m))) = ToLower (TrimSpace m)"
  by (simp add: TrimSpace_ToLower)

text \<open>
  The stored model list means what the operator submitted. A key created with a model
  list allows a model exactly when the submitted list names it, up to case and surrounding white
  space, or contains the wildcard, or names nothing at all.
\<close>

theorem allowed_models_exact:
  "APIKeyAllowsModel (Some (p\<lparr>pr_AllowedModels := normalizeAllowedModels ms\<rparr>)) model \<longleftrightarrow>
     (let names = (\<lambda>m. ToLower (TrimSpace m)) ` set ms; m = ToLower (TrimSpace model) in
      names \<subseteq> {[]} \<or> ''*'' \<in> names \<or> (m \<noteq> [] \<and> m \<in> names))"
proof (cases "''*'' \<in> set (map (\<lambda>m. ToLower (TrimSpace m)) ms)")
  case True
  have "ToLower (TrimSpace ''*'') = ''*''" by code_simp
  then show ?thesis using True normalize_models_star [OF True, of "[]"]
    by (auto simp: APIKeyAllowsModel_def normalizeAllowedModels_def Let_def)
next
  case False
  have set: "set (normalizeAllowedModels ms) = (\<lambda>m. ToLower (TrimSpace m)) ` set ms - {[]}"
    using normalize_models_set [OF False, of "[]"] by (simp add: normalizeAllowedModels_def)
  have fixed: "ToLower (TrimSpace x) = x" if "x \<in> set (normalizeAllowedModels ms)" for x
    using that set normalized_fixed by auto
  have "normalizeAllowedModels ms = [] \<longleftrightarrow> (\<lambda>m. ToLower (TrimSpace m)) ` set ms \<subseteq> {[]}"
    unfolding set_empty [symmetric] set by blast
  moreover have "list_ex (\<lambda>a. ToLower (TrimSpace a) = ''*'' \<or> m \<noteq> [] \<and> ToLower (TrimSpace a) = m) (normalizeAllowedModels ms)
      \<longleftrightarrow> m \<noteq> [] \<and> m \<in> (\<lambda>m. ToLower (TrimSpace m)) ` set ms" for m
  proof -
    have "ToLower (TrimSpace a) = a \<and> a \<noteq> ''*''" if "a \<in> set (normalizeAllowedModels ms)" for a
      using fixed [OF that] that False unfolding set set_map by blast
    then have "list_ex (\<lambda>a. ToLower (TrimSpace a) = ''*'' \<or> m \<noteq> [] \<and> ToLower (TrimSpace a) = m) (normalizeAllowedModels ms)
        \<longleftrightarrow> m \<noteq> [] \<and> m \<in> set (normalizeAllowedModels ms)" unfolding list_ex_iff by metis
    then show ?thesis unfolding set by blast
  qed
  ultimately show ?thesis using False by (simp add: APIKeyAllowsModel_def Let_def)
qed

end
