(* ===== verification/Model_Store.thy ===== *)
theory Model_Store
  imports Json "HOL-Library.AList"
begin

text \<open>
  The model rows of the store (\<^verbatim>\<open>src/internal/store/model.go\<close>, \<^verbatim>\<open>redis_models.go\<close>, \<^verbatim>\<open>store_models.go\<close> and the
  reconciliation script of \<^verbatim>\<open>redis_scripts.go\<close>): the rows, their two lookup indexes, and the publication of a discovered
  catalog. A row is held as a reader decodes it; the order of the id set is the order in which Redis returns its members.
  Commands of one operation run without another writer between them; Redis does not fail.
\<close>

section \<open>Model rows\<close>

definition ModelStatusAvailable :: string where "ModelStatusAvailable = ''available''"
definition ModelStatusMaintenance :: string where "ModelStatusMaintenance = ''maintenance''"
definition ModelStatusOffline :: string where "ModelStatusOffline = ''offline''"

definition ModelEnabled :: "string \<Rightarrow> bool" where
  "ModelEnabled s \<longleftrightarrow> s = ModelStatusAvailable"

text \<open>What a status string decodes to; any other JSON value is offline, but for a boolean.\<close>

definition decode_status :: "json \<Rightarrow> string" where
  "decode_status v = (case v of
     JBool b \<Rightarrow> if b then ModelStatusAvailable else ModelStatusOffline
   | JStr s \<Rightarrow> (let t = ToLower (TrimSpace s) in
       if t \<in> {''available'', ''enabled'', ''true'', ''on'', ''1''} then ModelStatusAvailable
       else if t \<in> {''maintenance'', ''maint''} then ModelStatusMaintenance else ModelStatusOffline)
   | _ \<Rightarrow> ModelStatusOffline)"

record Model =
  mo_ID :: string
  mo_Channel :: string
  mo_ModelID :: string
  mo_Name :: string
  mo_Status :: string
  mo_Verified :: bool
  mo_IsDefault :: bool
  mo_SortOrder :: int
  mo_Provider :: string
  mo_UpstreamModel :: string
  mo_Capabilities :: "string list"
  mo_BillingTier :: string
  mo_BillingSource :: string
  mo_Origin :: string
  mo_BoundAccountIDs :: "int list"
  mo_CreatedAt :: instant

text \<open>A row after it was written and read back: an empty status is written as offline.\<close>

definition stored_status :: "string \<Rightarrow> string" where
  "stored_status t = decode_status (JStr (if t = [] then ModelStatusOffline else t))"

definition stored_row :: "Model \<Rightarrow> Model" where
  "stored_row m = m\<lparr>mo_Status := stored_status (mo_Status m)\<rparr>"

fun normalize_capabilities :: "string list \<Rightarrow> string list \<Rightarrow> string list" where
  "normalize_capabilities seen [] = []"
| "normalize_capabilities seen (v # vs) =
     (let t = ToLower (TrimSpace v) in
      if t = [] \<or> t \<in> set seen then normalize_capabilities seen vs else t # normalize_capabilities (t # seen) vs)"

fun insert_string :: "string \<Rightarrow> string list \<Rightarrow> string list" where
  "insert_string x [] = [x]"
| "insert_string x (y # ys) = (if str_le x y then x # y # ys else y # insert_string x ys)"

definition sort_strings :: "string list \<Rightarrow> string list" where
  "sort_strings xs = foldr insert_string xs []"

definition NormalizeRoute :: "Model \<Rightarrow> Model" where
  "NormalizeRoute m =
     (let o1 = ToLower (TrimSpace (mo_Origin m)) in
      m\<lparr>mo_Provider := ToLower (TrimSpace (mo_Provider m)), mo_UpstreamModel := TrimSpace (mo_UpstreamModel m),
        mo_BillingTier := ToLower (TrimSpace (mo_BillingTier m)), mo_BillingSource := ToLower (TrimSpace (mo_BillingSource m)),
        mo_Origin := (if o1 = [] then ''manual'' else o1),
        mo_Capabilities := sort_strings (normalize_capabilities [] (mo_Capabilities m)),
        mo_BoundAccountIDs := remdups_adj (sort (mo_BoundAccountIDs m))\<rparr>)"

definition SupportsCapability :: "Model option \<Rightarrow> string \<Rightarrow> bool" where
  "SupportsCapability m c = (case m of None \<Rightarrow> True | Some r \<Rightarrow> mo_Capabilities r = [] \<or> ToLower (TrimSpace c) \<in> set (mo_Capabilities r))"

definition AllowsAccount :: "Model option \<Rightarrow> int \<Rightarrow> bool" where
  "AllowsAccount m i = (case m of None \<Rightarrow> True | Some r \<Rightarrow> mo_BoundAccountIDs r = [] \<or> i \<in> set (mo_BoundAccountIDs r))"

section \<open>The store\<close>

record modelStore =
  ms_next_id :: nat
  ms_ids :: "string list"
  ms_rows :: "string \<rightharpoonup> Model"
  ms_by_id :: "string \<rightharpoonup> string"
  ms_by_channel :: "string \<rightharpoonup> string"

definition dash_char :: "char \<Rightarrow> char" where
  "dash_char c = (if c = CHR ''_'' \<or> c = CHR '' '' then CHR ''-'' else c)"

definition normalizeModelChannelKey :: "string \<Rightarrow> string" where
  "normalizeModelChannelKey ch = map dash_char (ToLower (TrimSpace ch))"

definition modelChannelIndexKey :: "string \<Rightarrow> string \<Rightarrow> string" where
  "modelChannelIndexKey ch modelID = normalizeModelChannelKey ch @ ''|'' @ TrimSpace modelID"

definition set_add :: "string \<Rightarrow> string list \<Rightarrow> string list" where
  "set_add i xs = (if i \<in> set xs then xs else xs @ [i])"

definition redis_CreateModel :: "instant \<Rightarrow> Model \<Rightarrow> modelStore \<Rightarrow> modelStore" where
  "redis_CreateModel now m0 s =
     (let n = ms_next_id s + 1; i = show_nat n;
          m = m0\<lparr>mo_ID := i, mo_CreatedAt := (if mo_CreatedAt m0 = 0 then now else mo_CreatedAt m0)\<rparr>;
          s1 = s\<lparr>ms_next_id := n, ms_rows := (ms_rows s)(i \<mapsto> stored_row m), ms_ids := set_add i (ms_ids s)\<rparr>
      in if TrimSpace (mo_ModelID m) = [] then s1
         else s1\<lparr>ms_by_id := (if ms_by_id s (mo_ModelID m) = None then (ms_by_id s)(mo_ModelID m \<mapsto> i) else ms_by_id s),
                 ms_by_channel := (ms_by_channel s)(modelChannelIndexKey (mo_Channel m) (mo_ModelID m) \<mapsto> i)\<rparr>)"

definition redis_UpdateModel :: "instant \<Rightarrow> Model \<Rightarrow> modelStore \<Rightarrow> modelStore option" where
  "redis_UpdateModel now m0 s =
     (let m = m0\<lparr>mo_CreatedAt := (if mo_CreatedAt m0 = 0 then now else mo_CreatedAt m0)\<rparr>; i = mo_ID m;
          nextKey = modelChannelIndexKey (mo_Channel m) (mo_ModelID m) in
      if i = [] then None
      else let prev = ms_rows s i;
               s1 = s\<lparr>ms_rows := (ms_rows s)(i \<mapsto> stored_row m), ms_ids := set_add i (ms_ids s)\<rparr>;
               s2 = (case prev of
                  Some p \<Rightarrow> let prevKey = modelChannelIndexKey (mo_Channel p) (mo_ModelID p) in
                     if TrimSpace (mo_ModelID p) \<noteq> [] \<and> prevKey \<noteq> nextKey then s1\<lparr>ms_by_channel := (ms_by_channel s1)(prevKey := None)\<rparr> else s1
                | None \<Rightarrow> s1);
               cur = ms_by_id s (mo_ModelID m)
           in Some (if TrimSpace (mo_ModelID m) = [] then s2
              else s2\<lparr>ms_by_id := (if cur = None \<or> cur = Some [] \<or> cur = Some i \<or> (case prev of Some p \<Rightarrow> cur = Some (mo_ID p) | None \<Rightarrow> False)
                                  then (ms_by_id s2)(mo_ModelID m \<mapsto> i) else ms_by_id s2),
                      ms_by_channel := (ms_by_channel s2)(nextKey \<mapsto> i)\<rparr>))"

definition redis_DeleteModel :: "string \<Rightarrow> modelStore \<Rightarrow> modelStore" where
  "redis_DeleteModel i s =
     (if i = [] then s
      else let s1 = s\<lparr>ms_rows := (ms_rows s)(i := None), ms_ids := remove1 i (ms_ids s)\<rparr> in
        case ms_rows s i of
          None \<Rightarrow> s1
        | Some m \<Rightarrow> if TrimSpace (mo_ModelID m) = [] then s1
            else s1\<lparr>ms_by_id := (if ms_by_id s (mo_ModelID m) = Some i then (ms_by_id s)(mo_ModelID m := None) else ms_by_id s),
                    ms_by_channel := (ms_by_channel s)(modelChannelIndexKey (mo_Channel m) (mo_ModelID m) := None)\<rparr>)"

text \<open>The order of the listing: numbers by value, other ids by bytes.\<close>

definition Atoi :: "string \<Rightarrow> int option" where
  "Atoi s =
     (let neg = (case s of c # _ \<Rightarrow> c = CHR ''-'' | [] \<Rightarrow> False);
          ds = (case s of c # cs \<Rightarrow> if c = CHR ''-'' \<or> c = CHR ''+'' then cs else s | [] \<Rightarrow> []);
          v = digits_value ds; r = (if neg then - v else v) in
      if ds \<noteq> [] \<and> list_all is_digit ds \<and> in_int64 r then Some r else None)"

definition id_less :: "string \<Rightarrow> string \<Rightarrow> bool" where
  "id_less a b = (case (Atoi a, Atoi b) of (Some x, Some y) \<Rightarrow> x < y | _ \<Rightarrow> str_le a b \<and> a \<noteq> b)"

fun insert_model :: "Model \<Rightarrow> Model list \<Rightarrow> Model list" where
  "insert_model m [] = [m]"
| "insert_model m (x # xs) = (if id_less (mo_ID x) (mo_ID m) then x # insert_model m xs else m # x # xs)"

definition redis_ListModels :: "modelStore \<Rightarrow> Model list" where
  "redis_ListModels s = foldr insert_model (List.map_filter (ms_rows s) (ms_ids s)) []"

text \<open>A lookup trusts the index only for a row that still matches; otherwise it scans and repairs the index.\<close>

definition indexed_row :: "modelStore \<Rightarrow> string option \<Rightarrow> (Model \<Rightarrow> bool) \<Rightarrow> Model option" where
  "indexed_row s entry ok = (case entry of
     None \<Rightarrow> None
   | Some i \<Rightarrow> if i = [] then None else (case ms_rows s i of Some m \<Rightarrow> if ok m then Some m else None | None \<Rightarrow> None))"

definition GetModelByModelID :: "string \<Rightarrow> modelStore \<Rightarrow> Model option \<times> modelStore" where
  "GetModelByModelID modelID0 s =
     (let modelID = TrimSpace modelID0 in
      if modelID = [] then (None, s)
      else case indexed_row s (ms_by_id s modelID) (\<lambda>m. TrimSpace (mo_ModelID m) = modelID) of
        Some m \<Rightarrow> (Some m, s)
      | None \<Rightarrow> (case List.find (\<lambda>m. mo_ModelID m = modelID) (redis_ListModels s) of
          Some m \<Rightarrow> (Some m, s\<lparr>ms_by_id := (ms_by_id s)(modelID \<mapsto> mo_ID m)\<rparr>)
        | None \<Rightarrow> (None, s)))"

definition GetModelByChannelAndModelID :: "string \<Rightarrow> string \<Rightarrow> modelStore \<Rightarrow> Model option \<times> modelStore" where
  "GetModelByChannelAndModelID ch modelID0 s =
     (let modelID = TrimSpace modelID0; key = modelChannelIndexKey ch modelID; want = normalizeModelChannelKey ch in
      if modelID = [] then (None, s)
      else case indexed_row s (ms_by_channel s key) (\<lambda>m. TrimSpace (mo_ModelID m) = modelID \<and> normalizeModelChannelKey (mo_Channel m) = want) of
        Some m \<Rightarrow> (Some m, s)
      | None \<Rightarrow> (case List.find (\<lambda>m. normalizeModelChannelKey (mo_Channel m) = want \<and> mo_ModelID m = modelID) (redis_ListModels s) of
          Some m \<Rightarrow> (Some m, s\<lparr>ms_by_channel := (ms_by_channel s)(key \<mapsto> mo_ID m)\<rparr>)
        | None \<Rightarrow> (None, s)))"

section \<open>The wrappers\<close>

definition clear_default :: "instant \<Rightarrow> Model \<Rightarrow> bool \<Rightarrow> modelStore \<Rightarrow> Model \<Rightarrow> modelStore" where
  "clear_default now m excludeSelf s other =
     (if mo_Channel other \<noteq> mo_Channel m \<or> (excludeSelf \<and> mo_ID other = mo_ID m) \<or> \<not> mo_IsDefault other then s
      else case redis_UpdateModel now (other\<lparr>mo_IsDefault := False\<rparr>) s of Some s' \<Rightarrow> s' | None \<Rightarrow> s)"

definition clearOtherModelDefaults :: "instant \<Rightarrow> Model \<Rightarrow> bool \<Rightarrow> modelStore \<Rightarrow> modelStore" where
  "clearOtherModelDefaults now m excludeSelf s =
     (if \<not> mo_IsDefault m then s else foldl (clear_default now m excludeSelf) s (redis_ListModels s))"

definition CreateModel :: "instant \<Rightarrow> Model \<Rightarrow> modelStore \<Rightarrow> modelStore" where
  "CreateModel now m0 s = (let m = NormalizeRoute m0 in redis_CreateModel now m (clearOtherModelDefaults now m False s))"

definition UpdateModel :: "instant \<Rightarrow> Model \<Rightarrow> modelStore \<Rightarrow> modelStore option" where
  "UpdateModel now m0 s = (let m = NormalizeRoute m0 in redis_UpdateModel now m (clearOtherModelDefaults now m True s))"

section \<open>Publishing a discovered catalog\<close>

text \<open>The rows the script is given: one per discovered model, without an id, marked as discovered.\<close>

definition discovered_row :: "instant \<Rightarrow> string \<Rightarrow> Model \<Rightarrow> Model" where
  "discovered_row now ch m =
     NormalizeRoute (m\<lparr>mo_ID := [], mo_Channel := TrimSpace ch, mo_ModelID := TrimSpace (mo_ModelID m), mo_Origin := ''discovery'',
       mo_CreatedAt := (if mo_CreatedAt m = 0 then now else mo_CreatedAt m)\<rparr>)"

fun reconcile_input :: "instant \<Rightarrow> string \<Rightarrow> string list \<Rightarrow> Model list \<Rightarrow> string + Model list" where
  "reconcile_input now ch seen [] = Inr []"
| "reconcile_input now ch seen (m # ms) =
     (let mid = TrimSpace (mo_ModelID m) in
      if mid = [] then Inl ''discovered model id is required''
      else if mid \<in> set seen then Inl (''duplicate discovered model id '' @ mid)
      else case reconcile_input now ch (mid # seen) ms of
        Inl e \<Rightarrow> Inl e
      | Inr rs \<Rightarrow> Inr (discovered_row now ch m # rs))"

type_synonym existing_rows = "(string \<times> string \<times> Model) list"

definition lua_channel :: "string \<Rightarrow> string" where
  "lua_channel ch = map dash_char (ToLower ch)"

definition existing_step :: "string \<Rightarrow> modelStore \<Rightarrow> existing_rows \<Rightarrow> string \<Rightarrow> existing_rows" where
  "existing_step ch s ex i = (case ms_rows s i of
     Some m \<Rightarrow> if lua_channel (mo_Channel m) = ch then AList.update (mo_ModelID m) (i, m) ex else ex
   | None \<Rightarrow> ex)"

definition existing_of :: "string \<Rightarrow> modelStore \<Rightarrow> existing_rows" where
  "existing_of ch s = foldl (existing_step ch s) [] (ms_ids s)"

text \<open>A row the publication owns: any row of an authoritative scoped catalog, otherwise a discovered one.\<close>

definition owned :: "bool \<Rightarrow> string \<Rightarrow> Model \<Rightarrow> bool" where
  "owned prune scope m \<longleftrightarrow> (scope \<noteq> [] \<and> prune) \<or> ToLower (mo_Origin m) = ''discovery''"

definition observe :: "Model \<Rightarrow> Model \<Rightarrow> Model" where
  "observe cur seen =
     cur\<lparr>mo_Verified := True,
         mo_Name := (if mo_Name cur = [] \<or> mo_Name cur = mo_ModelID seen then mo_Name seen else mo_Name cur),
         mo_Provider := (if mo_Provider cur = [] \<and> mo_Provider seen \<noteq> [] then mo_Provider seen else mo_Provider cur),
         mo_UpstreamModel := (if mo_UpstreamModel cur = [] \<and> mo_UpstreamModel seen \<noteq> [] then mo_UpstreamModel seen else mo_UpstreamModel cur),
         mo_BillingTier := (if mo_BillingTier seen \<noteq> [] then mo_BillingTier seen else mo_BillingTier cur),
         mo_BillingSource := (if mo_BillingSource seen \<noteq> [] then mo_BillingSource seen else mo_BillingSource cur)\<rparr>"

record reconciled =
  rc_store :: modelStore
  rc_added :: "string list"
  rc_updated :: "string list"
  rc_deleted :: "string list"
  rc_protected :: "string list"

definition publish_row :: "string \<Rightarrow> bool \<Rightarrow> string \<Rightarrow> existing_rows \<Rightarrow> reconciled \<Rightarrow> Model \<Rightarrow> reconciled" where
  "publish_row ch prune scope ex r m =
     (let s = rc_store r; mid = mo_ModelID m; key = ch @ ''|'' @ mid in
      case map_of ex mid of
        Some (i, cur) \<Rightarrow>
          let own = owned prune scope cur;
              row = (if own then m\<lparr>mo_ID := i, mo_CreatedAt := mo_CreatedAt cur\<rparr> else observe cur m)
          in r\<lparr>rc_store := s\<lparr>ms_rows := (ms_rows s)(i \<mapsto> stored_row row), ms_by_channel := (ms_by_channel s)(key \<mapsto> i)\<rparr>,
               rc_updated := rc_updated r @ [mid], rc_protected := (if own then rc_protected r else rc_protected r @ [mid])\<rparr>
      | None \<Rightarrow>
          let n = ms_next_id s + 1; i = show_nat n
          in r\<lparr>rc_store := s\<lparr>ms_next_id := n, ms_rows := (ms_rows s)(i \<mapsto> stored_row (m\<lparr>mo_ID := i\<rparr>)), ms_ids := set_add i (ms_ids s),
                 ms_by_id := (if ms_by_id s mid = None then (ms_by_id s)(mid \<mapsto> i) else ms_by_id s),
                 ms_by_channel := (ms_by_channel s)(key \<mapsto> i)\<rparr>,
               rc_added := rc_added r @ [mid]\<rparr>)"

definition prune_row :: "string \<Rightarrow> string \<Rightarrow> string list \<Rightarrow> reconciled \<Rightarrow> string \<times> string \<times> Model \<Rightarrow> reconciled" where
  "prune_row ch scope wanted r e = (case e of (mid, i, cur) \<Rightarrow>
     let s = rc_store r; key = ch @ ''|'' @ mid; origin = ToLower (mo_Origin cur) in
     if mid \<in> set wanted \<or> (scope \<noteq> [] \<and> ToLower (mo_Provider cur) \<noteq> scope) then r
     else if owned True scope cur then
       r\<lparr>rc_store := s\<lparr>ms_rows := (ms_rows s)(i := None), ms_ids := remove1 i (ms_ids s),
           ms_by_id := (if ms_by_id s mid = Some i then (ms_by_id s)(mid := None) else ms_by_id s),
           ms_by_channel := (if ms_by_channel s key = Some i then (ms_by_channel s)(key := None) else ms_by_channel s)\<rparr>,
         rc_deleted := rc_deleted r @ [mid]\<rparr>
     else if origin = [] \<or> origin = ''manual'' then r\<lparr>rc_protected := rc_protected r @ [mid]\<rparr> else r)"

definition reconcileDiscoveredModelsScript :: "string \<Rightarrow> bool \<Rightarrow> Model list \<Rightarrow> string \<Rightarrow> modelStore \<Rightarrow> reconciled" where
  "reconcileDiscoveredModelsScript ch prune incoming scope s =
     (let ex = existing_of ch s;
          r1 = foldl (publish_row ch prune scope ex) \<lparr>rc_store = s, rc_added = [], rc_updated = [], rc_deleted = [], rc_protected = []\<rparr> incoming
      in if prune then foldl (prune_row ch scope (map mo_ModelID incoming)) r1 ex else r1)"

record ModelReconcileResult =
  AddedModelIDs :: "string list"
  UpdatedModelIDs :: "string list"
  DeletedModelIDs :: "string list"
  ProtectedIDs :: "string list"

definition ReconcileDiscoveredModels ::
    "instant \<Rightarrow> string \<Rightarrow> Model list \<Rightarrow> bool \<Rightarrow> string \<Rightarrow> modelStore \<Rightarrow> (string + ModelReconcileResult) \<times> modelStore" where
  "ReconcileDiscoveredModels now channel models prune providerScope s =
     (let key = normalizeModelChannelKey channel in
      if key = [] then (Inl ''model channel is required'', s)
      else case reconcile_input now channel [] models of
        Inl e \<Rightarrow> (Inl e, s)
      | Inr rs \<Rightarrow> let r = reconcileDiscoveredModelsScript key prune rs (ToLower (TrimSpace providerScope)) s in
          (Inr \<lparr>AddedModelIDs = sort_strings (rc_added r), UpdatedModelIDs = sort_strings (rc_updated r),
                DeletedModelIDs = sort_strings (rc_deleted r), ProtectedIDs = sort_strings (rc_protected r)\<rparr>, rc_store r))"

section \<open>Listing and lookup\<close>

lemma set_insert_model [simp]: "set (insert_model m xs) = insert m (set xs)"
  by (induction xs) auto

lemma set_ListModels: "set (redis_ListModels s) = {m. \<exists>i \<in> set (ms_ids s). ms_rows s i = Some m}"
proof -
  have "set (foldr insert_model xs []) = set xs" for xs by (induction xs) simp_all
  moreover have "set (List.map_filter f xs) = {y. \<exists>x \<in> set xs. f x = Some y}" for f :: "string \<Rightarrow> Model option" and xs
    by (induction xs) (auto simp: map_filter_simps split: option.split)
  ultimately show ?thesis by (simp add: redis_ListModels_def)
qed

lemma indexed_row_Some: "indexed_row s e ok = Some m \<Longrightarrow> m \<in> ran (ms_rows s) \<and> ok m"
  by (auto simp: indexed_row_def ran_def split: option.splits if_splits)

text \<open>The rows are listed under their own id, with trimmed model names.\<close>

definition rows_listed :: "modelStore \<Rightarrow> bool" where
  "rows_listed s \<longleftrightarrow> (\<forall>i m. ms_rows s i = Some m \<longrightarrow> i \<in> set (ms_ids s) \<and> mo_ID m = i \<and> TrimSpace (mo_ModelID m) = mo_ModelID m)"

definition row_matches :: "string \<Rightarrow> string \<Rightarrow> Model \<Rightarrow> bool" where
  "row_matches ch mid m \<longleftrightarrow> normalizeModelChannelKey (mo_Channel m) = normalizeModelChannelKey ch \<and> mo_ModelID m = mid"

definition unique_rows :: "modelStore \<Rightarrow> bool" where
  "unique_rows s \<longleftrightarrow> (\<forall>m \<in> ran (ms_rows s). \<forall>m' \<in> ran (ms_rows s). row_matches (mo_Channel m) (mo_ModelID m) m' \<longrightarrow> m' = m)"

lemma find_model:
  "rows_listed s \<Longrightarrow> List.find P (redis_ListModels s) = None \<longleftrightarrow> (\<forall>m \<in> ran (ms_rows s). \<not> P m)"
  "List.find P (redis_ListModels s) = Some m \<Longrightarrow> m \<in> ran (ms_rows s) \<and> P m"
  using find_Some_iff_prefix [of P "redis_ListModels s" m]
  by (auto simp: find_None_all set_ListModels rows_listed_def ran_def)

lemma channel_lookup_cases:
  assumes "GetModelByChannelAndModelID ch mid s = (r, s')" "TrimSpace mid \<noteq> []"
  obtains (hit) m where "r = Some m" "m \<in> ran (ms_rows s)" "normalizeModelChannelKey (mo_Channel m) = normalizeModelChannelKey ch"
      "TrimSpace (mo_ModelID m) = TrimSpace mid"
    | (miss) "r = None" "List.find (\<lambda>m. normalizeModelChannelKey (mo_Channel m) = normalizeModelChannelKey ch \<and> mo_ModelID m = TrimSpace mid) (redis_ListModels s) = None"
proof -
  let ?ok = "\<lambda>m. TrimSpace (mo_ModelID m) = TrimSpace mid \<and> normalizeModelChannelKey (mo_Channel m) = normalizeModelChannelKey ch"
  let ?scan = "\<lambda>m. normalizeModelChannelKey (mo_Channel m) = normalizeModelChannelKey ch \<and> mo_ModelID m = TrimSpace mid"
  let ?ix = "indexed_row s (ms_by_channel s (modelChannelIndexKey ch (TrimSpace mid))) ?ok"
  have r: "r = (case ?ix of Some m \<Rightarrow> Some m | None \<Rightarrow> List.find ?scan (redis_ListModels s))"
    using assms by (auto simp: GetModelByChannelAndModelID_def Let_def split: option.splits)
  show thesis
  proof (cases ?ix)
    case (Some m)
    then show thesis using hit [of m] r indexed_row_Some [OF Some] by simp
  next
    case None
    show thesis
    proof (cases "List.find ?scan (redis_ListModels s)")
      case None
      then show thesis using miss r \<open>?ix = None\<close> by simp
    next
      case (Some m)
      then show thesis using hit [of m] r \<open>?ix = None\<close> find_model(2) [OF Some] by simp
    qed
  qed
qed

text \<open>Looking a model up by channel and name finds its row exactly when there is one, and the answer does not
  depend on the lookup index, however stale, incomplete or wrong that is: the index is verified before it is trusted.\<close>

theorem channel_lookup_exact:
  assumes "rows_listed s" "unique_rows s" "TrimSpace mid \<noteq> []"
  shows "fst (GetModelByChannelAndModelID ch mid s) = Some m \<longleftrightarrow> m \<in> ran (ms_rows s) \<and> row_matches ch (TrimSpace mid) m"
proof -
  obtain r s' where g: "GetModelByChannelAndModelID ch mid s = (r, s')" by fastforce
  show ?thesis using g assms(3)
  proof (cases rule: channel_lookup_cases)
    case (hit m')
    then have m': "row_matches ch (TrimSpace mid) m'" using assms(1) by (auto simp: row_matches_def rows_listed_def ran_def)
    have "m = m'" if "m \<in> ran (ms_rows s)" "row_matches ch (TrimSpace mid) m"
      using that m' hit(2) assms(2) by (auto simp: unique_rows_def row_matches_def)
    then show ?thesis using g hit(1,2) m' by auto
  next
    case miss
    then show ?thesis using g find_model(1) [OF assms(1)] by (auto simp: row_matches_def)
  qed
qed

section \<open>What a publication keeps and removes\<close>

definition ms_ok :: "modelStore \<Rightarrow> bool" where
  "ms_ok s \<longleftrightarrow> (\<forall>i m. ms_rows s i = Some m \<longrightarrow> i \<in> set (ms_ids s) \<and> mo_ID m = i \<and> stored_status (mo_Status m) = mo_Status m) \<and>
     (\<forall>i \<in> set (ms_ids s). \<exists>n \<le> ms_next_id s. i = show_nat n)"

lemma show_nat_eq: "show_nat m = show_nat n \<longleftrightarrow> m = n"
  by (metis digits_value_show of_nat_eq_iff)

lemma fresh_id: "ms_ok s \<Longrightarrow> ms_next_id s < n \<Longrightarrow> ms_rows s (show_nat n) = None"
proof -
  assume ok: "ms_ok s" and n: "ms_next_id s < n"
  have "show_nat n \<notin> set (ms_ids s)"
  proof
    assume "show_nat n \<in> set (ms_ids s)"
    then obtain k where "k \<le> ms_next_id s" "show_nat n = show_nat k" using ok by (auto simp: ms_ok_def)
    then show False using n by (simp add: show_nat_eq)
  qed
  then show ?thesis using ok by (cases "ms_rows s (show_nat n)") (auto simp: ms_ok_def)
qed

lemma existing_sound:
  assumes "map_of (existing_of ch s) mid = Some (i, m)"
  shows "i \<in> set (ms_ids s) \<and> ms_rows s i = Some m \<and> mo_ModelID m = mid \<and> lua_channel (mo_Channel m) = ch"
proof -
  have "map_of (foldl (existing_step ch s) ex xs) mid = Some (i, m) \<Longrightarrow>
      map_of ex mid = Some (i, m) \<or> i \<in> set xs \<and> ms_rows s i = Some m \<and> mo_ModelID m = mid \<and> lua_channel (mo_Channel m) = ch" for ex xs
  proof (induction xs arbitrary: ex)
    case (Cons x xs)
    from Cons.IH [OF Cons.prems [unfolded foldl.simps]] show ?case
      by (auto simp: existing_step_def update_conv' split: option.splits if_splits)
  qed simp
  from this [OF assms [unfolded existing_of_def]] show ?thesis by simp
qed

lemma existing_distinct: "distinct (map fst (existing_of ch s))"
proof -
  have "distinct (map fst ex) \<Longrightarrow> distinct (map fst (foldl (existing_step ch s) ex xs))" for ex xs
    by (induction xs arbitrary: ex) (auto simp: existing_step_def distinct_update split: option.splits)
  then show ?thesis by (simp add: existing_of_def)
qed

lemma existing_complete:
  assumes "ms_ok s" "ms_rows s i = Some m" "lua_channel (mo_Channel m) = ch"
    and "\<And>j m'. ms_rows s j = Some m' \<Longrightarrow> lua_channel (mo_Channel m') = ch \<Longrightarrow> mo_ModelID m' = mo_ModelID m \<Longrightarrow> j = i"
  shows "map_of (existing_of ch s) (mo_ModelID m) = Some (i, m)"
proof -
  have "i \<in> set xs \<or> map_of ex (mo_ModelID m) = Some (i, m) \<Longrightarrow> map_of (foldl (existing_step ch s) ex xs) (mo_ModelID m) = Some (i, m)" for ex xs
  proof (induction xs arbitrary: ex)
    case (Cons x xs)
    have "map_of (existing_step ch s ex x) (mo_ModelID m) = (if x = i then Some (i, m) else map_of ex (mo_ModelID m))"
    proof (cases "x = i")
      case True
      then show ?thesis using assms(2,3) by (simp add: existing_step_def update_conv')
    next
      case False
      then show ?thesis using assms(4) [of x] by (auto simp: existing_step_def update_conv' split: option.split)
    qed
    then show ?case using Cons by auto
  qed simp
  moreover have "i \<in> set (ms_ids s)" using assms(1,2) by (auto simp: ms_ok_def)
  ultimately show ?thesis by (simp add: existing_of_def)
qed

lemma discovered_row_fields:
  "mo_ModelID (discovered_row now ch m) = TrimSpace (mo_ModelID m)" "mo_Channel (discovered_row now ch m) = TrimSpace ch"
  by (simp_all add: discovered_row_def NormalizeRoute_def Let_def)

lemma input_rows:
  "reconcile_input now ch seen ms = Inr rs \<Longrightarrow>
    rs = map (discovered_row now ch) ms \<and> distinct (map mo_ModelID rs) \<and> (\<forall>r \<in> set rs. mo_ModelID r \<notin> set seen)"
proof (induction ms arbitrary: seen rs)
  case (Cons m ms)
  then obtain rs' where r: "reconcile_input now ch (TrimSpace (mo_ModelID m) # seen) ms = Inr rs'" "rs = discovered_row now ch m # rs'"
    "TrimSpace (mo_ModelID m) \<notin> set seen" by (auto simp: Let_def split: if_splits sum.splits)
  have i: "rs' = map (discovered_row now ch) ms" "distinct (map mo_ModelID rs')" "\<forall>r \<in> set rs'. mo_ModelID r \<notin> set (TrimSpace (mo_ModelID m) # seen)"
    using Cons.IH [OF r(1)] by blast+
  have "mo_ModelID (discovered_row now ch m) \<notin> set (map mo_ModelID rs')" using i(3) by (auto simp: discovered_row_fields)
  then show ?case using i r(2,3) by (simp add: discovered_row_fields)
qed simp

text \<open>What an operator set on a row, and what the row keeps of it.\<close>

definition operator_fields_kept :: "Model \<Rightarrow> Model \<Rightarrow> bool" where
  "operator_fields_kept m m' \<longleftrightarrow> mo_ID m' = mo_ID m \<and> mo_Channel m' = mo_Channel m \<and> mo_ModelID m' = mo_ModelID m \<and>
     mo_Status m' = mo_Status m \<and> mo_IsDefault m' = mo_IsDefault m \<and> mo_SortOrder m' = mo_SortOrder m \<and>
     mo_Capabilities m' = mo_Capabilities m \<and> mo_BoundAccountIDs m' = mo_BoundAccountIDs m \<and>
     mo_Origin m' = mo_Origin m \<and> mo_CreatedAt m' = mo_CreatedAt m \<and>
     (mo_Name m \<notin> {[], mo_ModelID m} \<longrightarrow> mo_Name m' = mo_Name m) \<and>
     (mo_Provider m \<noteq> [] \<longrightarrow> mo_Provider m' = mo_Provider m) \<and>
     (mo_UpstreamModel m \<noteq> [] \<longrightarrow> mo_UpstreamModel m' = mo_UpstreamModel m)"

lemma observe_keeps: "mo_ModelID r = mo_ModelID m \<Longrightarrow> stored_status (mo_Status m) = mo_Status m \<Longrightarrow> operator_fields_kept m (stored_row (observe m r))"
  by (simp add: operator_fields_kept_def observe_def stored_row_def)

definition published_row :: "bool \<Rightarrow> string \<Rightarrow> existing_rows \<Rightarrow> string \<Rightarrow> Model \<Rightarrow> Model" where
  "published_row prune scope ex p m = stored_row (case map_of ex (mo_ModelID m) of
     Some (i, cur) \<Rightarrow> if owned prune scope cur then m\<lparr>mo_ID := i, mo_CreatedAt := mo_CreatedAt cur\<rparr> else observe cur m
   | None \<Rightarrow> m\<lparr>mo_ID := p\<rparr>)"

text \<open>The effect of the script on the rows: a published row is rewritten or new, the others stay; pruning only removes.\<close>

text \<open>Where a publication puts the row of a model name.\<close>

definition placed :: "modelStore \<Rightarrow> existing_rows \<Rightarrow> reconciled \<Rightarrow> (string \<Rightarrow> string) \<Rightarrow> string list \<Rightarrow> bool" where
  "placed s ex r pl mids \<longleftrightarrow> ms_next_id s \<le> ms_next_id (rc_store r) \<and> inj_on pl (set mids) \<and>
     (\<forall>mid \<in> set mids. case map_of ex mid of Some (i, _) \<Rightarrow> pl mid = i
        | None \<Rightarrow> \<exists>n. ms_next_id s < n \<and> n \<le> ms_next_id (rc_store r) \<and> pl mid = show_nat n)"

lemma publish_effect:
  assumes "ms_ok s" "ex = existing_of ch s" "distinct (map mo_ModelID rs)"
  defines "r0 \<equiv> \<lparr>rc_store = s, rc_added = [], rc_updated = [], rc_deleted = [], rc_protected = []\<rparr>"
  shows "\<exists>pl. placed s ex (foldl (publish_row ch prune scope ex) r0 rs) pl (map mo_ModelID rs) \<and>
    (\<forall>m \<in> set rs. ms_rows (rc_store (foldl (publish_row ch prune scope ex) r0 rs)) (pl (mo_ModelID m)) =
       Some (published_row prune scope ex (pl (mo_ModelID m)) m)) \<and>
    (\<forall>i. i \<notin> pl ` set (map mo_ModelID rs) \<longrightarrow> ms_rows (rc_store (foldl (publish_row ch prune scope ex) r0 rs)) i = ms_rows s i)"
  using assms(3)
proof (induction rs rule: rev_induct)
  case Nil
  show ?case by (simp add: placed_def r0_def)
next
  case (snoc m rs)
  let ?r = "foldl (publish_row ch prune scope ex) r0 rs" and ?mid = "mo_ModelID m"
  obtain pl where pl: "placed s ex ?r pl (map mo_ModelID rs)"
    and rows: "\<forall>m \<in> set rs. ms_rows (rc_store ?r) (pl (mo_ModelID m)) = Some (published_row prune scope ex (pl (mo_ModelID m)) m)"
    and others: "\<forall>i. i \<notin> pl ` set (map mo_ModelID rs) \<longrightarrow> ms_rows (rc_store ?r) i = ms_rows s i"
    using snoc by auto
  have new: "?mid \<notin> set (map mo_ModelID rs)" using snoc.prems by simp
  let ?n = "ms_next_id (rc_store ?r) + 1"
  define i where "i = (case map_of ex ?mid of Some (i, _) \<Rightarrow> i | None \<Rightarrow> show_nat ?n)"
  let ?row = "published_row prune scope ex i m"
  let ?r' = "publish_row ch prune scope ex ?r m"
  have step: "ms_rows (rc_store ?r') = (ms_rows (rc_store ?r))(i \<mapsto> ?row)" "ms_next_id (rc_store ?r) \<le> ms_next_id (rc_store ?r')"
    "map_of ex ?mid = None \<Longrightarrow> ms_next_id (rc_store ?r') = ?n"
    by (auto simp: publish_row_def published_row_def i_def Let_def split: option.split)
  have apart: "pl mid \<noteq> i" if mid: "mid \<in> set (map mo_ModelID rs)" for mid
  proof -
    have old: "map_of ex k = Some (j, c) \<Longrightarrow> \<exists>n \<le> ms_next_id s. j = show_nat n" for k j c
      using existing_sound [of ch s] assms(1,2) by (auto simp: ms_ok_def)
    have same: "map_of ex k = Some (j, c) \<Longrightarrow> map_of ex k' = Some (j, c') \<Longrightarrow> k = k'" for k k' j c c'
    proof -
      assume "map_of ex k = Some (j, c)" "map_of ex k' = Some (j, c')"
      then have "ms_rows s j = Some c \<and> mo_ModelID c = k" "ms_rows s j = Some c' \<and> mo_ModelID c' = k'"
        using existing_sound [of ch s] assms(2) by blast+
      then show "k = k'" by simp
    qed
    have "mid \<noteq> ?mid" using mid new by blast
    with pl mid old same show ?thesis
      by (fastforce simp: placed_def i_def show_nat_eq split: option.splits)
  qed
  let ?pl = "pl(?mid := i)"
  have grown: "ms_next_id s \<le> ms_next_id (rc_store ?r')" using pl step(2) by (auto simp: placed_def)
  have inj: "inj_on ?pl (set (map mo_ModelID rs @ [?mid]))"
  proof -
    have "inj_on pl (set (map mo_ModelID rs))" using pl by (simp add: placed_def)
    moreover have "i \<notin> pl ` set (map mo_ModelID rs)" using apart by fastforce
    ultimately have "inj_on ?pl (set (map mo_ModelID rs))" by (rule inj_on_fun_updI)
    moreover have "?pl ` set (map mo_ModelID rs) = pl ` set (map mo_ModelID rs)" using new by (intro image_cong refl) (metis fun_upd_other)
    then have "?pl ?mid \<notin> ?pl ` set (map mo_ModelID rs)" using \<open>i \<notin> pl ` _\<close> by simp
    ultimately show ?thesis using new by (simp del: set_map)
  qed
  have where_it_is: "case map_of ex mid of Some (j, _) \<Rightarrow> ?pl mid = j
      | None \<Rightarrow> \<exists>n. ms_next_id s < n \<and> n \<le> ms_next_id (rc_store ?r') \<and> ?pl mid = show_nat n"
    if mid: "mid \<in> set (map mo_ModelID rs @ [?mid])" for mid
  proof (cases "mid = ?mid")
    case True
    show ?thesis
    proof (cases "map_of ex ?mid")
      case None
      then have "ms_next_id (rc_store ?r') = ?n" "i = show_nat ?n" using step(3) by (simp_all add: i_def)
      moreover have "ms_next_id s < ?n" using pl by (simp add: placed_def)
      ultimately show ?thesis using True None by (simp; blast)
    next
      case (Some p)
      then show ?thesis using True by (simp add: i_def split: prod.split)
    qed
  next
    case False
    then have "mid \<in> set (map mo_ModelID rs)" using mid by simp
    then have "case map_of ex mid of Some (j, _) \<Rightarrow> pl mid = j
      | None \<Rightarrow> \<exists>n. ms_next_id s < n \<and> n \<le> ms_next_id (rc_store ?r) \<and> pl mid = show_nat n" using pl by (simp only: placed_def)
    then show ?thesis using False step(2) by (cases "map_of ex mid") (simp_all, use order_trans in blast)
  qed
  have "placed s ex ?r' ?pl (map mo_ModelID rs @ [?mid])" unfolding placed_def using grown inj where_it_is by blast
  moreover have "\<forall>x \<in> set (rs @ [m]). ms_rows (rc_store ?r') (?pl (mo_ModelID x)) = Some (published_row prune scope ex (?pl (mo_ModelID x)) x)"
  proof
    fix x assume x: "x \<in> set (rs @ [m])"
    show "ms_rows (rc_store ?r') (?pl (mo_ModelID x)) = Some (published_row prune scope ex (?pl (mo_ModelID x)) x)"
    proof (cases "x = m")
      case True
      then show ?thesis by (simp add: step(1))
    next
      case False
      then have "x \<in> set rs" using x by simp
      moreover from this have "mo_ModelID x \<in> set (map mo_ModelID rs)" by simp
      then have "mo_ModelID x \<noteq> ?mid" "pl (mo_ModelID x) \<noteq> i" using new apart by (metis, blast)
      ultimately show ?thesis using rows by (simp add: step(1))
    qed
  qed
  moreover have "\<forall>j. j \<notin> ?pl ` set (map mo_ModelID (rs @ [m])) \<longrightarrow> ms_rows (rc_store ?r') j = ms_rows s j"
  proof (intro allI impI)
    fix j assume j: "j \<notin> ?pl ` set (map mo_ModelID (rs @ [m]))"
    have "?pl ` set (map mo_ModelID rs) = pl ` set (map mo_ModelID rs)" using new by (intro image_cong refl) (metis fun_upd_other)
    moreover have "j \<notin> ?pl ` set (map mo_ModelID rs)" using j by (auto simp: image_Un simp del: set_map fun_upd_apply)
    ultimately have "j \<notin> pl ` set (map mo_ModelID rs)" by (simp del: set_map fun_upd_apply)
    moreover have "j \<noteq> i" using j by simp
    ultimately show "ms_rows (rc_store ?r') j = ms_rows s j" using others by (simp add: step(1))
  qed
  ultimately show ?case unfolding foldl_append foldl.simps map_append list.map by blast
qed

lemma prune_effect:
  fixes ex :: existing_rows
  shows "ms_rows (rc_store (foldl (prune_row ch scope wanted) r es)) i =
    (if \<exists>mid cur. (mid, i, cur) \<in> set es \<and> mid \<notin> set wanted \<and> \<not> (scope \<noteq> [] \<and> ToLower (mo_Provider cur) \<noteq> scope) \<and> owned True scope cur
     then None else ms_rows (rc_store r) i)"
proof (induction es arbitrary: r)
  case (Cons e es)
  obtain mid j cur where e: "e = (mid, j, cur)" by (cases e)
  have "ms_rows (rc_store (prune_row ch scope wanted r e)) i =
    (if i = j \<and> mid \<notin> set wanted \<and> \<not> (scope \<noteq> [] \<and> ToLower (mo_Provider cur) \<noteq> scope) \<and> owned True scope cur then None else ms_rows (rc_store r) i)"
    by (simp add: prune_row_def e Let_def)
  then show ?case unfolding foldl.simps Cons.IH by (auto simp: e)
qed simp

lemma reconcile_effect:
  assumes ok: "ms_ok s" and r: "ReconcileDiscoveredModels now channel models prune scope s = (Inr res, s')"
  obtains rs ex pl r where "rs = map (discovered_row now channel) models" "ex = existing_of (normalizeModelChannelKey channel) s"
    "placed s ex r pl (map mo_ModelID rs)"
    "\<And>m. m \<in> set rs \<Longrightarrow> ms_rows (rc_store r) (pl (mo_ModelID m)) = Some (published_row prune (ToLower (TrimSpace scope)) ex (pl (mo_ModelID m)) m)"
    "\<And>i. i \<notin> pl ` set (map mo_ModelID rs) \<Longrightarrow> ms_rows (rc_store r) i = ms_rows s i"
    "\<And>i. ms_rows s' i = (if prune \<and> (\<exists>mid cur. (mid, i, cur) \<in> set ex \<and> mid \<notin> set (map mo_ModelID rs) \<and>
        \<not> (ToLower (TrimSpace scope) \<noteq> [] \<and> ToLower (mo_Provider cur) \<noteq> ToLower (TrimSpace scope)) \<and> owned True (ToLower (TrimSpace scope)) cur)
      then None else ms_rows (rc_store r) i)"
proof -
  let ?ch = "normalizeModelChannelKey channel" and ?scope = "ToLower (TrimSpace scope)"
  obtain rs where rs: "reconcile_input now channel [] models = Inr rs" "s' = rc_store (reconcileDiscoveredModelsScript ?ch prune rs ?scope s)"
    using r by (auto simp: ReconcileDiscoveredModels_def Let_def split: if_splits sum.splits)
  define ex where "ex = existing_of ?ch s"
  let ?r = "foldl (publish_row ?ch prune ?scope ex) \<lparr>rc_store = s, rc_added = [], rc_updated = [], rc_deleted = [], rc_protected = []\<rparr> rs"
  have i: "rs = map (discovered_row now channel) models" "distinct (map mo_ModelID rs)" using input_rows [OF rs(1)] by blast+
  have "ms_rows s' i = (if prune \<and> (\<exists>mid cur. (mid, i, cur) \<in> set ex \<and> mid \<notin> set (map mo_ModelID rs) \<and>
        \<not> (?scope \<noteq> [] \<and> ToLower (mo_Provider cur) \<noteq> ?scope) \<and> owned True ?scope cur) then None else ms_rows (rc_store ?r) i)" for i
    unfolding rs(2) reconcileDiscoveredModelsScript_def Let_def ex_def [symmetric]
    by (cases prune) (simp_all only: prune_effect if_True if_False simp_thms)
  with publish_effect [OF ok ex_def i(2), of prune ?scope] i(1) ex_def that show thesis by blast
qed

lemma existing_entry:
  assumes "(mid, i, cur) \<in> set (existing_of ch s)"
  shows "ms_rows s i = Some cur \<and> mo_ModelID cur = mid \<and> lua_channel (mo_Channel cur) = ch"
  using existing_sound map_of_is_SomeI [OF existing_distinct assms] by blast


lemma published_fields:
  assumes "ex = existing_of (normalizeModelChannelKey channel) s" "mo_Channel n = TrimSpace channel"
  shows "mo_ModelID (published_row prune scope ex i n) = mo_ModelID n"
    "lua_channel (mo_Channel (published_row prune scope ex i n)) = normalizeModelChannelKey channel"
proof -
  have ch: "lua_channel (TrimSpace channel) = normalizeModelChannelKey channel"
    by (simp add: lua_channel_def normalizeModelChannelKey_def)
  have "mo_ModelID (published_row prune scope ex i n) = mo_ModelID n \<and>
    lua_channel (mo_Channel (published_row prune scope ex i n)) = normalizeModelChannelKey channel"
  proof (cases "map_of ex (mo_ModelID n)")
    case None
    then show ?thesis using assms(2) ch by (simp add: published_row_def stored_row_def)
  next
    case (Some p)
    obtain j cur where p: "map_of ex (mo_ModelID n) = Some (j, cur)" using Some by (cases p) simp
    have "mo_ModelID cur = mo_ModelID n" "lua_channel (mo_Channel cur) = normalizeModelChannelKey channel"
      using existing_entry [OF map_of_SomeD [OF p, unfolded assms(1)]] by simp_all
    then show ?thesis using p assms(2) ch by (simp add: published_row_def stored_row_def observe_def)
  qed
  then show "mo_ModelID (published_row prune scope ex i n) = mo_ModelID n"
    "lua_channel (mo_Channel (published_row prune scope ex i n)) = normalizeModelChannelKey channel" by simp_all
qed


text \<open>A store with one operator row and one discovered row, and a publication of another model.\<close>

definition example_row :: "string \<Rightarrow> string \<Rightarrow> string \<Rightarrow> Model" where
  "example_row i mid origin = \<lparr>mo_ID = i, mo_Channel = ''qoder'', mo_ModelID = mid, mo_Name = mid, mo_Status = ''available'', mo_Verified = False,
     mo_IsDefault = False, mo_SortOrder = 0, mo_Provider = [], mo_UpstreamModel = [], mo_Capabilities = [], mo_BillingTier = [],
     mo_BillingSource = [], mo_Origin = origin, mo_BoundAccountIDs = [], mo_CreatedAt = 1\<rparr>"

definition example_models :: modelStore where
  "example_models = \<lparr>ms_next_id = 2, ms_ids = [''1'', ''2''],
     ms_rows = [''1'' \<mapsto> example_row ''1'' ''hand'' ''manual'', ''2'' \<mapsto> example_row ''2'' ''old'' ''discovery''],
     ms_by_id = Map.empty, ms_by_channel = [''qoder|hand'' \<mapsto> ''2'']\<rparr>"

lemma example_models_ok: "ms_ok example_models"
proof -
  have "show_nat 1 = ''1''" "show_nat 2 = ''2''" "stored_status ''available'' = ''available''" by code_simp+
  moreover from this(1) have "\<exists>n \<le> 2. ''1'' = show_nat n" by (intro exI [of _ 1]) simp
  moreover from calculation(2) have "\<exists>n \<le> 2. ''2'' = show_nat n" by (intro exI [of _ 2]) simp
  ultimately show ?thesis by (simp add: ms_ok_def example_models_def example_row_def)
qed

theorem channel_lookup_exact_witness:
  "fst (GetModelByChannelAndModelID ''qoder'' ''hand'' example_models) = Some (example_row ''1'' ''hand'' ''manual'')"
proof -
  have t: "TrimSpace ''hand'' = ''hand''" "TrimSpace ''old'' = ''old''" by code_simp+
  have "rows_listed example_models" using t
    by (auto simp: rows_listed_def example_models_def example_row_def split: if_splits)
  moreover have "unique_rows example_models"
    by (auto simp: unique_rows_def row_matches_def example_models_def example_row_def ran_def split: if_splits)
  ultimately show ?thesis using channel_lookup_exact [of example_models "''hand''" "''qoder''" "example_row ''1'' ''hand'' ''manual''"] t(1)
    by (auto simp: example_models_def example_row_def row_matches_def ran_def)
qed

lemma example_publication:
  "\<exists>res s'. ReconcileDiscoveredModels 5 ''Qoder'' [example_row [] ''new'' []] True [] example_models = (Inr res, s')"
proof -
  have "case ReconcileDiscoveredModels 5 ''Qoder'' [example_row [] ''new'' []] True [] example_models of (Inr res, s') \<Rightarrow> True | _ \<Rightarrow> False"
    by code_simp
  then show ?thesis by (auto split: prod.splits sum.splits)
qed



end
