(* ===== verification/Model_Route.thy ===== *)
theory Model_Route
  imports Model_Store
begin

text \<open>
  From the model a client names to the row that serves it (\<^verbatim>\<open>src/internal/handler/handler_helpers.go\<close>, the effort suffixes
  of \<^verbatim>\<open>codex_models.go\<close> and the name mapping of \<^verbatim>\<open>utils.go\<close>). The handler has a store; lookups may repair the
  store's indexes, so each returns the store it leaves.
\<close>

section \<open>Names\<close>

definition normalizeRequestedModelID :: "string \<Rightarrow> string" where
  "normalizeRequestedModelID m = ToLower (TrimSpace m)"

definition codexEffortSuffixes :: "string list" where
  "codexEffortSuffixes = [''low'', ''medium'', ''high'', ''xhigh'', ''max'']"

definition effortVariantOrder :: "string list" where
  "effortVariantOrder = [''medium'', ''high'', ''low'', ''xhigh'', ''max'']"

definition splitEffortVariantSuffix :: "string \<Rightarrow> string \<times> string" where
  "splitEffortVariantSuffix m = (case List.find (\<lambda>t. HasSuffix m (CHR ''-'' # t)) codexEffortSuffixes of
     Some t \<Rightarrow> (take (length m - length (CHR ''-'' # t)) m, t)
   | None \<Rightarrow> (m, []))"

fun replace_dot :: "string \<Rightarrow> string" where
  "replace_dot (a # b # c # s) =
     (if a = CHR ''4'' \<and> b = CHR ''.'' \<and> (c = CHR ''6'' \<or> c = CHR ''5'') then a # CHR ''-'' # c # replace_dot s
      else a # replace_dot (b # c # s))"
| "replace_dot s = s"

definition mapModel :: "string \<Rightarrow> string" where
  "mapModel m = (let n = ToLower (TrimSpace m) in if HasPrefix n ''claude-'' then replace_dot n else n)"

section \<open>Lookups\<close>

definition lookupModelRow :: "string \<Rightarrow> string \<Rightarrow> modelStore \<Rightarrow> Model option \<times> modelStore" where
  "lookupModelRow ch modelID s =
     (let candidate = normalizeRequestedModelID modelID in
      if candidate = [] then (None, s)
      else if ch = [] then GetModelByModelID candidate s else GetModelByChannelAndModelID ch candidate s)"

fun first_enabled :: "string \<Rightarrow> string list \<Rightarrow> modelStore \<Rightarrow> string option \<times> modelStore" where
  "first_enabled ch [] s = (None, s)"
| "first_enabled ch (m # ms) s = (case lookupModelRow ch m s of
     (Some r, s1) \<Rightarrow> if ModelEnabled (mo_Status r) then (Some m, s1) else first_enabled ch ms s1
   | (None, s1) \<Rightarrow> first_enabled ch ms s1)"

definition effort_candidates :: "string \<Rightarrow> string \<Rightarrow> string list" where
  "effort_candidates modelID effort0 =
     (let effort = ToLower (TrimSpace effort0) in
      (if effort \<noteq> [] then [modelID @ ''-'' @ effort] else []) @ map (\<lambda>t. modelID @ ''-'' @ t) effortVariantOrder)"

definition resolveEffortModelVariant :: "string \<Rightarrow> string \<Rightarrow> string \<Rightarrow> modelStore \<Rightarrow> string \<times> modelStore" where
  "resolveEffortModelVariant modelID0 effort forcedChannel s =
     (let modelID = normalizeRequestedModelID modelID0 in
      if modelID = [] then (modelID, s)
      else case lookupModelRow forcedChannel modelID s of
        (Some r, s1) \<Rightarrow> (modelID, s1)
      | (None, s1) \<Rightarrow>
          if snd (splitEffortVariantSuffix modelID) \<noteq> [] then (modelID, s1)
          else case first_enabled forcedChannel (effort_candidates modelID effort) s1 of
            (Some c, s2) \<Rightarrow> (c, s2)
          | (None, s2) \<Rightarrow> (modelID, s2))"

definition sameModelChannel :: "string \<Rightarrow> string \<Rightarrow> bool" where
  "sameModelChannel a b \<longleftrightarrow> map dash_char (ToLower (TrimSpace a)) = map dash_char (ToLower (TrimSpace b))"

definition validateModelAvailability :: "string \<Rightarrow> string \<Rightarrow> modelStore \<Rightarrow> (string + Model option) \<times> modelStore" where
  "validateModelAvailability modelID0 forcedChannel s =
     (let modelID = TrimSpace modelID0 in
      if modelID = [] then (Inr None, s)
      else case lookupModelRow forcedChannel modelID s of
        (None, s1) \<Rightarrow> (Inl ''model not found'', s1)
      | (Some m, s1) \<Rightarrow>
          (if \<not> ModelEnabled (mo_Status m) then Inl ''model not available''
           else if forcedChannel \<noteq> [] \<and> \<not> sameModelChannel (mo_Channel m) forcedChannel then Inl ''model not found''
           else Inr (Some m), s1))"

text \<open>The effort a family name asks for does not count when the name already ends in one and the path pins no channel.\<close>

definition request_model :: "string \<Rightarrow> string \<Rightarrow> string \<Rightarrow> modelStore \<Rightarrow> (string + string \<times> Model option) \<times> modelStore" where
  "request_model model effort0 forcedChannel s =
     (let effort = (if forcedChannel = [] \<and> snd (splitEffortVariantSuffix (normalizeRequestedModelID model)) \<noteq> [] then [] else effort0) in
      case resolveEffortModelVariant model effort forcedChannel s of
        (m, s1) \<Rightarrow> (case validateModelAvailability m forcedChannel s1 of
            (Inl e, s2) \<Rightarrow> (Inl e, s2) | (Inr r, s2) \<Rightarrow> (Inr (m, r), s2)))"

text \<open>The channel a model is registered under; the hint is the model the request published, if any.\<close>

definition LookupChannelForModel :: "string \<Rightarrow> string \<Rightarrow> modelStore \<Rightarrow> string \<times> modelStore" where
  "LookupChannelForModel hint modelID0 s =
     (let modelID = normalizeRequestedModelID (if TrimSpace hint \<noteq> [] then TrimSpace hint else modelID0) in
      if modelID = [] then ([], s)
      else case GetModelByModelID modelID s of
        (Some m, s1) \<Rightarrow> (TrimSpace (mo_Channel m), s1)
      | (None, s1) \<Rightarrow> (case resolveEffortModelVariant modelID [] [] s1 of (variant, s2) \<Rightarrow>
          if variant = [] \<or> variant = modelID then ([], s2)
          else case GetModelByModelID variant s2 of
            (Some m, s3) \<Rightarrow> (TrimSpace (mo_Channel m), s3)
          | (None, s3) \<Rightarrow> ([], s3)))"

section \<open>Lookups read the rows only\<close>

definition same_rows :: "modelStore \<Rightarrow> modelStore \<Rightarrow> bool" where
  "same_rows s s' \<longleftrightarrow> ms_rows s' = ms_rows s \<and> ms_ids s' = ms_ids s \<and> ms_next_id s' = ms_next_id s"

lemma same_rows_refl [simp]: "same_rows s s"
  by (simp add: same_rows_def)

lemma same_rows_trans: "same_rows s t \<Longrightarrow> same_rows t u \<Longrightarrow> same_rows s u"
  by (simp add: same_rows_def)

lemma repaired_rows:
  assumes "\<And>m. same_rows s (h m)"
  shows "same_rows s (snd (if b then (None, s) else case ix of Some m \<Rightarrow> (Some m, s) | None \<Rightarrow> (case f of Some m \<Rightarrow> (Some m, h m) | None \<Rightarrow> (None, s))))"
  using assms by (cases ix; cases f) simp_all

lemma lookups_keep_rows:
  "same_rows s (snd (GetModelByModelID m s))" "same_rows s (snd (GetModelByChannelAndModelID ch m s))" "same_rows s (snd (lookupModelRow ch m s))"
proof -
  show a: "same_rows s (snd (GetModelByModelID m s))" for m
    unfolding GetModelByModelID_def Let_def by (rule repaired_rows) (simp add: same_rows_def)
  show b: "same_rows s (snd (GetModelByChannelAndModelID ch m s))" for m
    unfolding GetModelByChannelAndModelID_def Let_def by (rule repaired_rows) (simp add: same_rows_def)
  show "same_rows s (snd (lookupModelRow ch m s))" using a b by (simp add: lookupModelRow_def Let_def)
qed

lemma same_rows_step: "lookupModelRow ch m s = (r, s') \<Longrightarrow> same_rows s s'"
  using lookups_keep_rows(3) [of s ch m] by simp

lemma global_lookup_Some:
  assumes "GetModelByModelID mid s = (Some m, s')"
  shows "m \<in> ran (ms_rows s) \<and> TrimSpace (mo_ModelID m) = TrimSpace mid"
proof -
  let ?ix = "indexed_row s (ms_by_id s (TrimSpace mid)) (\<lambda>m. TrimSpace (mo_ModelID m) = TrimSpace mid)"
  have "?ix = Some m \<or> List.find (\<lambda>m. mo_ModelID m = TrimSpace mid) (redis_ListModels s) = Some m"
    using assms by (cases "TrimSpace mid = []"; cases ?ix; cases "List.find (\<lambda>m. mo_ModelID m = TrimSpace mid) (redis_ListModels s)")
      (simp_all add: GetModelByModelID_def)
  then show ?thesis
  proof
    assume "?ix = Some m"
    from indexed_row_Some [OF this] show ?thesis by simp
  next
    assume "List.find (\<lambda>m. mo_ModelID m = TrimSpace mid) (redis_ListModels s) = Some m"
    from find_model(2) [OF this] show ?thesis by simp
  qed
qed

text \<open>A row found for a name and, when one is given, a channel.\<close>

definition serves :: "string \<Rightarrow> string \<Rightarrow> modelStore \<Rightarrow> Model \<Rightarrow> bool" where
  "serves ch mid s m \<longleftrightarrow> m \<in> ran (ms_rows s) \<and> TrimSpace (mo_ModelID m) = normalizeRequestedModelID mid \<and>
     (ch \<noteq> [] \<longrightarrow> normalizeModelChannelKey (mo_Channel m) = normalizeModelChannelKey ch)"

lemma normalized_name: "TrimSpace (normalizeRequestedModelID m) = normalizeRequestedModelID m"
  "normalizeRequestedModelID (normalizeRequestedModelID m) = normalizeRequestedModelID m" "normalizeRequestedModelID (TrimSpace m) = normalizeRequestedModelID m"
  by (simp_all add: normalizeRequestedModelID_def TrimSpace_ToLower)

lemma lookup_serves:
  assumes "lookupModelRow ch mid s = (Some m, s')"
  shows "serves ch mid s m"
proof -
  have n: "normalizeRequestedModelID mid \<noteq> []" using assms by (auto simp: lookupModelRow_def Let_def)
  show ?thesis
  proof (cases "ch = []")
    case True
    then show ?thesis using assms n global_lookup_Some by (auto simp: lookupModelRow_def serves_def Let_def normalized_name)
  next
    case False
    then have "GetModelByChannelAndModelID ch (normalizeRequestedModelID mid) s = (Some m, s')" using assms n by (simp add: lookupModelRow_def Let_def)
    then show ?thesis by (rule channel_lookup_cases) (use n in \<open>auto simp: serves_def normalized_name\<close>)
  qed
qed

lemma serves_rows: "same_rows s s' \<Longrightarrow> serves ch mid s' m \<longleftrightarrow> serves ch mid s m"
  by (simp add: serves_def same_rows_def)

lemma first_enabled_some:
  "first_enabled ch cs s = (Some c, s') \<Longrightarrow> c \<in> set cs \<and> (\<exists>m. serves ch c s m \<and> ModelEnabled (mo_Status m))"
proof (induction ch cs s rule: first_enabled.induct)
  case (2 ch x xs s)
  obtain r s1 where l: "lookupModelRow ch x s = (r, s1)" by fastforce
  then show ?case using 2 lookup_serves [of ch x s] serves_rows [OF same_rows_step [OF l]]
    by (cases r) (auto split: if_splits)
qed simp

lemma first_enabled_rows: "first_enabled ch cs s = (r, s') \<Longrightarrow> same_rows s s'"
proof (induction ch cs s rule: first_enabled.induct)
  case (2 ch x xs s)
  obtain q s1 where l: "lookupModelRow ch x s = (q, s1)" by fastforce
  then show ?case using 2 same_rows_step [OF l] same_rows_trans by (cases q) (auto split: if_splits)
qed simp

definition has_effort :: "string \<Rightarrow> bool" where
  "has_effort m \<longleftrightarrow> snd (splitEffortVariantSuffix m) \<noteq> []"

lemma resolve_cases:
  assumes "resolveEffortModelVariant m e ch s = (c, s')"
  shows "same_rows s s'" "c = normalizeRequestedModelID m \<or>
    \<not> has_effort (normalizeRequestedModelID m) \<and> (\<nexists>r. fst (lookupModelRow ch (normalizeRequestedModelID m) s) = Some r) \<and>
    c \<in> set (effort_candidates (normalizeRequestedModelID m) e)"
proof -
  let ?n = "normalizeRequestedModelID m"
  obtain r s1 where l: "lookupModelRow ch ?n s = (r, s1)" by fastforce
  obtain q s2 where f: "first_enabled ch (effort_candidates ?n e) s1 = (q, s2)" by fastforce
  have keep: "same_rows s s1" "same_rows s s2" using same_rows_step [OF l] first_enabled_rows [OF f] same_rows_trans by blast+
  have eq: "resolveEffortModelVariant m e ch s = (if ?n = [] then (?n, s) else if r \<noteq> None then (?n, s1) else if has_effort ?n then (?n, s1)
      else (case q of Some x \<Rightarrow> x | None \<Rightarrow> ?n, s2))"
    by (cases r; cases q) (simp_all add: resolveEffortModelVariant_def has_effort_def l f)
  show "same_rows s s'" using assms keep unfolding eq by (simp split: if_splits)
  show "c = ?n \<or> \<not> has_effort ?n \<and> (\<nexists>r. fst (lookupModelRow ch ?n s) = Some r) \<and> c \<in> set (effort_candidates ?n e)"
    using assms first_enabled_some [of ch "effort_candidates ?n e" s1] f l unfolding eq by (cases q) (simp_all split: if_splits)
qed

text \<open>The row a request is served by is a stored, enabled row of the channel its path pins, under the name the
  client asked for or, only when no row has that name and the name carries no effort of its own, under that name with an
  effort appended.\<close>

theorem served_model_is_published:
  assumes "request_model model effort ch s = (Inr (c, Some m), s')"
  shows "m \<in> ran (ms_rows s) \<and> ModelEnabled (mo_Status m) \<and> TrimSpace (mo_ModelID m) = normalizeRequestedModelID c \<and>
    (ch \<noteq> [] \<longrightarrow> sameModelChannel (mo_Channel m) ch) \<and>
    (c = normalizeRequestedModelID model \<or>
     \<not> has_effort (normalizeRequestedModelID model) \<and> (\<nexists>r. fst (lookupModelRow ch (normalizeRequestedModelID model) s) = Some r) \<and>
     (\<exists>e. c = normalizeRequestedModelID model @ ''-'' @ e))"
proof -
  obtain e s1 where r: "resolveEffortModelVariant model e ch s = (c, s1)" and v: "validateModelAvailability c ch s1 = (Inr (Some m), s')"
    using assms by (auto simp: request_model_def Let_def split: prod.splits sum.splits)
  obtain s2 where l: "lookupModelRow ch (TrimSpace c) s1 = (Some m, s2)"
    and ok: "ModelEnabled (mo_Status m)" "ch \<noteq> [] \<longrightarrow> sameModelChannel (mo_Channel m) ch"
    using v by (auto simp: validateModelAvailability_def Let_def split: if_splits option.splits prod.splits)
  have "serves ch c s m" using lookup_serves [OF l] serves_rows [OF resolve_cases(1) [OF r]] by (simp add: serves_def normalized_name(3))
  with ok show ?thesis using resolve_cases(2) [OF r] by (auto simp: serves_def effort_candidates_def Let_def split: if_splits)
qed

theorem served_model_is_published_witness:
  "\<exists>c m s. request_model '' Hand '' ''high'' ''qoder'' example_models = (Inr (c, Some m), s) \<and>
    m \<in> ran (ms_rows example_models) \<and> ModelEnabled (mo_Status m)"
proof -
  have "case request_model '' Hand '' ''high'' ''qoder'' example_models of (Inr (c, Some m), s) \<Rightarrow> True | _ \<Rightarrow> False" by code_simp
  then obtain c m s where r: "request_model '' Hand '' ''high'' ''qoder'' example_models = (Inr (c, Some m), s)"
    by (auto split: prod.splits sum.splits option.splits)
  then show ?thesis using served_model_is_published [OF r] by blast
qed

end
