(* ===== verification/Account_Choice.thy ===== *)
theory Account_Choice
  imports Selection Model_Route
begin

text \<open>
  How a request gets its account: the catalogs an account's snapshot holds (\<^verbatim>\<open>src/internal/qoder/catalog.go\<close>,
  \<^verbatim>\<open>workbuddy/free_models.go\<close>, \<^verbatim>\<open>cline/catalog.go\<close>), the filter of the selection, and the reservation of a slot
  (\<^verbatim>\<open>src/internal/handler/handler_helpers.go\<close>). Other requests and the background work may change the pool between any two
  steps of one request; they are functions of the environment, indexed by the number of the step.
\<close>

section \<open>Catalog snapshots\<close>

definition dec_bool :: "(string \<times> json) list \<Rightarrow> string \<Rightarrow> bool option" where
  "dec_bool fs k = foldl (\<lambda>r v. case v of JBool b \<Rightarrow> map_option (\<lambda>_. b) r | JNull \<Rightarrow> r | _ \<Rightarrow> None) (Some False) (field_values fs k)"

definition dec_bool_ptr :: "(string \<times> json) list \<Rightarrow> string \<Rightarrow> bool option option" where
  "dec_bool_ptr fs k =
     foldl (\<lambda>r v. case v of JBool b \<Rightarrow> map_option (\<lambda>_. Some b) r | JNull \<Rightarrow> map_option (\<lambda>_. None) r | _ \<Rightarrow> None) (Some None) (field_values fs k)"

definition dec_number_ptr :: "(string \<times> json) list \<Rightarrow> string \<Rightarrow> string option option" where
  "dec_number_ptr fs k =
     foldl (\<lambda>r v. case v of JNum n \<Rightarrow> map_option (\<lambda>_. Some n) r | JNull \<Rightarrow> map_option (\<lambda>_. None) r | _ \<Rightarrow> None) (Some None) (field_values fs k)"

definition array_of :: "(json \<Rightarrow> bool) \<Rightarrow> json \<Rightarrow> bool" where
  "array_of ok v = (case v of JArr vs \<Rightarrow> list_all ok vs | JNull \<Rightarrow> True | _ \<Rightarrow> False)"

definition string_or_null :: "json \<Rightarrow> bool" where
  "string_or_null v = (case v of JStr _ \<Rightarrow> True | JNull \<Rightarrow> True | _ \<Rightarrow> False)"

definition arrays_ok :: "(json \<Rightarrow> bool) \<Rightarrow> (string \<times> json) list \<Rightarrow> string \<Rightarrow> bool" where
  "arrays_ok ok fs k = list_all (array_of ok) (field_values fs k)"

text \<open>A literal is zero as a double when it is at most half of the least denormal, \<open>2 ^ -1075\<close>.\<close>

definition float64_zero :: "string \<Rightarrow> bool" where
  "float64_zero lit =
     (let u = (case lit of c # cs \<Rightarrow> if c = CHR ''-'' then cs else lit | [] \<Rightarrow> []);
          whole = takeWhile is_digit u; r1 = dropWhile is_digit u;
          frac = (case r1 of c # cs \<Rightarrow> if c = CHR ''.'' then takeWhile is_digit cs else [] | [] \<Rightarrow> []);
          r2 = (case r1 of c # cs \<Rightarrow> if c = CHR ''.'' then dropWhile is_digit cs else r1 | [] \<Rightarrow> []);
          e = (case r2 of c # d # cs \<Rightarrow> if d = CHR ''-'' then - digits_value cs
                 else if d = CHR ''+'' then digits_value cs else digits_value (d # cs) | _ \<Rightarrow> 0) - int (length frac);
          m = digits_value (whole @ frac)
      in if e \<ge> 0 then m = 0 else m * 2 ^ 1075 \<le> 10 ^ nat (- e))"

record modelEntry =
  me_Key :: string
  me_Name :: string
  me_DisplayName :: string
  me_Enable :: "bool option"
  me_PriceFactor :: "string option"

definition entry_enabled :: "modelEntry \<Rightarrow> bool" where
  "entry_enabled e = (case me_Enable e of None \<Rightarrow> True | Some b \<Rightarrow> b)"

text \<open>Decoding a stored row; a member of a wrong type anywhere refuses the row.\<close>

definition decode_entry :: "string \<Rightarrow> modelEntry option" where
  "decode_entry raw = (case json_decode raw of
     Some v \<Rightarrow> (case members v of
       Some fs \<Rightarrow> (case (dec_string fs ''key'', dec_string fs ''name'', dec_string fs ''display_name'', dec_bool_ptr fs ''enable'', dec_number_ptr fs ''price_factor'') of
         (Some k, Some n, Some d, Some e, Some p) \<Rightarrow>
           if dec_string fs ''format'' \<noteq> None \<and> dec_string fs ''source'' \<noteq> None \<and> dec_bool fs ''is_vl'' \<noteq> None \<and> dec_bool fs ''is_reasoning'' \<noteq> None \<and>
              dec_bool fs ''is_default'' \<noteq> None \<and> dec_int fs ''max_input_tokens'' \<noteq> None \<and> arrays_ok string_or_null fs ''organization_tags'' \<and>
              arrays_ok (\<lambda>_. True) fs ''context_config_variants''
           then Some \<lparr>me_Key = k, me_Name = n, me_DisplayName = d, me_Enable = e, me_PriceFactor = p\<rparr> else None
       | _ \<Rightarrow> None)
     | None \<Rightarrow> None)
   | None \<Rightarrow> None)"

definition cut_tab :: "string \<Rightarrow> string \<times> string" where
  "cut_tab s = (takeWhile (\<lambda>c. c \<noteq> CHR 0x09) s, drop 1 (dropWhile (\<lambda>c. c \<noteq> CHR 0x09) s))"

definition entry_of_id :: "string \<Rightarrow> modelEntry option" where
  "entry_of_id raw =
     (let t = TrimSpace raw in
      if t = [] then None
      else if HasPrefix t ''{'' then decode_entry t
      else let (key, name) = cut_tab t in
        if TrimSpace key = [] then None
        else Some \<lparr>me_Key = TrimSpace key, me_Name = TrimSpace name, me_DisplayName = [], me_Enable = None, me_PriceFactor = None\<rparr>)"

definition named_entry :: "modelEntry \<Rightarrow> modelEntry" where
  "named_entry e =
     (let key = TrimSpace (me_Key e); n1 = TrimSpace (me_Name e); d = TrimSpace (me_DisplayName e);
          n2 = (if n1 = [] then d else n1); n3 = (if n2 = [] then key else n2)
      in e\<lparr>me_Key := key, me_Name := n3, me_DisplayName := d\<rparr>)"

definition add_entry :: "modelEntry list \<Rightarrow> modelEntry \<Rightarrow> modelEntry list" where
  "add_entry es e =
     (let key = TrimSpace (me_Key e) in
      if \<not> entry_enabled e \<or> key = [] \<or> EqualFold key ''auto'' \<or> (\<exists>x \<in> set es. ToLower (me_Key x) = ToLower key) then es
      else es @ [named_entry e])"

definition newCatalog :: "modelEntry list \<Rightarrow> modelEntry list" where
  "newCatalog entries = foldl add_entry [] entries"

definition catalogFromIDs :: "string list \<Rightarrow> modelEntry list" where
  "catalogFromIDs is = newCatalog (List.map_filter entry_of_id is)"

text \<open>The row a name stands for: keys before the names and display names, the first row of a name before later ones.\<close>

definition resolve_name :: "modelEntry list \<Rightarrow> string \<Rightarrow> modelEntry option" where
  "resolve_name es requested =
     (let name = ToLower (TrimSpace requested) in
      case List.find (\<lambda>e. ToLower (me_Key e) = name) es of
        Some e \<Rightarrow> Some e
      | None \<Rightarrow> if name = [] then None else List.find (\<lambda>e. ToLower (me_Name e) = name \<or> ToLower (me_DisplayName e) = name) es)"

definition free_row :: "modelEntry \<Rightarrow> bool" where
  "free_row e = (case me_PriceFactor e of Some lit \<Rightarrow> float64_zero lit | None \<Rightarrow> False)"

definition FreeModelIDs :: "string list \<Rightarrow> string list" where
  "FreeModelIDs is =
     (let es = catalogFromIDs is;
          names = filter (\<lambda>v. v \<noteq> []) (concat (map (\<lambda>e. map (\<lambda>v. ToLower (TrimSpace v)) [me_Key e, me_Name e, me_DisplayName e]) es))
      in filter (\<lambda>v. case resolve_name es v of Some e \<Rightarrow> free_row e | None \<Rightarrow> False) names)"

definition qoder_IsFreeModel :: "string list \<Rightarrow> string \<Rightarrow> bool" where
  "qoder_IsFreeModel is requested \<longleftrightarrow> ToLower (TrimSpace requested) \<in> set (FreeModelIDs is)"

definition workbuddy_freeModelIDs :: "string list" where
  "workbuddy_freeModelIDs = [''deepseek-v4.1-flash'', ''deepseek-v4.1-flash-sg'', ''glm-5.3-flash'', ''hy4-preview-f'', ''hy3'']"

definition workbuddy_row_id :: "string \<Rightarrow> string option" where
  "workbuddy_row_id raw =
     (let t = TrimSpace raw in
      if t = [] then None
      else if HasPrefix t ''{'' then
        (case map_option members (json_decode t) of
           Some (Some fs) \<Rightarrow> if dec_string fs ''name'' \<noteq> None \<and> dec_int fs ''max_input_tokens'' \<noteq> None \<and> dec_int fs ''max_output_tokens'' \<noteq> None
             then dec_string fs ''id'' else None
         | _ \<Rightarrow> None)
      else Some t)"

definition IsFreeModelInCatalog :: "string list \<Rightarrow> string \<Rightarrow> bool" where
  "IsFreeModelInCatalog is modelID0 =
     (let modelID = ToLower (TrimSpace modelID0) in
      modelID \<in> set workbuddy_freeModelIDs \<and>
      (\<exists>raw \<in> set is. case workbuddy_row_id raw of Some i \<Rightarrow> EqualFold (TrimSpace i) modelID | None \<Rightarrow> False))"

definition catalogID :: "string \<Rightarrow> string" where
  "catalogID raw =
     (let t = TrimSpace raw in
      if t = [] then []
      else if HasPrefix t ''{'' then
        (case map_option members (json_decode t) of
           Some (Some fs) \<Rightarrow> if dec_string fs ''name'' \<noteq> None \<and> dec_string fs ''provider'' \<noteq> None \<and> dec_bool fs ''requires_stream'' \<noteq> None
             then (case dec_string fs ''id'' of Some i \<Rightarrow> TrimSpace i | None \<Rightarrow> []) else []
         | _ \<Rightarrow> [])
      else t)"

definition CatalogSupportsModel :: "string list \<Rightarrow> string \<Rightarrow> bool" where
  "CatalogSupportsModel stored modelID0 =
     (let modelID = TrimSpace modelID0 in modelID = [] \<or> (\<exists>row \<in> set stored. EqualFold (catalogID row) modelID))"

section \<open>The filter of the selection\<close>

definition honorsModelCooldown :: "string \<Rightarrow> bool" where
  "honorsModelCooldown ch \<longleftrightarrow> ToLower (TrimSpace ch) \<in> {''qoder'', ''workbuddy''}"

definition isCurrentFreeModel :: "modelStore \<Rightarrow> string \<Rightarrow> string \<Rightarrow> bool" where
  "isCurrentFreeModel ms ch modelID = (case fst (GetModelByChannelAndModelID ch (ToLower (TrimSpace modelID)) ms) of
     Some m \<Rightarrow> EqualFold (TrimSpace (mo_BillingTier m)) ''free'' | None \<Rightarrow> False)"

text \<open>What a spent account may still serve: the models its provider gives away.\<close>

definition spent_verdict :: "modelStore \<Rightarrow> string \<Rightarrow> string \<Rightarrow> Account \<Rightarrow> rejection option" where
  "spent_verdict ms ch model acc =
     (let status = TrimSpace (StatusCode acc);
          qoder_free = (qoder_IsFreeModel (QoderModelIDs (QoderPart acc)) model \<and> isCurrentFreeModel ms ''qoder'' model);
          wb_free = IsFreeModelInCatalog (WorkBuddyModelIDs (WorkBuddyPart acc)) model in
      if status = ''402'' then
        (if (ch = ''qoder'' \<and> qoder_free) \<or> (ch = ''workbuddy'' \<and> wb_free) then None else Some ErrAccountNotEligible)
      else if status = AccountStatusQoderQuotaExhausted then
        (if ch = ''qoder'' \<and> qoder_free then None else Some ErrAccountNotEligible)
      else if status = AccountStatusWorkBuddyQuotaExhausted then
        (if ch = ''workbuddy'' \<and> wb_free then None else Some ErrAccountNotEligible)
      else None)"

definition request_filter :: "modelStore \<Rightarrow> instant \<Rightarrow> string \<Rightarrow> string \<Rightarrow> Account \<Rightarrow> rejection option" where
  "request_filter ms now ch model acc =
     (if ch = ''cline'' \<and> \<not> CatalogSupportsModel (ClineModelIDs (ClinePart acc)) model then Some ErrAccountNotEligible
      else if honorsModelCooldown ch \<and> ModelCooldownKind acc model now = ModelCooldownUnavailable then Some RejectModelUnavailable
      else if honorsModelCooldown ch \<and> ModelCooldownKind acc model now = ModelCooldownThrottled then Some RejectModelThrottled
      else spent_verdict ms ch model acc)"

section \<open>The world a request runs in\<close>

record gateway_world =
  gw_lb :: LoadBalancer
  gw_tracker :: "conns option"
  gw_models :: modelStore

text \<open>What is outside the request: the steps of others, the clock, random draws, whether the request was cancelled, and
  whether the gateway has a default client.\<close>

record request_env =
  e_cipher :: "credentialCipher option"
  e_others :: "nat \<Rightarrow> gateway_world \<Rightarrow> gateway_world"
  e_now :: "nat \<Rightarrow> instant"
  e_random :: "nat \<Rightarrow> nat"
  e_cancelled :: "nat \<Rightarrow> bool"
  e_default_client :: bool

datatype effect = SlotTaken int | SlotFreed int | ClientTaken int | ClientFreed int | Paused duration
  | Waited string duration duration | Sent nat int | Marked int string | Answered | Counted int int

record request_run =
  rr_world :: gateway_world
  rr_tick :: nat
  rr_log :: "effect list"

definition others_act :: "request_env \<Rightarrow> request_run \<Rightarrow> request_run" where
  "others_act e s = s\<lparr>rr_world := e_others e (rr_tick s) (rr_world s), rr_tick := rr_tick s + 1\<rparr>"

definition logged_effect :: "effect \<Rightarrow> request_run \<Rightarrow> request_run" where
  "logged_effect x s = s\<lparr>rr_log := rr_log s @ [x]\<rparr>"

definition now_of :: "request_env \<Rightarrow> request_run \<Rightarrow> instant" where
  "now_of e s = e_now e (rr_tick s)"

definition selectAccountRecordWithOptions ::
    "request_env \<Rightarrow> int list \<Rightarrow> string \<Rightarrow> string \<Rightarrow> request_run \<Rightarrow> (string + Account) \<times> request_run" where
  "selectAccountRecordWithOptions e failed targetChannel modelID s =
     (let model = TrimSpace modelID; ch = ToLower (TrimSpace targetChannel); wd = rr_world s; now = now_of e s;
          needsFilter = (model \<noteq> [] \<and> (honorsModelCooldown ch \<or> ch = ''cline''));
          flt = (if needsFilter then Some (request_filter (gw_models wd) now ch model) else None)
      in case GetNextAccountExcludingByChannelWithTrackerFilter (e_cipher e) (e_random e (rr_tick s)) now failed targetChannel (gw_tracker wd) flt (gw_lb wd) of
           (r, lb) \<Rightarrow> (r, s\<lparr>rr_world := wd\<lparr>gw_lb := lb\<rparr>\<rparr>))"

section \<open>Clients and slots\<close>

text \<open>The account types with a client.\<close>

definition has_client :: "Account \<Rightarrow> bool" where
  "has_client acc \<longleftrightarrow> EqualFold (AccountType acc) ''workbuddy'' \<or> EqualFold (AccountType acc) ''qoder'' \<or> EqualFold (AccountType acc) ''cline''"

text \<open>A client handle is held by account id; the default client and that of an account without an id are not counted.\<close>

definition takeClient :: "int \<Rightarrow> request_run \<Rightarrow> request_run" where
  "takeClient i s = (if i = 0 then s else logged_effect (ClientTaken i) s)"

definition releaseClient :: "int \<Rightarrow> request_run \<Rightarrow> request_run" where
  "releaseClient i s = (if i = 0 then s else logged_effect (ClientFreed i) s)"

definition acquireAccountSelection ::
    "request_env \<Rightarrow> string \<Rightarrow> bool \<Rightarrow> int list \<Rightarrow> string \<Rightarrow> request_run \<Rightarrow> (string + Account option \<times> int) \<times> request_run" where
  "acquireAccountSelection e targetChannel channelRequired failed model s =
     (case selectAccountRecordWithOptions e failed targetChannel model s of
        (Inl err, s1) \<Rightarrow> if \<not> channelRequired \<and> e_default_client e then (Inr (None, 0), s1) else (Inl err, s1)
      | (Inr acc, s1) \<Rightarrow> if has_client acc then (Inr (Some acc, ID acc), takeClient (ID acc) s1) else (Inl ''no client configured'', s1))"

definition tryAcquireTrackedAccount :: "Account option \<Rightarrow> request_run \<Rightarrow> (int \<times> bool) \<times> request_run" where
  "tryAcquireTrackedAccount acc s = (case acc of
     None \<Rightarrow> ((0, True), s)
   | Some a \<Rightarrow> if ID a = 0 then ((0, True), s)
     else let wd = rr_world s; limit = EffectiveAccountConcurrencyLimit a in
       case gw_tracker wd of
         Some t \<Rightarrow> (case (if limit > 0 then TryAcquire (ID a) limit t else (True, Acquire (ID a) t)) of
             (granted, t') \<Rightarrow> if granted then ((ID a, True), logged_effect (SlotTaken (ID a)) (s\<lparr>rr_world := wd\<lparr>gw_tracker := Some t'\<rparr>\<rparr>))
               else ((0, False), s\<lparr>rr_world := wd\<lparr>gw_tracker := Some t'\<rparr>\<rparr>))
       | None \<Rightarrow> ((ID a, True), logged_effect (SlotTaken (ID a)) (s\<lparr>rr_world := wd\<lparr>gw_lb := (gw_lb wd)\<lparr>connTracker := Acquire (ID a) (connTracker (gw_lb wd))\<rparr>\<rparr>\<rparr>)))"

definition releaseTrackedAccount :: "int \<Rightarrow> request_run \<Rightarrow> request_run" where
  "releaseTrackedAccount i s =
     (if i = 0 then s
      else let wd = rr_world s in
        logged_effect (SlotFreed i) (case gw_tracker wd of
            Some t \<Rightarrow> s\<lparr>rr_world := wd\<lparr>gw_tracker := Some (Release i t)\<rparr>\<rparr>
          | None \<Rightarrow> s\<lparr>rr_world := wd\<lparr>gw_lb := (gw_lb wd)\<lparr>connTracker := Release i (connTracker (gw_lb wd))\<rparr>\<rparr>\<rparr>))"

section \<open>The reservation\<close>

definition reservationRetries :: nat where "reservationRetries = 8"
definition reservationRetryDelay :: duration where "reservationRetryDelay = 250 * millisecond"

definition at_limit_text :: string where
  "at_limit_text = ''all matching accounts are at their concurrency limit''"

definition pool_full :: "string \<Rightarrow> string" where
  "pool_full ch = ''no enabled accounts available for channel: '' @ ch @ '' ('' @ at_limit_text @ '')''"

text \<open>
  One selection and, when it names an account, one attempt at its slot. The accounts that lost that race so far are \<open>full\<close>;
  \<open>k\<close> passes found every account at its limit. A step ends the loop or gives its next arguments.
\<close>

datatype reservation = Reserved "Account option" int int | No_slot string

definition reserve_step ::
    "request_env \<Rightarrow> string \<Rightarrow> bool \<Rightarrow> int list \<Rightarrow> string \<Rightarrow> int list \<Rightarrow> nat \<Rightarrow> request_run \<Rightarrow> (reservation + int list \<times> nat) \<times> request_run" where
  "reserve_step e ch required failed model full k s =
     (case acquireAccountSelection e ch required (failed @ full) model (others_act e s) of
        (Inl err, s1) \<Rightarrow>
          if k < reservationRetries \<and> Contains err at_limit_text then
            let s2 = others_act e (logged_effect (Paused reservationRetryDelay) s1) in
            if e_cancelled e (rr_tick s2) then (Inl (No_slot ''context canceled''), s2) else (Inr ([], k + 1), s2)
          else (Inl (No_slot (if full \<noteq> [] then pool_full ch else err)), s1)
      | (Inr (acc, client), s1) \<Rightarrow>
          (case tryAcquireTrackedAccount acc (others_act e s1) of
             ((i, True), s2) \<Rightarrow> (Inl (Reserved acc client i), s2)
           | ((i, False), s2) \<Rightarrow> let s3 = releaseClient client s2 in
               (case acc of
                  None \<Rightarrow> (Inl (No_slot ''failed to reserve an account concurrency slot''), s3)
                | Some a \<Rightarrow>
                    if ID a = 0 then (Inl (No_slot ''failed to reserve an account concurrency slot''), s3)
                    else if ID a \<in> set full then (Inl (No_slot (pool_full ch)), s3)
                    else (Inr (full @ [ID a], k), s3))))"

partial_function (option) reserve_loop ::
    "request_env \<Rightarrow> string \<Rightarrow> bool \<Rightarrow> int list \<Rightarrow> string \<Rightarrow> int list \<Rightarrow> nat \<Rightarrow> request_run \<Rightarrow> (reservation \<times> request_run) option" where
  "reserve_loop e ch required failed model full k s =
     (case reserve_step e ch required failed model full k s of
        (Inl r, s1) \<Rightarrow> Some (r, s1)
      | (Inr (full1, k1), s1) \<Rightarrow> reserve_loop e ch required failed model full1 k1 s1)"

declare reserve_loop.simps [code]

definition acquireReservedAccountSelection ::
    "request_env \<Rightarrow> string \<Rightarrow> bool \<Rightarrow> int list \<Rightarrow> string \<Rightarrow> request_run \<Rightarrow> (reservation \<times> request_run) option" where
  "acquireReservedAccountSelection e ch required failed model s = reserve_loop e ch required failed model [] 0 s"

section \<open>What a request holds\<close>

text \<open>Reading the log: at most one slot at a time, freed by the one who took it.\<close>

fun slot_step :: "int option option \<Rightarrow> effect \<Rightarrow> int option option" where
  "slot_step (Some None) (SlotTaken i) = Some (Some i)"
| "slot_step (Some (Some j)) (SlotFreed i) = (if i = j then Some None else None)"
| "slot_step _ (SlotTaken i) = None"
| "slot_step _ (SlotFreed i) = None"
| "slot_step q _ = q"

definition slots :: "effect list \<Rightarrow> int option option" where
  "slots xs = foldl slot_step (Some None) xs"

definition slot_held :: "int \<Rightarrow> int option option" where
  "slot_held i = Some (if i = 0 then None else Some i)"

fun client_step :: "effect \<Rightarrow> int \<Rightarrow> int" where
  "client_step (ClientTaken i) j = (if i = j then 1 else 0)"
| "client_step (ClientFreed i) j = (if i = j then -1 else 0)"
| "client_step _ j = 0"

definition clients :: "effect list \<Rightarrow> int \<Rightarrow> int" where
  "clients xs j = sum_list (map (\<lambda>x. client_step x j) xs)"

definition holding :: "int \<Rightarrow> int \<Rightarrow> int" where
  "holding i j = (if i = j \<and> i \<noteq> 0 then 1 else 0)"

lemma slots_append [simp]: "slots (xs @ [x]) = slot_step (slots xs) x"
  by (simp add: slots_def)

lemma clients_append [simp]: "clients (xs @ [x]) j = clients xs j + client_step x j"
  by (simp add: clients_def)

lemma slot_held_zero [simp]: "slot_held 0 = Some None"
  by (simp add: slot_held_def)

lemma others_log [simp]: "rr_log (others_act e s) = rr_log s"
  by (simp add: others_act_def)

lemma logged_effect_log [simp]: "rr_log (logged_effect x s) = rr_log s @ [x]"
  by (simp add: logged_effect_def)

lemma select_log: "selectAccountRecordWithOptions e failed ch model s = (r, s') \<Longrightarrow> rr_log s' = rr_log s"
  by (auto simp: selectAccountRecordWithOptions_def Let_def split: prod.splits)

lemma release_log: "rr_log (releaseTrackedAccount i s) = rr_log s @ (if i = 0 then [] else [SlotFreed i])"
  by (simp add: releaseTrackedAccount_def Let_def logged_effect_def split: option.split)

lemma release_client_log: "rr_log (releaseClient i s) = rr_log s @ (if i = 0 then [] else [ClientFreed i])"
  by (simp add: releaseClient_def)

text \<open>The extra entries an account selection and a reservation leave, with what they mean for the slots and clients.\<close>

lemma selection_log:
  assumes "acquireAccountSelection e ch required ex model s = (r, s')"
  shows "rr_log s' = rr_log s @ (case r of Inr (acc, i) \<Rightarrow> (if i = 0 then [] else [ClientTaken i]) | Inl _ \<Rightarrow> [])"
proof -
  obtain q s1 where q: "selectAccountRecordWithOptions e ex ch model s = (q, s1)" by fastforce
  show ?thesis using assms select_log [OF q]
    by (cases q) (auto simp: acquireAccountSelection_def q takeClient_def split: if_splits)
qed

lemma slot_log:
  assumes "tryAcquireTrackedAccount acc s = ((i, ok), s')"
  shows "rr_log s' = rr_log s @ (if ok \<and> i \<noteq> 0 then [SlotTaken i] else [])" "\<not> ok \<Longrightarrow> i = 0"
  using assms by (auto simp: tryAcquireTrackedAccount_def Let_def split: option.splits if_splits prod.splits)

definition inert :: "effect list \<Rightarrow> bool" where
  "inert xs \<longleftrightarrow> list_all (\<lambda>x. case x of ClientTaken _ \<Rightarrow> True | ClientFreed _ \<Rightarrow> True | Paused _ \<Rightarrow> True | _ \<Rightarrow> False) xs"

lemma inert_slots: "inert xs \<Longrightarrow> slots (ys @ xs) = slots ys"
proof (induction xs rule: rev_induct)
  case (snoc x xs)
  then show ?case
    by (cases x; cases "slots ys"; cases "the (slots ys)") (auto simp: inert_def simp flip: append_assoc)
qed simp

text \<open>A step of the reservation: what the log gains.\<close>

definition reserved_log :: "reservation \<Rightarrow> effect list \<Rightarrow> bool" where
  "reserved_log r xs \<longleftrightarrow> (case r of
     Reserved acc client i \<Rightarrow> (\<exists>ys. xs = ys @ (if i = 0 then [] else [SlotTaken i]) \<and> inert ys \<and> clients xs = holding client)
   | No_slot _ \<Rightarrow> inert xs \<and> clients xs = (\<lambda>_. 0))"

lemma clients_Nil [simp]: "clients [] = (\<lambda>_. 0)"
  by (simp add: clients_def fun_eq_iff)

lemma clients_cat: "clients (xs @ ys) j = clients xs j + clients ys j"
  by (simp add: clients_def)

lemma reserve_step_log:
  assumes "reserve_step e ch required failed model full k s = (r, s')"
  shows "\<exists>xs. rr_log s' = rr_log s @ xs \<and> (case r of Inl q \<Rightarrow> reserved_log q xs | Inr _ \<Rightarrow> inert xs \<and> clients xs = (\<lambda>_. 0))"
proof -
  obtain q s1 where q: "acquireAccountSelection e ch required (failed @ full) model (others_act e s) = (q, s1)" by fastforce
  note l1 = selection_log [OF q]
  show ?thesis
  proof (cases q)
    case (Inl err)
    then show ?thesis using assms l1 q
      by (auto simp: reserve_step_def Let_def reserved_log_def inert_def clients_def fun_eq_iff split: if_splits)
  next
    case (Inr p)
    obtain acc client where p: "p = (acc, client)" by (cases p)
    obtain i ok s2 where t: "tryAcquireTrackedAccount acc (others_act e s1) = ((i, ok), s2)" by (metis prod.collapse)
    note l2 = slot_log [OF t]
    let ?c = "if client = 0 then [] else [ClientTaken client]" and ?f = "if client = 0 then [] else [ClientFreed client]"
    have log2: "rr_log s2 = rr_log s @ ?c @ (if ok \<and> i \<noteq> 0 then [SlotTaken i] else [])" using l1 l2 Inr p by simp
    have taken: "inert ?c" "clients ?c = holding client" by (auto simp: inert_def clients_def holding_def fun_eq_iff)
    have both: "inert (?c @ ?f)" "clients (?c @ ?f) = (\<lambda>_. 0)" by (auto simp: inert_def clients_def fun_eq_iff)
    show ?thesis
    proof (cases ok)
      case True
      then have "r = Inl (Reserved acc client i)" "s' = s2" using assms q Inr p t by (simp_all add: reserve_step_def)
      moreover have "reserved_log (Reserved acc client i) (?c @ (if i = 0 then [] else [SlotTaken i]))"
        unfolding reserved_log_def reservation.case using taken by (intro exI [of _ ?c]) (simp add: clients_cat fun_eq_iff clients_def)
      ultimately show ?thesis using log2 True by auto
    next
      case False
      then have "s' = releaseClient client s2" and r: "(\<exists>why. r = Inl (No_slot why)) \<or> (\<exists>x. r = Inr x)"
        using assms q Inr p t by (auto simp: reserve_step_def Let_def split: option.splits if_splits)
      then have "rr_log s' = rr_log s @ (?c @ ?f)" using log2 False by (simp add: release_client_log)
      then show ?thesis using r both by (auto simp: reserved_log_def)
    qed
  qed
qed

lemma reserve_loop_log:
  "reserve_loop e ch required failed model full k s = Some y \<Longrightarrow> \<exists>xs. rr_log (snd y) = rr_log s @ xs \<and> reserved_log (fst y) xs"
proof (erule reserve_loop.raw_induct [where P = "\<lambda>e ch required failed model full k s y. \<exists>xs. rr_log (snd y) = rr_log s @ xs \<and> reserved_log (fst y) xs", rotated])
  fix f :: "request_env \<Rightarrow> string \<Rightarrow> bool \<Rightarrow> int list \<Rightarrow> string \<Rightarrow> int list \<Rightarrow> nat \<Rightarrow> request_run \<Rightarrow> (reservation \<times> request_run) option"
    and e ch required failed model full k s y
  assume IH: "\<And>e ch required failed model full k s y. f e ch required failed model full k s = Some y \<Longrightarrow>
      \<exists>xs. rr_log (snd y) = rr_log s @ xs \<and> reserved_log (fst y) xs"
    and run: "(case reserve_step e ch required failed model full k s of (Inl r, s1) \<Rightarrow> Some (r, s1)
      | (Inr (full1, k1), s1) \<Rightarrow> f e ch required failed model full1 k1 s1) = Some y"
  obtain q s1 where q: "reserve_step e ch required failed model full k s = (q, s1)" by fastforce
  note l = reserve_step_log [OF q]
  show "\<exists>xs. rr_log (snd y) = rr_log s @ xs \<and> reserved_log (fst y) xs"
  proof (cases q)
    case (Inl x)
    have "y = (x, s1)" using run by (simp add: q Inl)
    then show ?thesis using l Inl by simp
  next
    case (Inr p)
    then obtain full1 k1 where p: "q = Inr (full1, k1)" by (cases p) auto
    from l p obtain xs where xs: "rr_log s1 = rr_log s @ xs" "inert xs" "clients xs = (\<lambda>_. 0)" by auto
    have "f e ch required failed model full1 k1 s1 = Some y" using run q p by simp
    from IH [OF this] obtain ys where ys: "rr_log (snd y) = rr_log s1 @ ys" "reserved_log (fst y) ys" by blast
    have "reserved_log (fst y) (xs @ ys)"
    proof (cases "fst y")
      case (Reserved acc client i)
      then obtain zs where "ys = zs @ (if i = 0 then [] else [SlotTaken i])" "inert zs" "clients ys = holding client"
        using ys(2) by (auto simp: reserved_log_def)
      then have "reserved_log (Reserved acc client i) (xs @ ys)" using xs(2,3) unfolding reserved_log_def reservation.case
        by (intro exI [of _ "xs @ zs"]) (simp add: inert_def clients_cat fun_eq_iff)
      then show ?thesis by (simp add: Reserved)
    next
      case (No_slot why)
      then show ?thesis using xs(2,3) ys(2) by (simp add: reserved_log_def inert_def clients_cat fun_eq_iff)
    qed
    then show ?thesis using xs(1) ys(1) by (intro exI [of _ "xs @ ys"]) simp
  qed
qed

lemma reservation_slots:
  assumes "reserved_log r xs" "slots ys = Some None"
  shows "slots (ys @ xs) = (case r of Reserved acc client i \<Rightarrow> slot_held i | No_slot _ \<Rightarrow> Some None)"
    "clients (ys @ xs) = (\<lambda>j. clients ys j + (case r of Reserved acc client i \<Rightarrow> holding client j | No_slot _ \<Rightarrow> 0))"
proof -
  show "slots (ys @ xs) = (case r of Reserved acc client i \<Rightarrow> slot_held i | No_slot _ \<Rightarrow> Some None)"
    using assms inert_slots [of _ ys] slots_append [of "ys @ _"]
    by (cases r) (auto simp: reserved_log_def slot_held_def)
  show "clients (ys @ xs) = (\<lambda>j. clients ys j + (case r of Reserved acc client i \<Rightarrow> holding client j | No_slot _ \<Rightarrow> 0))"
    using assms(1) by (cases r) (auto simp: reserved_log_def clients_cat fun_eq_iff)
qed

section \<open>The reservation ends\<close>

lemma reserve_step_cases:
  assumes "reserve_step e ch required failed model full k s = (Inr (full1, k1), s1)"
  shows "(full1 = [] \<and> k1 = k + 1 \<and> k < reservationRetries) \<or>
    (\<exists>a c t'. acquireAccountSelection e ch required (failed @ full) model (others_act e s) = (Inr (Some a, c), t') \<and> full1 = full @ [ID a] \<and> ID a \<notin> set full \<and> k1 = k)"
proof -
  obtain q s2 where q: "acquireAccountSelection e ch required (failed @ full) model (others_act e s) = (q, s2)" by fastforce
  show ?thesis
  proof (cases q)
    case (Inl err)
    then show ?thesis using assms q by (auto simp: reserve_step_def Let_def split: if_splits)
  next
    case (Inr p)
    obtain acc c where p: "q = Inr (acc, c)" using Inr by (cases p) simp
    obtain i ok s3 where t: "tryAcquireTrackedAccount acc (others_act e s2) = ((i, ok), s3)" by (metis prod.collapse)
    have "\<not> ok" using assms q p t by (cases ok) (auto simp: reserve_step_def)
    then obtain a where "acc = Some a" "full1 = full @ [ID a]" "ID a \<notin> set full" "k1 = k"
      using assms q p t by (auto simp: reserve_step_def Let_def split: option.splits if_splits)
    then show ?thesis using q p by blast
  qed
qed

text \<open>The points the loop comes to.\<close>

inductive reserve_path :: "request_env \<Rightarrow> string \<Rightarrow> bool \<Rightarrow> int list \<Rightarrow> string \<Rightarrow> request_run \<Rightarrow> int list \<Rightarrow> nat \<Rightarrow> request_run \<Rightarrow> bool"
  for e ch required failed model s0 where
  path_start: "reserve_path e ch required failed model s0 [] 0 s0"
| path_step: "reserve_path e ch required failed model s0 full k s \<Longrightarrow> reserve_step e ch required failed model full k s = (Inr (full1, k1), s1) \<Longrightarrow>
    reserve_path e ch required failed model s0 full1 k1 s1"

lemma reservation_ends:
  assumes "finite S" "\<And>full k t t' a c. reserve_path e ch required failed model s full k t \<Longrightarrow>
    acquireAccountSelection e ch required (failed @ full) model (others_act e t) = (Inr (Some a, c), t') \<Longrightarrow> ID a \<in> S"
  shows "\<exists>r s'. acquireReservedAccountSelection e ch required failed model s = Some (r, s')"
proof -
  let ?m = "measures [\<lambda>(full, k). reservationRetries - k, \<lambda>(full, k). card (S - set full)]"
  have "reserve_path e ch required failed model s full k t \<Longrightarrow> \<exists>r s'. reserve_loop e ch required failed model full k t = Some (r, s')" for full k t
  proof (induction "(full, k)" arbitrary: full k t rule: wf_induct_rule [OF wf_measures
      [of "[\<lambda>(full, k). reservationRetries - k, \<lambda>(full, k). card (S - set full)]"], case_names step])
    case (step full k t)
    obtain q s1 where q: "reserve_step e ch required failed model full k t = (q, s1)" by fastforce
    show ?case
    proof (cases q)
      case (Inl r)
      then show ?thesis using q by (simp add: reserve_loop.simps)
    next
      case (Inr p)
      obtain full1 k1 where p: "q = Inr (full1, k1)" using Inr by (cases p) simp
      have "((full1, k1), (full, k)) \<in> ?m"
        using reserve_step_cases [OF q [unfolded p]]
      proof (elim disjE exE conjE)
        fix a c t'
        assume "acquireAccountSelection e ch required (failed @ full) model (others_act e t) = (Inr (Some a, c), t')"
          and f: "full1 = full @ [ID a]" "ID a \<notin> set full" "k1 = k"
        then have "ID a \<in> S - set full" using assms(2) step.prems by blast
        then have "card (S - set full1) < card (S - set full)" using assms(1) f
          by (intro psubset_card_mono) auto
        then show ?thesis by (simp add: f(3))
      qed auto
      from step.hyps [OF this path_step [OF step.prems q [unfolded p]]] show ?thesis using q p by (simp add: reserve_loop.simps)
    qed
  qed
  from this [OF path_start] show ?thesis by (simp add: acquireReservedAccountSelection_def)
qed

text \<open>Property C15: reserving an account ends. As long as the accounts it is offered come from a finite pool, the loop gives a
  slot or a reason whatever the other requests do between its steps: an account whose slot was lost is not tried again in
  the same pass, and there are at most nine passes.\<close>

theorem reservation_returns:
  assumes "finite S" "\<And>full k t t' a c. reserve_path e ch required failed model s full k t \<Longrightarrow>
    acquireAccountSelection e ch required (failed @ full) model (others_act e t) = (Inr (Some a, c), t') \<Longrightarrow> ID a \<in> S"
  shows "\<exists>r s'. acquireReservedAccountSelection e ch required failed model s = Some (r, s')"
proof (rule reservation_ends [OF assms(1)])
  fix full k t t' a c
  assume "reserve_path e ch required failed model s full k t"
    "acquireAccountSelection e ch required (failed @ full) model (others_act e t) = (Inr (Some a, c), t')"
  then show "ID a \<in> S" by (rule assms(2))
qed

text \<open>A pool of one account, whose only slot another request takes between the selection and the reservation.\<close>

definition contested_env :: request_env where
  "contested_env = \<lparr>e_cipher = None, e_others = (\<lambda>k x. x\<lparr>gw_tracker := Some (if odd k then [1 \<mapsto> 1] else Map.empty)\<rparr>),
     e_now = (\<lambda>_. 50), e_random = (\<lambda>_. 0), e_cancelled = (\<lambda>_. False), e_default_client = False\<rparr>"

definition contested_run :: request_run where
  "contested_run = \<lparr>rr_world = \<lparr>gw_lb = sample_lb\<lparr>cachedAccounts := [zero_account\<lparr>ID := 1, AccountType := ''qoder'', Enabled := True, MaxConcurrent := 1\<rparr>]\<rparr>,
       gw_tracker = Some Map.empty, gw_models = example_models\<rparr>, rr_tick = 0, rr_log = []\<rparr>"

definition contested_second :: request_run where
  "contested_second = snd (reserve_step contested_env ''qoder'' True [] [] [] 0 contested_run)"

lemma contested_steps:
  "fst (reserve_step contested_env ''qoder'' True [] [] [] 0 contested_run) = Inr ([1], 0)"
  "case fst (reserve_step contested_env ''qoder'' True [] [] [1] 0 contested_second) of Inl _ \<Rightarrow> True | Inr _ \<Rightarrow> False"
  "case fst (acquireAccountSelection contested_env ''qoder'' True [1] [] (others_act contested_env contested_second)) of Inl _ \<Rightarrow> True | Inr _ \<Rightarrow> False"
  "case fst (acquireAccountSelection contested_env ''qoder'' True [] [] (others_act contested_env contested_run)) of
     Inr (Some a, c) \<Rightarrow> ID a = 1 | _ \<Rightarrow> False"
  by code_simp+

theorem reservation_returns_witness:
  "\<exists>r s'. acquireReservedAccountSelection contested_env ''qoder'' True [] [] contested_run = Some (r, s')"
proof (rule reservation_returns [of "{1}"])
  have s1: "reserve_step contested_env ''qoder'' True [] [] [] 0 contested_run = (Inr ([1], 0), contested_second)"
    using contested_steps(1) by (simp add: contested_second_def prod_eq_iff)
  have stop: "reserve_step contested_env ''qoder'' True [] [] [1] 0 contested_second \<noteq> (Inr x, t)" for x t
    using contested_steps(2) by (metis fst_conv sum.case(2))
  have path: "full = [] \<and> k = 0 \<and> t = contested_run \<or> full = [1] \<and> k = 0 \<and> t = contested_second"
    if "reserve_path contested_env ''qoder'' True [] [] contested_run full k t" for full k t
    using that by (induction rule: reserve_path.induct) (use s1 stop in auto)
  fix full k t t' a c
  assume p: "reserve_path contested_env ''qoder'' True [] [] contested_run full k t"
    and a: "acquireAccountSelection contested_env ''qoder'' True ([] @ full) [] (others_act contested_env t) = (Inr (Some a, c), t')"
  show "ID a \<in> {1}"
  proof (cases "full = []")
    case True
    then show ?thesis using path [OF p] a contested_steps(4) by simp
  next
    case False
    then show ?thesis using path [OF p] a contested_steps(3) by simp
  qed
qed simp

end
