(* ===== verification/Retry_Policy.thy ===== *)
theory Retry_Policy
  imports Error_Classify Channel
begin

text \<open>
  How long a failed attempt waits before the next one, and on what it waits (the pure part of
  \<^verbatim>\<open>src/internal/handler/handler_helpers.go\<close>). Durations are integers; the products below stay far inside 64 bits for
  every configured delay under a day. The fractions of the early probes are exact in a double, because a hint is at most
  thirty seconds and every fraction is a multiple of a sixteenth.
\<close>

section \<open>Delays\<close>

text \<open>The hint an error carries, if its chain holds one.\<close>

definition upstreamRetryAfter :: "duration option \<Rightarrow> duration" where
  "upstreamRetryAfter hint = (case hint of
     None \<Rightarrow> 0
   | Some delay \<Rightarrow> if delay \<le> 0 then 0 else if delay > 30 * second then 30 * second else delay)"

definition computeRetryDelay :: "duration \<Rightarrow> int \<Rightarrow> string \<Rightarrow> duration" where
  "computeRetryDelay base attempt0 category =
     (if base \<le> 0 then 0
      else let attempt = (let a = (if attempt0 < 1 then 1 else attempt0) in if a > 4 then 4 else a);
               d1 = base * 2 ^ nat (attempt - 1);
               d2 = (if category = ''rate_limit'' \<and> d1 < 2 * second then 2 * second else d1)
           in if d2 > 30 * second then 30 * second else d2)"

definition shouldRetryCurrentAccountWhenNoAlternative :: "string \<Rightarrow> bool" where
  "shouldRetryCurrentAccountWhenNoAlternative category \<longleftrightarrow>
     TrimSpace category \<in> {''network'', ''timeout'', ''server'', ''model_unavailable'', ''unknown''}"

section \<open>Refusals every account shares\<close>

definition isSharedUpstreamRefusalClass :: "UpstreamErrorClass \<Rightarrow> bool" where
  "isSharedUpstreamRefusalClass cls \<longleftrightarrow> \<not> ec_SwitchAccount cls \<and>
     ec_Category cls \<in> {''rate_limit'', ''upstream_unavailable'', ''upstream_queue''}"

definition sharedRefusalTotalWaitBudget :: duration where "sharedRefusalTotalWaitBudget = 60 * second"

definition sharedRefusalEdgeSafeCeiling :: duration where "sharedRefusalEdgeSafeCeiling = 60 * second"

definition SharedRefusalWaitBudget :: "int \<Rightarrow> duration" where
  "SharedRefusalWaitBudget configuredMs =
     (if configuredMs \<le> 0 then sharedRefusalTotalWaitBudget
      else let budget = configuredMs * millisecond in if budget < second then second else budget)"

definition SharedRefusalBudgetExceedsEdge :: "duration \<Rightarrow> bool" where
  "SharedRefusalBudgetExceedsEdge budget \<longleftrightarrow> budget > sharedRefusalEdgeSafeCeiling"

definition sharedRefusalWaitAllowedWithin :: "duration \<Rightarrow> duration \<Rightarrow> duration \<Rightarrow> bool" where
  "sharedRefusalWaitAllowedWithin already next_wait budget0 =
     (if next_wait \<le> 0 then False
      else let budget = (if budget0 \<le> 0 then sharedRefusalTotalWaitBudget else budget0) in already + next_wait \<le> budget)"

text \<open>The early probes: a sixteenth, a quarter and three quarters of the hint, then the hint; at least a second, at most
  the hint.\<close>

definition sharedRefusalWait :: "duration \<Rightarrow> int \<Rightarrow> duration" where
  "sharedRefusalWait hint retry =
     (if hint \<le> 0 then 0
      else let probe = (if retry = 1 then hint div 16 else if retry = 2 then hint div 4 else if retry = 3 then (3 * hint) div 4 else hint);
               w1 = (if probe < second then second else probe)
           in if w1 > hint then hint else w1)"

definition sharedRefusalWaitForChannel :: "duration \<Rightarrow> int \<Rightarrow> string \<Rightarrow> int \<Rightarrow> duration" where
  "sharedRefusalWaitForChannel hint retry ch qoderIntervalMs =
     (if EqualFold (TrimSpace ch) ''qoder'' then
        (if hint \<le> 0 then 0
         else if qoderIntervalMs > 0 then
           let ms = (if qoderIntervalMs > 86400000 then 86400000 else qoderIntervalMs); interval = ms * millisecond
           in if interval < second then second else interval
         else hint)
      else sharedRefusalWait hint retry)"

text \<open>The jitter is drawn below its bound; the draw is an argument.\<close>

definition jitter_bound :: "duration \<Rightarrow> duration" where
  "jitter_bound delay = (if delay \<le> 0 then 0 else let j = delay div 5 in if j > 5 * second then 5 * second else j)"

definition sharedRefusalJitter :: "nat \<Rightarrow> duration \<Rightarrow> duration" where
  "sharedRefusalJitter r delay = (if jitter_bound delay \<le> 0 then 0 else int r mod jitter_bound delay)"

definition sharedRefusalSleepForChannel :: "nat \<Rightarrow> duration \<Rightarrow> string \<Rightarrow> int \<Rightarrow> duration" where
  "sharedRefusalSleepForChannel r wait ch qoderIntervalMs =
     (if qoderIntervalMs > 0 \<and> EqualFold (TrimSpace ch) ''qoder'' then wait else wait + sharedRefusalJitter r wait)"

section \<open>Bounds\<close>

lemma retry_after_bounds: "0 \<le> upstreamRetryAfter h" "upstreamRetryAfter h \<le> 30 * second"
  by (auto simp: upstreamRetryAfter_def split: option.split)

lemma retry_delay_bounds: "0 \<le> computeRetryDelay base attempt category" "computeRetryDelay base attempt category \<le> 30 * second"
  by (auto simp: computeRetryDelay_def Let_def)

lemma shared_wait_positive: "0 < hint \<Longrightarrow> 0 < sharedRefusalWaitForChannel hint retry ch q"
  by (auto simp: sharedRefusalWaitForChannel_def sharedRefusalWait_def Let_def)

lemma jitter_bounds: "0 \<le> sharedRefusalJitter r d" "0 \<le> d \<Longrightarrow> 5 * sharedRefusalJitter r d \<le> d"
proof -
  show "0 \<le> sharedRefusalJitter r d" by (simp add: sharedRefusalJitter_def)
  show "5 * sharedRefusalJitter r d \<le> d" if "0 \<le> d"
  proof (cases "jitter_bound d \<le> 0")
    case False
    then have "int r mod jitter_bound d < jitter_bound d" by simp
    then have "5 * (int r mod jitter_bound d) \<le> 5 * jitter_bound d" by linarith
    also have "\<dots> \<le> d" using that by (auto simp: jitter_bound_def Let_def)
    finally show ?thesis using False by (simp add: sharedRefusalJitter_def)
  qed (use that in \<open>simp add: sharedRefusalJitter_def\<close>)
qed

lemma shared_sleep_bounds:
  assumes "0 \<le> wait"
  shows "wait \<le> sharedRefusalSleepForChannel r wait ch q" "5 * sharedRefusalSleepForChannel r wait ch q \<le> 6 * wait"
  using jitter_bounds(1) [of r wait] jitter_bounds(2) [OF assms, of r] assms by (auto simp: sharedRefusalSleepForChannel_def)

lemma budget_positive: "0 < SharedRefusalWaitBudget ms"
  by (auto simp: SharedRefusalWaitBudget_def sharedRefusalTotalWaitBudget_def Let_def)

lemma allowed_within: "sharedRefusalWaitAllowedWithin already n budget \<Longrightarrow> 0 < budget \<Longrightarrow> already + n \<le> budget"
  by (auto simp: sharedRefusalWaitAllowedWithin_def Let_def split: if_splits)

text \<open>The waits of the early probes on a channel without its own interval never shrink, and from the fourth on they are the
  whole hint.\<close>

lemma probes_grow:
  assumes "1 \<le> i" "i \<le> j"
  shows "sharedRefusalWait hint i \<le> sharedRefusalWait hint j \<and> sharedRefusalWait hint j \<le> max 0 hint"
proof -
  have "hint div 16 \<le> hint div 4" "hint div 4 \<le> (3 * hint) div 4" "(3 * hint) div 4 \<le> hint" if "0 < hint" using that by linarith+
  then show ?thesis using assms by (auto simp: sharedRefusalWait_def Let_def)
qed

end
