(* ===== verification/Token_Estimator.thy ===== *)
theory Token_Estimator
  imports Sse_Wire
begin

text \<open>
  The token estimator of the relay (\<^verbatim>\<open>src/internal/tiktoken/tokenizer.go\<close>): a counting machine fed one fragment
  of the answer at a time. The running count is kept in half tokens, the unit of its 1.5-token step, so the
  floating-point sums of the code are exact integers here (they are exact in the code below \<open>2 ^ 51\<close> tokens).
\<close>

section \<open>The machine\<close>

datatype byte_class = classWord | classSpace | classPunct | classNonASCII

definition asciiClass :: "char \<Rightarrow> byte_class" where
  "asciiClass c =
     (let b = byte c in
      if b \<ge> 0x80 then classNonASCII
      else if (97 \<le> b \<and> b \<le> 122) \<or> (65 \<le> b \<and> b \<le> 90) \<or> (48 \<le> b \<and> b \<le> 57) then classWord
      else if b = 32 \<or> b = 9 \<or> b = 10 \<or> b = 13 then classSpace
      else classPunct)"

record Estimator =
  est_halves :: nat
  est_inWord :: bool

definition est_zero :: Estimator where
  "est_zero = \<lparr>est_halves = 0, est_inWord = False\<rparr>"

text \<open>A word run that ends is one token.\<close>

definition close_word :: "Estimator \<Rightarrow> Estimator" where
  "close_word e = (if est_inWord e then e\<lparr>est_halves := est_halves e + 2, est_inWord := False\<rparr> else e)"

function Add :: "Estimator \<Rightarrow> string \<Rightarrow> Estimator" where
  "Add e [] = e"
| "Add e (c # cs) = (case asciiClass c of
     classWord \<Rightarrow> Add (e\<lparr>est_inWord := True\<rparr>) (dropWhile (\<lambda>d. asciiClass d = classWord) cs)
   | classSpace \<Rightarrow> Add (close_word e) cs
   | classPunct \<Rightarrow> Add (let e = close_word e in e\<lparr>est_halves := est_halves e + 2\<rparr>) cs
   | classNonASCII \<Rightarrow>
       Add (let e = close_word e in e\<lparr>est_halves := est_halves e + 3\<rparr>) (drop (snd (DecodeRune (c # cs))) (c # cs)))"
  by pat_completeness auto
termination
proof (relation "measure (length \<circ> snd)")
  fix e :: Estimator and c cs
  show "((e\<lparr>est_inWord := True\<rparr>, dropWhile (\<lambda>d. asciiClass d = classWord) cs), e, c # cs) \<in> measure (length \<circ> snd)"
    by (simp add: length_dropWhile_le le_imp_less_Suc)
  show "((let e = close_word e in e\<lparr>est_halves := est_halves e + 3\<rparr>, drop (snd (DecodeRune (c # cs))) (c # cs)), e, c # cs)
      \<in> measure (length \<circ> snd)"
    using DecodeRune_size [of "c # cs", OF surjective_pairing] by simp
qed auto

definition Count :: "Estimator \<Rightarrow> nat" where
  "Count e = (est_halves e + (if est_inWord e then 2 else 0) + 1) div 2"

definition Reset :: "Estimator \<Rightarrow> Estimator" where
  "Reset e = e\<lparr>est_halves := 0, est_inWord := False\<rparr>"

definition EstimateTextTokens :: "string \<Rightarrow> nat" where
  "EstimateTextTokens txt = (if txt = [] then 0 else Count (Add est_zero txt))"

section \<open>Fragments\<close>

lemma asciiClass_ascii: "asciiClass c \<noteq> classNonASCII \<longleftrightarrow> byte c < 0x80"
  by (auto simp: asciiClass_def Let_def)

lemma skip_run: "list_all (\<lambda>d. asciiClass d = classWord) w \<Longrightarrow> est_inWord e \<Longrightarrow> Add e (w @ t) = Add e t"
proof (induction w)
  case (Cons d w)
  have u: "e\<lparr>est_inWord := True\<rparr> = e" using Cons.prems(2) by (cases e) simp
  have "dropWhile (\<lambda>d. asciiClass d = classWord) (w @ t) = dropWhile (\<lambda>d. asciiClass d = classWord) t"
    using Cons.prems(1) by (simp add: dropWhile_append list_all_iff)
  then have "Add e ((d # w) @ t) = Add e (dropWhile (\<lambda>d. asciiClass d = classWord) t)"
    using Cons.prems(1) by (simp add: u)
  moreover have "Add e t = Add e (dropWhile (\<lambda>d. asciiClass d = classWord) t)"
    by (cases t) (simp_all add: u)
  ultimately show ?case by simp
qed simp

text \<open>The fast word loop steps over a run exactly as a byte-by-byte reading would.\<close>

lemma Add_word: "asciiClass c = classWord \<Longrightarrow> Add e (c # t) = Add (e\<lparr>est_inWord := True\<rparr>) t"
proof -
  assume c: "asciiClass c = classWord"
  let ?w = "takeWhile (\<lambda>d. asciiClass d = classWord) t"
  have "list_all (\<lambda>d. asciiClass d = classWord) ?w" by (auto simp: list_all_iff dest: set_takeWhileD)
  from skip_run [OF this, of "e\<lparr>est_inWord := True\<rparr>" "dropWhile (\<lambda>d. asciiClass d = classWord) t"]
  show ?thesis using c by simp
qed

lemma Add_append:
  "valid_utf8 a \<Longrightarrow> Add e (a @ b) = Add (Add e a) b"
proof (induction "length a" arbitrary: a e rule: less_induct)
  case less
  show ?case
  proof (cases a)
    case (Cons c cs)
    show ?thesis
    proof (cases "byte c < 0x80")
      case True
      then have v: "valid_utf8 cs" using less.prems valid_utf8_ascii [of a] Cons by simp
      then have ih: "Add e' (cs @ b) = Add (Add e' cs) b" for e' using less.hyps [of cs] Cons by simp
      have "asciiClass c \<noteq> classNonASCII" using True asciiClass_ascii by simp
      then show ?thesis using Cons ih by (cases "asciiClass c") (simp_all add: Add_word del: Add.simps(2), simp_all)
    next
      case False
      obtain r sz where d: "DecodeRune a = (r, sz)" by fastforce
      have ok: "\<not> (r = RuneError \<and> sz = 1)" "valid_utf8 (drop sz a)"
        using less.prems d Cons valid_utf8.simps [of a] by auto
      have da: "DecodeRune (a @ b) = (r, sz)" using DecodeRune_append [OF d ok(1)] Cons by simp
      have sz: "0 < sz" "sz \<le> length a" using DecodeRune_size [OF d] DecodeRune_bytes(1) [OF d] Cons False by auto
      have cl: "asciiClass c = classNonASCII" using False asciiClass_ascii by blast
      let ?e = "let e = close_word e in e\<lparr>est_halves := est_halves e + 3\<rparr>"
      have "Add e (a @ b) = Add ?e (drop sz (a @ b))" using Cons cl da by simp
      also have "drop sz (a @ b) = drop sz a @ b" using sz by simp
      also have "Add ?e (drop sz a @ b) = Add (Add ?e (drop sz a)) b" by (rule less.hyps) (use ok sz Cons in auto)
      also have "Add ?e (drop sz a) = Add e a" using Cons cl d by simp
      finally show ?thesis .
    qed
  qed simp
qed


lemma Add_fragments: "list_all valid_utf8 fs \<Longrightarrow> Add e (concat fs) = foldl Add e fs"
  by (induction fs arbitrary: e) (simp_all add: Add_append)

text \<open>The estimate of a streamed answer does not depend on how the upstream cut it: feeding the fragments
  one by one gives the estimate of the whole text, as long as no fragment ends inside a character.\<close>

theorem streaming_estimate_exact:
  assumes "list_all valid_utf8 fs"
  shows "Count (foldl Add est_zero fs) = EstimateTextTokens (concat fs)"
proof (cases "concat fs = []")
  case True
  then have "foldl Add est_zero fs = est_zero" using Add_fragments [OF assms, of est_zero] unfolding True by simp
  then show ?thesis using True by (simp add: EstimateTextTokens_def Count_def est_zero_def)
next
  case False
  then show ?thesis using Add_fragments [OF assms, of est_zero] unfolding EstimateTextTokens_def by metis
qed

theorem streaming_estimate_exact_witness:
  "Count (foldl Add est_zero [''hel'', ''lo, '', [CHR 0xE4, CHR 0xBD, CHR 0xA0]]) =
     EstimateTextTokens (concat [''hel'', ''lo, '', [CHR 0xE4, CHR 0xBD, CHR 0xA0]])"
  by (rule streaming_estimate_exact) code_simp

text \<open>A character cut between two fragments is counted once per byte.\<close>

lemma split_character_overcounted:
  "Count (foldl Add est_zero [[CHR 0xE4], [CHR 0xBD, CHR 0xA0]]) = 5 \<and> EstimateTextTokens [CHR 0xE4, CHR 0xBD, CHR 0xA0] = 2"
  by code_simp

end
