(* ===== verification/Openai_Chunk.thy ===== *)
theory Openai_Chunk
  imports Json
begin

text \<open>
  The adapter that turns an event of the relay into a chat-completion chunk
  (\<^verbatim>\<open>src/internal/adapter/openai_sse.go\<close>): a fast path that cuts the string literals it needs out of the
  event's bytes and a slow path that decodes them.
\<close>

section \<open>Fast path\<close>

definition appendOpenAIJSONString :: "string \<Rightarrow> string \<Rightarrow> string" where
  "appendOpenAIJSONString dst v =
     (if list_ex (\<lambda>c. byte c < 0x20 \<or> c = CHR 0x5C \<or> c = CHR 0x22 \<or> byte c \<ge> 0x80) v
      then dst @ json_Marshal_string v else dst @ [CHR 0x22] @ v @ [CHR 0x22])"

definition normalizeOpenAIStopReasonQuoted :: "string \<Rightarrow> string" where
  \<open>normalizeOpenAIStopReasonQuoted q =
     (if q = [] \<or> q = ''""'' \<or> q = ''"stop"'' \<or> q = ''"end_turn"'' then ''"stop"''
      else if q = ''"tool_use"'' then ''"tool_calls"''
      else if q = ''"max_tokens"'' then ''"length"''
      else if q = ''"refusal"'' then ''"content_filter"''
      else q)\<close>

definition normalizeOpenAIStopReason :: "string \<Rightarrow> string" where
  "normalizeOpenAIStopReason reason =
     (let r = TrimSpace reason in
      if r = '''' \<or> r = ''stop'' \<or> r = ''end_turn'' then ''stop''
      else if r = ''tool_use'' then ''tool_calls''
      else if r = ''max_tokens'' then ''length''
      else if r = ''refusal'' then ''content_filter''
      else r)"

text \<open>The bytes up to the closing quote, from behind the opening one.\<close>

fun quoted_span :: "bool \<Rightarrow> string \<Rightarrow> string option" where
  "quoted_span escaped [] = None"
| "quoted_span escaped (c # cs) =
     (if escaped then map_option ((#) c) (quoted_span False cs)
      else if c = CHR 0x5C then map_option ((#) c) (quoted_span True cs)
      else if c = CHR 0x22 then Some [c]
      else map_option ((#) c) (quoted_span False cs))"

definition extractJSONStringValueAfter :: "string \<Rightarrow> string \<Rightarrow> string option" where
  "extractJSONStringValueAfter dat marker = (case Index dat marker of
     None \<Rightarrow> None
   | Some i \<Rightarrow> (case skip_ws (drop (i + length marker) dat) of
       [] \<Rightarrow> None
     | c # cs \<Rightarrow> if c \<noteq> CHR 0x22 then None else map_option ((#) c) (quoted_span False cs)))"

definition appendOpenAIChunkPrefix :: "string \<Rightarrow> string \<Rightarrow> int \<Rightarrow> string \<Rightarrow> string" where
  \<open>appendOpenAIChunkPrefix dst msgID created quotedModel =
     AppendInt (appendOpenAIJSONString (dst @ ''{"id":'') msgID @ '',"object":"chat.completion.chunk","created":'') created
       @ '',"model":'' @ (if quotedModel \<noteq> [] then quotedModel else ''""'') @ '',"choices":[{"index":0,''\<close>

definition appendOpenAIChunkMessageStart :: "string \<Rightarrow> string \<Rightarrow> int \<Rightarrow> string \<Rightarrow> string" where
  \<open>appendOpenAIChunkMessageStart dst msgID created quotedModel =
     appendOpenAIChunkPrefix dst msgID created quotedModel @ ''"delta":{"role":"assistant"}}]}''\<close>

definition appendOpenAIChunkText :: "string \<Rightarrow> string \<Rightarrow> int \<Rightarrow> string \<Rightarrow> string" where
  \<open>appendOpenAIChunkText dst msgID created quotedText =
     appendOpenAIChunkPrefix dst msgID created [] @ ''"delta":{"content":'' @ quotedText @ ''}}]}''\<close>

definition appendOpenAIChunkThinking :: "string \<Rightarrow> string \<Rightarrow> int \<Rightarrow> string \<Rightarrow> string" where
  \<open>appendOpenAIChunkThinking dst msgID created quotedThinking =
     appendOpenAIChunkPrefix dst msgID created [] @ ''"delta":{"reasoning_content":'' @ quotedThinking @ ''}}]}''\<close>

definition appendOpenAIChunkToolArgs :: "string \<Rightarrow> string \<Rightarrow> int \<Rightarrow> int \<Rightarrow> string \<Rightarrow> string" where
  \<open>appendOpenAIChunkToolArgs dst msgID created index quotedArgs =
     AppendInt (appendOpenAIChunkPrefix dst msgID created [] @ ''"delta":{"tool_calls":[{"index":'') index
       @ '',"function":{"arguments":'' @ quotedArgs @ ''}}]}}]}''\<close>

definition appendOpenAIChunkToolStart :: "string \<Rightarrow> string \<Rightarrow> int \<Rightarrow> int \<Rightarrow> string \<Rightarrow> string \<Rightarrow> string" where
  \<open>appendOpenAIChunkToolStart dst msgID created index quotedID quotedName =
     AppendInt (appendOpenAIChunkPrefix dst msgID created [] @ ''"delta":{"tool_calls":[{"index":'') index
       @ '',"id":'' @ quotedID @ '',"type":"function","function":{"name":'' @ quotedName @ '',"arguments":""}}]}}]}''\<close>

definition appendOpenAIChunkMessageDelta :: "string \<Rightarrow> string \<Rightarrow> int \<Rightarrow> string \<Rightarrow> string" where
  \<open>appendOpenAIChunkMessageDelta dst msgID created quotedStopReason =
     appendOpenAIChunkPrefix dst msgID created [] @ ''"delta":{},"finish_reason":'' @ quotedStopReason @ ''}]}''\<close>

definition openAIToolIndex :: "string \<Rightarrow> int option" where
  "openAIToolIndex dat = (case json_decode dat of
     None \<Rightarrow> None
   | Some v \<Rightarrow> (case members v of
       None \<Rightarrow> None
     | Some fs \<Rightarrow> (case dec_int fs ''index'' of
         None \<Rightarrow> None
       | Some i \<Rightarrow> if i < 0 then None else Some i)))"

definition appendOpenAIChunkFast :: "string \<Rightarrow> string \<Rightarrow> int \<Rightarrow> string \<Rightarrow> string \<Rightarrow> string option" where
  \<open>appendOpenAIChunkFast dst msgID created event dat =
     (if event = ''message_start'' then
        map_option (appendOpenAIChunkMessageStart dst msgID created) (extractJSONStringValueAfter dat ''"model":'')
      else if event = ''content_block_start'' then
        (let text_start = (if Contains dat ''"type":"text"'' then
               (case extractJSONStringValueAfter dat ''"text":'' of
                  Some q \<Rightarrow> if length q > 2 then Some (appendOpenAIChunkText dst msgID created q) else None
                | None \<Rightarrow> None) else None) in
         if Contains dat ''"type":"tool_use"'' then
           (case (extractJSONStringValueAfter dat ''"id":'', extractJSONStringValueAfter dat ''"name":'') of
              (Some qid, Some qname) \<Rightarrow>
                map_option (\<lambda>i. appendOpenAIChunkToolStart dst msgID created i qid qname) (openAIToolIndex dat)
            | _ \<Rightarrow> text_start)
         else text_start)
      else if event = ''content_block_delta'' then
        (if Contains dat ''"type":"text_delta"'' then
           map_option (appendOpenAIChunkText dst msgID created) (extractJSONStringValueAfter dat ''"text":'')
         else if Contains dat ''"type":"input_json_delta"'' then
           (case extractJSONStringValueAfter dat ''"partial_json":'' of
              None \<Rightarrow> None
            | Some q \<Rightarrow> map_option (\<lambda>i. appendOpenAIChunkToolArgs dst msgID created i q) (openAIToolIndex dat))
         else if Contains dat ''"type":"thinking_delta"'' then
           map_option (appendOpenAIChunkThinking dst msgID created) (extractJSONStringValueAfter dat ''"thinking":'')
         else None)
      else if event = ''message_delta'' then
        map_option (\<lambda>q. appendOpenAIChunkMessageDelta dst msgID created (normalizeOpenAIStopReasonQuoted q))
          (extractJSONStringValueAfter dat ''"stop_reason":'')
      else None)\<close>


section \<open>Slow path\<close>

record openAIToolCall =
  tc_Index :: int
  tc_ID :: string
  tc_Type :: string
  tc_Name :: "string option"
  tc_Arguments :: string

record openAIDelta =
  od_Role :: "string option"
  od_Content :: "string option"
  od_ReasoningContent :: "string option"
  od_ToolCalls :: "openAIToolCall list"

definition no_delta :: openAIDelta where
  "no_delta = \<lparr>od_Role = None, od_Content = None, od_ReasoningContent = None, od_ToolCalls = []\<rparr>"

definition delta_empty :: "openAIDelta \<Rightarrow> bool" where
  "delta_empty d \<longleftrightarrow> od_Role d = None \<and> od_Content d = None \<and> od_ReasoningContent d = None \<and> od_ToolCalls d = []"

abbreviation quoted :: "string \<Rightarrow> string" where "quoted \<equiv> json_Marshal_string"

definition tool_call_text :: "openAIToolCall \<Rightarrow> string" where
  \<open>tool_call_text t =
     ''{'' @ join '','' (
       [''"index":'' @ AppendInt [] (tc_Index t)]
       @ (if tc_ID t = [] then [] else [''"id":'' @ quoted (tc_ID t)])
       @ (if tc_Type t = [] then [] else [''"type":'' @ quoted (tc_Type t)])
       @ [''"function":{'' @ join '','' ((case tc_Name t of None \<Rightarrow> [] | Some n \<Rightarrow> [''"name":'' @ quoted n])
            @ [''"arguments":'' @ quoted (tc_Arguments t)]) @ ''}'']) @ ''}''\<close>

definition delta_text :: "openAIDelta \<Rightarrow> string" where
  \<open>delta_text d =
     ''{'' @ join '','' (
       (case od_Role d of None \<Rightarrow> [] | Some r \<Rightarrow> [''"role":'' @ quoted r])
       @ (case od_Content d of None \<Rightarrow> [] | Some r \<Rightarrow> [''"content":'' @ quoted r])
       @ (case od_ReasoningContent d of None \<Rightarrow> [] | Some r \<Rightarrow> [''"reasoning_content":'' @ quoted r])
       @ (if od_ToolCalls d = [] then [] else [''"tool_calls":['' @ join '','' (map tool_call_text (od_ToolCalls d)) @ '']''])) @ ''}''\<close>

definition chunk_text :: "string \<Rightarrow> int \<Rightarrow> string \<Rightarrow> openAIDelta \<Rightarrow> string option \<Rightarrow> string" where
  \<open>chunk_text msgID created model d finish =
     ''{"id":'' @ quoted msgID @ '',"object":"chat.completion.chunk","created":'' @ AppendInt [] created
       @ '',"model":'' @ quoted model @ '',"choices":[{"index":0,"delta":'' @ delta_text d
       @ (case finish of None \<Rightarrow> [] | Some f \<Rightarrow> '',"finish_reason":'' @ quoted f) @ ''}]}''\<close>

text \<open>The decoded event: the model, the delta and the finish reason, or \<^const>\<open>None\<close> where the code gives up.\<close>

definition slow_message_start :: "(string \<times> json) list \<Rightarrow> (string \<times> openAIDelta \<times> string option) option" where
  "slow_message_start fs = (case dec_struct_ptr fs ''message'' of
     Some (Some m) \<Rightarrow>
       if dec_string (seen_members fs ''message'') ''model'' = None then None
       else map_option (\<lambda>model. (model, no_delta\<lparr>od_Role := Some ''assistant''\<rparr>, None)) (dec_string m ''model'')
   | _ \<Rightarrow> None)"

definition block_errors :: "(string \<times> json) list \<Rightarrow> bool" where
  "block_errors g \<longleftrightarrow> list_ex (\<lambda>k. dec_string g k = None) [''type'', ''text'', ''id'', ''name'']"

definition slow_block_start :: "(string \<times> json) list \<Rightarrow> (string \<times> openAIDelta \<times> string option) option" where
  "slow_block_start fs = (case (dec_int fs ''index'', dec_struct_ptr fs ''content_block'') of
     (Some index, Some (Some b)) \<Rightarrow>
       if block_errors (seen_members fs ''content_block'') \<or> index < 0 then None
       else let str = (\<lambda>k. the (dec_string b k)) in
         if str ''type'' = ''text'' then
           Some ([], (if str ''text'' \<noteq> [] then no_delta\<lparr>od_Content := Some (str ''text'')\<rparr> else no_delta), None)
         else if str ''type'' = ''tool_use'' then
           Some ([], no_delta\<lparr>od_ToolCalls := [\<lparr>tc_Index = index, tc_ID = str ''id'', tc_Type = ''function'',
             tc_Name = Some (str ''name''), tc_Arguments = []\<rparr>]\<rparr>, None)
         else None
   | _ \<Rightarrow> None)"

definition delta_errors :: "(string \<times> json) list \<Rightarrow> bool" where
  "delta_errors g \<longleftrightarrow> dec_string g ''type'' = None \<or> list_ex (\<lambda>k. dec_string_ptr g k = None) [''text'', ''partial_json'', ''thinking'']"

definition slow_block_delta :: "(string \<times> json) list \<Rightarrow> (string \<times> openAIDelta \<times> string option) option" where
  "slow_block_delta fs = (case (dec_int fs ''index'', dec_struct_ptr fs ''delta'') of
     (Some index, Some (Some d)) \<Rightarrow>
       if delta_errors (seen_members fs ''delta'') \<or> index < 0 then None
       else let ptr = (\<lambda>k. the (dec_string_ptr d k)); ty = the (dec_string d ''type'') in
         if ty = ''text_delta'' then map_option (\<lambda>t. ([], no_delta\<lparr>od_Content := Some t\<rparr>, None)) (ptr ''text'')
         else if ty = ''input_json_delta'' then
           map_option (\<lambda>t. ([], no_delta\<lparr>od_ToolCalls := [\<lparr>tc_Index = index, tc_ID = [], tc_Type = [], tc_Name = None, tc_Arguments = t\<rparr>]\<rparr>, None))
             (ptr ''partial_json'')
         else if ty = ''thinking_delta'' then map_option (\<lambda>t. ([], no_delta\<lparr>od_ReasoningContent := Some t\<rparr>, None)) (ptr ''thinking'')
         else None
   | _ \<Rightarrow> None)"

definition slow_message_delta :: "(string \<times> json) list \<Rightarrow> (string \<times> openAIDelta \<times> string option) option" where
  "slow_message_delta fs = (case dec_struct_ptr fs ''delta'' of
     Some (Some d) \<Rightarrow>
       if dec_string_ptr (seen_members fs ''delta'') ''stop_reason'' = None then None
       else map_option (\<lambda>r. ([], no_delta, Some (normalizeOpenAIStopReason r))) (the (dec_string_ptr d ''stop_reason''))
   | _ \<Rightarrow> None)"

definition buildOpenAIChunkSlow :: "string \<Rightarrow> int \<Rightarrow> string \<Rightarrow> string \<Rightarrow> string option" where
  "buildOpenAIChunkSlow msgID created event dat =
     (let choice = (case json_decode dat of
            None \<Rightarrow> None
          | Some v \<Rightarrow> (case members v of
              None \<Rightarrow> None
            | Some fs \<Rightarrow>
                if event = ''message_start'' then slow_message_start fs
                else if event = ''content_block_start'' then slow_block_start fs
                else if event = ''content_block_delta'' then slow_block_delta fs
                else if event = ''message_delta'' then slow_message_delta fs
                else None))
      in case choice of
           None \<Rightarrow> None
         | Some (model, d, finish) \<Rightarrow>
             if delta_empty d \<and> finish = None then None else Some (chunk_text msgID created model d finish))"

definition AppendOpenAIChunk :: "string \<Rightarrow> string \<Rightarrow> int \<Rightarrow> string \<Rightarrow> string \<Rightarrow> string option" where
  "AppendOpenAIChunk dst msgID created event dat = (case appendOpenAIChunkFast dst msgID created event dat of
     Some raw \<Rightarrow> Some raw
   | None \<Rightarrow> map_option ((@) dst) (buildOpenAIChunkSlow msgID created event dat))"

definition DetectResponseFormat_openai :: "string \<Rightarrow> bool" where
  "DetectResponseFormat_openai path = Contains path ''/chat/completions''"


section \<open>Cutting literals out of an event\<close>

definition after :: "string \<Rightarrow> string \<Rightarrow> string option" where
  "after s p = map_option (\<lambda>i. drop (i + length p) s) (Index s p)"

lemma after_skip: "\<not> HasPrefix (c # s) p \<Longrightarrow> after (c # s) p = after s p"
  by (simp add: after_def option.map_comp comp_def)

lemma after_Cons: "after (c # s) p = (if HasPrefix (c # s) p then Some (drop (length p) (c # s)) else after s p)"
  by (simp add: after_def option.map_comp comp_def)

lemma after_Nil: "p \<noteq> [] \<Longrightarrow> after [] p = None"
  by (simp add: after_def)

lemma after_free: "CHR 0x22 \<notin> set w \<Longrightarrow> after (w @ t) (CHR 0x22 # p) = after t (CHR 0x22 # p)"
  by (induction w) (auto simp: after_skip)

lemma Contains_after: "Contains s p \<longleftrightarrow> after s p \<noteq> None"
  using Index_None_iff [of s p] by (auto simp: after_def)

lemma quoted_span_quotes:
  "quoted_span e s = Some u \<Longrightarrow> k < length u - 1 \<Longrightarrow> s ! k = CHR 0x22 \<Longrightarrow> (k = 0 \<and> e) \<or> (0 < k \<and> s ! (k - 1) = CHR 0x5C)"
proof (induction s arbitrary: e u k)
  case (Cons c cs)
  show ?case
  proof (cases k)
    case 0
    then show ?thesis using Cons.prems by (auto split: if_splits)
  next
    case (Suc j)
    let ?e = "\<not> e \<and> c = CHR 0x5C"
    obtain u' where u: "quoted_span ?e cs = Some u'" "u = c # u'"
      using Cons.prems(1,2) Suc by (auto split: if_splits)
    then have "(j = 0 \<and> ?e) \<or> (0 < j \<and> cs ! (j - 1) = CHR 0x5C)"
      using Cons.IH [OF u(1), of j] Cons.prems(2,3) Suc by simp
    then show ?thesis using Suc by (auto simp: nth_Cons')
  qed
qed simp

lemma span_plain:
  "list_all (\<lambda>c. c \<noteq> CHR 0x22 \<and> c \<noteq> CHR 0x5C) p \<Longrightarrow> quoted_span False (p @ t) = map_option (\<lambda>u. p @ u) (quoted_span False t)"
proof (induction p)
  case Nil
  then show ?case by (cases "quoted_span False t") auto
next
  case (Cons c p)
  then show ?case by (cases "quoted_span False t") auto
qed

lemma span_pair: "quoted_span False (CHR 0x5C # c # t) = map_option (\<lambda>u. CHR 0x5C # c # u) (quoted_span False t)"
  by (cases "quoted_span False t") simp_all

lemma hex_plain_table:
  "list_all (\<lambda>b. list_all (\<lambda>c. c \<noteq> CHR 0x22 \<and> c \<noteq> CHR 0x5C) [hex_digit (b div 16), hex_digit (b mod 16)]) (map int [0..<256])"
  by code_simp

lemma span_escape_byte:
  assumes "0 \<le> b" "b < 256"
  shows "quoted_span False (escape_byte b @ t) = map_option (\<lambda>u. escape_byte b @ u) (quoted_span False t)"
proof -
  have h: "quoted_span False ([CHR ''0'', CHR ''0'', hex_digit (b div 16), hex_digit (b mod 16)] @ t) =
      map_option (\<lambda>u. [CHR ''0'', CHR ''0'', hex_digit (b div 16), hex_digit (b mod 16)] @ u) (quoted_span False t)"
    by (rule span_plain) (use all_bytes [OF hex_plain_table assms] in simp)
  show ?thesis
    using h by (cases "quoted_span False t") (auto simp: escape_byte_def span_pair)
qed

lemma span_marshal: "quoted_span False (marshal_body s @ CHR 0x22 # t) = Some (marshal_body s @ [CHR 0x22])"
proof (induction s rule: marshal_body.induct)
  case (1 s)
  show ?case
  proof (cases "s = [] \<or> byte (hd s) < 0x80")
    case True
    show ?thesis
    proof (cases s)
      case Nil
      then show ?thesis by (simp add: marshal_body.simps [of "[]"])
    next
      case (Cons c cs)
      then have ih: "quoted_span False (marshal_body cs @ CHR 0x22 # t) = Some (marshal_body cs @ [CHR 0x22])"
        using True 1 by auto
      show ?thesis
        using True Cons ih span_escape_byte [of "byte c" "marshal_body cs @ CHR 0x22 # t"] byte_range [of c]
        by (auto simp: marshal_body.simps [of "c # cs"] must_escape_def)
    qed
  next
    case False
    obtain r sz where d: "DecodeRune s = (r, sz)" by fastforce
    have ih: "quoted_span False (marshal_body (drop sz s) @ CHR 0x22 # t) = Some (marshal_body (drop sz s) @ [CHR 0x22])"
      using "1.IH"(2) False d by simp
    have "list_all (\<lambda>c. c \<noteq> CHR 0x22 \<and> c \<noteq> CHR 0x5C) (take sz s)"
    proof -
      have "0x80 \<le> byte c \<Longrightarrow> c \<noteq> CHR 0x22 \<and> c \<noteq> CHR 0x5C" for c by auto
      then show ?thesis using DecodeRune_bytes [OF d] False by (auto simp: list_all_length)
    qed
    from span_plain [OF this, of "marshal_body (drop sz s) @ CHR 0x22 # t"] show ?thesis
      using False d ih by (auto simp: marshal_body.simps [of s] span_pair)
  qed
qed

lemma span_literal: "quoted_span False (tl (json_Marshal_string v) @ t) = Some (tl (json_Marshal_string v))"
  using span_marshal [of v t] by (simp add: json_Marshal_string_def)

text \<open>A field marker, a quoted name and a colon, does not begin inside a literal that is not followed by a colon.\<close>

lemma after_literal:
  assumes "w \<noteq> []" "CHR 0x22 \<notin> set w" "CHR 0x5C \<notin> set w" "c \<noteq> CHR '':''" "c \<notin> set w"
  shows "after (json_Marshal_string v @ c # t) (CHR 0x22 # w @ CHR 0x22 # CHR '':'' # z) = after (c # t) (CHR 0x22 # w @ CHR 0x22 # CHR '':'' # z)"
proof -
  let ?p = "CHR 0x22 # w @ CHR 0x22 # CHR '':'' # z" and ?b = "marshal_body v"
  have q: "0 < k \<and> ?b ! (k - 1) = CHR 0x5C" if "k < length ?b" "?b ! k = CHR 0x22" for k
    using quoted_span_quotes [OF span_marshal [of v t], of k] that by (auto simp: nth_append split: if_splits)
  have no: "\<not> HasPrefix (CHR 0x22 # drop k ?b @ CHR 0x22 # c # t) ?p" if "k \<le> length ?b" for k
  proof
    assume "HasPrefix (CHR 0x22 # drop k ?b @ CHR 0x22 # c # t) ?p"
    then obtain y where y: "drop k ?b @ CHR 0x22 # c # t = w @ CHR 0x22 # CHR '':'' # z @ y"
      by (auto simp: HasPrefix_iff)
    consider "length w < length (drop k ?b)" | "length w = length (drop k ?b)" | "length w > length (drop k ?b)" by linarith
    then show False
    proof cases
      case 1
      have "drop k ?b ! length w = (drop k ?b @ CHR 0x22 # c # t) ! length w" using 1 by (simp add: nth_append)
      then have e: "?b ! (k + length w) = CHR 0x22" using 1 unfolding y by simp
      have l: "length w - 1 < length (drop k ?b)" using 1 by linarith
      then have "drop k ?b ! (length w - 1) = (drop k ?b @ CHR 0x22 # c # t) ! (length w - 1)" by (simp add: nth_append)
      moreover have "k + length w - 1 = k + (length w - 1)" using assms(1) by (cases w) simp_all
      ultimately have "?b ! (k + length w - 1) = w ! (length w - 1)" using 1 assms(1) unfolding y by (simp add: nth_append)
      moreover have "w ! (length w - 1) \<in> set w" using assms(1) by simp
      ultimately show False using q [of "k + length w"] e 1 assms(3) by auto
    next
      case 2
      then show False using y assms(4) by simp
    next
      case 3
      have "w ! length (drop k ?b) = (w @ CHR 0x22 # CHR '':'' # z @ y) ! length (drop k ?b)" using 3 by (simp add: nth_append)
      then have "w ! length (drop k ?b) = CHR 0x22" unfolding y [symmetric] by (simp add: nth_append)
      then show False using 3 assms(2) by (metis nth_mem)
    qed
  qed
  have inner: "after (drop k ?b @ CHR 0x22 # c # t) ?p = after (CHR 0x22 # c # t) ?p" if "k \<le> length ?b" for k
    using that
  proof (induction "length ?b - k" arbitrary: k)
    case (Suc n)
    then have d: "drop k ?b = ?b ! k # drop (Suc k) ?b" by (simp add: Cons_nth_drop_Suc)
    have "\<not> HasPrefix (?b ! k # drop (Suc k) ?b @ CHR 0x22 # c # t) ?p"
      using no [of "Suc k"] Suc by (cases "?b ! k = CHR 0x22") auto
    then show ?case unfolding d using Suc by (simp add: after_skip)
  qed simp
  have "\<not> HasPrefix (CHR 0x22 # c # t) ?p" using assms(1,5) by (cases w) auto
  then have "after (CHR 0x22 # c # t) ?p = after (c # t) ?p" by (rule after_skip)
  then show ?thesis
    using no [of 0] inner [of 0] by (simp add: json_Marshal_string_def after_skip)
qed

lemma extract_hit:
  "after dat m = Some (json_Marshal_string v @ t) \<Longrightarrow> extractJSONStringValueAfter dat m = Some (json_Marshal_string v)"
  using span_literal [of v t] by (auto simp: after_def extractJSONStringValueAfter_def json_Marshal_string_def json_space_def)


lemma show_nat_no_quote: "CHR 0x22 \<notin> set (show_nat n)"
proof -
  have "\<not> is_digit (CHR 0x22)" by code_simp
  then show ?thesis using show_nat_digits [of n] by (auto simp: list_all_iff)
qed

lemma payload_ints: "AppendInt dst n = dst @ AppendInt [] n" "CHR 0x22 \<notin> set (AppendInt [] n)"
  by (simp_all add: AppendInt_def show_nat_no_quote)

lemmas after_int = after_free [OF payload_ints(2)]

lemmas marker_literals =
  after_literal [of "''model''" _ _ _ "[]", simplified] after_literal [of "''text''" _ _ _ "[]", simplified]
  after_literal [of "''thinking''" _ _ _ "[]", simplified] after_literal [of "''partial_json''" _ _ _ "[]", simplified]
  after_literal [of "''id''" _ _ _ "[]", simplified] after_literal [of "''name''" _ _ _ "[]", simplified]
  after_literal [of "''stop_reason''" _ _ _ "[]", simplified] after_literal [of "''type''", simplified]

lemmas payload_text = payload_builders appendJSONBytes_is_json payload_ints(1) [of "_ # _"]

lemmas after_eval = payload_text after_Cons after_int after_Nil marker_literals

lemma after_payload:
  "after (payload (MessageStart mid model a b)) ''\"model\":'' = Some (json_Marshal_string model @ '',\"usage\":{\"input_tokens\":'' @ AppendInt [] a @ '',\"output_tokens\":'' @ AppendInt [] b @ ''}}}'')"
  "after (payload (DeltaText i t)) ''\"type\":\"text_delta\"'' \<noteq> None"
  "after (payload (DeltaText i t)) ''\"text\":'' = Some (json_Marshal_string t @ ''}}'')"
  "after (payload (DeltaThinking i t)) ''\"type\":\"text_delta\"'' = None"
  "after (payload (DeltaThinking i t)) ''\"type\":\"input_json_delta\"'' = None"
  "after (payload (DeltaThinking i t)) ''\"type\":\"thinking_delta\"'' \<noteq> None"
  "after (payload (DeltaThinking i t)) ''\"thinking\":'' = Some (json_Marshal_string t @ ''}}'')"
  "after (payload (DeltaInputJSON i t)) ''\"type\":\"text_delta\"'' = None"
  "after (payload (DeltaInputJSON i t)) ''\"type\":\"input_json_delta\"'' \<noteq> None"
  "after (payload (DeltaInputJSON i t)) ''\"partial_json\":'' = Some (json_Marshal_string t @ ''}}'')"
  "after (payload (MessageDelta r n)) ''\"stop_reason\":'' = Some (json_Marshal_string r @ ''},\"usage\":{\"output_tokens\":'' @ AppendInt [] n @ ''}}'')"
  "after (payload (BlockStartText i)) ''\"type\":\"tool_use\"'' = None"
  "after (payload (BlockStartText i)) ''\"text\":'' = Some ''\"\"}}''"
  "after (payload (BlockStartThinking i sig)) ''\"type\":\"tool_use\"'' = None"
  "after (payload (BlockStartThinking i sig)) ''\"type\":\"text\"'' = None"
  "after (payload (BlockStartToolUse i tid name)) ''\"type\":\"tool_use\"'' \<noteq> None"
  "after (payload (BlockStartToolUse i tid name)) ''\"id\":'' = Some (json_Marshal_string tid @ '',\"name\":'' @ json_Marshal_string name @ '',\"input\":{}}}'')"
  "after (payload (BlockStartToolUse i tid name)) ''\"name\":'' = Some (json_Marshal_string name @ '',\"input\":{}}}'')"
  by (simp_all add: after_eval)


section \<open>The index of a tool block\<close>

lemma pv_object: "parse_value (Suc n) (Suc d) (CHR ''{'' # CHR 0x22 # r) = parse_members n d (CHR 0x22 # r) []"
  by (simp add: json_space_def)

lemma pv_empty: "parse_value (Suc n) (Suc d) (CHR ''{'' # CHR ''}'' # r) = Some (JObj [], r)"
  by (simp add: json_space_def)

lemma pv_string: "parse_value (Suc n) d (CHR 0x22 # r) = map_option (apfst JStr) (scan_str r)"
  by (simp add: json_space_def)

lemma pv_literal: "parse_value (Suc n) d (json_Marshal_string v @ t) = Some (JStr (sanitized v), t)"
  by (simp add: json_Marshal_string_def pv_string scan_marshal del: parse_value.simps)

lemma digit_not_json: "is_digit c \<Longrightarrow> \<not> json_space c \<and> c \<noteq> CHR 0x22 \<and> c \<noteq> CHR ''['' \<and> c \<noteq> CHR ''{''"
  by (auto simp: is_digit_def json_space_def Let_def)

lemma pv_int:
  assumes "0 \<le> i" "i < 2 ^ 63" "\<not> num_char c"
  shows "parse_value (Suc n) d (AppendInt [] i @ c # t) = Some (JNum (show_nat (nat i)), c # t)"
proof -
  have n: "nat i < 2 ^ 63" using assms by (metis nat_less_numeral_power_cancel_iff)
  obtain b bs where s: "show_nat (nat i) = b # bs" "is_digit b" by (rule show_nat_cases)
  show ?thesis
    using scan_number_show [OF n assms(3), of t] digit_not_json [OF s(2)] assms(1) by (simp add: AppendInt_def s(1))
qed

lemma scan_end: "scan_str (CHR 0x22 # t) = Some ([], t)"
  by (subst scan_str.simps) simp

lemma pm_member: "parse_members (Suc n) d (CHR 0x22 # qs) acc = (case scan_str qs of
    None \<Rightarrow> None
  | Some (k, r1) \<Rightarrow> (case skip_ws r1 of
      [] \<Rightarrow> None
    | e # es \<Rightarrow>
      if e \<noteq> CHR '':'' then None
      else (case parse_value n d es of
        None \<Rightarrow> None
      | Some (v, r) \<Rightarrow> (case skip_ws r of
          [] \<Rightarrow> None
        | c # cs \<Rightarrow> if c = CHR '','' then parse_members n d cs (acc @ [(k, v)])
                   else if c = CHR ''}'' then Some (JObj (acc @ [(k, v)]), cs) else None))))"
  by (simp add: json_space_def)

lemma num_char_ends: "\<not> num_char (CHR '','')" "\<not> num_char (CHR ''}'')"
  by code_simp+

lemmas parse_eval = pv_object pv_empty pv_literal pv_string pv_int num_char_ends pm_member scan_end
  scan_clean clean_byte_def must_escape_def json_space_def

lemma parse_input_delta:
  assumes "0 \<le> i" "i < 2 ^ 63"
  shows "parse_value (Suc (Suc (Suc (Suc (Suc (Suc (Suc (Suc n)))))))) (Suc (Suc d)) (payload (DeltaInputJSON i t)) =
    Some (JObj [(''type'', JStr ''content_block_delta''), (''index'', JNum (show_nat (nat i))),
      (''delta'', JObj [(''type'', JStr ''input_json_delta''), (''partial_json'', JStr (sanitized t))])], [])"
  using assms by (simp add: payload_text parse_eval del: parse_value.simps parse_members.simps)

lemma parse_tool_start:
  assumes "0 \<le> i" "i < 2 ^ 63"
  shows "parse_value (Suc (Suc (Suc (Suc (Suc (Suc (Suc (Suc (Suc (Suc n)))))))))) (Suc (Suc (Suc d))) (payload (BlockStartToolUse i tid name)) =
    Some (JObj [(''type'', JStr ''content_block_start''), (''index'', JNum (show_nat (nat i))),
      (''content_block'', JObj [(''type'', JStr ''tool_use''), (''id'', JStr (sanitized tid)), (''name'', JStr (sanitized name)),
        (''input'', JObj [])])], [])"
  using assms by (simp add: payload_text parse_eval del: parse_value.simps parse_members.simps)


lemma parse_block_start:
  assumes "0 \<le> i" "i < 2 ^ 63"
  shows "parse_value (Suc (Suc (Suc (Suc (Suc (Suc (Suc (Suc (Suc (Suc n)))))))))) (Suc (Suc (Suc d))) (payload (BlockStartText i)) =
      Some (JObj [(''type'', JStr ''content_block_start''), (''index'', JNum (show_nat (nat i))),
        (''content_block'', JObj [(''type'', JStr ''text''), (''text'', JStr [])])], [])"
    "parse_value (Suc (Suc (Suc (Suc (Suc (Suc (Suc (Suc (Suc (Suc n)))))))))) (Suc (Suc (Suc d))) (payload (BlockStartThinking i sig)) =
      Some (JObj [(''type'', JStr ''content_block_start''), (''index'', JNum (show_nat (nat i))),
        (''content_block'', JObj [(''type'', JStr ''thinking''), (''thinking'', JStr []), (''signature'', JStr (sanitized sig))])], [])"
  using assms by (simp_all add: payload_text parse_eval del: parse_value.simps parse_members.simps)

lemma json_decode_parse:
  assumes "\<And>n d. parse_value (Suc (Suc (Suc (Suc (Suc (Suc (Suc (Suc (Suc (Suc (Suc (Suc (Suc (Suc n)))))))))))))) (Suc (Suc (Suc (Suc d)))) s = Some (v, [])"
  shows "json_decode s = Some v"
proof -
  have d: "maxNestingDepth = Suc (Suc (Suc (Suc 9996)))" by (simp add: maxNestingDepth_def)
  have "parse_value (2 * length s + 2) maxNestingDepth s = parse_value (Suc (Suc (Suc (Suc (Suc (Suc (Suc (Suc (Suc (Suc (Suc (Suc (Suc (Suc (2 * length s))))))))))))))) maxNestingDepth s"
    by (rule json_decode_bound [symmetric]) simp
  also have "\<dots> = Some (v, [])" unfolding d by (rule assms)
  finally show ?thesis by (simp add: json_decode_def)
qed

lemma decoded_payloads:
  assumes "0 \<le> i" "i < 2 ^ 63"
  shows "json_decode (payload (DeltaInputJSON i t)) = Some (JObj [(''type'', JStr ''content_block_delta''), (''index'', JNum (show_nat (nat i))),
      (''delta'', JObj [(''type'', JStr ''input_json_delta''), (''partial_json'', JStr (sanitized t))])])"
    "json_decode (payload (BlockStartToolUse i tid name)) = Some (JObj [(''type'', JStr ''content_block_start''), (''index'', JNum (show_nat (nat i))),
      (''content_block'', JObj [(''type'', JStr ''tool_use''), (''id'', JStr (sanitized tid)), (''name'', JStr (sanitized name)),
        (''input'', JObj [])])])"
    "json_decode (payload (BlockStartText i)) = Some (JObj [(''type'', JStr ''content_block_start''), (''index'', JNum (show_nat (nat i))),
        (''content_block'', JObj [(''type'', JStr ''text''), (''text'', JStr [])])])"
    "json_decode (payload (BlockStartThinking i sig)) = Some (JObj [(''type'', JStr ''content_block_start''), (''index'', JNum (show_nat (nat i))),
        (''content_block'', JObj [(''type'', JStr ''thinking''), (''thinking'', JStr []), (''signature'', JStr (sanitized sig))])])"
  by (rule json_decode_parse, rule parse_input_delta [OF assms]) (rule json_decode_parse, rule parse_tool_start [OF assms] parse_block_start [OF assms])+

lemma number_index: "0 \<le> i \<Longrightarrow> i < 2 ^ 63 \<Longrightarrow> number_Int64 (show_nat (nat i)) = Some i"
  using number_Int64_show [of "nat i"] by (simp add: in_int64_def)

lemma index_field:
  "EqualFold ''type'' ''index'' = False" "EqualFold ''delta'' ''index'' = False" "EqualFold ''content_block'' ''index'' = False"
  by code_simp+

lemma openAIToolIndex_payload:
  assumes "0 \<le> i" "i < 2 ^ 63"
  shows "openAIToolIndex (payload (DeltaInputJSON i t)) = Some i" "openAIToolIndex (payload (BlockStartToolUse i tid name)) = Some i"
  using assms
  by (simp_all add: openAIToolIndex_def decoded_payloads members_def dec_int_def field_values_def index_field number_index del: payload.simps)

text \<open>The index an event carries.\<close>

fun index_of :: "sse_event \<Rightarrow> int" where
  "index_of (BlockStartText i) = i"
| "index_of (BlockStartThinking i _) = i"
| "index_of (BlockStartToolUse i _ _) = i"
| "index_of (DeltaText i _) = i"
| "index_of (DeltaThinking i _) = i"
| "index_of (DeltaInputJSON i _) = i"
| "index_of (BlockStop i) = i"
| "index_of _ = 0"

text \<open>The chunk an event becomes: the literal of the event's own string in the place OpenAI clients read it.\<close>

fun chunk_of :: "string \<Rightarrow> int \<Rightarrow> sse_event \<Rightarrow> string option" where
  "chunk_of m c (MessageStart _ model _ _) = Some (appendOpenAIChunkMessageStart [] m c (json_Marshal_string model))"
| "chunk_of m c (BlockStartToolUse i tid name) = Some (appendOpenAIChunkToolStart [] m c i (json_Marshal_string tid) (json_Marshal_string name))"
| "chunk_of m c (DeltaText _ t) = Some (appendOpenAIChunkText [] m c (json_Marshal_string t))"
| "chunk_of m c (DeltaThinking _ t) = Some (appendOpenAIChunkThinking [] m c (json_Marshal_string t))"
| "chunk_of m c (DeltaInputJSON i t) = Some (appendOpenAIChunkToolArgs [] m c i (json_Marshal_string t))"
| "chunk_of m c (MessageDelta r _) = Some (appendOpenAIChunkMessageDelta [] m c (normalizeOpenAIStopReasonQuoted (json_Marshal_string r)))"
| "chunk_of m c _ = None"

lemmas extracted =
  extract_hit [OF after_payload(1)] extract_hit [OF after_payload(3)] extract_hit [OF after_payload(7)]
  extract_hit [OF after_payload(10)] extract_hit [OF after_payload(11)] extract_hit [OF after_payload(17)] extract_hit [OF after_payload(18)]

lemma empty_text_start: "extractJSONStringValueAfter (payload (BlockStartText i)) ''\"text\":'' = Some ''\"\"''"
  using extract_hit [of "payload (BlockStartText i)" "''\"text\":''" "[]" "''}}''"] after_payload(13)
  by (simp add: json_Marshal_string_def marshal_body.simps [of "[]"])

lemma slow_nothing:
  assumes "0 \<le> i" "i < 2 ^ 63"
  shows "buildOpenAIChunkSlow m c ''content_block_start'' (payload (BlockStartText i)) = None"
    "buildOpenAIChunkSlow m c ''content_block_start'' (payload (BlockStartThinking i sig)) = None"
proof -
  have f: "EqualFold ''content_block'' ''content_block''" "\<not> EqualFold ''type'' ''content_block''" "\<not> EqualFold ''index'' ''content_block''"
    "\<not> EqualFold ''text'' ''type''" "\<not> EqualFold ''type'' ''text''" "\<not> EqualFold ''thinking'' ''type''" "\<not> EqualFold ''signature'' ''type''"
    by code_simp+
  show "buildOpenAIChunkSlow m c ''content_block_start'' (payload (BlockStartText i)) = None"
    using assms f
    by (simp add: buildOpenAIChunkSlow_def decoded_payloads members_def slow_block_start_def dec_int_def dec_struct_ptr_def
        dec_string_def field_values_def index_field number_index no_delta_def delta_empty_def Let_def del: payload.simps)
  show "buildOpenAIChunkSlow m c ''content_block_start'' (payload (BlockStartThinking i sig)) = None"
    using assms f
    by (simp add: buildOpenAIChunkSlow_def decoded_payloads members_def slow_block_start_def dec_int_def dec_struct_ptr_def
        dec_string_def field_values_def index_field number_index Let_def del: payload.simps)
qed

lemma AppendOpenAIChunk_event:
  assumes "0 \<le> index_of e" "index_of e < 2 ^ 63"
  shows "AppendOpenAIChunk [] m c (event_name e) (payload e) = chunk_of m c e"
proof (cases e)
  case (BlockStartText i)
  have "appendOpenAIChunkFast [] m c ''content_block_start'' (payload (BlockStartText i)) = None"
    using empty_text_start [of i] by (simp add: appendOpenAIChunkFast_def Contains_after after_payload del: payload.simps)
  then show ?thesis using slow_nothing assms BlockStartText by (simp add: AppendOpenAIChunk_def del: payload.simps)
next
  case (BlockStartThinking i sig)
  have "appendOpenAIChunkFast [] m c ''content_block_start'' (payload (BlockStartThinking i sig)) = None"
    by (simp add: appendOpenAIChunkFast_def Contains_after after_payload del: payload.simps)
  then show ?thesis using slow_nothing assms BlockStartThinking by (simp add: AppendOpenAIChunk_def del: payload.simps)
qed (use assms in \<open>auto simp: AppendOpenAIChunk_def appendOpenAIChunkFast_def buildOpenAIChunkSlow_def Contains_after after_payload
  extracted openAIToolIndex_payload simp del: payload.simps split: option.splits\<close>)




section \<open>What an OpenAI client reads\<close>

lemma scan_raw: "list_all (\<lambda>c. \<not> (byte c < 0x20 \<or> c = CHR 0x5C \<or> c = CHR 0x22 \<or> byte c \<ge> 0x80)) v \<Longrightarrow>
    scan_str (v @ CHR 0x22 # t) = Some (v, t)"
proof (induction v)
  case (Cons c v)
  then show ?case by (subst append_Cons, subst scan_str.simps) auto
qed (simp add: scan_end)

lemma raw_valid: "list_all (\<lambda>c. byte c < 0x80) v \<Longrightarrow> sanitized v = v"
proof (induction v)
  case Nil
  show ?case by (subst sanitized.simps) simp
next
  case (Cons c v)
  then show ?case using sanitized_ascii [of "c # v"] by simp
qed

lemma pv_quoted: "parse_value (Suc n) d (appendOpenAIJSONString [] v @ t) = Some (JStr (sanitized v), t)"
proof (cases "list_ex (\<lambda>c. byte c < 0x20 \<or> c = CHR 0x5C \<or> c = CHR 0x22 \<or> byte c \<ge> 0x80) v")
  case True
  then show ?thesis by (simp add: appendOpenAIJSONString_def pv_literal del: parse_value.simps)
next
  case False
  then have a: "list_all (\<lambda>c. \<not> (byte c < 0x20 \<or> c = CHR 0x5C \<or> c = CHR 0x22 \<or> byte c \<ge> 0x80)) v"
    by (auto simp: list_ex_iff list_all_iff)
  moreover have "sanitized v = v" by (rule raw_valid) (use a in \<open>unfold list_all_iff, meson not_le\<close>)
  ultimately show ?thesis using False by (simp add: appendOpenAIJSONString_def pv_string scan_raw del: parse_value.simps)
qed

lemma appendOpenAIJSONString_flat: "appendOpenAIJSONString dst v = dst @ appendOpenAIJSONString [] v"
  by (simp add: appendOpenAIJSONString_def)

lemma pv_array: "parse_value (Suc n) (Suc d) (CHR ''['' # CHR ''{'' # r) = parse_elems n d (CHR ''{'' # r) []"
  by (simp add: json_space_def)

lemma pv_zero: "parse_value (Suc n) d (CHR ''0'' # CHR '','' # t) = Some (JNum ''0'', CHR '','' # t)"
  using pv_int [of 0 "CHR '',''" n d t] num_char_ends(1) digit_facts(3) [of 0]
  by (simp add: AppendInt_def show_nat.simps [of 0] del: parse_value.simps)

lemma chunk_prefix_flat: "appendOpenAIChunkPrefix [] m c [] =
    CHR ''{'' # CHR 0x22 # CHR ''i'' # CHR ''d'' # CHR 0x22 # CHR '':'' # appendOpenAIJSONString [] m @
    (CHR '','' # CHR 0x22 # ''object'' @ CHR 0x22 # CHR '':'' # CHR 0x22 # ''chat.completion.chunk'' @ CHR 0x22 # CHR '','' #
     CHR 0x22 # ''created'' @ CHR 0x22 # CHR '':'' # AppendInt [] c @
    (CHR '','' # CHR 0x22 # ''model'' @ CHR 0x22 # CHR '':'' # CHR 0x22 # CHR 0x22 # CHR '','' # CHR 0x22 # ''choices'' @ CHR 0x22 # CHR '':'' #
     CHR ''['' # CHR ''{'' # CHR 0x22 # ''index'' @ CHR 0x22 # CHR '':'' # CHR ''0'' # CHR '','' # []))"
  by (simp add: appendOpenAIChunkPrefix_def appendOpenAIJSONString_flat [of "_ # _"] payload_ints(1) [of "_ # _"] AppendInt_def)

lemma parse_text_chunk:
  assumes "0 \<le> c" "c < 2 ^ 63"
  shows "parse_value (Suc (Suc (Suc (Suc (Suc (Suc (Suc (Suc (Suc (Suc (Suc (Suc (Suc (Suc n)))))))))))))) (Suc (Suc (Suc (Suc d)))) (appendOpenAIChunkText [] m c (json_Marshal_string t)) =
    Some (JObj [(''id'', JStr (sanitized m)), (''object'', JStr ''chat.completion.chunk''), (''created'', JNum (show_nat (nat c))),
      (''model'', JStr []), (''choices'', JArr [JObj [(''index'', JNum ''0''), (''delta'', JObj [(''content'', JStr (sanitized t))])]])], [])"
  using assms
  by (simp add: appendOpenAIChunkText_def chunk_prefix_flat parse_eval pv_quoted pv_array pv_zero del: parse_value.simps(2) parse_members.simps)


text \<open>A text delta of the relay reaches an OpenAI client as a chunk that decodes to exactly that text, in the
  field the client concatenates.\<close>

theorem openai_text_delivered:
  assumes "0 \<le> i" "i < 2 ^ 63" "0 \<le> c" "c < 2 ^ 63"
  shows "\<exists>raw. AppendOpenAIChunk [] m c (event_name (DeltaText i t)) (payload (DeltaText i t)) = Some raw \<and>
    json_decode raw = Some (JObj [(''id'', JStr (sanitized m)), (''object'', JStr ''chat.completion.chunk''), (''created'', JNum (show_nat (nat c))),
      (''model'', JStr []), (''choices'', JArr [JObj [(''index'', JNum ''0''), (''delta'', JObj [(''content'', JStr (sanitized t))])]])])"
  using AppendOpenAIChunk_event [of "DeltaText i t" m c] assms(1,2) json_decode_parse [OF parse_text_chunk [OF assms(3,4), of _ _ m t]] by simp


theorem openai_text_delivered_witness:
  "\<exists>raw. AppendOpenAIChunk [] ''chatcmpl-1'' 1700000000 (event_name (DeltaText 3 ''<b>'')) (payload (DeltaText 3 ''<b>'')) = Some raw \<and>
    json_decode raw = Some (JObj [(''id'', JStr (sanitized ''chatcmpl-1'')), (''object'', JStr ''chat.completion.chunk''),
      (''created'', JNum (show_nat (nat 1700000000))), (''model'', JStr []),
      (''choices'', JArr [JObj [(''index'', JNum ''0''), (''delta'', JObj [(''content'', JStr (sanitized ''<b>''))])]])])"
  by (rule openai_text_delivered) simp_all

end
