(* ===== verification/Tool_Name.thy ===== *)
theory Tool_Name
  imports Json
begin

text \<open>
  The tool vocabulary (\<^verbatim>\<open>src/internal/toolname/toolname.go\<close>): the table that folds the names upstreams use onto the
  canonical ones, the reading of a client's tool definitions and the search for the client's own name of a tool.
\<close>

section \<open>Canonical names\<close>

definition normalizedToolNameFallbacks :: "(string \<times> string) list" where
  "normalizedToolNameFallbacks =
    [(''str_replace_editor'', ''Edit''), (''edit'', ''Edit''), (''apply_file_diffs'', ''Edit''), (''view'', ''Read''),
     (''readfile'', ''Read''), (''read_file'', ''Read''), (''read_files'', ''Read''), (''read'', ''Read''),
     (''listdir'', ''Glob''), (''list_dir'', ''Glob''), (''list_directory'', ''Glob''), (''ls'', ''Glob''),
     (''globtool'', ''Glob''), (''glob'', ''Glob''), (''find_files'', ''Glob''), (''file_glob'', ''Glob''),
     (''file_glob_v2'', ''Glob''), (''ripgreptool'', ''Grep''), (''ripgrep'', ''Grep''), (''search_code'', ''Grep''),
     (''search_codebase'', ''Grep''), (''grep'', ''Grep''), (''exec'', ''Bash''), (''execute'', ''Bash''),
     (''execute_command'', ''Bash''), (''execute-command'', ''Bash''), (''run_command'', ''Bash''), (''runcommand'', ''Bash''),
     (''launch-process'', ''Bash''), (''run_shell_command'', ''Bash''), (''shell'', ''Bash''), (''bash'', ''Bash''),
     (''writefile'', ''Write''), (''write_file'', ''Write''), (''create_file'', ''Write''), (''createfile'', ''Write''),
     (''save-file'', ''Write''), (''write'', ''Write''), (''update_todo_list'', ''TodoWrite''), (''todo'', ''TodoWrite''),
     (''todo_write'', ''TodoWrite''), (''todowrite'', ''TodoWrite''), (''web_fetch'', ''web_fetch''), (''webfetch'', ''web_fetch''),
     (''fetch'', ''web_fetch''), (''builtin_web_fetch'', ''web_fetch''), (''mcp__fetch__fetch'', ''web_fetch''), (''mcp__tavily__web_extract'', ''web_fetch''),
     (''web_search'', ''web_search''), (''websearch'', ''web_search''), (''builtin_web_search'', ''web_search''), (''mcp__tavily__web_search'', ''web_search''),
     (''mcp__brave__web_search'', ''web_search''), (''ask_followup_question'', ''AskUserQuestion''), (''ask'', ''AskUserQuestion''), (''enter_plan_mode'', ''EnterPlanMode''),
     (''exit_plan_mode'', ''ExitPlanMode''), (''new_task'', ''Task''), (''agent'', ''Task''), (''subagent'', ''Task''),
     (''subagents'', ''Task''), (''spawn_agent'', ''Task''), (''spawn_subagent'', ''Task''), (''session_spawn'', ''Task''),
     (''sessions_spawn'', ''Task''), (''task_output'', ''TaskOutput''), (''task_stop'', ''TaskStop''), (''use_skill'', ''Skill''),
     (''skill'', ''Skill'')]"

definition NormalizeToolNameFallback :: "string \<Rightarrow> string" where
  "NormalizeToolNameFallback name = (case map_of normalizedToolNameFallbacks (ToLower (TrimSpace name)) of
     Some mapped \<Rightarrow> mapped | None \<Rightarrow> name)"

text \<open>The snake-case form; ranging over a string replaces invalid bytes, hence \<^const>\<open>sanitized\<close>.\<close>

definition is_upper :: "char \<Rightarrow> bool" where
  "is_upper c \<longleftrightarrow> 65 \<le> byte c \<and> byte c \<le> 90"

definition snake_char :: "bool \<Rightarrow> char \<Rightarrow> string" where
  "snake_char first c =
     (if is_upper c then (if first then [] else ''_'') @ [char_of (byte c + 32)]
      else if c = CHR ''-'' \<or> c = CHR '' '' then ''_'' else [c])"

definition toSnakeCase :: "string \<Rightarrow> string" where
  "toSnakeCase v = (case sanitized (TrimSpace v) of [] \<Rightarrow> [] | c # cs \<Rightarrow> snake_char True c @ concat (map (snake_char False) cs))"

record NormalizedTool =
  nt_Original :: string
  nt_Lowercase :: string
  nt_SnakeCase :: string

definition NormalizeToolName :: "string \<Rightarrow> NormalizedTool" where
  "NormalizeToolName name =
     (if name = [] then \<lparr>nt_Original = [], nt_Lowercase = [], nt_SnakeCase = []\<rparr>
      else \<lparr>nt_Original = name, nt_Lowercase = ToLower name, nt_SnakeCase = toSnakeCase (ToLower name)\<rparr>)"

section \<open>Client tool definitions\<close>

type_synonym fields_map = "(string \<times> json) list"

definition extractSchemaMap :: "fields_map \<Rightarrow> string list \<Rightarrow> fields_map option" where
  "extractSchemaMap tm keys = (case List.find (\<lambda>k. as_obj (map_of tm k) \<noteq> None) keys of
     Some k \<Rightarrow> as_obj (map_of tm k) | None \<Rightarrow> None)"

definition str_or :: "string \<Rightarrow> json option \<Rightarrow> string" where
  "str_or d v = (case as_str v of Some s \<Rightarrow> s | None \<Rightarrow> d)"

definition ExtractToolSpecFields :: "json \<Rightarrow> string \<times> string \<times> fields_map option" where
  "ExtractToolSpecFields tool = (case tool of
     JObj tm \<Rightarrow>
       let (name0, description0, schema0) = (case as_obj (map_of tm ''function'') of
              Some fn \<Rightarrow> (TrimSpace (str_or [] (map_of fn ''name'')), str_or [] (map_of fn ''description''),
                extractSchemaMap fn [''parameters'', ''input_schema'', ''inputSchema''])
            | None \<Rightarrow> ([], [], None));
           name = (if name0 = [] then TrimSpace (str_or [] (map_of tm ''name'')) else name0);
           description = (if description0 = [] then str_or [] (map_of tm ''description'') else description0);
           schema = (case schema0 of None \<Rightarrow> extractSchemaMap tm [''input_schema'', ''inputSchema'', ''parameters''] | Some s \<Rightarrow> Some s)
       in (name, description, schema)
   | _ \<Rightarrow> ([], [], None))"

definition extractToolName :: "fields_map \<Rightarrow> string" where
  "extractToolName tool = fst (ExtractToolSpecFields (JObj tool))"

definition toolSpecName :: "fields_map \<Rightarrow> string" where
  "toolSpecName tool = TrimSpace (extractToolName tool)"

definition toolMapsFromInterfaces :: "json list \<Rightarrow> fields_map list" where
  "toolMapsFromInterfaces clientTools = List.map_filter (\<lambda>t. as_obj (Some t)) clientTools"

definition toolMapperClientTools :: "json list \<Rightarrow> fields_map list option \<Rightarrow> fields_map list" where
  "toolMapperClientTools clientTools toolMapper = (case toolMapper of
     Some (t # ts) \<Rightarrow> t # ts | _ \<Rightarrow> toolMapsFromInterfaces clientTools)"

definition extractAliasStrings :: "json option \<Rightarrow> string list" where
  "extractAliasStrings raw = (case raw of
     Some (JArr vs) \<Rightarrow> List.map_filter (\<lambda>v. case v of JStr s \<Rightarrow> if TrimSpace s = [] then None else Some s | _ \<Rightarrow> None) vs
   | _ \<Rightarrow> [])"

definition getToolAliases :: "fields_map \<Rightarrow> string list" where
  "getToolAliases tool =
     (let aliases = extractAliasStrings (map_of tool ''aliases'') in
      if aliases \<noteq> [] then aliases
      else case as_obj (map_of tool ''function'') of Some fn \<Rightarrow> extractAliasStrings (map_of fn ''aliases'') | None \<Rightarrow> [])"

definition toolAliases :: "(string \<times> string list) list" where
  "toolAliases = [(''id'', [''text'']), (''name'', [''text'']), (''content'', [''code'']), (''source'', [''input''])]"

definition MapToolToAnthropic :: "string \<Rightarrow> string" where
  "MapToolToAnthropic upstreamName =
     (let t = TrimSpace upstreamName in
      if t \<in> {''str_replace_editor'', ''bash'', ''computer'', ''text_editor''} then t else upstreamName)"

section \<open>The client's name of an upstream tool\<close>

text \<open>The four passes, each over the tools in the client's order.\<close>

definition by_name :: "NormalizedTool \<Rightarrow> string \<Rightarrow> bool" where
  "by_name n name \<longleftrightarrow>
     (let fallbackName = ToLower (TrimSpace (NormalizeToolNameFallback name)) in
      ToLower name = nt_Lowercase n \<or> toSnakeCase (ToLower name) = nt_SnakeCase n \<or>
      fallbackName = nt_Lowercase n \<or> toSnakeCase fallbackName = nt_SnakeCase n)"

definition by_declared_alias :: "NormalizedTool \<Rightarrow> string \<Rightarrow> fields_map \<Rightarrow> bool" where
  "by_declared_alias n upstreamName tool \<longleftrightarrow>
     list_ex (\<lambda>alias. alias = nt_SnakeCase n \<or> alias = nt_Lowercase n \<or> EqualFold alias upstreamName) (getToolAliases tool)"

definition by_upstream_alias :: "NormalizedTool \<Rightarrow> string \<Rightarrow> bool" where
  "by_upstream_alias n name \<longleftrightarrow> (case map_of toolAliases (nt_SnakeCase n) of
     None \<Rightarrow> False
   | Some aliases \<Rightarrow> list_ex (\<lambda>alias. toSnakeCase (ToLower name) = alias \<or> ToLower name = alias \<or> EqualFold name alias) aliases)"

definition by_client_alias :: "NormalizedTool \<Rightarrow> string \<Rightarrow> bool" where
  "by_client_alias n name \<longleftrightarrow> (case map_of toolAliases (toSnakeCase (ToLower name)) of
     None \<Rightarrow> False
   | Some aliases \<Rightarrow> list_ex (\<lambda>alias. alias = nt_SnakeCase n \<or> alias = nt_Lowercase n) aliases)"

definition first_named :: "(string \<Rightarrow> fields_map \<Rightarrow> bool) \<Rightarrow> fields_map list \<Rightarrow> string option" where
  "first_named P tools =
     map_option toolSpecName (List.find (\<lambda>t. toolSpecName t \<noteq> [] \<and> P (toolSpecName t) t) tools)"

definition MapToolNameToClient :: "string \<Rightarrow> json list \<Rightarrow> fields_map list option \<Rightarrow> string" where
  "MapToolNameToClient upstreamName clientTools toolMapper =
     (let n = NormalizeToolName upstreamName; tools = toolMapperClientTools clientTools toolMapper in
      if nt_Original n = [] then upstreamName
      else case first_named (\<lambda>name t. by_name n name) tools of Some name \<Rightarrow> name
      | None \<Rightarrow> (case first_named (\<lambda>name t. by_declared_alias n upstreamName t) tools of Some name \<Rightarrow> name
      | None \<Rightarrow> (case first_named (\<lambda>name t. by_upstream_alias n name) tools of Some name \<Rightarrow> name
      | None \<Rightarrow> (case first_named (\<lambda>name t. by_client_alias n name) tools of Some name \<Rightarrow> name
      | None \<Rightarrow> MapToolToAnthropic upstreamName))))"

section \<open>Properties\<close>

definition canonical_names :: "string list" where
  "canonical_names = [''Edit'', ''Read'', ''Glob'', ''Grep'', ''Bash'', ''Write'', ''TodoWrite'', ''web_fetch'', ''web_search'',
     ''AskUserQuestion'', ''EnterPlanMode'', ''ExitPlanMode'', ''Task'', ''TaskOutput'', ''TaskStop'', ''Skill'']"

lemma canonical_range: "list_all (\<lambda>kv. snd kv \<in> set canonical_names) normalizedToolNameFallbacks"
  by code_simp

lemma canonical_fixed: "list_all (\<lambda>v. NormalizeToolNameFallback v = v) canonical_names"
  by code_simp

lemma NormalizeToolNameFallback_idem: "NormalizeToolNameFallback (NormalizeToolNameFallback name) = NormalizeToolNameFallback name"
proof (cases "map_of normalizedToolNameFallbacks (ToLower (TrimSpace name))")
  case (Some v)
  then show ?thesis
    using canonical_range canonical_fixed by (auto dest!: map_of_SomeD simp: NormalizeToolNameFallback_def [of name] list_all_iff)
qed (simp add: NormalizeToolNameFallback_def)

lemma NormalizeToolNameFallback_fold:
  "ToLower (TrimSpace a) = ToLower (TrimSpace b) \<Longrightarrow> ToLower (TrimSpace (NormalizeToolNameFallback a)) = ToLower (TrimSpace (NormalizeToolNameFallback b))"
  by (simp add: NormalizeToolNameFallback_def split: option.splits)

lemma first_named_Some: "first_named P tools = Some name \<Longrightarrow> name \<noteq> [] \<and> (\<exists>t \<in> set tools. name = toolSpecName t \<and> P name t)"
  by (auto simp: first_named_def dest: find_Some_iff_prefix)

lemma first_named_None: "first_named P tools = None \<longleftrightarrow> (\<forall>t \<in> set tools. toolSpecName t \<noteq> [] \<longrightarrow> \<not> P (toolSpecName t) t)"
  by (auto simp: first_named_def find_None_all)

lemma MapToolNameToClient_cases:
  assumes "upstreamName \<noteq> []"
  shows "MapToolNameToClient upstreamName clientTools toolMapper \<in> toolSpecName ` set (toolMapperClientTools clientTools toolMapper) - {[]} \<or>
    MapToolNameToClient upstreamName clientTools toolMapper = MapToolToAnthropic upstreamName"
  using assms by (auto simp: MapToolNameToClient_def NormalizeToolName_def Let_def split: option.split dest!: first_named_Some)

text \<open>An upstream tool call is handed to the client under a name the client declared, or under the name the
  upstream used; and when the client declares the tool under a name that agrees with the upstream's up to case or through
  the table of aliases, a declared name with that agreement is chosen.\<close>

theorem client_tool_name_sound:
  assumes "upstreamName \<noteq> []"
  shows "(MapToolNameToClient upstreamName clientTools None \<in> toolSpecName ` set (toolMapsFromInterfaces clientTools) - {[]} \<or>
      MapToolNameToClient upstreamName clientTools None = MapToolToAnthropic upstreamName) \<and>
    ((\<exists>t \<in> set (toolMapsFromInterfaces clientTools). toolSpecName t \<noteq> [] \<and> by_name (NormalizeToolName upstreamName) (toolSpecName t)) \<longrightarrow>
      by_name (NormalizeToolName upstreamName) (MapToolNameToClient upstreamName clientTools None) \<and>
      MapToolNameToClient upstreamName clientTools None \<in> toolSpecName ` set (toolMapsFromInterfaces clientTools))"
proof (intro conjI impI)
  let ?n = "NormalizeToolName upstreamName" and ?tools = "toolMapsFromInterfaces clientTools"
  have m: "toolMapperClientTools clientTools None = ?tools" by (simp add: toolMapperClientTools_def)
  show "MapToolNameToClient upstreamName clientTools None \<in> toolSpecName ` set ?tools - {[]} \<or>
      MapToolNameToClient upstreamName clientTools None = MapToolToAnthropic upstreamName"
    using MapToolNameToClient_cases [OF assms, of clientTools None] m by simp
  assume "\<exists>t \<in> set ?tools. toolSpecName t \<noteq> [] \<and> by_name ?n (toolSpecName t)"
  then obtain name where f: "first_named (\<lambda>name t. by_name ?n name) ?tools = Some name"
    using first_named_None [of "\<lambda>name t. by_name ?n name" ?tools] by auto
  have e: "MapToolNameToClient upstreamName clientTools None = name"
    using f assms by (simp add: MapToolNameToClient_def NormalizeToolName_def m Let_def)
  show "by_name ?n (MapToolNameToClient upstreamName clientTools None)"
    "MapToolNameToClient upstreamName clientTools None \<in> toolSpecName ` set ?tools"
    using first_named_Some [OF f] e by auto
qed

theorem client_tool_name_sound_witness:
  \<open>MapToolNameToClient ''bash'' [JObj [(''name'', JStr ''Run_Command'')]] None \<in> toolSpecName ` set (toolMapsFromInterfaces [JObj [(''name'', JStr ''Run_Command'')]])\<close>
proof -
  have "toolSpecName [(''name'', JStr ''Run_Command'')] \<noteq> []" "by_name (NormalizeToolName ''bash'') (toolSpecName [(''name'', JStr ''Run_Command'')])"
    by code_simp+
  moreover have "[(''name'', JStr ''Run_Command'')] \<in> set (toolMapsFromInterfaces [JObj [(''name'', JStr ''Run_Command'')]])" by code_simp
  ultimately show ?thesis using client_tool_name_sound [of "''bash''" "[JObj [(''name'', JStr ''Run_Command'')]]"] by blast
qed

end
