(* ===== verification/Tool_Call.thy ===== *)
theory Tool_Call
  imports Tool_Name
begin

text \<open>
  What happens to a tool call between the upstream and the client (\<^verbatim>\<open>src/internal/handler/stream_handler.go\<close>): its
  name and input are normalised, the input is rewritten for the client's schema, and the call is checked. A Go panic is
  the value \<^const>\<open>None\<close>. Two tables of Go's library are arguments, in \<open>golib\<close>: the text of the double nearest to a
  number literal and the printable runes beyond Latin-1.
\<close>

record golib =
  float_text :: "string \<Rightarrow> string"
  is_print :: "int \<Rightarrow> bool"

section \<open>Shared helpers\<close>

definition FirstNonEmptyUntrimmed :: "string list \<Rightarrow> string" where
  "FirstNonEmptyUntrimmed values = (case List.find (\<lambda>v. TrimSpace v \<noteq> []) values of Some v \<Rightarrow> v | None \<Rightarrow> [])"

text \<open>Decoding into \<^verbatim>\<open>map[string]interface{}\<close>: \<^verbatim>\<open>null\<close> is the nil map, another shape an error.\<close>

definition unmarshal_map :: "string \<Rightarrow> fields_map option" where
  "unmarshal_map s = (case json_Unmarshal s of Some (JObj fs) \<Rightarrow> Some fs | Some JNull \<Rightarrow> Some [] | _ \<Rightarrow> None)"

definition del_field :: "string \<Rightarrow> fields_map \<Rightarrow> fields_map" where
  "del_field k fs = filter (\<lambda>f. fst f \<noteq> k) fs"

abbreviation has_field :: "fields_map \<Rightarrow> string \<Rightarrow> bool" where
  "has_field fs k \<equiv> map_of fs k \<noteq> None"

definition normalizeToolNameKey :: "string \<Rightarrow> string" where
  "normalizeToolNameKey name = ToLower (TrimSpace name)"

section \<open>Input fields\<close>

definition sanitize_fields :: "string \<Rightarrow> fields_map \<Rightarrow> fields_map \<times> bool" where
  "sanitize_fields nameKey fs =
     (if nameKey = ''glob'' then
        (if \<not> has_field fs ''pattern'' then
           (case as_str (map_of fs ''path'') of
              Some path \<Rightarrow> if TrimSpace path \<noteq> [] then (put_field fs (''pattern'', JStr ''*''), True) else (fs, False)
            | None \<Rightarrow> (fs, False))
         else (fs, False))
      else
        let (from, to) = (if nameKey = ''bash'' then (''cmd'', ''command'') else (''path'', ''file_path''));
            (p1, c1) = (if nameKey = ''write'' \<and> has_field fs ''overwrite'' then (del_field ''overwrite'' fs, True) else (fs, False))
        in case map_of p1 from of
             Some v \<Rightarrow> (del_field from (if has_field p1 to then p1 else put_field p1 (to, v)), True)
           | None \<Rightarrow> (p1, c1))"

definition sanitize_wanted :: "string \<Rightarrow> string \<Rightarrow> bool" where
  \<open>sanitize_wanted nameKey trimmed \<longleftrightarrow>
     (if nameKey = ''write'' then Contains trimmed ''"path"'' \<or> Contains trimmed ''"overwrite"''
      else if nameKey = ''edit'' \<or> nameKey = ''read'' then Contains trimmed ''"path"''
      else if nameKey = ''bash'' then Contains trimmed ''"cmd"''
      else if nameKey = ''glob'' then Contains trimmed ''"path"'' \<and> \<not> Contains trimmed ''"pattern"''
      else False)\<close>

definition sanitizeToolInput :: "golib \<Rightarrow> string \<Rightarrow> string \<Rightarrow> string" where
  "sanitizeToolInput g name input =
     (let trimmed = TrimSpace input; nameKey = ToLower (TrimSpace name) in
      if trimmed = [] \<or> \<not> sanitize_wanted nameKey trimmed then input
      else case unmarshal_map trimmed of
        None \<Rightarrow> input
      | Some fs \<Rightarrow> (case sanitize_fields nameKey fs of (p, changed) \<Rightarrow>
          if changed then json_Marshal (float_text g) (JObj p) else input))"

section \<open>Directory listings\<close>

definition isDirectoryListToolName :: "string \<Rightarrow> bool" where
  "isDirectoryListToolName name \<longleftrightarrow> ToLower (TrimSpace name) \<in> {''ls'', ''listdir'', ''list_dir'', ''list_directory''}"

definition extractDirectoryListPath :: "string \<Rightarrow> string" where
  "extractDirectoryListPath input =
     (let trimmed = TrimSpace input in
      if trimmed = [] then []
      else case unmarshal_map trimmed of
        None \<Rightarrow> []
      | Some fs \<Rightarrow> (case List.find (\<lambda>k. as_str (map_of fs k) \<noteq> None) [''path'', ''file_path'', ''directory'', ''dir''] of
          Some k \<Rightarrow> TrimSpace (the (as_str (map_of fs k))) | None \<Rightarrow> []))"

fun strip_slashes :: "string \<Rightarrow> string" where
  "strip_slashes (c # d # s) = (if c = CHR ''/'' then strip_slashes (d # s) else c # d # s)"
| "strip_slashes s = s"

definition isPlaceholderDirectoryListPath :: "string \<Rightarrow> bool" where
  "isPlaceholderDirectoryListPath path = (rev (strip_slashes (rev (TrimSpace path))) = ''/home/user/app'')"

text \<open>\<^verbatim>\<open>strconv.Quote\<close>.\<close>

definition hexes :: "nat \<Rightarrow> int \<Rightarrow> string" where
  "hexes n r = map (\<lambda>k. hex_digit (r div 16 ^ k mod 16)) (rev [0..<n])"

definition IsPrint :: "golib \<Rightarrow> int \<Rightarrow> bool" where
  "IsPrint g r = (if r \<le> 0xFF then (0x20 \<le> r \<and> r < 0x7F) \<or> (0xA1 \<le> r \<and> r \<noteq> 0xAD) else is_print g r)"

definition quote_rune :: "golib \<Rightarrow> int \<Rightarrow> string \<Rightarrow> string" where
  "quote_rune g r bytes =
     (if r = 0x22 \<or> r = 0x5C then [CHR 0x5C, char_of r]
      else if IsPrint g r then bytes
      else CHR 0x5C #
       (if r = 7 then ''a'' else if r = 8 then ''b'' else if r = 12 then ''f'' else if r = 10 then ''n''
        else if r = 13 then ''r'' else if r = 9 then ''t'' else if r = 11 then ''v''
        else if r < 0x20 \<or> r = 0x7F then ''x'' @ hexes 2 r
        else if r < 0x10000 then ''u'' @ hexes 4 r else ''U'' @ hexes 8 r))"

function quote_loop :: "golib \<Rightarrow> string \<Rightarrow> string" where
  "quote_loop g s =
     (if s = [] then []
      else case DecodeRune s of (r, sz) \<Rightarrow>
        (if r = RuneError \<and> sz = 1 then CHR 0x5C # ''x'' @ hexes 2 (byte (hd s)) else quote_rune g r (take sz s))
        @ quote_loop g (drop sz s))"
  by pat_completeness auto
termination
  by (relation "measure (length \<circ> snd)") (auto dest: DecodeRune_size [OF sym])

declare quote_loop.simps [simp del]

definition Quote :: "golib \<Rightarrow> string \<Rightarrow> string" where
  "Quote g s = CHR 0x22 # quote_loop g s @ [CHR 0x22]"

definition rewriteDirectoryListToolInput :: "golib \<Rightarrow> string \<Rightarrow> string \<Rightarrow> string option" where
  "rewriteDirectoryListToolInput g name input =
     (if \<not> isDirectoryListToolName name then None
      else let path0 = extractDirectoryListPath input;
               path1 = (if isPlaceholderDirectoryListPath path0 then [] else path0);
               path = (if TrimSpace path1 = [] then ''.'' else path1)
           in Some (json_Marshal (float_text g) (JObj [(''command'', JStr (''ls -1A -- '' @ Quote g path)),
                (''description'', JStr ''List top-level directory entries'')])))"

definition normalizeUpstreamToolName :: "string \<Rightarrow> string" where
  "normalizeUpstreamToolName name =
     (let mapped = NormalizeToolNameFallback name in if TrimSpace mapped = [] then name else mapped)"

definition normalizeUpstreamToolCall :: "golib \<Rightarrow> string \<Rightarrow> string \<Rightarrow> string \<times> string" where
  "normalizeUpstreamToolCall g name input =
     (let rawName = TrimSpace name in
      if rawName = [] then (rawName, input)
      else case rewriteDirectoryListToolInput g rawName input of
        Some bashInput \<Rightarrow> (''Bash'', bashInput)
      | None \<Rightarrow> (let n = normalizeUpstreamToolName rawName in (n, sanitizeToolInput g n input)))"

section \<open>The client's schema\<close>

definition as_bool :: "json option \<Rightarrow> bool" where
  "as_bool v = (case v of Some (JBool b) \<Rightarrow> b | _ \<Rightarrow> False)"

definition props_of :: "fields_map \<Rightarrow> fields_map" where
  "props_of schema = (case as_obj (map_of schema ''properties'') of Some p \<Rightarrow> p | None \<Rightarrow> [])"

lemma member_size: "(k, v) \<in> set fs \<Longrightarrow> size v < Suc (size_list (size_prod (\<lambda>x. 0) size) fs)"
  using size_list_estimation [of "(k, v)" fs "size v" "size_prod (\<lambda>x. 0) size"] by simp

lemma element_size: "v \<in> set vs \<Longrightarrow> size v < Suc (size_list size vs)"
  using size_list_estimation' [of v vs "size v" size] by simp

function pruneToolInputBySchema :: "json \<Rightarrow> fields_map \<Rightarrow> json \<times> bool" where
  "pruneToolInputBySchema v schema = (case (as_obj (map_of schema ''items''), v) of
     (Some items, JArr arr) \<Rightarrow>
       (let out = map (\<lambda>item. pruneToolInputBySchema item items) arr in (JArr (map fst out), list_ex snd out))
   | (_, JObj obj) \<Rightarrow>
       (let props = props_of schema; strict = as_bool (map_of schema ''additionalProperties'');
            out = map (\<lambda>(key, item). case as_obj (map_of props key) of
                None \<Rightarrow> if strict then (None, True) else (Some (key, item), False)
              | Some ps \<Rightarrow> (case pruneToolInputBySchema item ps of (next, nestedChanged) \<Rightarrow> (Some (key, next), nestedChanged))) obj
        in (JObj (List.map_filter fst out), list_ex snd out))
   | _ \<Rightarrow> (v, False))"
  by pat_completeness auto
termination
  by (relation "measure (size \<circ> fst)") (auto intro: member_size element_size)

declare pruneToolInputBySchema.simps [simp del]


definition is_todo_name :: "string \<Rightarrow> bool" where
  "is_todo_name name \<longleftrightarrow>
     (let n = TrimSpace name in EqualFold n ''todowrite'' \<or> EqualFold n ''todo_write'' \<or> EqualFold n ''update_todo_list'')"

text \<open>Removing \<^verbatim>\<open>id\<close> from every item; \<^const>\<open>None\<close> when no item has one.\<close>

definition strip_todo_ids :: "fields_map \<Rightarrow> fields_map option" where
  "strip_todo_ids fs = (case map_of fs ''todos'' of
     Some (JArr todos) \<Rightarrow>
       if list_ex (\<lambda>item. jget item ''id'' \<noteq> None) todos
       then Some (put_field fs (''todos'', JArr (map (\<lambda>item. case item of JObj ob \<Rightarrow> JObj (del_field ''id'' ob) | _ \<Rightarrow> item) todos)))
       else None
   | _ \<Rightarrow> None)"

definition client_schema :: "string \<Rightarrow> json list \<Rightarrow> fields_map" where
  "client_schema name clientTools =
     (let wanted = TrimSpace (NormalizeToolNameFallback name);
          fits = (\<lambda>tool. let toolName = fst (ExtractToolSpecFields tool) in
             EqualFold toolName name \<or> EqualFold (TrimSpace (NormalizeToolNameFallback toolName)) wanted);
          schema_of = (\<lambda>tool. case snd (snd (ExtractToolSpecFields tool)) of Some s \<Rightarrow> s | None \<Rightarrow> []);
          found = (case List.find fits clientTools of Some tool \<Rightarrow> schema_of tool | None \<Rightarrow> [])
      in if found = [] \<and> length clientTools = 1 then schema_of (hd clientTools) else found)"

definition sanitizeToolInputAgainstClientSchema :: "golib \<Rightarrow> string \<Rightarrow> string \<Rightarrow> json list \<Rightarrow> string option" where
  "sanitizeToolInputAgainstClientSchema g name input clientTools =
     (let trimmed = TrimSpace input;
          prune = (\<lambda>v. let schema = client_schema name clientTools in
             if schema = [] then Some input
             else case pruneToolInputBySchema v schema of (sanitized_value, changed) \<Rightarrow>
               if changed then Some (json_Marshal (float_text g) sanitized_value) else Some input) in
      if trimmed = [] then Some input
      else case json_Unmarshal trimmed of
        None \<Rightarrow> Some input
      | Some v \<Rightarrow>
          if is_todo_name name then
            (case v of
               JObj fs \<Rightarrow> (case strip_todo_ids fs of
                 Some fs' \<Rightarrow> Some (json_Marshal (float_text g) (JObj fs'))
               | None \<Rightarrow> prune v)
             | _ \<Rightarrow> None)
          else prune v)"

definition rewriteToolCallToClient :: "golib \<Rightarrow> json list \<Rightarrow> string \<Rightarrow> string \<Rightarrow> (string \<times> string) option" where
  "rewriteToolCallToClient g clientTools name input =
     (let canonical = TrimSpace (NormalizeToolNameFallback name) in
      if clientTools = [] then Some (name, input)
      else let mapped = TrimSpace (MapToolNameToClient canonical clientTools None) in
        if mapped = [] then Some (name, input)
        else map_option (Pair mapped) (sanitizeToolInputAgainstClientSchema g mapped input clientTools))"

section \<open>Validation\<close>

record toolInputFields =
  tf_Command :: string
  tf_Cmd :: string
  tf_FilePath :: string
  tf_Path :: string
  tf_Content :: bool
  tf_Old :: bool
  tf_New :: bool

text \<open>A \<^verbatim>\<open>json.RawMessage\<close> field is not empty exactly when the member is present.\<close>

definition decodeToolInputFields :: "string \<Rightarrow> toolInputFields option" where
  "decodeToolInputFields input =
     (let raw = FirstNonEmptyUntrimmed [TrimSpace input, ''{}''] in
      case json_decode raw of
        None \<Rightarrow> None
      | Some v \<Rightarrow> (case members v of
          None \<Rightarrow> None
        | Some fs \<Rightarrow>
          (case (dec_string fs ''command'', dec_string fs ''cmd'', dec_string fs ''file_path'', dec_string fs ''path'') of
             (Some command, Some cmd, Some file_path, Some path) \<Rightarrow>
               Some \<lparr>tf_Command = command, tf_Cmd = cmd, tf_FilePath = file_path, tf_Path = path,
                 tf_Content = (field_values fs ''content'' \<noteq> []), tf_Old = (field_values fs ''old_string'' \<noteq> []),
                 tf_New = (field_values fs ''new_string'' \<noteq> [])\<rparr>
           | _ \<Rightarrow> None)))"

definition resolveToolPath :: "string \<Rightarrow> string \<Rightarrow> string" where
  "resolveToolPath filePath path = (if TrimSpace filePath \<noteq> [] then TrimSpace filePath else TrimSpace path)"

definition isStructuredToolName :: "string \<Rightarrow> bool" where
  "isStructuredToolName nameKey \<longleftrightarrow> nameKey \<in> {''edit'', ''write'', ''bash'', ''read'', ''glob'', ''grep''}"

definition hasRequiredToolInputFields :: "string \<Rightarrow> toolInputFields \<Rightarrow> bool" where
  "hasRequiredToolInputFields nameKey f =
     (if nameKey = ''edit'' then resolveToolPath (tf_FilePath f) (tf_Path f) \<noteq> [] \<and> tf_Old f \<and> tf_New f
      else if nameKey = ''write'' then resolveToolPath (tf_FilePath f) (tf_Path f) \<noteq> [] \<and> tf_Content f
      else if nameKey = ''bash'' then TrimSpace (tf_Command f) \<noteq> [] \<or> TrimSpace (tf_Cmd f) \<noteq> []
      else if nameKey = ''read'' then resolveToolPath (tf_FilePath f) (tf_Path f) \<noteq> []
      else True)"

definition validToolCallInput :: "string \<Rightarrow> string \<Rightarrow> bool" where
  "validToolCallInput name input =
     (let nameKey = normalizeToolNameKey name in
      if nameKey = [] then False
      else if \<not> isStructuredToolName nameKey then True
      else case decodeToolInputFields input of Some f \<Rightarrow> hasRequiredToolInputFields nameKey f | None \<Rightarrow> False)"

definition isNonProjectSandboxPath :: "string \<Rightarrow> bool" where
  "isNonProjectSandboxPath pathValue =
     (let p = TrimSpace (map (\<lambda>c. if c = CHR 0x5C then CHR ''/'' else c) pathValue) in
      if p = [] \<or> \<not> HasPrefix (ToLower p) ''/tmp/cc-agent/'' then False
      else let parts = Split (CHR ''/'') (rev (TrimLeft (rev (TrimLeft p ''/'')) ''/'')) in
        if length parts < 3 \<or> \<not> EqualFold (parts ! 0) ''tmp'' \<or> \<not> EqualFold (parts ! 1) ''cc-agent'' then False
        else if length parts = 3 then True
        else \<not> EqualFold (TrimSpace (parts ! 3)) ''project'')"

definition hasNonProjectSandboxToolPath :: "string \<Rightarrow> string \<Rightarrow> bool" where
  "hasNonProjectSandboxToolPath name input =
     (if normalizeToolNameKey name \<in> {''read'', ''edit'', ''write'', ''glob'', ''grep''}
      then case decodeToolInputFields input of
             Some f \<Rightarrow> isNonProjectSandboxPath (resolveToolPath (tf_FilePath f) (tf_Path f))
           | None \<Rightarrow> False
      else False)"

definition suppressedWriteContentFallback :: "string \<Rightarrow> string \<Rightarrow> string" where
  "suppressedWriteContentFallback name input =
     (if normalizeToolNameKey name \<noteq> ''write'' then []
      else case json_decode input of
        None \<Rightarrow> []
      | Some v \<Rightarrow> (case members v of
          None \<Rightarrow> []
        | Some fs \<Rightarrow> (case dec_string fs ''content'' of Some c \<Rightarrow> TrimSpace c | None \<Rightarrow> [])))"

definition dec_string_list :: "fields_map \<Rightarrow> string \<Rightarrow> string list option" where
  "dec_string_list fs k =
     foldl (\<lambda>r v. case v of
         JArr vs \<Rightarrow> if list_all (\<lambda>x. x = JNull \<or> as_str (Some x) \<noteq> None) vs
           then map_option (\<lambda>_. map (\<lambda>x. str_or [] (Some x)) vs) r else None
       | JNull \<Rightarrow> map_option (\<lambda>_. []) r | _ \<Rightarrow> None) (Some []) (field_values fs k)"

definition taskDelegationAllowed :: "string list \<Rightarrow> string \<Rightarrow> bool" where
  "taskDelegationAllowed allowedToolNames input = (case json_decode (TrimSpace input) of
     None \<Rightarrow> False
   | Some v \<Rightarrow> (case members v of
       None \<Rightarrow> False
     | Some fs \<Rightarrow> (case dec_string_list fs ''allowed_tools'' of
         None \<Rightarrow> False
       | Some names \<Rightarrow> names \<noteq> [] \<and>
           list_all (\<lambda>n. ToLower (TrimSpace n) \<noteq> [] \<and> ToLower (TrimSpace n) \<in> set allowedToolNames) names)))"


section \<open>Properties\<close>

lemma map_of_put [simp]: "map_of (put_field fs (k, v)) j = (if j = k then Some v else map_of fs j)"
  by (simp add: put_field_def update_conv')

lemma map_of_del [simp]: "map_of (del_field k fs) j = (if j = k then None else map_of fs j)"
  by (induction fs) (auto simp: del_field_def)

definition rename_field :: "fields_map \<Rightarrow> string \<Rightarrow> string \<Rightarrow> bool \<Rightarrow> fields_map \<times> bool" where
  "rename_field fs from to changed = (case map_of fs from of
     Some v \<Rightarrow> (del_field from (if has_field fs to then fs else put_field fs (to, v)), True)
   | None \<Rightarrow> (fs, changed))"

lemma rename_field_get:
  "from \<noteq> to \<Longrightarrow> map_of (fst (rename_field fs from to changed)) j =
    (if j = from then None else if j = to \<and> \<not> has_field fs to then map_of fs from else map_of fs j)"
  by (auto simp: rename_field_def split: option.split)

text \<open>An upstream's file and shell arguments reach the client under the client's field names: the destination
  field keeps its own value or takes the alias's, the alias is gone, the \<^verbatim>\<open>overwrite\<close> flag of a write is gone and no other
  field is touched; a listing pattern is added to a glob that has a path and no pattern.\<close>

theorem sanitized_fields_exact:
  "map_of (fst (sanitize_fields key fs)) j =
    (if key = ''glob'' then
       (if j = ''pattern'' \<and> \<not> has_field fs ''pattern'' \<and> (\<exists>p. map_of fs ''path'' = Some (JStr p) \<and> TrimSpace p \<noteq> []) then Some (JStr ''*'') else map_of fs j)
     else if key = ''bash'' then
       (if j = ''cmd'' then None else if j = ''command'' \<and> \<not> has_field fs ''command'' then map_of fs ''cmd'' else map_of fs j)
     else if j = ''path'' then None
     else if j = ''file_path'' \<and> \<not> has_field fs ''file_path'' then map_of fs ''path''
     else if key = ''write'' \<and> j = ''overwrite'' then None
     else map_of fs j)"
proof -
  consider "key = ''glob''" | "key = ''bash''" | "key \<noteq> ''glob''" "key \<noteq> ''bash''" by blast
  then show ?thesis
  proof cases
    case 1
    then show ?thesis by (auto simp: sanitize_fields_def as_str_def split: option.split json.split)
  next
    case 2
    then have "fst (sanitize_fields key fs) = fst (rename_field fs ''cmd'' ''command'' False)"
      by (simp add: sanitize_fields_def rename_field_def split: option.split)
    then show ?thesis using 2 by (simp add: rename_field_get)
  next
    case 3
    let ?p = "if key = ''write'' then del_field ''overwrite'' fs else fs"
    have "map_of (fst (sanitize_fields key fs)) j = map_of (fst (rename_field ?p ''path'' ''file_path'' False)) j"
      using 3 by (auto simp: sanitize_fields_def rename_field_def Let_def split: option.split)
    then show ?thesis using 3 by (cases "key = ''write''") (auto simp: rename_field_get)
  qed
qed

lemma prune_object:
  "pruneToolInputBySchema (JObj obj) schema =
    (let out = map (\<lambda>(key, item). case as_obj (map_of (props_of schema) key) of
        None \<Rightarrow> if as_bool (map_of schema ''additionalProperties'') then (None, True) else (Some (key, item), False)
      | Some ps \<Rightarrow> (case pruneToolInputBySchema item ps of (next, nestedChanged) \<Rightarrow> (Some (key, next), nestedChanged))) obj
     in (JObj (List.map_filter fst out), list_ex snd out))"
  by (simp add: pruneToolInputBySchema.simps [of "JObj obj"] Let_def split: option.split)

lemma prune_unchanged: "\<not> snd (pruneToolInputBySchema v schema) \<Longrightarrow> fst (pruneToolInputBySchema v schema) = v"
proof (induction "size v" arbitrary: v schema rule: less_induct)
  case less
  show ?case
  proof (cases v)
    case (JArr arr)
    show ?thesis
    proof (cases "as_obj (map_of schema ''items'')")
      case (Some items)
      let ?out = "map (\<lambda>item. pruneToolInputBySchema item items) arr"
      have e: "pruneToolInputBySchema v schema = (JArr (map fst ?out), list_ex snd ?out)"
        unfolding JArr by (simp add: pruneToolInputBySchema.simps [of "JArr arr"] Some Let_def)
      have "fst (pruneToolInputBySchema item items) = item" if "item \<in> set arr" for item
      proof -
        have "\<not> snd (pruneToolInputBySchema item items)" using less.prems that unfolding e by (auto simp: list_ex_iff)
        then show ?thesis using less.hyps [of item items] JArr element_size [OF that] by simp
      qed
      then have "map fst ?out = arr" by (simp add: map_idI)
      then show ?thesis unfolding e by (simp add: JArr)
    qed (simp add: pruneToolInputBySchema.simps [of "JArr arr"] JArr)
  next
    case (JObj obj)
    let ?f = "\<lambda>(key, item). case as_obj (map_of (props_of schema) key) of
        None \<Rightarrow> if as_bool (map_of schema ''additionalProperties'') then (None, True) else (Some (key, item), False)
      | Some ps \<Rightarrow> (case pruneToolInputBySchema item ps of (next, nestedChanged) \<Rightarrow> (Some (key, next), nestedChanged))"
    have e: "pruneToolInputBySchema v schema = (JObj (List.map_filter fst (map ?f obj)), list_ex snd (map ?f obj))"
      by (simp only: JObj prune_object Let_def)
    have k: "fst (?f kv) = Some kv" if "kv \<in> set obj" for kv
    proof -
      obtain key item where kv: "kv = (key, item)" by (cases kv) auto
      have n: "\<not> snd (?f kv)" using less.prems that by (auto simp: e list_ex_iff)
      show ?thesis
      proof (cases "as_obj (map_of (props_of schema) key)")
        case None
        then show ?thesis using n kv by (auto split: if_splits)
      next
        case (Some ps)
        then have "\<not> snd (pruneToolInputBySchema item ps)" using n kv by (auto split: prod.splits)
        then have "fst (pruneToolInputBySchema item ps) = item" using less.hyps [of item ps] JObj member_size [of key item obj] that kv by simp
        then show ?thesis using Some kv by (auto split: prod.splits)
      qed
    qed
    have "List.map_filter fst (map ?f obj) = obj"
      using k by (induction obj) (auto simp: map_filter_def)
    then show ?thesis unfolding e by (simp add: JObj)
  qed (simp_all add: pruneToolInputBySchema.simps [of JNull] pruneToolInputBySchema.simps [of "JBool _"]
    pruneToolInputBySchema.simps [of "JNum _"] pruneToolInputBySchema.simps [of "JStr _"] split: option.split)
qed


lemma pruned_keys:
  "\<exists>fs. fst (pruneToolInputBySchema (JObj obj) schema) = JObj fs \<and>
    map fst fs = filter (\<lambda>k. as_bool (map_of schema ''additionalProperties'') \<longrightarrow> as_obj (map_of (props_of schema) k) \<noteq> None) (map fst obj)"
proof -
  let ?f = "\<lambda>(key, item). case as_obj (map_of (props_of schema) key) of
        None \<Rightarrow> if as_bool (map_of schema ''additionalProperties'') then (None, True) else (Some (key, item), False)
      | Some ps \<Rightarrow> (case pruneToolInputBySchema item ps of (next, nestedChanged) \<Rightarrow> (Some (key, next), nestedChanged))"
  have "map fst (List.map_filter fst (map ?f obj)) =
      filter (\<lambda>k. as_bool (map_of schema ''additionalProperties'') \<longrightarrow> as_obj (map_of (props_of schema) k) \<noteq> None) (map fst obj)"
    by (induction obj) (auto simp: map_filter_def split: option.splits prod.splits)
  then show ?thesis by (simp add: prune_object Let_def)
qed

text \<open>The filter that makes a tool input fit the client's schema works on the wrong schemas. An object keeps
  every field when \<^verbatim>\<open>additionalProperties\<close> is false or absent, so a schema that forbids unknown fields is not enforced; a
  field without a schema of its own is removed exactly when \<^verbatim>\<open>additionalProperties\<close> is true, where the schema allows it.\<close>

theorem closed_schema_not_enforced:
  "(\<exists>fs. fst (pruneToolInputBySchema (JObj obj) ((''additionalProperties'', JBool False) # schema)) = JObj fs \<and> map fst fs = map fst obj) \<and>
   (\<exists>fs. fst (pruneToolInputBySchema (JObj obj) ((''additionalProperties'', JBool True) # schema)) = JObj fs \<and>
     map fst fs = filter (\<lambda>k. as_obj (map_of (props_of schema) k) \<noteq> None) (map fst obj))"
  using pruned_keys [of obj "(''additionalProperties'', JBool False) # schema"] pruned_keys [of obj "(''additionalProperties'', JBool True) # schema"]
  by (simp add: as_bool_def props_of_def)

text \<open>Rewriting an input for the client's schema panics exactly for a to-do call whose input is valid JSON but
  not an object.\<close>

theorem schema_rewrite_panics_exactly:
  "sanitizeToolInputAgainstClientSchema g name input clientTools = None \<longleftrightarrow>
    is_todo_name name \<and> TrimSpace input \<noteq> [] \<and> (case json_Unmarshal (TrimSpace input) of None \<Rightarrow> False | Some v \<Rightarrow> \<not> is_obj v)"
  by (auto simp: sanitizeToolInputAgainstClientSchema_def Let_def is_obj_def split: option.splits json.splits if_splits prod.splits)

end
