(* ===== verification/Relay.thy ===== *)
theory Relay
  imports Pool_Answer Token_Estimator Openai_Chunk Tool_Call
begin

text \<open>
  The relay of one response (\<^verbatim>\<open>streamHandler\<close> of \<^verbatim>\<open>src/internal/handler/stream_handler.go\<close>): it receives the messages
  of an upstream and writes the client's stream, or collects the blocks of a non-streaming answer. The lock of the handler
  serialises its methods, so a method is a function on the state. What the client received is the list \<open>out\<close>; a
  connection that breaks refuses every later write (as \<^verbatim>\<open>bufio.Writer\<close> does), and \<open>room\<close> says how many writes it will
  still take. The scratch buffers, the log lines and the pools of string builders have no counterpart; \<^verbatim>\<open>returned\<close> mirrors
  \<^verbatim>\<open>hasReturn\<close> and is not kept twice.
\<close>

section \<open>State\<close>

datatype gval = GStr string | GInt int | GFloat int | GNumber string | GMap "(string \<times> gval) list" | GOther

text \<open>A Go value of an upstream event: \<open>GFloat\<close> carries the truncation of a double, \<open>GNumber\<close> a \<^verbatim>\<open>json.Number\<close>.\<close>

type_synonym event = "(string \<times> gval) list"

record SSEMessage =
  m_Type :: string
  m_Event :: "event option"

datatype block_type = NoBlock | ThinkingBlock | TextBlock

record toolCall =
  call_id :: string
  call_name :: string
  call_input :: string

datatype out_item = Ev sse_event | DoneLine | HttpError AppError

text \<open>What is fixed while a response is written.\<close>

record relay_config =
  isStream :: bool
  suppressThinking :: bool
  formatOpenAI :: bool
  hasFlusher :: bool
  disallowToolCalls :: bool
  surfaceToolRejects :: bool
  allowedToolNames :: "string list"
  clientTools :: "json list"
  structured :: "string \<Rightarrow> string option"
  msgID :: string
  createdUnix :: int
  pendingModel :: string
  lib :: golib

record token_usage =
  useUpstreamUsage :: bool
  inputTokens :: int
  outputTokens :: int
  cachedInputTokens :: int
  cacheWriteTokens :: int
  reasoningTokens :: int
  usageMetadata :: "(string \<times> gval) list"
  outputEstimator :: Estimator

text \<open>The response writer with its flusher; \<open>failureMarked\<close> is \<^verbatim>\<open>middleware.MarkStreamFailure\<close>.\<close>

record writer =
  out :: "out_item list"
  flushed :: nat
  room :: "nat option"
  deferredFlushFrames :: nat
  deferredFlushBytes :: nat
  failureMarked :: bool

record streamHandler =
  w :: writer
  usage :: token_usage
  blockIndex :: int
  hasReturn :: bool
  requestFailed :: bool
  completionLogged :: bool
  messageStartWritten :: bool
  hasReasoningOutput :: bool
  finalStopReason :: string
  emptyOutputFallback :: string
  activeThinkingBlockIndex :: int
  activeThinkingSSEIndex :: int
  activeTextBlockIndex :: int
  activeTextSSEIndex :: int
  activeBlockType :: block_type
  responseText :: string
  textBlockBuilders :: "string option list"
  thinkingBlockBuilders :: "string option list"
  thinkingBlockSigs :: "string list"
  contentBlocks :: "fields_map list"
  pendingThinkingSig :: string
  hasTextOutput :: bool
  pendingToolCalls :: "toolCall list"
  toolCallHandled :: "string list"
  toolCallEmitted :: "string list"
  toolCallCount :: nat
  suppressedToolCalls :: nat

definition newStreamHandler :: "nat option \<Rightarrow> streamHandler" where
  "newStreamHandler r =
     \<lparr>w = \<lparr>out = [], flushed = 0, room = r, deferredFlushFrames = 0, deferredFlushBytes = 0, failureMarked = False\<rparr>,
      usage = \<lparr>useUpstreamUsage = False, inputTokens = 0, outputTokens = 0, cachedInputTokens = 0, cacheWriteTokens = 0,
        reasoningTokens = 0, usageMetadata = [], outputEstimator = est_zero\<rparr>,
      blockIndex = -1, hasReturn = False, requestFailed = False, completionLogged = False, messageStartWritten = False,
      hasReasoningOutput = False, finalStopReason = [], emptyOutputFallback = [],
      activeThinkingBlockIndex = -1, activeThinkingSSEIndex = -1, activeTextBlockIndex = -1, activeTextSSEIndex = -1,
      activeBlockType = NoBlock, responseText = [], textBlockBuilders = [], thinkingBlockBuilders = [], thinkingBlockSigs = [],
      contentBlocks = [], pendingThinkingSig = [], hasTextOutput = False,
      pendingToolCalls = [], toolCallHandled = [], toolCallEmitted = [], toolCallCount = 0, suppressedToolCalls = 0\<rparr>"

definition setAllowedToolNames :: "string list \<Rightarrow> relay_config \<Rightarrow> relay_config" where
  "setAllowedToolNames names c =
     c\<lparr>allowedToolNames := filter (\<lambda>k. k \<noteq> []) (map (\<lambda>n. ToLower (TrimSpace n)) names)\<rparr>"

definition setEmptyOutputFallback :: "string \<Rightarrow> streamHandler \<Rightarrow> streamHandler" where
  "setEmptyOutputFallback txt h = h\<lparr>emptyOutputFallback := TrimSpace txt\<rparr>"

section \<open>Writing\<close>

definition sseDoneLine :: string where
  "sseDoneLine = ''data: [DONE]'' @ sseLineBreak"

text \<open>The bytes of an item in the wire shape of the response format; \<^const>\<open>HttpError\<close> stands for a body of its own.\<close>

definition item_bytes :: "relay_config \<Rightarrow> out_item \<Rightarrow> string" where
  "item_bytes c x = (case x of
     DoneLine \<Rightarrow> sseDoneLine
   | HttpError e \<Rightarrow> []
   | Ev e \<Rightarrow>
       if \<not> formatOpenAI c then wire e
       else case e of
         KeepAlive \<Rightarrow> sseKeepAlive
       | StreamError code msg \<Rightarrow> writeOpenAIFrame (appendOpenAIError [] code msg)
       | _ \<Rightarrow> (case AppendOpenAIChunk [] (msgID c) (createdUnix c) (event_name e) (payload e) of
           Some raw \<Rightarrow> writeOpenAIFrame raw | None \<Rightarrow> []))"

text \<open>One write: whether anything was written, whether it succeeded, and the state.\<close>

datatype write_result = Nothing | Written | Failed

definition write_item :: "relay_config \<Rightarrow> out_item \<Rightarrow> writer \<Rightarrow> write_result \<times> writer" where
  "write_item c x wr =
     (let log = wr\<lparr>out := out wr @ [x]\<rparr> in
      if item_bytes c x = [] then (Nothing, if room wr = Some 0 then wr else log)
      else case room wr of
        None \<Rightarrow> (Written, log)
      | Some 0 \<Rightarrow> (Failed, wr)
      | Some (Suc n) \<Rightarrow> (Written, log\<lparr>room := Some n\<rparr>))"

definition markWriteErrorLocked :: "streamHandler \<Rightarrow> streamHandler" where
  "markWriteErrorLocked h =
     h\<lparr>hasReturn := True, requestFailed := True, finalStopReason := ''write_error'', w := (w h)\<lparr>failureMarked := True\<rparr>\<rparr>"

definition flush_now :: "writer \<Rightarrow> writer" where
  "flush_now wr = wr\<lparr>flushed := length (out wr), deferredFlushFrames := 0, deferredFlushBytes := 0\<rparr>"

definition flushSSEWithLenLocked :: "relay_config \<Rightarrow> string \<Rightarrow> nat \<Rightarrow> bool \<Rightarrow> bool \<Rightarrow> writer \<Rightarrow> writer" where
  "flushSSEWithLenLocked c event dataLen immediate force wr =
     (if \<not> hasFlusher c then wr
      else if force \<or> immediate then flush_now wr
      else let frames = deferredFlushFrames wr + 1;
               bytes = deferredFlushBytes wr + (length event + dataLen + 16)
           in if frames \<ge> 4 \<or> bytes \<ge> 2048 then flush_now wr
              else wr\<lparr>deferredFlushFrames := frames, deferredFlushBytes := bytes\<rparr>)"

definition shouldFlushSSEImmediately :: "string \<Rightarrow> string \<Rightarrow> bool" where
  \<open>shouldFlushSSEImmediately event dat =
     (if event \<in> {''message_start'', ''message_delta'', ''message_stop'', ''content_block_start'', ''content_block_stop''} then True
      else if event = ''content_block_delta'' then Contains dat ''"type":"text_delta"''
      else True)\<close>

definition emitSSEFrameLocked :: "relay_config \<Rightarrow> sse_event \<Rightarrow> bool \<Rightarrow> bool \<Rightarrow> streamHandler \<Rightarrow> streamHandler" where
  "emitSSEFrameLocked c e immediate final h =
     (if \<not> isStream c then h
      else let flush = flushSSEWithLenLocked c (event_name e) (length (payload e)) immediate final in
        if formatOpenAI c then
          (case write_item c (Ev e) (w h) of
             (Failed, wr) \<Rightarrow> markWriteErrorLocked (h\<lparr>w := wr\<rparr>)
           | (res, wr) \<Rightarrow>
               (let wr2 = (if res = Written then flush wr else wr) in
                if final \<and> event_name e = ''message_stop'' then
                  (case write_item c DoneLine wr2 of
                     (Failed, wr3) \<Rightarrow> markWriteErrorLocked (h\<lparr>w := wr3\<rparr>)
                   | (_, wr3) \<Rightarrow> h\<lparr>w := flushSSEWithLenLocked c (event_name e) (length sseDoneLine) True True wr3\<rparr>)
                else h\<lparr>w := wr2\<rparr>))
        else (case write_item c (Ev e) (w h) of
             (Failed, wr) \<Rightarrow> markWriteErrorLocked (h\<lparr>w := wr\<rparr>)
           | (_, wr) \<Rightarrow> h\<lparr>w := flush wr\<rparr>))"

definition writeFinalSSEBytesLockedWithHint :: "relay_config \<Rightarrow> sse_event \<Rightarrow> bool \<Rightarrow> streamHandler \<Rightarrow> streamHandler" where
  "writeFinalSSEBytesLockedWithHint c e immediate h = emitSSEFrameLocked c e immediate True h"

definition writeFinalSSEBytes :: "relay_config \<Rightarrow> sse_event \<Rightarrow> streamHandler \<Rightarrow> streamHandler" where
  "writeFinalSSEBytes c e h = (if \<not> isStream c then h else writeFinalSSEBytesLockedWithHint c e False h)"

definition writeMessageStartLocked :: "relay_config \<Rightarrow> string \<Rightarrow> int \<Rightarrow> int \<Rightarrow> streamHandler \<Rightarrow> streamHandler" where
  "writeMessageStartLocked c model inTokens outTokens h =
     (if \<not> isStream c \<or> hasReturn h then h
      else emitSSEFrameLocked c (MessageStart (msgID c) model inTokens outTokens) True False (h\<lparr>messageStartWritten := True\<rparr>))"

definition ensureMessageStartLocked :: "relay_config \<Rightarrow> streamHandler \<Rightarrow> bool \<times> streamHandler" where
  "ensureMessageStartLocked c h =
     (if messageStartWritten h then (True, h)
      else if requestFailed h \<or> hasReturn h \<or> \<not> isStream c then (False, h)
      else let h1 = writeMessageStartLocked c (pendingModel c) (inputTokens (usage h)) 0 h in (messageStartWritten h1, h1))"

text \<open>Every event but the opening one waits for the stream to be open.\<close>

definition writeSSEBytesLockedWithHint :: "relay_config \<Rightarrow> sse_event \<Rightarrow> bool \<Rightarrow> streamHandler \<Rightarrow> streamHandler" where
  "writeSSEBytesLockedWithHint c e immediate h =
     (if \<not> isStream c \<or> hasReturn h then h
      else case (if event_name e = ''message_start'' then (True, h) else ensureMessageStartLocked c h) of
        (False, h1) \<Rightarrow> h1
      | (True, h1) \<Rightarrow> emitSSEFrameLocked c e immediate False h1)"

definition write_frame :: "relay_config \<Rightarrow> bool \<Rightarrow> sse_event \<Rightarrow> bool \<Rightarrow> streamHandler \<Rightarrow> streamHandler" where
  "write_frame c final e immediate h =
     (if final then writeFinalSSEBytesLockedWithHint c e immediate h else writeSSEBytesLockedWithHint c e immediate h)"

definition writeSSEContentBlockStartToolUseLocked :: "relay_config \<Rightarrow> int \<Rightarrow> string \<Rightarrow> string \<Rightarrow> bool \<Rightarrow> streamHandler \<Rightarrow> streamHandler" where
  "writeSSEContentBlockStartToolUseLocked c i tid name final h = write_frame c final (BlockStartToolUse i tid name) True h"
definition writeSSEContentBlockStartTextLocked :: "relay_config \<Rightarrow> int \<Rightarrow> bool \<Rightarrow> streamHandler \<Rightarrow> streamHandler" where
  "writeSSEContentBlockStartTextLocked c i final h = write_frame c final (BlockStartText i) True h"
definition writeSSEContentBlockDeltaInputJSONLocked :: "relay_config \<Rightarrow> int \<Rightarrow> string \<Rightarrow> bool \<Rightarrow> streamHandler \<Rightarrow> streamHandler" where
  "writeSSEContentBlockDeltaInputJSONLocked c i partialJSON final h = write_frame c final (DeltaInputJSON i partialJSON) False h"
definition writeSSEContentBlockDeltaTextLocked :: "relay_config \<Rightarrow> int \<Rightarrow> string \<Rightarrow> bool \<Rightarrow> streamHandler \<Rightarrow> streamHandler" where
  "writeSSEContentBlockDeltaTextLocked c i txt final h = write_frame c final (DeltaText i txt) True h"
definition writeSSEContentBlockDeltaThinkingLocked :: "relay_config \<Rightarrow> int \<Rightarrow> string \<Rightarrow> bool \<Rightarrow> streamHandler \<Rightarrow> streamHandler" where
  "writeSSEContentBlockDeltaThinkingLocked c i thinking final h = write_frame c final (DeltaThinking i thinking) False h"
definition writeSSEContentBlockStopLocked :: "relay_config \<Rightarrow> int \<Rightarrow> bool \<Rightarrow> streamHandler \<Rightarrow> streamHandler" where
  "writeSSEContentBlockStopLocked c i final h = write_frame c final (BlockStop i) True h"
definition writeSSEMessageDeltaLocked :: "relay_config \<Rightarrow> string \<Rightarrow> int \<Rightarrow> bool \<Rightarrow> streamHandler \<Rightarrow> streamHandler" where
  "writeSSEMessageDeltaLocked c stopReason tokens final h = write_frame c final (MessageDelta stopReason tokens) True h"

definition writeSSEBytesLocked :: "relay_config \<Rightarrow> sse_event \<Rightarrow> streamHandler \<Rightarrow> streamHandler" where
  "writeSSEBytesLocked c e h =
     (if \<not> isStream c \<or> hasReturn h then h
      else emitSSEFrameLocked c e (shouldFlushSSEImmediately (event_name e) (payload e)) False h)"

definition hasCommitted :: "streamHandler \<Rightarrow> bool" where
  "hasCommitted h \<longleftrightarrow> messageStartWritten h \<or> hasReturn h"

definition writeKeepAlive :: "relay_config \<Rightarrow> streamHandler \<Rightarrow> streamHandler" where
  "writeKeepAlive c h =
     (if \<not> isStream c \<or> hasReturn h \<or> \<not> messageStartWritten h then h
      else case write_item c (Ev KeepAlive) (w h) of
        (Failed, wr) \<Rightarrow> markWriteErrorLocked (h\<lparr>w := wr\<rparr>)
      | (_, wr) \<Rightarrow> h\<lparr>w := flushSSEWithLenLocked c ''keep-alive'' (length sseKeepAlive) True True wr\<rparr>)"

section \<open>Token accounting\<close>

definition addOutputTokens :: "string \<Rightarrow> streamHandler \<Rightarrow> streamHandler" where
  "addOutputTokens txt h =
     (if txt = [] \<or> useUpstreamUsage (usage h) then h
      else h\<lparr>usage := (usage h)\<lparr>outputEstimator := Add (outputEstimator (usage h)) txt\<rparr>\<rparr>)"

definition finalizeOutputTokens :: "streamHandler \<Rightarrow> streamHandler" where
  "finalizeOutputTokens h =
     (if useUpstreamUsage (usage h) then h
      else h\<lparr>usage := (usage h)\<lparr>outputTokens := int (Count (outputEstimator (usage h)))\<rparr>\<rparr>)"

definition getUsageIntValue :: "event \<Rightarrow> string \<Rightarrow> int option" where
  "getUsageIntValue u key = (case map_of u key of
     Some (GInt i) \<Rightarrow> Some i
   | Some (GFloat i) \<Rightarrow> Some i
   | Some (GNumber lit) \<Rightarrow> number_Int64 lit
   | _ \<Rightarrow> None)"

definition read_usage :: "event \<Rightarrow> string list \<Rightarrow> int option" where
  "read_usage u keys = (case filter (\<lambda>k. getUsageIntValue u k \<noteq> None) keys of k # _ \<Rightarrow> getUsageIntValue u k | [] \<Rightarrow> None)"

definition metadataKeys :: "string list" where
  "metadataKeys = [''billable'', ''cacheable_tokens'', ''firstTokenDuration'', ''totalDuration'', ''serverDuration'']"

definition or_else :: "'a \<Rightarrow> 'a option \<Rightarrow> 'a" where
  "or_else d x = (case x of None \<Rightarrow> d | Some v \<Rightarrow> v)"

definition applyUpstreamUsageTokens :: "event \<Rightarrow> streamHandler \<Rightarrow> streamHandler" where
  "applyUpstreamUsageTokens u h =
     (let inp = read_usage u [''inputTokens'', ''input_tokens''];
          outp = read_usage u [''outputTokens'', ''output_tokens''];
          cached = read_usage u [''cacheReadTokens'', ''cache_read_tokens''];
          cacheWrite = read_usage u [''cacheWriteTokens'', ''cache_creation_input_tokens''];
          reasoning = read_usage u [''reasoningTokens'', ''reasoning_tokens''];
          credits = filter (\<lambda>k. map_of u k \<noteq> None) [''credits'', ''original_credits''];
          meta = filter (\<lambda>k. map_of u k \<noteq> None) metadataKeys;
          counted = list_ex (\<lambda>x. x \<noteq> None) [inp, outp, cached, cacheWrite, reasoning] \<or> credits \<noteq> [];
          g = usage h
      in if u = [] \<or> \<not> (counted \<or> meta \<noteq> []) then h
         else h\<lparr>usage := g\<lparr>useUpstreamUsage := useUpstreamUsage g \<or> counted,
           inputTokens := or_else (inputTokens g) inp, outputTokens := or_else (outputTokens g) outp,
           cachedInputTokens := or_else (cachedInputTokens g) cached,
           cacheWriteTokens := or_else (cacheWriteTokens g) cacheWrite,
           reasoningTokens := or_else (reasoningTokens g) reasoning,
           usageMetadata := foldl (\<lambda>m k. AList.update k (the (map_of u k)) m) (usageMetadata g) (meta @ credits)\<rparr>\<rparr>)"

definition setUsageTokens :: "int \<Rightarrow> int \<Rightarrow> streamHandler \<Rightarrow> streamHandler" where
  "setUsageTokens inp outp h =
     (let g = usage h in
      h\<lparr>usage := g\<lparr>useUpstreamUsage := True,
        inputTokens := (if inp \<ge> 0 then inp else inputTokens g),
        outputTokens := (if outp \<ge> 0 then outp else outputTokens g)\<rparr>\<rparr>)"

section \<open>Content blocks\<close>

definition growBuilderSlots :: "string option list \<Rightarrow> nat \<Rightarrow> string option list" where
  "growBuilderSlots slots i = slots @ replicate (i + 1 - length slots) None"

definition growSigSlots :: "string list \<Rightarrow> nat \<Rightarrow> string list" where
  "growSigSlots sigs i = sigs @ replicate (i + 1 - length sigs) []"

definition thinkingBlockSigAt :: "streamHandler \<Rightarrow> int \<Rightarrow> string option" where
  "thinkingBlockSigAt h i =
     (if i < 0 \<or> i \<ge> int (length (thinkingBlockSigs h)) then None else Some (thinkingBlockSigs h ! nat i))"

definition builderAt :: "string option list \<Rightarrow> int \<Rightarrow> string option" where
  "builderAt slots i = (if i < 0 \<or> i \<ge> int (length slots) then None else slots ! nat i)"

text \<open>\<^verbatim>\<open>historyBuilderAt\<close> followed by the \<^verbatim>\<open>WriteString\<close> of its caller.\<close>

definition historyBuilderAt_write :: "string option list \<Rightarrow> nat \<Rightarrow> string \<Rightarrow> string option list" where
  "historyBuilderAt_write slots i txt =
     (let grown = growBuilderSlots slots i in grown[i := Some (or_else [] (grown ! i) @ txt)])"

text \<open>The stop frame of the open block, taken with the block's indices reset.\<close>

definition popActiveBlockStopDataLocked :: "streamHandler \<Rightarrow> sse_event option \<times> streamHandler" where
  "popActiveBlockStopDataLocked h = (case activeBlockType h of
     NoBlock \<Rightarrow> (None, h)
   | ThinkingBlock \<Rightarrow> (Some (BlockStop (activeThinkingSSEIndex h)),
       h\<lparr>activeThinkingBlockIndex := -1, activeThinkingSSEIndex := -1, activeBlockType := NoBlock\<rparr>)
   | TextBlock \<Rightarrow> (Some (BlockStop (activeTextSSEIndex h)),
       h\<lparr>activeTextBlockIndex := -1, activeTextSSEIndex := -1, activeBlockType := NoBlock\<rparr>))"

definition closeActiveBlockLocked :: "relay_config \<Rightarrow> streamHandler \<Rightarrow> streamHandler" where
  "closeActiveBlockLocked c h = (case popActiveBlockStopDataLocked h of
     (None, h1) \<Rightarrow> h1
   | (Some e, h1) \<Rightarrow> writeSSEBytesLocked c e h1)"

definition open_thinking :: "relay_config \<Rightarrow> int \<Rightarrow> streamHandler \<Rightarrow> streamHandler" where
  "open_thinking c sseIdx h =
     (let signature = pendingThinkingSig h;
          i = length (contentBlocks h);
          h1 = h\<lparr>pendingThinkingSig := [],
                 contentBlocks := contentBlocks h @ [[(''type'', JStr ''thinking''), (''signature'', JStr signature)]],
                 activeThinkingBlockIndex := int i, activeThinkingSSEIndex := sseIdx,
                 thinkingBlockBuilders := (growBuilderSlots (thinkingBlockBuilders h) i)[i := Some []],
                 thinkingBlockSigs := (growSigSlots (thinkingBlockSigs h) i)[i := signature]\<rparr>
      in writeSSEBytesLockedWithHint c (BlockStartThinking sseIdx signature) True h1)"

definition open_text :: "relay_config \<Rightarrow> int \<Rightarrow> streamHandler \<Rightarrow> streamHandler" where
  "open_text c sseIdx h =
     (let i = length (contentBlocks h);
          h1 = h\<lparr>contentBlocks := contentBlocks h @ [[(''type'', JStr ''text'')]],
                 activeTextBlockIndex := int i, activeTextSSEIndex := sseIdx,
                 textBlockBuilders := (growBuilderSlots (textBlockBuilders h) i)[i := Some []]\<rparr>
      in writeSSEContentBlockStartTextLocked c sseIdx False h1)"

definition ensureBlock :: "relay_config \<Rightarrow> block_type \<Rightarrow> streamHandler \<Rightarrow> int \<times> streamHandler" where
  "ensureBlock c blockType h =
     (if blockType = ThinkingBlock \<and> suppressThinking c then (-1, h)
      else let h1 = (if activeBlockType h \<noteq> NoBlock \<and> activeBlockType h \<noteq> blockType then closeActiveBlockLocked c h else h) in
        if activeBlockType h1 = blockType
        then (if blockType = ThinkingBlock then activeThinkingSSEIndex h1 else activeTextSSEIndex h1, h1)
        else let sseIdx = blockIndex h1 + 1;
                 h2 = h1\<lparr>blockIndex := sseIdx, activeBlockType := blockType\<rparr>
             in (sseIdx, if blockType = ThinkingBlock then open_thinking c sseIdx h2 else open_text c sseIdx h2))"

section \<open>Tool calls\<close>

definition input_or_empty :: "string \<Rightarrow> string" where
  "input_or_empty inp = FirstNonEmptyUntrimmed [TrimSpace inp, ''{}'']"

definition emitToolCallNonStream :: "toolCall \<Rightarrow> streamHandler \<Rightarrow> streamHandler" where
  "emitToolCallNonStream call h =
     (let h1 = addOutputTokens (call_input call) (addOutputTokens (call_name call) h);
          v = or_else (JObj []) (json_Unmarshal (input_or_empty (call_input call)))
      in h1\<lparr>contentBlocks := contentBlocks h1 @
          [[(''type'', JStr ''tool_use''), (''id'', JStr (call_id call)), (''name'', JStr (call_name call)), (''input'', v)]]\<rparr>)"

definition write_tool_block :: "relay_config \<Rightarrow> int \<Rightarrow> string \<Rightarrow> string \<Rightarrow> string \<Rightarrow> bool \<Rightarrow> streamHandler \<Rightarrow> streamHandler" where
  "write_tool_block c i tid name inputJSON final h =
     writeSSEContentBlockStopLocked c i final
       (writeSSEContentBlockDeltaInputJSONLocked c i inputJSON final
          (writeSSEContentBlockStartToolUseLocked c i tid name final h))"

definition emitToolCallStream :: "relay_config \<Rightarrow> toolCall \<Rightarrow> int \<Rightarrow> bool \<Rightarrow> streamHandler \<Rightarrow> streamHandler" where
  "emitToolCallStream c call i final h =
     (if call_id call = [] then h
      else let h1 = addOutputTokens (call_input call) (addOutputTokens (call_name call) h);
               h2 = (if i < 0 then h1\<lparr>blockIndex := blockIndex h1 + 1\<rparr> else h1);
               j = (if i < 0 then blockIndex h2 else i)
           in write_tool_block c j (call_id call) (call_name call) (input_or_empty (call_input call)) final h2)"

definition emitToolUseFromInput :: "relay_config \<Rightarrow> string \<Rightarrow> string \<Rightarrow> string \<Rightarrow> streamHandler \<Rightarrow> streamHandler" where
  "emitToolUseFromInput c toolID toolName inputStr h =
     (if toolID = [] \<or> toolName = [] \<or> toolID \<in> set (toolCallEmitted h) then h
      else let h1 = addOutputTokens toolName (h\<lparr>toolCallEmitted := toolID # toolCallEmitted h\<rparr>);
               h2 = h1\<lparr>toolCallCount := toolCallCount h1 + 1, blockIndex := blockIndex h1 + 1\<rparr>
           in write_tool_block c (blockIndex h2) toolID toolName (input_or_empty inputStr) False h2)"

definition flushPendingToolCalls :: "relay_config \<Rightarrow> streamHandler \<Rightarrow> streamHandler" where
  "flushPendingToolCalls c h =
     foldl (\<lambda>g call. if isStream c then emitToolCallStream c call (-1) True g else emitToolCallNonStream call g)
       (h\<lparr>pendingToolCalls := []\<rparr>) (pendingToolCalls h)"

definition handleToolCallAfterChecks :: "toolCall \<Rightarrow> streamHandler \<Rightarrow> streamHandler" where
  "handleToolCallAfterChecks call h =
     h\<lparr>pendingToolCalls := pendingToolCalls h @ [call], toolCallCount := toolCallCount h + 1\<rparr>"

definition hasAllowedToolNameLocked :: "relay_config \<Rightarrow> string \<Rightarrow> bool" where
  "hasAllowedToolNameLocked c name \<longleftrightarrow> ToLower (TrimSpace name) \<in> set (allowedToolNames c)"

definition allowed_tool :: "relay_config \<Rightarrow> toolCall \<Rightarrow> bool" where
  "allowed_tool c call =
     (let lowerName = ToLower (TrimSpace (call_name call)) in
      allowedToolNames c = [] \<or> lowerName \<in> set (allowedToolNames c) \<or>
      (if lowerName \<in> {''taskoutput'', ''taskstop''} \<and> hasAllowedToolNameLocked c ''task'' then True
       else lowerName = ''task'' \<and> taskDelegationAllowed (allowedToolNames c) (call_input call)))"

text \<open>A rejected call may leave a sentence for an answer that has nothing else to say; the first sentence stays.\<close>

definition surface_reject :: "relay_config \<Rightarrow> bool \<Rightarrow> string \<Rightarrow> streamHandler \<Rightarrow> streamHandler" where
  "surface_reject c cond txt h =
     (if cond \<and> surfaceToolRejects c \<and> emptyOutputFallback h = [] then h\<lparr>emptyOutputFallback := txt\<rparr> else h)"

definition suppress_call :: "bool \<Rightarrow> streamHandler \<Rightarrow> streamHandler" where
  "suppress_call cond h = (if cond then h\<lparr>suppressedToolCalls := suppressedToolCalls h + 1\<rparr> else h)"

definition shouldAcceptToolCall :: "relay_config \<Rightarrow> toolCall \<Rightarrow> streamHandler \<Rightarrow> bool \<times> streamHandler" where
  "shouldAcceptToolCall c call h =
     (let allowed = allowed_tool c call;
          h1 = surface_reject c (disallowToolCalls c) (suppressedWriteContentFallback (call_name call) (call_input call)) h;
          h2 = surface_reject c (\<not> allowed) ''The upstream model attempted to use a tool that is not available in this request.'' h1;
          h3 = surface_reject c (disallowToolCalls c) ''This request did not provide a compatible tool for the attempted operation.'' h2;
          h4 = suppress_call (\<not> allowed) (suppress_call (disallowToolCalls c) h3)
      in if disallowToolCalls c \<or> \<not> allowed then (False, h4)
         else if hasNonProjectSandboxToolPath (call_name call) (call_input call)
           then (False, surface_reject c True ''The upstream model attempted an operation outside the active project.'' (suppress_call True h4))
         else if \<not> validToolCallInput (call_name call) (call_input call)
           then (False, surface_reject c True ''The upstream model returned an invalid tool request.'' (suppress_call True h4))
         else (True, h4))"

section \<open>Failures\<close>

definition writeStreamError :: "relay_config \<Rightarrow> string \<Rightarrow> string \<Rightarrow> streamHandler \<Rightarrow> streamHandler" where
  "writeStreamError c category message h =
     (if \<not> isStream c \<or> hasReturn h then h
      else let h1 = h\<lparr>hasReturn := True, requestFailed := True, w := (w h)\<lparr>failureMarked := True\<rparr>\<rparr>;
               flush = (\<lambda>wr. if hasFlusher c then wr\<lparr>flushed := length (out wr)\<rparr> else wr)
           in case write_item c (Ev (StreamError category message)) (w h1) of
                (res, wr) \<Rightarrow>
                  if \<not> formatOpenAI c then h1\<lparr>w := flush wr\<rparr>
                  else if res = Failed then h1\<lparr>w := wr\<rparr>
                  else h1\<lparr>w := flush (snd (write_item c DoneLine wr))\<rparr>)"

definition reportRequestFailure :: "relay_config \<Rightarrow> string \<Rightarrow> string \<Rightarrow> duration \<Rightarrow> streamHandler \<Rightarrow> streamHandler" where
  "reportRequestFailure c category message retryAfter h =
     (if isStream c \<and> hasCommitted h then writeStreamError c category message h
      else if hasReturn h then h
      else h\<lparr>hasReturn := True, requestFailed := True,
             w := snd (write_item c (HttpError (NewWithRetryAfter category message (StatusForCategory category) retryAfter)) (w h))\<rparr>)"

definition PoolRetriesExhaustedMessage :: string where
  "PoolRetriesExhaustedMessage = ''Request failed: retries exhausted and no available accounts. Please check account statuses in Admin UI or add valid accounts.''"

definition InjectNoAvailableAccountError :: "relay_config \<Rightarrow> string \<Rightarrow> string option \<Rightarrow> streamHandler \<Rightarrow> streamHandler" where
  "InjectNoAvailableAccountError c lastErr selectErr h =
     (let pool = ClassifyPoolExhaustion selectErr lastErr;
          verdict = (if Empty pool then answer (ec_Category (ClassifyUpstreamError lastErr)) PoolRetriesExhaustedMessage else pool)
      in reportRequestFailure c (pe_Category verdict) (pe_Message verdict) 0 h)"

definition resetRoundState :: "relay_config \<Rightarrow> streamHandler \<Rightarrow> streamHandler" where
  "resetRoundState c h =
     (let h1 = closeActiveBlockLocked c h in
      h1\<lparr>activeThinkingBlockIndex := -1, activeThinkingSSEIndex := -1, activeTextBlockIndex := -1, activeTextSSEIndex := -1,
         activeBlockType := NoBlock, hasReturn := False, responseText := [], contentBlocks := [],
         textBlockBuilders := [], thinkingBlockBuilders := [], thinkingBlockSigs := [],
         pendingToolCalls := [], toolCallHandled := [], toolCallEmitted := [], toolCallCount := 0,
         usage := (usage h1)\<lparr>outputTokens := 0, cachedInputTokens := 0, cacheWriteTokens := 0, reasoningTokens := 0,
           usageMetadata := [], outputEstimator := Reset (outputEstimator (usage h1)), useUpstreamUsage := False\<rparr>,
         completionLogged := False, finalStopReason := [], hasTextOutput := False,
         w := (w h1)\<lparr>deferredFlushFrames := 0, deferredFlushBytes := 0\<rparr>\<rparr>)"

section \<open>Messages\<close>

definition event_str :: "event option \<Rightarrow> string \<Rightarrow> string" where
  "event_str ev k = (case ev of None \<Rightarrow> [] | Some m \<Rightarrow> (case map_of m k of Some (GStr s) \<Rightarrow> s | _ \<Rightarrow> []))"

definition extractThinkingSignature :: "event option \<Rightarrow> string" where
  "extractThinkingSignature ev = (case ev of
     None \<Rightarrow> []
   | Some m \<Rightarrow> (case map_of m ''signature'' of
       Some (GStr s) \<Rightarrow> TrimSpace s
     | _ \<Rightarrow> (case map_of m ''data'' of
         Some (GMap d) \<Rightarrow> (case map_of d ''signature'' of Some (GStr s) \<Rightarrow> TrimSpace s | _ \<Rightarrow> [])
       | _ \<Rightarrow> [])))"

definition hasVisibleOutput :: "streamHandler \<Rightarrow> bool" where
  "hasVisibleOutput h \<longleftrightarrow> hasTextOutput h \<or> toolCallCount h > 0 \<or> pendingToolCalls h \<noteq> [] \<or> toolCallEmitted h \<noteq> [] \<or> responseText h \<noteq> []"

definition hasAnyOutput :: "streamHandler \<Rightarrow> bool" where
  "hasAnyOutput h \<longleftrightarrow> hasReasoningOutput h \<or> useUpstreamUsage (usage h) \<or> hasVisibleOutput h"

definition has_tool_calls :: "streamHandler \<Rightarrow> bool" where
  "has_tool_calls h \<longleftrightarrow> toolCallCount h > 0 \<or> pendingToolCalls h \<noteq> [] \<or> toolCallEmitted h \<noteq> []"

definition note_text :: "relay_config \<Rightarrow> string \<Rightarrow> streamHandler \<Rightarrow> streamHandler" where
  "note_text c delta h =
     (let i = activeTextBlockIndex h;
          h1 = addOutputTokens delta h;
          h2 = (if isStream c then h1 else h1\<lparr>responseText := responseText h1 @ delta\<rparr>)
      in if 0 \<le> i \<and> i < int (length (contentBlocks h2))
         then h2\<lparr>textBlockBuilders := historyBuilderAt_write (textBlockBuilders h2) (nat i) delta\<rparr> else h2)"

definition text_target :: "relay_config \<Rightarrow> streamHandler \<Rightarrow> int \<times> streamHandler" where
  "text_target c h = (if activeTextSSEIndex h < 0 then ensureBlock c TextBlock h else (activeTextSSEIndex h, h))"

definition textDelta :: "relay_config \<Rightarrow> string \<Rightarrow> streamHandler \<Rightarrow> streamHandler" where
  "textDelta c delta h =
     (if delta = [] then h
      else case text_target c (h\<lparr>hasTextOutput := True\<rparr>) of
        (sseIdx, h1) \<Rightarrow> writeSSEContentBlockDeltaTextLocked c sseIdx delta False (note_text c delta h1))"

text \<open>A signature is recorded on the open thinking block unless it already has one.\<close>

definition record_signature :: "string \<Rightarrow> streamHandler \<Rightarrow> streamHandler" where
  "record_signature sig h =
     (let i = activeThinkingBlockIndex h in
      if 0 \<le> i \<and> i < int (length (contentBlocks h)) \<and> thinkingBlockSigAt h i = Some []
      then h\<lparr>thinkingBlockSigs := (thinkingBlockSigs h)[nat i := sig],
             contentBlocks := (contentBlocks h)[nat i := put_field (contentBlocks h ! nat i) (''signature'', JStr sig)]\<rparr>
      else h)"

definition note_thinking :: "relay_config \<Rightarrow> string \<Rightarrow> streamHandler \<Rightarrow> streamHandler" where
  "note_thinking c delta h =
     (let i = activeThinkingBlockIndex h;
          h1 = (if isStream c \<and> \<not> useUpstreamUsage (usage h)
                then h\<lparr>usage := (usage h)\<lparr>outputTokens := outputTokens (usage h) + int (EstimateTextTokens delta)\<rparr>\<rparr> else h)
      in if 0 \<le> i \<and> i < int (length (contentBlocks h1))
         then h1\<lparr>thinkingBlockBuilders := historyBuilderAt_write (thinkingBlockBuilders h1) (nat i) delta\<rparr> else h1)"

definition thinking_delta :: "relay_config \<Rightarrow> string \<Rightarrow> string \<Rightarrow> streamHandler \<Rightarrow> streamHandler" where
  "thinking_delta c sig delta h =
     (let sseIdx0 = activeThinkingSSEIndex h;
          h1 = (if sig \<noteq> [] then record_signature sig h else h)
      in case (if sseIdx0 < 0 then ensureBlock c ThinkingBlock h1 else (sseIdx0, h1)) of
           (sseIdx, h2) \<Rightarrow> writeSSEContentBlockDeltaThinkingLocked c sseIdx delta False (note_thinking c delta h2))"

definition reasoningDelta :: "relay_config \<Rightarrow> event option \<Rightarrow> streamHandler \<Rightarrow> streamHandler" where
  "reasoningDelta c ev h =
     (let sig = (if pendingThinkingSig h = [] then extractThinkingSignature ev else pendingThinkingSig h);
          h1 = h\<lparr>pendingThinkingSig := sig\<rparr>;
          delta = event_str ev ''delta''
      in if delta = [] then (if sig \<noteq> [] then record_signature sig (snd (ensureBlock c ThinkingBlock h1)) else h1)
         else thinking_delta c sig delta (h1\<lparr>hasReasoningOutput := True\<rparr>))"

section \<open>The end of a response\<close>

definition validateStructuredAnswer :: "relay_config \<Rightarrow> streamHandler \<Rightarrow> string option" where
  "validateStructuredAnswer c h = (if TrimSpace (responseText h) = [] then None else structured c (responseText h))"

text \<open>An answer without visible output is given the fallback sentence, as a text delta of its own.\<close>

definition apply_fallback :: "relay_config \<Rightarrow> streamHandler \<Rightarrow> streamHandler" where
  "apply_fallback c h =
     (if hasVisibleOutput h \<or> emptyOutputFallback h = [] then h
      else let h1 = h\<lparr>usage := (usage h)\<lparr>useUpstreamUsage := False, outputTokens := 0, outputEstimator := Reset (outputEstimator (usage h))\<rparr>\<rparr>
           in if hasReturn h1 then h1 else textDelta c (emptyOutputFallback h) h1)"

definition write_terminal :: "relay_config \<Rightarrow> string \<Rightarrow> streamHandler \<Rightarrow> streamHandler" where
  "write_terminal c stopReason h =
     (if isStream c then
        let h1 = (case popActiveBlockStopDataLocked h of (None, g) \<Rightarrow> g | (Some e, g) \<Rightarrow> writeFinalSSEBytes c e g);
            h2 = finalizeOutputTokens (flushPendingToolCalls c h1);
            h3 = writeSSEMessageDeltaLocked c stopReason (outputTokens (usage h2)) True h2
        in writeFinalSSEBytes c MessageStop h3
      else finalizeOutputTokens (flushPendingToolCalls c h))"

definition finalizeCompletion :: "streamHandler \<Rightarrow> streamHandler" where
  "finalizeCompletion h = h\<lparr>completionLogged := True\<rparr>"

definition finishResponse :: "relay_config \<Rightarrow> string \<Rightarrow> streamHandler \<Rightarrow> streamHandler" where
  "finishResponse c stopReason0 h =
     (let stopReason = (if stopReason0 = ''tool_use'' \<and> \<not> has_tool_calls h then ''end_turn'' else stopReason0) in
      case validateStructuredAnswer c h of
        Some err \<Rightarrow> reportRequestFailure c ''schema_mismatch'' err 0 h
      | None \<Rightarrow>
          (case ensureMessageStartLocked c (apply_fallback c h) of
             (opened, h1) \<Rightarrow>
               if isStream c \<and> \<not> opened \<and> \<not> messageStartWritten h1 then h1
               else if hasReturn h1 then h1
               else finalizeCompletion (write_terminal c stopReason (h1\<lparr>hasReturn := True, finalStopReason := stopReason\<rparr>))))"

definition forceFinishIfMissing :: "relay_config \<Rightarrow> streamHandler \<Rightarrow> streamHandler" where
  "forceFinishIfMissing c h =
     (if hasReturn h then h else finishResponse c (if has_tool_calls h then ''tool_use'' else ''end_turn'') h)"

definition modelFinish :: "relay_config \<Rightarrow> event option \<Rightarrow> streamHandler \<Rightarrow> streamHandler" where
  "modelFinish c ev h =
     (let m = or_else [] ev;
          h1 = (case map_of m ''usage'' of Some (GMap u) \<Rightarrow> applyUpstreamUsageTokens u h | _ \<Rightarrow> h);
          r0 = (case map_of m ''finishReason'' of
            Some (GStr f) \<Rightarrow>
              (if f \<in> {''tool-calls'', ''tool_use''} then ''tool_use''
               else if f \<in> {''max_tokens'', ''max_token_limit''} then ''max_tokens'' else ''end_turn'')
          | _ \<Rightarrow> ''end_turn'');
          r1 = (if toolCallEmitted h1 \<noteq> [] then ''tool_use'' else r0);
          r2 = (if r1 = ''tool_use'' \<and> \<not> has_tool_calls h1 then ''end_turn'' else r1)
      in finishResponse c r2 (closeActiveBlockLocked c h1))"

definition toolCallEvent :: "relay_config \<Rightarrow> event option \<Rightarrow> streamHandler \<Rightarrow> streamHandler option" where
  "toolCallEvent c ev h =
     (let toolID = event_str ev ''toolCallId'' in
      case normalizeUpstreamToolCall (lib c) (event_str ev ''toolName'') (event_str ev ''input'') of
        (name0, input0) \<Rightarrow>
          (case rewriteToolCallToClient (lib c) (clientTools c) name0 input0 of
             None \<Rightarrow> None
           | Some (toolName, inputStr) \<Rightarrow>
               if toolID = [] \<or> toolID \<in> set (toolCallHandled h) then Some h
               else let call = \<lparr>call_id = toolID, call_name = toolName, call_input = inputStr\<rparr> in
                 (case shouldAcceptToolCall c call h of
                    (False, h1) \<Rightarrow> Some h1
                  | (True, h1) \<Rightarrow>
                      (let h2 = h1\<lparr>toolCallHandled := toolID # toolCallHandled h1\<rparr> in
                       Some (if isStream c then emitToolUseFromInput c toolID toolName inputStr h2
                             else handleToolCallAfterChecks call h2)))))"

definition event_key :: "SSEMessage \<Rightarrow> string" where
  "event_key msg = (case m_Event msg of
     Some m \<Rightarrow> (if m_Type msg = ''model'' then (case map_of m ''type'' of Some (GStr t) \<Rightarrow> ''model.'' @ t | _ \<Rightarrow> m_Type msg) else m_Type msg)
   | None \<Rightarrow> m_Type msg)"

text \<open>One upstream message; \<^const>\<open>None\<close> is the panic of the tool rewriting.\<close>

definition handleMessage :: "relay_config \<Rightarrow> SSEMessage \<Rightarrow> streamHandler \<Rightarrow> streamHandler option" where
  "handleMessage c msg h =
     (let key = event_key msg; ev = m_Event msg in
      if hasReturn h then Some h
      else if suppressThinking c \<and> HasPrefix key ''model.reasoning-'' then
        Some (if key = ''model.reasoning-delta'' \<and> event_str ev ''delta'' \<noteq> [] then h\<lparr>hasReasoningOutput := True\<rparr> else h)
      else if key = ''model.reasoning-start'' then
        (let sig = extractThinkingSignature ev; h1 = h\<lparr>pendingThinkingSig := sig\<rparr> in
         Some (if sig \<noteq> [] then snd (ensureBlock c ThinkingBlock h1) else h1))
      else if key = ''model.reasoning-delta'' then Some (reasoningDelta c ev h)
      else if key = ''model.reasoning-end'' then Some (closeActiveBlockLocked c h)
      else if key = ''model.text-start'' then Some (snd (ensureBlock c TextBlock h))
      else if key = ''model.text-delta'' then Some (textDelta c (event_str ev ''delta'') h)
      else if key = ''model.text-end'' then Some (closeActiveBlockLocked c h)
      else if key = ''model.tool-call'' then toolCallEvent c ev h
      else if key = ''model.tokens-used'' then Some (applyUpstreamUsageTokens (or_else [] ev) h)
      else if key = ''model.finish'' then Some (modelFinish c ev h)
      else Some h)"

end
