(* ===== verification/Relay_Stream.thy ===== *)
theory Relay_Stream
  imports Relay
begin

text \<open>
  What the client of a relayed response sees (\<^verbatim>\<open>streamHandler\<close> of \<^verbatim>\<open>src/internal/handler/stream_handler.go\<close>): a reader of
  the stream as an automaton, the runs of a handler as a step relation, and the invariant that ties the handler's state to
  the reader's.
\<close>

section \<open>A reader of the stream\<close>

datatype kind = KText | KThinking | KTool

datatype reader = Idle | Open "(int \<times> kind) list" int | Closing | Ended | Aborted | Refused

fun read_event :: "(int \<times> kind) list \<Rightarrow> int \<Rightarrow> sse_event \<Rightarrow> reader option" where
  "read_event bs n (BlockStartText i) = (if i = n then Some (Open ((i, KText) # bs) (n + 1)) else None)"
| "read_event bs n (BlockStartThinking i _) = (if i = n then Some (Open ((i, KThinking) # bs) (n + 1)) else None)"
| "read_event bs n (BlockStartToolUse i _ _) = (if i = n then Some (Open ((i, KTool) # bs) (n + 1)) else None)"
| "read_event bs n (DeltaText i _) = (if (i, KText) \<in> set bs then Some (Open bs n) else None)"
| "read_event bs n (DeltaThinking i _) = (if (i, KThinking) \<in> set bs then Some (Open bs n) else None)"
| "read_event bs n (DeltaInputJSON i _) = (if (i, KTool) \<in> set bs then Some (Open bs n) else None)"
| "read_event bs n (BlockStop i) = (if i \<in> fst ` set bs then Some (Open (filter (\<lambda>b. fst b \<noteq> i) bs) n) else None)"
| "read_event bs n (MessageDelta _ _) = (if bs = [] then Some Closing else None)"
| "read_event bs n (StreamError _ _) = Some Aborted"
| "read_event bs n KeepAlive = Some (Open bs n)"
| "read_event bs n _ = None"

fun read1 :: "reader \<Rightarrow> out_item \<Rightarrow> reader option" where
  "read1 Idle (Ev (MessageStart _ _ _ _)) = Some (Open [] 0)"
| "read1 Idle (HttpError _) = Some Refused"
| "read1 (Open bs n) (Ev e) = read_event bs n e"
| "read1 Closing (Ev MessageStop) = Some Ended"
| "read1 Ended DoneLine = Some Ended"
| "read1 Aborted DoneLine = Some Aborted"
| "read1 _ _ = None"

fun read_all :: "reader \<Rightarrow> out_item list \<Rightarrow> reader option" where
  "read_all r [] = Some r"
| "read_all r (x # xs) = (case read1 r x of None \<Rightarrow> None | Some r' \<Rightarrow> read_all r' xs)"

definition finished :: "reader \<Rightarrow> bool" where
  "finished r \<longleftrightarrow> r = Ended \<or> r = Aborted \<or> r = Refused"

lemma read_all_append:
  "read_all r (xs @ ys) = (case read_all r xs of None \<Rightarrow> None | Some r' \<Rightarrow> read_all r' ys)"
  by (induction r xs rule: read_all.induct) (auto split: option.split)

section \<open>Writes\<close>

abbreviation log :: "streamHandler \<Rightarrow> out_item list" where "log h \<equiv> out (w h)"
abbreviation broken :: "streamHandler \<Rightarrow> bool" where "broken h \<equiv> room (w h) = Some 0"

lemma write_item_broken: "room wr = Some 0 \<Longrightarrow> write_item c x wr = (if item_bytes c x = [] then Nothing else Failed, wr)"
  by (simp add: write_item_def Let_def)

lemma write_item_open:
  assumes "room wr \<noteq> Some 0"
  obtains r where "write_item c x wr = (if item_bytes c x = [] then Nothing else Written, wr\<lparr>out := out wr @ [x], room := r\<rparr>)"
    "room wr = None \<Longrightarrow> r = None"
proof (cases "room wr")
  case None
  then have "write_item c x wr = (if item_bytes c x = [] then Nothing else Written, wr\<lparr>out := out wr @ [x], room := room wr\<rparr>)"
    by (simp add: write_item_def Let_def)
  then show ?thesis by (rule that) (rule None)
next
  case (Some n)
  then obtain m where "n = Suc m" using assms by (cases n) auto
  with Some have "write_item c x wr = (if item_bytes c x = [] then Nothing else Written,
      wr\<lparr>out := out wr @ [x], room := (if item_bytes c x = [] then room wr else Some m)\<rparr>)"
    by (simp add: write_item_def Let_def)
  then show ?thesis by (rule that) (use Some in simp)
qed

lemma flush_simps [simp]:
  "out (flushSSEWithLenLocked c ev n i f wr) = out wr" "room (flushSSEWithLenLocked c ev n i f wr) = room wr"
  by (simp_all add: flushSSEWithLenLocked_def flush_now_def Let_def)

text \<open>A write changes only the writer and, when it fails, the marks of a failed request.\<close>

definition sent :: "streamHandler \<Rightarrow> streamHandler \<Rightarrow> bool" where
  "sent h h' \<longleftrightarrow> h' = h\<lparr>w := w h', hasReturn := hasReturn h', requestFailed := requestFailed h', finalStopReason := finalStopReason h'\<rparr> \<and>
     (hasReturn h \<longrightarrow> hasReturn h') \<and> (requestFailed h' \<longrightarrow> requestFailed h \<or> (hasReturn h' \<and> broken h')) \<and>
     (requestFailed h \<longrightarrow> requestFailed h')"

definition grows :: "streamHandler \<Rightarrow> streamHandler \<Rightarrow> bool" where
  "grows h h' \<longleftrightarrow> (\<exists>xs. log h' = log h @ xs) \<and> (broken h \<longrightarrow> broken h' \<and> log h' = log h) \<and>
     (room (w h) = None \<longrightarrow> room (w h') = None)"

definition emitted :: "out_item list \<Rightarrow> streamHandler \<Rightarrow> streamHandler \<Rightarrow> bool" where
  "emitted xs h h' \<longleftrightarrow> sent h h' \<and> grows h h' \<and>
     ((h' = h\<lparr>w := w h'\<rparr> \<and> log h' = log h @ xs) \<or> (broken h' \<and> (\<exists>ys zs. xs = ys @ zs \<and> log h' = log h @ ys)))"

lemma sent_refl [simp, intro]: "sent h h"
  by (simp add: sent_def)

lemma sent_fields:
  assumes "sent h h'"
  shows "usage h' = usage h" "blockIndex h' = blockIndex h" "completionLogged h' = completionLogged h"
    "messageStartWritten h' = messageStartWritten h" "hasReasoningOutput h' = hasReasoningOutput h"
    "emptyOutputFallback h' = emptyOutputFallback h"
    "activeThinkingBlockIndex h' = activeThinkingBlockIndex h" "activeThinkingSSEIndex h' = activeThinkingSSEIndex h"
    "activeTextBlockIndex h' = activeTextBlockIndex h" "activeTextSSEIndex h' = activeTextSSEIndex h"
    "activeBlockType h' = activeBlockType h" "responseText h' = responseText h" "textBlockBuilders h' = textBlockBuilders h"
    "contentBlocks h' = contentBlocks h" "hasTextOutput h' = hasTextOutput h" "pendingToolCalls h' = pendingToolCalls h"
    "toolCallHandled h' = toolCallHandled h" "toolCallEmitted h' = toolCallEmitted h" "toolCallCount h' = toolCallCount h"
    "pendingThinkingSig h' = pendingThinkingSig h"
proof -
  have h': "h' = h\<lparr>w := w h', hasReturn := hasReturn h', requestFailed := requestFailed h', finalStopReason := finalStopReason h'\<rparr>"
    using assms by (simp add: sent_def)
  show "usage h' = usage h" by (subst h') simp
  show "blockIndex h' = blockIndex h" by (subst h') simp
  show "completionLogged h' = completionLogged h" by (subst h') simp
  show "messageStartWritten h' = messageStartWritten h" by (subst h') simp
  show "hasReasoningOutput h' = hasReasoningOutput h" by (subst h') simp
  show "emptyOutputFallback h' = emptyOutputFallback h" by (subst h') simp
  show "activeThinkingBlockIndex h' = activeThinkingBlockIndex h" by (subst h') simp
  show "activeThinkingSSEIndex h' = activeThinkingSSEIndex h" by (subst h') simp
  show "activeTextBlockIndex h' = activeTextBlockIndex h" by (subst h') simp
  show "activeTextSSEIndex h' = activeTextSSEIndex h" by (subst h') simp
  show "activeBlockType h' = activeBlockType h" by (subst h') simp
  show "responseText h' = responseText h" by (subst h') simp
  show "textBlockBuilders h' = textBlockBuilders h" by (subst h') simp
  show "contentBlocks h' = contentBlocks h" by (subst h') simp
  show "hasTextOutput h' = hasTextOutput h" by (subst h') simp
  show "pendingToolCalls h' = pendingToolCalls h" by (subst h') simp
  show "toolCallHandled h' = toolCallHandled h" by (subst h') simp
  show "toolCallEmitted h' = toolCallEmitted h" by (subst h') simp
  show "toolCallCount h' = toolCallCount h" by (subst h') simp
  show "pendingThinkingSig h' = pendingThinkingSig h" by (subst h') simp
qed

lemma sent_return: "sent h h' \<Longrightarrow> hasReturn h \<Longrightarrow> hasReturn h'"
  and sent_failed: "sent h h' \<Longrightarrow> requestFailed h' \<Longrightarrow> requestFailed h \<or> (hasReturn h' \<and> broken h')"
  by (auto simp: sent_def)

lemma grows_refl [simp, intro]: "grows h h"
  by (simp add: grows_def)

lemma grows_trans: "grows h g \<Longrightarrow> grows g k \<Longrightarrow> grows h k"
  by (auto simp: grows_def)

lemma grows_same_writer: "w h' = w h \<Longrightarrow> grows h h'"
  by (simp add: grows_def)

lemma emitted_sent: "emitted xs h h' \<Longrightarrow> sent h h'"
  and emitted_grows: "emitted xs h h' \<Longrightarrow> grows h h'"
  by (simp_all add: emitted_def)

lemma emitted_refl: "emitted [] h h"
  by (simp add: emitted_def)

lemma sent_trans:
  assumes "sent h g" "sent g k" "grows g k"
  shows "sent h k"
proof -
  have "k = h\<lparr>w := w k, hasReturn := hasReturn k, requestFailed := requestFailed k, finalStopReason := finalStopReason k\<rparr>"
  proof -
    have "g\<lparr>w := w k, hasReturn := hasReturn k, requestFailed := requestFailed k, finalStopReason := finalStopReason k\<rparr> =
        h\<lparr>w := w k, hasReturn := hasReturn k, requestFailed := requestFailed k, finalStopReason := finalStopReason k\<rparr>"
      by (subst conjunct1 [OF assms(1) [unfolded sent_def]]) simp
    then show ?thesis using assms(2) by (simp add: sent_def)
  qed
  then show ?thesis using assms by (auto simp: sent_def grows_def)
qed

lemma emitted_trans:
  assumes "emitted xs h g" "\<not> broken g \<Longrightarrow> g = h\<lparr>w := w g\<rparr> \<Longrightarrow> emitted ys g k" "sent g k" "grows g k"
  shows "emitted (xs @ ys) h k"
proof -
  have s: "sent h k" "grows h k"
    using sent_trans [OF emitted_sent [OF assms(1)] assms(3,4)] grows_trans [OF emitted_grows [OF assms(1)] assms(4)] by auto
  have b: "broken g \<Longrightarrow> broken k \<and> log k = log g" using assms(4) by (simp add: grows_def)
  show ?thesis
  proof (cases "broken g")
    case True
    then show ?thesis using assms(1) b s by (auto simp: emitted_def intro: exI [where x = ys])
  next
    case False
    then have g: "g = h\<lparr>w := w g\<rparr>" "log g = log h @ xs" using assms(1) by (auto simp: emitted_def)
    have e: "emitted ys g k" using assms(2) [OF False g(1)] .
    from e consider "k = g\<lparr>w := w k\<rparr>" "log k = log g @ ys" | us vs where "broken k" "ys = us @ vs" "log k = log g @ us"
      by (auto simp: emitted_def)
    then show ?thesis
    proof cases
      case 1
      have "g\<lparr>w := w k\<rparr> = h\<lparr>w := w k\<rparr>" by (subst g(1)) simp
      with 1 show ?thesis using s g(2) by (simp add: emitted_def)
    next
      case 2
      then have "xs @ ys = (xs @ us) @ vs" "log k = log h @ (xs @ us)" using g(2) by auto
      then show ?thesis using s 2(1) unfolding emitted_def by blast
    qed
  qed
qed

lemma emitted_broken_start:
  assumes "broken h" "sent h h'" "grows h h'"
  shows "emitted xs h h'"
  using assms by (auto simp: emitted_def grows_def intro: exI [where x = xs])

section \<open>The writers of frames\<close>

definition tail_items :: "relay_config \<Rightarrow> sse_event \<Rightarrow> bool \<Rightarrow> out_item list" where
  "tail_items c e final = (if final \<and> e = MessageStop \<and> formatOpenAI c then [DoneLine] else [])"

lemma message_stop_name: "event_name e = ''message_stop'' \<longleftrightarrow> e = MessageStop"
  by (cases e) auto

lemma message_start_name: "event_name e = ''message_start'' \<longleftrightarrow> (\<exists>i m a b. e = MessageStart i m a b)"
  by (cases e) auto

text \<open>One write as the frame writer makes it: a failed write marks the request, any other is flushed.\<close>

definition write_or_mark :: "relay_config \<Rightarrow> out_item \<Rightarrow> (write_result \<Rightarrow> writer \<Rightarrow> writer) \<Rightarrow> streamHandler \<Rightarrow> streamHandler" where
  "write_or_mark c x fl h = (case write_item c x (w h) of (res, wr) \<Rightarrow>
     if res = Failed then markWriteErrorLocked (h\<lparr>w := wr\<rparr>) else h\<lparr>w := fl res wr\<rparr>)"

lemma write_or_mark_emitted:
  assumes fl: "\<And>res wr. out (fl res wr) = out wr \<and> room (fl res wr) = room wr"
  shows "emitted [x] h (write_or_mark c x fl h)"
proof (cases "broken h")
  case True
  then have wi: "write_item c x (w h) = (if item_bytes c x = [] then Nothing else Failed, w h)" by (rule write_item_broken)
  show ?thesis
  proof (rule emitted_broken_start [OF True])
    show "sent h (write_or_mark c x fl h)" "grows h (write_or_mark c x fl h)"
      using True fl by (simp_all add: write_or_mark_def wi sent_def grows_def markWriteErrorLocked_def)
  qed
next
  case False
  then obtain r where r: "write_item c x (w h) = (if item_bytes c x = [] then Nothing else Written, (w h)\<lparr>out := log h @ [x], room := r\<rparr>)"
    "room (w h) = None \<Longrightarrow> r = None"
    using write_item_open by metis
  show ?thesis using fl False r(2) by (simp add: emitted_def write_or_mark_def r(1) sent_def grows_def)
qed

lemma write_or_mark_twice:
  assumes "broken h" "item_bytes c x \<noteq> []"
  shows "write_or_mark c x fl (markWriteErrorLocked h) = markWriteErrorLocked h"
  using assms by (simp add: write_or_mark_def write_item_broken markWriteErrorLocked_def)

lemma done_bytes: "item_bytes c DoneLine \<noteq> []"
  by (simp add: item_bytes_def sseDoneLine_def)

definition frame_flush :: "relay_config \<Rightarrow> sse_event \<Rightarrow> bool \<Rightarrow> bool \<Rightarrow> write_result \<Rightarrow> writer \<Rightarrow> writer" where
  "frame_flush c e immediate final res wr =
     (if formatOpenAI c \<and> res \<noteq> Written then wr else flushSSEWithLenLocked c (event_name e) (length (payload e)) immediate final wr)"

definition done_flush :: "relay_config \<Rightarrow> sse_event \<Rightarrow> write_result \<Rightarrow> writer \<Rightarrow> writer" where
  "done_flush c e res wr = flushSSEWithLenLocked c (event_name e) (length sseDoneLine) True True wr"

lemma frame_flush_keeps: "out (frame_flush c e i f res wr) = out wr \<and> room (frame_flush c e i f res wr) = room wr"
  and done_flush_keeps: "out (done_flush c e res wr) = out wr \<and> room (done_flush c e res wr) = room wr"
  by (simp_all add: frame_flush_def done_flush_def)

lemma emit_eq:
  assumes "isStream c"
  shows "emitSSEFrameLocked c e immediate final h =
    (let h1 = write_or_mark c (Ev e) (frame_flush c e immediate final) h in
     if formatOpenAI c \<and> final \<and> e = MessageStop then write_or_mark c DoneLine (done_flush c e) h1 else h1)"
proof (cases "write_item c (Ev e) (w h)")
  case (Pair res wr)
  show ?thesis
  proof (cases "res = Failed")
    case True
    then have "broken (h\<lparr>w := wr\<rparr>)" using Pair by (auto simp: write_item_def Let_def split: if_splits option.splits nat.splits)
    then show ?thesis using assms Pair True write_or_mark_twice [OF _ done_bytes, of "h\<lparr>w := wr\<rparr>" c "done_flush c e"]
      by (auto simp: emitSSEFrameLocked_def write_or_mark_def [of c "Ev e"] write_or_mark_def [of c "Ev MessageStop"] Let_def)
  next
    case False
    show ?thesis
    proof (cases "final \<and> e = MessageStop \<and> formatOpenAI c")
      case True
      obtain res2 wr2 where p: "write_item c DoneLine (frame_flush c e immediate final res wr) = (res2, wr2)" by fastforce
      have q: "write_item c DoneLine (if res = Written then flushSSEWithLenLocked c (event_name e) (length (payload e)) immediate final wr else wr) = (res2, wr2)"
        using p True by (simp add: frame_flush_def split: if_splits)
      have "emitSSEFrameLocked c e immediate final h =
          (if res2 = Failed then markWriteErrorLocked (h\<lparr>w := wr2\<rparr>) else h\<lparr>w := done_flush c e res2 wr2\<rparr>)"
        using assms True \<open>res \<noteq> Failed\<close> Pair q
        by (cases res; cases res2) (simp_all add: emitSSEFrameLocked_def done_flush_def)
      then show ?thesis using True \<open>res \<noteq> Failed\<close> Pair p by (simp add: write_or_mark_def)
    next
      case no: False
      then have "final \<Longrightarrow> formatOpenAI c \<Longrightarrow> event_name e \<noteq> ''message_stop''" by (simp add: message_stop_name)
      then show ?thesis using assms no \<open>res \<noteq> Failed\<close> Pair
        by (cases res; cases "formatOpenAI c") (auto simp: emitSSEFrameLocked_def write_or_mark_def frame_flush_def Let_def)
    qed
  qed
qed

lemma emit_emitted:
  assumes "isStream c"
  shows "emitted (Ev e # tail_items c e final) h (emitSSEFrameLocked c e immediate final h)"
proof -
  let ?g = "write_or_mark c (Ev e) (frame_flush c e immediate final) h"
  have g: "emitted [Ev e] h ?g" by (rule write_or_mark_emitted) (rule frame_flush_keeps)
  have k: "emitted [DoneLine] ?g (write_or_mark c DoneLine (done_flush c e) ?g)" by (rule write_or_mark_emitted) (rule done_flush_keeps)
  show ?thesis
  proof (cases "formatOpenAI c \<and> final \<and> e = MessageStop")
    case True
    then show ?thesis
      using emitted_trans [OF g k emitted_sent [OF k] emitted_grows [OF k]] by (simp add: emit_eq [OF assms] tail_items_def)
  next
    case False
    then show ?thesis using g by (auto simp: emit_eq [OF assms] tail_items_def)
  qed
qed

lemma emit_off: "\<not> isStream c \<Longrightarrow> emitSSEFrameLocked c e immediate final h = h"
  by (simp add: emitSSEFrameLocked_def)

lemma emit_sent [simp]: "sent h (emitSSEFrameLocked c e immediate final h)"
  and emit_grows [simp]: "grows h (emitSSEFrameLocked c e immediate final h)"
  using emit_emitted [of c e final h immediate] emit_off [of c e immediate final h]
  by (cases "isStream c"; simp add: emitted_def)+

text \<open>A frame of the relay opens the stream first.\<close>

abbreviation opened :: "streamHandler \<Rightarrow> streamHandler" where "opened h \<equiv> h\<lparr>messageStartWritten := True\<rparr>"

definition start_items :: "relay_config \<Rightarrow> streamHandler \<Rightarrow> out_item list" where
  "start_items c h = (if messageStartWritten h then [] else [Ev (MessageStart (msgID c) (pendingModel c) (inputTokens (usage h)) 0)])"

definition writable :: "relay_config \<Rightarrow> streamHandler \<Rightarrow> bool" where
  "writable c h \<longleftrightarrow> isStream c \<and> \<not> hasReturn h \<and> (requestFailed h \<longrightarrow> messageStartWritten h)"

lemma opened_id: "messageStartWritten h \<Longrightarrow> opened h = h"
  by (cases h) simp

lemma start_emitted:
  assumes "writable c h"
  shows "fst (ensureMessageStartLocked c h)" "emitted (start_items c h) (opened h) (snd (ensureMessageStartLocked c h))"
proof -
  have e: "emitted [Ev (MessageStart (msgID c) (pendingModel c) (inputTokens (usage h)) 0)] (opened h)
      (emitSSEFrameLocked c (MessageStart (msgID c) (pendingModel c) (inputTokens (usage h)) 0) True False (opened h))"
    using emit_emitted [of c _ False] assms by (simp add: writable_def tail_items_def)
  show "fst (ensureMessageStartLocked c h)" "emitted (start_items c h) (opened h) (snd (ensureMessageStartLocked c h))"
    using assms e sent_fields(4) [OF emitted_sent [OF e]] emitted_refl [of h]
    by (auto simp: opened_id ensureMessageStartLocked_def writeMessageStartLocked_def start_items_def writable_def Let_def)
qed

lemma hint_emitted:
  assumes "writable c h" "event_name e \<noteq> ''message_start''"
  shows "emitted (start_items c h @ [Ev e]) (opened h) (writeSSEBytesLockedWithHint c e immediate h)"
proof -
  let ?g = "snd (ensureMessageStartLocked c h)"
  have eq: "writeSSEBytesLockedWithHint c e immediate h = emitSSEFrameLocked c e immediate False ?g"
    using assms start_emitted(1) [OF assms(1)] by (cases "ensureMessageStartLocked c h") (auto simp: writeSSEBytesLockedWithHint_def writable_def)
  show ?thesis unfolding eq
    by (rule emitted_trans [OF start_emitted(2) [OF assms(1)]])
      (use emit_emitted [of c e False ?g immediate] assms in \<open>simp_all add: writable_def tail_items_def\<close>)
qed

lemma hint_off: "\<not> isStream c \<or> hasReturn h \<Longrightarrow> writeSSEBytesLockedWithHint c e immediate h = h"
  by (auto simp: writeSSEBytesLockedWithHint_def)

definition sent_open :: "streamHandler \<Rightarrow> streamHandler \<Rightarrow> bool" where
  "sent_open h h' \<longleftrightarrow> sent (h\<lparr>messageStartWritten := messageStartWritten h'\<rparr>) h' \<and> grows h h' \<and> (messageStartWritten h \<longrightarrow> messageStartWritten h')"

lemma msw_id [simp]: "h\<lparr>messageStartWritten := messageStartWritten h\<rparr> = h" by simp

lemma sent_open_refl [simp, intro]: "sent_open h h"
  by (simp add: sent_open_def)

lemma sent_openI: "sent h h' \<Longrightarrow> grows h h' \<Longrightarrow> sent_open h h'"
  by (simp add: sent_open_def sent_fields(4))

lemma emitted_opened_sent:
  assumes "emitted xs (opened h) h'"
  shows "sent_open h h'"
proof -
  have "messageStartWritten h'" using sent_fields(4) [OF emitted_sent [OF assms]] by simp
  then show ?thesis using assms by (simp add: sent_open_def emitted_def grows_def)
qed

lemma sent_open_trans:
  assumes "sent_open h g" "sent_open g k"
  shows "sent_open h k"
proof -
  let ?m = "messageStartWritten k"
  have g: "sent (h\<lparr>messageStartWritten := messageStartWritten g\<rparr>) g" and k: "sent (g\<lparr>messageStartWritten := ?m\<rparr>) k"
    using assms by (simp_all add: sent_open_def)
  have "sent (h\<lparr>messageStartWritten := ?m\<rparr>) (g\<lparr>messageStartWritten := ?m\<rparr>)"
  proof -
    have "g\<lparr>messageStartWritten := ?m\<rparr> = h\<lparr>messageStartWritten := ?m, w := w g, hasReturn := hasReturn g, requestFailed := requestFailed g, finalStopReason := finalStopReason g\<rparr>"
      by (subst conjunct1 [OF g [unfolded sent_def]]) simp
    then show ?thesis using g by (simp add: sent_def)
  qed
  moreover have "grows (g\<lparr>messageStartWritten := ?m\<rparr>) k" using assms(2) by (simp add: sent_open_def grows_def)
  ultimately have "sent (h\<lparr>messageStartWritten := ?m\<rparr>) k" using k sent_trans by blast
  then show ?thesis using assms grows_trans by (auto simp: sent_open_def)
qed

lemma hint_sent_open:
  assumes "event_name e \<noteq> ''message_start''"
  shows "sent_open h (writeSSEBytesLockedWithHint c e immediate h)"
proof (cases "writable c h")
  case True
  then show ?thesis using emitted_opened_sent hint_emitted assms by blast
next
  case False
  then show ?thesis using assms
    by (auto simp: writeSSEBytesLockedWithHint_def writable_def ensureMessageStartLocked_def)
qed

lemma write_frame_sent_open:
  "event_name e \<noteq> ''message_start'' \<Longrightarrow> sent_open h (write_frame c final e immediate h)"
  by (auto simp: write_frame_def writeFinalSSEBytesLockedWithHint_def hint_sent_open intro: sent_openI)

section \<open>The invariant\<close>

definition open_blocks :: "streamHandler \<Rightarrow> (int \<times> kind) list" where
  "open_blocks h = (case activeBlockType h of
     NoBlock \<Rightarrow> [] | TextBlock \<Rightarrow> [(activeTextSSEIndex h, KText)] | ThinkingBlock \<Rightarrow> [(activeThinkingSSEIndex h, KThinking)])"

definition reader_of :: "streamHandler \<Rightarrow> reader" where
  "reader_of h = (if messageStartWritten h then Open (open_blocks h) (blockIndex h + 1) else Idle)"

definition state_ok :: "relay_config \<Rightarrow> streamHandler \<Rightarrow> bool" where
  "state_ok c h \<longleftrightarrow>
     (activeTextSSEIndex h \<ge> 0 \<longleftrightarrow> activeBlockType h = TextBlock) \<and>
     (activeThinkingSSEIndex h \<ge> 0 \<longleftrightarrow> activeBlockType h = ThinkingBlock) \<and> blockIndex h \<ge> -1 \<and>
     activeTextSSEIndex h \<le> blockIndex h \<and> activeThinkingSSEIndex h \<le> blockIndex h \<and>
     (isStream c \<longrightarrow> pendingToolCalls h = []) \<and>
     (requestFailed h \<longrightarrow> hasReturn h \<or> (messageStartWritten h \<and> broken h)) \<and>
     (isStream c \<and> \<not> messageStartWritten h \<longrightarrow> activeBlockType h = NoBlock \<and> blockIndex h = -1)"

definition consistent :: "relay_config \<Rightarrow> streamHandler \<Rightarrow> bool" where
  "consistent c h \<longleftrightarrow>
     (if \<not> isStream c then log h = [] \<or> (hasReturn h \<and> (\<exists>e. log h = [HttpError e]))
      else if hasReturn h then \<exists>r. read_all Idle (log h) = Some r \<and> finished r
      else read_all Idle (log h) = Some (reader_of h))"

definition inv :: "relay_config \<Rightarrow> streamHandler \<Rightarrow> bool" where
  "inv c h \<longleftrightarrow> state_ok c h \<and> read_all Idle (log h) \<noteq> None \<and> (\<not> broken h \<longrightarrow> consistent c h)"

text \<open>The invariant looks at these fields only.\<close>

definition view :: "streamHandler \<Rightarrow> _" where
  "view h = (w h, hasReturn h, requestFailed h, messageStartWritten h, blockIndex h, activeBlockType h,
     activeTextSSEIndex h, activeThinkingSSEIndex h, pendingToolCalls h)"

lemma open_blocks_cong:
  assumes "activeBlockType h' = activeBlockType h" "activeTextSSEIndex h' = activeTextSSEIndex h" "activeThinkingSSEIndex h' = activeThinkingSSEIndex h"
  shows "open_blocks h' = open_blocks h"
  using assms by (simp add: open_blocks_def split: block_type.split)

lemma inv_view: "view h' = view h \<Longrightarrow> inv c h' = inv c h"
  using open_blocks_cong [of h' h] by (simp add: view_def inv_def state_ok_def consistent_def reader_of_def)

lemma state_ok_view: "view h' = view h \<Longrightarrow> state_ok c h' = state_ok c h"
  by (simp add: view_def state_ok_def)

lemma inv_state_ok: "inv c h \<Longrightarrow> state_ok c h"
  by (simp add: inv_def)

lemma writableI: "state_ok c h \<Longrightarrow> isStream c \<Longrightarrow> \<not> hasReturn h \<Longrightarrow> writable c h"
  by (auto simp: state_ok_def writable_def)

lemma sent_open_fields:
  assumes "sent_open h h'"
  shows "blockIndex h' = blockIndex h" "activeBlockType h' = activeBlockType h" "activeTextSSEIndex h' = activeTextSSEIndex h"
    "activeThinkingSSEIndex h' = activeThinkingSSEIndex h" "pendingToolCalls h' = pendingToolCalls h" "usage h' = usage h"
    "activeTextBlockIndex h' = activeTextBlockIndex h" "activeThinkingBlockIndex h' = activeThinkingBlockIndex h"
    "contentBlocks h' = contentBlocks h" "toolCallEmitted h' = toolCallEmitted h" "responseText h' = responseText h"
    "textBlockBuilders h' = textBlockBuilders h" "toolCallHandled h' = toolCallHandled h" "emptyOutputFallback h' = emptyOutputFallback h"
    "toolCallCount h' = toolCallCount h" "hasTextOutput h' = hasTextOutput h"
  using sent_fields [of "h\<lparr>messageStartWritten := messageStartWritten h'\<rparr>" h'] assms by (simp_all add: sent_open_def)

lemma sent_open_state_ok:
  assumes "state_ok c h" "sent_open h h'"
  shows "state_ok c h'"
proof -
  have s: "hasReturn h \<Longrightarrow> hasReturn h'" "requestFailed h' \<Longrightarrow> requestFailed h \<or> (hasReturn h' \<and> broken h')"
    "messageStartWritten h \<Longrightarrow> messageStartWritten h'" "broken h \<Longrightarrow> broken h'"
    using assms(2) by (auto simp: sent_open_def sent_def grows_def)
  show ?thesis using assms(1) s unfolding state_ok_def sent_open_fields [OF assms(2)] by blast
qed

lemma sent_open_grows: "sent_open h h' \<Longrightarrow> grows h h'"
  by (simp add: sent_open_def)

lemma inv_broken:
  assumes "inv c h" "broken h" "grows h h'" "state_ok c h'"
  shows "inv c h'"
  using assms by (simp add: inv_def grows_def)

lemma inv_emitted:
  assumes e: "emitted xs g h'" and "state_ok c h'" "isStream c" "\<not> hasReturn g"
    and r: "read_all Idle (log g) = Some r" "read_all r xs = Some (reader_of g)"
  shows "inv c h'"
proof -
  from e consider "h' = g\<lparr>w := w h'\<rparr>" "log h' = log g @ xs" | ys zs where "broken h'" "xs = ys @ zs" "log h' = log g @ ys"
    by (auto simp: emitted_def)
  then show ?thesis
  proof cases
    case 1
    have s: "sent g h'" using e by (rule emitted_sent)
    have "reader_of h' = reader_of g"
      using open_blocks_cong [of h' g] sent_fields [OF s] by (simp add: reader_of_def)
    moreover have "hasReturn h' = hasReturn g" by (subst 1(1)) simp
    ultimately have "reader_of h' = reader_of g" "hasReturn h' = hasReturn g" by simp_all
    then show ?thesis using assms 1(2) by (simp add: inv_def consistent_def read_all_append)
  next
    case 2
    have "read_all r ys \<noteq> None" using r(2) unfolding 2(2) read_all_append by (auto split: option.splits)
    then show ?thesis using assms(2) 2 r(1) by (auto simp: inv_def read_all_append)
  qed
qed

lemma emitted_intact:
  assumes "emitted xs g h'" "\<not> broken h'"
  shows "hasReturn h' = hasReturn g"
proof -
  have h': "h' = g\<lparr>w := w h'\<rparr>" using assms by (auto simp: emitted_def)
  show ?thesis by (subst h') simp
qed

section \<open>Blocks\<close>

lemma pop_cases:
  assumes "state_ok c h"
  obtains "activeBlockType h = NoBlock" "popActiveBlockStopDataLocked h = (None, h)"
  | i k where "i \<ge> 0" "open_blocks h = [(i, k)]" "popActiveBlockStopDataLocked h = (Some (BlockStop i), snd (popActiveBlockStopDataLocked h))"
  using assms by (cases "activeBlockType h") (auto simp: popActiveBlockStopDataLocked_def open_blocks_def state_ok_def)

lemma pop_fields:
  shows "w (snd (popActiveBlockStopDataLocked h)) = w h" "hasReturn (snd (popActiveBlockStopDataLocked h)) = hasReturn h"
    "requestFailed (snd (popActiveBlockStopDataLocked h)) = requestFailed h"
    "messageStartWritten (snd (popActiveBlockStopDataLocked h)) = messageStartWritten h"
    "blockIndex (snd (popActiveBlockStopDataLocked h)) = blockIndex h"
    "pendingToolCalls (snd (popActiveBlockStopDataLocked h)) = pendingToolCalls h"
    "usage (snd (popActiveBlockStopDataLocked h)) = usage h"
    "toolCallEmitted (snd (popActiveBlockStopDataLocked h)) = toolCallEmitted h"
    "contentBlocks (snd (popActiveBlockStopDataLocked h)) = contentBlocks h"
    "responseText (snd (popActiveBlockStopDataLocked h)) = responseText h"
    "textBlockBuilders (snd (popActiveBlockStopDataLocked h)) = textBlockBuilders h"
    "toolCallHandled (snd (popActiveBlockStopDataLocked h)) = toolCallHandled h"
    "activeBlockType (snd (popActiveBlockStopDataLocked h)) = NoBlock"
  by (cases "activeBlockType h"; simp add: popActiveBlockStopDataLocked_def)+

lemma pop_state_ok: "state_ok c h \<Longrightarrow> state_ok c (snd (popActiveBlockStopDataLocked h))"
  by (cases "activeBlockType h") (auto simp: state_ok_def popActiveBlockStopDataLocked_def)

lemma writeSSE_sent: "sent h (writeSSEBytesLocked c e h)" "grows h (writeSSEBytesLocked c e h)"
  by (simp_all add: writeSSEBytesLocked_def)

lemma close_sent:
  "sent (snd (popActiveBlockStopDataLocked h)) (closeActiveBlockLocked c h)" "grows h (closeActiveBlockLocked c h)"
proof -
  let ?g = "snd (popActiveBlockStopDataLocked h)"
  have g: "grows h ?g" by (rule grows_same_writer) (rule pop_fields)
  show "sent ?g (closeActiveBlockLocked c h)" "grows h (closeActiveBlockLocked c h)"
    using writeSSE_sent [of ?g c] g grows_trans [OF g]
    by (auto simp: closeActiveBlockLocked_def split: prod.split option.split)
qed

lemma close_no_block: "activeBlockType (closeActiveBlockLocked c h) = NoBlock"
  using sent_fields(11) [OF close_sent(1), of c h] pop_fields(13) [of h] by simp

lemma close_state_ok:
  assumes "state_ok c h"
  shows "state_ok c (closeActiveBlockLocked c h)"
proof -
  let ?g = "snd (popActiveBlockStopDataLocked h)"
  have "grows ?g (closeActiveBlockLocked c h)" using close_sent(2) [of h c] pop_fields(1) [of h] by (simp add: grows_def)
  then show ?thesis using sent_open_state_ok [OF pop_state_ok [OF assms] sent_openI [OF close_sent(1)]] by blast
qed

lemma close_inv:
  assumes "inv c h" "\<not> hasReturn h"
  shows "inv c (closeActiveBlockLocked c h)"
proof (cases "broken h")
  case True
  then show ?thesis using inv_broken [OF assms(1) _ close_sent(2) close_state_ok [OF inv_state_ok]] assms(1) by blast
next
  case False
  let ?g = "snd (popActiveBlockStopDataLocked h)"
  show ?thesis
  proof (cases "isStream c")
    case False
    then have "closeActiveBlockLocked c h = ?g" by (auto simp: closeActiveBlockLocked_def writeSSEBytesLocked_def split: prod.split option.split)
    then show ?thesis using assms False pop_fields [of h] pop_state_ok [of c h] by (simp add: inv_def consistent_def)
  next
    case True
    from inv_state_ok [OF assms(1)] show ?thesis
    proof (cases rule: pop_cases)
      case 1
      then show ?thesis using assms by (simp add: closeActiveBlockLocked_def)
    next
      case (2 i k)
      have eq: "closeActiveBlockLocked c h = emitSSEFrameLocked c (BlockStop i) (shouldFlushSSEImmediately ''content_block_stop'' (payload (BlockStop i))) False ?g"
        using 2(3) True assms(2) pop_fields(2) [of h]
        by (cases "popActiveBlockStopDataLocked h") (simp add: closeActiveBlockLocked_def writeSSEBytesLocked_def)
      have e: "emitted [Ev (BlockStop i)] ?g (closeActiveBlockLocked c h)"
        using emit_emitted [OF True, of "BlockStop i" False ?g] by (simp add: eq tail_items_def)
      have m: "messageStartWritten h" using assms(1) 2(2) True by (auto simp: inv_def state_ok_def open_blocks_def)
      have r: "read_all Idle (log ?g) = Some (reader_of h)"
        using assms False True by (simp add: inv_def consistent_def pop_fields)
      have "read_all (reader_of h) [Ev (BlockStop i)] = Some (reader_of ?g)"
        using m 2(2) by (simp add: reader_of_def pop_fields open_blocks_def [of ?g])
      then show ?thesis
        using inv_emitted [OF e close_state_ok [OF inv_state_ok [OF assms(1)]] True _ r] assms(2) pop_fields(2) by simp
    qed
  qed
qed

lemma close_intact:
  assumes "\<not> broken (closeActiveBlockLocked c h)"
  shows "hasReturn (closeActiveBlockLocked c h) = hasReturn h"
proof (cases "isStream c \<and> \<not> hasReturn h")
  case True
  let ?g = "snd (popActiveBlockStopDataLocked h)"
  show ?thesis
  proof (cases "fst (popActiveBlockStopDataLocked h)")
    case None
    then show ?thesis using pop_fields(2) [of h] by (cases "popActiveBlockStopDataLocked h") (simp add: closeActiveBlockLocked_def)
  next
    case (Some e)
    then have "closeActiveBlockLocked c h = emitSSEFrameLocked c e (shouldFlushSSEImmediately (event_name e) (payload e)) False ?g"
      using True pop_fields(2) [of h] by (cases "popActiveBlockStopDataLocked h") (simp add: closeActiveBlockLocked_def writeSSEBytesLocked_def)
    then show ?thesis using emitted_intact [OF emit_emitted, of c] assms True pop_fields(2) by metis
  qed
next
  case False
  then have "closeActiveBlockLocked c h = snd (popActiveBlockStopDataLocked h)"
    using pop_fields(2) [of h] by (auto simp: closeActiveBlockLocked_def writeSSEBytesLocked_def split: prod.split option.split)
  then show ?thesis by (simp add: pop_fields)
qed

text \<open>Opening a block: a pure update of the block bookkeeping, then the start frame.\<close>

definition start_event :: "block_type \<Rightarrow> int \<Rightarrow> streamHandler \<Rightarrow> sse_event" where
  "start_event b i h = (if b = ThinkingBlock then BlockStartThinking i (pendingThinkingSig h) else BlockStartText i)"

definition block_opened :: "block_type \<Rightarrow> streamHandler \<Rightarrow> streamHandler" where
  "block_opened b h =
     (let i = length (contentBlocks h); h1 = h\<lparr>blockIndex := blockIndex h + 1, activeBlockType := b\<rparr> in
      if b = ThinkingBlock then
        h1\<lparr>pendingThinkingSig := [],
           contentBlocks := contentBlocks h @ [[(''type'', JStr ''thinking''), (''signature'', JStr (pendingThinkingSig h))]],
           activeThinkingBlockIndex := int i, activeThinkingSSEIndex := blockIndex h + 1,
           thinkingBlockBuilders := (growBuilderSlots (thinkingBlockBuilders h) i)[i := Some []],
           thinkingBlockSigs := (growSigSlots (thinkingBlockSigs h) i)[i := pendingThinkingSig h]\<rparr>
      else h1\<lparr>contentBlocks := contentBlocks h @ [[(''type'', JStr ''text'')]],
              activeTextBlockIndex := int i, activeTextSSEIndex := blockIndex h + 1,
              textBlockBuilders := (growBuilderSlots (textBlockBuilders h) i)[i := Some []]\<rparr>)"

definition open_block :: "relay_config \<Rightarrow> block_type \<Rightarrow> streamHandler \<Rightarrow> streamHandler" where
  "open_block c b h = writeSSEBytesLockedWithHint c (start_event b (blockIndex h + 1) h) True (block_opened b h)"

lemma start_event_name: "event_name (start_event b i h) \<noteq> ''message_start''"
  by (simp add: start_event_def)

lemma block_opened_fields:
  "w (block_opened b h) = w h" "hasReturn (block_opened b h) = hasReturn h" "requestFailed (block_opened b h) = requestFailed h"
  "messageStartWritten (block_opened b h) = messageStartWritten h" "blockIndex (block_opened b h) = blockIndex h + 1"
  "activeBlockType (block_opened b h) = b" "pendingToolCalls (block_opened b h) = pendingToolCalls h"
  "usage (block_opened b h) = usage h" "toolCallEmitted (block_opened b h) = toolCallEmitted h"
  "activeTextSSEIndex (block_opened b h) = (if b = ThinkingBlock then activeTextSSEIndex h else blockIndex h + 1)"
  "activeThinkingSSEIndex (block_opened b h) = (if b = ThinkingBlock then blockIndex h + 1 else activeThinkingSSEIndex h)"
  "responseText (block_opened b h) = responseText h" "toolCallHandled (block_opened b h) = toolCallHandled h"
  by (simp_all add: block_opened_def Let_def)

lemma ensureBlock_eq:
  assumes "b \<noteq> NoBlock"
  shows "ensureBlock c b h =
    (if b = ThinkingBlock \<and> suppressThinking c then (-1, h)
     else let h1 = (if activeBlockType h \<noteq> NoBlock \<and> activeBlockType h \<noteq> b then closeActiveBlockLocked c h else h) in
       if activeBlockType h1 = b then (if b = ThinkingBlock then activeThinkingSSEIndex h1 else activeTextSSEIndex h1, h1)
       else (blockIndex h1 + 1, open_block c b h1))"
  using assms by (cases b) (auto simp: ensureBlock_def open_block_def block_opened_def start_event_def open_thinking_def open_text_def
      writeSSEContentBlockStartTextLocked_def write_frame_def Let_def)

lemma open_block_sent: "sent_open (block_opened b h) (open_block c b h)"
  unfolding open_block_def by (rule hint_sent_open) (rule start_event_name)

lemma open_block_grows: "grows h (open_block c b h)"
  using sent_open_grows [OF open_block_sent, of b h c] by (simp add: grows_def block_opened_fields(1))

text \<open>A block is opened while the response is writable, or after the stream was opened.\<close>

lemma open_block_state_ok:
  assumes "state_ok c h" "activeBlockType h = NoBlock" "b \<noteq> NoBlock" "\<not> hasReturn h \<or> messageStartWritten h"
  shows "state_ok c (open_block c b h)"
proof -
  let ?g = "block_opened b h" and ?h = "open_block c b h"
  note f = sent_open_fields [OF open_block_sent, of c b h]
  have s: "hasReturn h \<Longrightarrow> hasReturn ?h" "requestFailed ?h \<Longrightarrow> requestFailed h \<or> (hasReturn ?h \<and> broken ?h)"
    "messageStartWritten h \<Longrightarrow> messageStartWritten ?h" "broken h \<Longrightarrow> broken ?h"
    using open_block_sent [of b h c] by (auto simp: sent_open_def sent_def grows_def block_opened_fields)
  have m: "isStream c \<Longrightarrow> messageStartWritten ?h"
  proof -
    assume "isStream c"
    show "messageStartWritten ?h"
    proof (cases "messageStartWritten h")
      case True then show ?thesis by (rule s)
    next
      case False
      then have "writable c ?g" using assms \<open>isStream c\<close> by (auto simp: writable_def block_opened_fields state_ok_def)
      then show ?thesis
        using sent_fields(4) [OF emitted_sent [OF hint_emitted [OF _ start_event_name]]] by (simp add: open_block_def)
    qed
  qed
  show ?thesis using assms s m unfolding state_ok_def f block_opened_fields by (cases b) auto
qed

lemma open_block_inv:
  assumes i: "inv c h" and h: "\<not> hasReturn h" "activeBlockType h = NoBlock" "b \<noteq> NoBlock"
  shows "inv c (open_block c b h)"
proof (cases "broken h")
  case True
  then show ?thesis using inv_broken [OF i _ open_block_grows open_block_state_ok [OF inv_state_ok [OF i]]] h by blast
next
  case False
  note st = open_block_state_ok [OF inv_state_ok [OF i] h(2,3)]
  show ?thesis
  proof (cases "isStream c")
    case False
    then have "open_block c b h = block_opened b h" by (simp add: open_block_def hint_off)
    then show ?thesis using i st h False by (simp add: inv_def consistent_def block_opened_fields)
  next
    case True
    let ?g = "block_opened b h" and ?n = "blockIndex h + 1"
    have wr: "writable c ?g" using writableI [OF inv_state_ok [OF i] True h(1)] by (simp add: writable_def block_opened_fields)
    have e: "emitted (start_items c ?g @ [Ev (start_event b ?n h)]) (opened ?g) (open_block c b h)"
      unfolding open_block_def by (rule hint_emitted [OF wr start_event_name])
    have r: "read_all Idle (log (opened ?g)) = Some (reader_of h)"
      using i False True h by (simp add: inv_def consistent_def block_opened_fields)
    have n: "\<not> messageStartWritten h \<Longrightarrow> blockIndex h = -1" using i True by (auto simp: inv_def state_ok_def)
    have ob: "open_blocks h = []" using h(2) by (simp add: open_blocks_def)
    have "read_all (reader_of h) (start_items c ?g @ [Ev (start_event b ?n h)]) = Some (reader_of (opened ?g))"
      using h(3) n ob by (cases b) (auto simp: start_items_def block_opened_fields reader_of_def start_event_def open_blocks_def)
    then show ?thesis
      using inv_emitted [OF e st True _ r] h by (simp add: block_opened_fields)
  qed
qed

lemma ensureBlock_grows: "b \<noteq> NoBlock \<Longrightarrow> grows h (snd (ensureBlock c b h))"
  using close_sent(2) [of h c] open_block_grows [of _ c b] grows_trans by (auto simp: ensureBlock_eq Let_def)

lemma close_writable:
  assumes "state_ok c h" "\<not> hasReturn h" "activeBlockType h \<noteq> NoBlock"
  shows "\<not> hasReturn (closeActiveBlockLocked c h) \<or> messageStartWritten (closeActiveBlockLocked c h)"
proof (cases "isStream c")
  case True
  then have "messageStartWritten h" using assms by (auto simp: state_ok_def)
  then show ?thesis using sent_fields(4) [OF close_sent(1), of c h] pop_fields(4) [of h] by simp
next
  case False
  then have "closeActiveBlockLocked c h = snd (popActiveBlockStopDataLocked h)"
    by (auto simp: closeActiveBlockLocked_def writeSSEBytesLocked_def split: prod.split option.split)
  then show ?thesis using assms(2) by (simp add: pop_fields)
qed

lemma reopen_state_ok:
  assumes "state_ok c h" "\<not> hasReturn h" "activeBlockType h \<noteq> NoBlock" "b \<noteq> NoBlock"
  shows "state_ok c (open_block c b (closeActiveBlockLocked c h))"
  using open_block_state_ok [OF close_state_ok [OF assms(1)] close_no_block assms(4)] close_writable [OF assms(1-3)] by blast

lemma ensureBlock_state_ok:
  assumes "state_ok c h" "b \<noteq> NoBlock" "\<not> hasReturn h"
  shows "state_ok c (snd (ensureBlock c b h))"
  using assms open_block_state_ok [OF assms(1) _ assms(2)] reopen_state_ok [OF assms(1,3) _ assms(2)] close_state_ok [OF assms(1)]
  by (auto simp: ensureBlock_eq Let_def)

lemma ensureBlock_inv:
  assumes i: "inv c h" and h: "\<not> hasReturn h" "b \<noteq> NoBlock"
  shows "inv c (snd (ensureBlock c b h))"
proof -
  have "inv c (open_block c b (closeActiveBlockLocked c h))" if "activeBlockType h \<noteq> NoBlock"
  proof (cases "broken (closeActiveBlockLocked c h)")
    case True
    have "state_ok c (open_block c b (closeActiveBlockLocked c h))" by (rule reopen_state_ok [OF inv_state_ok [OF i] h(1) that h(2)])
    then show ?thesis using inv_broken [OF close_inv [OF i h(1)] True open_block_grows] by blast
  next
    case False
    then show ?thesis using open_block_inv [OF close_inv [OF i h(1)] _ close_no_block h(2)] close_intact h(1) by metis
  qed
  then show ?thesis
    using i close_inv [OF i h(1)] open_block_inv [OF i h(1) _ h(2)] by (auto simp: ensureBlock_eq [OF h(2)] Let_def)
qed

text \<open>The block a caller asked for is the open one afterwards.\<close>

lemma ensureBlock_active:
  assumes "b \<noteq> NoBlock" "\<not> (b = ThinkingBlock \<and> suppressThinking c)"
  shows "activeBlockType (snd (ensureBlock c b h)) = b"
    "fst (ensureBlock c b h) = (if b = ThinkingBlock then activeThinkingSSEIndex (snd (ensureBlock c b h)) else activeTextSSEIndex (snd (ensureBlock c b h)))"
  using assms sent_open_fields [OF open_block_sent, of c b]
  by (auto simp: ensureBlock_eq Let_def block_opened_fields)

section \<open>Messages\<close>

lemma delta_inv:
  assumes i: "inv c h" and a: "activeBlockType h \<noteq> NoBlock" and n: "event_name e \<noteq> ''message_start''"
    and d: "\<And>k. read_event (open_blocks h) k e = Some (Open (open_blocks h) k)"
  shows "inv c (writeSSEBytesLockedWithHint c e immediate h)"
proof (cases "isStream c \<and> \<not> hasReturn h \<and> \<not> broken h")
  case True
  have wr: "writable c h" using writableI [OF inv_state_ok [OF i]] True by blast
  have m: "messageStartWritten h" using i a True by (auto simp: inv_def state_ok_def)
  have e: "emitted [Ev e] h (writeSSEBytesLockedWithHint c e immediate h)"
    using hint_emitted [OF wr n, of immediate] m by (simp add: start_items_def opened_id)
  have "read_all (reader_of h) [Ev e] = Some (reader_of h)" using d m by (simp add: reader_of_def)
  then show ?thesis
    using inv_emitted [OF e sent_open_state_ok [OF inv_state_ok [OF i] hint_sent_open [OF n]], of "reader_of h"] i True
    by (simp add: inv_def consistent_def)
next
  case False
  then consider "\<not> isStream c \<or> hasReturn h" | "broken h" by blast
  then show ?thesis
  proof cases
    case 1
    then show ?thesis using i by (simp add: hint_off)
  next
    case 2
    then show ?thesis
      using inv_broken [OF i 2 sent_open_grows [OF hint_sent_open [OF n]] sent_open_state_ok [OF inv_state_ok [OF i] hint_sent_open [OF n]]] by blast
  qed
qed

lemma view_usage [simp]: "view (h\<lparr>usage := u\<rparr>) = view h"
  and view_text [simp]: "view (h\<lparr>hasTextOutput := b\<rparr>) = view h"
  and view_resp [simp]: "view (h\<lparr>responseText := t\<rparr>) = view h"
  and view_tbb [simp]: "view (h\<lparr>textBlockBuilders := l\<rparr>) = view h"
  and view_hbb [simp]: "view (h\<lparr>thinkingBlockBuilders := l\<rparr>) = view h"
  and view_sigs [simp]: "view (h\<lparr>thinkingBlockSigs := l'\<rparr>) = view h"
  and view_blocks [simp]: "view (h\<lparr>contentBlocks := bs\<rparr>) = view h"
  and view_psig [simp]: "view (h\<lparr>pendingThinkingSig := s\<rparr>) = view h"
  and view_reason [simp]: "view (h\<lparr>hasReasoningOutput := b\<rparr>) = view h"
  and view_fallback [simp]: "view (h\<lparr>emptyOutputFallback := s\<rparr>) = view h"
  and view_suppressed [simp]: "view (h\<lparr>suppressedToolCalls := n\<rparr>) = view h"
  and view_handled [simp]: "view (h\<lparr>toolCallHandled := hs\<rparr>) = view h"
  and view_logged [simp]: "view (h\<lparr>completionLogged := b\<rparr>) = view h"
  by (simp_all add: view_def)

lemma view_add [simp]: "view (addOutputTokens txt h) = view h"
  and view_final [simp]: "view (finalizeOutputTokens h) = view h"
  and view_apply [simp]: "view (applyUpstreamUsageTokens u h) = view h"
  and view_set [simp]: "view (setUsageTokens ni no h) = view h"
  and view_record [simp]: "view (record_signature sig h) = view h"
  and view_surface [simp]: "view (surface_reject c cond txt h) = view h"
  and view_suppress [simp]: "view (suppress_call cond h) = view h"
  and view_complete [simp]: "view (finalizeCompletion h) = view h"
  by (simp_all add: addOutputTokens_def finalizeOutputTokens_def applyUpstreamUsageTokens_def setUsageTokens_def
      record_signature_def surface_reject_def suppress_call_def finalizeCompletion_def Let_def)

lemma view_note_text [simp]: "view (note_text c d h) = view h"
  and view_note_thinking [simp]: "view (note_thinking c d h) = view h"
  by (simp_all add: note_text_def note_thinking_def Let_def)

lemma view_accept [simp]: "view (snd (shouldAcceptToolCall c call h)) = view h"
  by (simp add: shouldAcceptToolCall_def Let_def)

lemma view_fields:
  assumes "view h' = view h"
  shows "w h' = w h" "hasReturn h' = hasReturn h" "activeBlockType h' = activeBlockType h" "messageStartWritten h' = messageStartWritten h"
    "activeTextSSEIndex h' = activeTextSSEIndex h" "activeThinkingSSEIndex h' = activeThinkingSSEIndex h" "blockIndex h' = blockIndex h"
    "pendingToolCalls h' = pendingToolCalls h" "requestFailed h' = requestFailed h"
  using assms by (simp_all add: view_def)

lemma text_target_ok:
  assumes "inv c h" "\<not> hasReturn h"
  shows "inv c (snd (text_target c h))" "activeBlockType (snd (text_target c h)) = TextBlock"
    "fst (text_target c h) = activeTextSSEIndex (snd (text_target c h))"
  using assms ensureBlock_inv [OF assms, of TextBlock] ensureBlock_active [of TextBlock c h]
  by (auto simp: text_target_def inv_def state_ok_def not_less)

lemma textDelta_inv:
  assumes "inv c h" "\<not> hasReturn h"
  shows "inv c (textDelta c d h)"
proof (cases "d = []")
  case True
  then show ?thesis using assms by (simp add: textDelta_def)
next
  case False
  let ?h1 = "h\<lparr>hasTextOutput := True\<rparr>"
  have i1: "inv c ?h1" using assms(1) inv_view [OF view_text] by simp
  obtain i h2 where p: "text_target c ?h1 = (i, h2)" by fastforce
  let ?h3 = "note_text c d h2"
  have a: "activeBlockType ?h3 = TextBlock" "i = activeTextSSEIndex ?h3" "inv c ?h3"
    using text_target_ok [OF i1] assms(2) p inv_view [OF view_note_text] view_fields [OF view_note_text] by simp_all
  have eq: "textDelta c d h = writeSSEBytesLockedWithHint c (DeltaText i d) True ?h3"
    using False p by (simp add: textDelta_def writeSSEContentBlockDeltaTextLocked_def write_frame_def)
  show ?thesis unfolding eq by (rule delta_inv) (use a in \<open>simp_all add: open_blocks_def\<close>)
qed

lemma thinking_delta_inv:
  assumes "inv c h" "\<not> hasReturn h" "\<not> suppressThinking c"
  shows "inv c (thinking_delta c sig d h)"
proof -
  let ?h1 = "if sig \<noteq> [] then record_signature sig h else h"
  have v: "view ?h1 = view h" by simp
  have i1: "inv c ?h1" "\<not> hasReturn ?h1" using inv_view [OF v] view_fields(2) [OF v] assms by simp_all
  define t where "t = (if activeThinkingSSEIndex h < 0 then ensureBlock c ThinkingBlock ?h1 else (activeThinkingSSEIndex h, ?h1))"
  have tk: "inv c (snd t)" "activeBlockType (snd t) = ThinkingBlock" "fst t = activeThinkingSSEIndex (snd t)"
  proof -
    show "inv c (snd t)" "activeBlockType (snd t) = ThinkingBlock" "fst t = activeThinkingSSEIndex (snd t)"
      using i1 ensureBlock_inv [OF i1, of ThinkingBlock] ensureBlock_active [of ThinkingBlock c ?h1] assms view_fields [OF v] inv_state_ok [OF assms(1)]
      by (auto simp: t_def state_ok_def not_less split: if_splits)
  qed
  let ?h3 = "note_thinking c d (snd t)"
  have a: "activeBlockType ?h3 = ThinkingBlock" "fst t = activeThinkingSSEIndex ?h3" "inv c ?h3"
    using tk inv_view [OF view_note_thinking] view_fields [OF view_note_thinking] by simp_all
  have eq: "thinking_delta c sig d h = writeSSEBytesLockedWithHint c (DeltaThinking (fst t) d) False ?h3"
    by (cases t) (simp add: thinking_delta_def t_def writeSSEContentBlockDeltaThinkingLocked_def write_frame_def Let_def)
  show ?thesis unfolding eq by (rule delta_inv) (use a in \<open>simp_all add: open_blocks_def\<close>)
qed

lemma reasoningDelta_inv:
  assumes "inv c h" "\<not> hasReturn h" "\<not> suppressThinking c"
  shows "inv c (reasoningDelta c ev h)"
proof -
  define sig where "sig = (if pendingThinkingSig h = [] then extractThinkingSignature ev else pendingThinkingSig h)"
  have i1: "inv c (h\<lparr>pendingThinkingSig := sig\<rparr>)" using assms(1) inv_view [OF view_psig] by blast
  have e: "inv c (snd (ensureBlock c ThinkingBlock (h\<lparr>pendingThinkingSig := sig\<rparr>)))" using ensureBlock_inv [OF i1] assms(2) by simp
  have i2: "inv c (h\<lparr>pendingThinkingSig := sig, hasReasoningOutput := True\<rparr>)" using i1 inv_view [OF view_reason] by blast
  show ?thesis
    using i1 e inv_view [OF view_record] thinking_delta_inv [OF i2 _ assms(3)] assms(2)
    by (auto simp: reasoningDelta_def Let_def simp flip: sig_def)
qed

text \<open>A tool call is written as a block of its own, while a text block may stay open.\<close>

lemma write_tool_block_sent: "sent_open h (write_tool_block c i tid name inp final h)"
proof -
  note d = writeSSEContentBlockStopLocked_def writeSSEContentBlockDeltaInputJSONLocked_def writeSSEContentBlockStartToolUseLocked_def
  show ?thesis unfolding write_tool_block_def d
    by (rule sent_open_trans [OF sent_open_trans]; rule write_frame_sent_open) simp_all
qed

lemma tool_block_emitted:
  assumes "writable c h"
  shows "emitted (start_items c h @ [Ev (BlockStartToolUse i tid name), Ev (DeltaInputJSON i inp), Ev (BlockStop i)]) (opened h)
    (write_tool_block c i tid name inp False h)"
proof -
  let ?h1 = "writeSSEBytesLockedWithHint c (BlockStartToolUse i tid name) True h"
  let ?h2 = "writeSSEBytesLockedWithHint c (DeltaInputJSON i inp) False ?h1"
  let ?h3 = "writeSSEBytesLockedWithHint c (BlockStop i) True ?h2"
  have eq: "write_tool_block c i tid name inp False h = ?h3"
    by (simp add: write_tool_block_def writeSSEContentBlockStopLocked_def writeSSEContentBlockDeltaInputJSONLocked_def
        writeSSEContentBlockStartToolUseLocked_def write_frame_def)
  have next1: "emitted [Ev e] g (writeSSEBytesLockedWithHint c e im g)"
    if "g = (opened h)\<lparr>w := w g\<rparr>" "event_name e \<noteq> ''message_start''" for e im g
  proof -
    have "writable c g" "messageStartWritten g" using assms by (subst that(1), simp add: writable_def)+
    then show ?thesis using hint_emitted [OF _ that(2), of c g im] by (simp add: start_items_def opened_id)
  qed
  have so: "sent g (writeSSEBytesLockedWithHint c e im g)" "grows g (writeSSEBytesLockedWithHint c e im g)"
    if "messageStartWritten g" "event_name e \<noteq> ''message_start''" for e im g
  proof -
    let ?k = "writeSSEBytesLockedWithHint c e im g"
    have k: "sent_open g ?k" by (rule hint_sent_open [OF that(2)])
    have "messageStartWritten ?k = messageStartWritten g" using k that(1) by (simp add: sent_open_def)
    then show "sent g ?k" "grows g ?k" using k by (simp_all only: sent_open_def msw_id)
  qed
  have e1: "emitted (start_items c h @ [Ev (BlockStartToolUse i tid name)]) (opened h) ?h1"
    by (rule hint_emitted [OF assms]) simp
  then have m1: "messageStartWritten ?h1" using sent_fields(4) [OF emitted_sent] by fastforce
  have e2: "emitted ((start_items c h @ [Ev (BlockStartToolUse i tid name)]) @ [Ev (DeltaInputJSON i inp)]) (opened h) ?h2"
    by (rule emitted_trans [OF e1]) (use next1 so m1 in simp_all)
  then have m2: "messageStartWritten ?h2" using sent_fields(4) [OF emitted_sent] by fastforce
  have "emitted (((start_items c h @ [Ev (BlockStartToolUse i tid name)]) @ [Ev (DeltaInputJSON i inp)]) @ [Ev (BlockStop i)]) (opened h) ?h3"
    by (rule emitted_trans [OF e2]) (use next1 so m2 in simp_all)
  then show ?thesis unfolding eq by simp
qed

lemma emitToolUse_inv:
  assumes i: "inv c h" and st: "isStream c" and nr: "\<not> hasReturn h"
  shows "inv c (emitToolUseFromInput c tid name inp h)"
proof (cases "tid = [] \<or> name = [] \<or> tid \<in> set (toolCallEmitted h)")
  case True
  then show ?thesis using i by (simp add: emitToolUseFromInput_def)
next
  case False
  define g where "g = (let h1 = addOutputTokens name (h\<lparr>toolCallEmitted := tid # toolCallEmitted h\<rparr>) in
    h1\<lparr>toolCallCount := toolCallCount h1 + 1, blockIndex := blockIndex h1 + 1\<rparr>)"
  define n where "n = blockIndex h + 1"
  define k where "k = write_tool_block c n tid name (input_or_empty inp) False g"
  have g: "w g = w h" "hasReturn g = hasReturn h" "requestFailed g = requestFailed h" "messageStartWritten g = messageStartWritten h"
    "blockIndex g = n" "activeBlockType g = activeBlockType h" "activeTextSSEIndex g = activeTextSSEIndex h"
    "activeThinkingSSEIndex g = activeThinkingSSEIndex h" "pendingToolCalls g = pendingToolCalls h" "usage g = usage (addOutputTokens name h)"
    by (simp_all add: g_def addOutputTokens_def Let_def n_def)
  have eq: "emitToolUseFromInput c tid name inp h = k"
    using False g(5) by (simp add: emitToolUseFromInput_def k_def g_def n_def Let_def)
  have wr: "writable c g" using writableI [OF inv_state_ok [OF i] st nr] by (simp add: writable_def g)
  have e: "emitted (start_items c g @ [Ev (BlockStartToolUse n tid name), Ev (DeltaInputJSON n (input_or_empty inp)), Ev (BlockStop n)]) (opened g) k"
    unfolding k_def by (rule tool_block_emitted [OF wr])
  have m: "messageStartWritten k" using sent_fields(4) [OF emitted_sent [OF e]] by simp
  have so: "sent_open g k" unfolding k_def by (rule write_tool_block_sent)
  note f = sent_open_fields [OF so]
  have s: "requestFailed k \<Longrightarrow> requestFailed h \<or> (hasReturn k \<and> broken k)" "broken h \<Longrightarrow> broken k"
    using so by (auto simp: sent_open_def sent_def grows_def g)
  have k: "state_ok c k" using inv_state_ok [OF i] s m nr unfolding state_ok_def f g by (auto simp: n_def)
  show ?thesis unfolding eq
  proof (cases "broken h")
    case True
    moreover have "grows h k" using so g(1) by (simp add: sent_open_def grows_def)
    ultimately show "inv c k" using inv_broken [OF i _ _ k] by blast
  next
    case False
    have r: "read_all Idle (log (opened g)) = Some (reader_of h)" using i False st nr by (simp add: inv_def consistent_def g)
    have nb: "(if messageStartWritten h then n else 0) = n"
      using inv_state_ok [OF i] st by (auto simp: state_ok_def n_def)
    have fr: "filter (\<lambda>b. fst b \<noteq> n) (open_blocks h) = open_blocks h"
      using inv_state_ok [OF i] by (auto simp: open_blocks_def state_ok_def n_def split: block_type.split)
    have "open_blocks h = []" if "\<not> messageStartWritten h"
      using inv_state_ok [OF i] st that by (simp add: state_ok_def open_blocks_def)
    moreover have "open_blocks (opened g) = open_blocks h" by (rule open_blocks_cong) (simp_all add: g)
    ultimately have "read_all (reader_of h) (start_items c g @ [Ev (BlockStartToolUse n tid name), Ev (DeltaInputJSON n (input_or_empty inp)), Ev (BlockStop n)]) =
        Some (reader_of (opened g))"
      using nb fr by (auto simp: start_items_def reader_of_def g n_def split: if_splits)
    then show "inv c k" using inv_emitted [OF e k st _ r] nr by (simp add: g)
  qed
qed

lemma toolCallEvent_inv:
  assumes i: "inv c h" and nr: "\<not> hasReturn h" and t: "toolCallEvent c ev h = Some h'"
  shows "inv c h'"
proof -
  have pure: "inv c h1" "\<not> hasReturn h1" if "shouldAcceptToolCall c call h = (b, h1)" for call b h1
    using that i nr inv_view [OF view_accept, of c c call h] view_fields(2) [OF view_accept, of c call h] by simp_all
  have stream: "inv c (emitToolUseFromInput c tid name inp (h1\<lparr>toolCallHandled := hs\<rparr>))"
    if "isStream c" "shouldAcceptToolCall c call h = (b, h1)" for tid name inp call hs b h1
    using emitToolUse_inv [OF _ that(1)] pure [OF that(2)] inv_view [OF view_handled] by simp
  have collect: "inv c (handleToolCallAfterChecks call' (h1\<lparr>toolCallHandled := hs\<rparr>))"
    if "\<not> isStream c" "shouldAcceptToolCall c call h = (b, h1)" for call call' hs b h1
    using pure [OF that(2)] that(1) by (simp add: handleToolCallAfterChecks_def inv_def state_ok_def consistent_def)
  show ?thesis using t i pure stream collect
    by (auto simp: toolCallEvent_def Let_def split: prod.splits option.splits if_splits bool.splits)
qed

section \<open>The end of a response\<close>

text \<open>What a step appends to the stream, whatever else it changes.\<close>

definition logged :: "out_item list \<Rightarrow> writer \<Rightarrow> writer \<Rightarrow> bool" where
  "logged xs u v \<longleftrightarrow> (room u = Some 0 \<longrightarrow> room v = Some 0 \<and> out v = out u) \<and>
     (out v = out u @ xs \<or> (room v = Some 0 \<and> (\<exists>ys zs. xs = ys @ zs \<and> out v = out u @ ys)))"

lemma logged_refl: "logged [] u u"
  by (simp add: logged_def)

lemma logged_trans:
  assumes "logged xs u v" "logged ys v x"
  shows "logged (xs @ ys) u x"
proof (cases "room v = Some 0")
  case True
  then have x: "room x = Some 0" "out x = out v" using assms(2) by (simp_all add: logged_def)
  have "\<exists>us vs. xs @ ys = us @ vs \<and> out v = out u @ us"
    using assms(1) by (auto simp: logged_def)
  then show ?thesis using assms(1) x by (auto simp: logged_def)
next
  case False
  then have v: "out v = out u @ xs" "room u \<noteq> Some 0" using assms(1) by (auto simp: logged_def)
  from assms(2) False consider "out x = out v @ ys" | us vs where "room x = Some 0" "ys = us @ vs" "out x = out v @ us"
    by (auto simp: logged_def)
  then show ?thesis
  proof cases
    case 1 then show ?thesis using v by (simp add: logged_def)
  next
    case 2
    then have "xs @ ys = (xs @ us) @ vs" "out x = out u @ (xs @ us)" using v by simp_all
    then show ?thesis using v 2(1) unfolding logged_def by blast
  qed
qed

lemma emitted_logged: "emitted xs h h' \<Longrightarrow> logged xs (w h) (w h')"
  by (auto simp: emitted_def logged_def grows_def)

lemma write_item_logged: "logged [x] u (snd (write_item c x u))"
proof (cases "room u = Some 0")
  case True
  then show ?thesis by (simp add: write_item_broken logged_def)
next
  case False
  then obtain r where "write_item c x u = (if item_bytes c x = [] then Nothing else Written, u\<lparr>out := out u @ [x], room := r\<rparr>)"
    by (rule write_item_open)
  then show ?thesis using False by (simp add: logged_def)
qed

lemma inv_logged:
  assumes l: "logged xs (w h) (w h')" and i: "inv c h" "\<not> hasReturn h"
    and h': "state_ok c h'" "hasReturn h'" "isStream c"
    and x: "read_all (reader_of h) xs = Some r" "finished r"
  shows "inv c h'"
proof (cases "broken h")
  case True
  then show ?thesis using i h' l by (simp add: inv_def logged_def)
next
  case False
  then have r: "read_all Idle (log h) = Some (reader_of h)" using i h' by (simp add: inv_def consistent_def)
  from l consider "log h' = log h @ xs" | ys zs where "broken h'" "xs = ys @ zs" "log h' = log h @ ys"
    by (auto simp: logged_def)
  then show ?thesis
  proof cases
    case 1
    then show ?thesis using r x h' by (auto simp: inv_def consistent_def read_all_append)
  next
    case 2
    have "read_all (reader_of h) ys \<noteq> None" using x(1) unfolding 2(2) read_all_append by (auto split: option.splits)
    then show ?thesis using r 2 h' by (auto simp: inv_def read_all_append)
  qed
qed

lemma writeStreamError_inv:
  assumes i: "inv c h" and m: "messageStartWritten h"
  shows "inv c (writeStreamError c category message h)"
proof (cases "isStream c \<and> \<not> hasReturn h")
  case False
  then show ?thesis using i by (auto simp: writeStreamError_def)
next
  case True
  let ?h' = "writeStreamError c category message h"
  let ?e = "Ev (StreamError category message)"
  define u where "u = (w h)\<lparr>failureMarked := True\<rparr>"
  have u: "out u = log h" "room u = room (w h)" by (simp_all add: u_def)
  obtain res wr where p: "write_item c ?e u = (res, wr)" by fastforce
  have l: "logged [?e] u wr" using write_item_logged [of ?e u c] p by simp
  have d: "logged [DoneLine] wr (snd (write_item c DoneLine wr))" using write_item_logged [of DoneLine wr c] by simp
  have fl: "w ?h' = (if \<not> formatOpenAI c then (if hasFlusher c then wr\<lparr>flushed := length (out wr)\<rparr> else wr)
      else if res = Failed then wr
      else (if hasFlusher c then (snd (write_item c DoneLine wr))\<lparr>flushed := length (out (snd (write_item c DoneLine wr)))\<rparr> else snd (write_item c DoneLine wr)))"
    using True p by (simp add: writeStreamError_def u_def Let_def)
  have rf: "res = Failed \<Longrightarrow> room wr = Some 0"
    using p by (auto simp: write_item_def Let_def split: if_splits option.splits nat.splits)
  have ld: "logged [?e, DoneLine] u (snd (write_item c DoneLine wr))" using logged_trans [OF l d] by simp
  have l': "logged (if formatOpenAI c then [?e, DoneLine] else [?e]) (w h) (w ?h')"
  proof (cases "formatOpenAI c")
    case False
    then show ?thesis using l u by (simp add: fl logged_def)
  next
    case op: True
    show ?thesis
    proof (cases "res = Failed")
      case True
      then have "logged [?e, DoneLine] u wr" using l rf [OF True] by (auto simp: logged_def Cons_eq_append_conv)
      then show ?thesis using op u True by (simp add: fl logged_def)
    next
      case False
      then show ?thesis using op u ld by (simp add: fl logged_def)
    qed
  qed
  have st: "state_ok c ?h'" "hasReturn ?h'"
    using inv_state_ok [OF i] True by (auto simp: writeStreamError_def state_ok_def Let_def split: prod.split)
  have "read_all (reader_of h) (if formatOpenAI c then [?e, DoneLine] else [?e]) = Some Aborted"
    using m by (simp add: reader_of_def)
  then show ?thesis using inv_logged [OF l' i _ st] True by (simp add: finished_def)
qed

lemma reportRequestFailure_inv:
  assumes i: "inv c h"
  shows "inv c (reportRequestFailure c category message retryAfter h)"
proof (cases "isStream c \<and> hasCommitted h \<or> hasReturn h")
  case True
  then consider "hasReturn h" | "isStream c" "hasCommitted h" "\<not> hasReturn h" by blast
  then show ?thesis
  proof cases
    case 1
    then show ?thesis using i by (auto simp: reportRequestFailure_def writeStreamError_def)
  next
    case 2
    then show ?thesis using writeStreamError_inv [OF i] by (simp add: reportRequestFailure_def hasCommitted_def)
  qed
next
  case False
  define e where "e = HttpError (NewWithRetryAfter category message (StatusForCategory category) retryAfter)"
  define h' where "h' = h\<lparr>hasReturn := True, requestFailed := True, w := snd (write_item c e (w h))\<rparr>"
  have eq: "reportRequestFailure c category message retryAfter h = h'"
    using False by (auto simp: reportRequestFailure_def h'_def e_def)
  have l: "logged [e] (w h) (w h')" using write_item_logged [of e "w h" c] by (simp add: h'_def)
  have st: "state_ok c h'" "hasReturn h'" using inv_state_ok [OF i] False by (auto simp: h'_def state_ok_def)
  show ?thesis unfolding eq
  proof (cases "isStream c")
    case True
    then have "read_all (reader_of h) [e] = Some Refused" using False by (simp add: reader_of_def hasCommitted_def e_def)
    then show "inv c h'" using inv_logged [OF l i _ st True] False by (simp add: finished_def)
  next
    case ns: False
    show "inv c h'"
    proof (cases "broken h")
      case True
      then show ?thesis using i st l by (simp add: inv_def logged_def)
    next
      case nb: False
      then have "log h = []" using i ns False by (auto simp: inv_def consistent_def)
      then have "log h' = [] \<or> log h' = [e]" "\<not> broken h' \<Longrightarrow> log h' = [e]" using l by (auto simp: logged_def Cons_eq_append_conv)
      then show ?thesis using st ns by (auto simp: inv_def consistent_def e_def)
    qed
  qed
qed

lemma keepalive_sent: "sent h (writeKeepAlive c h)" "grows h (writeKeepAlive c h)"
  and keepalive_emitted: "isStream c \<Longrightarrow> \<not> hasReturn h \<Longrightarrow> messageStartWritten h \<Longrightarrow> emitted [Ev KeepAlive] h (writeKeepAlive c h)"
proof -
  let ?fl = "\<lambda>_ wr. flushSSEWithLenLocked c ''keep-alive'' (length sseKeepAlive) True True wr"
  have eq: "writeKeepAlive c h = (if \<not> isStream c \<or> hasReturn h \<or> \<not> messageStartWritten h then h else write_or_mark c (Ev KeepAlive) ?fl h)"
    by (auto simp: writeKeepAlive_def write_or_mark_def split: prod.split write_result.split)
  have e: "emitted [Ev KeepAlive] h (write_or_mark c (Ev KeepAlive) ?fl h)" by (rule write_or_mark_emitted) simp
  show "sent h (writeKeepAlive c h)" "grows h (writeKeepAlive c h)"
    using e by (auto simp: eq emitted_def)
  show "isStream c \<Longrightarrow> \<not> hasReturn h \<Longrightarrow> messageStartWritten h \<Longrightarrow> emitted [Ev KeepAlive] h (writeKeepAlive c h)"
    using e by (simp add: eq)
qed

lemma keepalive_inv:
  assumes i: "inv c h"
  shows "inv c (writeKeepAlive c h)"
proof (cases "isStream c \<and> \<not> hasReturn h \<and> messageStartWritten h")
  case False
  then show ?thesis using i by (auto simp: writeKeepAlive_def)
next
  case True
  have so: "state_ok c (writeKeepAlive c h)" using sent_open_state_ok [OF inv_state_ok [OF i] sent_openI [OF keepalive_sent]] .
  show ?thesis
  proof (cases "broken h")
    case True
    then show ?thesis using inv_broken [OF i _ keepalive_sent(2) so] by blast
  next
    case False
    have "read_all (reader_of h) [Ev KeepAlive] = Some (reader_of h)" using True by (simp add: reader_of_def)
    then show ?thesis using inv_emitted [OF keepalive_emitted so] True i False by (simp add: inv_def consistent_def)
  qed
qed

lemma reset_inv:
  assumes i: "inv c h" and h: "\<not> hasReturn h \<or> (broken h \<and> messageStartWritten h)"
  shows "inv c (resetRoundState c h)"
proof -
  define k where "k = closeActiveBlockLocked c h"
  have g: "grows h k" unfolding k_def by (rule close_sent)
  have k: "state_ok c k" "activeBlockType k = NoBlock"
    unfolding k_def by (rule close_state_ok [OF inv_state_ok [OF i]], rule close_no_block)
  have m: "messageStartWritten k = messageStartWritten h"
    using sent_fields(4) [OF close_sent(1), of c h] pop_fields(4) [of h] by (simp add: k_def)
  have rf: "messageStartWritten k \<and> broken k" if r: "requestFailed k"
  proof (cases "requestFailed h")
    case True
    then show ?thesis using h i m g by (auto simp: inv_def state_ok_def grows_def)
  next
    case False
    have "requestFailed k \<longrightarrow> requestFailed h \<or> (hasReturn k \<and> broken k)"
      using sent_failed [OF close_sent(1), of c h] pop_fields(3) [of h] by (simp add: k_def)
    then have b: "hasReturn k" "broken k" using r False by simp_all
    have "messageStartWritten h"
    proof (rule ccontr)
      assume n: "\<not> messageStartWritten h"
      then have "\<not> hasReturn h" using h by blast
      then show False using close_writable [OF inv_state_ok [OF i]] b(1) n m r False
        by (cases "activeBlockType h = NoBlock") (auto simp: k_def closeActiveBlockLocked_def popActiveBlockStopDataLocked_def)
    qed
    then show ?thesis using m b by simp
  qed
  define h' where "h' = resetRoundState c h"
  have f: "room (w h') = room (w k)" "log h' = log k" "hasReturn h' = False" "requestFailed h' = requestFailed k"
    "messageStartWritten h' = messageStartWritten k" "blockIndex h' = blockIndex k" "activeBlockType h' = NoBlock"
    "activeTextSSEIndex h' = -1" "activeThinkingSSEIndex h' = -1" "pendingToolCalls h' = []"
    by (simp_all add: h'_def resetRoundState_def k_def Let_def)
  have st: "state_ok c h'" using k rf unfolding state_ok_def f by auto
  show ?thesis unfolding h'_def [symmetric]
  proof (cases "broken h'")
    case True
    have "read_all Idle (log k) \<noteq> None"
    proof (cases "hasReturn h")
      case False then show ?thesis using close_inv [OF i False] by (simp add: inv_def k_def)
    next
      case True then have "broken h" using h by blast
      then show ?thesis using i g by (simp add: inv_def grows_def)
    qed
    then show "inv c h'" using st True by (simp add: inv_def f)
  next
    case False
    then have nb: "\<not> broken k" "\<not> broken h" using f g by (auto simp: grows_def)
    then have nr: "\<not> hasReturn h" using h by blast
    then have "inv c k" "\<not> hasReturn k" using close_inv [OF i nr] close_intact [of c h] nb by (simp_all add: k_def)
    then show "inv c h'" using st nb k(2) by (auto simp: inv_def consistent_def f reader_of_def open_blocks_def)
  qed
qed

lemma start_inv:
  assumes i: "inv c h"
  shows "inv c (snd (ensureMessageStartLocked c h))"
proof (cases "writable c h \<and> \<not> messageStartWritten h")
  case False
  then have "snd (ensureMessageStartLocked c h) = h" by (auto simp: ensureMessageStartLocked_def writable_def)
  then show ?thesis using i by simp
next
  case True
  let ?k = "snd (ensureMessageStartLocked c h)"
  have e: "emitted (start_items c h) (opened h) ?k" using start_emitted(2) True by blast
  have st: "isStream c" "\<not> hasReturn h" using True by (simp_all add: writable_def)
  have so: "state_ok c ?k" using sent_open_state_ok [OF inv_state_ok [OF i] emitted_opened_sent [OF e]] .
  show ?thesis
  proof (cases "broken h")
    case True
    then show ?thesis using inv_broken [OF i _ sent_open_grows [OF emitted_opened_sent [OF e]] so] by blast
  next
    case False
    have r: "read_all Idle (log (opened h)) = Some (reader_of h)" using i st False by (simp add: inv_def consistent_def)
    have "activeBlockType h = NoBlock" "blockIndex h = -1" using i st True by (auto simp: inv_def state_ok_def)
    then have "read_all (reader_of h) (start_items c h) = Some (reader_of (opened h))"
      using True by (simp add: reader_of_def start_items_def open_blocks_def)
    then show ?thesis using inv_emitted [OF e so st(1) _ r] st by simp
  qed
qed

lemma fallback_inv: "inv c h \<Longrightarrow> inv c (apply_fallback c h)"
proof -
  assume i: "inv c h"
  let ?h1 = "h\<lparr>usage := (usage h)\<lparr>useUpstreamUsage := False, outputTokens := 0, outputEstimator := Reset (outputEstimator (usage h))\<rparr>\<rparr>"
  have i1: "inv c ?h1" using i inv_view [OF view_usage] by blast
  then show ?thesis using i textDelta_inv [OF i1] by (simp add: apply_fallback_def Let_def)
qed

lemma nonstream_tool_fields:
  "view (emitToolCallNonStream call h) = view h"
  by (simp add: emitToolCallNonStream_def Let_def)

lemma flush_stream: "pendingToolCalls h = [] \<Longrightarrow> flushPendingToolCalls c h = h"
  by (cases h) (simp add: flushPendingToolCalls_def)

lemma flush_collect:
  assumes "\<not> isStream c"
  shows "view (flushPendingToolCalls c h) = view (h\<lparr>pendingToolCalls := []\<rparr>)"
proof -
  have "view (foldl (\<lambda>g call. emitToolCallNonStream call g) g cs) = view g" for g cs
    by (induction cs arbitrary: g) (simp_all add: nonstream_tool_fields)
  then show ?thesis using assms by (simp add: flushPendingToolCalls_def)
qed

definition terminal_items :: "relay_config \<Rightarrow> string \<Rightarrow> streamHandler \<Rightarrow> out_item list" where
  "terminal_items c r h = map (\<lambda>b. Ev (BlockStop (fst b))) (open_blocks h) @
     [Ev (MessageDelta r (outputTokens (usage (finalizeOutputTokens h)))), Ev MessageStop] @ (if formatOpenAI c then [DoneLine] else [])"

lemma write_terminal_stream:
  assumes st: "isStream c" and s: "state_ok c h"
  shows "logged (terminal_items c r h) (w h) (w (write_terminal c r h))" "state_ok c (write_terminal c r h)"
    "hasReturn h \<Longrightarrow> hasReturn (write_terminal c r h)"
proof -
  define g where "g = snd (popActiveBlockStopDataLocked h)"
  define h1 where "h1 = (case popActiveBlockStopDataLocked h of (None, g) \<Rightarrow> g | (Some e, g) \<Rightarrow> writeFinalSSEBytes c e g)"
  have h1: "logged (map (\<lambda>b. Ev (BlockStop (fst b))) (open_blocks h)) (w g) (w h1)" "sent g h1" "grows g h1"
  proof -
    have *: "logged (map (\<lambda>b. Ev (BlockStop (fst b))) (open_blocks h)) (w g) (w h1) \<and> sent g h1 \<and> grows g h1"
      using s
    proof (cases rule: pop_cases)
      case 1
      then show ?thesis by (simp add: h1_def g_def open_blocks_def logged_refl)
    next
      case (2 i k)
      then have "h1 = emitSSEFrameLocked c (BlockStop i) False True g"
        using st by (cases "popActiveBlockStopDataLocked h") (simp add: h1_def g_def writeFinalSSEBytes_def writeFinalSSEBytesLockedWithHint_def)
      moreover have "emitted [Ev (BlockStop i)] g (emitSSEFrameLocked c (BlockStop i) False True g)"
        using emit_emitted [OF st, of "BlockStop i" True g] by (simp add: tail_items_def)
      ultimately show ?thesis using 2(2) by (simp add: emitted_logged)
    qed
    then show "logged (map (\<lambda>b. Ev (BlockStop (fst b))) (open_blocks h)) (w g) (w h1)" "sent g h1" "grows g h1" by blast+
  qed
  have s1: "state_ok c h1" using sent_open_state_ok [OF pop_state_ok [OF s] sent_openI] h1(2,3) by (simp add: g_def)
  have p1: "pendingToolCalls h1 = []" using s1 st by (simp add: state_ok_def)
  define h2 where "h2 = finalizeOutputTokens (flushPendingToolCalls c h1)"
  have h2: "h2 = finalizeOutputTokens h1" "view h2 = view h1" by (simp_all add: h2_def flush_stream [OF p1])
  have u: "outputTokens (usage h2) = outputTokens (usage (finalizeOutputTokens h))"
    using sent_fields(1) [OF h1(2)] pop_fields(7) [of h] by (simp add: h2(1) finalizeOutputTokens_def g_def)
  define h3 where "h3 = emitSSEFrameLocked c (MessageDelta r (outputTokens (usage h2))) True True h2"
  define h4 where "h4 = emitSSEFrameLocked c MessageStop False True h3"
  have eq: "write_terminal c r h = h4"
    using st by (simp add: write_terminal_def h4_def h3_def h2_def h1_def writeFinalSSEBytes_def writeFinalSSEBytesLockedWithHint_def
        writeSSEMessageDeltaLocked_def write_frame_def Let_def)
  have e3: "emitted [Ev (MessageDelta r (outputTokens (usage h2)))] h2 h3"
    using emit_emitted [OF st, of "MessageDelta r (outputTokens (usage h2))" True h2] by (simp add: h3_def tail_items_def)
  have e4: "emitted (Ev MessageStop # (if formatOpenAI c then [DoneLine] else [])) h3 h4"
    using emit_emitted [OF st, of MessageStop True h3] by (simp add: h4_def tail_items_def)
  have w: "w g = w h" "w h2 = w h1" using pop_fields(1) view_fields(1) [OF h2(2)] by (simp_all add: g_def)
  have "logged (map (\<lambda>b. Ev (BlockStop (fst b))) (open_blocks h) @ [Ev (MessageDelta r (outputTokens (usage h2)))]) (w h) (w h3)"
    using logged_trans [OF h1(1) emitted_logged [OF e3, unfolded w]] w by simp
  then show "logged (terminal_items c r h) (w h) (w (write_terminal c r h))"
    using logged_trans [OF _ emitted_logged [OF e4]] by (fastforce simp: terminal_items_def eq u)
  have "state_ok c h2" using s1 state_ok_view [OF h2(2)] by simp
  then have "state_ok c h3" using sent_open_state_ok sent_openI emitted_sent [OF e3] emitted_grows [OF e3] by blast
  then show "state_ok c (write_terminal c r h)"
    unfolding eq using sent_open_state_ok sent_openI emitted_sent [OF e4] emitted_grows [OF e4] by blast
  assume "hasReturn h"
  then have "hasReturn h1" using sent_return [OF h1(2)] pop_fields(2) [of h] by (simp add: g_def)
  then have "hasReturn h3" using view_fields(2) [OF h2(2)] sent_return [OF emitted_sent [OF e3]] by simp
  then show "hasReturn (write_terminal c r h)" unfolding eq using sent_return [OF emitted_sent [OF e4]] by blast
qed

lemma terminal_read:
  assumes "messageStartWritten h"
  shows "read_all (reader_of h) (terminal_items c r h) = Some Ended"
  using assms by (simp add: reader_of_def terminal_items_def open_blocks_def split: block_type.split)

lemma finish_claim_inv:
  assumes i: "inv c h" and nr: "\<not> hasReturn h" and m: "isStream c \<Longrightarrow> messageStartWritten h"
  shows "inv c (write_terminal c r (h\<lparr>hasReturn := True, finalStopReason := r\<rparr>))" (is "inv c (write_terminal c r ?h)")
proof (cases "isStream c")
  case True
  have s: "state_ok c ?h" using inv_state_ok [OF i] by (simp add: state_ok_def)
  note t = write_terminal_stream [OF True s, of r]
  have eq: "terminal_items c r ?h = terminal_items c r h"
    by (simp add: terminal_items_def open_blocks_def finalizeOutputTokens_def cong: block_type.case_cong)
  show ?thesis
    using inv_logged [of "terminal_items c r h" h, OF _ i nr t(2) t(3) True terminal_read [OF m [OF True]]] t(1)
    by (simp add: eq finished_def)
next
  case False
  have v: "view (write_terminal c r ?h) = view (?h\<lparr>pendingToolCalls := []\<rparr>)"
    using flush_collect [OF False, of ?h] False by (simp add: write_terminal_def)
  have "inv c (?h\<lparr>pendingToolCalls := []\<rparr>)" using i nr False by (auto simp: inv_def state_ok_def consistent_def)
  then show ?thesis using inv_view [OF v] by blast
qed

lemma finishResponse_inv:
  assumes i: "inv c h"
  shows "inv c (finishResponse c r h)"
proof -
  define q where "q = (if r = ''tool_use'' \<and> \<not> has_tool_calls h then ''end_turn'' else r)"
  obtain b k where p: "ensureMessageStartLocked c (apply_fallback c h) = (b, k)" by fastforce
  have k: "inv c k" using start_inv [OF fallback_inv [OF i]] p by (metis snd_conv)
  have m: "isStream c \<Longrightarrow> b \<or> messageStartWritten k \<Longrightarrow> messageStartWritten k"
    using p by (auto simp: ensureMessageStartLocked_def Let_def split: if_splits)
  have "inv c (write_terminal c q (k\<lparr>hasReturn := True, finalStopReason := q\<rparr>))"
    if "\<not> hasReturn k" "\<not> (isStream c \<and> \<not> b \<and> \<not> messageStartWritten k)"
    using finish_claim_inv [OF k that(1)] that(2) m by blast
  then show ?thesis
    using k reportRequestFailure_inv [OF i] inv_view [OF view_complete]
    by (auto simp: finishResponse_def Let_def p simp flip: q_def split: option.split)
qed

lemma modelFinish_inv:
  assumes i: "inv c h" and nr: "\<not> hasReturn h"
  shows "inv c (modelFinish c ev h)"
proof -
  define h1 where "h1 = (case map_of (or_else [] ev) ''usage'' of Some (GMap u) \<Rightarrow> applyUpstreamUsageTokens u h | _ \<Rightarrow> h)"
  have v: "view h1 = view h" by (simp add: h1_def split: option.split gval.split)
  have "inv c (closeActiveBlockLocked c h1)"
    using close_inv [of c h1] i nr inv_view [OF v] view_fields(2) [OF v] by simp
  then show ?thesis using finishResponse_inv by (simp add: modelFinish_def Let_def flip: h1_def)
qed

lemma HasPrefix_reasoning: "HasPrefix ''model.reasoning-delta'' ''model.reasoning-''" "HasPrefix ''model.reasoning-start'' ''model.reasoning-''"
  by code_simp+

lemma handleMessage_inv:
  assumes i: "inv c h" and m: "handleMessage c msg h = Some h'"
  shows "inv c h'"
proof (cases "hasReturn h")
  case True
  then show ?thesis using i m by (simp add: handleMessage_def)
next
  case False
  have sg: "inv c (snd (ensureBlock c ThinkingBlock (h\<lparr>pendingThinkingSig := sig\<rparr>)))" for sig
    using ensureBlock_inv [of c "h\<lparr>pendingThinkingSig := sig\<rparr>" ThinkingBlock] i False inv_view [OF view_psig] by simp
  note pure = inv_view [OF view_reason] inv_view [OF view_psig] inv_view [OF view_apply]
  have tb: "inv c (snd (ensureBlock c TextBlock h))" by (rule ensureBlock_inv [OF i False]) simp
  show ?thesis
    using m i False sg pure tb reasoningDelta_inv [OF i False] close_inv [OF i False] textDelta_inv [OF i False]
      toolCallEvent_inv [OF i False] modelFinish_inv [OF i False]
    by (auto simp: handleMessage_def Let_def HasPrefix_reasoning split: if_splits)
qed

section \<open>Runs\<close>

text \<open>What the request handler does with a stream handler: it feeds it the upstream's messages, ticks keep-alives, opens a
  round before each attempt while nothing was answered and nothing visible was produced, and ends the response. The second
  round rule is a keep-alive tick that falls between the check and the reset.\<close>

inductive relay_step :: "relay_config \<Rightarrow> streamHandler \<Rightarrow> streamHandler \<Rightarrow> bool" for c where
  Message: "handleMessage c msg h = Some h' \<Longrightarrow> relay_step c h h'"
| Tick: "relay_step c h (writeKeepAlive c h)"
| Round: "\<not> hasReturn h \<Longrightarrow> \<not> hasVisibleOutput h \<Longrightarrow> relay_step c h (resetRoundState c h)"
| Round_tick: "\<not> hasReturn h \<Longrightarrow> \<not> hasVisibleOutput h \<Longrightarrow> relay_step c h (resetRoundState c (writeKeepAlive c h))"
| Finish: "relay_step c h (finishResponse c stopReason h)"
| Force: "relay_step c h (forceFinishIfMissing c h)"
| Failure: "relay_step c h (reportRequestFailure c category message retryAfter h)"
| No_account: "relay_step c h (InjectNoAvailableAccountError c lastErr selectErr h)"
| Usage: "relay_step c h (setUsageTokens inTokens outTokens h)"
| Fallback: "relay_step c h (setEmptyOutputFallback txt h)"

inductive relay_reach :: "relay_config \<Rightarrow> streamHandler \<Rightarrow> bool" for c where
  Start: "relay_reach c (newStreamHandler r)"
| Step: "relay_reach c h \<Longrightarrow> relay_step c h h' \<Longrightarrow> relay_reach c h'"

lemma new_inv: "inv c (newStreamHandler r)"
  by (simp add: newStreamHandler_def inv_def state_ok_def consistent_def reader_of_def)

lemma step_inv:
  assumes "relay_step c h h'" "inv c h"
  shows "inv c h'"
  using assms
proof (induction rule: relay_step.induct)
  case (Round h)
  then show ?case using reset_inv by blast
next
  case (Round_tick h)
  have "\<not> hasReturn (writeKeepAlive c h) \<or> (broken (writeKeepAlive c h) \<and> messageStartWritten (writeKeepAlive c h))"
  proof (cases "isStream c \<and> messageStartWritten h")
    case True
    then have e: "emitted [Ev KeepAlive] h (writeKeepAlive c h)" using keepalive_emitted Round_tick by blast
    show ?thesis using emitted_intact [OF e] sent_fields(4) [OF emitted_sent [OF e]] True Round_tick(1) by auto
  next
    case False
    then show ?thesis using Round_tick by (auto simp: writeKeepAlive_def)
  qed
  then show ?case using reset_inv [OF keepalive_inv] Round_tick by blast
next
  case (Usage inTokens outTokens h)
  then show ?case using inv_view [OF view_set] by blast
next
  case (Fallback s h)
  then show ?case using inv_view [OF view_fallback] by (simp add: setEmptyOutputFallback_def)
qed (auto intro: handleMessage_inv keepalive_inv finishResponse_inv reportRequestFailure_inv
    simp: forceFinishIfMissing_def InjectNoAvailableAccountError_def Let_def)

lemma reach_inv: "relay_reach c h \<Longrightarrow> inv c h"
  by (induction rule: relay_reach.induct) (auto intro: new_inv step_inv)

text \<open>Property C7: whatever the upstream sends and however often a request is retried, the stream a client receives is one
  a reader of the protocol accepts, event by event: it opens once, block indices are handed out in order, a delta or a stop
  only names a block that is open and of its kind, and nothing follows the end. While the connection takes writes, a
  response that has returned is complete, with one terminal outcome: the normal end, an error in the stream, or an error
  response.\<close>

theorem stream_well_formed:
  assumes "relay_reach c h"
  shows "(\<exists>r. read_all Idle (out (w h)) = Some r) \<and>
    (isStream c \<and> hasReturn h \<and> room (w h) \<noteq> Some 0 \<longrightarrow> (\<exists>r. read_all Idle (out (w h)) = Some r \<and> finished r))"
  using reach_inv [OF assms] by (auto simp: inv_def consistent_def)

definition example_relay :: relay_config where
  "example_relay = \<lparr>isStream = True, suppressThinking = False, formatOpenAI = False, hasFlusher = True, disallowToolCalls = False,
     surfaceToolRejects = False, allowedToolNames = [], clientTools = [], structured = (\<lambda>_. None), msgID = ''msg_1'', createdUnix = 0,
     pendingModel = ''m'', lib = \<lparr>float_text = id, is_print = (\<lambda>_. True)\<rparr>\<rparr>"

definition example_delta :: "string \<Rightarrow> SSEMessage" where
  "example_delta s = \<lparr>m_Type = ''model'', m_Event = Some [(''type'', GStr ''text-delta''), (''delta'', GStr s)]\<rparr>"

theorem stream_well_formed_witness:
  "\<exists>h r. handleMessage example_relay (example_delta ''hi'') (newStreamHandler None) = Some h \<and>
    read_all Idle (out (w (finishResponse example_relay ''end_turn'' h))) = Some r \<and> finished r"
proof -
  have "case handleMessage example_relay (example_delta ''hi'') (newStreamHandler None) of None \<Rightarrow> False
      | Some h \<Rightarrow> hasReturn (finishResponse example_relay ''end_turn'' h) \<and> room (w (finishResponse example_relay ''end_turn'' h)) = None"
    by code_simp
  then obtain h where h: "handleMessage example_relay (example_delta ''hi'') (newStreamHandler None) = Some h"
    "hasReturn (finishResponse example_relay ''end_turn'' h)" "room (w (finishResponse example_relay ''end_turn'' h)) = None"
    by (auto split: option.splits)
  have "relay_reach example_relay (finishResponse example_relay ''end_turn'' h)"
    by (rule relay_reach.Step [OF relay_reach.Step [OF relay_reach.Start relay_step.Message [OF h(1)]] relay_step.Finish])
  from stream_well_formed [OF this] h show ?thesis by (auto simp: example_relay_def)
qed

text \<open>Finishing a response always claims it.\<close>

lemma start_keeps:
  assumes "writable c h"
  shows "messageStartWritten (snd (ensureMessageStartLocked c h))"
  using sent_fields(4) [OF emitted_sent [OF start_emitted(2) [OF assms]]] by simp

lemma finish_ends:
  assumes i: "inv c h"
  shows "hasReturn (finishResponse c stopReason h)"
proof -
  define q where "q = (if stopReason = ''tool_use'' \<and> \<not> has_tool_calls h then ''end_turn'' else stopReason)"
  obtain b k where p: "ensureMessageStartLocked c (apply_fallback c h) = (b, k)" by fastforce
  have k: "inv c k" using start_inv [OF fallback_inv [OF i]] p by (metis snd_conv)
  have err: "hasReturn (reportRequestFailure c cat msg ra h)" for cat msg ra
    by (auto simp: reportRequestFailure_def writeStreamError_def hasCommitted_def Let_def split: prod.split)
  have opn: "messageStartWritten k \<or> b \<or> hasReturn k" if "isStream c"
  proof (cases "writable c (apply_fallback c h)")
    case True
    then show ?thesis using start_keeps [OF True] p by simp
  next
    case False
    then have "hasReturn (apply_fallback c h)"
      using inv_state_ok [OF fallback_inv [OF i]] that by (auto simp: writable_def state_ok_def)
    then show ?thesis using p by (auto simp: ensureMessageStartLocked_def split: if_splits)
  qed
  have trm: "hasReturn (write_terminal c q (g\<lparr>hasReturn := True, finalStopReason := q\<rparr>))" if "inv c g" for g
  proof (cases "isStream c")
    case True
    have "state_ok c (g\<lparr>hasReturn := True, finalStopReason := q\<rparr>)" using inv_state_ok [OF that] by (simp add: state_ok_def)
    then show ?thesis using write_terminal_stream(3) [OF True] by simp
  next
    case False
    let ?g = "g\<lparr>hasReturn := True, finalStopReason := q\<rparr>"
    have "view (write_terminal c q ?g) = view (?g\<lparr>pendingToolCalls := []\<rparr>)"
      using flush_collect [OF False, of ?g] False by (simp add: write_terminal_def)
    then show ?thesis by (simp add: view_def)
  qed
  show ?thesis
    using err opn trm [OF k] view_fields(2) [OF view_complete]
    by (auto simp: finishResponse_def Let_def p simp flip: q_def split: option.split)
qed

text \<open>Finishing a response always ends it: afterwards the handler has returned, whether the answer was
  complete, failed its schema, broke the connection or had been claimed by an error before.\<close>

theorem finish_returns:
  assumes "relay_reach c h"
  shows "hasReturn (finishResponse c stopReason h)"
  by (rule finish_ends [OF reach_inv [OF assms]])

theorem finish_returns_witness:
  "hasReturn (finishResponse example_relay ''end_turn'' (newStreamHandler (Some 1)))"
  by (rule finish_returns [OF relay_reach.Start])

end
