(* ===== verification/Relay_Content.thy ===== *)
theory Relay_Content
  imports Relay_Stream
begin

text \<open>
  What a relayed response says (\<^verbatim>\<open>streamHandler\<close> of \<^verbatim>\<open>src/internal/handler/stream_handler.go\<close>): the text the client receives
  against the text the upstream sent, the tool calls that get through, and the check of structured answers.
\<close>

section \<open>Text\<close>

fun item_text :: "out_item \<Rightarrow> string" where
  "item_text (Ev (DeltaText i t)) = t"
| "item_text _ = []"

definition streamed_text :: "out_item list \<Rightarrow> string" where
  "streamed_text xs = concat (map item_text xs)"

lemma streamed_text_simps [simp]:
  "streamed_text [] = []" "streamed_text (xs @ ys) = streamed_text xs @ streamed_text ys" "streamed_text (x # xs) = item_text x @ streamed_text xs"
  by (simp_all add: streamed_text_def)

text \<open>The text of the answer so far: what the stream carried, or what a collected answer holds.\<close>

definition answer_text :: "relay_config \<Rightarrow> streamHandler \<Rightarrow> string" where
  "answer_text c h = (if isStream c then streamed_text (out (w h)) else responseText h)"

definition delta_text :: "SSEMessage \<Rightarrow> string" where
  "delta_text msg = (if event_key msg = ''model.text-delta'' then event_str (m_Event msg) ''delta'' else [])"

fun handle_all :: "relay_config \<Rightarrow> SSEMessage list \<Rightarrow> streamHandler \<Rightarrow> streamHandler option" where
  "handle_all c [] h = Some h"
| "handle_all c (m # ms) h = (case handleMessage c m h of None \<Rightarrow> None | Some h' \<Rightarrow> handle_all c ms h')"

text \<open>A step on an intact connection that adds \<open>d\<close> to the answer and leaves the response open.\<close>

definition adds :: "relay_config \<Rightarrow> streamHandler \<Rightarrow> string \<Rightarrow> streamHandler \<Rightarrow> bool" where
  "adds c h d h' \<longleftrightarrow> room (w h') = None \<and> \<not> hasReturn h' \<and> answer_text c h' = answer_text c h @ d"

definition intact :: "relay_config \<Rightarrow> streamHandler \<Rightarrow> bool" where
  "intact c h \<longleftrightarrow> inv c h \<and> room (w h) = None \<and> \<not> hasReturn h"

lemma intact_writable: "intact c h \<Longrightarrow> isStream c \<Longrightarrow> writable c h"
  using writableI inv_state_ok by (auto simp: intact_def)

lemma adds_intact: "adds c h d h' \<Longrightarrow> inv c h' \<Longrightarrow> intact c h'"
  by (simp add: adds_def intact_def)

lemma adds_trans: "adds c h d g \<Longrightarrow> adds c g e k \<Longrightarrow> adds c h (d @ e) k"
  by (simp add: adds_def)

lemma adds_refl: "intact c h \<Longrightarrow> adds c h [] h"
  by (simp add: adds_def intact_def)

lemma view_adds:
  assumes "adds c h d g" "view h' = view g" "responseText h' = responseText g"
  shows "adds c h d h'"
  using assms view_fields(1,2) [OF assms(2)] by (simp add: adds_def answer_text_def split: if_splits)

lemma emitted_adds:
  assumes "emitted xs g h'" "room (w g) = None" "\<not> hasReturn g" "isStream c" "streamed_text xs = d" "w g = w h"
  shows "adds c h d h'"
proof -
  have r: "room (w h') = None" using assms by (simp add: emitted_def grows_def)
  then have "log h' = log g @ xs" "hasReturn h' = hasReturn g"
    using assms(1) emitted_intact [OF assms(1)] by (auto simp: emitted_def)
  then show ?thesis using assms r by (simp add: adds_def answer_text_def)
qed

lemma start_items_text [simp]: "streamed_text (start_items c h) = []"
  by (simp add: start_items_def)

lemma hint_adds:
  assumes "isStream c \<Longrightarrow> writable c h" "room (w h) = None" "\<not> hasReturn h" "event_name e \<noteq> ''message_start''"
  shows "adds c h (if isStream c then item_text (Ev e) else []) (writeSSEBytesLockedWithHint c e im h)"
proof (cases "isStream c")
  case True
  then show ?thesis using emitted_adds [OF hint_emitted [OF assms(1,4)]] assms by (simp add: opened_id)
next
  case False
  then show ?thesis using assms by (simp add: hint_off adds_def)
qed

lemma close_adds:
  assumes "intact c h"
  shows "adds c h [] (closeActiveBlockLocked c h)"
proof -
  have s: "state_ok c h" "room (w h) = None" "\<not> hasReturn h" using assms inv_state_ok by (auto simp: intact_def)
  let ?g = "snd (popActiveBlockStopDataLocked h)"
  from s(1) show ?thesis
  proof (cases rule: pop_cases)
    case 1
    then show ?thesis using adds_refl [OF assms] by (simp add: closeActiveBlockLocked_def)
  next
    case (2 i k)
    then have eq: "closeActiveBlockLocked c h = (if isStream c then emitSSEFrameLocked c (BlockStop i) (shouldFlushSSEImmediately ''content_block_stop'' (payload (BlockStop i))) False ?g else ?g)"
      using s pop_fields(2) [of h] by (cases "popActiveBlockStopDataLocked h") (simp add: closeActiveBlockLocked_def writeSSEBytesLocked_def)
    show ?thesis
    proof (cases "isStream c")
      case True
      have "emitted [Ev (BlockStop i)] ?g (closeActiveBlockLocked c h)"
        using emit_emitted [OF True, of "BlockStop i" False ?g] True by (simp add: eq tail_items_def)
      then show ?thesis by (rule emitted_adds) (use s True pop_fields in simp_all)
    next
      case False
      then show ?thesis using s by (simp add: eq adds_def answer_text_def pop_fields)
    qed
  qed
qed

lemma open_block_adds:
  assumes "intact c h"
  shows "adds c h [] (open_block c b h)"
proof -
  let ?g = "block_opened b h"
  have "isStream c \<Longrightarrow> writable c ?g" using intact_writable [OF assms] by (simp add: writable_def block_opened_fields)
  then have "adds c ?g [] (open_block c b h)"
    using hint_adds [of c ?g "start_event b (blockIndex h + 1) h" True] assms start_event_name
    by (simp add: open_block_def intact_def block_opened_fields start_event_def split: if_splits)
  then show ?thesis by (simp add: adds_def answer_text_def block_opened_fields)
qed

lemma ensureBlock_adds:
  assumes "intact c h" "b \<noteq> NoBlock"
  shows "adds c h [] (snd (ensureBlock c b h))"
proof -
  have cl: "adds c h [] (closeActiveBlockLocked c h)" by (rule close_adds [OF assms(1)])
  have "intact c (closeActiveBlockLocked c h)"
    using adds_intact [OF cl] close_inv assms(1) by (simp add: intact_def)
  then have "adds c h [] (open_block c b (closeActiveBlockLocked c h))"
    using adds_trans [OF cl open_block_adds] by simp
  then show ?thesis using cl adds_refl [OF assms(1)] open_block_adds [OF assms(1)] by (auto simp: ensureBlock_eq [OF assms(2)] Let_def)
qed

lemma text_target_adds:
  assumes "intact c h"
  shows "adds c h [] (snd (text_target c h))"
  using ensureBlock_adds [OF assms, of TextBlock] adds_refl [OF assms] by (simp add: text_target_def)

lemma textDelta_adds:
  assumes i: "intact c h"
  shows "adds c h d (textDelta c d h)"
proof (cases "d = []")
  case True
  then show ?thesis using adds_refl [OF i] by (simp add: textDelta_def)
next
  case False
  let ?h1 = "h\<lparr>hasTextOutput := True\<rparr>"
  have i1: "intact c ?h1" using i inv_view [OF view_text] by (simp add: intact_def)
  obtain k h2 where p: "text_target c ?h1 = (k, h2)" by fastforce
  let ?h3 = "note_text c d h2"
  have a2: "adds c ?h1 [] h2" using text_target_adds [OF i1] p by simp
  have inv2: "inv c h2" using text_target_ok(1) [of c ?h1] i1 p by (simp add: intact_def)
  have rt: "responseText ?h3 = (if isStream c then responseText h2 else responseText h2 @ d)"
    by (simp add: note_text_def addOutputTokens_def Let_def)
  have v: "view ?h3 = view h2" by simp
  have i3: "intact c ?h3"
    using adds_intact [OF a2 inv2] inv_view [OF v] view_fields(1,2) [OF v] by (simp add: intact_def)
  have a3: "adds c h (if isStream c then [] else d) ?h3"
    using a2 rt view_fields(1,2) [OF v] by (simp add: adds_def answer_text_def split: if_splits)
  have a4: "adds c ?h3 (if isStream c then d else []) (writeSSEBytesLockedWithHint c (DeltaText k d) True ?h3)"
    using hint_adds [of c ?h3 "DeltaText k d" True] intact_writable [OF i3] i3 by (simp add: intact_def split: if_splits)
  have "textDelta c d h = writeSSEBytesLockedWithHint c (DeltaText k d) True ?h3"
    using False p by (simp add: textDelta_def writeSSEContentBlockDeltaTextLocked_def write_frame_def)
  then show ?thesis using adds_trans [OF a3 a4] by (simp split: if_splits)
qed

lemma record_text [simp]: "responseText (record_signature sig h) = responseText h"
  by (simp add: record_signature_def Let_def)

lemma note_thinking_text [simp]: "responseText (note_thinking c d h) = responseText h"
  by (simp add: note_thinking_def Let_def)

lemma thinking_delta_adds:
  assumes i: "intact c h" and s: "\<not> suppressThinking c"
  shows "adds c h [] (thinking_delta c sig d h)"
proof -
  let ?h1 = "if sig \<noteq> [] then record_signature sig h else h"
  have v: "view ?h1 = view h" by simp
  have i1: "intact c ?h1" using i inv_view [OF v] view_fields(1,2) [OF v] by (simp add: intact_def)
  have a1: "adds c h [] ?h1" using view_adds [OF adds_refl [OF i] v] by simp
  define t where "t = (if activeThinkingSSEIndex h < 0 then ensureBlock c ThinkingBlock ?h1 else (activeThinkingSSEIndex h, ?h1))"
  have a2: "adds c ?h1 [] (snd t)" using ensureBlock_adds [OF i1, of ThinkingBlock] adds_refl [OF i1] unfolding t_def
    by (cases "activeThinkingSSEIndex h < 0") simp_all
  have inv2: "inv c (snd t)"
    using ensureBlock_inv [of c ?h1 ThinkingBlock] i1 by (simp add: t_def intact_def)
  let ?h3 = "note_thinking c d (snd t)"
  have v3: "view ?h3 = view (snd t)" by simp
  have a3: "adds c h [] ?h3" using view_adds [OF adds_trans [OF a1 a2] v3] by simp
  have i3: "intact c ?h3" using adds_intact [OF a3] inv2 inv_view [OF v3] by simp
  have "adds c ?h3 [] (writeSSEBytesLockedWithHint c (DeltaThinking (fst t) d) False ?h3)"
    using hint_adds [of c ?h3 "DeltaThinking (fst t) d" False] intact_writable [OF i3] i3 by (simp add: intact_def split: if_splits)
  moreover have "thinking_delta c sig d h = writeSSEBytesLockedWithHint c (DeltaThinking (fst t) d) False ?h3"
    by (cases t) (simp add: thinking_delta_def t_def writeSSEContentBlockDeltaThinkingLocked_def write_frame_def Let_def)
  ultimately show ?thesis using adds_trans [OF a3] by fastforce
qed

lemma psig_intact: "intact c h \<Longrightarrow> intact c (h\<lparr>pendingThinkingSig := s\<rparr>)"
  using inv_view [OF view_psig] by (simp add: intact_def)

lemma reasoningDelta_adds:
  assumes i: "intact c h" and s: "\<not> suppressThinking c"
  shows "adds c h [] (reasoningDelta c ev h)"
proof -
  define sig where "sig = (if pendingThinkingSig h = [] then extractThinkingSignature ev else pendingThinkingSig h)"
  let ?h1 = "h\<lparr>pendingThinkingSig := sig\<rparr>"
  have i1: "intact c ?h1" by (rule psig_intact [OF i])
  have i2: "intact c (?h1\<lparr>hasReasoningOutput := True\<rparr>)" using i1 inv_view [OF view_reason] by (simp add: intact_def)
  have e: "adds c ?h1 [] (snd (ensureBlock c ThinkingBlock ?h1))" by (rule ensureBlock_adds [OF i1]) simp
  then have e': "adds c ?h1 [] (record_signature sig (snd (ensureBlock c ThinkingBlock ?h1)))" by (rule view_adds) simp_all
  have base: "adds c ?h1 x k \<Longrightarrow> adds c h x k" for x k by (simp add: adds_def answer_text_def)
  have base2: "adds c (?h1\<lparr>hasReasoningOutput := True\<rparr>) x k \<Longrightarrow> adds c h x k" for x k by (simp add: adds_def answer_text_def)
  show ?thesis
    using base [OF adds_refl [OF i1]] base [OF e'] base2 [OF thinking_delta_adds [OF i2 s]]
    by (auto simp: reasoningDelta_def Let_def simp flip: sig_def)
qed

lemma emitToolUse_adds:
  assumes i: "intact c h" and st: "isStream c"
  shows "adds c h [] (emitToolUseFromInput c tid name inp h)"
proof (cases "tid = [] \<or> name = [] \<or> tid \<in> set (toolCallEmitted h)")
  case True
  then show ?thesis using adds_refl [OF i] by (simp add: emitToolUseFromInput_def)
next
  case False
  let ?h1 = "addOutputTokens name (h\<lparr>toolCallEmitted := tid # toolCallEmitted h\<rparr>)"
  let ?g = "?h1\<lparr>toolCallCount := toolCallCount ?h1 + 1, blockIndex := blockIndex ?h1 + 1\<rparr>"
  have g: "w ?g = w h" "hasReturn ?g = hasReturn h" "requestFailed ?g = requestFailed h" "messageStartWritten ?g = messageStartWritten h"
    by (simp_all add: addOutputTokens_def)
  have wr: "writable c ?g" using intact_writable [OF i st] unfolding writable_def g by blast
  have eq: "emitToolUseFromInput c tid name inp h = write_tool_block c (blockIndex ?g) tid name (input_or_empty inp) False ?g"
    using False by (simp add: emitToolUseFromInput_def Let_def)
  show ?thesis unfolding eq
    by (rule emitted_adds [OF tool_block_emitted [OF wr]]) (use i st g in \<open>simp_all add: intact_def\<close>)
qed

lemma accept_text [simp]: "responseText (snd (shouldAcceptToolCall c call h)) = responseText h"
  by (simp add: shouldAcceptToolCall_def surface_reject_def suppress_call_def Let_def)

lemma toolCallEvent_adds:
  assumes i: "intact c h" and t: "toolCallEvent c ev h = Some h'"
  shows "adds c h [] h'"
proof -
  have pure: "intact c h1 \<and> adds c h [] h1" if "shouldAcceptToolCall c call h = (b, h1)" for call b h1
  proof -
    have h1: "h1 = snd (shouldAcceptToolCall c call h)" using that by simp
    have "adds c h [] h1" unfolding h1 by (rule view_adds [OF adds_refl [OF i]]) simp_all
    then show ?thesis using adds_intact i inv_view [OF view_accept, of c c call h] h1 by (simp add: intact_def)
  qed
  have handled: "intact c (h1\<lparr>toolCallHandled := hs\<rparr>) \<and> adds c h [] (h1\<lparr>toolCallHandled := hs\<rparr>)"
    if "shouldAcceptToolCall c call h = (b, h1)" for call b h1 hs
    using pure [OF that] inv_view [OF view_handled] by (simp add: intact_def adds_def answer_text_def split: if_splits)
  have stream: "adds c h [] (emitToolUseFromInput c tid name inp (h1\<lparr>toolCallHandled := hs\<rparr>))"
    if "isStream c" "shouldAcceptToolCall c call h = (b, h1)" for tid name inp call hs b h1
    using adds_trans [OF conjunct2 [OF handled [OF that(2)]] emitToolUse_adds [OF conjunct1 [OF handled [OF that(2)]] that(1)]] by simp
  have collect: "adds c h [] (handleToolCallAfterChecks call' (h1\<lparr>toolCallHandled := hs\<rparr>))"
    if "\<not> isStream c" "shouldAcceptToolCall c call h = (b, h1)" for call call' hs b h1
    using handled [OF that(2), of hs] that(1) by (simp add: handleToolCallAfterChecks_def adds_def answer_text_def split: if_splits)
  show ?thesis using t adds_refl [OF i] pure stream collect
    by (auto simp: toolCallEvent_def Let_def split: prod.splits option.splits if_splits bool.splits)
qed

lemma handleMessage_adds:
  assumes i: "intact c h" and k: "event_key msg \<noteq> ''model.finish''" and m: "handleMessage c msg h = Some h'"
  shows "adds c h (delta_text msg) h'"
proof -
  have nr: "\<not> hasReturn h" using i by (simp add: intact_def)
  have base: "adds c (h\<lparr>pendingThinkingSig := s\<rparr>) x g \<Longrightarrow> adds c h x g" for s x g by (simp add: adds_def answer_text_def)
  have sg: "adds c h [] (snd (ensureBlock c ThinkingBlock (h\<lparr>pendingThinkingSig := s\<rparr>)))" for s
    by (rule base, rule ensureBlock_adds [OF psig_intact [OF i]]) simp
  have ps: "adds c h [] (h\<lparr>pendingThinkingSig := s\<rparr>)" for s by (rule base, rule adds_refl [OF psig_intact [OF i]])
  have re: "adds c h [] (h\<lparr>hasReasoningOutput := True\<rparr>)" using adds_refl [OF i] by (simp add: adds_def answer_text_def)
  have ap: "adds c h [] (applyUpstreamUsageTokens u h)" for u
    using view_adds [OF adds_refl [OF i] view_apply] by (simp add: applyUpstreamUsageTokens_def Let_def)
  have tb: "adds c h [] (snd (ensureBlock c TextBlock h))" by (rule ensureBlock_adds [OF i]) simp
  have np: "HasPrefix ''model.text-delta'' ''model.reasoning-'' = False" by code_simp
  show ?thesis
    using m nr k sg ps re ap tb adds_refl [OF i] close_adds [OF i] textDelta_adds [OF i] reasoningDelta_adds [OF i] toolCallEvent_adds [OF i] np
    by (auto simp: handleMessage_def delta_text_def Let_def HasPrefix_reasoning split: if_splits)
qed

lemma handle_all_adds:
  assumes "intact c h" "\<And>m. m \<in> set msgs \<Longrightarrow> event_key m \<noteq> ''model.finish''" "handle_all c msgs h = Some h'"
  shows "adds c h (concat (map delta_text msgs)) h'"
  using assms
proof (induction msgs arbitrary: h)
  case Nil
  then show ?case using adds_refl by simp
next
  case (Cons m ms)
  then obtain g where g: "handleMessage c m h = Some g" "handle_all c ms g = Some h'" by (auto split: option.splits)
  have a: "adds c h (delta_text m) g" using handleMessage_adds [OF Cons.prems(1) _ g(1)] Cons.prems(2) by simp
  have "intact c g" using adds_intact [OF a] handleMessage_inv [OF _ g(1)] Cons.prems(1) by (simp add: intact_def)
  then show ?case using adds_trans [OF a Cons.IH] g(2) Cons.prems(2) by simp
qed

text \<open>Property C8: on a connection that takes writes, the text a client receives is exactly the text the upstream sent, in
  order and without loss or repetition, whatever reasoning, tool calls and usage reports lie between the fragments: as the
  text deltas of a stream, or as the collected text of an answer.\<close>

theorem text_relayed_exactly:
  assumes "relay_reach c h" "room (w h) = None" "\<not> hasReturn h"
    and "\<forall>m \<in> set msgs. event_key m \<noteq> ''model.finish''" "handle_all c msgs h = Some h'"
  shows "answer_text c h' = answer_text c h @ concat (map delta_text msgs)"
  using handle_all_adds [of c h msgs h'] reach_inv [OF assms(1)] assms by (simp add: intact_def adds_def)

definition example_reasoning :: "string \<Rightarrow> SSEMessage" where
  "example_reasoning s = \<lparr>m_Type = ''model'', m_Event = Some [(''type'', GStr ''reasoning-delta''), (''delta'', GStr s)]\<rparr>"

theorem text_relayed_exactly_witness:
  "\<exists>h'. handle_all example_relay [example_delta ''he'', example_reasoning ''hm'', example_delta ''llo''] (newStreamHandler None) = Some h' \<and>
    answer_text example_relay h' = ''hello''"
proof -
  let ?ms = "[example_delta ''he'', example_reasoning ''hm'', example_delta ''llo'']"
  have "handle_all example_relay ?ms (newStreamHandler None) \<noteq> None" by code_simp
  then obtain h' where h': "handle_all example_relay ?ms (newStreamHandler None) = Some h'" by blast
  have "\<forall>m \<in> set ?ms. event_key m \<noteq> ''model.finish''" by code_simp
  moreover have "concat (map delta_text ?ms) = ''hello''" "answer_text example_relay (newStreamHandler None) = []"
    "room (w (newStreamHandler None)) = None" "\<not> hasReturn (newStreamHandler None)" by code_simp+
  ultimately have "answer_text example_relay h' = ''hello''"
    using text_relayed_exactly [OF relay_reach.Start _ _ _ h'] by simp
  then show ?thesis using h' by blast
qed

section \<open>Tool calls\<close>

fun item_tool :: "out_item \<Rightarrow> (string \<times> string) list" where
  "item_tool (Ev (BlockStartToolUse i tid name)) = [(tid, name)]"
| "item_tool _ = []"

definition tools :: "out_item list \<Rightarrow> (string \<times> string) list" where
  "tools xs = concat (map item_tool xs)"

lemma tools_simps [simp]: "tools [] = []" "tools (xs @ ys) = tools xs @ tools ys" "tools (x # xs) = item_tool x @ tools xs"
  by (simp_all add: tools_def)

text \<open>A call the gates let through: the request allows tools, this one is declared, stays in the project and has its fields.\<close>

definition admitted :: "relay_config \<Rightarrow> string \<times> string \<Rightarrow> bool" where
  "admitted c t \<longleftrightarrow> \<not> disallowToolCalls c \<and>
     (\<exists>inp. allowed_tool c \<lparr>call_id = fst t, call_name = snd t, call_input = inp\<rparr> \<and>
       \<not> hasNonProjectSandboxToolPath (snd t) inp \<and> validToolCallInput (snd t) inp)"

text \<open>A step that writes no tool call and, on a stream, collects no text.\<close>

definition quiet :: "relay_config \<Rightarrow> streamHandler \<Rightarrow> streamHandler \<Rightarrow> bool" where
  "quiet c h h' \<longleftrightarrow> (\<exists>xs. log h' = log h @ xs \<and> tools xs = []) \<and> toolCallEmitted h' = toolCallEmitted h \<and>
     (isStream c \<longrightarrow> responseText h' = responseText h)"

lemma quiet_refl [simp, intro]: "quiet c h h"
  by (simp add: quiet_def)

lemma quiet_trans: "quiet c h g \<Longrightarrow> quiet c g k \<Longrightarrow> quiet c h k"
  by (auto simp: quiet_def)

lemma quiet_pure:
  "w h' = w h \<Longrightarrow> toolCallEmitted h' = toolCallEmitted h \<Longrightarrow> (isStream c \<Longrightarrow> responseText h' = responseText h) \<Longrightarrow> quiet c h h'"
  by (simp add: quiet_def)

lemma sent_quiet:
  assumes "emitted xs h h'" "tools xs = []"
  shows "quiet c h h'"
proof -
  have "tools ys = []" if "xs = ys @ zs" for ys zs using assms(2) that by simp
  then show ?thesis using assms sent_fields(12,18) [OF emitted_sent [OF assms(1)]] by (auto simp: emitted_def quiet_def)
qed

lemma emit_quiet:
  assumes "item_tool (Ev e) = []"
  shows "quiet c h (emitSSEFrameLocked c e i f h)"
proof (cases "isStream c")
  case True
  show ?thesis by (rule sent_quiet [OF emit_emitted [OF True]]) (use assms in \<open>simp add: tail_items_def\<close>)
next
  case False
  then show ?thesis by (simp add: emit_off)
qed

lemma hint_quiet:
  assumes "item_tool (Ev e) = []" "event_name e \<noteq> ''message_start''"
  shows "quiet c h (writeSSEBytesLockedWithHint c e im h)"
proof (cases "writable c h")
  case True
  have "quiet c (opened h) (writeSSEBytesLockedWithHint c e im h)"
    by (rule sent_quiet [OF hint_emitted [OF True assms(2)]]) (use assms in \<open>simp add: start_items_def\<close>)
  then show ?thesis by (simp add: quiet_def)
next
  case False
  then have "writeSSEBytesLockedWithHint c e im h = h"
    using assms(2) by (auto simp: writeSSEBytesLockedWithHint_def writable_def ensureMessageStartLocked_def)
  then show ?thesis by simp
qed

lemma start_quiet: "quiet c h (snd (ensureMessageStartLocked c h))"
proof (cases "writable c h")
  case True
  have "quiet c (opened h) (snd (ensureMessageStartLocked c h))"
    by (rule sent_quiet [OF start_emitted(2) [OF True]]) (simp add: start_items_def)
  then show ?thesis by (simp add: quiet_def)
next
  case False
  then show ?thesis by (auto simp: ensureMessageStartLocked_def writable_def)
qed

lemma pop_quiet: "quiet c h (snd (popActiveBlockStopDataLocked h))"
  by (rule quiet_pure) (simp_all add: pop_fields)

lemma pop_event: "fst (popActiveBlockStopDataLocked h) = Some e \<Longrightarrow> item_tool (Ev e) = []"
  by (auto simp: popActiveBlockStopDataLocked_def split: block_type.splits)

lemma close_quiet: "quiet c h (closeActiveBlockLocked c h)"
proof (cases "fst (popActiveBlockStopDataLocked h)")
  case None
  then show ?thesis using pop_quiet [of c h] by (cases "popActiveBlockStopDataLocked h") (simp add: closeActiveBlockLocked_def)
next
  case (Some e)
  have "quiet c g (writeSSEBytesLocked c e g)" for g
    using emit_quiet [of e c g, OF pop_event [OF Some]] by (simp add: writeSSEBytesLocked_def)
  then show ?thesis using pop_quiet [of c h] Some
    by (cases "popActiveBlockStopDataLocked h") (auto simp: closeActiveBlockLocked_def intro: quiet_trans)
qed

lemma open_block_quiet: "quiet c h (open_block c b h)"
proof -
  have "quiet c (block_opened b h) (open_block c b h)"
    unfolding open_block_def by (rule hint_quiet) (simp_all add: start_event_def)
  then show ?thesis by (simp add: quiet_def block_opened_fields)
qed

lemma ensureBlock_quiet: "b \<noteq> NoBlock \<Longrightarrow> quiet c h (snd (ensureBlock c b h))"
  using close_quiet [of c h] open_block_quiet [of c _ b] quiet_trans by (auto simp: ensureBlock_eq Let_def)

lemma note_quiet: "quiet c h (note_text c d h)" "quiet c h (note_thinking c d h)" "quiet c h (record_signature sig h)"
  "quiet c h (applyUpstreamUsageTokens u h)" "quiet c h (finalizeOutputTokens h)" "quiet c h (setUsageTokens ni no h)"
  "quiet c h (finalizeCompletion h)"
  by (rule quiet_pure; simp add: note_text_def note_thinking_def record_signature_def applyUpstreamUsageTokens_def
      finalizeOutputTokens_def setUsageTokens_def finalizeCompletion_def addOutputTokens_def Let_def)+

lemma textDelta_quiet: "quiet c h (textDelta c d h)"
proof -
  let ?h1 = "h\<lparr>hasTextOutput := True\<rparr>"
  obtain k h2 where p: "text_target c ?h1 = (k, h2)" by fastforce
  have "quiet c ?h1 h2" using p ensureBlock_quiet [of TextBlock c ?h1] by (auto simp: text_target_def split: if_splits)
  then have "quiet c h h2" by (simp add: quiet_def)
  then have "quiet c h (writeSSEBytesLockedWithHint c (DeltaText k d) True (note_text c d h2))"
    by (rule quiet_trans [OF quiet_trans [OF _ note_quiet(1)] hint_quiet]) simp_all
  then show ?thesis using p by (simp add: textDelta_def writeSSEContentBlockDeltaTextLocked_def write_frame_def)
qed

lemma thinking_delta_quiet: "quiet c h (thinking_delta c sig d h)"
proof -
  let ?h1 = "if sig \<noteq> [] then record_signature sig h else h"
  have a: "quiet c h ?h1" using note_quiet(3) by simp
  define t where "t = (if activeThinkingSSEIndex h < 0 then ensureBlock c ThinkingBlock ?h1 else (activeThinkingSSEIndex h, ?h1))"
  have "quiet c h (snd t)" using quiet_trans [OF a ensureBlock_quiet [of ThinkingBlock c ?h1]] a unfolding t_def
    by (cases "activeThinkingSSEIndex h < 0") simp_all
  then have "quiet c h (writeSSEBytesLockedWithHint c (DeltaThinking (fst t) d) False (note_thinking c d (snd t)))"
    by (rule quiet_trans [OF quiet_trans [OF _ note_quiet(2)] hint_quiet]) simp_all
  then show ?thesis
    by (cases t) (simp add: thinking_delta_def t_def writeSSEContentBlockDeltaThinkingLocked_def write_frame_def Let_def)
qed

lemma reasoningDelta_quiet: "quiet c h (reasoningDelta c ev h)"
proof -
  define sig where "sig = (if pendingThinkingSig h = [] then extractThinkingSignature ev else pendingThinkingSig h)"
  let ?h1 = "h\<lparr>pendingThinkingSig := sig\<rparr>"
  have base: "quiet c ?h1 k \<Longrightarrow> quiet c h k" "quiet c (?h1\<lparr>hasReasoningOutput := True\<rparr>) k \<Longrightarrow> quiet c h k" for k
    by (simp_all add: quiet_def)
  have "quiet c h (record_signature sig (snd (ensureBlock c ThinkingBlock ?h1)))"
    by (rule quiet_trans [OF base(1) [OF ensureBlock_quiet] note_quiet(3)]) simp
  then show ?thesis using base(1) [OF quiet_refl] base(2) [OF thinking_delta_quiet]
    by (auto simp: reasoningDelta_def Let_def simp flip: sig_def)
qed

lemma logged_quiet:
  assumes "logged xs (w h) (w h')" "tools xs = []" "toolCallEmitted h' = toolCallEmitted h" "responseText h' = responseText h"
  shows "quiet c h h'"
proof -
  have "tools ys = []" if "xs = ys @ zs" for ys zs using assms(2) that by simp
  then show ?thesis using assms by (auto simp: logged_def quiet_def)
qed

lemma stream_error_logged:
  "\<exists>xs. logged xs (w h) (w (writeStreamError c category message h)) \<and> tools xs = []"
proof (cases "isStream c \<and> \<not> hasReturn h")
  case False
  then show ?thesis using logged_refl by (auto simp: writeStreamError_def intro: exI [where x = "[]"])
next
  case True
  define u where "u = (w h)\<lparr>failureMarked := True\<rparr>"
  obtain res wr where p: "write_item c (Ev (StreamError category message)) u = (res, wr)" by fastforce
  have l: "logged [Ev (StreamError category message)] u wr" using write_item_logged [of "Ev (StreamError category message)" u c] p by simp
  have d: "logged [Ev (StreamError category message), DoneLine] u (snd (write_item c DoneLine wr))"
    using logged_trans [OF l write_item_logged [of DoneLine wr c]] by simp
  have fl: "logged xs u v \<Longrightarrow> logged xs (w h) (if b then v\<lparr>flushed := n\<rparr> else v)" for xs v b n
    by (auto simp: logged_def u_def)
  have "w (writeStreamError c category message h) \<in>
      {if hasFlusher c then wr\<lparr>flushed := length (out wr)\<rparr> else wr, wr,
       if hasFlusher c then (snd (write_item c DoneLine wr))\<lparr>flushed := length (out (snd (write_item c DoneLine wr)))\<rparr> else snd (write_item c DoneLine wr)}"
    using True p by (auto simp: writeStreamError_def u_def Let_def)
  moreover have "\<exists>xs. logged xs (w h) (if b then wr\<lparr>flushed := n\<rparr> else wr) \<and> tools xs = []" for b n
    using fl [OF l, of b n] by (intro exI [where x = "[Ev (StreamError category message)]"]) simp
  moreover have "\<exists>xs. logged xs (w h) (if b then (snd (write_item c DoneLine wr))\<lparr>flushed := n\<rparr> else snd (write_item c DoneLine wr)) \<and> tools xs = []" for b n
    using fl [OF d, of b n] by (intro exI [where x = "[Ev (StreamError category message), DoneLine]"]) simp
  moreover have "\<exists>xs. logged xs (w h) wr \<and> tools xs = []" using fl [OF l, of False 0]
    by (intro exI [where x = "[Ev (StreamError category message)]"]) simp
  ultimately show ?thesis by (elim insertE emptyE) (simp_all only:)
qed

lemma failure_quiet: "quiet c h (reportRequestFailure c category message retryAfter h)"
proof (cases "isStream c \<and> hasCommitted h")
  case True
  have "quiet c h (writeStreamError c category message h)"
    using stream_error_logged [of h c category message]
    by (auto intro!: logged_quiet simp: writeStreamError_def Let_def split: prod.split)
  then show ?thesis using True by (simp add: reportRequestFailure_def)
next
  case False
  then show ?thesis
    using logged_quiet [OF _ _, of "[HttpError (NewWithRetryAfter category message (StatusForCategory category) retryAfter)]" h
        "reportRequestFailure c category message retryAfter h" c] write_item_logged
    by (auto simp: reportRequestFailure_def)
qed

lemma fallback_quiet: "quiet c h (apply_fallback c h)"
proof -
  let ?h1 = "h\<lparr>usage := (usage h)\<lparr>useUpstreamUsage := False, outputTokens := 0, outputEstimator := Reset (outputEstimator (usage h))\<rparr>\<rparr>"
  have "quiet c h ?h1" by (rule quiet_pure) simp_all
  then show ?thesis using quiet_trans [OF _ textDelta_quiet] by (simp add: apply_fallback_def Let_def)
qed

lemma collect_quiet: "quiet c h (flushPendingToolCalls c h)" if "\<not> isStream c"
proof -
  have "w (foldl (\<lambda>g call. emitToolCallNonStream call g) g cs) = w g \<and>
      toolCallEmitted (foldl (\<lambda>g call. emitToolCallNonStream call g) g cs) = toolCallEmitted g" for g cs
    by (induction cs arbitrary: g) (simp_all add: emitToolCallNonStream_def addOutputTokens_def Let_def)
  then show ?thesis using that by (simp add: quiet_def flushPendingToolCalls_def)
qed

lemma write_terminal_quiet:
  assumes "isStream c \<Longrightarrow> pendingToolCalls h = []"
  shows "quiet c h (write_terminal c r h)"
proof (cases "isStream c")
  case False
  then show ?thesis using quiet_trans [OF collect_quiet [OF False] note_quiet(5)] by (simp add: write_terminal_def)
next
  case True
  define h1 where "h1 = (case popActiveBlockStopDataLocked h of (None, g) \<Rightarrow> g | (Some e, g) \<Rightarrow> writeFinalSSEBytes c e g)"
  have h1: "quiet c h h1" "pendingToolCalls h1 = []"
  proof -
    let ?g = "snd (popActiveBlockStopDataLocked h)"
    have "h1 = ?g \<or> (\<exists>e. fst (popActiveBlockStopDataLocked h) = Some e \<and> h1 = emitSSEFrameLocked c e False True ?g)"
      using True by (auto simp: h1_def writeFinalSSEBytes_def writeFinalSSEBytesLockedWithHint_def split: prod.split option.split)
    then show "quiet c h h1" "pendingToolCalls h1 = []"
      using pop_quiet [of c h] quiet_trans [OF pop_quiet [of c h] emit_quiet [OF pop_event]] assms True
        sent_fields(16) [OF emit_sent, of c] pop_fields(6) [of h] by auto
  qed
  have p: "flushPendingToolCalls c h1 = h1" by (rule flush_stream [OF h1(2)])
  have eq: "write_terminal c r h = emitSSEFrameLocked c MessageStop False True
      (emitSSEFrameLocked c (MessageDelta r (outputTokens (usage (finalizeOutputTokens h1)))) True True (finalizeOutputTokens h1))"
    using True p by (simp add: write_terminal_def writeFinalSSEBytes_def writeFinalSSEBytesLockedWithHint_def
        writeSSEMessageDeltaLocked_def write_frame_def h1_def Let_def)
  show ?thesis unfolding eq
    by (rule quiet_trans [OF quiet_trans [OF quiet_trans [OF h1(1) note_quiet(5)] emit_quiet] emit_quiet]) simp_all
qed

lemma finish_quiet:
  assumes "inv c h"
  shows "quiet c h (finishResponse c r h)"
proof -
  define q where "q = (if r = ''tool_use'' \<and> \<not> has_tool_calls h then ''end_turn'' else r)"
  obtain b k where p: "ensureMessageStartLocked c (apply_fallback c h) = (b, k)" by fastforce
  have k: "quiet c h k" using quiet_trans [OF fallback_quiet start_quiet, of c h] p by simp
  have ik: "inv c k" using start_inv [OF fallback_inv [OF assms]] p by (metis snd_conv)
  let ?k = "k\<lparr>hasReturn := True, finalStopReason := q\<rparr>"
  have pk: "isStream c \<Longrightarrow> pendingToolCalls ?k = []" using ik by (simp add: inv_def state_ok_def)
  have "quiet c k ?k" by (rule quiet_pure) simp_all
  then have "quiet c h (finalizeCompletion (write_terminal c q ?k))"
    using quiet_trans [OF quiet_trans [OF quiet_trans [OF k] write_terminal_quiet [OF pk]] note_quiet(7)] by blast
  then show ?thesis using k failure_quiet by (auto simp: finishResponse_def Let_def p simp flip: q_def split: option.split)
qed

text \<open>The state of the tools: each identifier was written once and every written call was let through.\<close>

definition tools_ok :: "relay_config \<Rightarrow> streamHandler \<Rightarrow> bool" where
  "tools_ok c h \<longleftrightarrow> (isStream c \<longrightarrow> distinct (map fst (tools (log h))) \<and> set (map fst (tools (log h))) \<subseteq> set (toolCallEmitted h) \<and>
     (\<forall>t \<in> set (tools (log h)). admitted c t) \<and> responseText h = [])"

lemma quiet_tools: "quiet c h h' \<Longrightarrow> tools_ok c h \<Longrightarrow> tools_ok c h'"
proof -
  assume q: "quiet c h h'" and t: "tools_ok c h"
  have "tools (log h') = tools (log h)" "toolCallEmitted h' = toolCallEmitted h" "isStream c \<Longrightarrow> responseText h' = responseText h"
    using q by (auto simp: quiet_def)
  then show "tools_ok c h'" using t by (simp add: tools_ok_def)
qed

lemma accept_admitted:
  assumes "fst (shouldAcceptToolCall c call h)"
  shows "admitted c (call_id call, call_name call)"
proof -
  have "\<not> disallowToolCalls c" "allowed_tool c call" "\<not> hasNonProjectSandboxToolPath (call_name call) (call_input call)"
    "validToolCallInput (call_name call) (call_input call)"
    using assms by (auto simp: shouldAcceptToolCall_def Let_def split: if_splits)
  moreover have "call = \<lparr>call_id = call_id call, call_name = call_name call, call_input = call_input call\<rparr>" by simp
  ultimately show ?thesis unfolding admitted_def by (metis fst_conv snd_conv)
qed

lemma emitToolUse_tools:
  assumes t: "tools_ok c h" and a: "admitted c (tid, name)" and wr: "writable c h"
  shows "tools_ok c (emitToolUseFromInput c tid name inp h)"
proof (cases "tid = [] \<or> name = [] \<or> tid \<in> set (toolCallEmitted h)")
  case True
  then show ?thesis using t by (simp add: emitToolUseFromInput_def)
next
  case False
  let ?h1 = "addOutputTokens name (h\<lparr>toolCallEmitted := tid # toolCallEmitted h\<rparr>)"
  define g where "g = ?h1\<lparr>toolCallCount := toolCallCount ?h1 + 1, blockIndex := blockIndex ?h1 + 1\<rparr>"
  have g: "w g = w h" "hasReturn g = hasReturn h" "requestFailed g = requestFailed h" "messageStartWritten g = messageStartWritten h"
    "toolCallEmitted g = tid # toolCallEmitted h" "responseText g = responseText h"
    by (simp_all add: g_def addOutputTokens_def)
  have wg: "writable c g" using wr unfolding writable_def g by blast
  define k where "k = write_tool_block c (blockIndex g) tid name (input_or_empty inp) False g"
  have eq: "emitToolUseFromInput c tid name inp h = k"
    using False by (simp add: emitToolUseFromInput_def k_def g_def Let_def)
  note e = tool_block_emitted [OF wg, of "blockIndex g" tid name "input_or_empty inp", folded k_def]
  have "tools ys = [] \<or> tools ys = [(tid, name)]"
    if "start_items c g @ [Ev (BlockStartToolUse (blockIndex g) tid name), Ev (DeltaInputJSON (blockIndex g) (input_or_empty inp)), Ev (BlockStop (blockIndex g))] = ys @ zs" for ys zs
  proof -
    have "tools ys @ tools zs = [(tid, name)]"
      using arg_cong [OF that, of tools] by (auto simp: start_items_def split: if_splits)
    then show ?thesis by (auto simp: append_eq_Cons_conv)
  qed
  then obtain ys where ys: "log k = log h @ ys" "tools ys = [] \<or> tools ys = [(tid, name)]"
    using e g(1) unfolding emitted_def by (auto intro: exI [where x = "[]"])
  have f: "toolCallEmitted k = tid # toolCallEmitted h" "responseText k = responseText h"
    using sent_fields(12,18) [OF emitted_sent [OF e]] by (simp_all add: g)
  show ?thesis unfolding eq using t a ys f False by (auto simp: tools_ok_def)
qed

lemma keepalive_quiet: "quiet c h (writeKeepAlive c h)"
proof (cases "isStream c \<and> \<not> hasReturn h \<and> messageStartWritten h")
  case True
  show ?thesis by (rule sent_quiet [OF keepalive_emitted]) (use True in simp_all)
next
  case False
  then show ?thesis by (auto simp: writeKeepAlive_def)
qed

lemma reset_tools:
  assumes "tools_ok c h" "toolCallEmitted h = []"
  shows "tools_ok c (resetRoundState c h)"
proof -
  let ?k = "closeActiveBlockLocked c h"
  have k: "tools_ok c ?k" "toolCallEmitted ?k = []"
    using quiet_tools [OF close_quiet assms(1)] close_quiet [of c h] assms(2) by (auto simp: quiet_def)
  have "log (resetRoundState c h) = log ?k" "toolCallEmitted (resetRoundState c h) = []" "responseText (resetRoundState c h) = []"
    by (simp_all add: resetRoundState_def Let_def)
  then show ?thesis using k by (simp add: tools_ok_def)
qed

lemma toolCallEvent_tools:
  assumes i: "inv c h" and nr: "\<not> hasReturn h" and t: "tools_ok c h" and e: "toolCallEvent c ev h = Some h'"
  shows "tools_ok c h'"
proof -
  have pure: "tools_ok c (h1\<lparr>toolCallHandled := hs\<rparr>) \<and> tools_ok c h1 \<and> inv c (h1\<lparr>toolCallHandled := hs\<rparr>) \<and> \<not> hasReturn h1"
    if "shouldAcceptToolCall c call h = (b, h1)" for call b h1 hs
  proof -
    have h1: "h1 = snd (shouldAcceptToolCall c call h)" using that by simp
    have "quiet c h h1" unfolding h1
      by (rule quiet_pure) (simp_all add: view_fields(1) [OF view_accept], simp add: shouldAcceptToolCall_def surface_reject_def suppress_call_def Let_def)
    then have "tools_ok c h1" using quiet_tools t by blast
    moreover have "inv c (h1\<lparr>toolCallHandled := hs\<rparr>)" "\<not> hasReturn h1"
      using i nr inv_view [OF view_handled] inv_view [OF view_accept] view_fields(2) [OF view_accept] by (simp_all add: h1)
    ultimately show ?thesis by (simp add: tools_ok_def)
  qed
  have stream: "tools_ok c (emitToolUseFromInput c tid name inp' (h1\<lparr>toolCallHandled := hs\<rparr>))"
    if s: "isStream c" "shouldAcceptToolCall c \<lparr>call_id = tid, call_name = name, call_input = inp\<rparr> h = (True, h1)" for tid name inp inp' hs h1
  proof -
    have "admitted c (tid, name)" using accept_admitted [of c "\<lparr>call_id = tid, call_name = name, call_input = inp\<rparr>" h] s(2) by simp
    moreover have "writable c (h1\<lparr>toolCallHandled := hs\<rparr>)"
      using writableI [OF inv_state_ok s(1)] pure [OF s(2), of hs] by simp
    ultimately show ?thesis using emitToolUse_tools pure [OF s(2)] by blast
  qed
  have collect: "tools_ok c (handleToolCallAfterChecks call h1)" if "\<not> isStream c" for call h1
    using that by (simp add: tools_ok_def)
  show ?thesis using e t pure stream collect
    by (auto simp: toolCallEvent_def Let_def split: prod.splits option.splits if_splits bool.splits)
qed

lemma modelFinish_tools:
  assumes i: "inv c h" and nr: "\<not> hasReturn h" and t: "tools_ok c h"
  shows "tools_ok c (modelFinish c ev h)"
proof -
  define h1 where "h1 = (case map_of (or_else [] ev) ''usage'' of Some (GMap u) \<Rightarrow> applyUpstreamUsageTokens u h | _ \<Rightarrow> h)"
  have v: "view h1 = view h" and q: "quiet c h h1" using note_quiet(4) by (auto simp: h1_def split: option.split gval.split)
  have "inv c (closeActiveBlockLocked c h1)"
    using close_inv [of c h1] i nr inv_view [OF v] view_fields(2) [OF v] by simp
  then have "quiet c h1 (finishResponse c r (closeActiveBlockLocked c h1))" for r
    using quiet_trans [OF close_quiet finish_quiet] by blast
  then show ?thesis using quiet_tools [OF quiet_trans [OF q]] t by (simp add: modelFinish_def Let_def flip: h1_def)
qed

lemma handleMessage_tools:
  assumes i: "inv c h" and t: "tools_ok c h" and m: "handleMessage c msg h = Some h'"
  shows "tools_ok c h'"
proof (cases "hasReturn h")
  case True
  then show ?thesis using t m by (simp add: handleMessage_def)
next
  case False
  have base: "quiet c (h\<lparr>pendingThinkingSig := s\<rparr>) g \<Longrightarrow> quiet c h g" for s g by (simp add: quiet_def)
  have sg: "quiet c h (snd (ensureBlock c ThinkingBlock (h\<lparr>pendingThinkingSig := s\<rparr>)))" for s
    by (rule base, rule ensureBlock_quiet) simp
  have ps: "quiet c h (h\<lparr>pendingThinkingSig := s\<rparr>)" and re: "quiet c h (h\<lparr>hasReasoningOutput := True\<rparr>)" for s
    by (simp_all add: quiet_def)
  have tb: "quiet c h (snd (ensureBlock c TextBlock h))" by (rule ensureBlock_quiet) simp
  note q = quiet_tools [OF _ t]
  show ?thesis
    using m False t q [OF sg] q [OF ps] q [OF re] q [OF tb] q [OF note_quiet(4)] q [OF close_quiet] q [OF textDelta_quiet] q [OF reasoningDelta_quiet]
      toolCallEvent_tools [OF i False t] modelFinish_tools [OF i False t]
    by (auto simp: handleMessage_def Let_def split: if_splits)
qed

lemma step_tools:
  assumes "relay_step c h h'" "inv c h" "tools_ok c h"
  shows "tools_ok c h'"
  using assms
proof (induction rule: relay_step.induct)
  case (Round h)
  then show ?case using reset_tools by (simp add: hasVisibleOutput_def)
next
  case (Round_tick h)
  have "toolCallEmitted (writeKeepAlive c h) = []" using keepalive_quiet [of c h] Round_tick(2) by (auto simp: quiet_def hasVisibleOutput_def)
  then show ?case using reset_tools quiet_tools [OF keepalive_quiet] Round_tick by blast
next
  case (Fallback s h)
  then show ?case by (simp add: setEmptyOutputFallback_def tools_ok_def)
qed (auto intro: handleMessage_tools quiet_tools [OF keepalive_quiet] quiet_tools [OF finish_quiet] quiet_tools [OF failure_quiet] quiet_tools [OF note_quiet(6)]
    simp: forceFinishIfMissing_def InjectNoAvailableAccountError_def Let_def)

lemma reach_tools: "relay_reach c h \<Longrightarrow> tools_ok c h"
proof (induction rule: relay_reach.induct)
  case (Start r)
  show ?case by (simp add: newStreamHandler_def tools_ok_def)
next
  case (Step h h')
  then show ?case using step_tools reach_inv by blast
qed


definition example_call :: "string \<Rightarrow> SSEMessage" where
  \<open>example_call tid = \<lparr>m_Type = ''model'', m_Event = Some [(''type'', GStr ''tool-call''), (''toolCallId'', GStr tid), (''toolName'', GStr ''Bash''),
     (''input'', GStr ''{"command":"ls"}'')]\<rparr>\<close>


section \<open>Structured answers\<close>

text \<open>The schema of a strict structured answer is checked on the collected text only. A collected answer that
  fails it is answered by an error response of the category \<open>schema_mismatch\<close> and by nothing else; on a stream the check
  sees no text, so an answer of any shape is completed as if it had passed.\<close>

theorem schema_checked_unless_streamed:
  assumes "relay_reach c h"
  shows "(isStream c \<longrightarrow> validateStructuredAnswer c h = None) \<and>
    (\<not> isStream c \<and> \<not> hasReturn h \<and> validateStructuredAnswer c h = Some err \<longrightarrow>
      hasReturn (finishResponse c r h) \<and> requestFailed (finishResponse c r h) \<and>
      w (finishResponse c r h) = snd (write_item c (HttpError (NewWithRetryAfter ''schema_mismatch'' err (StatusForCategory ''schema_mismatch'') 0)) (w h)))"
  using reach_tools [OF assms]
  by (auto simp: tools_ok_def validateStructuredAnswer_def finishResponse_def reportRequestFailure_def TrimSpace_Nil Let_def split: option.splits if_splits)

definition example_strict :: relay_config where
  "example_strict = example_relay\<lparr>isStream := False, structured := (\<lambda>_. Some ''bad'')\<rparr>"

theorem schema_checked_unless_streamed_witness:
  "\<exists>h. handleMessage example_strict (example_delta ''no'') (newStreamHandler None) = Some h \<and>
    requestFailed (finishResponse example_strict ''end_turn'' h)"
proof -
  have "case handleMessage example_strict (example_delta ''no'') (newStreamHandler None) of None \<Rightarrow> False
      | Some h \<Rightarrow> \<not> hasReturn h \<and> validateStructuredAnswer example_strict h = Some ''bad''" by code_simp
  then obtain h where h: "handleMessage example_strict (example_delta ''no'') (newStreamHandler None) = Some h" "\<not> hasReturn h"
    "validateStructuredAnswer example_strict h = Some ''bad''" by (auto split: option.splits)
  have "relay_reach example_strict h" by (rule relay_reach.Step [OF relay_reach.Start relay_step.Message [OF h(1)]])
  from schema_checked_unless_streamed [OF this] h show ?thesis by (auto simp: example_strict_def)
qed

end
