(* ===== verification/Relay_Answer.thy ===== *)
theory Relay_Answer
  imports Relay_Content
begin

text \<open>
  The body of a collected (non-streaming) answer (\<^verbatim>\<open>src/internal/handler/handler.go\<close>: \<^verbatim>\<open>buildOpenAINonStreamResponse\<close>,
  \<^verbatim>\<open>materializeBlockField\<close> and the end of \<^verbatim>\<open>HandleMessages\<close>), and that it holds the whole text the relay collected.
\<close>

section \<open>The body\<close>

definition block_type_of :: "fields_map \<Rightarrow> string" where
  "block_type_of b = or_else [] (as_str (map_of b ''type''))"

definition mapStopReasonToOpenAIFinishReason :: "string \<Rightarrow> string" where
  "mapStopReasonToOpenAIFinishReason stopReason =
     (let r = TrimSpace stopReason in
      if r \<in> {[], ''end_turn'', ''stop''} then ''stop''
      else if r = ''tool_use'' then ''tool_calls''
      else if r = ''max_tokens'' then ''length''
      else if r = ''refusal'' then ''content_filter'' else stopReason)"

definition materializeBlockField :: "fields_map \<Rightarrow> string \<Rightarrow> string option list \<Rightarrow> nat \<Rightarrow> fields_map" where
  "materializeBlockField block field builders i = (case builderAt builders (int i) of
     Some t \<Rightarrow> put_field block (field, JStr t)
   | None \<Rightarrow> if map_of block field = None then put_field block (field, JStr []) else block)"

definition materialize :: "streamHandler \<Rightarrow> nat \<Rightarrow> fields_map \<Rightarrow> fields_map" where
  "materialize h i b =
     (if block_type_of b = ''text'' then materializeBlockField b ''text'' (textBlockBuilders h) i
      else if block_type_of b = ''thinking'' then materializeBlockField b ''thinking'' (thinkingBlockBuilders h) i
      else b)"

definition collectedBlocks :: "streamHandler \<Rightarrow> fields_map list" where
  "collectedBlocks h =
     (let bs = map (\<lambda>i. materialize h i (contentBlocks h ! i)) [0..<length (contentBlocks h)] in
      if bs = [] \<and> responseText h \<noteq> [] then [[(''type'', JStr ''text''), (''text'', JStr (responseText h))]] else bs)"

text \<open>The text of a block of a kind: from its builder, or from its field.\<close>

definition block_part :: "string \<Rightarrow> string option list \<Rightarrow> nat \<Rightarrow> fields_map \<Rightarrow> string" where
  "block_part field builders i b =
     (case builderAt builders (int i) of
        Some (x # xs) \<Rightarrow> x # xs
      | _ \<Rightarrow> or_else [] (as_str (map_of b field)))"

definition joined_parts :: "string \<Rightarrow> string option list \<Rightarrow> fields_map list \<Rightarrow> string" where
  "joined_parts kind_name builders bs =
     concat (map (\<lambda>i. if block_type_of (bs ! i) = kind_name then block_part kind_name builders i (bs ! i) else []) [0..<length bs])"

record openAINonStreamToolCall =
  tc_ID :: string
  tc_Name :: string
  tc_Arguments :: string

definition tool_call_of :: "golib \<Rightarrow> fields_map \<Rightarrow> openAINonStreamToolCall" where
  "tool_call_of g b =
     \<lparr>tc_ID = or_else [] (as_str (map_of b ''id'')), tc_Name = or_else [] (as_str (map_of b ''name'')),
      tc_Arguments = (case map_of b ''input'' of
         Some (JStr s) \<Rightarrow> s | None \<Rightarrow> ''{}'' | Some JNull \<Rightarrow> ''{}'' | Some v \<Rightarrow> json_Marshal (float_text g) v)\<rparr>"

record openAINonStreamResponse =
  oa_ID :: string
  oa_Created :: int
  oa_Model :: string
  oa_Content :: string
  oa_ReasoningContent :: string
  oa_ToolCalls :: "openAINonStreamToolCall list"
  oa_FinishReason :: string
  oa_PromptTokens :: int
  oa_CompletionTokens :: int
  oa_TotalTokens :: int

definition buildOpenAINonStreamResponse :: "relay_config \<Rightarrow> streamHandler \<Rightarrow> fields_map list \<Rightarrow> string \<Rightarrow> string \<Rightarrow> openAINonStreamResponse" where
  "buildOpenAINonStreamResponse c h bs model stopReason =
     (let joined = joined_parts ''text'' (textBlockBuilders h) bs;
          calls = map (tool_call_of (lib c)) (filter (\<lambda>b. block_type_of b = ''tool_use'') bs) in
      \<lparr>oa_ID = msgID c, oa_Created = createdUnix c, oa_Model = model,
       oa_Content = (if TrimSpace joined = [] \<and> calls \<noteq> [] then [] else joined),
       oa_ReasoningContent = joined_parts ''thinking'' (thinkingBlockBuilders h) bs,
       oa_ToolCalls = calls, oa_FinishReason = mapStopReasonToOpenAIFinishReason stopReason,
       oa_PromptTokens = inputTokens (usage h), oa_CompletionTokens = outputTokens (usage h),
       oa_TotalTokens = inputTokens (usage h) + outputTokens (usage h)\<rparr>)"

definition anthropicResponse :: "relay_config \<Rightarrow> streamHandler \<Rightarrow> fields_map list \<Rightarrow> string \<Rightarrow> string \<Rightarrow> json" where
  "anthropicResponse c h bs model stopReason = JObj
     [(''id'', JStr (msgID c)), (''type'', JStr ''message''), (''role'', JStr ''assistant''), (''content'', JArr (map JObj bs)),
      (''model'', JStr model), (''stop_reason'', JStr stopReason), (''stop_sequence'', JNull),
      (''usage'', JObj [(''input_tokens'', JNum (AppendInt [] (inputTokens (usage h)))), (''output_tokens'', JNum (AppendInt [] (outputTokens (usage h))))])]"

text \<open>The answer of a request that did not fail, by response format.\<close>

definition collectedAnswer :: "relay_config \<Rightarrow> streamHandler \<Rightarrow> string \<Rightarrow> openAINonStreamResponse + json" where
  "collectedAnswer c h model =
     (let stopReason = (if finalStopReason h = [] then ''end_turn'' else finalStopReason h); bs = collectedBlocks h in
      if formatOpenAI c then Inl (buildOpenAINonStreamResponse c h bs model stopReason)
      else Inr (anthropicResponse c h bs model stopReason))"

section \<open>The collected text\<close>

definition text_at :: "fields_map list \<Rightarrow> string option list \<Rightarrow> nat \<Rightarrow> string" where
  "text_at cs ts i = (if block_type_of (cs ! i) = ''text'' then or_else [] (builderAt ts (int i)) else [])"

definition collected :: "fields_map list \<Rightarrow> string option list \<Rightarrow> string" where
  "collected cs ts = concat (map (text_at cs ts) [0..<length cs])"

definition has_builders :: "fields_map list \<Rightarrow> string option list \<Rightarrow> bool" where
  "has_builders cs ts \<longleftrightarrow> length ts \<le> length cs \<and>
     (\<forall>i < length cs. block_type_of (cs ! i) = ''text'' \<longrightarrow> builderAt ts (int i) \<noteq> None)"

text \<open>What collecting keeps: every text block has its builder, the open text block is the last one, and the builders hold
  the whole text.\<close>

definition history_ok :: "streamHandler \<Rightarrow> bool" where
  "history_ok h \<longleftrightarrow> has_builders (contentBlocks h) (textBlockBuilders h) \<and>
     collected (contentBlocks h) (textBlockBuilders h) = responseText h \<and>
     (\<not> hasReturn h \<and> activeBlockType h = TextBlock \<longrightarrow>
        contentBlocks h \<noteq> [] \<and> activeTextBlockIndex h = int (length (contentBlocks h)) - 1 \<and>
        block_type_of (last (contentBlocks h)) = ''text'')"

lemma builderAt_nat: "builderAt bs (int i) = (if i < length bs then bs ! i else None)"
  by (simp add: builderAt_def)

lemma history_cong:
  assumes "contentBlocks h' = contentBlocks h" "textBlockBuilders h' = textBlockBuilders h" "responseText h' = responseText h"
    and "\<not> hasReturn h' \<and> activeBlockType h' = TextBlock \<Longrightarrow> \<not> hasReturn h \<and> activeBlockType h = TextBlock \<and> activeTextBlockIndex h' = activeTextBlockIndex h"
  shows "history_ok h \<Longrightarrow> history_ok h'"
  using assms by (simp add: history_ok_def)

lemma map_upt_cong: "(\<And>i. i < n \<Longrightarrow> f i = g i) \<Longrightarrow> concat (map f [0..<n]) = concat (map g [0..<n])"
  by (intro arg_cong [where f = concat]) simp

lemma collected_append:
  assumes "length ts \<le> length cs"
  shows "collected (cs @ [b]) (ts @ replicate (length cs - length ts) None @ us) =
    collected cs ts @ (if block_type_of b = ''text'' then or_else [] (builderAt us 0) else [])"
proof -
  have "text_at (cs @ [b]) (ts @ replicate (length cs - length ts) None @ us) i = text_at cs ts i" if "i < length cs" for i
    using that assms by (auto simp: text_at_def builderAt_nat nth_append or_else_def)
  then have "concat (map (text_at (cs @ [b]) (ts @ replicate (length cs - length ts) None @ us)) [0..<length cs]) = concat (map (text_at cs ts) [0..<length cs])"
    by (rule map_upt_cong)
  moreover have "builderAt (ts @ replicate (length cs - length ts) None @ us) (int (length cs)) = builderAt us 0"
    using assms by (simp add: builderAt_nat nth_append builderAt_def)
  ultimately show ?thesis by (simp add: collected_def text_at_def [of _ _ "length cs"])
qed

lemma collected_append_other:
  assumes "length ts \<le> length cs" "block_type_of b \<noteq> ''text''"
  shows "collected (cs @ [b]) ts = collected cs ts"
proof -
  have "text_at (cs @ [b]) ts i = text_at cs ts i" if "i < length cs" for i
    using that by (simp add: text_at_def nth_append)
  then have "concat (map (text_at (cs @ [b]) ts) [0..<length cs]) = concat (map (text_at cs ts) [0..<length cs])"
    by (rule map_upt_cong)
  then show ?thesis using assms by (simp add: collected_def text_at_def [of _ _ "length cs"])
qed

lemma has_builders_append_other:
  "has_builders cs ts \<Longrightarrow> block_type_of b \<noteq> ''text'' \<Longrightarrow> has_builders (cs @ [b]) ts"
  by (auto simp: has_builders_def nth_append less_Suc_eq)

lemma has_builders_append_text:
  assumes "has_builders cs ts"
  shows "has_builders (cs @ [b]) (ts @ replicate (length cs - length ts) None @ [Some t])"
proof -
  let ?us = "ts @ replicate (length cs - length ts) None @ [Some t]"
  have l: "length ts \<le> length cs" using assms by (simp add: has_builders_def)
  have "builderAt ?us (int i) = (if i = length cs then Some t else builderAt ts (int i))" if "i \<le> length cs" for i
    using that l by (auto simp: builderAt_nat nth_append nth_Cons')
  then show ?thesis using assms l by (auto simp: has_builders_def nth_append less_Suc_eq)
qed

lemma block_type_simps [simp]:
  "block_type_of ((''type'', JStr s) # fs) = s"
  by (simp add: block_type_of_def as_str_def or_else_def)

lemma grow_at_end:
  assumes "length sl \<le> i"
  shows "(growBuilderSlots sl i)[i := x] = sl @ replicate (i - length sl) None @ [x]"
proof -
  have "growBuilderSlots sl i = sl @ replicate (i - length sl) None @ [None]"
    using assms by (simp add: growBuilderSlots_def Suc_diff_le flip: replicate_append_same)
  then show ?thesis using assms by (simp add: list_update_append)
qed

lemma opened_history:
  assumes "history_ok h" "b \<noteq> NoBlock"
  shows "history_ok (block_opened b h)"
proof -
  let ?cs = "contentBlocks h" and ?ts = "textBlockBuilders h"
  have hb: "has_builders ?cs ?ts" "length ?ts \<le> length ?cs" using assms by (simp_all add: history_ok_def has_builders_def)
  show ?thesis
  proof (cases "b = ThinkingBlock")
    case True
    then show ?thesis
      using assms(1) hb collected_append_other [OF hb(2)] has_builders_append_other [OF hb(1)]
      by (simp add: history_ok_def block_opened_def Let_def)
  next
    case False
    then show ?thesis
      using assms(1) hb collected_append [OF hb(2), of "[(''type'', JStr ''text'')]" "[Some []]"] has_builders_append_text [OF hb(1)]
      by (simp add: history_ok_def block_opened_def grow_at_end builderAt_def or_else_def Let_def)
  qed
qed

text \<open>Without a stream the writers do nothing.\<close>

lemma collect_close: "\<not> isStream c \<Longrightarrow> closeActiveBlockLocked c h = snd (popActiveBlockStopDataLocked h)"
  by (auto simp: closeActiveBlockLocked_def writeSSEBytesLocked_def split: prod.split option.split)

lemma collect_open: "\<not> isStream c \<Longrightarrow> open_block c b h = block_opened b h"
  by (simp add: open_block_def hint_off)

lemma pop_history: "history_ok h \<Longrightarrow> history_ok (snd (popActiveBlockStopDataLocked h))"
  by (rule history_cong) (simp_all add: pop_fields)

lemma ensure_history:
  assumes "\<not> isStream c" "b \<noteq> NoBlock" "history_ok h"
  shows "history_ok (snd (ensureBlock c b h))"
  using assms pop_history [OF assms(3)] opened_history [OF _ assms(2)]
  by (auto simp: ensureBlock_eq collect_close collect_open Let_def)

text \<open>A fragment goes to the builder of the open text block, which is the last.\<close>

lemma last_builder_written:
  assumes "has_builders (cs @ [b]) ts" "block_type_of b = ''text''"
  shows "has_builders (cs @ [b]) (historyBuilderAt_write ts (length cs) d)"
    "collected (cs @ [b]) (historyBuilderAt_write ts (length cs) d) = collected (cs @ [b]) ts @ d"
proof -
  let ?n = "length cs"
  have "builderAt ts (int ?n) \<noteq> None" using assms by (auto simp: has_builders_def nth_append)
  then obtain t where l: "length ts = ?n + 1" and t: "ts ! ?n = Some t"
    using assms(1) by (auto simp: builderAt_nat has_builders_def split: if_splits)
  have w: "historyBuilderAt_write ts ?n d = ts[?n := Some (t @ d)]"
    using l t by (simp add: historyBuilderAt_write_def growBuilderSlots_def or_else_def Let_def)
  show "has_builders (cs @ [b]) (historyBuilderAt_write ts ?n d)"
    using assms(1) l by (auto simp: w has_builders_def builderAt_nat nth_list_update)
  have "text_at (cs @ [b]) (ts[?n := Some (t @ d)]) i = text_at (cs @ [b]) ts i" if "i < ?n" for i
    using that l by (simp add: text_at_def builderAt_nat)
  then have "concat (map (text_at (cs @ [b]) (ts[?n := Some (t @ d)])) [0..<?n]) = concat (map (text_at (cs @ [b]) ts) [0..<?n])"
    by (rule map_upt_cong)
  then show "collected (cs @ [b]) (historyBuilderAt_write ts ?n d) = collected (cs @ [b]) ts @ d"
    using l t assms(2) by (simp add: w collected_def text_at_def [of _ _ ?n] builderAt_nat or_else_def)
qed

lemma note_text_history:
  assumes "history_ok h" "\<not> isStream c" "\<not> hasReturn h" "activeBlockType h = TextBlock"
  shows "history_ok (note_text c d h)"
proof -
  have a: "contentBlocks h \<noteq> []" "activeTextBlockIndex h = int (length (contentBlocks h)) - 1"
    "block_type_of (last (contentBlocks h)) = ''text''" using assms by (simp_all add: history_ok_def)
  obtain cs b where cs: "contentBlocks h = cs @ [b]" using a(1) by (metis rev_exhaust)
  have b: "block_type_of b = ''text''" "activeTextBlockIndex h = int (length cs)" using a cs by simp_all
  let ?g = "note_text c d h"
  have f: "contentBlocks ?g = cs @ [b]" "textBlockBuilders ?g = historyBuilderAt_write (textBlockBuilders h) (length cs) d"
    "responseText ?g = responseText h @ d" "activeTextBlockIndex ?g = activeTextBlockIndex h"
    using assms(2) b(2) by (simp_all add: note_text_def addOutputTokens_def cs Let_def)
  have "has_builders (cs @ [b]) (textBlockBuilders h)" "collected (cs @ [b]) (textBlockBuilders h) = responseText h"
    using assms(1) by (simp_all add: history_ok_def cs)
  then show ?thesis using last_builder_written [OF _ b(1)] b by (simp add: history_ok_def f)
qed

lemma textDelta_history:
  assumes "inv c h" "history_ok h" "\<not> isStream c" "\<not> hasReturn h"
  shows "history_ok (textDelta c d h)"
proof (cases "d = []")
  case True
  then show ?thesis using assms by (simp add: textDelta_def)
next
  case False
  let ?h1 = "h\<lparr>hasTextOutput := True\<rparr>"
  have i1: "inv c ?h1" "\<not> hasReturn ?h1" using assms inv_view [OF view_text] by simp_all
  have h1: "history_ok ?h1" by (rule history_cong [OF _ _ _ _ assms(2)]) simp_all
  obtain k h2 where p: "text_target c ?h1 = (k, h2)" by fastforce
  have h2: "history_ok h2" using ensure_history [OF assms(3) _ h1, of TextBlock] h1 p by (auto simp: text_target_def split: if_splits)
  have "activeBlockType h2 = TextBlock" using text_target_ok(2) [OF i1] p by simp
  moreover have "\<not> hasReturn h2"
  proof -
    have "hasReturn (snd (ensureBlock c TextBlock ?h1)) = hasReturn ?h1"
      using assms(3) by (auto simp: ensureBlock_eq collect_close collect_open pop_fields block_opened_fields Let_def)
    then show ?thesis using p assms(4) by (auto simp: text_target_def split: if_splits)
  qed
  ultimately have "history_ok (note_text c d h2)" using note_text_history h2 assms(3) by blast
  then show ?thesis using False p assms(3)
    by (simp add: textDelta_def writeSSEContentBlockDeltaTextLocked_def write_frame_def hint_off)
qed

text \<open>Steps that touch neither the blocks nor the text.\<close>

definition same_history :: "streamHandler \<Rightarrow> streamHandler \<Rightarrow> bool" where
  "same_history h h' \<longleftrightarrow> contentBlocks h' = contentBlocks h \<and> textBlockBuilders h' = textBlockBuilders h \<and> responseText h' = responseText h \<and>
     activeTextBlockIndex h' = activeTextBlockIndex h \<and> (hasReturn h \<longrightarrow> hasReturn h') \<and>
     (activeBlockType h' = TextBlock \<longrightarrow> activeBlockType h = TextBlock)"

lemma same_history_ok: "same_history h h' \<Longrightarrow> history_ok h \<Longrightarrow> history_ok h'"
  by (rule history_cong [of h' h]) (auto simp: same_history_def)

lemma same_history_reject:
  "same_history h g \<Longrightarrow> same_history h (surface_reject c b s g)" "same_history h g \<Longrightarrow> same_history h (suppress_call b g)"
  by (simp_all add: same_history_def surface_reject_def suppress_call_def)

lemma same_history_refl: "same_history h h"
  by (simp add: same_history_def)

lemma same_history_snd_if:
  "same_history h (snd p) \<Longrightarrow> same_history h (snd q) \<Longrightarrow> same_history h (snd (if b then p else q))"
  by simp

lemma same_history_snd: "same_history h g \<Longrightarrow> same_history h (snd (b, g))"
  by simp

lemma same_history_accept: "same_history h (snd (shouldAcceptToolCall c call' h))"
  unfolding shouldAcceptToolCall_def Let_def
  by (intro same_history_snd_if same_history_snd same_history_reject same_history_refl)

lemma same_history_error: "same_history h (writeStreamError c cat msg h)"
proof (cases "\<not> isStream c \<or> hasReturn h")
  case True
  then show ?thesis by (auto simp: writeStreamError_def same_history_def)
next
  case False
  then have "\<exists>wr. writeStreamError c cat msg h = h\<lparr>hasReturn := True, requestFailed := True, w := wr\<rparr>"
    by (simp add: writeStreamError_def Let_def split: prod.split) blast
  then show ?thesis by (auto simp: same_history_def)
qed

lemma same_history_steps:
  "same_history h (applyUpstreamUsageTokens u h)" "same_history h (setUsageTokens ni no h)"
  "same_history h (h\<lparr>pendingThinkingSig := s\<rparr>)" "same_history h (h\<lparr>hasReasoningOutput := b\<rparr>)" "same_history h (finalizeOutputTokens h)"
  "same_history h (note_thinking c d h)" "same_history h (finalizeCompletion h)" "same_history h (handleToolCallAfterChecks call h)"
  "same_history h (h\<lparr>toolCallHandled := hs\<rparr>)" "same_history h (snd (shouldAcceptToolCall c call' h))"
  "same_history h (reportRequestFailure c cat msg ra h)"
  "same_history h (h\<lparr>hasReturn := True, finalStopReason := fs\<rparr>)"
proof -
  show "same_history h (reportRequestFailure c cat msg ra h)"
    using same_history_error [of h c cat msg] by (simp add: reportRequestFailure_def same_history_def)
  show "same_history h (snd (shouldAcceptToolCall c call' h))" by (rule same_history_accept)
qed (simp_all add: same_history_def applyUpstreamUsageTokens_def setUsageTokens_def finalizeOutputTokens_def note_thinking_def
    finalizeCompletion_def handleToolCallAfterChecks_def Let_def)

lemma put_other_type: "block_type_of (put_field b (''signature'', v)) = block_type_of b"
  by (simp add: block_type_of_def)

lemma record_history: "history_ok h \<Longrightarrow> history_ok (record_signature sig h)"
proof -
  assume h: "history_ok h"
  define i where "i = nat (activeThinkingBlockIndex h)"
  define k where "k \<longleftrightarrow> 0 \<le> activeThinkingBlockIndex h \<and> activeThinkingBlockIndex h < int (length (contentBlocks h)) \<and>
    thinkingBlockSigAt h (activeThinkingBlockIndex h) = Some []"
  have eq0: "record_signature sig h = (if k then h\<lparr>thinkingBlockSigs := (thinkingBlockSigs h)[i := sig],
      contentBlocks := (contentBlocks h)[i := put_field (contentBlocks h ! i) (''signature'', JStr sig)]\<rparr> else h)"
    by (simp only: record_signature_def Let_def k_def i_def)
  show ?thesis
  proof (cases k)
    case False
    then show ?thesis using h by (simp add: eq0)
  next
    case True
    then have i: "i < length (contentBlocks h)" by (auto simp: i_def k_def)
    have eq: "record_signature sig h = h\<lparr>thinkingBlockSigs := (thinkingBlockSigs h)[i := sig],
      contentBlocks := (contentBlocks h)[i := put_field (contentBlocks h ! i) (''signature'', JStr sig)]\<rparr>"
      using True by (simp add: eq0)
    let ?cs = "(contentBlocks h)[i := put_field (contentBlocks h ! i) (''signature'', JStr sig)]"
    have ty: "block_type_of (?cs ! j) = block_type_of (contentBlocks h ! j)" for j
      using i by (cases "j = i") (simp_all add: put_other_type)
    have "text_at ?cs (textBlockBuilders h) j = text_at (contentBlocks h) (textBlockBuilders h) j" for j by (simp only: text_at_def ty)
    then have "concat (map (text_at ?cs (textBlockBuilders h)) [0..<length (contentBlocks h)]) =
      concat (map (text_at (contentBlocks h) (textBlockBuilders h)) [0..<length (contentBlocks h)])" by (intro map_upt_cong)
    then have "collected ?cs (textBlockBuilders h) = collected (contentBlocks h) (textBlockBuilders h)"
      by (simp only: collected_def length_list_update)
    moreover have "has_builders ?cs (textBlockBuilders h)" using h by (simp add: history_ok_def has_builders_def ty)
    moreover have "contentBlocks h \<noteq> [] \<Longrightarrow> block_type_of (last ?cs) = block_type_of (last (contentBlocks h))"
      by (simp add: last_conv_nth ty)
    ultimately show ?thesis using h by (simp add: history_ok_def eq)
  qed
qed

lemma reasoning_history:
  assumes "\<not> isStream c" "history_ok h"
  shows "history_ok (reasoningDelta c ev h)"
proof -
  define sig where "sig = (if pendingThinkingSig h = [] then extractThinkingSignature ev else pendingThinkingSig h)"
  let ?h1 = "h\<lparr>pendingThinkingSig := sig\<rparr>"
  have h1: "history_ok ?h1" "history_ok (?h1\<lparr>hasReasoningOutput := True\<rparr>)"
    using same_history_ok [OF same_history_steps(3) assms(2)] same_history_ok [OF same_history_steps(4)] by blast+
  have e: "history_ok g \<Longrightarrow> history_ok (snd (ensureBlock c ThinkingBlock g))" for g using ensure_history [OF assms(1)] by simp
  have d: "history_ok (thinking_delta c s d g)" if g: "history_ok g" for s d g
  proof -
    let ?g1 = "if s \<noteq> [] then record_signature s g else g"
    have g1: "history_ok ?g1" using g record_history by simp
    obtain k g2 where p: "(if activeThinkingSSEIndex g < 0 then ensureBlock c ThinkingBlock ?g1 else (activeThinkingSSEIndex g, ?g1)) = (k, g2)"
      by fastforce
    then have "history_ok g2" using e [OF g1] g1 by (cases "activeThinkingSSEIndex g < 0") (simp_all add: prod_eq_iff)
    then show ?thesis
      using same_history_ok [OF same_history_steps(6)] assms(1) p
      by (simp add: thinking_delta_def writeSSEContentBlockDeltaThinkingLocked_def write_frame_def hint_off Let_def)
  qed
  show ?thesis using h1 e [OF h1(1)] record_history d [OF h1(2)]
    by (auto simp: reasoningDelta_def Let_def simp flip: sig_def)
qed

lemma tool_history:
  assumes "\<not> isStream c" "history_ok h" "toolCallEvent c ev h = Some h'"
  shows "history_ok h'"
proof -
  have "history_ok h1 \<and> history_ok (handleToolCallAfterChecks call' (h1\<lparr>toolCallHandled := hs\<rparr>))"
    if "shouldAcceptToolCall c call h = (b, h1)" for call b h1 hs call'
    using same_history_ok [OF same_history_steps(10) assms(2), of c call] that same_history_ok [OF same_history_steps(8)] same_history_ok [OF same_history_steps(9)]
    by fastforce
  then show ?thesis using assms by (auto simp: toolCallEvent_def Let_def split: prod.splits option.splits if_splits bool.splits)
qed

lemma fallback_history: "inv c h \<Longrightarrow> \<not> isStream c \<Longrightarrow> history_ok h \<Longrightarrow> history_ok (apply_fallback c h)"
proof -
  assume a: "inv c h" "\<not> isStream c" "history_ok h"
  let ?h1 = "h\<lparr>usage := (usage h)\<lparr>useUpstreamUsage := False, outputTokens := 0, outputEstimator := Reset (outputEstimator (usage h))\<rparr>\<rparr>"
  have "inv c ?h1" using a(1) inv_view [OF view_usage] by blast
  moreover have "history_ok ?h1" by (rule history_cong [OF _ _ _ _ a(3)]) simp_all
  ultimately show ?thesis using a textDelta_history [of c ?h1] by (simp add: apply_fallback_def Let_def)
qed

lemma flush_history:
  assumes "\<not> isStream c" "history_ok h" "hasReturn h"
  shows "history_ok (flushPendingToolCalls c h)"
proof -
  have step: "history_ok (emitToolCallNonStream call g) \<and> hasReturn (emitToolCallNonStream call g)"
    if g: "history_ok g" "hasReturn g" for call g
  proof -
    define b where "b = [(''type'', JStr ''tool_use''), (''id'', JStr (call_id call)), (''name'', JStr (call_name call)),
      (''input'', or_else (JObj []) (json_Unmarshal (input_or_empty (call_input call))))]"
    have l: "length (textBlockBuilders g) \<le> length (contentBlocks g)" using g by (simp add: history_ok_def has_builders_def)
    have f: "contentBlocks (emitToolCallNonStream call g) = contentBlocks g @ [b]"
      "textBlockBuilders (emitToolCallNonStream call g) = textBlockBuilders g" "responseText (emitToolCallNonStream call g) = responseText g"
      "hasReturn (emitToolCallNonStream call g) = hasReturn g"
      by (simp_all add: emitToolCallNonStream_def b_def addOutputTokens_def Let_def)
    have "block_type_of b \<noteq> ''text''" by (simp add: b_def)
    then show ?thesis using g collected_append_other [OF l] has_builders_append_other by (simp add: history_ok_def f)
  qed
  have "history_ok (foldl (\<lambda>g call. emitToolCallNonStream call g) g cs)" if "history_ok g" "hasReturn g" for g cs
    using that step by (induction cs arbitrary: g) simp_all
  moreover have "history_ok (h\<lparr>pendingToolCalls := []\<rparr>)" by (rule history_cong [OF _ _ _ _ assms(2)]) simp_all
  ultimately show ?thesis using assms by (simp add: flushPendingToolCalls_def)
qed

lemma finish_history:
  assumes "inv c h" "\<not> isStream c" "history_ok h"
  shows "history_ok (finishResponse c r h)"
proof -
  define q where "q = (if r = ''tool_use'' \<and> \<not> has_tool_calls h then ''end_turn'' else r)"
  let ?k = "apply_fallback c h"
  have k: "history_ok ?k" by (rule fallback_history [OF assms])
  let ?g = "?k\<lparr>hasReturn := True, finalStopReason := q\<rparr>"
  have "history_ok (flushPendingToolCalls c ?g)"
    by (rule flush_history [OF assms(2) same_history_ok [OF same_history_steps(12) k]]) simp
  then have t: "history_ok (finalizeCompletion (write_terminal c q ?g))"
    using assms(2) same_history_ok [OF same_history_steps(5)] same_history_ok [OF same_history_steps(7)] by (simp add: write_terminal_def)
  have "ensureMessageStartLocked c ?k = (messageStartWritten ?k, ?k)" using assms(2) by (simp add: ensureMessageStartLocked_def)
  then show ?thesis using t k assms(2) same_history_ok [OF same_history_steps(11) assms(3)]
    by (simp add: finishResponse_def Let_def flip: q_def split: option.split)
qed

lemma modelFinish_history:
  assumes i: "inv c h" and ns: "\<not> isStream c" and h: "history_ok h" and nr: "\<not> hasReturn h"
  shows "history_ok (modelFinish c ev h)"
proof -
  define h1 where "h1 = (case map_of (or_else [] ev) ''usage'' of Some (GMap u) \<Rightarrow> applyUpstreamUsageTokens u h | _ \<Rightarrow> h)"
  have v: "view h1 = view h" by (simp add: h1_def split: option.split gval.split)
  have h1: "history_ok h1" using h same_history_ok [OF same_history_steps(1) h] by (simp add: h1_def split: option.split gval.split)
  have "inv c (closeActiveBlockLocked c h1)"
    using close_inv [of c h1] i nr inv_view [OF v] view_fields(2) [OF v] by simp
  then show ?thesis using finish_history [OF _ ns] pop_history [OF h1] ns by (simp add: modelFinish_def Let_def collect_close flip: h1_def)
qed

lemma handleMessage_history:
  assumes i: "inv c h" and ns: "\<not> isStream c" and h: "history_ok h" and m: "handleMessage c msg h = Some h'"
  shows "history_ok h'"
proof (cases "hasReturn h")
  case True
  then show ?thesis using h m by (simp add: handleMessage_def)
next
  case False
  have th: "history_ok (snd (ensureBlock c ThinkingBlock (h\<lparr>pendingThinkingSig := s\<rparr>)))" for s
    by (rule ensure_history [OF ns _ same_history_ok [OF same_history_steps(3) h]]) simp
  have tb: "history_ok (snd (ensureBlock c TextBlock h))" by (rule ensure_history [OF ns _ h]) simp
  show ?thesis
    using m False h th tb same_history_ok [OF same_history_steps(3) h] same_history_ok [OF same_history_steps(4) h] same_history_ok [OF same_history_steps(1) h]
      pop_history [OF h] textDelta_history [OF i h ns False] reasoning_history [OF ns h] tool_history [OF ns h] modelFinish_history [OF i ns h False]
    by (auto simp: handleMessage_def Let_def collect_close [OF ns] split: if_splits)
qed

lemma reset_history: "history_ok (resetRoundState c h)"
  by (simp add: resetRoundState_def history_ok_def has_builders_def collected_def Let_def)

lemma step_history:
  assumes "relay_step c h h'" "inv c h" "\<not> isStream c" "history_ok h"
  shows "history_ok h'"
  using assms
proof (induction rule: relay_step.induct)
  case (Fallback h s)
  have "same_history h (setEmptyOutputFallback s h)" by (simp add: same_history_def setEmptyOutputFallback_def)
  then show ?case using same_history_ok Fallback by blast
next
  case (Usage ni no h)
  then show ?case using same_history_ok [OF same_history_steps(2)] by blast
qed (auto intro: handleMessage_history finish_history same_history_ok [OF same_history_steps(11)] reset_history
    simp: forceFinishIfMissing_def InjectNoAvailableAccountError_def writeKeepAlive_def Let_def)

lemma reach_history: "relay_reach c h \<Longrightarrow> \<not> isStream c \<Longrightarrow> history_ok h"
proof (induction rule: relay_reach.induct)
  case (Start r)
  show ?case by (simp add: newStreamHandler_def history_ok_def has_builders_def collected_def)
next
  case (Step h h')
  then show ?case using step_history reach_inv by blast
qed

section \<open>The answer holds the whole text\<close>

lemma materialize_type: "block_type_of (materialize h i b) = block_type_of b"
  by (auto simp: materialize_def materializeBlockField_def block_type_of_def split: option.split)

lemma materialize_text:
  assumes "block_type_of b = ''text''" "builderAt (textBlockBuilders h) (int i) = Some t"
  shows "or_else [] (as_str (map_of (materialize h i b) ''text'')) = t"
  using assms by (simp add: materialize_def materializeBlockField_def as_str_def or_else_def)

lemma block_part_text:
  assumes "block_type_of b = ''text''" "builderAt (textBlockBuilders h) (int i) = Some t"
  shows "block_part ''text'' (textBlockBuilders h) i (materialize h i b) = t"
  using assms materialize_text [OF assms] by (cases t) (simp_all add: block_part_def)

lemma collected_blocks:
  assumes "history_ok h"
  shows "collectedBlocks h = map (\<lambda>i. materialize h i (contentBlocks h ! i)) [0..<length (contentBlocks h)]"
proof (cases "contentBlocks h = []")
  case True
  then have "responseText h = []" using assms by (simp add: history_ok_def collected_def)
  then show ?thesis using True by (simp add: collectedBlocks_def)
next
  case False
  then show ?thesis by (simp add: collectedBlocks_def Let_def)
qed

lemma collected_whole:
  assumes "history_ok h"
    and "\<And>i t. i < length (contentBlocks h) \<Longrightarrow> block_type_of (contentBlocks h ! i) = ''text'' \<Longrightarrow>
      builderAt (textBlockBuilders h) (int i) = Some t \<Longrightarrow> f i = t"
    and "\<And>i. i < length (contentBlocks h) \<Longrightarrow> block_type_of (contentBlocks h ! i) \<noteq> ''text'' \<Longrightarrow> f i = []"
  shows "concat (map f [0..<length (contentBlocks h)]) = responseText h"
proof -
  have "f i = text_at (contentBlocks h) (textBlockBuilders h) i" if i: "i < length (contentBlocks h)" for i
  proof (cases "block_type_of (contentBlocks h ! i) = ''text''")
    case True
    then obtain t where "builderAt (textBlockBuilders h) (int i) = Some t" using assms(1) i by (auto simp: history_ok_def has_builders_def)
    then show ?thesis using assms(2) [OF i True] True by (simp add: text_at_def or_else_def)
  next
    case False
    then show ?thesis using assms(3) i by (simp add: text_at_def)
  qed
  then have "concat (map f [0..<length (contentBlocks h)]) = collected (contentBlocks h) (textBlockBuilders h)"
    unfolding collected_def by (rule map_upt_cong)
  then show ?thesis using assms(1) by (simp add: history_ok_def)
qed

lemma joined_text:
  assumes "history_ok h"
  shows "joined_parts ''text'' (textBlockBuilders h) (collectedBlocks h) = responseText h"
proof -
  let ?bs = "collectedBlocks h"
  have n: "length ?bs = length (contentBlocks h)" using collected_blocks [OF assms] by simp
  have nth: "?bs ! i = materialize h i (contentBlocks h ! i)" if "i < length (contentBlocks h)" for i
    using collected_blocks [OF assms] that by simp
  show ?thesis unfolding joined_parts_def n
    by (rule collected_whole [OF assms]) (simp_all add: nth materialize_type block_part_text)
qed

text \<open>The text of the blocks of a message, as a client of the Messages API reads it.\<close>

definition message_text :: "fields_map list \<Rightarrow> string" where
  "message_text bs = concat (map (\<lambda>i. if block_type_of (bs ! i) = ''text'' then or_else [] (as_str (map_of (bs ! i) ''text'')) else []) [0..<length bs])"

lemma message_text_whole:
  assumes "history_ok h"
  shows "message_text (collectedBlocks h) = responseText h"
proof -
  let ?bs = "collectedBlocks h"
  have n: "length ?bs = length (contentBlocks h)" using collected_blocks [OF assms] by simp
  have nth: "?bs ! i = materialize h i (contentBlocks h ! i)" if "i < length (contentBlocks h)" for i
    using collected_blocks [OF assms] that by simp
  show ?thesis unfolding message_text_def n
    by (rule collected_whole [OF assms]) (simp_all add: nth materialize_type materialize_text)
qed

text \<open>Property C13: a collected answer holds the whole text the relay collected, however reasoning, signatures and tool
  calls cut it into blocks: as the content of a chat completion (left out only when it is blank beside tool calls), or as
  the text blocks of a message.\<close>

theorem collected_answer_complete:
  assumes "relay_reach c h" "\<not> isStream c"
  shows "case collectedAnswer c h model of
      Inl r \<Rightarrow> formatOpenAI c \<and> oa_Content r = (if TrimSpace (responseText h) = [] \<and> oa_ToolCalls r \<noteq> [] then [] else responseText h)
    | Inr m \<Rightarrow> \<not> formatOpenAI c \<and> (\<exists>bs reason. m = anthropicResponse c h bs model reason \<and> message_text bs = responseText h)"
  using joined_text [OF reach_history [OF assms]] message_text_whole [OF reach_history [OF assms]]
  by (auto simp: collectedAnswer_def buildOpenAINonStreamResponse_def Let_def)

definition example_collect :: relay_config where
  "example_collect = example_relay\<lparr>isStream := False, formatOpenAI := True\<rparr>"

theorem collected_answer_complete_witness:
  "\<exists>h. handle_all example_collect [example_delta ''he'', example_reasoning ''hm'', example_delta ''llo''] (newStreamHandler None) = Some h \<and>
    (case collectedAnswer example_collect h ''m'' of Inl r \<Rightarrow> oa_Content r = ''hello'' | Inr m \<Rightarrow> False)"
proof -
  have "case handle_all example_collect [example_delta ''he'', example_reasoning ''hm'', example_delta ''llo''] (newStreamHandler None) of
      None \<Rightarrow> False | Some h \<Rightarrow> responseText h = ''hello''" by code_simp
  then obtain h1 h2 h where h: "handleMessage example_collect (example_delta ''he'') (newStreamHandler None) = Some h1"
    "handleMessage example_collect (example_reasoning ''hm'') h1 = Some h2" "handleMessage example_collect (example_delta ''llo'') h2 = Some h"
    "responseText h = ''hello''"
    by (auto split: option.splits)
  have "relay_reach example_collect h"
    by (rule relay_reach.Step [OF relay_reach.Step [OF relay_reach.Step [OF relay_reach.Start relay_step.Message [OF h(1)]]
      relay_step.Message [OF h(2)]] relay_step.Message [OF h(3)]])
  moreover have "TrimSpace ''hello'' \<noteq> []" by code_simp
  ultimately show ?thesis using collected_answer_complete [of example_collect h "''m''"] h
    by (auto simp: example_collect_def example_relay_def split: sum.splits)
qed

section \<open>Answered or refused\<close>

text \<open>While nothing is streamed, only a failure writes: a request that failed has its error on the wire, and one that did not
  has nothing there yet. This holds as long as the connection takes writes.\<close>

definition verdict_ok :: "streamHandler \<Rightarrow> bool" where
  "verdict_ok h \<longleftrightarrow> broken h \<or> (requestFailed h \<longleftrightarrow> log h \<noteq> [])"

definition calm :: "streamHandler \<Rightarrow> streamHandler \<Rightarrow> bool" where
  "calm h h' \<longleftrightarrow> log h' = log h \<and> room (w h') = room (w h) \<and> requestFailed h' = requestFailed h"

lemma calm_ok: "calm h h' \<Longrightarrow> verdict_ok h \<Longrightarrow> verdict_ok h'"
  by (simp add: calm_def verdict_ok_def)

lemma calm_refl [simp]: "calm h h"
  by (simp add: calm_def)

lemma calm_trans: "calm h g \<Longrightarrow> calm g k \<Longrightarrow> calm h k"
  by (simp add: calm_def)

lemma calm_view: "view h' = view h \<Longrightarrow> calm h h'"
  by (simp add: view_def calm_def)

lemma calm_pop: "calm h (snd (popActiveBlockStopDataLocked h))"
  by (simp add: calm_def pop_fields)

lemma calm_close: "\<not> isStream c \<Longrightarrow> calm h (closeActiveBlockLocked c h)"
  using calm_pop by (simp add: collect_close)

lemma calm_ensure:
  assumes "\<not> isStream c" "b \<noteq> NoBlock"
  shows "calm h (snd (ensureBlock c b h))"
proof -
  have "calm g (open_block c b g)" for g using assms(1) by (simp add: collect_open calm_def block_opened_fields)
  then have "calm h (open_block c b (closeActiveBlockLocked c h))" "calm h (open_block c b h)"
    using calm_trans [OF calm_close [OF assms(1)]] by blast+
  then show ?thesis using calm_close [OF assms(1), of h] by (simp add: ensureBlock_eq [OF assms(2)] Let_def)
qed

lemma calm_text:
  assumes "\<not> isStream c"
  shows "calm h (textDelta c d h)"
proof -
  obtain i g where t: "text_target c (h\<lparr>hasTextOutput := True\<rparr>) = (i, g)" by fastforce
  have "calm (h\<lparr>hasTextOutput := True\<rparr>) g"
    using calm_ensure [OF assms, of TextBlock "h\<lparr>hasTextOutput := True\<rparr>"] t by (auto simp: text_target_def split: if_splits)
  then have "calm h g" by (simp add: calm_def)
  then have "calm h (note_text c d g)" using calm_trans [OF _ calm_view [OF view_note_text]] by blast
  then show ?thesis by (simp add: textDelta_def t writeSSEContentBlockDeltaTextLocked_def write_frame_def hint_off assms)
qed

lemma calm_record: "calm h (record_signature sig h)"
  by (rule calm_view) (simp add: view_def record_signature_def Let_def)

lemma calm_reasoning:
  assumes "\<not> isStream c"
  shows "calm h (reasoningDelta c ev h)"
proof -
  have e: "calm g (snd (ensureBlock c ThinkingBlock g))" for g using calm_ensure [OF assms] by simp
  have d: "calm g (thinking_delta c s t g)" for s t g
  proof -
    let ?g1 = "if s \<noteq> [] then record_signature s g else g"
    have g1: "calm g ?g1" using calm_record by simp
    obtain k g2 where p: "(if activeThinkingSSEIndex g < 0 then ensureBlock c ThinkingBlock ?g1 else (activeThinkingSSEIndex g, ?g1)) = (k, g2)"
      by fastforce
    then have "calm g g2" using calm_trans [OF g1 e] g1 by (cases "activeThinkingSSEIndex g < 0") (simp_all add: prod_eq_iff)
    then have "calm g (note_thinking c t g2)" using calm_trans [OF _ calm_view [OF view_note_thinking]] by blast
    then show ?thesis using assms p
      by (simp add: thinking_delta_def writeSSEContentBlockDeltaThinkingLocked_def write_frame_def hint_off Let_def)
  qed
  define sig where "sig = (if pendingThinkingSig h = [] then extractThinkingSignature ev else pendingThinkingSig h)"
  let ?h1 = "h\<lparr>pendingThinkingSig := sig\<rparr>"
  have h1: "calm h ?h1" "calm h (?h1\<lparr>hasReasoningOutput := True\<rparr>)" by (simp_all add: calm_def)
  show ?thesis using calm_trans [OF calm_trans [OF h1(1) e] calm_record] calm_trans [OF h1(2) d] h1(1) calm_trans [OF h1(1) e]
    by (auto simp: reasoningDelta_def Let_def simp flip: sig_def)
qed

lemma calm_tool:
  assumes "\<not> isStream c" "toolCallEvent c ev h = Some h'"
  shows "calm h h'"
proof -
  have "calm h h1 \<and> calm h (handleToolCallAfterChecks k (h1\<lparr>toolCallHandled := hs\<rparr>))"
    if "shouldAcceptToolCall c call' h = (b, h1)" for call' b h1 hs k
  proof -
    have "calm h h1" using that calm_view [OF view_accept, of h c call'] by simp
    then show ?thesis by (simp add: calm_def handleToolCallAfterChecks_def)
  qed
  then show ?thesis using assms by (auto simp: toolCallEvent_def Let_def split: prod.splits option.splits if_splits bool.splits)
qed

lemma verdict_report:
  assumes "\<not> isStream c" "verdict_ok h" "inv c h"
  shows "verdict_ok (reportRequestFailure c category m d h)"
proof (cases "hasReturn h")
  case True
  then show ?thesis using assms by (simp add: reportRequestFailure_def)
next
  case False
  let ?x = "HttpError (NewWithRetryAfter category m (StatusForCategory category) d)"
  show ?thesis
  proof (cases "broken h")
    case True
    then show ?thesis using False assms(1) by (simp add: reportRequestFailure_def verdict_ok_def write_item_broken)
  next
    case nb: False
    obtain r where "write_item c ?x (w h) = (if item_bytes c ?x = [] then Nothing else Written, (w h)\<lparr>out := log h @ [?x], room := r\<rparr>)"
      using write_item_open [OF nb] by metis
    then show ?thesis using False assms(1) by (simp add: reportRequestFailure_def verdict_ok_def)
  qed
qed

lemma calm_start: "\<not> isStream c \<Longrightarrow> snd (ensureMessageStartLocked c h) = h"
  by (simp add: ensureMessageStartLocked_def)

lemma verdict_finish:
  assumes "\<not> isStream c" "verdict_ok h" "inv c h"
  shows "verdict_ok (finishResponse c stop h)"
proof -
  have fb: "calm h (apply_fallback c h)"
  proof -
    let ?h1 = "h\<lparr>usage := (usage h)\<lparr>useUpstreamUsage := False, outputTokens := 0, outputEstimator := Reset (outputEstimator (usage h))\<rparr>\<rparr>"
    have "calm h ?h1" by (simp add: calm_def)
    then show ?thesis using calm_trans [OF _ calm_text [OF assms(1)]] by (simp add: apply_fallback_def Let_def)
  qed
  obtain b k where p: "ensureMessageStartLocked c (apply_fallback c h) = (b, k)" by fastforce
  have k: "calm h k" using fb calm_start [OF assms(1), of "apply_fallback c h"] p by simp
  have trm: "calm h (write_terminal c q (k\<lparr>hasReturn := True, finalStopReason := q\<rparr>))" for q
  proof -
    let ?k = "k\<lparr>hasReturn := True, finalStopReason := q\<rparr>"
    have "calm h ?k" "calm (?k\<lparr>pendingToolCalls := []\<rparr>) (flushPendingToolCalls c ?k)"
      using k calm_view [OF flush_collect [OF assms(1)], of ?k] by (simp_all add: calm_def)
    then have "calm h (flushPendingToolCalls c ?k)" by (simp add: calm_def)
    then show ?thesis using calm_trans [OF _ calm_view [OF view_final]] assms(1) by (simp add: write_terminal_def)
  qed
  then have "calm h (finalizeCompletion (write_terminal c q (k\<lparr>hasReturn := True, finalStopReason := q\<rparr>)))" for q
    by (simp add: calm_def finalizeCompletion_def)
  then show ?thesis using calm_ok [OF _ assms(2)] k verdict_report [OF assms] assms(1)
    by (auto simp: finishResponse_def Let_def p split: option.split)
qed

lemma verdict_message:
  assumes ns: "\<not> isStream c" and v: "verdict_ok h" and i: "inv c h" and m: "handleMessage c msg h = Some h'"
  shows "verdict_ok h'"
proof (cases "hasReturn h")
  case True
  then show ?thesis using v m by (simp add: handleMessage_def)
next
  case False
  have th: "calm h (snd (ensureBlock c ThinkingBlock (h\<lparr>pendingThinkingSig := s\<rparr>)))" for s
    using calm_ensure [OF ns, of ThinkingBlock "h\<lparr>pendingThinkingSig := s\<rparr>"] by (simp add: calm_def)
  have tb: "calm h (snd (ensureBlock c TextBlock h))" by (rule calm_ensure [OF ns]) simp
  have fin: "verdict_ok (modelFinish c ev h)" for ev
  proof -
    define h1 where "h1 = (case map_of (or_else [] ev) ''usage'' of Some (GMap u) \<Rightarrow> applyUpstreamUsageTokens u h | _ \<Rightarrow> h)"
    have vw: "view h1 = view h" by (simp add: h1_def split: option.split gval.split)
    have "calm h (closeActiveBlockLocked c h1)" using calm_trans [OF calm_view [OF vw] calm_close [OF ns]] .
    moreover have "inv c (closeActiveBlockLocked c h1)"
      using close_inv [of c h1] i False inv_view [OF vw] view_fields(2) [OF vw] by simp
    ultimately show ?thesis using verdict_finish [OF ns calm_ok [OF _ v]] by (simp add: modelFinish_def Let_def flip: h1_def)
  qed
  have c: "calm h (h\<lparr>hasReasoningOutput := True\<rparr>)" "calm h (h\<lparr>pendingThinkingSig := s\<rparr>)" for s by (simp_all add: calm_def)
  show ?thesis
    using m False fin v calm_ok [OF _ v] th tb c calm_reasoning [OF ns] calm_close [OF ns] calm_text [OF ns] calm_tool [OF ns] calm_view [OF view_apply]
    by (auto simp: handleMessage_def Let_def HasPrefix_reasoning split: if_splits)
qed

lemma step_verdict:
  assumes "relay_step c h h'" "inv c h" "\<not> isStream c" "verdict_ok h"
  shows "verdict_ok h'"
  using assms
proof (induction rule: relay_step.induct)
  case (Round h)
  then show ?case using calm_ok [OF calm_close] by (auto simp: resetRoundState_def Let_def verdict_ok_def)
next
  case (Round_tick h)
  then show ?case using calm_ok [OF calm_close] by (auto simp: resetRoundState_def Let_def verdict_ok_def writeKeepAlive_def)
next
  case (Usage ni no h)
  then show ?case using calm_ok [OF calm_view [OF view_set]] by blast
next
  case (Fallback h s)
  then show ?case using calm_ok [OF calm_view] by (simp add: setEmptyOutputFallback_def verdict_ok_def)
qed (auto intro: verdict_message verdict_finish verdict_report simp: forceFinishIfMissing_def InjectNoAvailableAccountError_def writeKeepAlive_def Let_def)

lemma reach_verdict: "relay_reach c h \<Longrightarrow> \<not> isStream c \<Longrightarrow> verdict_ok h"
proof (induction rule: relay_reach.induct)
  case (Start r)
  then show ?case by (simp add: verdict_ok_def newStreamHandler_def)
next
  case (Step h h')
  then show ?case using step_verdict reach_inv by blast
qed

end
