(* ===== verification/Request_Loop.thy ===== *)
theory Request_Loop
  imports Account_Choice Retry_Policy Relay_Answer
begin

text \<open>
  One request from its first account to its answer (\<^verbatim>\<open>src/internal/handler/handler.go\<close>: the \<^verbatim>\<open>run\<close> loop of
  \<^verbatim>\<open>HandleMessages\<close>, what surrounds it and the deferred releases). The provider client is outside: \<open>up\<close> gives the
  messages an attempt delivers, the keep-alive beats between them, and the error it ends with. One clock reading serves one
  step. The row of the current account is a pointer into the pool's snapshot until that is reloaded; \<open>lc_aliased\<close> says at
  which steps it still is.
\<close>

section \<open>State\<close>

record loop_config =
  lc_relay :: relay_config
  lc_MaxRetries :: int
  lc_RetryDelay :: int
  lc_SharedRefusalWaitBudgetMs :: int
  lc_QoderQueueRetryIntervalMs :: int
  lc_channel :: string
  lc_forced :: bool
  lc_model :: string
  lc_mapped :: string
  lc_flushes :: bool
  lc_aliased :: "nat \<Rightarrow> bool"
  lc_beats :: "nat \<Rightarrow> nat"
  lc_beat_first :: "nat \<Rightarrow> bool"

datatype relay_input = Arrived SSEMessage | Beat

type_synonym provider = "nat \<Rightarrow> Account option \<Rightarrow> relay_input list \<times> upstream_error option"

record request_state =
  rq_run :: request_run
  rq_h :: streamHandler
  rq_account :: "Account option"
  rq_client :: int
  rq_tracked :: int
  rq_failed :: "int list"
  rq_attempt :: nat
  rq_left :: int
  rq_waited :: duration

datatype step_end = Over request_state | Again request_state | Panicked request_state

section \<open>One attempt\<close>

text \<open>The messages of an attempt, one after the other; a panic of the tool rewriting stops at the message that caused it.\<close>

fun deliver :: "relay_config \<Rightarrow> relay_input list \<Rightarrow> streamHandler \<Rightarrow> streamHandler + streamHandler" where
  "deliver c [] h = Inr h"
| "deliver c (Beat # xs) h = deliver c xs (writeKeepAlive c h)"
| "deliver c (Arrived m # xs) h = (case handleMessage c m h of None \<Rightarrow> Inl h | Some h' \<Rightarrow> deliver c xs h')"

definition account_id :: "Account option \<Rightarrow> int" where
  "account_id acc = (case acc of None \<Rightarrow> 0 | Some a \<Rightarrow> ID a)"

definition on_run :: "(request_run \<Rightarrow> request_run) \<Rightarrow> request_state \<Rightarrow> request_state" where
  "on_run f s = s\<lparr>rq_run := f (rq_run s)\<rparr>"

definition on_h :: "(streamHandler \<Rightarrow> streamHandler) \<Rightarrow> request_state \<Rightarrow> request_state" where
  "on_h f s = s\<lparr>rq_h := f (rq_h s)\<rparr>"

definition on_lb :: "(LoadBalancer \<Rightarrow> LoadBalancer) \<Rightarrow> request_run \<Rightarrow> request_run" where
  "on_lb f r = r\<lparr>rr_world := (rr_world r)\<lparr>gw_lb := f (gw_lb (rr_world r))\<rparr>\<rparr>"

text \<open>The current account as the pointer reads it.\<close>

definition read_account :: "loop_config \<Rightarrow> request_state \<Rightarrow> request_state" where
  "read_account cfg s = (case rq_account s of
     None \<Rightarrow> s
   | Some a \<Rightarrow> let lb = gw_lb (rr_world (rq_run s)) in
       if lc_aliased cfg (rr_tick (rq_run s)) then
         (case cachedAccountLocked (ID a) lb of Some p \<Rightarrow> s\<lparr>rq_account := Some (cachedAccounts lb ! p)\<rparr> | None \<Rightarrow> s)
       else s)"

definition write_account :: "loop_config \<Rightarrow> Account \<Rightarrow> request_state \<Rightarrow> request_state" where
  "write_account cfg a s =
     (let s1 = s\<lparr>rq_account := Some a\<rparr> in
      if lc_aliased cfg (rr_tick (rq_run s)) then on_run (on_lb (update_cached (ID a) (\<lambda>_. a))) s1 else s1)"

definition freeTierMaxHold :: duration where "freeTierMaxHold = 6 * hour"

definition free_tier_hold :: "instant \<Rightarrow> Account \<Rightarrow> duration" where
  "free_tier_hold now acc =
     (let reset = wq_ResetAt (WorkBuddyQuota (WorkBuddyPart acc)) in
      if reset > now \<and> Sub reset now < freeTierMaxHold then Sub reset now else freeTierMaxHold)"

definition free_tier_refused :: "loop_config \<Rightarrow> Verdict \<Rightarrow> Account \<Rightarrow> bool" where
  "free_tier_refused cfg v acc \<longleftrightarrow> v_Status v = AccountStatusWorkBuddyQuotaExhausted \<and>
     IsFreeModelInCatalog (WorkBuddyModelIDs (WorkBuddyPart acc)) (lc_mapped cfg)"

definition mark_failure :: "loop_config \<Rightarrow> request_env \<Rightarrow> Verdict \<Rightarrow> request_state \<Rightarrow> request_state" where
  "mark_failure cfg e v s = (case rq_account s of
     None \<Rightarrow> s
   | Some acc \<Rightarrow> let now = now_of e (rq_run s) in
       if v_Scope v = ScopeModel \<and> v_Model v \<noteq> [] \<and> v_Cooldown v > 0 then
         let acc1 = RecordModelCooldownWithReason now acc (v_Model v) (now + v_Cooldown v) (v_ModelCooldownKind v)
         in on_run (logged_effect (Marked (ID acc) (v_Model v)) \<circ> on_lb (persistAccountStatus (e_cipher e) now acc1)) (write_account cfg acc1 s)
       else if v_Status v \<noteq> [] then
         let acc1 = Apply now v acc;
             acc2 = (if free_tier_refused cfg v acc1
                     then RecordModelCooldownWithReason now acc1 (lc_mapped cfg) (now + free_tier_hold now acc1) ModelCooldownUnavailable else acc1)
         in on_run (logged_effect (Marked (ID acc) (v_Status v)) \<circ> on_lb (PersistAppliedAccountStatus (e_cipher e) now acc2)) (write_account cfg acc2 s)
       else s)"

definition report :: "loop_config \<Rightarrow> string \<Rightarrow> string \<Rightarrow> duration \<Rightarrow> request_state \<Rightarrow> request_state" where
  "report cfg category message retryAfter = on_h (reportRequestFailure (lc_relay cfg) category message retryAfter)"

definition end_turn :: "loop_config \<Rightarrow> request_state \<Rightarrow> request_state" where
  "end_turn cfg = on_h (finishResponse (lc_relay cfg) ''end_turn'')"

definition report_upstream :: "loop_config \<Rightarrow> upstream_error \<Rightarrow> request_state \<Rightarrow> request_state" where
  "report_upstream cfg err =
     report cfg (ec_Category (ClassifyUpstreamError (err_text err))) (PublicMessage (err_text err)) (upstreamRetryAfter (err_retry_after err))"

section \<open>Between two attempts\<close>

text \<open>No account is left: the answer, and the end.\<close>

definition no_account :: "loop_config \<Rightarrow> upstream_error \<Rightarrow> string \<Rightarrow> request_state \<Rightarrow> request_state" where
  "no_account cfg err why = end_turn cfg \<circ> on_h (InjectNoAvailableAccountError (lc_relay cfg) (err_text err) (Some why))"

text \<open>Giving the account up for another one; \<open>Inl\<close> is the end of the request.\<close>

definition switch_account :: "loop_config \<Rightarrow> request_env \<Rightarrow> upstream_error \<Rightarrow> request_state \<Rightarrow> (request_state + request_state) option" where
  "switch_account cfg e err s = (case rq_account s of
     None \<Rightarrow> Some (Inr s)
   | Some acc \<Rightarrow>
       let failed = (if ID acc \<in> set (rq_failed s) then rq_failed s else rq_failed s @ [ID acc]);
           s1 = (on_run (releaseTrackedAccount (rq_tracked s)) s)\<lparr>rq_tracked := 0, rq_failed := failed\<rparr>;
           category = ec_Category (ClassifyUpstreamError (err_text err))
       in case acquireReservedAccountSelection e (lc_channel cfg) (lc_forced cfg) failed (lc_mapped cfg) (rq_run s1) of
            None \<Rightarrow> None
          | Some (Reserved acc2 client2 i, r) \<Rightarrow>
              Some (Inr (s1\<lparr>rq_run := releaseClient (rq_client s) r, rq_account := acc2, rq_client := client2, rq_tracked := i\<rparr>))
          | Some (No_slot why, r) \<Rightarrow>
              let s2 = s1\<lparr>rq_run := r\<rparr> in
              if shouldRetryCurrentAccountWhenNoAlternative category then
                (case tryAcquireTrackedAccount (Some acc) (others_act e r) of
                   ((i, True), r2) \<Rightarrow> Some (Inr (s2\<lparr>rq_run := r2, rq_tracked := i\<rparr>))
                 | ((i, False), r2) \<Rightarrow> Some (Inl (no_account cfg err why (s2\<lparr>rq_run := r2\<rparr>))))
              else Some (Inl (no_account cfg err why s2)))"

definition next_delay :: "loop_config \<Rightarrow> upstream_error \<Rightarrow> nat \<Rightarrow> duration" where
  "next_delay cfg err attempt =
     (let d = computeRetryDelay (lc_RetryDelay cfg * millisecond) (int attempt + 1) (ec_Category (ClassifyUpstreamError (err_text err)));
          hinted = upstreamRetryAfter (err_retry_after err) in if hinted > d then hinted else d)"

definition shared_wait :: "loop_config \<Rightarrow> upstream_error \<Rightarrow> nat \<Rightarrow> duration" where
  "shared_wait cfg err attempt =
     (let cls = ClassifyUpstreamError (err_text err); d = next_delay cfg err attempt;
          q = (if ec_Category cls = ''upstream_queue'' then lc_QoderQueueRetryIntervalMs cfg else 0)
      in if d > 0 \<and> isSharedUpstreamRefusalClass cls then sharedRefusalWaitForChannel d (int attempt + 1) (lc_channel cfg) q else 0)"

text \<open>The wait before the next attempt; a shared refusal is charged to the budget, and gives the slot back while it waits.\<close>

definition wait_and_retry :: "loop_config \<Rightarrow> request_env \<Rightarrow> upstream_error \<Rightarrow> request_state \<Rightarrow> step_end" where
  "wait_and_retry cfg e err s =
     (let cls = ClassifyUpstreamError (err_text err); shared = isSharedUpstreamRefusalClass cls;
          d = next_delay cfg err (rq_attempt s); wait = shared_wait cfg err (rq_attempt s);
          q = (if ec_Category cls = ''upstream_queue'' then lc_QoderQueueRetryIntervalMs cfg else 0)
      in if shared \<and> wait > 0 \<and> \<not> sharedRefusalWaitAllowedWithin (rq_waited s) wait (SharedRefusalWaitBudget (lc_SharedRefusalWaitBudgetMs cfg))
         then Over (report_upstream cfg err s)
         else let sleep = (if wait > 0 then sharedRefusalSleepForChannel (e_random e (rr_tick (rq_run s))) wait (lc_channel cfg) q else d);
                  free = (sleep > 0 \<and> shared \<and> rq_tracked s \<noteq> 0);
                  s1 = (if free then (on_run (releaseTrackedAccount (rq_tracked s)) s)\<lparr>rq_tracked := 0\<rparr> else s);
                  s2 = on_h (writeKeepAlive (lc_relay cfg) ^^ lc_beats cfg (rr_tick (rq_run s1)))
                    (on_run (others_act e \<circ> logged_effect (Waited (ec_Category cls) wait sleep)) s1)
              in if sleep > 0 \<and> e_cancelled e (rr_tick (rq_run s2)) then Over (end_turn cfg s2)
                 else let s3 = s2\<lparr>rq_waited := (if shared then rq_waited s2 + (if wait = 0 then sleep else wait) else rq_waited s2)\<rparr> in
                   if free \<and> rq_account s3 \<noteq> None then
                     (case tryAcquireTrackedAccount (rq_account s3) (rq_run s3) of
                        ((i, True), r) \<Rightarrow> Again (s3\<lparr>rq_run := r, rq_tracked := i, rq_attempt := rq_attempt s3 + 1\<rparr>)
                      | ((i, False), r) \<Rightarrow> Over (report cfg ''rate_limit'' PoolBusyMessage 0 (s3\<lparr>rq_run := r\<rparr>)))
                   else Again (s3\<lparr>rq_attempt := rq_attempt s3 + 1\<rparr>))"

section \<open>The loop\<close>

definition handle_failure :: "loop_config \<Rightarrow> request_env \<Rightarrow> upstream_error \<Rightarrow> request_state \<Rightarrow> step_end option" where
  "handle_failure cfg e err s0 =
     (let s = read_account cfg s0; cls = ClassifyUpstreamError (err_text err);
          v = Classify (rq_account s) (Some err) (lc_model cfg) (now_of e (rq_run s));
          s1 = on_run (others_act e) (mark_failure cfg e v s); cancelled = e_cancelled e (rr_tick (rq_run s1))
      in if \<not> v_Retryable v then Some (Over (
              if ec_Category cls = ''canceled'' then
                (if cancelled then end_turn cfg s1 else report cfg ''server'' ''Upstream request was canceled unexpectedly'' 0 s1)
              else report_upstream cfg err s1))
         else if cancelled then Some (Over (end_turn cfg s1))
         else if rq_left s1 \<le> 0 then Some (Over (report_upstream cfg err s1))
         else let s2 = s1\<lparr>rq_left := rq_left s1 - 1\<rparr> in
           if v_SwitchAccount v \<and> rq_account s2 \<noteq> None then
             (case switch_account cfg e err s2 of
                None \<Rightarrow> None
              | Some (Inl s3) \<Rightarrow> Some (Over s3)
              | Some (Inr s3) \<Rightarrow> Some (wait_and_retry cfg e err s3))
           else Some (wait_and_retry cfg e err s2))"

definition start_round :: "loop_config \<Rightarrow> request_env \<Rightarrow> request_state \<Rightarrow> request_state" where
  "start_round cfg e s =
     on_h (\<lambda>h. resetRoundState (lc_relay cfg) (if lc_beat_first cfg (rr_tick (rq_run s)) then writeKeepAlive (lc_relay cfg) h else h))
       (on_run (others_act e \<circ> logged_effect (Sent (rq_attempt s + 1) (account_id (rq_account s)))) s)"

definition attempt_step :: "loop_config \<Rightarrow> request_env \<Rightarrow> provider \<Rightarrow> request_state \<Rightarrow> step_end option" where
  "attempt_step cfg e up s =
     (if hasReturn (rq_h s) then Some (Over s)
      else let s1 = start_round cfg e s in
        case up (rq_attempt s + 1) (rq_account s) of
          (msgs, err) \<Rightarrow> (case deliver (lc_relay cfg) msgs (rq_h s1) of
             Inl h \<Rightarrow> Some (Panicked (s1\<lparr>rq_h := h\<rparr>))
           | Inr h \<Rightarrow> let s2 = s1\<lparr>rq_h := h\<rparr> in
               (case err of
                  None \<Rightarrow> Some (Over (on_h (forceFinishIfMissing (lc_relay cfg)) s2))
                | Some er \<Rightarrow>
                    if hasReturn h then Some (Over s2)
                    else if hasAnyOutput h then Some (Over (report_upstream cfg er s2))
                    else handle_failure cfg e er s2)))"

lemma on_simps [simp]:
  "rq_left (on_run f s) = rq_left s" "rq_h (on_run f s) = rq_h s" "rq_account (on_run f s) = rq_account s" "rq_client (on_run f s) = rq_client s"
  "rq_tracked (on_run f s) = rq_tracked s" "rq_attempt (on_run f s) = rq_attempt s" "rq_waited (on_run f s) = rq_waited s"
  "rq_failed (on_run f s) = rq_failed s" "rq_run (on_run f s) = f (rq_run s)"
  "rq_left (on_h g s) = rq_left s" "rq_run (on_h g s) = rq_run s" "rq_account (on_h g s) = rq_account s" "rq_client (on_h g s) = rq_client s"
  "rq_tracked (on_h g s) = rq_tracked s" "rq_attempt (on_h g s) = rq_attempt s" "rq_waited (on_h g s) = rq_waited s"
  "rq_failed (on_h g s) = rq_failed s" "rq_h (on_h g s) = g (rq_h s)"
  by (simp_all add: on_run_def on_h_def)

text \<open>Every round but the last charges one retry.\<close>

lemma read_account_keeps [simp]:
  "rq_left (read_account cfg s) = rq_left s" "rq_h (read_account cfg s) = rq_h s" "rq_run (read_account cfg s) = rq_run s"
  "rq_tracked (read_account cfg s) = rq_tracked s" "rq_client (read_account cfg s) = rq_client s" "rq_attempt (read_account cfg s) = rq_attempt s"
  "rq_waited (read_account cfg s) = rq_waited s"
  by (simp_all add: read_account_def Let_def split: option.split)

lemma write_account_keeps [simp]:
  "rq_left (write_account cfg a s) = rq_left s" "rq_h (write_account cfg a s) = rq_h s" "rr_log (rq_run (write_account cfg a s)) = rr_log (rq_run s)"
  "rq_tracked (write_account cfg a s) = rq_tracked s" "rq_client (write_account cfg a s) = rq_client s"
  "rq_attempt (write_account cfg a s) = rq_attempt s" "rq_waited (write_account cfg a s) = rq_waited s"
  by (simp_all add: write_account_def Let_def on_lb_def)

lemma on_lb_log [simp]: "rr_log (on_lb f r) = rr_log r"
  by (simp add: on_lb_def)

lemma mark_failure_keeps [simp]:
  "rq_left (mark_failure cfg e v s) = rq_left s" "rq_h (mark_failure cfg e v s) = rq_h s" "rq_tracked (mark_failure cfg e v s) = rq_tracked s"
  "rq_client (mark_failure cfg e v s) = rq_client s" "rq_attempt (mark_failure cfg e v s) = rq_attempt s" "rq_waited (mark_failure cfg e v s) = rq_waited s"
  by (simp_all add: mark_failure_def Let_def split: option.split)

lemma mark_failure_log: "\<exists>xs. rr_log (rq_run (mark_failure cfg e v s)) = rr_log (rq_run s) @ xs \<and> list_all (\<lambda>x. \<exists>i t. x = Marked i t) xs"
  by (auto simp: mark_failure_def Let_def split: option.split)

lemma start_round_keeps [simp]:
  "rq_left (start_round cfg e s) = rq_left s" "rq_tracked (start_round cfg e s) = rq_tracked s" "rq_client (start_round cfg e s) = rq_client s"
  "rq_attempt (start_round cfg e s) = rq_attempt s" "rq_waited (start_round cfg e s) = rq_waited s" "rq_account (start_round cfg e s) = rq_account s"
  "rr_log (rq_run (start_round cfg e s)) = rr_log (rq_run s) @ [Sent (rq_attempt s + 1) (account_id (rq_account s))]"
  by (simp_all add: start_round_def)

lemma wait_left: "wait_and_retry cfg e err s = Again s' \<Longrightarrow> rq_left s' = rq_left s \<and> rq_attempt s' = rq_attempt s + 1"
  by (auto simp: wait_and_retry_def Let_def split: if_splits prod.splits bool.splits)

lemma switch_left: "switch_account cfg e err s = Some (Inr s') \<Longrightarrow> rq_left s' = rq_left s \<and> rq_attempt s' = rq_attempt s"
  by (auto simp: switch_account_def Let_def split: option.splits reservation.splits prod.splits if_splits bool.splits)

lemma failure_left:
  assumes "handle_failure cfg e err s = Some (Again s')"
  shows "0 < rq_left s \<and> rq_left s' = rq_left s - 1 \<and> rq_attempt s' = rq_attempt s + 1"
  using assms wait_left switch_left
  by (fastforce simp: handle_failure_def Let_def split: if_splits option.splits sum.splits)

lemma attempt_left:
  assumes "attempt_step cfg e up s = Some (Again s')"
  shows "0 < rq_left s \<and> rq_left s' = rq_left s - 1 \<and> rq_attempt s' = rq_attempt s + 1"
  using assms by (auto simp: attempt_step_def Let_def dest!: failure_left split: if_splits option.splits sum.splits prod.splits)

function request_loop :: "loop_config \<Rightarrow> request_env \<Rightarrow> provider \<Rightarrow> request_state \<Rightarrow> (request_state + request_state) option" where
  "request_loop cfg e up s = (case attempt_step cfg e up s of
     None \<Rightarrow> None
   | Some (Over s1) \<Rightarrow> Some (Inr s1)
   | Some (Panicked s1) \<Rightarrow> Some (Inl s1)
   | Some (Again s1) \<Rightarrow> request_loop cfg e up s1)"
  by pat_completeness auto

termination request_loop
  by (relation "measure (\<lambda>(cfg, e, up, s). nat (rq_left s))") (auto dest: attempt_left)

declare request_loop.simps [simp del]

section \<open>The whole request\<close>

text \<open>The label of the channel decides whether the model name is passed as it is.\<close>

definition passthroughChannelName :: "string \<Rightarrow> string" where
  "passthroughChannelName n =
     (if EqualFold n ''workbuddy'' then ''workbuddy'' else if EqualFold n ''qoder'' then ''qoder'' else if EqualFold n ''cline'' then ''cline'' else [])"

definition passthroughChannel :: "string \<Rightarrow> Account option \<Rightarrow> string" where
  "passthroughChannel target acc =
     (let pre = passthroughChannelName target; accountChannel = (case acc of None \<Rightarrow> [] | Some a \<Rightarrow> passthroughChannelName (AccountType a)) in
      if pre = ''workbuddy'' \<or> accountChannel = ''workbuddy'' then ''workbuddy''
      else if pre = ''qoder'' \<or> accountChannel = ''qoder'' then ''qoder''
      else if pre = ''cline'' \<or> accountChannel = ''cline'' then ''cline'' else [])"

definition mapped_model :: "loop_config \<Rightarrow> Account option \<Rightarrow> string" where
  "mapped_model cfg acc = (if passthroughChannel (lc_channel cfg) acc \<noteq> [] then TrimSpace (lc_model cfg) else mapModel (lc_model cfg))"

definition PoolNoAccountsMessage :: string where
  "PoolNoAccountsMessage = ''Request failed: no account in this channel can serve the request. Please check the account pool in Admin UI or add valid accounts.''"

definition pool_refusal :: "string \<Rightarrow> AppError" where
  "pool_refusal why =
     (let out0 = ClassifyPoolExhaustion (Some why) why;
          out1 = (if Empty out0 then answer ''configuration'' PoolNoAccountsMessage else out0)
      in New (pe_Category out1) (pe_Message out1) (StatusForCategory (pe_Category out1)))"

text \<open>What is deferred runs in every case: the slot is freed, then the client.\<close>

definition release_all :: "request_state \<Rightarrow> request_state" where
  "release_all s = on_run (releaseClient (rq_client s) \<circ> releaseTrackedAccount (rq_tracked s)) s"

definition complete_request :: "loop_config \<Rightarrow> request_state \<Rightarrow> request_state" where
  "complete_request cfg s =
     (let s1 = (if hasReturn (rq_h s) then s else end_turn cfg s); h = rq_h s1; u = usage h;
          s2 = (if \<not> isStream (lc_relay cfg) \<and> \<not> requestFailed h then on_run (logged_effect Answered) s1 else s1);
          n = (if requestFailed h \<and> \<not> useUpstreamUsage u then 0 else inputTokens u + outputTokens u)
      in case rq_account s2 of None \<Rightarrow> s2 | Some a \<Rightarrow> on_run (logged_effect (Counted (ID a) n)) s2)"

datatype request_end = Rejected AppError request_run | Ended request_state "(openAINonStreamResponse + json) option" | Crashed request_state

definition start_state :: "loop_config \<Rightarrow> streamHandler \<Rightarrow> Account option \<Rightarrow> int \<Rightarrow> int \<Rightarrow> request_run \<Rightarrow> request_state" where
  "start_state cfg h acc client i r =
     \<lparr>rq_run = r, rq_h = h, rq_account = acc, rq_client = client, rq_tracked = i, rq_failed = [], rq_attempt = 0,
      rq_left = (if lc_MaxRetries cfg < 0 then 0 else lc_MaxRetries cfg), rq_waited = 0\<rparr>"

definition first_handler :: "nat option \<Rightarrow> string \<Rightarrow> int \<Rightarrow> streamHandler" where
  "first_handler rm fallback inTokens = setUsageTokens inTokens (-1) (setEmptyOutputFallback fallback (newStreamHandler rm))"

definition run_request ::
    "loop_config \<Rightarrow> request_env \<Rightarrow> provider \<Rightarrow> streamHandler \<Rightarrow> request_run \<Rightarrow> request_end option" where
  "run_request cfg e up h r =
     (case acquireReservedAccountSelection e (lc_channel cfg) (lc_forced cfg) [] (TrimSpace (lc_model cfg)) r of
        None \<Rightarrow> None
      | Some (No_slot why, r1) \<Rightarrow> Some (Rejected (pool_refusal why) r1)
      | Some (Reserved acc client i, r1) \<Rightarrow>
          let cfg1 = cfg\<lparr>lc_mapped := mapped_model cfg acc\<rparr>; s = start_state cfg1 h acc client i r1 in
          if isStream (lc_relay cfg) \<and> \<not> lc_flushes cfg
          then Some (Rejected (New ''api_error'' ''Streaming not supported by underlying connection'' 500) (rq_run (release_all s)))
          else (case request_loop cfg1 e up s of
             None \<Rightarrow> None
           | Some (Inl s1) \<Rightarrow> Some (Crashed (release_all s1))
           | Some (Inr s1) \<Rightarrow> let s2 = complete_request cfg1 s1 in
               Some (Ended (release_all s2)
                 (if \<not> isStream (lc_relay cfg) \<and> \<not> requestFailed (rq_h s2) then Some (collectedAnswer (lc_relay cfg) (rq_h s2) (lc_model cfg)) else None))))"

section \<open>Slots and clients\<close>

definition holds :: "request_state \<Rightarrow> bool" where
  "holds s \<longleftrightarrow> slots (rr_log (rq_run s)) = slot_held (rq_tracked s) \<and> clients (rr_log (rq_run s)) = holding (rq_client s)"

text \<open>What a run logs besides slots and clients.\<close>

fun acting :: "effect \<Rightarrow> bool" where
  "acting (Sent k i) = True" | "acting (Waited c x y) = True" | "acting Answered = True" | "acting (Counted i n) = True" | "acting _ = False"

definition acts :: "request_state \<Rightarrow> effect list" where
  "acts s = filter acting (rr_log (rq_run s))"

fun neutral :: "effect \<Rightarrow> bool" where
  "neutral (SlotTaken i) = False" | "neutral (SlotFreed i) = False" | "neutral (ClientTaken i) = False" | "neutral (ClientFreed i) = False"
| "neutral _ = True"

lemma slot_step_neutral: "neutral x \<Longrightarrow> slot_step q x = q"
  by (cases x; cases q; cases "the q") auto

lemma client_step_neutral: "neutral x \<Longrightarrow> client_step x j = 0"
  by (cases x) auto

lemma slots_neutral: "list_all neutral xs \<Longrightarrow> slots (ys @ xs) = slots ys"
  by (induction xs rule: rev_induct) (auto simp: slot_step_neutral simp flip: append_assoc)

lemma clients_neutral: "list_all neutral xs \<Longrightarrow> clients (ys @ xs) = clients ys"
  by (induction xs rule: rev_induct) (auto simp: client_step_neutral fun_eq_iff simp flip: append_assoc)

lemma holds_neutral:
  assumes "holds s" "rr_log (rq_run s') = rr_log (rq_run s) @ xs" "list_all neutral xs" "rq_tracked s' = rq_tracked s" "rq_client s' = rq_client s"
  shows "holds s'"
  using assms by (simp add: holds_def slots_neutral clients_neutral)

lemma holds_mark: "holds s \<Longrightarrow> holds (mark_failure cfg e v s)"
  using mark_failure_log [of cfg e v s] by (elim exE conjE, elim holds_neutral) (auto simp: list_all_iff)

lemma marks_silent: "list_all (\<lambda>x. \<exists>i t. x = Marked i t) xs \<Longrightarrow> filter acting xs = []"
  by (induction xs) auto

lemma acts_mark: "acts (mark_failure cfg e v s) = acts s"
  using mark_failure_log [of cfg e v s] by (auto simp: acts_def marks_silent)

lemma holds_free:
  assumes "holds s"
  shows "holds ((on_run (releaseTrackedAccount (rq_tracked s)) s)\<lparr>rq_tracked := 0\<rparr>)"
  using assms by (auto simp: holds_def release_log clients_def slot_held_def fun_eq_iff)

lemma acts_free [simp]: "filter acting (rr_log (releaseTrackedAccount i r)) = filter acting (rr_log r)"
  "filter acting (rr_log (releaseClient i r)) = filter acting (rr_log r)"
  by (simp_all add: release_log release_client_log)

lemma inert_acts: "inert xs \<Longrightarrow> filter acting xs = []"
proof (induction xs)
  case (Cons x xs)
  then show ?case by (cases x) (auto simp: inert_def)
qed simp

lemma reserved_acts: "reserved_log r xs \<Longrightarrow> filter acting xs = []"
  by (cases r) (auto simp: reserved_log_def inert_acts)

lemma holds_reserve:
  assumes "holds s" "rq_tracked s = 0" "acquireReservedAccountSelection e ch required failed model (rq_run s) = Some (q, r)"
  shows "slots (rr_log r) = (case q of Reserved acc client i \<Rightarrow> slot_held i | No_slot _ \<Rightarrow> Some None)"
    "clients (rr_log r) = (\<lambda>j. holding (rq_client s) j + (case q of Reserved acc client i \<Rightarrow> holding client j | No_slot _ \<Rightarrow> 0))"
    "filter acting (rr_log r) = filter acting (rr_log (rq_run s))"
proof -
  obtain xs where xs: "rr_log r = rr_log (rq_run s) @ xs" "reserved_log q xs"
    using reserve_loop_log assms(3) unfolding acquireReservedAccountSelection_def by fastforce
  show "slots (rr_log r) = (case q of Reserved acc client i \<Rightarrow> slot_held i | No_slot _ \<Rightarrow> Some None)"
    "clients (rr_log r) = (\<lambda>j. holding (rq_client s) j + (case q of Reserved acc client i \<Rightarrow> holding client j | No_slot _ \<Rightarrow> 0))"
    using reservation_slots [OF xs(2), of "rr_log (rq_run s)"] assms(1,2) xs(1) by (simp_all add: holds_def)
  show "filter acting (rr_log r) = filter acting (rr_log (rq_run s))" using xs reserved_acts by simp
qed

lemma try_acts: "tryAcquireTrackedAccount acc r = ((i, ok), r') \<Longrightarrow> filter acting (rr_log r') = filter acting (rr_log r)"
  using slot_log by fastforce

lemma holds_try:
  assumes "slots (rr_log r) = Some None" "tryAcquireTrackedAccount acc r = ((i, ok), r')"
  shows "slots (rr_log r') = slot_held i" "clients (rr_log r') = clients (rr_log r)"
proof -
  note l = slot_log [OF assms(2)]
  have "ok \<and> i \<noteq> 0 \<or> rr_log r' = rr_log r \<and> i = 0" using l by auto
  then show "slots (rr_log r') = slot_held i" "clients (rr_log r') = clients (rr_log r)"
    using l(1) assms(1) by (auto simp: slot_held_def fun_eq_iff)
qed

lemma holds_h: "holds (on_h f s) = holds s" and acts_h: "acts (on_h f s) = acts s"
  by (simp_all add: holds_def acts_def)

lemma holds_others: "holds (on_run (others_act e) s) = holds s" and acts_others: "acts (on_run (others_act e) s) = acts s"
  by (simp_all add: holds_def acts_def)

lemmas held_h = holds_h acts_h holds_others acts_others

lemma report_h: "report cfg c m d s = on_h (reportRequestFailure (lc_relay cfg) c m d) s"
  and end_turn_h: "end_turn cfg s = on_h (finishResponse (lc_relay cfg) ''end_turn'') s"
  by (simp_all add: report_def end_turn_def)

lemma switch_holds:
  assumes "switch_account cfg e err s = Some q" "holds s"
  shows "holds (case q of Inl s' \<Rightarrow> s' | Inr s' \<Rightarrow> s') \<and> acts (case q of Inl s' \<Rightarrow> s' | Inr s' \<Rightarrow> s') = acts s"
proof (cases "rq_account s")
  case None
  then show ?thesis using assms by (auto simp: switch_account_def)
next
  case (Some acc)
  define failed where "failed = (if ID acc \<in> set (rq_failed s) then rq_failed s else rq_failed s @ [ID acc])"
  define s1 where "s1 = (on_run (releaseTrackedAccount (rq_tracked s)) s)\<lparr>rq_tracked := 0, rq_failed := failed\<rparr>"
  have h1: "holds s1" "rq_tracked s1 = 0" "rq_client s1 = rq_client s"
    using holds_free [OF assms(2)] by (simp_all add: s1_def holds_def)
  have a1: "filter acting (rr_log (rq_run s1)) = acts s" by (simp add: s1_def acts_def)
  obtain p r where acq: "acquireReservedAccountSelection e (lc_channel cfg) (lc_forced cfg) failed (lc_mapped cfg) (rq_run s1) = Some (p, r)"
    using assms(1) Some by (auto simp: switch_account_def Let_def failed_def s1_def split: option.splits)
  note res = holds_reserve [OF h1(1,2) acq]
  show ?thesis
  proof (cases p)
    case (Reserved acc2 client2 i)
    then have q: "q = Inr (s1\<lparr>rq_run := releaseClient (rq_client s) r, rq_account := acc2, rq_client := client2, rq_tracked := i\<rparr>)"
      using assms(1) Some acq by (simp add: switch_account_def Let_def failed_def s1_def)
    have "slots (rr_log (releaseClient (rq_client s) r)) = slot_held i"
      using res(1) Reserved by (auto simp: release_client_log slot_held_def)
    moreover have "clients (rr_log (releaseClient (rq_client s) r)) = holding client2"
      using res(2) Reserved h1(3) by (auto simp: release_client_log fun_eq_iff holding_def clients_def)
    ultimately show ?thesis using res(3) a1 by (simp add: q holds_def acts_def)
  next
    case (No_slot why)
    let ?s2 = "s1\<lparr>rq_run := r\<rparr>"
    have h2: "holds ?s2" "acts ?s2 = acts s" using res No_slot h1 a1 by (simp_all add: holds_def acts_def)
    show ?thesis
    proof (cases "shouldRetryCurrentAccountWhenNoAlternative (ec_Category (ClassifyUpstreamError (err_text err)))")
      case False
      then have "q = Inl (no_account cfg err why ?s2)"
        using assms(1) Some acq No_slot by (simp add: switch_account_def Let_def failed_def s1_def)
      then show ?thesis using h2 by (simp add: no_account_def end_turn_h held_h)
    next
      case True
      obtain i ok r2 where t: "tryAcquireTrackedAccount (Some acc) (others_act e r) = ((i, ok), r2)" by (metis prod.collapse)
      have h3: "slots (rr_log r2) = slot_held i" "clients (rr_log r2) = holding (rq_client s)" "filter acting (rr_log r2) = acts s"
        using holds_try [of "others_act e r", OF _ t] try_acts [OF t] h2 h1 by (simp_all add: holds_def acts_def)
      have q: "q = (if ok then Inr (?s2\<lparr>rq_run := r2, rq_tracked := i\<rparr>) else Inl (no_account cfg err why (?s2\<lparr>rq_run := r2\<rparr>)))"
        using assms(1) Some acq No_slot True t by (cases ok) (auto simp: switch_account_def Let_def failed_def s1_def)
      have "\<not> ok \<Longrightarrow> i = 0" using slot_log(2) [OF t] by blast
      then show ?thesis using h3 h1 by (auto simp: q no_account_def end_turn_h held_h) (auto simp: holds_def acts_def)
    qed
  qed
qed

section \<open>Waits\<close>

fun charge :: "effect \<Rightarrow> int" where
  "charge (Waited c x y) = x" | "charge _ = 0"

definition charged :: "effect list \<Rightarrow> int" where
  "charged xs = sum_list (map charge xs)"

fun shared_sleep :: "effect \<Rightarrow> int" where
  "shared_sleep (Waited c x y) = (if x > 0 then y else 0)" | "shared_sleep _ = 0"

definition shared_slept :: "effect list \<Rightarrow> int" where
  "shared_slept xs = sum_list (map shared_sleep xs)"

definition budget :: "loop_config \<Rightarrow> duration" where
  "budget cfg = SharedRefusalWaitBudget (lc_SharedRefusalWaitBudgetMs cfg)"

text \<open>A wait that is not charged is at most thirty seconds.\<close>

definition wait_ok :: "effect \<Rightarrow> bool" where
  "wait_ok x = (case x of Waited c x d \<Rightarrow> 0 \<le> x \<and> 0 \<le> d \<and> (x = 0 \<longrightarrow> d \<le> 30 * second) | _ \<Rightarrow> True)"

definition waits_ok :: "loop_config \<Rightarrow> request_state \<Rightarrow> bool" where
  "waits_ok cfg s \<longleftrightarrow> rq_waited s = charged (acts s) \<and> charged (acts s) \<le> budget cfg \<and>
     5 * shared_slept (acts s) \<le> 6 * charged (acts s) \<and> list_all wait_ok (acts s)"

lemma wait_sums [simp]:
  "charged (xs @ [x]) = charged xs + charge x" "shared_slept (xs @ [x]) = shared_slept xs + shared_sleep x"
  "charged [] = 0" "shared_slept [] = 0"
  by (simp_all add: charged_def shared_slept_def)

lemma next_delay_bounds: "0 \<le> next_delay cfg err k" "next_delay cfg err k \<le> 30 * second"
  using retry_delay_bounds retry_after_bounds by (auto simp: next_delay_def Let_def)

lemma shared_wait_cases:
  "0 \<le> shared_wait cfg err k"
  "isSharedUpstreamRefusalClass (ClassifyUpstreamError (err_text err)) \<Longrightarrow> 0 < next_delay cfg err k \<Longrightarrow> 0 < shared_wait cfg err k"
  "\<not> isSharedUpstreamRefusalClass (ClassifyUpstreamError (err_text err)) \<Longrightarrow> shared_wait cfg err k = 0"
  using shared_wait_positive by (auto simp: shared_wait_def Let_def order.strict_implies_order)

text \<open>What the wait of a failed attempt does to the handler, the log and the budget.\<close>

definition waited_more :: "loop_config \<Rightarrow> request_state \<Rightarrow> request_state \<Rightarrow> bool" where
  "waited_more cfg s s' \<longleftrightarrow> holds s' \<and> waits_ok cfg s' \<and> (\<exists>c x d. acts s' = acts s @ [Waited c x d])"

definition ended_wait :: "loop_config \<Rightarrow> request_state \<Rightarrow> streamHandler \<Rightarrow> request_state \<Rightarrow> bool" where
  "ended_wait cfg s h s' \<longleftrightarrow> (\<exists>c m d. rq_h s' = reportRequestFailure (lc_relay cfg) c m d h) \<or> rq_h s' = finishResponse (lc_relay cfg) ''end_turn'' h"

lemma wait_holds:
  assumes "holds s" "waits_ok cfg s" and ends: "wait_and_retry cfg e err s = q"
  shows "case q of
      Over s' \<Rightarrow> holds s' \<and> charged (acts s') \<le> budget cfg \<and> 5 * shared_slept (acts s') \<le> 6 * charged (acts s') \<and> list_all wait_ok (acts s') \<and>
        (acts s' = acts s \<or> (\<exists>c x d. acts s' = acts s @ [Waited c x d])) \<and> (\<exists>n. ended_wait cfg s ((writeKeepAlive (lc_relay cfg) ^^ n) (rq_h s)) s')
    | Again s' \<Rightarrow> waited_more cfg s s' \<and> (\<exists>n. rq_h s' = (writeKeepAlive (lc_relay cfg) ^^ n) (rq_h s))
    | Panicked s' \<Rightarrow> False"
proof -
  define cls where "cls = ClassifyUpstreamError (err_text err)"
  define shared where "shared = isSharedUpstreamRefusalClass cls"
  define d where "d = next_delay cfg err (rq_attempt s)"
  define wt where "wt = shared_wait cfg err (rq_attempt s)"
  define qi where "qi = (if ec_Category cls = ''upstream_queue'' then lc_QoderQueueRetryIntervalMs cfg else 0)"
  define r where "r = e_random e (rr_tick (rq_run s))"
  define sl where "sl = (if wt > 0 then sharedRefusalSleepForChannel r wt (lc_channel cfg) qi else d)"
  define free where "free = (sl > 0 \<and> shared \<and> rq_tracked s \<noteq> 0)"
  define s1 where "s1 = (if free then (on_run (releaseTrackedAccount (rq_tracked s)) s)\<lparr>rq_tracked := 0\<rparr> else s)"
  define n where "n = lc_beats cfg (rr_tick (rq_run s1))"
  define s2 where "s2 = on_h (writeKeepAlive (lc_relay cfg) ^^ n) (on_run (others_act e \<circ> logged_effect (Waited (ec_Category cls) wt sl)) s1)"
  define s3 where "s3 = s2\<lparr>rq_waited := (if shared then rq_waited s2 + (if wt = 0 then sl else wt) else rq_waited s2)\<rparr>"
  note parts = cls_def shared_def d_def wt_def qi_def r_def sl_def free_def s1_def n_def s2_def s3_def
  have wt: "0 \<le> wt" "0 \<le> d" "d \<le> 30 * second" "shared \<Longrightarrow> wt = 0 \<Longrightarrow> d = 0" "\<not> shared \<Longrightarrow> wt = 0"
    using shared_wait_cases [where cfg = cfg and err = err and k = "rq_attempt s"] next_delay_bounds [of cfg err "rq_attempt s"]
    unfolding wt_def d_def shared_def cls_def by fastforce+
  have sl: "0 \<le> sl" "wt = 0 \<Longrightarrow> sl = d" "0 < wt \<Longrightarrow> 5 * sl \<le> 6 * wt"
    using shared_sleep_bounds [OF wt(1), of r "lc_channel cfg" qi] wt by (auto simp: sl_def)
  have h1: "holds s1" "acts s1 = acts s" "rq_h s1 = rq_h s" "rq_waited s1 = rq_waited s"
    using assms(1) holds_free by (auto simp: s1_def) (simp add: acts_def)
  have h2: "holds s2" "acts s2 = acts s @ [Waited (ec_Category cls) wt sl]" "rq_h s2 = (writeKeepAlive (lc_relay cfg) ^^ n) (rq_h s)"
    "rq_waited s2 = rq_waited s"
    using h1 holds_neutral [OF h1(1), of s2 "[Waited (ec_Category cls) wt sl]"] by (simp_all add: s2_def acts_def)
  have wok: "wait_ok (Waited c wt sl)" for c using wt sl by (auto simp: wait_ok_def)
  note ok = assms(2) [unfolded waits_ok_def]
  show ?thesis
  proof (cases "shared \<and> wt > 0 \<and> \<not> sharedRefusalWaitAllowedWithin (rq_waited s) wt (budget cfg)")
    case True
    then have "q = Over (report_upstream cfg err s)"
      using ends by (simp add: wait_and_retry_def Let_def budget_def flip: parts)
    moreover have "ended_wait cfg s (rq_h s) (report_upstream cfg err s)" by (auto simp: ended_wait_def report_upstream_def report_h)
    ultimately show ?thesis using ok assms(1)
      by (auto simp: report_upstream_def report_h held_h intro: exI [of _ "0::nat"])
  next
    case False
    have b: "charged (acts s) + wt \<le> budget cfg"
    proof (cases "wt > 0")
      case True
      then show ?thesis using False wt(5) allowed_within [of "rq_waited s" wt] budget_positive ok by (auto simp: budget_def)
    qed (use wt ok in auto)
    have new: "charged (acts s2) \<le> budget cfg" "5 * shared_slept (acts s2) \<le> 6 * charged (acts s2)" "list_all wait_ok (acts s2)"
      using ok b wok sl wt by (auto simp: h2)
    have h3: "rq_h s3 = rq_h s2" "acts s3 = acts s2" "holds s3" "rq_tracked s3 = rq_tracked s2" "rq_account s3 = rq_account s2"
      using h2(1) by (simp_all add: s3_def acts_def holds_def)
    have w3: "rq_waited s3 = charged (acts s2)" using ok wt sl by (auto simp: s3_def h2)
    have q: "q = (if sl > 0 \<and> e_cancelled e (rr_tick (rq_run s2)) then Over (end_turn cfg s2)
        else if free \<and> rq_account s3 \<noteq> None then
          (case tryAcquireTrackedAccount (rq_account s3) (rq_run s3) of
             ((i, True), r) \<Rightarrow> Again (s3\<lparr>rq_run := r, rq_tracked := i, rq_attempt := rq_attempt s3 + 1\<rparr>)
           | ((i, False), r) \<Rightarrow> Over (report cfg ''rate_limit'' PoolBusyMessage 0 (s3\<lparr>rq_run := r\<rparr>)))
        else Again (s3\<lparr>rq_attempt := rq_attempt s3 + 1\<rparr>))"
      using False unfolding ends [symmetric] wait_and_retry_def Let_def parts budget_def by (simp only: if_False)
    consider "sl > 0 \<and> e_cancelled e (rr_tick (rq_run s2))" | "\<not> (sl > 0 \<and> e_cancelled e (rr_tick (rq_run s2)))" "free \<and> rq_account s3 \<noteq> None"
      | "\<not> (sl > 0 \<and> e_cancelled e (rr_tick (rq_run s2)))" "\<not> (free \<and> rq_account s3 \<noteq> None)" by blast
    then show ?thesis
    proof cases
      case 1
      have "ended_wait cfg s ((writeKeepAlive (lc_relay cfg) ^^ n) (rq_h s)) (end_turn cfg s2)"
        by (simp add: ended_wait_def end_turn_h h2)
      then show ?thesis using 1 q new h2 by (auto simp: end_turn_h held_h)
    next
      case 2
      obtain i g r' where t: "tryAcquireTrackedAccount (rq_account s3) (rq_run s3) = ((i, g), r')" by (metis prod.collapse)
      have z: "slots (rr_log (rq_run s3)) = Some None" using h3(3,4) 2 by (simp add: holds_def s2_def s1_def)
      have h4: "slots (rr_log r') = slot_held i" "clients (rr_log r') = holding (rq_client s3)" "filter acting (rr_log r') = acts s3"
        using holds_try [OF z t] try_acts [OF t] h3(3) by (simp_all add: holds_def acts_def)
      have i: "\<not> g \<Longrightarrow> i = 0" using slot_log(2) [OF t] by blast
      have tr: "rq_tracked s3 = 0" using 2 by (simp add: h3 s2_def s1_def)
      show ?thesis
      proof (cases g)
        case True
        have "waited_more cfg s (s3\<lparr>rq_run := r', rq_tracked := i, rq_attempt := rq_attempt s3 + 1\<rparr>)"
          using h4 new h2 h3 w3 by (simp add: waited_more_def waits_ok_def holds_def acts_def)
        then show ?thesis using 2 q t True h3 h2 by auto
      next
        case False
        have "ended_wait cfg s ((writeKeepAlive (lc_relay cfg) ^^ n) (rq_h s)) (report cfg ''rate_limit'' PoolBusyMessage 0 (s3\<lparr>rq_run := r'\<rparr>))"
          using h3 h2 by (auto simp: ended_wait_def report_h)
        moreover have "holds (s3\<lparr>rq_run := r'\<rparr>)" "acts (s3\<lparr>rq_run := r'\<rparr>) = acts s3" using h4 i False tr by (simp_all add: holds_def acts_def)
        ultimately show ?thesis using 2 q t False new h3 h2 by (auto simp: report_h held_h)
      qed
    next
      case 3
      have "waited_more cfg s (s3\<lparr>rq_attempt := rq_attempt s3 + 1\<rparr>)"
        using new h2 h3 w3 by (simp add: waited_more_def waits_ok_def holds_def acts_def)
      then show ?thesis using 3 q h3 h2 by auto
    qed
  qed
qed

section \<open>The loop keeps its books\<close>

definition attempts :: "effect list \<Rightarrow> nat list" where
  "attempts xs = concat (map (\<lambda>x. case x of Sent k i \<Rightarrow> [k] | _ \<Rightarrow> []) xs)"

definition retries :: "loop_config \<Rightarrow> int" where
  "retries cfg = max 0 (lc_MaxRetries cfg)"

definition unanswered :: "effect list \<Rightarrow> bool" where
  "unanswered xs \<longleftrightarrow> list_all (\<lambda>x. case x of Answered \<Rightarrow> False | Counted _ _ \<Rightarrow> False | _ \<Rightarrow> True) xs"

lemma attempts_simps [simp]:
  "attempts [] = []" "attempts (xs @ [Sent k i]) = attempts xs @ [k]" "attempts (xs @ [Waited c x d]) = attempts xs"
  "attempts (xs @ [Answered]) = attempts xs" "attempts (xs @ [Counted i n]) = attempts xs"
  by (simp_all add: attempts_def)

lemma unanswered_simps [simp]:
  "unanswered []" "unanswered (xs @ [Sent k i]) = unanswered xs" "unanswered (xs @ [Waited c x d]) = unanswered xs"
  by (simp_all add: unanswered_def)

text \<open>Where a round begins, where it has failed (its number is already logged), and where the loop is left.\<close>

definition round_ok :: "loop_config \<Rightarrow> nat \<Rightarrow> request_state \<Rightarrow> bool" where
  "round_ok cfg n s \<longleftrightarrow> holds s \<and> waits_ok cfg s \<and> relay_reach (lc_relay cfg) (rq_h s) \<and> \<not> hasVisibleOutput (rq_h s) \<and>
     attempts (acts s) = [1..<n + 1] \<and> 0 \<le> rq_left s \<and> int (rq_attempt s) + rq_left s = retries cfg \<and> unanswered (acts s)"

definition left_ok :: "loop_config \<Rightarrow> request_state \<Rightarrow> bool" where
  "left_ok cfg s \<longleftrightarrow> holds s \<and> relay_reach (lc_relay cfg) (rq_h s) \<and> charged (acts s) \<le> budget cfg \<and>
     5 * shared_slept (acts s) \<le> 6 * charged (acts s) \<and> list_all wait_ok (acts s) \<and> unanswered (acts s) \<and>
     (\<exists>n. attempts (acts s) = [1..<n + 1] \<and> int n \<le> retries cfg + 1)"

lemma keepalives_reach: "relay_reach c h \<Longrightarrow> relay_reach c ((writeKeepAlive c ^^ n) h)"
  by (induction n) (auto intro: relay_reach.Step relay_step.Tick)

lemma keepalives_visible: "hasVisibleOutput ((writeKeepAlive c ^^ n) h) = hasVisibleOutput h"
proof (induction n)
  case (Suc n)
  have "hasVisibleOutput (writeKeepAlive c g) = hasVisibleOutput g" for g
    using sent_fields [OF keepalive_sent(1), of c g] by (simp add: hasVisibleOutput_def)
  then show ?case using Suc by simp
qed simp

lemma deliver_reach: "relay_reach c h \<Longrightarrow> case deliver c xs h of Inl g \<Rightarrow> relay_reach c g | Inr g \<Rightarrow> relay_reach c g"
  by (induction c xs h rule: deliver.induct)
    (auto split: option.split intro: relay_reach.Step relay_step.Tick relay_step.Message)

lemma end_reach:
  "relay_reach c h \<Longrightarrow> relay_reach c (reportRequestFailure c category m d h)"
  "relay_reach c h \<Longrightarrow> relay_reach c (finishResponse c stop h)"
  "relay_reach c h \<Longrightarrow> relay_reach c (InjectNoAvailableAccountError c l q h)"
  "relay_reach c h \<Longrightarrow> relay_reach c (forceFinishIfMissing c h)"
  by (auto intro: relay_reach.Step relay_step.Failure relay_step.Finish relay_step.No_account relay_step.Force)

lemma round_left:
  assumes "round_ok cfg n s" "int n \<le> retries cfg + 1"
  shows "left_ok cfg s"
  using assms by (auto simp: round_ok_def left_ok_def waits_ok_def)

lemma left_h:
  assumes "left_ok cfg s" "relay_reach (lc_relay cfg) (f (rq_h s))"
  shows "left_ok cfg (on_h f s)"
  using assms by (simp add: left_ok_def held_h)

lemma left_ends:
  assumes "left_ok cfg s"
  shows "left_ok cfg (report cfg category m d s)" "left_ok cfg (end_turn cfg s)" "left_ok cfg (report_upstream cfg err s)"
    "left_ok cfg (no_account cfg err why s)"
proof -
  have r: "relay_reach (lc_relay cfg) (rq_h s)" using assms by (simp add: left_ok_def)
  have rep: "left_ok cfg (report cfg category m d s)" for category m d
    using left_h [OF assms, of "reportRequestFailure (lc_relay cfg) category m d"] end_reach(1) [OF r] by (simp add: report_def)
  then show "left_ok cfg (report cfg category m d s)" "left_ok cfg (report_upstream cfg err s)" by (simp_all add: report_upstream_def)
  have fin: "left_ok cfg (end_turn cfg t)" if "left_ok cfg t" for t
    using left_h [OF that, of "finishResponse (lc_relay cfg) ''end_turn''"] end_reach(2) that by (simp add: end_turn_def left_ok_def)
  then show "left_ok cfg (end_turn cfg s)" using assms .
  have "left_ok cfg (on_h (InjectNoAvailableAccountError (lc_relay cfg) (err_text err) (Some why)) s)"
    using left_h [OF assms] end_reach(3) [OF r] by blast
  then show "left_ok cfg (no_account cfg err why s)" using fin by (simp add: no_account_def)
qed

text \<open>The relay state of a request only changes where \<open>rq_h\<close> is written; a switch leaves it alone unless it ends the request.\<close>

lemma switch_keeps:
  assumes "switch_account cfg e err s = Some (Inr s')"
  shows "rq_h s' = rq_h s" "rq_waited s' = rq_waited s" "rq_attempt s' = rq_attempt s" "rq_left s' = rq_left s"
  using assms by (auto simp: switch_account_def Let_def split: option.splits reservation.splits prod.splits if_splits bool.splits)

lemma switch_ends:
  assumes "switch_account cfg e err s = Some (Inl s')"
  shows "\<exists>why s1. s' = no_account cfg err why s1 \<and> rq_h s1 = rq_h s"
  using assms by (auto simp: switch_account_def Let_def split: option.splits reservation.splits prod.splits if_splits bool.splits) force+

lemma no_account_books: "holds (no_account cfg err why s) = holds s" "acts (no_account cfg err why s) = acts s"
  by (simp_all add: no_account_def end_turn_h held_h)

text \<open>A failed attempt: its account is judged and marked, then the request ends, or waits, on another account or the same.\<close>

definition judged :: "loop_config \<Rightarrow> request_env \<Rightarrow> upstream_error \<Rightarrow> request_state \<Rightarrow> request_state" where
  "judged cfg e err s0 =
     (let s = read_account cfg s0 in
      on_run (others_act e) (mark_failure cfg e (Classify (rq_account s) (Some err) (lc_model cfg) (now_of e (rq_run s))) s))"

lemma failure_cases:
  assumes "handle_failure cfg e err s = Some q"
  obtains (ended) s' where "q = Over s'" "(\<exists>c m d. s' = report cfg c m d (judged cfg e err s)) \<or> s' = report_upstream cfg err (judged cfg e err s) \<or>
      s' = end_turn cfg (judged cfg e err s)"
  | (gave_up) s' where "q = Over s'" "switch_account cfg e err ((judged cfg e err s)\<lparr>rq_left := rq_left (judged cfg e err s) - 1\<rparr>) = Some (Inl s')"
  | (switched) t where "q = wait_and_retry cfg e err t" "0 < rq_left (judged cfg e err s)"
      "switch_account cfg e err ((judged cfg e err s)\<lparr>rq_left := rq_left (judged cfg e err s) - 1\<rparr>) = Some (Inr t)"
  | (stayed) "q = wait_and_retry cfg e err ((judged cfg e err s)\<lparr>rq_left := rq_left (judged cfg e err s) - 1\<rparr>)" "0 < rq_left (judged cfg e err s)"
proof -
  define v where "v = Classify (rq_account (read_account cfg s)) (Some err) (lc_model cfg) (now_of e (rq_run (read_account cfg s)))"
  define s1 where "s1 = on_run (others_act e) (mark_failure cfg e v (read_account cfg s))"
  have j: "judged cfg e err s = s1" by (simp add: judged_def s1_def v_def Let_def)
  show thesis
    using assms that unfolding handle_failure_def Let_def v_def [symmetric] s1_def [symmetric] j
    by (cases "v_Retryable v"; cases "e_cancelled e (rr_tick (rq_run s1))"; cases "rq_left s1 \<le> 0"; cases "v_SwitchAccount v \<and> rq_account s1 \<noteq> None")
      (auto split: option.splits sum.splits if_splits)
qed

lemma failed_round:
  assumes r: "round_ok cfg (rq_attempt s + 1) s" and f: "handle_failure cfg e err s = Some q"
  shows "case q of Over s' \<Rightarrow> left_ok cfg s' | Again s' \<Rightarrow> round_ok cfg (rq_attempt s') s' | Panicked s' \<Rightarrow> False"
proof -
  define s1 where "s1 = judged cfg e err s"
  have acts0: "acts (read_account cfg s) = acts s" "holds (read_account cfg s) = holds s" by (simp_all add: acts_def holds_def)
  have r1: "round_ok cfg (rq_attempt s1 + 1) s1" "rq_left s1 = rq_left s" "rq_attempt s1 = rq_attempt s"
    using r holds_mark by (simp_all add: s1_def judged_def Let_def round_ok_def waits_ok_def held_h acts_mark acts0)
  have n: "int (rq_attempt s1 + 1) \<le> retries cfg + 1" using r1(1) by (simp add: round_ok_def)
  have l1: "left_ok cfg s1" using round_left [OF r1(1) n] .
  have waits: "case wait_and_retry cfg e err t of Over s' \<Rightarrow> left_ok cfg s' | Again s' \<Rightarrow> round_ok cfg (rq_attempt s') s' | Panicked s' \<Rightarrow> False"
    if t: "holds t" "acts t = acts s1" "rq_h t = rq_h s1" "rq_waited t = rq_waited s1" "rq_attempt t = rq_attempt s1" "rq_left t = rq_left s1 - 1"
      "0 < rq_left s1" for t
  proof -
    have ws: "waits_ok cfg t" using r1(1) t by (simp add: round_ok_def waits_ok_def)
    note h = wait_holds [OF t(1) ws refl, of e err]
    show ?thesis
    proof (cases "wait_and_retry cfg e err t")
      case (Over s')
      have "relay_reach (lc_relay cfg) (rq_h s')"
        using h r1(1) t(3) by (auto simp: Over ended_wait_def round_ok_def intro!: end_reach(1,2) keepalives_reach)
      moreover have "attempts (acts s') = attempts (acts s1)" "unanswered (acts s')" using h r1(1) t(2) by (auto simp: Over round_ok_def)
      ultimately show ?thesis using h n r1(1) by (auto simp: Over left_ok_def round_ok_def simp del: upt_Suc)
    next
      case (Again s')
      then have a: "rq_left s' = rq_left t" "rq_attempt s' = rq_attempt t + 1" using wait_left [OF Again] by auto
      obtain c x d where acts: "acts s' = acts s1 @ [Waited c x d]" using h t(2) by (auto simp: Again waited_more_def)
      have "relay_reach (lc_relay cfg) (rq_h s')" "\<not> hasVisibleOutput (rq_h s')"
        using h r1(1) t(3) by (auto simp: Again round_ok_def keepalives_visible intro!: keepalives_reach)
      then show ?thesis using h r1(1) a t acts by (auto simp: Again waited_more_def round_ok_def simp del: upt_Suc)
    next
      case (Panicked s')
      then show ?thesis using h by simp
    qed
  qed
  let ?s2 = "s1\<lparr>rq_left := rq_left s1 - 1\<rparr>"
  have s2: "holds ?s2" "acts ?s2 = acts s1" using l1 by (simp_all add: left_ok_def holds_def acts_def)
  from f show ?thesis
  proof (cases rule: failure_cases)
    case (ended s')
    then show ?thesis using left_ends [OF l1] by (auto simp: s1_def)
  next
    case (gave_up s')
    then have sw: "switch_account cfg e err ?s2 = Some (Inl s')" by (simp add: s1_def)
    obtain why t where t: "s' = no_account cfg err why t" "rq_h t = rq_h s1" using switch_ends [OF sw] by auto
    have "holds t \<and> acts t = acts s1" using switch_holds [OF sw s2(1)] s2(2) t by (simp add: no_account_books)
    then have "left_ok cfg t" using l1 t(2) by (simp add: left_ok_def)
    then show ?thesis using left_ends(4) gave_up(1) t(1) by simp
  next
    case (switched t)
    then have sw: "switch_account cfg e err ?s2 = Some (Inr t)" by (simp add: s1_def)
    show ?thesis using waits [of t] switch_holds [OF sw s2(1)] s2(2) switch_keeps [OF sw] switched by (simp add: s1_def)
  next
    case stayed
    then show ?thesis using waits [of ?s2] s2 by (simp add: s1_def)
  qed
qed

text \<open>One turn of the loop.\<close>

lemma start_round_acts: "acts (start_round cfg e s) = acts s @ [Sent (rq_attempt s + 1) (account_id (rq_account s))]"
  by (simp add: acts_def)

lemma attempt_round:
  assumes r: "round_ok cfg (rq_attempt s) s" and f: "attempt_step cfg e up s = Some q"
  shows "case q of Over s' \<Rightarrow> left_ok cfg s' | Again s' \<Rightarrow> round_ok cfg (rq_attempt s') s' | Panicked s' \<Rightarrow> left_ok cfg s'"
proof (cases "hasReturn (rq_h s)")
  case True
  then show ?thesis using f round_left [OF r] r by (auto simp: attempt_step_def round_ok_def)
next
  case False
  define s1 where "s1 = start_round cfg e s"
  obtain msgs er where up: "up (rq_attempt s + 1) (rq_account s) = (msgs, er)" by fastforce
  have reach1: "relay_reach (lc_relay cfg) (rq_h s1)"
    using r False by (auto simp: s1_def start_round_def round_ok_def intro: relay_reach.Step relay_step.Round relay_step.Round_tick)
  have books: "holds s1" "waits_ok cfg s1" "attempts (acts s1) = [1..<rq_attempt s1 + 1 + 1]" "unanswered (acts s1)" "0 \<le> rq_left s1"
    "int (rq_attempt s1) + rq_left s1 = retries cfg"
    using r holds_neutral [of s s1 "[Sent (rq_attempt s + 1) (account_id (rq_account s))]"]
    by (simp_all add: s1_def round_ok_def waits_ok_def start_round_acts charged_def shared_slept_def wait_ok_def)
  have l: "left_ok cfg (s1\<lparr>rq_h := h\<rparr>)" if "relay_reach (lc_relay cfg) h" for h
    using books that by (auto simp: left_ok_def waits_ok_def holds_def acts_def simp del: upt_Suc intro!: exI [of _ "rq_attempt s1 + 1"])
  note d = deliver_reach [OF reach1, of msgs]
  show ?thesis
  proof (cases "deliver (lc_relay cfg) msgs (rq_h s1)")
    case (Inl h)
    then show ?thesis using f False up l [of h] d by (auto simp: attempt_step_def Let_def simp flip: s1_def)
  next
    case (Inr h)
    note lh = l [of h]
    show ?thesis
    proof (cases er)
      case None
      have "left_ok cfg (on_h (forceFinishIfMissing (lc_relay cfg)) (s1\<lparr>rq_h := h\<rparr>))"
        using left_h [OF lh] end_reach(4) [of "lc_relay cfg" h] d by (simp add: Inr)
      then show ?thesis using f False up Inr None by (auto simp: attempt_step_def Let_def simp flip: s1_def)
    next
      case (Some err)
      then have q: "if hasReturn h then q = Over (s1\<lparr>rq_h := h\<rparr>) else if hasAnyOutput h then q = Over (report_upstream cfg err (s1\<lparr>rq_h := h\<rparr>))
          else handle_failure cfg e err (s1\<lparr>rq_h := h\<rparr>) = Some q"
        using f False up Inr by (auto simp: attempt_step_def Let_def simp flip: s1_def)
      show ?thesis
      proof (cases "hasReturn h \<or> hasAnyOutput h")
        case True
        then show ?thesis using q lh left_ends(3) [of cfg "s1\<lparr>rq_h := h\<rparr>"] d by (auto simp: Inr split: if_splits)
      next
        case False
        have "round_ok cfg (rq_attempt (s1\<lparr>rq_h := h\<rparr>) + 1) (s1\<lparr>rq_h := h\<rparr>)"
          using books d False by (simp add: Inr round_ok_def hasAnyOutput_def waits_ok_def holds_def acts_def)
        from failed_round [OF this, of e err q] q False show ?thesis by (cases q) auto
      qed
    qed
  qed
qed

lemma loop_left:
  assumes "request_loop cfg e up s = Some q" "round_ok cfg (rq_attempt s) s"
  shows "case q of Inl s' \<Rightarrow> left_ok cfg s' | Inr s' \<Rightarrow> left_ok cfg s'"
  using assms
proof (induction cfg e up s rule: request_loop.induct)
  case (1 cfg e up s)
  obtain p where p: "attempt_step cfg e up s = Some p" using 1(2) by (simp add: request_loop.simps split: option.splits)
  note a = attempt_round [OF 1(3) p]
  show ?case
  proof (cases p)
    case (Again s1)
    then show ?thesis using 1(1) [OF p Again] 1(2) a by (simp add: p request_loop.simps [of cfg e up s])
  qed (use a 1(2) in \<open>auto simp: p request_loop.simps [of cfg e up s]\<close>)
qed

section \<open>What a request leaves\<close>

fun end_run :: "request_end \<Rightarrow> request_run" where
  "end_run (Rejected a r) = r" | "end_run (Ended s a) = rq_run s" | "end_run (Crashed s) = rq_run s"

lemma acting_reads:
  "attempts (filter acting xs) = attempts xs" "charged (filter acting xs) = charged xs" "shared_slept (filter acting xs) = shared_slept xs"
proof -
  have "\<not> acting x \<Longrightarrow> (case x of Sent k i \<Rightarrow> [k] | _ \<Rightarrow> []) = [] \<and> charge x = 0 \<and> shared_sleep x = 0" for x by (cases x) auto
  then show "attempts (filter acting xs) = attempts xs" "charged (filter acting xs) = charged xs" "shared_slept (filter acting xs) = shared_slept xs"
    by (induction xs) (auto simp: attempts_def charged_def shared_slept_def)
qed

text \<open>The answers of a run that was completed, and the books of every run.\<close>

definition answers :: "effect list \<Rightarrow> nat" where
  "answers xs = length (filter (\<lambda>x. x = Answered) xs)"

definition books_ok :: "loop_config \<Rightarrow> effect list \<Rightarrow> bool" where
  "books_ok cfg xs \<longleftrightarrow> charged xs \<le> budget cfg \<and> 5 * shared_slept xs \<le> 6 * charged xs \<and>
     (\<exists>n. attempts xs = [1..<n + 1] \<and> int n \<le> retries cfg + 1)"

lemma slots_two: "slots (xs @ [x, y]) = slot_step (slot_step (slots xs) x) y"
  by (simp add: slots_def)

lemma release_all_books:
  assumes "holds s"
  shows "slots (rr_log (rq_run (release_all s))) = Some None" "clients (rr_log (rq_run (release_all s))) = (\<lambda>_. 0)"
    "filter acting (rr_log (rq_run (release_all s))) = acts s" "rq_h (release_all s) = rq_h s"
  using assms by (auto simp: release_all_def holds_def release_log release_client_log acts_def slot_held_def holding_def clients_def fun_eq_iff slots_two)

lemma complete_books:
  assumes "left_ok cfg s"
  shows "holds (complete_request cfg s)"
    "\<exists>ys. acts (complete_request cfg s) = acts s @ (if \<not> isStream (lc_relay cfg) \<and> \<not> requestFailed (rq_h (complete_request cfg s)) then [Answered] else []) @ ys \<and>
       length ys \<le> 1 \<and> list_all (\<lambda>x. \<exists>i n. x = Counted i n) ys"
    "relay_reach (lc_relay cfg) (rq_h (complete_request cfg s))" "hasReturn (rq_h (complete_request cfg s))"
proof -
  define s1 where "s1 = (if hasReturn (rq_h s) then s else end_turn cfg s)"
  define a where "a = (if \<not> isStream (lc_relay cfg) \<and> \<not> requestFailed (rq_h s1) then [Answered] else [])"
  define n where "n = (if requestFailed (rq_h s1) \<and> \<not> useUpstreamUsage (usage (rq_h s1)) then 0 else inputTokens (usage (rq_h s1)) + outputTokens (usage (rq_h s1)))"
  define b where "b = (case rq_account s1 of None \<Rightarrow> [] | Some acc \<Rightarrow> [Counted (ID acc) n])"
  have l1: "left_ok cfg s1" using assms left_ends(2) [OF assms] by (simp add: s1_def)
  have h1: "hasReturn (rq_h s1)"
    using finish_ends [OF reach_inv, of "lc_relay cfg" "rq_h s"] assms by (simp add: s1_def end_turn_def left_ok_def)
  have c: "rq_h (complete_request cfg s) = rq_h s1" "rq_tracked (complete_request cfg s) = rq_tracked s1"
    "rq_client (complete_request cfg s) = rq_client s1" "rr_log (rq_run (complete_request cfg s)) = rr_log (rq_run s1) @ a @ b"
    by (auto simp: complete_request_def Let_def a_def b_def n_def simp flip: s1_def split: option.split)
  have acts1: "acts s1 = acts s" by (simp add: s1_def end_turn_h held_h)
  show "holds (complete_request cfg s)"
    using holds_neutral [of s1 "complete_request cfg s" "a @ b"] l1 c by (auto simp: left_ok_def a_def b_def split: option.split)
  have "filter acting (a @ b) = a @ b" by (auto simp: a_def b_def split: option.split)
  then have "acts (complete_request cfg s) = acts s @ a @ b" using c(4) acts1 by (simp add: acts_def)
  then show "\<exists>ys. acts (complete_request cfg s) = acts s @ (if \<not> isStream (lc_relay cfg) \<and> \<not> requestFailed (rq_h (complete_request cfg s)) then [Answered] else []) @ ys \<and>
       length ys \<le> 1 \<and> list_all (\<lambda>x. \<exists>i n. x = Counted i n) ys"
    by (auto simp: c(1) a_def b_def intro!: exI [of _ b] split: option.split)
  show "relay_reach (lc_relay cfg) (rq_h (complete_request cfg s))" "hasReturn (rq_h (complete_request cfg s))"
    using l1 h1 by (simp_all add: c left_ok_def)
qed

lemma first_reach: "relay_reach c (first_handler rm fb n)" "\<not> hasVisibleOutput (first_handler rm fb n)"
proof -
  show "relay_reach c (first_handler rm fb n)" unfolding first_handler_def
    by (rule relay_reach.Step [OF relay_reach.Step [OF relay_reach.Start relay_step.Fallback] relay_step.Usage])
  show "\<not> hasVisibleOutput (first_handler rm fb n)"
    by (simp add: first_handler_def hasVisibleOutput_def setUsageTokens_def setEmptyOutputFallback_def newStreamHandler_def Let_def)
qed

lemma start_round_ok:
  assumes "acquireReservedAccountSelection e ch required [] model r = Some (Reserved acc client i, r1)" "rr_log r = []"
  shows "round_ok cfg 0 (start_state cfg (first_handler rm fb n) acc client i r1)"
proof -
  obtain xs where xs: "rr_log r1 = xs" "reserved_log (Reserved acc client i) xs"
    using reserve_loop_log assms unfolding acquireReservedAccountSelection_def by fastforce
  have "slots [] = Some None" by (simp add: slots_def)
  from reservation_slots [OF xs(2) this] have "slots xs = slot_held i" "clients xs = holding client" by simp_all
  then show ?thesis using reserved_acts [OF xs(2)] first_reach budget_positive xs(1)
    by (simp add: round_ok_def start_state_def holds_def waits_ok_def acts_def retries_def budget_def unanswered_def order.strict_implies_order)
qed

text \<open>How a run of a request comes out.\<close>

lemma run_request_cases:
  assumes run: "run_request cfg e up (first_handler rm fb n) r = Some q" and log: "rr_log r = []"
  shows "slots (rr_log (end_run q)) = Some None \<and> clients (rr_log (end_run q)) = (\<lambda>_. 0) \<and> books_ok cfg (rr_log (end_run q)) \<and>
    (case q of
       Rejected a r1 \<Rightarrow> attempts (rr_log r1) = [] \<and> answers (rr_log r1) = 0
     | Ended s a \<Rightarrow> relay_reach (lc_relay cfg) (rq_h s) \<and> hasReturn (rq_h s) \<and>
         (a \<noteq> None \<longleftrightarrow> \<not> isStream (lc_relay cfg) \<and> \<not> requestFailed (rq_h s)) \<and> answers (rr_log (rq_run s)) = (if a = None then 0 else 1)
     | Crashed s \<Rightarrow> answers (rr_log (rq_run s)) = 0)"
proof -
  have none: "slots [] = Some None" "clients [] = (\<lambda>_. 0)" by (simp_all add: slots_def)
  have cnt: "answers (filter acting xs) = answers xs" for xs by (induction xs) (auto simp: answers_def)
  have un: "unanswered xs \<Longrightarrow> answers xs = 0" for xs by (induction xs) (auto simp: unanswered_def answers_def)
  have quiet: "books_ok cfg xs \<and> attempts xs = [] \<and> answers xs = 0" if "filter acting xs = []" for xs
    using that acting_reads [of xs] cnt [of xs] budget_positive
    by (auto simp: books_ok_def budget_def retries_def answers_def order.strict_implies_order intro!: exI [of _ "0::nat"])
  obtain p r1 where acq: "acquireReservedAccountSelection e (lc_channel cfg) (lc_forced cfg) [] (TrimSpace (lc_model cfg)) r = Some (p, r1)"
    using run by (auto simp: run_request_def split: option.splits)
  obtain xs where xs: "rr_log r1 = xs" "reserved_log p xs"
    using reserve_loop_log acq log unfolding acquireReservedAccountSelection_def by fastforce
  note res = reservation_slots [OF xs(2), of "[]", OF none(1)]
  show ?thesis
  proof (cases p)
    case (No_slot why)
    then have "q = Rejected (pool_refusal why) r1" using run acq by (simp add: run_request_def)
    then show ?thesis using res quiet [OF reserved_acts [OF xs(2)]] No_slot xs(1) none by simp
  next
    case (Reserved acc client i)
    define cfg1 where "cfg1 = cfg\<lparr>lc_mapped := mapped_model cfg acc\<rparr>"
    define s where "s = start_state cfg1 (first_handler rm fb n) acc client i r1"
    have c1: "lc_relay cfg1 = lc_relay cfg" "budget cfg1 = budget cfg" "retries cfg1 = retries cfg" by (simp_all add: cfg1_def budget_def retries_def)
    have s0: "round_ok cfg1 (rq_attempt s) s"
      using start_round_ok [OF acq [unfolded Reserved] log, of cfg1] by (simp add: s_def start_state_def)
    have hs: "holds s" using s0 by (simp only: round_ok_def)
    have as: "acts s = []" using reserved_acts [OF xs(2)] xs(1) by (simp add: s_def start_state_def acts_def)
    have q: "if isStream (lc_relay cfg) \<and> \<not> lc_flushes cfg
        then q = Rejected (New ''api_error'' ''Streaming not supported by underlying connection'' 500) (rq_run (release_all s))
        else (case request_loop cfg1 e up s of
             None \<Rightarrow> False
           | Some (Inl s1) \<Rightarrow> q = Crashed (release_all s1)
           | Some (Inr s1) \<Rightarrow> q = Ended (release_all (complete_request cfg1 s1))
                 (if \<not> isStream (lc_relay cfg) \<and> \<not> requestFailed (rq_h (complete_request cfg1 s1))
                  then Some (collectedAnswer (lc_relay cfg) (rq_h (complete_request cfg1 s1)) (lc_model cfg)) else None))"
      using run acq Reserved by (auto simp: run_request_def Let_def simp flip: cfg1_def s_def split: option.splits sum.splits if_splits)
    show ?thesis
    proof (cases "isStream (lc_relay cfg) \<and> \<not> lc_flushes cfg")
      case True
      then show ?thesis using q release_all_books [OF hs] quiet [of "rr_log (rq_run (release_all s))"] as by simp
    next
      case False
      then obtain z where z: "request_loop cfg1 e up s = Some z" using q by (auto split: option.splits)
      note l = loop_left [OF z s0]
      have bk: "books_ok cfg (rr_log (rq_run t))" if "acts t = xs @ ys" "left_ok cfg1 u" "acts u = xs" "list_all (\<lambda>x. x = Answered \<or> (\<exists>i n. x = Counted i n)) ys" for t u xs ys
      proof -
        have ys: "attempts (xs @ ys) = attempts xs" "charged (xs @ ys) = charged xs" "shared_slept (xs @ ys) = shared_slept xs"
          using that(4) by (induction ys) (auto simp: attempts_def charged_def shared_slept_def)
        show ?thesis using that(2,3) acting_reads [of "rr_log (rq_run t)"] ys c1 unfolding books_ok_def that(1) [unfolded acts_def] left_ok_def by metis
      qed
      show ?thesis
      proof (cases z)
        case (Inl s1)
        then have ls: "left_ok cfg1 s1" "q = Crashed (release_all s1)" using l q z False by simp_all
        note rel = release_all_books [of s1]
        have "acts (release_all s1) = acts s1" using rel(3) ls(1) by (simp add: acts_def left_ok_def)
        then show ?thesis using ls rel bk [of "release_all s1" "acts s1" "[]" s1] un [of "acts s1"] cnt [of "rr_log (rq_run (release_all s1))"]
          by (simp add: left_ok_def acts_def)
      next
        case (Inr s1)
        define t where "t = complete_request cfg1 s1"
        have ls: "left_ok cfg1 s1" using l Inr by simp
        note cb = complete_books [OF ls, folded t_def]
        obtain ys where ys: "acts t = acts s1 @ (if \<not> isStream (lc_relay cfg1) \<and> \<not> requestFailed (rq_h t) then [Answered] else []) @ ys"
          "list_all (\<lambda>x. \<exists>i n. x = Counted i n) ys" using cb(2) by blast
        have qe: "q = Ended (release_all t) (if \<not> isStream (lc_relay cfg) \<and> \<not> requestFailed (rq_h t)
            then Some (collectedAnswer (lc_relay cfg) (rq_h t) (lc_model cfg)) else None)"
          using q z Inr False by (simp add: t_def)
        note rel = release_all_books [OF cb(1)]
        have "answers ys = 0" using ys(2) by (induction ys) (auto simp: answers_def)
        then have "answers (acts t) = (if \<not> isStream (lc_relay cfg1) \<and> \<not> requestFailed (rq_h t) then 1 else 0)"
          using ys(1) un [of "acts s1"] ls by (simp add: left_ok_def answers_def)
        then have an: "answers (rr_log (rq_run (release_all t))) = (if \<not> isStream (lc_relay cfg) \<and> \<not> requestFailed (rq_h t) then 1 else 0)"
          using rel(3) cnt [of "rr_log (rq_run (release_all t))"] c1 by simp
        have "books_ok cfg (rr_log (rq_run (release_all t)))"
          by (rule bk [of _ "acts s1" "(if \<not> isStream (lc_relay cfg1) \<and> \<not> requestFailed (rq_h t) then [Answered] else []) @ ys", OF _ ls refl])
            (use rel(3) ys in \<open>auto simp: acts_def list_all_iff\<close>)
        then show ?thesis using rel cb an by (auto simp: qe c1)
      qed
    qed
  qed
qed

end
