(* ===== verification/Request_Outcome.thy ===== *)
theory Request_Outcome
  imports Request_Loop
begin

text \<open>
  What a request comes to (\<^verbatim>\<open>HandleMessages\<close> of \<^verbatim>\<open>src/internal/handler/handler.go\<close>, modelled in \<^verbatim>\<open>Request_Loop\<close>): a retry only
  follows an attempt of which the client has seen nothing; a request whose accounts come from a finite pool ends; and the
  properties of a whole run, read off its log of effects and its handler.
\<close>

section \<open>A retry follows silence\<close>

lemma sent_open_text: "sent_open h h' \<Longrightarrow> hasTextOutput h' = hasTextOutput h"
  using sent_fields(15) by (fastforce simp: sent_open_def)

lemma text_kept [simp]:
  "hasTextOutput (snd (popActiveBlockStopDataLocked h)) = hasTextOutput h" "hasTextOutput (block_opened b h) = hasTextOutput h"
  "hasTextOutput (note_text c d h) = hasTextOutput h" "hasTextOutput (note_thinking c d h) = hasTextOutput h"
  "hasTextOutput (record_signature sig h) = hasTextOutput h" "hasTextOutput (addOutputTokens d h) = hasTextOutput h"
  "hasTextOutput (snd (shouldAcceptToolCall c call h)) = hasTextOutput h" "hasTextOutput (applyUpstreamUsageTokens u h) = hasTextOutput h"
  by (cases "activeBlockType h"; simp add: popActiveBlockStopDataLocked_def)
    (simp_all add: block_opened_def note_text_def note_thinking_def record_signature_def addOutputTokens_def shouldAcceptToolCall_def
      surface_reject_def suppress_call_def applyUpstreamUsageTokens_def Let_def)

lemma close_text [simp]: "hasTextOutput (closeActiveBlockLocked c h) = hasTextOutput h"
  using sent_fields(15) [OF close_sent(1), of c h] by simp

lemma ensure_text [simp]: "b \<noteq> NoBlock \<Longrightarrow> hasTextOutput (snd (ensureBlock c b h)) = hasTextOutput h"
  using sent_open_text [OF open_block_sent, of c b] by (simp add: ensureBlock_eq Let_def)

lemma frame_text: "event_name e \<noteq> ''message_start'' \<Longrightarrow> hasTextOutput (write_frame c final e im h) = hasTextOutput h"
  using sent_open_text [OF write_frame_sent_open] by blast

lemma delta_marks: "hasTextOutput (textDelta c d h) = (hasTextOutput h \<or> d \<noteq> [])"
proof (cases "d = []")
  case False
  obtain k g where p: "text_target c (h\<lparr>hasTextOutput := True\<rparr>) = (k, g)" by fastforce
  have "hasTextOutput (snd (text_target c (h\<lparr>hasTextOutput := True\<rparr>)))"
    using ensure_text [of TextBlock c "h\<lparr>hasTextOutput := True\<rparr>"] by (simp add: text_target_def)
  then have "hasTextOutput g" by (simp add: p)
  then show ?thesis using False by (simp add: textDelta_def p writeSSEContentBlockDeltaTextLocked_def frame_text)
qed (simp add: textDelta_def)

lemma thinking_marks: "hasTextOutput (thinking_delta c sig d h) = hasTextOutput h"
proof -
  let ?h1 = "if sig \<noteq> [] then record_signature sig h else h"
  obtain k g where p: "(if activeThinkingSSEIndex h < 0 then ensureBlock c ThinkingBlock ?h1 else (activeThinkingSSEIndex h, ?h1)) = (k, g)" by fastforce
  have "hasTextOutput ?h1 = hasTextOutput h" by simp
  then have "hasTextOutput (snd (if activeThinkingSSEIndex h < 0 then ensureBlock c ThinkingBlock ?h1 else (activeThinkingSSEIndex h, ?h1))) = hasTextOutput h"
    using ensure_text [of ThinkingBlock c ?h1] by (cases "activeThinkingSSEIndex h < 0") simp_all
  then have "hasTextOutput g = hasTextOutput h" unfolding p by simp
  then show ?thesis using p by (simp add: thinking_delta_def writeSSEContentBlockDeltaThinkingLocked_def frame_text Let_def)
qed

lemma reasoning_marks: "hasTextOutput (reasoningDelta c ev h) = hasTextOutput h"
  by (simp add: reasoningDelta_def thinking_marks Let_def)

lemma tool_marks:
  assumes "toolCallEvent c ev h = Some h'"
  shows "hasTextOutput h' = hasTextOutput h"
proof -
  have 1: "hasTextOutput h1 = hasTextOutput h" if "shouldAcceptToolCall c call h = (b, h1)" for call b h1
    using text_kept(7) [of c call h] that by simp
  have 2: "hasTextOutput (emitToolUseFromInput c tid nm inp g) = hasTextOutput g" for tid nm inp g
    using sent_open_text [OF write_tool_block_sent] by (simp add: emitToolUseFromInput_def Let_def)
  show ?thesis using assms 1 2
    by (auto simp: toolCallEvent_def Let_def handleToolCallAfterChecks_def split: prod.splits option.splits if_splits bool.splits)
qed

lemma message_marks:
  assumes "inv c h" "handleMessage c msg h = Some h'" "\<not> hasReturn h'"
  shows "event_key msg \<noteq> ''model.finish''" "hasTextOutput h' = (hasTextOutput h \<or> delta_text msg \<noteq> [])"
proof -
  have nr: "\<not> hasReturn h" using assms(2,3) by (auto simp: handleMessage_def split: if_splits)
  show k: "event_key msg \<noteq> ''model.finish''"
  proof
    assume e: "event_key msg = ''model.finish''"
    have np: "HasPrefix ''model.finish'' ''model.reasoning-'' = False" by code_simp
    define h1 where "h1 = (case map_of (or_else [] (m_Event msg)) ''usage'' of Some (GMap u) \<Rightarrow> applyUpstreamUsageTokens u h | _ \<Rightarrow> h)"
    have v: "view h1 = view h" by (simp add: h1_def split: option.split gval.split)
    have "inv c (closeActiveBlockLocked c h1)"
      using close_inv [of c h1] assms(1) nr inv_view [OF v] view_fields(2) [OF v] by simp
    then have "hasReturn (modelFinish c (m_Event msg) h)" using finish_ends by (simp add: modelFinish_def Let_def flip: h1_def)
    then show False using assms(2,3) nr e np by (auto simp: handleMessage_def)
  qed
  have np: "HasPrefix ''model.text-delta'' ''model.reasoning-'' = False" by code_simp
  show "hasTextOutput h' = (hasTextOutput h \<or> delta_text msg \<noteq> [])"
    using assms(2) nr k np tool_marks
    by (auto simp: handleMessage_def delta_text_def Let_def HasPrefix_reasoning delta_marks reasoning_marks split: if_splits)
qed

text \<open>On a connection that takes every write, the text of the answer is empty until the handler has marked it.\<close>

definition text_marked :: "relay_config \<Rightarrow> streamHandler \<Rightarrow> bool" where
  "text_marked c h \<longleftrightarrow> intact c h \<and> (answer_text c h = [] \<or> hasTextOutput h)"

lemma message_marked:
  assumes "text_marked c h" "handleMessage c msg h = Some h'" "\<not> hasReturn h'"
  shows "text_marked c h'"
proof -
  have i: "intact c h" "inv c h" using assms(1) by (simp_all add: text_marked_def intact_def)
  note m = message_marks [OF i(2) assms(2,3)]
  have a: "adds c h (delta_text msg) h'" by (rule handleMessage_adds [OF i(1) m(1) assms(2)])
  then show ?thesis using m(2) assms(1) adds_intact [OF a] handleMessage_inv [OF i(2) assms(2)]
    by (auto simp: text_marked_def adds_def)
qed

lemma beat_marked: "text_marked c h \<Longrightarrow> text_marked c (writeKeepAlive c h)"
proof -
  assume t: "text_marked c h"
  then have i: "intact c h" by (simp add: text_marked_def)
  have "adds c h [] (writeKeepAlive c h)"
  proof (cases "isStream c \<and> messageStartWritten h")
    case True
    then show ?thesis using emitted_adds [OF keepalive_emitted] i by (simp add: intact_def)
  next
    case False
    then show ?thesis using adds_refl [OF i] by (auto simp: writeKeepAlive_def)
  qed
  then show ?thesis using t adds_intact keepalive_inv i sent_fields(15) [OF keepalive_sent(1), of c h]
    by (auto simp: text_marked_def adds_def intact_def)
qed

lemma beats_marked: "text_marked c h \<Longrightarrow> text_marked c ((writeKeepAlive c ^^ n) h)"
  by (induction n) (auto intro: beat_marked)

lemma returned_stays: "hasReturn h \<Longrightarrow> deliver c xs h = Inr h' \<Longrightarrow> hasReturn h'"
  by (induction c xs h rule: deliver.induct)
    (auto simp: handleMessage_def sent_return [OF keepalive_sent(1)] split: option.splits)

lemma deliver_marked: "text_marked c h \<Longrightarrow> deliver c xs h = Inr h' \<Longrightarrow> \<not> hasReturn h' \<Longrightarrow> text_marked c h'"
proof (induction c xs h rule: deliver.induct)
  case (3 c m xs h)
  then obtain g where g: "handleMessage c m h = Some g" "deliver c xs g = Inr h'" by (auto split: option.splits)
  then have "\<not> hasReturn g" using returned_stays 3(4) by blast
  then show ?case using 3 g message_marked by blast
qed (auto dest: beat_marked)

lemma reset_marked:
  assumes "text_marked c h" "\<not> hasVisibleOutput h"
  shows "text_marked c (resetRoundState c h)" "answer_text c (resetRoundState c h) = []"
proof -
  have i: "intact c h" and e: "answer_text c h = []" using assms by (auto simp: text_marked_def hasVisibleOutput_def)
  have a: "adds c h [] (closeActiveBlockLocked c h)" by (rule close_adds [OF i])
  have f: "room (w (resetRoundState c h)) = room (w (closeActiveBlockLocked c h))" "log (resetRoundState c h) = log (closeActiveBlockLocked c h)"
    "hasReturn (resetRoundState c h) = False" "responseText (resetRoundState c h) = []"
    by (simp_all add: resetRoundState_def Let_def)
  show e2: "answer_text c (resetRoundState c h) = []" using a e by (auto simp: adds_def answer_text_def f split: if_splits)
  have "inv c (resetRoundState c h)" by (rule reset_inv) (use i in \<open>simp_all add: intact_def\<close>)
  then show "text_marked c (resetRoundState c h)" using a e2 by (simp add: text_marked_def intact_def adds_def f)
qed

text \<open>The points where a round of a request begins.\<close>

inductive round_of :: "loop_config \<Rightarrow> request_env \<Rightarrow> provider \<Rightarrow> request_state \<Rightarrow> request_state \<Rightarrow> bool" for cfg e up s0 where
  first_round: "round_of cfg e up s0 s0"
| next_round: "round_of cfg e up s0 s \<Longrightarrow> attempt_step cfg e up s = Some (Again s') \<Longrightarrow> round_of cfg e up s0 s'"

lemma wait_beats: "wait_and_retry cfg e err s = Again s' \<Longrightarrow> \<exists>n. rq_h s' = (writeKeepAlive (lc_relay cfg) ^^ n) (rq_h s)"
  by (auto simp: wait_and_retry_def Let_def split: if_splits prod.splits bool.splits)

lemma judged_h [simp]: "rq_h (judged cfg e err s) = rq_h s"
  by (simp add: judged_def Let_def)

lemma failure_beats:
  assumes "handle_failure cfg e err s = Some (Again s')"
  shows "\<exists>n. rq_h s' = (writeKeepAlive (lc_relay cfg) ^^ n) (rq_h s)"
  using assms
proof (cases rule: failure_cases)
  case (switched t)
  then show ?thesis using wait_beats [of cfg e err t s'] switch_keeps(1) [OF switched(3)] by simp
next
  case stayed
  then show ?thesis using wait_beats [of cfg e err _ s'] by fastforce
qed simp_all

lemma again_from:
  assumes "attempt_step cfg e up s = Some (Again s')"
  obtains msgs h n where "\<not> hasReturn (rq_h s)" "deliver (lc_relay cfg) msgs (rq_h (start_round cfg e s)) = Inr h" "\<not> hasReturn h" "\<not> hasAnyOutput h"
    "rq_h s' = (writeKeepAlive (lc_relay cfg) ^^ n) h"
  using assms that failure_beats
  by (fastforce simp: attempt_step_def Let_def split: if_splits prod.splits sum.splits option.splits)

lemma round_silent:
  assumes "round_of cfg e up s0 s" "text_marked (lc_relay cfg) (rq_h s0)" "\<not> hasVisibleOutput (rq_h s0)"
  shows "text_marked (lc_relay cfg) (rq_h s) \<and> \<not> hasVisibleOutput (rq_h s)"
  using assms
proof (induction rule: round_of.induct)
  case (next_round s s')
  note s = next_round.IH [OF next_round.prems]
  obtain msgs h n where q: "deliver (lc_relay cfg) msgs (rq_h (start_round cfg e s)) = Inr h" "\<not> hasReturn h" "\<not> hasAnyOutput h"
    "rq_h s' = (writeKeepAlive (lc_relay cfg) ^^ n) h"
    using again_from [OF next_round.hyps(2)] by metis
  have kv: "\<not> hasVisibleOutput (writeKeepAlive (lc_relay cfg) (rq_h s))" using s keepalives_visible [where n = 1 and c = "lc_relay cfg" and h = "rq_h s"] by simp
  have "text_marked (lc_relay cfg) (rq_h (start_round cfg e s))"
    using reset_marked(1) s kv beat_marked by (simp add: start_round_def)
  from beats_marked [OF deliver_marked [OF this q(1,2)]] q(3) show ?case
    unfolding q(4) by (simp add: keepalives_visible hasAnyOutput_def)
qed simp

section \<open>A request ends\<close>

text \<open>The accounts of a pool, in the snapshot and in the store, have their ids in \<open>S\<close>.\<close>

definition pool_within :: "int set \<Rightarrow> LoadBalancer \<Rightarrow> bool" where
  "pool_within S lb \<longleftrightarrow> ID ` set (cachedAccounts lb) \<subseteq> S \<and>
     (\<forall>i row. rows (lb_Store lb) i = Some row \<longrightarrow> i \<in> S \<and> (ID row = 0 \<or> ID row \<in> S)) \<and>
     (\<forall>index ch p. cachedByChannel lb = Some index \<longrightarrow> p \<in> set (index ch) \<longrightarrow> p < length (cachedAccounts lb))"

lemma pool_withinD:
  assumes "pool_within S lb"
  shows "a \<in> set (cachedAccounts lb) \<Longrightarrow> ID a \<in> S" "rows (lb_Store lb) i = Some row \<Longrightarrow> i \<in> S"
    "rows (lb_Store lb) i = Some row \<Longrightarrow> ID row = 0 \<or> ID row \<in> S"
    "cachedByChannel lb = Some index \<Longrightarrow> p \<in> set (index ch) \<Longrightarrow> p < length (cachedAccounts lb)"
  using assms unfolding pool_within_def by blast+

lemma pool_pointers_within: "pool_within S lb \<Longrightarrow> p \<in> set (pool_pointers chan lb) \<Longrightarrow> p < length (cachedAccounts lb)"
  using pool_withinD(4) by (auto simp: pool_pointers_def split: option.splits if_splits)

definition rows_within :: "int set \<Rightarrow> redisStore \<Rightarrow> bool" where
  "rows_within S s \<longleftrightarrow> (\<forall>i row. rows s i = Some row \<longrightarrow> i \<in> S \<and> (ID row = 0 \<or> ID row \<in> S))"

lemma pool_rows: "pool_within S lb \<Longrightarrow> rows_within S (lb_Store lb)"
  by (simp add: pool_within_def rows_within_def)

lemma pool_store: "pool_within S lb \<Longrightarrow> rows_within S s \<Longrightarrow> pool_within S (lb\<lparr>lb_Store := s\<rparr>)"
  by (simp add: pool_within_def rows_within_def)

lemma pool_conns [simp]: "pool_within S (lb\<lparr>connTracker := t\<rparr>) = pool_within S lb" "pool_within S (lb\<lparr>lastSelected := m\<rparr>) = pool_within S lb"
  "pool_within S (lb\<lparr>scanCursor := k\<rparr>) = pool_within S lb"
  by (simp_all add: pool_within_def)

lemma pool_put:
  assumes "pool_within S lb" "p < length (cachedAccounts lb) \<Longrightarrow> ID a \<in> S"
  shows "pool_within S (lb\<lparr>cachedAccounts := (cachedAccounts lb)[p := a]\<rparr>)"
proof -
  have "ID ` set ((cachedAccounts lb)[p := a]) \<subseteq> S"
    using assms set_update_subset_insert [of "cachedAccounts lb" p a] by (cases "p < length (cachedAccounts lb)") (auto simp: pool_within_def list_update_beyond)
  then show ?thesis using assms(1) by (simp add: pool_within_def)
qed

lemma atomic_within:
  assumes "rows_within S s" "\<And>a b r. mutate a = Inr (b, r) \<Longrightarrow> ID b = ID a"
  shows "rows_within S (snd (updateAccountAtomic c now origin i mutate [] s))"
proof (cases "i = 0")
  case True
  then show ?thesis using assms(1) by (simp add: updateAccountAtomic_def)
next
  case False
  obtain res s' where u: "updateAccountAtomic c now origin i mutate [] s = (res, s')" by fastforce
  from single_update [OF False u] show ?thesis
  proof
    assume "s' = s \<and> (\<forall>r. res \<noteq> Committed r)"
    then show ?thesis using assms(1) u by simp
  next
    assume "\<exists>val previous mutated r. rows s i = Some val \<and> unmarshalAccount c val i = Inr previous \<and> mutate previous = Inr (mutated, r) \<and>
      res = Committed r \<and> s' = publishChange origin (Some previous) i (pipeAccountMembership i (Enabled mutated)
        (s\<lparr>rows := (rows s)(i \<mapsto> marshalAccount c (bump now previous mutated))\<rparr>))"
    then obtain val previous mutated r where v: "rows s i = Some val" "unmarshalAccount c val i = Inr previous" "mutate previous = Inr (mutated, r)"
      "s' = publishChange origin (Some previous) i (pipeAccountMembership i (Enabled mutated)
        (s\<lparr>rows := (rows s)(i \<mapsto> marshalAccount c (bump now previous mutated))\<rparr>))" by blast
    have "ID mutated = (if ID val = 0 then i else ID val)" using assms(2) [OF v(3)] unmarshal_sel(2) [OF v(2)] by simp
    then have "i \<in> S \<and> ID mutated \<in> S" using assms(1) v(1) False by (auto simp: rows_within_def)
    moreover have "rows s' = (rows s)(i \<mapsto> marshalAccount c (bump now previous mutated))" by (simp add: v(4))
    ultimately show ?thesis using assms(1) u by (auto simp: rows_within_def bump_def)
  qed
qed

lemma merge_id: "ID (merge_account now acc stored) = ID stored"
  using merge_account_owned [of now acc stored] by (simp add: owned_elsewhere_def)

lemma persist_within: "pool_within S lb \<Longrightarrow> pool_within S (persistAccountStatus c now acc lb)"
proof -
  assume p: "pool_within S lb"
  have "rows_within S (snd (UpdateAccount c now [] acc [] (lb_Store lb)))"
    using pool_rows [OF p] atomic_within [OF pool_rows [OF p], of "\<lambda>stored. Inr (merge_account now acc stored, ())"]
    by (simp add: UpdateAccount_def merge_id)
  then show ?thesis using pool_store [OF p] by (simp add: persistAccountStatus_def)
qed

lemma cached_within:
  assumes "pool_within S lb" "\<And>a. ID a = i \<Longrightarrow> ID (f a) = i"
  shows "pool_within S (update_cached i f lb)"
proof (cases "cachedAccountLocked i lb")
  case None
  then show ?thesis using assms(1) by (simp add: update_cached_def)
next
  case (Some p)
  then have p: "p < length (cachedAccounts lb)" "ID (cachedAccounts lb ! p) = i"
    by (auto simp: cachedAccountLocked_def find_Some_iff)
  then have "i \<in> S" using pool_withinD(1) [OF assms(1)] nth_mem by blast
  then show ?thesis using pool_put [OF assms(1)] assms(2) [OF p(2)] by (simp add: update_cached_def Some)
qed

lemma clear_within:
  assumes "pool_within S lb" "p < length (cachedAccounts lb)"
  shows "pool_within S (clearAccountStatus c now p lb)"
proof -
  have "ID (cachedAccounts lb ! p) \<in> S" using pool_withinD(1) [OF assms(1)] assms(2) by simp
  then show ?thesis unfolding clearAccountStatus_def Let_def
    by (intro persist_within cached_within pool_put [OF assms(1)]) simp_all
qed

lemma gate_within: "pool_within S lb \<Longrightarrow> paid_probe_gate c now acc lb = (b, lb') \<Longrightarrow> pool_within S lb'"
proof -
  assume a: "pool_within S lb" "paid_probe_gate c now acc lb = (b, lb')"
  have "ID y = ID x" if "claim_probe t x = Inr (y, r)" for t x y r using that by (auto simp: claim_probe_def Let_def split: if_splits)
  then have "rows_within S (snd (ClaimGrokPaidQuotaProbe c now [] i now [] (lb_Store lb)))" for i
    using pool_rows [OF a(1)] atomic_within [OF pool_rows [OF a(1)], of "claim_probe t" c now "[]" i for t]
    by (simp add: ClaimGrokPaidQuotaProbe_def Let_def split_beta)
  then have "ClaimGrokPaidQuotaProbe c now [] i now [] (lb_Store lb) = (x, s) \<Longrightarrow> pool_within S (lb\<lparr>lb_Store := s\<rparr>)" for i x s
    using pool_store [OF a(1)] by (metis snd_conv)
  then show ?thesis using a by (auto simp: paid_probe_gate_def Let_def split: if_splits prod.splits)
qed

lemma available_within:
  assumes "pool_within S lb" "p < length (cachedAccounts lb)" "isAccountAvailable c now p lb = (b, lb')"
  shows "pool_within S lb' \<and> length (cachedAccounts lb') = length (cachedAccounts lb)"
proof -
  obtain ok lb1 where g: "paid_probe_gate c now (cachedAccounts lb ! p) lb = (ok, lb1)" by fastforce
  have g1: "pool_within S lb1" "cachedAccounts lb1 = cachedAccounts lb" using gate_within [OF assms(1) g] gate_resets [OF g] by simp_all
  have "length (cachedAccounts lb') = length (cachedAccounts lb)"
    using available_sound(1) [OF assms(3)] accounts_reset_length by blast
  moreover have "pool_within S lb'"
    using assms g g1 clear_within [OF g1(1), of p c now] by (auto simp: isAccountAvailable_def Let_def split: if_splits status_decision.splits)
  ultimately show ?thesis by simp
qed

lemma scan_within:
  assumes "pool_within S lb" "\<forall>p \<in> set ptrs. p < length (cachedAccounts lb)"
  shows "pool_within S (sc_lb (scan c now ex chan flt ptrs lb)) \<and> length (cachedAccounts (sc_lb (scan c now ex chan flt ptrs lb))) = length (cachedAccounts lb) \<and>
    set (sc_filtered (scan c now ex chan flt ptrs lb)) \<subseteq> set ptrs"
proof -
  define P where "P st \<longleftrightarrow> pool_within S (sc_lb st) \<and> length (cachedAccounts (sc_lb st)) = length (cachedAccounts lb) \<and> set (sc_filtered st) \<subseteq> set ptrs" for st :: scan_state
  have one: "P (scan_one c now ex chan flt p st)" if "P st" "p \<in> set ptrs" for p st
  proof -
    obtain b lb' where a: "isAccountAvailable c now p (sc_lb st) = (b, lb')" by fastforce
    have "p < length (cachedAccounts (sc_lb st))" using that assms(2) by (simp add: P_def)
    then have "pool_within S lb' \<and> length (cachedAccounts lb') = length (cachedAccounts lb)"
      using available_within [OF _ _ a, of S] that(1) by (simp add: P_def)
    then show ?thesis using that unfolding P_def scan_one_def Let_def by (auto simp: a split: option.split)
  qed
  have "P (fold (scan_one c now ex chan flt) qs st)" if "P st" "set qs \<subseteq> set ptrs" for qs st
    using that by (induction qs arbitrary: st) (auto simp: one)
  moreover have "P (scan_start lb)" using assms(1) by (simp add: P_def scan_start_def)
  ultimately show ?thesis by (simp add: P_def scan_def)
qed

lemma rotate_within: "pool_within S lb \<Longrightarrow> rotateScanCursor n lb = (k, lb1) \<Longrightarrow> pool_within S lb1"
  unfolding rotateScanCursor_def Let_def by (cases "n \<le> 0") auto

lemma scan_pool_within:
  assumes "pool_within S lb" "\<forall>p \<in> set ptrs. p < length (cachedAccounts lb)"
  shows "pool_within S (sc_lb (scan_pool c now ex chan flt ptrs lb)) \<and>
    (\<forall>p \<in> set (sc_filtered (scan_pool c now ex chan flt ptrs lb)). p < length (cachedAccounts (sc_lb (scan_pool c now ex chan flt ptrs lb))))"
proof (cases "length ptrs > accountScanWindow")
  case False
  then show ?thesis using scan_within [OF assms, of c now ex chan flt] assms(2) by (auto simp: scan_pool_def)
next
  case True
  obtain start lb1 where rot: "rotateScanCursor (int (length ptrs)) lb = (start, lb1)" by fastforce
  let ?v = "scan_window ptrs start accountScanWindow"
  have w: "set ?v \<subseteq> set ptrs" using True by (intro window_subset) simp
  have 1: "pool_within S lb1" "\<forall>p \<in> set ptrs. p < length (cachedAccounts lb1)" using rotate_within [OF assms(1) rot] rotate_lb [OF rot] assms(2) by auto
  note s1 = scan_within [OF 1(1), of ?v c now ex chan flt]
  let ?st = "scan c now ex chan flt ?v lb1"
  have s1: "pool_within S (sc_lb ?st)" "length (cachedAccounts (sc_lb ?st)) = length (cachedAccounts lb1)" "set (sc_filtered ?st) \<subseteq> set ptrs"
    using s1 w 1(2) by blast+
  note s2 = scan_within [OF s1(1), of ptrs c now ex chan flt]
  show ?thesis using True s1 s2 1(2) by (auto simp: scan_pool_def rot Let_def)
qed

lemma windows_within:
  "pool_within S lb \<Longrightarrow> select_windows r now t ptrs start offset lb = (q, lb') \<Longrightarrow> pool_within S lb'"
proof (induction r now t ptrs start offset lb rule: select_windows.induct)
  case (1 r now t ptrs start offset lb)
  have one: "pool_within S lb1" if "select_window r now t xs lb = (x, lb1)" for xs x lb1
    using that 1(2) by (auto simp: select_window_def Let_def split: prod.splits if_splits)
  show ?case using 1 one by (auto simp: select_windows.simps [of r now t ptrs start offset lb] Let_def split: if_splits prod.splits option.splits)
qed

lemma choose_within:
  assumes "pool_within S lb" "selectAccountWithTracker r now ptrs tracker lb = (q, lb')"
  shows "pool_within S lb'"
proof -
  have "pool_within S l2" if "rotateScanCursor n lb = (k, l1)" "select_windows r now t ptrs k 0 l1 = (q, l2)" for n k t l1 l2 q
    using windows_within rotate_within [OF assms(1)] that by blast
  then show ?thesis using assms by (auto simp: selectAccountWithTracker_def select_window_def Let_def split: if_splits prod.splits)
qed

lemma enabled_within:
  assumes "pool_within S lb" "getEnabledAccounts c now lb = Inr lb'"
  shows "pool_within S lb'"
proof (cases "cachedAccountsBefore now lb")
  case True
  then show ?thesis using assms by (simp add: getEnabledAccounts_def)
next
  case False
  then obtain accs where a: "GetEnabledAccounts c (lb_Store lb) = Inr accs"
    "lb' = lb\<lparr>cachedAccounts := accs, cachedByChannel := Some (channel_index accs), cacheExpires := now + cacheTTL lb\<rparr>"
    using assms(2) by (auto simp: getEnabledAccounts_def split: sum.splits)
  have dec: "decode_rows c s b is = Inr xs \<Longrightarrow> rows_within S s \<Longrightarrow> ID ` set xs \<subseteq> S" for s b "is" xs
  proof (induction "is" arbitrary: xs)
    case (Cons i "is")
    have "ID acc \<in> S" if "rows s i = Some row" "unmarshalAccount c row i = Inr acc" for row acc
      using unmarshal_sel(2) [OF that(2)] Cons.prems(2) that(1) by (auto simp: rows_within_def)
    then show ?case using Cons by (auto simp: image_subset_iff split: option.splits sum.splits if_splits)
  qed simp
  have "ID ` set accs \<subseteq> S" using dec a(1) pool_rows [OF assms(1)] by (simp add: GetEnabledAccounts_def getAccountsByIDs_def)
  then show ?thesis using assms(1) by (auto simp: a(2) pool_within_def channel_index_def Let_def)
qed

lemma next_account_within:
  assumes "pool_within S lb" "GetNextAccountExcludingByChannelWithTrackerFilter c r now ex chan tracker flt lb = (q, lb')"
  shows "pool_within S lb' \<and> (\<forall>acc. q = Inr acc \<longrightarrow> ID acc \<in> S)"
proof (cases "getEnabledAccounts c now lb")
  case (Inl err)
  then show ?thesis using assms by (auto simp: GetNextAccountExcludingByChannelWithTrackerFilter_def)
next
  case (Inr lb1)
  have w1: "pool_within S lb1" using enabled_within [OF assms(1) Inr] .
  define st where "st = scan_pool c now ex chan flt (pool_pointers chan lb1) lb1"
  have rng: "\<forall>p \<in> set (pool_pointers chan lb1). p < length (cachedAccounts lb1)" using pool_pointers_within [OF w1] by blast
  have w2: "pool_within S (sc_lb st)" "\<forall>p \<in> set (sc_filtered st). p < length (cachedAccounts (sc_lb st))"
    using scan_pool_within [OF w1 rng, of c now ex chan flt] by (simp_all flip: st_def)
  obtain p lb2 where s: "selectAccountWithTracker r now (sc_filtered st) tracker (sc_lb st) = (p, lb2)" by fastforce
  have w3: "pool_within S lb2" using choose_within [OF w2(1) s] .
  have "ID (cachedAccounts lb2 ! k) \<in> S" if "p = Some k" for k
  proof -
    have "k \<in> set (sc_filtered st)" "cachedAccounts lb2 = cachedAccounts (sc_lb st)" using select_sound s that by blast+
    then show ?thesis using w2(2) pool_withinD(1) [OF w3] by simp
  qed
  then show ?thesis using assms(2) Inr w2(1) w3 s
    by (auto simp: GetNextAccountExcludingByChannelWithTrackerFilter_def Let_def simp flip: st_def split: if_splits option.splits)
qed

text \<open>The steps of a request keep its world within \<open>S\<close> when those of the others do.\<close>

definition run_within :: "int set \<Rightarrow> request_run \<Rightarrow> bool" where
  "run_within S r \<longleftrightarrow> pool_within S (gw_lb (rr_world r))"

definition others_within :: "int set \<Rightarrow> request_env \<Rightarrow> bool" where
  "others_within S e \<longleftrightarrow> (\<forall>k x. pool_within S (gw_lb x) \<longrightarrow> pool_within S (gw_lb (e_others e k x)))"

lemma run_within_steps:
  "others_within S e \<Longrightarrow> run_within S r \<Longrightarrow> run_within S (others_act e r)"
  "run_within S (logged_effect x r) = run_within S r"
  "run_within S (releaseTrackedAccount i r) = run_within S r" "run_within S (releaseClient i r) = run_within S r"
  "run_within S (takeClient i r) = run_within S r"
  by (auto simp: run_within_def others_within_def others_act_def logged_effect_def releaseTrackedAccount_def releaseClient_def takeClient_def Let_def
      split: option.splits)

lemma try_within: "tryAcquireTrackedAccount acc r = (q, r') \<Longrightarrow> run_within S r' = run_within S r"
  by (auto simp: tryAcquireTrackedAccount_def run_within_def logged_effect_def Let_def split: option.splits if_splits prod.splits)

lemma selection_within:
  assumes "run_within S r" "acquireAccountSelection e ch required ex model r = (q, r')"
  shows "run_within S r' \<and> (\<forall>a c. q = Inr (Some a, c) \<longrightarrow> ID a \<in> S)"
proof -
  obtain x r1 where s: "selectAccountRecordWithOptions e ex ch model r = (x, r1)" by fastforce
  have "run_within S r1 \<and> (\<forall>a. x = Inr a \<longrightarrow> ID a \<in> S)"
    using s next_account_within assms(1)
    by (fastforce simp: selectAccountRecordWithOptions_def run_within_def Let_def split: prod.splits)
  then show ?thesis using assms(2) s by (auto simp: acquireAccountSelection_def run_within_steps split: sum.splits if_splits)
qed

lemma reserve_step_within:
  assumes "others_within S e" "run_within S r" "reserve_step e ch required failed model full k r = (q, r')"
  shows "run_within S r'"
proof -
  obtain x r1 where s: "acquireAccountSelection e ch required (failed @ full) model (others_act e r) = (x, r1)" by fastforce
  have r1: "run_within S r1" using selection_within [OF run_within_steps(1) [OF assms(1,2)] s] by blast
  have t: "run_within S r2" if "tryAcquireTrackedAccount acc (others_act e r1) = (y, r2)" for acc y r2
    using try_within [OF that] run_within_steps(1) [OF assms(1) r1] by simp
  show ?thesis using assms s r1 t run_within_steps(1) [OF assms(1)]
    by (auto simp: reserve_step_def run_within_steps Let_def split: sum.splits prod.splits bool.splits option.splits if_splits)
qed

lemma reserve_loop_last:
  "reserve_loop e ch required failed model full k s = Some y \<Longrightarrow> reserve_path e ch required failed model r full k s \<Longrightarrow>
   \<exists>full' k' t. reserve_path e ch required failed model r full' k' t \<and> reserve_step e ch required failed model full' k' t = (Inl (fst y), snd y)"
proof (erule reserve_loop.raw_induct [where P = "\<lambda>e ch required failed model full k s y. reserve_path e ch required failed model r full k s \<longrightarrow>
   (\<exists>full' k' t. reserve_path e ch required failed model r full' k' t \<and> reserve_step e ch required failed model full' k' t = (Inl (fst y), snd y))",
   THEN mp, rotated])
  fix f :: "request_env \<Rightarrow> string \<Rightarrow> bool \<Rightarrow> int list \<Rightarrow> string \<Rightarrow> int list \<Rightarrow> nat \<Rightarrow> request_run \<Rightarrow> (reservation \<times> request_run) option"
    and e ch required failed model full k s y
  assume IH: "\<And>e ch required failed model full k s y. f e ch required failed model full k s = Some y \<Longrightarrow> reserve_path e ch required failed model r full k s \<longrightarrow>
      (\<exists>full' k' t. reserve_path e ch required failed model r full' k' t \<and> reserve_step e ch required failed model full' k' t = (Inl (fst y), snd y))"
    and run: "(case reserve_step e ch required failed model full k s of (Inl q, s1) \<Rightarrow> Some (q, s1)
      | (Inr (full1, k1), s1) \<Rightarrow> f e ch required failed model full1 k1 s1) = Some y"
  show "reserve_path e ch required failed model r full k s \<longrightarrow>
      (\<exists>full' k' t. reserve_path e ch required failed model r full' k' t \<and> reserve_step e ch required failed model full' k' t = (Inl (fst y), snd y))"
  proof
    assume p: "reserve_path e ch required failed model r full k s"
    obtain q s1 where q: "reserve_step e ch required failed model full k s = (q, s1)" by fastforce
    show "\<exists>full' k' t. reserve_path e ch required failed model r full' k' t \<and> reserve_step e ch required failed model full' k' t = (Inl (fst y), snd y)"
    proof (cases q)
      case (Inl x)
      then have "y = (x, s1)" using run q by simp
      then show ?thesis using p q Inl by auto
    next
      case (Inr z)
      then obtain full1 k1 where z: "q = Inr (full1, k1)" by (cases z) auto
      have "f e ch required failed model full1 k1 s1 = Some y" using run q z by simp
      from IH [OF this] path_step [OF p q [unfolded z]] show ?thesis by blast
    qed
  qed
qed

lemma reservation_within:
  assumes e: "finite S" "others_within S e" and r: "run_within S r"
  shows "\<exists>q r'. acquireReservedAccountSelection e ch required failed model r = Some (q, r') \<and> run_within S r'"
proof -
  have path: "reserve_path e ch required failed model r full k t \<Longrightarrow> run_within S t" for full k t
    by (induction rule: reserve_path.induct) (use r reserve_step_within [OF e(2)] in auto)
  obtain q r' where q: "acquireReservedAccountSelection e ch required failed model r = Some (q, r')"
    using reservation_ends [of S e ch required failed model r] e(1) path selection_within [OF run_within_steps(1) [OF e(2)]] by blast
  obtain full k t where "reserve_path e ch required failed model r full k t" "reserve_step e ch required failed model full k t = (Inl q, r')"
    using reserve_loop_last [OF q [unfolded acquireReservedAccountSelection_def] path_start] by auto
  then have "run_within S r'" using reserve_step_within [OF e(2) path] by blast
  then show ?thesis using q by blast
qed

lemma on_lb_within: "run_within S (on_lb f r) = pool_within S (f (gw_lb (rr_world r)))"
  by (simp add: run_within_def on_lb_def)

lemma on_lb_logged [simp]: "run_within S (logged_effect x (on_lb f r)) = run_within S (on_lb f r)"
  by (simp add: run_within_def logged_effect_def)

lemma write_within: "run_within S (rq_run s) \<Longrightarrow> run_within S (rq_run (write_account cfg a s))"
  unfolding write_account_def Let_def by (auto simp: on_lb_within run_within_def [symmetric]) (auto simp: run_within_def intro!: cached_within)

lemma mark_within:
  assumes "run_within S (rq_run s)"
  shows "run_within S (rq_run (mark_failure cfg e v s))"
proof -
  have p: "run_within S (on_lb (persistAccountStatus c now acc) r)" "run_within S (on_lb (PersistAppliedAccountStatus c now acc) r)"
    if "run_within S r" for r c now acc
  proof -
    have a: "pool_within S (gw_lb (rr_world r))" using that by (simp add: run_within_def)
    show "run_within S (on_lb (persistAccountStatus c now acc) r)" unfolding on_lb_within by (rule persist_within [OF a])
    show "run_within S (on_lb (PersistAppliedAccountStatus c now acc) r)"
      unfolding on_lb_within PersistAppliedAccountStatus_def Let_def by (intro persist_within cached_within a) simp_all
  qed
  show ?thesis using assms by (auto simp: mark_failure_def Let_def run_within_steps intro!: p write_within split: option.split)
qed

lemma switch_within:
  assumes e: "finite S" "others_within S e" and r: "run_within S (rq_run s)"
  shows "\<exists>q. switch_account cfg e err s = Some q \<and> (\<forall>s'. q = Inr s' \<longrightarrow> run_within S (rq_run s'))"
proof (cases "rq_account s")
  case None
  then show ?thesis using r by (simp add: switch_account_def)
next
  case (Some acc)
  define failed where "failed = (if ID acc \<in> set (rq_failed s) then rq_failed s else rq_failed s @ [ID acc])"
  have "run_within S (releaseTrackedAccount (rq_tracked s) (rq_run s))" using r by (simp add: run_within_steps)
  from reservation_within [OF e this] obtain q r' where q: "acquireReservedAccountSelection e (lc_channel cfg) (lc_forced cfg) failed (lc_mapped cfg)
      (releaseTrackedAccount (rq_tracked s) (rq_run s)) = Some (q, r')" "run_within S r'" by blast
  have t: "run_within S r2" if "tryAcquireTrackedAccount a (others_act e r') = (y, r2)" for a y r2
    using try_within [OF that] run_within_steps(1) [OF e(2) q(2)] by simp
  obtain i ok r2 where y: "tryAcquireTrackedAccount (Some acc) (others_act e r') = ((i, ok), r2)" by (metis prod.collapse)
  show ?thesis using q t [OF y] y Some
    by (cases q; cases ok) (simp_all add: switch_account_def Let_def run_within_steps flip: failed_def)
qed

lemma wait_within:
  assumes "others_within S e" "run_within S (rq_run s)" "wait_and_retry cfg e err s = Again s'"
  shows "run_within S (rq_run s')"
  using assms try_within run_within_steps(1) [OF assms(1)]
  by (auto simp: wait_and_retry_def Let_def run_within_steps split: if_splits prod.splits bool.splits)

lemma failure_within:
  assumes e: "finite S" "others_within S e" and t: "run_within S (rq_run t)"
  shows "\<exists>q. handle_failure cfg e err t = Some q \<and> (\<forall>s'. q = Again s' \<longrightarrow> run_within S (rq_run s'))"
proof -
  let ?j = "judged cfg e err t" and ?k = "(judged cfg e err t)\<lparr>rq_left := rq_left (judged cfg e err t) - 1\<rparr>"
  have j: "run_within S (rq_run ?j)" using t run_within_steps(1) [OF e(2)] mark_within by (simp add: judged_def Let_def)
  then have k: "run_within S (rq_run ?k)" by simp
  from switch_within [OF e k] obtain z where z: "switch_account cfg e err ?k = Some z" "\<And>u. z = Inr u \<Longrightarrow> run_within S (rq_run u)" by blast
  have "\<exists>q. handle_failure cfg e err t = Some q" using z(1)
    by (cases z) (simp_all add: handle_failure_def judged_def Let_def)
  then obtain q where q: "handle_failure cfg e err t = Some q" by blast
  from q have "\<forall>s'. q = Again s' \<longrightarrow> run_within S (rq_run s')"
  proof (cases rule: failure_cases)
    case (switched u)
    then have "run_within S (rq_run u)" using z by simp
    then show ?thesis using switched(1) wait_within [OF e(2)] by metis
  next
    case stayed
    then show ?thesis using wait_within [OF e(2) k] by metis
  qed auto
  then show ?thesis using q by blast
qed

lemma attempt_within:
  assumes e: "finite S" "others_within S e" and r: "run_within S (rq_run s)"
  shows "\<exists>q. attempt_step cfg e up s = Some q \<and> (\<forall>s'. q = Again s' \<longrightarrow> run_within S (rq_run s'))"
proof -
  define s1 where "s1 = start_round cfg e s"
  obtain msgs er where up: "up (rq_attempt s + 1) (rq_account s) = (msgs, er)" by fastforce
  have "run_within S (rq_run s1)" using r run_within_steps(1) [OF e(2)] by (simp add: s1_def start_round_def run_within_steps)
  then have f: "\<exists>q. handle_failure cfg e err (s1\<lparr>rq_h := h\<rparr>) = Some q \<and> (\<forall>s'. q = Again s' \<longrightarrow> run_within S (rq_run s'))" for h err
    using failure_within [OF e, of "s1\<lparr>rq_h := h\<rparr>"] by simp
  show ?thesis
    unfolding attempt_step_def Let_def up s1_def [symmetric] prod.case
    using f by (auto split: sum.split option.split)
qed

lemma loop_ends:
  assumes e: "finite S" "others_within S e"
  shows "run_within S (rq_run s) \<Longrightarrow> \<exists>q. request_loop cfg e up s = Some q"
proof (induction "nat (rq_left s)" arbitrary: s rule: less_induct)
  case less
  from attempt_within [OF e less.prems] obtain q where q: "attempt_step cfg e up s = Some q"
    "\<And>s'. q = Again s' \<Longrightarrow> run_within S (rq_run s')" by blast
  show ?case
  proof (cases q)
    case (Again s')
    then have "nat (rq_left s') < nat (rq_left s)" using attempt_left q(1) by fastforce
    from less.hyps [OF this q(2) [OF Again]] show ?thesis using q(1) Again by (simp add: request_loop.simps [of cfg e up s])
  qed (simp_all add: q(1) request_loop.simps [of cfg e up s])
qed

text \<open>The whole request.\<close>

lemma run_ends:
  assumes e: "finite S" "others_within S e" and r: "run_within S r"
  shows "\<exists>q. run_request cfg e up h r = Some q"
proof -
  from reservation_within [OF e r] obtain p r1 where p: "acquireReservedAccountSelection e (lc_channel cfg) (lc_forced cfg) []
      (TrimSpace (lc_model cfg)) r = Some (p, r1)" "run_within S r1" by blast
  show ?thesis
  proof (cases p)
    case (No_slot why)
    then show ?thesis using p by (simp add: run_request_def)
  next
    case (Reserved acc client i)
    let ?cfg = "cfg\<lparr>lc_mapped := mapped_model cfg acc\<rparr>"
    have "run_within S (rq_run (start_state ?cfg h acc client i r1))" using p(2) by (simp add: start_state_def)
    from loop_ends [OF e this] obtain z where "request_loop ?cfg e up (start_state ?cfg h acc client i r1) = Some z" by blast
    then show ?thesis using p Reserved by (cases z) (simp_all add: run_request_def Let_def)
  qed
qed

section \<open>Properties of a request\<close>

text \<open>A request of two attempts on a pool of one account: the first fails on the network before the client saw anything.\<close>

definition demo_account :: Account where
  "demo_account = zero_account\<lparr>ID := 1, AccountType := ''qoder'', Enabled := True, MaxConcurrent := 1\<rparr>"

definition demo_config :: loop_config where
  "demo_config = \<lparr>lc_relay = example_collect, lc_MaxRetries = 1, lc_RetryDelay = 0, lc_SharedRefusalWaitBudgetMs = 0,
     lc_QoderQueueRetryIntervalMs = 0, lc_channel = ''qoder'', lc_forced = True, lc_model = [], lc_mapped = [], lc_flushes = True,
     lc_aliased = (\<lambda>_. True), lc_beats = (\<lambda>_. 0), lc_beat_first = (\<lambda>_. False)\<rparr>"

definition demo_env :: request_env where
  "demo_env = \<lparr>e_cipher = None, e_others = (\<lambda>k x. x), e_now = (\<lambda>_. 50), e_random = (\<lambda>_. 0), e_cancelled = (\<lambda>_. False),
     e_default_client = False\<rparr>"

definition demo_provider :: provider where
  "demo_provider k acc = (if k = 1 then ([], Some \<lparr>err_text = ''EOF'', err_retry_after = None\<rparr>)
     else ([Arrived (example_delta ''hello'')], None))"

definition demo_run :: request_run where
  "demo_run = \<lparr>rr_world = \<lparr>gw_lb = sample_lb\<lparr>lb_Store := empty_store, cachedAccounts := [demo_account], connTracker := Map.empty\<rparr>,
       gw_tracker = Some Map.empty, gw_models = example_models\<rparr>, rr_tick = 0, rr_log = []\<rparr>"

lemma demo_within: "others_within {1} demo_env" "run_within {1} demo_run" "rr_log demo_run = []"
  by (simp_all add: others_within_def demo_env_def run_within_def pool_within_def demo_run_def demo_account_def sample_lb_def empty_store_def)

lemma demo_ends: "\<exists>q. run_request demo_config demo_env demo_provider (first_handler None [] 3) demo_run = Some q"
  by (rule run_ends [OF _ demo_within(1,2)]) simp

text \<open>Property C9: a request ends. When the accounts of the pool have their ids in a finite set, and the other requests keep it
  so, a request comes to an answer, a refusal or a panic, whatever they do between its steps, whatever the provider sends, and
  whenever the client goes: the reservations end, and every further attempt uses up a retry.\<close>

theorem request_ends:
  assumes "finite S" "pool_within S (gw_lb (rr_world r))"
    "\<And>k x. pool_within S (gw_lb x) \<Longrightarrow> pool_within S (gw_lb (e_others e k x))"
  shows "\<exists>q. run_request cfg e up h r = Some q"
  by (rule run_ends [OF assms(1)]) (use assms in \<open>simp_all add: others_within_def run_within_def\<close>)

theorem request_ends_witness:
  "\<exists>q. run_request demo_config demo_env demo_provider (first_handler (Some 3) [] 0) demo_run = Some q"
proof (rule request_ends [of "{1}"])
  show "pool_within {1} (gw_lb (rr_world demo_run))" using demo_within(2) by (simp add: run_within_def)
  show "pool_within {1} (gw_lb (e_others demo_env k x))" if "pool_within {1} (gw_lb x)" for k x
    using that by (simp add: demo_env_def)
qed simp

text \<open>The attempts of a request are numbered from one without a gap, and there is at most one more than the
  configured retries, a negative number counting as none.\<close>

theorem attempts_bounded:
  assumes "run_request cfg e up (first_handler rm fb n) r = Some q" "rr_log r = []"
  shows "\<exists>k. attempts (rr_log (end_run q)) = [1..<k + 1] \<and> int k \<le> max 0 (lc_MaxRetries cfg) + 1"
proof -
  have "retries cfg = max 0 (lc_MaxRetries cfg)" by (simp add: retries_def max_def)
  then show ?thesis using run_request_cases [OF assms] by (simp add: books_ok_def)
qed

theorem attempts_bounded_witness:
  "\<exists>q k. run_request demo_config demo_env demo_provider (first_handler None [] 3) demo_run = Some q \<and>
     attempts (rr_log (end_run q)) = [1..<k + 1] \<and> int k \<le> 2"
proof -
  obtain q where q: "run_request demo_config demo_env demo_provider (first_handler None [] 3) demo_run = Some q" using demo_ends by blast
  then show ?thesis using attempts_bounded [OF q demo_within(3)] by (simp add: demo_config_def)
qed

text \<open>Property C14: a request charges its waits on refusals that other accounts would share to one budget, however many there
  are and on however many accounts, and sleeps at most a fifth more than it charged.\<close>

theorem shared_waits_within_budget:
  assumes "run_request cfg e up (first_handler rm fb n) r = Some q" "rr_log r = []"
  shows "charged (rr_log (end_run q)) \<le> SharedRefusalWaitBudget (lc_SharedRefusalWaitBudgetMs cfg) \<and>
    5 * shared_slept (rr_log (end_run q)) \<le> 6 * SharedRefusalWaitBudget (lc_SharedRefusalWaitBudgetMs cfg)"
  using run_request_cases [OF assms] by (auto simp: books_ok_def budget_def)

theorem shared_waits_within_budget_witness:
  "\<exists>q. run_request demo_config demo_env demo_provider (first_handler None [] 3) demo_run = Some q \<and>
     charged (rr_log (end_run q)) \<le> SharedRefusalWaitBudget 0"
proof -
  obtain q where q: "run_request demo_config demo_env demo_provider (first_handler None [] 3) demo_run = Some q" using demo_ends by blast
  then show ?thesis using shared_waits_within_budget [OF q demo_within(3)] by (simp add: demo_config_def)
qed

text \<open>Property C4: a request gives back what it takes. Refused, answered or panicked, at its end it holds no slot of an
  account and no provider client, and it never held two slots or freed one it did not hold.\<close>

theorem request_returns_what_it_took:
  assumes "run_request cfg e up (first_handler rm fb n) r = Some q" "rr_log r = []"
  shows "slots (rr_log (end_run q)) = Some None \<and> clients (rr_log (end_run q)) = (\<lambda>_. 0)"
  using run_request_cases [OF assms] by blast

theorem request_returns_what_it_took_witness:
  "\<exists>q. run_request demo_config demo_env demo_provider (first_handler None [] 3) demo_run = Some q \<and>
     slots (rr_log (end_run q)) = Some None"
proof -
  obtain q where q: "run_request demo_config demo_env demo_provider (first_handler None [] 3) demo_run = Some q" using demo_ends by blast
  then show ?thesis using request_returns_what_it_took [OF q demo_within(3)] by simp
qed

text \<open>Property C3: a request that is not refused before its first attempt and does not panic is answered once. On a connection
  that still takes writes, a stream has reached its one end; without streaming, either one error response was written and no
  answer, or one answer and no error.\<close>

theorem answered_once:
  assumes "run_request cfg e up (first_handler rm fb n) r = Some (Ended s a)" "rr_log r = []" "room (w (rq_h s)) \<noteq> Some 0"
  shows "if isStream (lc_relay cfg)
    then (\<exists>x. read_all Idle (out (w (rq_h s))) = Some x \<and> finished x) \<and> a = None \<and> answers (rr_log (rq_run s)) = 0
    else (\<exists>err. out (w (rq_h s)) = [HttpError err]) \<and> a = None \<and> answers (rr_log (rq_run s)) = 0 \<or>
      out (w (rq_h s)) = [] \<and> a \<noteq> None \<and> answers (rr_log (rq_run s)) = 1"
proof -
  note c = run_request_cases [OF assms(1,2), simplified]
  have i: "consistent (lc_relay cfg) (rq_h s)" "hasReturn (rq_h s)" using reach_inv c assms(3) by (auto simp: inv_def)
  show ?thesis
  proof (cases "isStream (lc_relay cfg)")
    case True
    then show ?thesis using i c by (auto simp: consistent_def)
  next
    case False
    then have "requestFailed (rq_h s) \<longleftrightarrow> log (rq_h s) \<noteq> []" using reach_verdict c assms(3) by (auto simp: verdict_ok_def)
    then show ?thesis using False i c by (auto simp: consistent_def)
  qed
qed

definition demo_answering :: provider where
  "demo_answering k acc = ([Arrived (example_delta ''hello'')], None)"

lemma demo_answers:
  "case run_request demo_config demo_env demo_answering (first_handler None [] 3) demo_run of
     Some (Ended s a) \<Rightarrow> room (w (rq_h s)) = None | _ \<Rightarrow> False"
  by code_simp

theorem answered_once_witness:
  "\<exists>s a. run_request demo_config demo_env demo_answering (first_handler None [] 3) demo_run = Some (Ended s a) \<and>
     (a = None \<longleftrightarrow> answers (rr_log (rq_run s)) = 0)"
proof -
  obtain s a where s: "run_request demo_config demo_env demo_answering (first_handler None [] 3) demo_run = Some (Ended s a)"
    "room (w (rq_h s)) \<noteq> Some 0"
    using demo_answers by (auto split: option.splits request_end.splits)
  have "\<not> isStream (lc_relay demo_config)" by (simp add: demo_config_def example_collect_def)
  then have "a = None \<longleftrightarrow> answers (rr_log (rq_run s)) = 0"
    using answered_once [OF s(1) demo_within(3) s(2)] by auto
  then show ?thesis using s(1) by (intro exI conjI)
qed

lemma rounds_reach:
  assumes "round_of cfg e up s0 s" "relay_reach (lc_relay cfg) (rq_h s0)" "text_marked (lc_relay cfg) (rq_h s0)" "\<not> hasVisibleOutput (rq_h s0)"
  shows "relay_reach (lc_relay cfg) (rq_h s)"
  using assms
proof (induction rule: round_of.induct)
  case (next_round s s')
  note r = next_round.IH [OF next_round.prems] and v = round_silent [OF next_round.hyps(1) next_round.prems(2,3)]
  obtain msgs h n where q: "\<not> hasReturn (rq_h s)" "deliver (lc_relay cfg) msgs (rq_h (start_round cfg e s)) = Inr h"
    "rq_h s' = (writeKeepAlive (lc_relay cfg) ^^ n) h"
    using again_from [OF next_round.hyps(2)] by metis
  have "relay_reach (lc_relay cfg) (rq_h (start_round cfg e s))"
    using r q(1) v by (auto simp: start_round_def intro: relay_reach.Step relay_step.Round relay_step.Round_tick)
  from deliver_reach [OF this, of msgs] show ?case by (simp add: q keepalives_reach)
qed simp

text \<open>Property C12: a request is only sent again while the client has seen nothing of an answer: whenever a round begins, on a
  connection that takes every write, no text has been relayed or collected, no tool call has been announced or queued, and
  the response is not over.\<close>

theorem retry_follows_silence:
  assumes "round_of cfg e up (start_state cfg (first_handler None fb n) acc client i r) s"
  shows "answer_text (lc_relay cfg) (rq_h s) = [] \<and> pendingToolCalls (rq_h s) = [] \<and> \<not> hasReturn (rq_h s) \<and>
    (isStream (lc_relay cfg) \<longrightarrow> tools (out (w (rq_h s))) = [])"
proof -
  let ?h = "rq_h (start_state cfg (first_handler None fb n) acc client i r)"
  have h: "?h = first_handler None fb n" by (simp add: start_state_def)
  have r0: "relay_reach (lc_relay cfg) ?h" and v0: "\<not> hasVisibleOutput ?h" using first_reach by (simp_all add: h)
  have "room (w (first_handler None fb n)) = None" "\<not> hasReturn (first_handler None fb n)" "log (first_handler None fb n) = []"
    "responseText (first_handler None fb n) = []"
    by (simp_all add: first_handler_def setUsageTokens_def setEmptyOutputFallback_def newStreamHandler_def Let_def)
  then have t0: "text_marked (lc_relay cfg) ?h"
    using reach_inv [OF r0] by (simp add: h text_marked_def intact_def answer_text_def)
  note v = round_silent [OF assms t0 v0]
  have "tools_ok (lc_relay cfg) (rq_h s)" using reach_tools [OF rounds_reach [OF assms r0 t0 v0]] .
  then show ?thesis using v by (auto simp: text_marked_def hasVisibleOutput_def intact_def tools_ok_def)
qed

theorem retry_follows_silence_witness:
  "\<exists>s. attempt_step demo_config demo_env demo_provider (start_state demo_config (first_handler None [] 3) (Some demo_account) 1 1 demo_run) = Some (Again s) \<and>
     answer_text example_collect (rq_h s) = [] \<and> \<not> hasReturn (rq_h s)"
proof -
  let ?s = "start_state demo_config (first_handler None [] 3) (Some demo_account) 1 1 demo_run"
  have "case attempt_step demo_config demo_env demo_provider ?s of Some (Again s) \<Rightarrow> True | _ \<Rightarrow> False" by code_simp
  then obtain s where s: "attempt_step demo_config demo_env demo_provider ?s = Some (Again s)"
    by (auto split: option.splits step_end.splits)
  then have "round_of demo_config demo_env demo_provider ?s s" by (blast intro: round_of.intros)
  from retry_follows_silence [OF this] s show ?thesis by (simp add: demo_config_def)
qed

end
