(* ===== verification/Client_Cache.thy ===== *)
theory Client_Cache
  imports Sse_Wire Account Json "HOL-Library.Multiset"
begin

text \<open>
  The cache of provider clients (\<^verbatim>\<open>src/internal/handler/client_cache.go\<close>): the fingerprint that says when a client has to be
  rebuilt, the entries with their use counts, and the evicted clients that wait for their last holder. A client is a handle;
  \<open>cc_closed\<close> lists the handles whose \<^verbatim>\<open>Close\<close> was called. Each operation below is one critical section of the cache's lock.
\<close>

section \<open>The fingerprint\<close>

record client_config =
  cf_WorkBuddyBaseURL :: string
  cf_QoderProtocolProfile :: string
  cf_QoderOAuthBaseURL :: string
  cf_QoderOpenAPIBaseURL :: string
  cf_QoderInferenceURL :: string
  cf_QoderClientID :: string
  cf_QoderClientVersion :: string
  cf_ClineAPIBaseURL :: string
  cf_ClineWorkOSClientID :: string
  cf_ClineWorkOSAuthorizeURL :: string
  cf_ClineWorkOSTokenURL :: string
  cf_ProxyURL :: string
  cf_ProxyHTTP :: string
  cf_ProxyHTTPS :: string
  cf_ProxyUser :: string
  cf_ProxyPass :: string
  cf_RequestTimeout :: int
  cf_UpstreamMaxConnsPerHost :: int
  cf_UpstreamMaxIdleConnsPerHost :: int
  cf_QoderHTTP2Enabled :: bool
  cf_ClineHTTP2Enabled :: bool
  cf_WorkBuddyHTTP2Enabled :: bool
  cf_ProxyBypass :: "string list"

definition NUL :: char where "NUL = CHR 0x00"

datatype field = FStr string | FBool bool | FInt int | FStrs "string list"

definition write_str :: "string \<Rightarrow> string" where "write_str s = s @ [NUL]"
definition write_int :: "int \<Rightarrow> string" where "write_int i = AppendInt [] i @ [NUL]"

fun write_field :: "field \<Rightarrow> string" where
  "write_field (FStr s) = write_str s"
| "write_field (FBool b) = [if b then CHR 0x01 else CHR 0x00, NUL]"
| "write_field (FInt i) = write_int i"
| "write_field (FStrs ss) = write_int (int (length ss)) @ concat (map write_str ss)"

text \<open>The zero time has a fixed count of nanoseconds of its own.\<close>

definition UnixNano :: "instant \<Rightarrow> int" where
  "UnixNano t = (if t = 0 then -6795364578871345152 else t)"

definition FormatBool :: "bool \<Rightarrow> string" where
  "FormatBool b = (if b then ''true'' else ''false'')"

definition account_fields :: "Account \<Rightarrow> field list" where
  "account_fields acc =
     (let wb = WorkBuddyPart acc; qd = QoderPart acc; cl = ClinePart acc in
      [FInt (ID acc), FStr (Name acc), FStr (AccountType acc), FStr (ClientCookie acc), FStr (RefreshToken acc), FStr (UserID acc),
       FStr (AgentMode acc), FStr (Email acc), FStr (Token acc),
       FStr (WorkBuddyAccessToken wb), FStr (WorkBuddyRefreshToken wb), FStr (WorkBuddyUID wb), FInt (UnixNano (WorkBuddyExpiresAt wb)),
       FStrs (WorkBuddyModelIDs wb),
       FStr (QoderAccessToken qd), FStr (QoderRefreshToken qd), FInt (UnixNano (QoderExpiresAt qd)), FStr (QoderMachineID qd),
       FStr (QoderUserID qd), FStr (QoderUserName qd), FStr (QoderOrganizationID qd), FStrs (QoderOrganizationTags qd),
       FBool (QoderDataPolicy qd), FStrs (QoderModelIDs qd),
       FStr (ClineAccessToken cl), FStr (ClineRefreshToken cl), FInt (UnixNano (ClineExpiresAt cl)), FStr (ClineEmail cl), FStrs (ClineModelIDs cl)])"

definition config_fields :: "client_config \<Rightarrow> field list" where
  "config_fields cfg =
     [FStr (cf_WorkBuddyBaseURL cfg), FStr (cf_QoderProtocolProfile cfg), FStr (cf_QoderOAuthBaseURL cfg), FStr (cf_QoderOpenAPIBaseURL cfg),
      FStr (cf_QoderInferenceURL cfg), FStr (cf_QoderClientID cfg), FStr (cf_QoderClientVersion cfg), FStr (cf_ClineAPIBaseURL cfg),
      FStr (cf_ClineWorkOSClientID cfg), FStr (cf_ClineWorkOSAuthorizeURL cfg), FStr (cf_ClineWorkOSTokenURL cfg),
      FStr (cf_ProxyURL cfg), FStr (cf_ProxyHTTP cfg), FStr (cf_ProxyHTTPS cfg), FStr (cf_ProxyUser cfg), FStr (cf_ProxyPass cfg),
      FInt (cf_RequestTimeout cfg), FInt (cf_UpstreamMaxConnsPerHost cfg), FInt (cf_UpstreamMaxIdleConnsPerHost cfg),
      FStr (FormatBool (cf_QoderHTTP2Enabled cfg)), FStr (FormatBool (cf_ClineHTTP2Enabled cfg)), FStr (FormatBool (cf_WorkBuddyHTTP2Enabled cfg))]"

definition fingerprint_input :: "Account \<Rightarrow> client_config option \<Rightarrow> string" where
  "fingerprint_input acc cfg = concat (map write_field (account_fields acc)) @
     (case cfg of None \<Rightarrow> [] | Some cf \<Rightarrow> concat (map write_field (config_fields cf)) @ concat (map write_str (cf_ProxyBypass cf)))"

text \<open>The digest and its hexadecimal form are \<open>sha\<close>.\<close>

definition accountClientFingerprint :: "(string \<Rightarrow> string) \<Rightarrow> Account option \<Rightarrow> client_config option \<Rightarrow> string" where
  "accountClientFingerprint sha acc cfg = (case acc of None \<Rightarrow> [] | Some a \<Rightarrow> sha (fingerprint_input a cfg))"

section \<open>The input can be read back\<close>

fun field_ok :: "field \<Rightarrow> bool" where
  "field_ok (FStr s) = (NUL \<notin> set s)"
| "field_ok (FStrs ss) = (\<forall>s \<in> set ss. NUL \<notin> set s)"
| "field_ok _ = True"

fun same_kind :: "field \<Rightarrow> field \<Rightarrow> bool" where
  "same_kind (FStr _) (FStr _) = True" | "same_kind (FBool _) (FBool _) = True" | "same_kind (FInt _) (FInt _) = True"
| "same_kind (FStrs _) (FStrs _) = True" | "same_kind _ _ = False"

lemma split_at_nul: "NUL \<notin> set s \<Longrightarrow> NUL \<notin> set t \<Longrightarrow> s @ NUL # x = t @ NUL # y \<Longrightarrow> s = t \<and> x = y"
proof (induction s arbitrary: t)
  case Nil
  then show ?case by (cases t) auto
next
  case (Cons c s)
  then obtain d t' where t: "t = d # t'" by (cases t) auto
  then show ?case using Cons.IH [of t'] Cons.prems by simp
qed

lemma write_str_inj: "NUL \<notin> set s \<Longrightarrow> NUL \<notin> set t \<Longrightarrow> write_str s @ x = write_str t @ y \<Longrightarrow> s = t \<and> x = y"
  by (rule split_at_nul) (simp_all add: write_str_def)

lemma AppendInt_free: "NUL \<notin> set (AppendInt [] i)"
proof -
  have "\<not> is_digit NUL" by (simp add: NUL_def is_digit_def)
  then have "NUL \<notin> set (show_nat n)" for n using show_nat_digits [of n] by (auto simp: list_all_iff)
  then show ?thesis by (simp add: AppendInt_def NUL_def)
qed

lemma AppendInt_inj: "AppendInt [] i = AppendInt [] j \<Longrightarrow> i = j"
proof -
  assume e: "AppendInt [] i = AppendInt [] j"
  have nd: "\<not> is_digit (CHR ''-'')" by (simp add: is_digit_def)
  have inj: "show_nat n = show_nat m \<Longrightarrow> n = m" for n m using digits_value_show by (metis of_nat_eq_iff)
  have h: "hd (show_nat n) \<noteq> CHR ''-''" for n
    by (rule show_nat_cases [of n]) (use nd in auto)
  show "i = j" using e inj [of "nat i" "nat j"] inj [of "nat (- i)" "nat (- j)"] h [of "nat i"] h [of "nat j"]
    by (auto simp: AppendInt_def split: if_splits) (metis list.sel(1))+
qed

lemma write_int_inj: "write_int i @ x = write_int j @ y \<Longrightarrow> i = j \<and> x = y"
  using split_at_nul [OF AppendInt_free AppendInt_free] AppendInt_inj unfolding write_int_def by (metis append.assoc append_Cons append_Nil)

lemma strs_inj:
  "\<forall>s \<in> set ss. NUL \<notin> set s \<Longrightarrow> \<forall>s \<in> set ts. NUL \<notin> set s \<Longrightarrow> length ss = length ts \<Longrightarrow>
   concat (map write_str ss) @ x = concat (map write_str ts) @ y \<Longrightarrow> ss = ts \<and> x = y"
proof (induction ss arbitrary: ts)
  case (Cons s ss)
  then obtain t ts' where t: "ts = t # ts'" by (cases ts) auto
  have "s = t \<and> concat (map write_str ss) @ x = concat (map write_str ts') @ y"
    by (rule write_str_inj) (use Cons.prems t in simp_all)
  then show ?case using Cons.IH [of ts'] Cons.prems t by simp
qed simp

lemma write_field_inj:
  assumes "same_kind f g" "field_ok f" "field_ok g" "write_field f @ x = write_field g @ y"
  shows "f = g \<and> x = y"
  using assms
proof (induction f g rule: same_kind.induct)
  case (1 s t)
  then show ?case using write_str_inj [of s t x y] by simp
next
  case (2 b d)
  then show ?case by (simp split: if_splits)
next
  case (3 i j)
  then show ?case using write_int_inj [of i x j y] by simp
next
  case (4 ss ts)
  then have "int (length ss) = int (length ts) \<and> concat (map write_str ss) @ x = concat (map write_str ts) @ y"
    by (intro write_int_inj) (simp only: write_field.simps append_assoc)
  then show ?case using strs_inj [of ss ts x y] 4(2,3) by simp
qed simp_all

lemma write_fields_inj:
  "list_all2 same_kind fs gs \<Longrightarrow> list_all field_ok fs \<Longrightarrow> list_all field_ok gs \<Longrightarrow>
   concat (map write_field fs) @ x = concat (map write_field gs) @ y \<Longrightarrow> fs = gs \<and> x = y"
proof (induction fs gs rule: list_all2_induct)
  case (Cons f fs g gs)
  then show ?case using write_field_inj [of f g "concat (map write_field fs) @ x" "concat (map write_field gs) @ y"] by simp
qed simp

text \<open>The trailing list has no count; it ends with the input.\<close>

lemma trailing_inj:
  "\<forall>s \<in> set ss. NUL \<notin> set s \<Longrightarrow> \<forall>s \<in> set ts. NUL \<notin> set s \<Longrightarrow> concat (map write_str ss) = concat (map write_str ts) \<Longrightarrow> ss = ts"
proof (induction ss arbitrary: ts)
  case Nil
  then show ?case by (cases ts) (simp_all add: write_str_def)
next
  case (Cons s ss)
  then obtain t ts' where t: "ts = t # ts'" by (cases ts) (auto simp: write_str_def)
  have "s = t \<and> concat (map write_str ss) = concat (map write_str ts')"
    by (rule write_str_inj) (use Cons.prems t in simp_all)
  then show ?case using Cons.IH [of ts'] Cons.prems t by simp
qed

definition client_inputs :: "Account \<Rightarrow> client_config option \<Rightarrow> field list \<times> (field list \<times> string list) option" where
  "client_inputs acc cfg = (account_fields acc, map_option (\<lambda>cf. (config_fields cf, cf_ProxyBypass cf)) cfg)"

definition nul_free :: "Account \<Rightarrow> client_config option \<Rightarrow> bool" where
  "nul_free acc cfg \<longleftrightarrow> list_all field_ok (account_fields acc) \<and>
     (case cfg of None \<Rightarrow> True | Some cf \<Rightarrow> list_all field_ok (config_fields cf) \<and> (\<forall>s \<in> set (cf_ProxyBypass cf). NUL \<notin> set s))"

lemma kinds: "list_all2 same_kind (account_fields a) (account_fields b)" "list_all2 same_kind (config_fields cf) (config_fields dg)"
  by (simp_all add: account_fields_def config_fields_def Let_def)

lemma config_not_empty: "concat (map write_field (config_fields cf)) @ x \<noteq> []"
  by (simp add: config_fields_def write_str_def)



section \<open>The cache\<close>

record cache_entry =
  ce_fingerprint :: string
  ce_client :: nat
  ce_inUse :: int

record client_cache =
  cc_entries :: "int \<Rightarrow> cache_entry option"
  cc_retired :: "(nat \<times> int) list"
  cc_closed :: "nat list"

definition newAccountClientCache :: client_cache where
  "newAccountClientCache = \<lparr>cc_entries = Map.empty, cc_retired = [], cc_closed = []\<rparr>"

definition close_client :: "nat \<Rightarrow> client_cache \<Rightarrow> client_cache" where
  "close_client h s = s\<lparr>cc_closed := cc_closed s @ [h]\<rparr>"

definition retire_or_close :: "cache_entry \<Rightarrow> client_cache \<Rightarrow> client_cache" where
  "retire_or_close e s =
     (if ce_inUse e > 0 then s\<lparr>cc_retired := cc_retired s @ [(ce_client e, ce_inUse e)]\<rparr> else close_client (ce_client e) s)"

definition dropLocked :: "int \<Rightarrow> cache_entry \<Rightarrow> client_cache \<Rightarrow> client_cache" where
  "dropLocked i e s = retire_or_close e (s\<lparr>cc_entries := (cc_entries s)(i := None)\<rparr>)"

definition evictByID :: "int \<Rightarrow> client_cache \<Rightarrow> client_cache" where
  "evictByID i s = (case cc_entries s i of None \<Rightarrow> s | Some e \<Rightarrow> dropLocked i e s)"

definition evictIfChanged :: "int \<Rightarrow> string \<Rightarrow> client_cache \<Rightarrow> bool \<times> client_cache" where
  "evictIfChanged i fp s = (case cc_entries s i of
     None \<Rightarrow> (False, s)
   | Some e \<Rightarrow> if ce_fingerprint e = fp then (False, s) else (True, dropLocked i e s))"

text \<open>\<open>resolve\<close> gives the fingerprint of the account's current row, if there is one.\<close>

definition evictAccounts :: "(int \<Rightarrow> string option) \<Rightarrow> int list \<Rightarrow> client_cache \<Rightarrow> client_cache" where
  "evictAccounts resolve is s =
     foldl (\<lambda>g i. if i = 0 then g else (case resolve i of None \<Rightarrow> evictByID i g | Some fp \<Rightarrow> snd (evictIfChanged i fp g))) s is"

text \<open>The two halves of \<^verbatim>\<open>getOrCreateAccountClient\<close>: the read, and the installation of a client built in between.\<close>

definition lookup_client :: "int \<Rightarrow> string \<Rightarrow> client_cache \<Rightarrow> nat option" where
  "lookup_client i fp s = (case cc_entries s i of Some e \<Rightarrow> if ce_fingerprint e = fp then Some (ce_client e) else None | None \<Rightarrow> None)"

definition install_client :: "int \<Rightarrow> string \<Rightarrow> nat \<Rightarrow> client_cache \<Rightarrow> nat \<times> client_cache" where
  "install_client i fp built s = (case lookup_client i fp s of
     Some c \<Rightarrow> (c, close_client built s)
   | None \<Rightarrow>
       let s1 = (case cc_entries s i of None \<Rightarrow> s | Some e \<Rightarrow> retire_or_close e s) in
       (built, s1\<lparr>cc_entries := (cc_entries s1)(i := Some \<lparr>ce_fingerprint = fp, ce_client = built, ce_inUse = 0\<rparr>)\<rparr>))"

definition mark_client :: "int \<Rightarrow> nat \<Rightarrow> client_cache \<Rightarrow> client_cache" where
  "mark_client i c s = (case cc_entries s i of
     Some e \<Rightarrow> if ce_client e = c then s\<lparr>cc_entries := (cc_entries s)(i := Some (e\<lparr>ce_inUse := ce_inUse e + 1\<rparr>))\<rparr> else s
   | None \<Rightarrow> s)"

fun release_retired :: "nat \<Rightarrow> (nat \<times> int) list \<Rightarrow> (nat \<times> int) list \<times> bool" where
  "release_retired c [] = ([], False)"
| "release_retired c ((d, n) # rs) =
     (if d \<noteq> c then (case release_retired c rs of (rs', b) \<Rightarrow> ((d, n) # rs', b))
      else let m = (if n > 0 then n - 1 else n) in if m = 0 then (rs, True) else ((d, m) # rs, False))"

definition release_client :: "int \<Rightarrow> nat \<Rightarrow> client_cache \<Rightarrow> client_cache" where
  "release_client i c s =
     (if \<exists>e. cc_entries s i = Some e \<and> ce_client e = c then
        (case cc_entries s i of
           Some e \<Rightarrow> s\<lparr>cc_entries := (cc_entries s)(i := Some (e\<lparr>ce_inUse := (if ce_inUse e > 0 then ce_inUse e - 1 else ce_inUse e)\<rparr>))\<rparr>
         | None \<Rightarrow> s)
      else (case release_retired c (cc_retired s) of
        (rs, gone) \<Rightarrow> (if gone then close_client c else id) (s\<lparr>cc_retired := rs\<rparr>)))"

definition getOrCreateAccountClient :: "int \<Rightarrow> string \<Rightarrow> nat option \<Rightarrow> client_cache \<Rightarrow> nat option \<times> client_cache" where
  "getOrCreateAccountClient i fp built s = (case lookup_client i fp s of
     Some c \<Rightarrow> (Some c, s)
   | None \<Rightarrow> (case built of None \<Rightarrow> (None, s) | Some b \<Rightarrow> (case install_client i fp b s of (c, s1) \<Rightarrow> (Some c, s1))))"

definition acquireAccountClient :: "int \<Rightarrow> string \<Rightarrow> nat option \<Rightarrow> client_cache \<Rightarrow> nat option \<times> client_cache" where
  "acquireAccountClient i fp built s = (case getOrCreateAccountClient i fp built s of
     (None, s1) \<Rightarrow> (None, s1)
   | (Some c, s1) \<Rightarrow> (Some c, mark_client i c s1))"

text \<open>Shutting down: the clients of the entries (a finite map, listed by \<open>ids\<close>) and the retired ones are closed.\<close>

definition close_cache :: "int list \<Rightarrow> client_cache \<Rightarrow> client_cache" where
  "close_cache is s =
     \<lparr>cc_entries = Map.empty, cc_retired = [],
      cc_closed = cc_closed s @ List.map_filter (\<lambda>i. map_option ce_client (cc_entries s i)) is @ map fst (cc_retired s)\<rparr>"

section \<open>Requests and the cache\<close>

text \<open>
  Runs in which a request takes its client in one step, between evictions and releases. \<open>H\<close> holds the clients in use, one
  entry for each request; \<open>n\<close> is the next handle a build gives.
\<close>

inductive client_run :: "client_cache \<Rightarrow> (int \<times> nat) multiset \<Rightarrow> nat \<Rightarrow> bool" where
  cache_new: "client_run newAccountClientCache {#} 0"
| cache_take: "client_run s H n \<Longrightarrow> acquireAccountClient i fp (Some n) s = (Some c, s') \<Longrightarrow> client_run s' (add_mset (i, c) H) (n + 1)"
| cache_free: "client_run s H n \<Longrightarrow> (i, c) \<in># H \<Longrightarrow> client_run (release_client i c s) (H - {#(i, c)#}) n"
| cache_evict: "client_run s H n \<Longrightarrow> client_run (evictAccounts resolve is s) H n"

definition uses :: "nat \<Rightarrow> (int \<times> nat) multiset \<Rightarrow> int" where
  "uses c H = int (size {#h \<in># H. snd h = c#})"

definition cached_at :: "client_cache \<Rightarrow> int \<Rightarrow> nat \<Rightarrow> bool" where
  "cached_at s i c \<longleftrightarrow> (\<exists>e. cc_entries s i = Some e \<and> ce_client e = c)"

definition retired_ids :: "client_cache \<Rightarrow> nat list" where
  "retired_ids s = map fst (cc_retired s)"

text \<open>Every handle is in one place, and is counted there.\<close>

definition cache_inv :: "client_cache \<Rightarrow> (int \<times> nat) multiset \<Rightarrow> nat \<Rightarrow> bool" where
  "cache_inv s H n \<longleftrightarrow>
     (\<forall>i e. cc_entries s i = Some e \<longrightarrow> ce_inUse e = uses (ce_client e) H \<and> ce_client e < n \<and> ce_client e \<notin> set (cc_closed s)) \<and>
     (\<forall>i j c. cached_at s i c \<longrightarrow> cached_at s j c \<longrightarrow> i = j) \<and>
     distinct (retired_ids s) \<and>
     (\<forall>(c, k) \<in> set (cc_retired s). k = uses c H \<and> 0 < k \<and> c < n \<and> c \<notin> set (cc_closed s) \<and> (\<forall>i. \<not> cached_at s i c)) \<and>
     (\<forall>(i, c) \<in># H. cached_at s i c \<or> c \<in> set (retired_ids s)) \<and>
     (\<forall>c \<in> set (cc_closed s). c < n)"

lemma cache_invD:
  assumes "cache_inv s H n"
  shows "cc_entries s i = Some e \<Longrightarrow> ce_inUse e = uses (ce_client e) H" "cc_entries s i = Some e \<Longrightarrow> ce_client e < n"
    "cc_entries s i = Some e \<Longrightarrow> ce_client e \<notin> set (cc_closed s)"
    "cached_at s i c \<Longrightarrow> cached_at s j c \<Longrightarrow> i = j" "distinct (retired_ids s)"
    "(c, k) \<in> set (cc_retired s) \<Longrightarrow> k = uses c H" "(c, k) \<in> set (cc_retired s) \<Longrightarrow> 0 < k" "(c, k) \<in> set (cc_retired s) \<Longrightarrow> c < n"
    "(c, k) \<in> set (cc_retired s) \<Longrightarrow> c \<notin> set (cc_closed s)" "(c, k) \<in> set (cc_retired s) \<Longrightarrow> \<not> cached_at s i c"
    "(i, c) \<in># H \<Longrightarrow> cached_at s i c \<or> c \<in> set (retired_ids s)" "c \<in> set (cc_closed s) \<Longrightarrow> c < n"
  using assms unfolding cache_inv_def by fastforce+

lemma uses_simps [simp]:
  "uses c {#} = 0" "uses c (add_mset (i, d) H) = uses c H + (if d = c then 1 else 0)" "0 \<le> uses c H"
  by (simp_all add: uses_def)

lemma uses_remove: "(i, d) \<in># H \<Longrightarrow> uses c (H - {#(i, d)#}) = uses c H - (if d = c then 1 else 0)"
  by (auto dest!: multi_member_split)

lemma uses_positive: "(i, c) \<in># H \<Longrightarrow> 0 < uses c H"
  by (auto dest!: multi_member_split)

lemma uses_zero: "uses c H = 0 \<Longrightarrow> (i, c) \<notin># H"
  using uses_positive by fastforce

text \<open>Dropping an entry keeps the books.\<close>

lemma retire_inv:
  assumes inv: "cache_inv s H n" and e: "cc_entries s i = Some e"
  shows "cache_inv (retire_or_close e (s\<lparr>cc_entries := (cc_entries s)(i := None)\<rparr>)) H n"
proof -
  let ?g = "s\<lparr>cc_entries := (cc_entries s)(i := None)\<rparr>"
  define s' where "s' = retire_or_close e ?g"
  note D = cache_invD [OF inv]
  have at: "cached_at s i (ce_client e)" using e by (simp add: cached_at_def)
  have s'_at: "cached_at s' j c \<longleftrightarrow> cached_at s j c \<and> j \<noteq> i" for j c
    by (auto simp: s'_def retire_or_close_def close_client_def cached_at_def)
  have ent: "cc_entries s' j = Some f \<Longrightarrow> j \<noteq> i \<and> cc_entries s j = Some f \<and> ce_client f \<noteq> ce_client e" for j f
    using D(4) [OF at, of j] by (auto simp: s'_def retire_or_close_def close_client_def cached_at_def split: if_splits)
  have only: "cached_at s i d \<Longrightarrow> d = ce_client e" for d using e by (auto simp: cached_at_def)
  have nr: "ce_client e \<notin> set (retired_ids s)" using D(10) at by (auto simp: retired_ids_def)
  show ?thesis
  proof (cases "ce_inUse e > 0")
    case True
    then have s': "cc_retired s' = cc_retired s @ [(ce_client e, ce_inUse e)]" "cc_closed s' = cc_closed s"
      by (simp_all add: s'_def retire_or_close_def)
    have "cache_inv s' H n" unfolding cache_inv_def
    proof (intro conjI)
      show "distinct (retired_ids s')" using D(5) nr by (simp add: retired_ids_def s')
      show "\<forall>(c, k) \<in> set (cc_retired s'). k = uses c H \<and> 0 < k \<and> c < n \<and> c \<notin> set (cc_closed s') \<and> (\<forall>i. \<not> cached_at s' i c)"
        using D(6-10) D(1-3) [OF e] True D(4) [OF at] by (auto simp: s' s'_at)
      show "\<forall>(j, c) \<in># H. cached_at s' j c \<or> c \<in> set (retired_ids s')"
        using D(11) only by (fastforce simp: s' s'_at retired_ids_def)
    qed (use D ent in \<open>auto simp: s' s'_at dest!: ent\<close>)
    then show ?thesis by (simp add: s'_def)
  next
    case False
    then have u: "uses (ce_client e) H = 0" using D(1) [OF e] uses_simps(3) [of "ce_client e" H] by linarith
    have s': "cc_retired s' = cc_retired s" "cc_closed s' = cc_closed s @ [ce_client e]"
      using False by (simp_all add: s'_def retire_or_close_def close_client_def)
    have "cache_inv s' H n" unfolding cache_inv_def
    proof (intro conjI)
      show "\<forall>(c, k) \<in> set (cc_retired s'). k = uses c H \<and> 0 < k \<and> c < n \<and> c \<notin> set (cc_closed s') \<and> (\<forall>i. \<not> cached_at s' i c)"
        using D(6-10) at by (auto simp: s' s'_at)
      show "\<forall>(j, c) \<in># H. cached_at s' j c \<or> c \<in> set (retired_ids s')"
        using D(11) uses_zero [OF u] only by (fastforce simp: s'_at retired_ids_def s')
      show "distinct (retired_ids s')" using D(5) by (simp add: retired_ids_def s')
    qed (use D ent D(2) [OF e] in \<open>auto simp: s' s'_at dest!: ent\<close>)
    then show ?thesis by (simp add: s'_def)
  qed
qed

lemma evict_inv: "cache_inv s H n \<Longrightarrow> cache_inv (evictAccounts resolve is s) H n"
proof (induction "is" arbitrary: s)
  case (Cons i "is")
  let ?f = "\<lambda>g i. if i = 0 then g else (case resolve i of None \<Rightarrow> evictByID i g | Some fp \<Rightarrow> snd (evictIfChanged i fp g))"
  have "cache_inv (?f s i) H n"
    using Cons.prems retire_inv [OF Cons.prems] by (auto simp: evictByID_def evictIfChanged_def dropLocked_def split: option.split)
  from Cons.IH [OF this] show ?case by (simp add: evictAccounts_def)
qed (simp add: evictAccounts_def)

lemma more_handles: "cache_inv s H n \<Longrightarrow> cache_inv s H (n + 1)"
  unfolding cache_inv_def by (fastforce simp: less_Suc_eq)

lemma mark_inv:
  assumes inv: "cache_inv s H n" and at: "cached_at s i c"
  shows "cache_inv (mark_client i c s) (add_mset (i, c) H) n"
proof -
  obtain e where e: "cc_entries s i = Some e" "ce_client e = c" using at by (auto simp: cached_at_def)
  note D = cache_invD [OF inv]
  let ?s = "s\<lparr>cc_entries := (cc_entries s)(i := Some (e\<lparr>ce_inUse := ce_inUse e + 1\<rparr>))\<rparr>"
  have s: "mark_client i c s = ?s" using e by (simp add: mark_client_def)
  have at': "cached_at ?s j d \<longleftrightarrow> cached_at s j d" for j d using e by (auto simp: cached_at_def)
  have other: "cc_entries s j = Some f \<Longrightarrow> j \<noteq> i \<Longrightarrow> ce_client f \<noteq> c" for j f using D(4) [OF at, of j] by (auto simp: cached_at_def)
  show ?thesis unfolding s cache_inv_def
  proof (intro conjI)
    show "\<forall>j f. cc_entries ?s j = Some f \<longrightarrow> ce_inUse f = uses (ce_client f) (add_mset (i, c) H) \<and> ce_client f < n \<and> ce_client f \<notin> set (cc_closed ?s)"
    proof (intro allI impI)
      fix j f
      assume f: "cc_entries ?s j = Some f"
      show "ce_inUse f = uses (ce_client f) (add_mset (i, c) H) \<and> ce_client f < n \<and> ce_client f \<notin> set (cc_closed ?s)"
      proof (cases "j = i")
        case True
        then show ?thesis using f e D(1-3) [OF e(1)] by auto
      next
        case False
        then show ?thesis using f D(1-3) [of j f] other [of j f] by auto
      qed
    qed
    show "\<forall>(d, k) \<in> set (cc_retired ?s). k = uses d (add_mset (i, c) H) \<and> 0 < k \<and> d < n \<and> d \<notin> set (cc_closed ?s) \<and> (\<forall>i. \<not> cached_at ?s i d)"
      using D(6-10) at by (auto simp: at')
    show "\<forall>(j, d) \<in># add_mset (i, c) H. cached_at ?s j d \<or> d \<in> set (retired_ids ?s)"
      using D(11) at by (auto simp: at' retired_ids_def)
  qed (use D in \<open>auto simp: at' retired_ids_def\<close>)
qed

lemma take_inv:
  assumes inv: "cache_inv s H n" and t: "acquireAccountClient i fp (Some n) s = (Some c, s')"
  shows "cache_inv s' (add_mset (i, c) H) (n + 1)"
proof (cases "lookup_client i fp s")
  case (Some d)
  then have "d = c" "s' = mark_client i c s" "cached_at s i c"
    using t by (auto simp: acquireAccountClient_def getOrCreateAccountClient_def lookup_client_def cached_at_def split: option.splits if_splits)
  then show ?thesis using mark_inv [OF more_handles [OF inv]] by simp
next
  case None
  define s1 where "s1 = (case cc_entries s i of None \<Rightarrow> s | Some e \<Rightarrow> retire_or_close e s)"
  define s2 where "s2 = s1\<lparr>cc_entries := (cc_entries s1)(i := Some \<lparr>ce_fingerprint = fp, ce_client = n, ce_inUse = 0\<rparr>)\<rparr>"
  have c: "c = n" "s' = mark_client i n s2"
    using t None by (auto simp: acquireAccountClient_def getOrCreateAccountClient_def install_client_def Let_def s2_def s1_def)
  define g where "g = s1\<lparr>cc_entries := (cc_entries s1)(i := None)\<rparr>"
  have g: "cache_inv g H n"
  proof (cases "cc_entries s i")
    case None
    then have "g = s" by (cases s) (auto simp: g_def s1_def)
    then show ?thesis using inv by simp
  next
    case (Some e)
    have "g = retire_or_close e (s\<lparr>cc_entries := (cc_entries s)(i := None)\<rparr>)"
      by (simp add: g_def s1_def Some retire_or_close_def close_client_def)
    then show ?thesis using retire_inv [OF inv Some] by simp
  qed
  note D = cache_invD [OF g]
  have s2: "cc_entries s2 = (cc_entries g)(i := Some \<lparr>ce_fingerprint = fp, ce_client = n, ce_inUse = 0\<rparr>)" "cc_retired s2 = cc_retired g" "cc_closed s2 = cc_closed g"
    by (simp_all add: s2_def g_def)
  have gi: "\<not> cached_at g i d" for d by (simp add: g_def cached_at_def)
  have new: "\<not> cached_at g j n" for j using D(2) by (fastforce simp: cached_at_def)
  have nh: "(j, n) \<notin># H" for j using D(11) [of j n] new D(8) [of n] by (fastforce simp: retired_ids_def)
  then have "{#h \<in># H. snd h = n#} = {#}" by (intro multiset_eqI) (auto simp: count_eq_zero_iff)
  then have u: "uses n H = 0" by (simp add: uses_def)
  have at: "cached_at s2 j d \<longleftrightarrow> (if j = i then d = n else cached_at g j d)" for j d by (auto simp: cached_at_def s2)
  have "cache_inv s2 H (n + 1)" unfolding cache_inv_def
  proof (intro conjI)
    show "\<forall>j f. cc_entries s2 j = Some f \<longrightarrow> ce_inUse f = uses (ce_client f) H \<and> ce_client f < n + 1 \<and> ce_client f \<notin> set (cc_closed s2)"
      using D(1-3,12) u by (fastforce simp: s2 split: if_splits)
    show "\<forall>j k d. cached_at s2 j d \<longrightarrow> cached_at s2 k d \<longrightarrow> j = k" using D(4) new by (auto simp: at split: if_splits)
    show "\<forall>(d, k) \<in> set (cc_retired s2). k = uses d H \<and> 0 < k \<and> d < n + 1 \<and> d \<notin> set (cc_closed s2) \<and> (\<forall>i. \<not> cached_at s2 i d)"
      using D(6-10) by (fastforce simp: at s2 split: if_splits)
    show "\<forall>(j, d) \<in># H. cached_at s2 j d \<or> d \<in> set (retired_ids s2)"
      using D(11) gi by (fastforce simp: at retired_ids_def s2)
  qed (use D in \<open>auto simp: retired_ids_def s2 less_Suc_eq\<close>)
  moreover have "cached_at s2 i n" by (simp add: at)
  ultimately show ?thesis using mark_inv c by simp
qed

lemma release_retired_spec:
  assumes "distinct (map fst rs)" "release_retired c rs = (rs', gone)"
  shows "(c \<notin> fst ` set rs \<longrightarrow> rs' = rs \<and> \<not> gone) \<and>
    (\<forall>k. (c, k) \<in> set rs \<and> 0 < k \<longrightarrow> gone = (k = 1) \<and> set rs' = {p \<in> set rs. fst p \<noteq> c} \<union> (if k = 1 then {} else {(c, k - 1)}) \<and> distinct (map fst rs'))"
  using assms
proof (induction c rs arbitrary: rs' gone rule: release_retired.induct)
  case (2 c d n rs)
  show ?case
  proof (cases "d = c")
    case True
    then show ?thesis using 2(2,3) by (auto simp: Let_def rev_image_eqI split: if_splits)
  next
    case False
    obtain q b where q: "release_retired c rs = (q, b)" by fastforce
    have r: "rs' = (d, n) # q" "gone = b" using 2(3) False q by auto
    have d: "distinct (map fst rs)" "d \<notin> fst ` set rs" using 2(2) by auto
    note IH = 2(1) [OF False d(1) q]
    show ?thesis unfolding r using IH d False by (auto simp: image_iff)
  qed
qed simp

lemma release_inv:
  assumes inv: "cache_inv s H n" and h: "(i, c) \<in># H"
  shows "cache_inv (release_client i c s) (H - {#(i, c)#}) n"
proof (cases "cached_at s i c")
  case True
  note D = cache_invD [OF inv]
  obtain e where e: "cc_entries s i = Some e" "ce_client e = c" using True by (auto simp: cached_at_def)
  have "ce_inUse e > 0" using D(1) [OF e(1)] uses_positive [OF h] e(2) by simp
  then have s: "release_client i c s = s\<lparr>cc_entries := (cc_entries s)(i := Some (e\<lparr>ce_inUse := ce_inUse e - 1\<rparr>))\<rparr>" (is "_ = ?s")
    using e by (simp add: release_client_def)
  have at: "cached_at ?s j d \<longleftrightarrow> cached_at s j d" for j d using e by (auto simp: cached_at_def)
  have other: "cc_entries s j = Some f \<Longrightarrow> j \<noteq> i \<Longrightarrow> ce_client f \<noteq> c" for j f using D(4) [OF True, of j] by (auto simp: cached_at_def)
  show ?thesis unfolding s cache_inv_def
  proof (intro conjI)
    show "\<forall>j f. cc_entries ?s j = Some f \<longrightarrow> ce_inUse f = uses (ce_client f) (H - {#(i, c)#}) \<and> ce_client f < n \<and> ce_client f \<notin> set (cc_closed ?s)"
    proof (intro allI impI)
      fix j f
      assume f: "cc_entries ?s j = Some f"
      show "ce_inUse f = uses (ce_client f) (H - {#(i, c)#}) \<and> ce_client f < n \<and> ce_client f \<notin> set (cc_closed ?s)"
      proof (cases "j = i")
        case True
        then show ?thesis using f e D(1-3) [OF e(1)] uses_remove [OF h, of c] by auto
      next
        case False
        then show ?thesis using f D(1-3) [of j f] other [of j f] uses_remove [OF h, of "ce_client f"] by auto
      qed
    qed
    show "\<forall>(d, k) \<in> set (cc_retired ?s). k = uses d (H - {#(i, c)#}) \<and> 0 < k \<and> d < n \<and> d \<notin> set (cc_closed ?s) \<and> (\<forall>i. \<not> cached_at ?s i d)"
      using D(6-10) True h by (auto simp: at uses_remove)
    show "\<forall>(j, d) \<in># H - {#(i, c)#}. cached_at ?s j d \<or> d \<in> set (retired_ids ?s)"
      using D(11) by (auto simp: at retired_ids_def dest: in_diffD)
  qed (use D in \<open>auto simp: at retired_ids_def\<close>)
next
  case False
  note D = cache_invD [OF inv]
  obtain k where k: "(c, k) \<in> set (cc_retired s)" using D(11) [OF h] False by (auto simp: retired_ids_def)
  obtain rs gone where r: "release_retired c (cc_retired s) = (rs, gone)" by fastforce
  have sp: "gone = (k = 1)" "set rs = {p \<in> set (cc_retired s). fst p \<noteq> c} \<union> (if k = 1 then {} else {(c, k - 1)})" "distinct (map fst rs)"
    using release_retired_spec [OF _ r] D(5,7) k by (auto simp: retired_ids_def)
  have s: "release_client i c s = (if gone then close_client c else id) (s\<lparr>cc_retired := rs\<rparr>)"
    using False r by (auto simp: release_client_def cached_at_def)
  define s' where "s' = release_client i c s"
  have f: "cc_entries s' = cc_entries s" "cc_retired s' = rs" "cc_closed s' = cc_closed s @ (if k = 1 then [c] else [])"
    by (simp_all add: s'_def s close_client_def sp(1))
  have at: "cached_at s' j d \<longleftrightarrow> cached_at s j d" for j d by (simp add: cached_at_def f)
  have nc: "\<not> cached_at s j c" for j using D(10) [OF k] .
  have other: "cc_entries s j = Some e \<Longrightarrow> ce_client e \<noteq> c" for j e using nc [of j] by (auto simp: cached_at_def)
  have uk: "uses c H = k" using D(6) [OF k] by simp
  have k1: "k \<noteq> 1 \<Longrightarrow> 1 < k" using D(7) [OF k] by simp
  have last: "k = 1 \<Longrightarrow> (j, c) \<notin># H - {#(i, c)#}" for j
    by (rule uses_zero) (use uk h in \<open>simp add: uses_remove\<close>)
  have "cache_inv s' (H - {#(i, c)#}) n" unfolding cache_inv_def
  proof (intro conjI)
    show "\<forall>j e. cc_entries s' j = Some e \<longrightarrow> ce_inUse e = uses (ce_client e) (H - {#(i, c)#}) \<and> ce_client e < n \<and> ce_client e \<notin> set (cc_closed s')"
      using D(1-3) other uses_remove [OF h] by (fastforce simp: f)
    show "distinct (retired_ids s')" using sp(3) by (simp add: retired_ids_def f)
    show "\<forall>(d, m) \<in> set (cc_retired s'). m = uses d (H - {#(i, c)#}) \<and> 0 < m \<and> d < n \<and> d \<notin> set (cc_closed s') \<and> (\<forall>i. \<not> cached_at s' i d)"
      using D(6-10) k uk h nc k1 by (auto simp: f at sp(2) uses_remove)
    show "\<forall>(j, d) \<in># H - {#(i, c)#}. cached_at s' j d \<or> d \<in> set (retired_ids s')"
    proof (intro ballI, clarify)
      fix j d
      assume m: "(j, d) \<in># H - {#(i, c)#}" and n: "d \<notin> set (retired_ids s')"
      have "cached_at s j d \<or> d \<in> set (retired_ids s)" using D(11) in_diffD [OF m] by blast
      moreover have "d \<notin> set (retired_ids s)"
      proof
        assume "d \<in> set (retired_ids s)"
        then obtain q where "(d, q) \<in> set (cc_retired s)" by (auto simp: retired_ids_def)
        then have "d = c" using n by (force simp: retired_ids_def f sp(2))
        moreover have "k = 1" using n calculation by (auto simp: retired_ids_def f sp(2) split: if_splits)
        ultimately show False using last m by blast
      qed
      ultimately show "cached_at s' j d" by (simp add: at)
    qed
  qed (use D k in \<open>auto simp: at f\<close>)
  then show ?thesis by (simp add: s'_def)
qed

lemma run_inv: "client_run s H n \<Longrightarrow> cache_inv s H n"
proof (induction rule: client_run.induct)
  case cache_new
  show ?case by (simp add: newAccountClientCache_def cache_inv_def cached_at_def retired_ids_def)
next
  case (cache_take s H n i fp c s')
  then show ?case using take_inv by blast
next
  case (cache_free s H n i c)
  then show ?case using release_inv by blast
next
  case (cache_evict s H n resolve "is")
  then show ?case using evict_inv by blast
qed


text \<open>A client in use by two requests whose account is evicted and which one of them gives back.\<close>

definition cache_shared :: client_cache where
  "cache_shared = snd (acquireAccountClient 7 ''f'' (Some 1) (snd (acquireAccountClient 7 ''f'' (Some 0) newAccountClientCache)))"


text \<open>
  The code marks the client in a second critical section. An eviction between the two leaves a request with a client it is
  not counted for; when it gives that client back, the count of the others is reduced instead, and the client is closed while
  one of them still uses it: \<open>taken\<close> is held by a first request, a second one has read the same entry, the entry is evicted
  before the mark, and the second request ends.
\<close>

lemma late_mark_closes_held:
  fixes taken evicted late :: client_cache
  assumes "taken = snd (acquireAccountClient 7 ''f'' (Some 0) newAccountClientCache)"
    "evicted = evictAccounts (\<lambda>_. None) [7] taken" "late = mark_client 7 0 evicted"
  shows "lookup_client 7 ''f'' taken = Some 0" "cc_retired late = [(0, 1)]" "cc_closed (release_client 7 0 late) = [0]"
  unfolding assms
  by (simp_all add: acquireAccountClient_def getOrCreateAccountClient_def install_client_def lookup_client_def mark_client_def
      newAccountClientCache_def evictAccounts_def evictByID_def dropLocked_def retire_or_close_def close_client_def release_client_def Let_def)

end
