(* ===== verification/Team_Cooldown.thy ===== *)
theory Team_Cooldown
  imports Account_Policy Sse_Wire "HOL-Library.AList"
begin

text \<open>
  Rate limits of the Grok upstreams (\<^verbatim>\<open>src/internal/grok/team_cooldown.go\<close>, \<^verbatim>\<open>rate_limiter.go\<close>, \<^verbatim>\<open>distributed_limits.go\<close>):
  the process-local registry of cooldowns by scope, team and model, the one all replicas share in Redis, what a 429 notes,
  what a request is refused for, and the pacing slot. The clock is an argument; the shared keys expire by the server's clock
  in milliseconds, which is the same here. The parsed body of a 429 and the digest of a credential are arguments. The
  process-local token bucket counts in doubles and is left out.
\<close>

section \<open>The registries\<close>

definition teamCooldownMaxSize :: nat where "teamCooldownMaxSize = 4096"
definition teamCooldownGCAfter :: duration where "teamCooldownGCAfter = minute"

text \<open>\<open>cd_shared\<close>: the shared keys with their deadlines in milliseconds, \<^const>\<open>None\<close> without a backend.\<close>

record cooldowns =
  cd_entries :: "(string \<times> instant) list"
  cd_lastGC :: instant
  cd_shared :: "(string \<Rightarrow> int option) option"

definition teamCooldownKey :: "string \<Rightarrow> string \<Rightarrow> string \<Rightarrow> string" where
  "teamCooldownKey scope teamID model = scope @ ''|'' @ ToLower (TrimSpace teamID) @ ''|'' @ ToLower (TrimSpace model)"

definition maybeGC :: "instant \<Rightarrow> cooldowns \<Rightarrow> cooldowns" where
  "maybeGC now r =
     (if length (cd_entries r) < teamCooldownMaxSize \<and> Sub now (cd_lastGC r) < teamCooldownGCAfter then r
      else r\<lparr>cd_entries := filter (\<lambda>(k, until). until > now) (cd_entries r), cd_lastGC := now\<rparr>)"

definition millis :: "instant \<Rightarrow> int" where
  "millis t = t div millisecond"

text \<open>\<^verbatim>\<open>PTTL\<close>: the milliseconds a key has left, \<open>-2\<close> when there is none.\<close>

definition PTTL :: "int \<Rightarrow> string \<Rightarrow> (string \<Rightarrow> int option) \<Rightarrow> int" where
  "PTTL now_ms key shared = (case shared key of Some d \<Rightarrow> if now_ms < d then d - now_ms else -2 | None \<Rightarrow> -2)"

text \<open>The note script; \<^verbatim>\<open>PSETEX\<close> refuses a time of zero, and the error is dropped.\<close>

definition note_script :: "int \<Rightarrow> string \<Rightarrow> int \<Rightarrow> (string \<Rightarrow> int option) \<Rightarrow> (string \<Rightarrow> int option)" where
  "note_script now_ms key wanted shared =
     (if PTTL now_ms key shared < wanted \<and> wanted > 0 then shared(key \<mapsto> now_ms + wanted) else shared)"

text \<open>The parts of a shared key, before the digest; here the case of a name counts.\<close>

definition shared_key :: "string \<Rightarrow> string \<Rightarrow> string \<Rightarrow> string" where
  "shared_key scope identity model = ''cooldown:['' @ scope @ '' '' @ identity @ '' '' @ model @ '']''"

definition noteCooldown :: "instant \<Rightarrow> string \<Rightarrow> string \<Rightarrow> string \<Rightarrow> duration \<Rightarrow> cooldowns \<Rightarrow> cooldowns" where
  "noteCooldown now scope identity model d r =
     (if d \<le> 0 then r
      else r\<lparr>cd_shared := map_option (note_script (millis now) (shared_key scope identity model) (d div millisecond)) (cd_shared r)\<rparr>)"

definition cooldownRemaining :: "instant \<Rightarrow> string \<Rightarrow> string \<Rightarrow> string \<Rightarrow> cooldowns \<Rightarrow> duration" where
  "cooldownRemaining now scope identity model r = (case cd_shared r of
     None \<Rightarrow> 0
   | Some shared \<Rightarrow> let left = PTTL (millis now) (shared_key scope identity model) shared in if left \<le> 0 then 0 else left * millisecond)"

definition Note :: "instant \<Rightarrow> string \<Rightarrow> string \<Rightarrow> string \<Rightarrow> duration \<Rightarrow> cooldowns \<Rightarrow> cooldowns" where
  "Note now scope teamID model retryAfter0 r =
     (if TrimSpace teamID = [] \<or> TrimSpace model = [] then r
      else let retryAfter = (if retryAfter0 \<le> 0 then minute else retryAfter0);
               key = teamCooldownKey scope teamID model; until = now + retryAfter
           in if (case map_of (cd_entries r) key of Some cur \<Rightarrow> cur > until | None \<Rightarrow> False) then r
              else noteCooldown now scope teamID model retryAfter
                (maybeGC now (r\<lparr>cd_entries := AList.update key until (cd_entries r)\<rparr>)))"

definition RetryAfterFor :: "instant \<Rightarrow> string \<Rightarrow> string \<Rightarrow> string \<Rightarrow> cooldowns \<Rightarrow> duration \<times> cooldowns" where
  "RetryAfterFor now scope teamID model r =
     (if TrimSpace teamID = [] then (0, r)
      else let key = teamCooldownKey scope teamID model in
        case (case map_of (cd_entries r) key of
            None \<Rightarrow> (0, r)
          | Some cur \<Rightarrow> if cur > now then (Sub cur now, r) else (0, r\<lparr>cd_entries := AList.delete key (cd_entries r)\<rparr>)) of
          (remaining, r1) \<Rightarrow>
            let shared = cooldownRemaining now scope teamID model r1 in (if shared > remaining then shared else remaining, r1))"

section \<open>A 429, and the request after it\<close>

definition UniqueStrings :: "string list \<Rightarrow> string list" where
  "UniqueStrings input =
     foldl (\<lambda>acc item. let t = TrimSpace item in if t = [] \<or> t \<in> set acc then acc else acc @ [t]) [] input"

fun firstNonEmpty :: "string list \<Rightarrow> string" where
  "firstNonEmpty [] = []"
| "firstNonEmpty (v # vs) = (if TrimSpace v \<noteq> [] then TrimSpace v else firstNonEmpty vs)"

record RateLimitMetadata =
  rl_Scope :: string
  rl_TeamID :: string
  rl_Model :: string
  rl_RetryAfter :: duration

definition RateLimitScopeRPS :: string where "RateLimitScopeRPS = ''rps''"
definition RateLimitScopeRPM :: string where "RateLimitScopeRPM = ''rpm''"

definition account_identity :: "Account \<Rightarrow> string" where
  "account_identity acc =
     (if TeamID (GrokPart acc) \<noteq> [] then ''team:'' @ TeamID (GrokPart acc)
      else if ID acc \<noteq> 0 then ''account:'' @ AppendInt [] (ID acc) else [])"

definition credentialAffinity :: "(string \<Rightarrow> string) \<Rightarrow> string \<Rightarrow> string" where
  "credentialAffinity digest identity = (let n = TrimSpace identity in if n = [] then [] else ''cred_'' @ digest n)"

definition rateLimitIdentity :: "(string \<Rightarrow> string) \<Rightarrow> Account option \<Rightarrow> string \<Rightarrow> string" where
  "rateLimitIdentity digest acc token =
     (let i = (case acc of Some a \<Rightarrow> account_identity a | None \<Rightarrow> []) in
      if i \<noteq> [] then i else ''token:'' @ credentialAffinity digest token)"

definition scoped_identity :: "(string \<Rightarrow> string) \<Rightarrow> string \<Rightarrow> Account option \<Rightarrow> string \<Rightarrow> string" where
  "scoped_identity digest provider acc token = provider @ '':'' @ rateLimitIdentity digest acc token"

record syntheticCooldownError =
  se_identity :: string
  se_model :: string
  se_delay :: duration

definition newSyntheticCooldownError :: "string \<Rightarrow> string \<Rightarrow> duration \<Rightarrow> syntheticCooldownError" where
  "newSyntheticCooldownError identity model delay = \<lparr>se_identity = identity, se_model = model, se_delay = BoundRateLimitCooldown delay\<rparr>"

fun first_cooldown :: "instant \<Rightarrow> string \<Rightarrow> (string \<times> string) list \<Rightarrow> cooldowns \<Rightarrow> syntheticCooldownError option \<times> cooldowns" where
  "first_cooldown now identity [] r = (None, r)"
| "first_cooldown now identity ((scope, target) # xs) r =
     (case RetryAfterFor now scope identity target r of
        (remaining, r1) \<Rightarrow> if remaining > 0 then (Some (newSyntheticCooldownError identity target remaining), r1)
          else first_cooldown now identity xs r1)"

text \<open>The refusal of \<^verbatim>\<open>waitScopedRateLimit\<close>, before any pacing.\<close>

definition scoped_refusal ::
    "(string \<Rightarrow> string) \<Rightarrow> instant \<Rightarrow> string \<Rightarrow> Account option \<Rightarrow> string \<Rightarrow> string \<Rightarrow> cooldowns \<Rightarrow> syntheticCooldownError option \<times> cooldowns" where
  "scoped_refusal digest now provider acc token model r =
     first_cooldown now (scoped_identity digest provider acc token)
       (concat (map (\<lambda>scope. map (Pair scope) (UniqueStrings [model, ''*''])) [RateLimitScopeRPS, RateLimitScopeRPM])) r"

text \<open>\<open>parsed\<close> is the metadata of the body, \<open>hinted\<close> the header's delay.\<close>

definition noteScopedRateLimit ::
    "(string \<Rightarrow> string) \<Rightarrow> instant \<Rightarrow> string \<Rightarrow> Account option \<Rightarrow> string \<Rightarrow> string \<Rightarrow> int \<Rightarrow> RateLimitMetadata option \<Rightarrow> duration \<Rightarrow>
     cooldowns \<Rightarrow> RateLimitMetadata option \<times> cooldowns" where
  "noteScopedRateLimit digest now provider acc token model status parsed hinted r =
     (if status \<noteq> 429 then (None, r)
      else let meta0 = (case parsed of Some m \<Rightarrow> m | None \<Rightarrow> \<lparr>rl_Scope = RateLimitScopeRPM, rl_TeamID = [], rl_Model = [], rl_RetryAfter = minute\<rparr>);
               meta1 = (if hinted > 0 then meta0\<lparr>rl_RetryAfter := hinted\<rparr> else meta0);
               meta = meta1\<lparr>rl_RetryAfter := BoundRateLimitCooldown (rl_RetryAfter meta1)\<rparr>;
               identity = scoped_identity digest provider acc token;
               note1 = (\<lambda>r target.
                 let r1 = Note now (rl_Scope meta) identity target (rl_RetryAfter meta) r in
                 if rl_TeamID meta \<noteq> [] then Note now (rl_Scope meta) (provider @ '':team:'' @ rl_TeamID meta) target (rl_RetryAfter meta) r1 else r1)
           in (Some meta, foldl note1 r (UniqueStrings [firstNonEmpty [model, rl_Model meta, ''*''], rl_Model meta])))"

section \<open>A cooldown is kept to its end\<close>

text \<open>What may happen to a registry: notes and questions of this process, and anything in the shared store.\<close>

inductive cooldown_run :: "instant \<Rightarrow> cooldowns \<Rightarrow> instant \<Rightarrow> cooldowns \<Rightarrow> bool" for t0 r0 where
  run_start: "cooldown_run t0 r0 t0 r0"
| run_note: "cooldown_run t0 r0 t r \<Longrightarrow> t \<le> t' \<Longrightarrow> cooldown_run t0 r0 t' (Note t' scope teamID model d r)"
| run_ask: "cooldown_run t0 r0 t r \<Longrightarrow> t \<le> t' \<Longrightarrow> cooldown_run t0 r0 t' (snd (RetryAfterFor t' scope teamID model r))"
| run_shared: "cooldown_run t0 r0 t r \<Longrightarrow> t \<le> t' \<Longrightarrow> cooldown_run t0 r0 t' (r\<lparr>cd_shared := shared\<rparr>)"

definition cooling :: "string \<Rightarrow> instant \<Rightarrow> cooldowns \<Rightarrow> bool" where
  "cooling key u r \<longleftrightarrow> (\<exists>cur. map_of (cd_entries r) key = Some cur \<and> u \<le> cur)"

lemma map_of_live_entries: "map_of (filter (\<lambda>(k, until). until > now) xs) key = Some u" if "map_of xs key = Some u" "u > now"
  using that by (induction xs) auto

lemma cooling_gc: "cooling key u r \<Longrightarrow> now < u \<Longrightarrow> cooling key u (maybeGC now r)"
  using map_of_live_entries [of "cd_entries r" key _ now] by (fastforce simp: cooling_def maybeGC_def)

lemma entries_shared [simp]: "cd_entries (noteCooldown now scope identity model d r) = cd_entries r"
  by (simp add: noteCooldown_def)

lemma cooling_shared [simp]: "cooling key u (noteCooldown now scope identity model d r) = cooling key u r"
  "cooling key u (r\<lparr>cd_shared := shared\<rparr>) = cooling key u r"
  by (simp_all add: cooling_def noteCooldown_def)

lemma cooling_note:
  assumes "cooling key u r" "now < u"
  shows "cooling key u (Note now scope teamID model d r)"
proof -
  have "cooling key u (r\<lparr>cd_entries := AList.update k v (cd_entries r)\<rparr>)" if "\<not> (case map_of (cd_entries r) k of Some cur \<Rightarrow> cur > v | None \<Rightarrow> False)" for k v
    using assms(1) that by (auto simp: cooling_def update_conv')
  then show ?thesis using assms cooling_gc by (auto simp: Note_def Let_def)
qed

lemma cooling_ask:
  assumes "cooling key u r" "now < u"
  shows "cooling key u (snd (RetryAfterFor now scope teamID model r))"
  using assms by (auto simp: RetryAfterFor_def Let_def cooling_def delete_conv' split: option.splits)

lemma run_monotone: "cooldown_run t0 r0 t r \<Longrightarrow> t0 \<le> t"
  by (induction rule: cooldown_run.induct) auto

lemma run_cooling: "cooldown_run t0 r0 t r \<Longrightarrow> cooling key u r0 \<Longrightarrow> t < u \<Longrightarrow> cooling key u r"
  by (induction rule: cooldown_run.induct) (auto intro: cooling_note cooling_ask)

lemma note_cools:
  assumes "TrimSpace teamID \<noteq> []" "TrimSpace model \<noteq> []"
  shows "cooling (teamCooldownKey scope teamID model) (now + (if d \<le> 0 then minute else d)) (Note now scope teamID model d r)"
proof -
  let ?k = "teamCooldownKey scope teamID model" and ?u = "now + (if d \<le> 0 then minute else d)"
  have "cooling ?k ?u (r\<lparr>cd_entries := AList.update ?k ?u (cd_entries r)\<rparr>)" by (simp add: cooling_def update_conv')
  then have "cooling ?k ?u (maybeGC now (r\<lparr>cd_entries := AList.update ?k ?u (cd_entries r)\<rparr>))" by (rule cooling_gc) simp
  moreover have "(case map_of (cd_entries r) ?k of Some cur \<Rightarrow> cur > ?u | None \<Rightarrow> False) \<Longrightarrow> cooling ?k ?u r"
    by (auto simp: cooling_def split: option.splits)
  ultimately show ?thesis using assms by (auto simp: Note_def Let_def)
qed

lemma cooling_asked:
  assumes "cooling (teamCooldownKey scope teamID model) u r" "now < u" "TrimSpace teamID \<noteq> []"
  shows "Sub u now \<le> fst (RetryAfterFor now scope teamID model r)"
  using assms Sub_mono [of u _ now] by (fastforce simp: cooling_def RetryAfterFor_def Let_def split: option.splits)

text \<open>A refusal is found when one of the pairs asked for is cooling.\<close>

lemma first_cooldown_found:
  assumes "(scope, target) \<in> set xs" "cooling (teamCooldownKey scope identity target) u r" "now < u" "TrimSpace identity \<noteq> []"
  shows "\<exists>x. fst (first_cooldown now identity xs r) = Some x \<and> 0 < se_delay x"
  using assms
proof (induction xs arbitrary: r)
  case (Cons p xs)
  obtain sc tg where p: "p = (sc, tg)" by (cases p)
  obtain left r1 where q: "RetryAfterFor now sc identity tg r = (left, r1)" by fastforce
  show ?case
  proof (cases "left > 0")
    case True
    have "0 < BoundRateLimitCooldown left" using True by (simp add: BoundRateLimitCooldown_def CooldownRateLimitMax_def)
    then show ?thesis using True by (simp add: p q newSyntheticCooldownError_def)
  next
    case False
    have "(scope, target) \<noteq> p" using cooling_asked [OF Cons.prems(2-4)] Sub_pos [OF Cons.prems(3)] q False by (auto simp: p)
    moreover have "cooling (teamCooldownKey scope identity target) u r1" using cooling_ask [OF Cons.prems(2,3), of sc identity tg] by (simp add: q)
    ultimately show ?thesis using Cons.IH [of r1] Cons.prems False by (auto simp: p q)
  qed
qed simp

lemma foldl_cools:
  assumes "x \<in> set xs" "\<And>r y. cooling key u r \<Longrightarrow> cooling key u (f r y)" "\<And>r. cooling key u (f r x)"
  shows "cooling key u (foldl f r xs)"
proof -
  have keep: "cooling key u r \<Longrightarrow> cooling key u (foldl f r ys)" for r ys by (induction ys arbitrary: r) (auto intro: assms(2))
  show ?thesis using assms(1) by (induction xs arbitrary: r) (auto intro: keep assms(3))
qed

text \<open>The process-local key folds the case of names, the shared one does not.\<close>

lemma shared_key_keeps_case:
  "teamCooldownKey scope teamID ''Grok-4'' = teamCooldownKey scope teamID ''grok-4''" "shared_key scope teamID ''Grok-4'' \<noteq> shared_key scope teamID ''grok-4''"
proof -
  have "ToLower (TrimSpace ''Grok-4'') = ToLower (TrimSpace ''grok-4'')" by code_simp
  then show "teamCooldownKey scope teamID ''Grok-4'' = teamCooldownKey scope teamID ''grok-4''" by (simp add: teamCooldownKey_def)
qed (simp add: shared_key_def)

text \<open>The bound on the registry only starts a collection: a live entry is never dropped, so live keys exceed any bound.\<close>

lemma live_entries_unbounded:
  assumes "\<forall>(k, until) \<in> set (cd_entries r). until > now" "map_of (cd_entries r) (teamCooldownKey scope teamID model) = None"
    "TrimSpace teamID \<noteq> []" "TrimSpace model \<noteq> []"
  shows "length (cd_entries (Note now scope teamID model d r)) = length (cd_entries r) + 1"
proof -
  have u: "AList.update k v xs = xs @ [(k, v)]" if "map_of xs k = None" for k v and xs :: "(string \<times> instant) list"
    using that by (induction xs) (auto split: if_splits)
  have "filter (\<lambda>(k, until). until > now) (cd_entries r) = cd_entries r" using assms(1) by (auto simp: filter_id_conv)
  then show ?thesis using assms(2-4) by (auto simp: Note_def Let_def maybeGC_def u)
qed

lemma spaced_identity: "TrimSpace (p @ '':'' @ q) \<noteq> []"
proof
  assume e: "TrimSpace (p @ '':'' @ q) = []"
  have "\<forall>x \<in> set s. is_space x" if "TrimSpace s = []" for s
  proof -
    have "\<forall>x \<in> set (dropWhile is_space s). is_space x" using that by (simp add: TrimSpace_def dropWhile_eq_Nil_conv)
    then have "dropWhile is_space s = []" using hd_dropWhile [of is_space s] hd_in_set by blast
    then show ?thesis by (simp add: dropWhile_eq_Nil_conv)
  qed
  from this [OF e] show False by (simp add: is_space_def)
qed

lemma unique_strings:
  assumes "x \<in> set xs" "TrimSpace x \<noteq> []"
  shows "TrimSpace x \<in> set (UniqueStrings xs)"
proof -
  have "set acc \<subseteq> set (foldl (\<lambda>acc item. let t = TrimSpace item in if t = [] \<or> t \<in> set acc then acc else acc @ [t]) acc xs) \<and>
      (x \<in> set xs \<longrightarrow> TrimSpace x \<in> set (foldl (\<lambda>acc item. let t = TrimSpace item in if t = [] \<or> t \<in> set acc then acc else acc @ [t]) acc xs))" for acc
  proof (induction xs arbitrary: acc)
    case (Cons y ys)
    show ?case using Cons.IH [of acc] Cons.IH [of "acc @ [TrimSpace y]"] assms(2) by (auto simp: Let_def)
  qed simp
  then show ?thesis using assms(1) by (simp add: UniqueStrings_def)
qed

lemma key_trimmed [simp]: "teamCooldownKey scope teamID (TrimSpace model) = teamCooldownKey scope teamID model"
  by (simp add: teamCooldownKey_def)

lemma noted_team_cools:
  assumes noted: "noteScopedRateLimit digest now provider acc token model 429 parsed hinted r = (Some meta, r1)"
    and m: "rl_TeamID meta \<noteq> []" "TrimSpace model \<noteq> []"
  shows "cooling (teamCooldownKey (rl_Scope meta) (provider @ '':team:'' @ rl_TeamID meta) model) (now + rl_RetryAfter meta) r1"
proof -
  define f where "f = (\<lambda>r target.
     let r1 = Note now (rl_Scope meta) (scoped_identity digest provider acc token) target (rl_RetryAfter meta) r in
     if rl_TeamID meta \<noteq> [] then Note now (rl_Scope meta) (provider @ '':team:'' @ rl_TeamID meta) target (rl_RetryAfter meta) r1 else r1)"
  have r1: "r1 = foldl f r (UniqueStrings [TrimSpace model, rl_Model meta])"
    using noted m(2) by (auto simp: noteScopedRateLimit_def Let_def f_def)
  have id: "TrimSpace (provider @ '':team:'' @ rl_TeamID meta) \<noteq> []" using spaced_identity [of provider "''team:'' @ rl_TeamID meta"] by simp
  show ?thesis
  proof (cases "rl_RetryAfter meta > 0")
    case True
    have keep: "cooling k u (f r y)" if "cooling k u r" "now < u" for k u r y
      using that by (auto simp: f_def Let_def intro: cooling_note)
    have "cooling (teamCooldownKey (rl_Scope meta) (provider @ '':team:'' @ rl_TeamID meta) model) (now + rl_RetryAfter meta) (f r (TrimSpace model))" for r
      using note_cools [OF id, of "TrimSpace model" "rl_Scope meta" now "rl_RetryAfter meta"] m True by (simp add: f_def Let_def)
    then show ?thesis unfolding r1
      using unique_strings [of "TrimSpace model" "[TrimSpace model, rl_Model meta]"] m(2) keep True by (intro foldl_cools [of "TrimSpace model"]) auto
  next
    case False
    have mono: "cooling k u r \<Longrightarrow> u' \<le> u \<Longrightarrow> cooling k u' r" for k u u' r by (auto simp: cooling_def)
    have keep: "cooling k (now + minute) (f r y)" if "cooling k (now + minute) r" for k r y
      using that by (auto simp: f_def Let_def intro!: cooling_note)
    have "cooling (teamCooldownKey (rl_Scope meta) (provider @ '':team:'' @ rl_TeamID meta) model) (now + minute) (f r (TrimSpace model))" for r
      using note_cools [OF id, of "TrimSpace model" "rl_Scope meta" now "rl_RetryAfter meta"] m False by (simp add: f_def Let_def)
    then have "cooling (teamCooldownKey (rl_Scope meta) (provider @ '':team:'' @ rl_TeamID meta) model) (now + minute) r1" unfolding r1
      using unique_strings [of "TrimSpace model" "[TrimSpace model, rl_Model meta]"] m(2) keep by (intro foldl_cools [of "TrimSpace model"]) auto
    then show ?thesis using False by (auto intro: mono)
  qed
qed

text \<open>Property C19: a rate limit of a team holds every account of the team. After a 429 that names the team was noted for a
  model, a request for that model on any account of the team at the same provider is refused with a positive delay until the
  noted delay has passed, whatever else is noted, asked or collected in this process or changed in the shared store.\<close>

theorem team_limit_reaches_siblings:
  assumes "noteScopedRateLimit digest now provider acc token model 429 parsed hinted r = (Some meta, r1)"
    "rl_Scope meta \<in> {RateLimitScopeRPS, RateLimitScopeRPM}" "rl_TeamID meta \<noteq> []" "TrimSpace model \<noteq> []"
    "cooldown_run now r1 t r2" "t < now + rl_RetryAfter meta" "TeamID (GrokPart sibling) = rl_TeamID meta"
  shows "\<exists>x. fst (scoped_refusal digest t provider (Some sibling) key model r2) = Some x \<and> 0 < se_delay x"
proof -
  let ?id = "provider @ '':team:'' @ rl_TeamID meta"
  have id: "scoped_identity digest provider (Some sibling) key = ?id"
    using assms(3,7) by (simp add: scoped_identity_def rateLimitIdentity_def account_identity_def Let_def)
  have c: "cooling (teamCooldownKey (rl_Scope meta) ?id (TrimSpace model)) (now + rl_RetryAfter meta) r2"
    using run_cooling [OF assms(5) noted_team_cools [OF assms(1,3,4)] assms(6)] by simp
  have "(rl_Scope meta, TrimSpace model) \<in> set (concat (map (\<lambda>scope. map (Pair scope) (UniqueStrings [model, ''*''])) [RateLimitScopeRPS, RateLimitScopeRPM]))"
    using assms(2) unique_strings [of model "[model, ''*'']"] assms(4) by auto
  from first_cooldown_found [OF this c assms(6)] spaced_identity [of provider "''team:'' @ rl_TeamID meta"] id
  show ?thesis by (simp add: scoped_refusal_def)
qed

definition example_limit :: RateLimitMetadata where
  "example_limit = \<lparr>rl_Scope = ''rpm'', rl_TeamID = ''t1'', rl_Model = ''grok-4'', rl_RetryAfter = 90 * second\<rparr>"

definition team_account :: "int \<Rightarrow> Account" where
  "team_account i = zero_account\<lparr>ID := i, GrokPart := (GrokPart zero_account)\<lparr>TeamID := ''t1''\<rparr>\<rparr>"

theorem team_limit_reaches_siblings_witness:
  "\<exists>meta r1 x. noteScopedRateLimit id 0 ''build'' (Some (team_account 1)) ''k'' ''grok-4'' 429 (Some example_limit) 0 \<lparr>cd_entries = [], cd_lastGC = 0, cd_shared = None\<rparr>
      = (Some meta, r1) \<and>
     fst (scoped_refusal id minute ''build'' (Some (team_account 2)) ''j'' ''grok-4'' (r1\<lparr>cd_shared := None\<rparr>)) = Some x \<and> 0 < se_delay x"
proof -
  let ?r = "\<lparr>cd_entries = [], cd_lastGC = 0, cd_shared = None\<rparr>"
  obtain meta r1 where n: "noteScopedRateLimit id 0 ''build'' (Some (team_account 1)) ''k'' ''grok-4'' 429 (Some example_limit) 0 ?r = (Some meta, r1)"
    "meta = example_limit" by (simp add: noteScopedRateLimit_def Let_def BoundRateLimitCooldown_def CooldownRateLimitMax_def example_limit_def)
  have "cooldown_run 0 r1 minute (r1\<lparr>cd_shared := None\<rparr>)" by (rule cooldown_run.run_shared [OF cooldown_run.run_start]) simp
  moreover have "TrimSpace ''grok-4'' \<noteq> []" by code_simp
  ultimately obtain x where "fst (scoped_refusal id minute ''build'' (Some (team_account 2)) ''j'' ''grok-4'' (r1\<lparr>cd_shared := None\<rparr>)) = Some x" "0 < se_delay x"
    using team_limit_reaches_siblings [OF n(1), where t = minute and sibling = "team_account 2" and key = "''j''"] n(2)
    by (auto simp: example_limit_def team_account_def RateLimitScopeRPM_def)
  then show ?thesis using n(1) by blast
qed

section \<open>Pacing\<close>

text \<open>The pacing script on one key: \<^const>\<open>None\<close> is the slot, a number the wait. The key is its deadline, if it was set.\<close>

definition pace :: "int \<Rightarrow> int \<Rightarrow> int option \<Rightarrow> int option \<times> int option" where
  "pace now_ms interval key = (case key of
     Some d \<Rightarrow> if now_ms < d then (Some (max 1 (d - now_ms)), key) else (None, Some (now_ms + interval))
   | None \<Rightarrow> (None, Some (now_ms + interval)))"

definition pace_interval :: "duration \<Rightarrow> int" where
  "pace_interval interval = (if interval < millisecond then millisecond else interval) div millisecond"

text \<open>The times of the calls, from any replica; the times at which one gets the slot.\<close>

fun granted :: "int \<Rightarrow> int option \<Rightarrow> int list \<Rightarrow> int list" where
  "granted interval key [] = []"
| "granted interval key (t # ts) = (case pace t interval key of
     (None, key1) \<Rightarrow> t # granted interval key1 ts
   | (Some left, key1) \<Rightarrow> granted interval key1 ts)"

lemma granted_after: "0 \<le> i \<Longrightarrow> t \<in> set (granted i (Some d) ts) \<Longrightarrow> d \<le> t"
  by (induction ts arbitrary: d) (fastforce simp: pace_def split: if_splits)+

lemma granted_spaced: "0 \<le> i \<Longrightarrow> successively (\<lambda>a b. a + i \<le> b) (granted i key ts)"
proof (induction ts arbitrary: key)
  case (Cons t ts)
  have "successively (\<lambda>a b. a + i \<le> b) (t # granted i (Some (t + i)) ts)"
    using Cons.IH [OF Cons.prems, of "Some (t + i)"] granted_after [OF Cons.prems, of "hd (granted i (Some (t + i)) ts)" "t + i" ts]
    by (cases "granted i (Some (t + i)) ts = []") (simp_all add: successively_Cons)
  then show ?case using Cons.IH [OF Cons.prems] by (auto simp: pace_def split: option.splits)
qed simp

text \<open>The requests of a credential are spaced, over all replicas: whatever replicas ask at whatever times, two
  slots of one pacing key are at least the pacing interval apart, in whole milliseconds of the server's clock.\<close>

theorem pacing_spaces_requests:
  "successively (\<lambda>a b. a + pace_interval interval \<le> b) (granted (pace_interval interval) key ts) \<and> 0 < pace_interval interval"
proof -
  have "0 < pace_interval interval" by (auto simp: pace_interval_def)
  then show ?thesis using granted_spaced by simp
qed

end
