(* ===== verification/Response_Store.thy ===== *)
theory Response_Store
  imports Prelude "HOL-Library.AList"
begin

text \<open>
  Stored responses: the in-process store (\<^verbatim>\<open>src/internal/store/memory_response_store.go\<close>) and the one in Redis
  (\<^verbatim>\<open>redis_ephemeral.go\<close>), and the contract both implement: a response is found by its owner under its id until it expires.
  Redis keys are held before their digest and expire by the server's clock in milliseconds, which is the same here. What
  decoding an encoded row gives is an argument, \<open>codec\<close>; \<^const>\<open>None\<close> is the encoder's error.
\<close>

section \<open>The contract of an expiring store\<close>

text \<open>\<open>live s t k\<close> is what the store holds for \<open>k\<close> at time \<open>t\<close>; an entry may go \<open>slack\<close> before its deadline, never later.\<close>

locale expiring_store =
  fixes ok :: "'s \<Rightarrow> bool"
    and live :: "'s \<Rightarrow> instant \<Rightarrow> 'k \<Rightarrow> 'v option"
    and put :: "'k \<Rightarrow> 'v \<Rightarrow> instant \<Rightarrow> duration \<Rightarrow> 's \<Rightarrow> 's"
    and fits :: "'v \<Rightarrow> instant \<Rightarrow> duration \<Rightarrow> bool"
    and look :: "'k \<Rightarrow> instant \<Rightarrow> 's \<Rightarrow> 'v option \<times> 's"
    and drop_key :: "'k \<Rightarrow> 's \<Rightarrow> 's"
    and slack :: duration
  assumes put_ok: "ok s \<Longrightarrow> ok (put k v now ttl s)"
    and look_ok: "ok s \<Longrightarrow> ok (snd (look k t s))"
    and drop_ok: "ok s \<Longrightarrow> ok (drop_key k s)"
    and put_found: "ok s \<Longrightarrow> fits v now ttl \<Longrightarrow> now \<le> t \<Longrightarrow> t < now + ttl - slack \<Longrightarrow> live (put k v now ttl s) t k = Some v"
    and put_gone: "ok s \<Longrightarrow> fits v now ttl \<Longrightarrow> now + ttl \<le> t \<Longrightarrow> live (put k v now ttl s) t k = None"
    and put_other: "ok s \<Longrightarrow> now \<le> t \<Longrightarrow> k' \<noteq> k \<Longrightarrow> live (put k v now ttl s) t k' = live s t k'"
    and look_value: "ok s \<Longrightarrow> fst (look k t s) = live s t k"
    and look_keeps: "ok s \<Longrightarrow> t \<le> t' \<Longrightarrow> live (snd (look k t s)) t' k' = live s t' k'"
    and drop_gone: "ok s \<Longrightarrow> live (drop_key k s) t k = None"
    and drop_other: "ok s \<Longrightarrow> k' \<noteq> k \<Longrightarrow> live (drop_key k s) t k' = live s t k'"
begin

text \<open>What others do between two requests for \<open>k\<close>: anything but to save or to delete \<open>k\<close>.\<close>

inductive elsewhere :: "'k \<Rightarrow> instant \<Rightarrow> 's \<Rightarrow> instant \<Rightarrow> 's \<Rightarrow> bool" for k t0 s0 where
  nothing: "elsewhere k t0 s0 t0 s0"
| put_else: "elsewhere k t0 s0 t s \<Longrightarrow> t \<le> t' \<Longrightarrow> k' \<noteq> k \<Longrightarrow> elsewhere k t0 s0 t' (put k' v t' ttl s)"
| look_else: "elsewhere k t0 s0 t s \<Longrightarrow> t \<le> t' \<Longrightarrow> elsewhere k t0 s0 t' (snd (look k' t' s))"
| drop_else: "elsewhere k t0 s0 t s \<Longrightarrow> t \<le> t' \<Longrightarrow> k' \<noteq> k \<Longrightarrow> elsewhere k t0 s0 t' (drop_key k' s)"

lemma elsewhere_ok: "elsewhere k t0 s0 t s \<Longrightarrow> ok s0 \<Longrightarrow> ok s \<and> t0 \<le> t"
  by (induction rule: elsewhere.induct) (auto intro: put_ok look_ok drop_ok)

lemma elsewhere_keeps: "elsewhere k t0 s0 t s \<Longrightarrow> ok s0 \<Longrightarrow> t \<le> t' \<Longrightarrow> live s t' k = live s0 t' k"
proof (induction arbitrary: t' rule: elsewhere.induct)
  case (put_else t s t1 k' v ttl)
  then show ?case using put_other [of s t1 t' k k'] elsewhere_ok by auto
next
  case (look_else t s t1 k')
  then show ?case using look_keeps [of s t1 t'] elsewhere_ok by auto
next
  case (drop_else t s t1 k')
  then show ?case using drop_other [of s k k'] elsewhere_ok by auto
qed simp

lemma saved_until:
  assumes "ok s" "fits v now ttl" "elsewhere k now (put k v now ttl s) t s'"
  shows "t < now + ttl - slack \<Longrightarrow> fst (look k t s') = Some v" "now + ttl \<le> t \<Longrightarrow> fst (look k t s') = None"
proof -
  have o: "ok (put k v now ttl s)" using put_ok [OF assms(1)] .
  have "now \<le> t" "fst (look k t s') = live (put k v now ttl s) t k"
    using elsewhere_ok [OF assms(3) o] elsewhere_keeps [OF assms(3) o] look_value by auto
  then show "t < now + ttl - slack \<Longrightarrow> fst (look k t s') = Some v" "now + ttl \<le> t \<Longrightarrow> fst (look k t s') = None"
    using put_found [OF assms(1,2)] put_gone [OF assms(1,2)] by simp_all
qed

lemma dropped_is_gone: "ok s \<Longrightarrow> elsewhere k t0 (drop_key k s) t s' \<Longrightarrow> fst (look k t s') = None"
  using elsewhere_keeps [of k t0 "drop_key k s" t s' t] elsewhere_ok [of k t0 "drop_key k s" t s'] drop_ok look_value drop_gone by simp

end

section \<open>The in-process store\<close>

record StoredResponse =
  sr_ResponseID :: string
  sr_OwnerHash :: string
  sr_AccountID :: int
  sr_Model :: string
  sr_Provider :: string
  sr_PromptCacheKey :: string
  sr_ContentType :: string
  sr_Body :: string
  sr_InputItems :: string
  sr_PreviousResponseID :: string
  sr_ExpiresAt :: instant
  sr_CreatedAt :: instant
  sr_UpdatedAt :: instant

definition MemoryResponseTTL :: duration where "MemoryResponseTTL = 30 * 24 * hour"
definition memoryResponseSweepThreshold :: nat where "memoryResponseSweepThreshold = 256"

record MemoryResponseStore =
  mr_entries :: "(string \<times> StoredResponse \<times> instant) list"
  mr_ttl :: duration

definition NewMemoryResponseStore :: "duration \<Rightarrow> MemoryResponseStore" where
  "NewMemoryResponseStore ttl = \<lparr>mr_entries = [], mr_ttl = (if ttl \<le> 0 then MemoryResponseTTL else ttl)\<rparr>"

datatype store_error = ErrStoredResponseIdentityRequired | ErrNoRows | EncodeError

definition memoryResponseKey :: "string \<Rightarrow> string \<Rightarrow> string" where
  "memoryResponseKey responseID ownerHash = ownerHash @ [CHR 0x00] @ responseID"

definition expired :: "instant \<Rightarrow> instant \<Rightarrow> bool" where
  "expired now expiresAt \<longleftrightarrow> expiresAt \<noteq> 0 \<and> \<not> now < expiresAt"

definition sweepLocked :: "instant \<Rightarrow> MemoryResponseStore \<Rightarrow> MemoryResponseStore" where
  "sweepLocked now s = s\<lparr>mr_entries := filter (\<lambda>(k, r, e). \<not> expired now e) (mr_entries s)\<rparr>"

text \<open>The row as it is stored: names trimmed, times set.\<close>

definition stamped :: "instant \<Rightarrow> duration \<Rightarrow> StoredResponse \<Rightarrow> StoredResponse" where
  "stamped now ttl r = r\<lparr>sr_ResponseID := TrimSpace (sr_ResponseID r), sr_OwnerHash := TrimSpace (sr_OwnerHash r),
     sr_CreatedAt := (if sr_CreatedAt r = 0 then now else sr_CreatedAt r), sr_UpdatedAt := now, sr_ExpiresAt := now + ttl\<rparr>"

definition unnamed :: "string \<Rightarrow> string \<Rightarrow> bool" where
  "unnamed responseID ownerHash \<longleftrightarrow> TrimSpace responseID = [] \<or> TrimSpace ownerHash = []"

definition memory_put :: "string \<Rightarrow> StoredResponse \<Rightarrow> instant \<Rightarrow> duration \<Rightarrow> MemoryResponseStore \<Rightarrow> MemoryResponseStore" where
  "memory_put key r now ttl s =
     (let s1 = (if length (mr_entries s) \<ge> memoryResponseSweepThreshold then sweepLocked now s else s) in
      s1\<lparr>mr_entries := AList.update key (r, now + ttl) (mr_entries s1)\<rparr>)"

definition memory_SaveStoredResponse ::
    "instant \<Rightarrow> StoredResponse option \<Rightarrow> duration \<Rightarrow> MemoryResponseStore \<Rightarrow> store_error option \<times> MemoryResponseStore" where
  "memory_SaveStoredResponse now response ttl0 s = (case response of
     None \<Rightarrow> (Some ErrStoredResponseIdentityRequired, s)
   | Some r \<Rightarrow> if unnamed (sr_ResponseID r) (sr_OwnerHash r) then (Some ErrStoredResponseIdentityRequired, s)
       else let ttl = (if ttl0 \<le> 0 then mr_ttl s else ttl0); stored = stamped now ttl r in
         (None, memory_put (memoryResponseKey (sr_ResponseID stored) (sr_OwnerHash stored)) stored now ttl s))"

definition memory_look :: "string \<Rightarrow> instant \<Rightarrow> MemoryResponseStore \<Rightarrow> StoredResponse option \<times> MemoryResponseStore" where
  "memory_look key now s = (case map_of (mr_entries s) key of
     None \<Rightarrow> (None, s)
   | Some (r, e) \<Rightarrow> if expired now e then (None, s\<lparr>mr_entries := AList.delete key (mr_entries s)\<rparr>) else (Some r, s))"

definition memory_GetStoredResponse ::
    "instant \<Rightarrow> string \<Rightarrow> string \<Rightarrow> MemoryResponseStore \<Rightarrow> (store_error + StoredResponse) \<times> MemoryResponseStore" where
  "memory_GetStoredResponse now responseID ownerHash s =
     (if unnamed responseID ownerHash then (Inl ErrNoRows, s)
      else case memory_look (memoryResponseKey (TrimSpace responseID) (TrimSpace ownerHash)) now s of
        (None, s1) \<Rightarrow> (Inl ErrNoRows, s1) | (Some r, s1) \<Rightarrow> (Inr r, s1))"

definition memory_drop :: "string \<Rightarrow> MemoryResponseStore \<Rightarrow> MemoryResponseStore" where
  "memory_drop key s = s\<lparr>mr_entries := AList.delete key (mr_entries s)\<rparr>"

definition memory_DeleteStoredResponse ::
    "string \<Rightarrow> string \<Rightarrow> MemoryResponseStore \<Rightarrow> store_error option \<times> MemoryResponseStore" where
  "memory_DeleteStoredResponse responseID ownerHash s =
     (let key = memoryResponseKey (TrimSpace responseID) (TrimSpace ownerHash) in
      if unnamed responseID ownerHash then (Some ErrNoRows, s)
      else if map_of (mr_entries s) key = None then (Some ErrNoRows, s) else (None, memory_drop key s))"

section \<open>The store in Redis\<close>

text \<open>The stored-response keys of the database, with their deadlines in milliseconds.\<close>

type_synonym response_keys = "string \<Rightarrow> (StoredResponse \<times> int) option"

definition storedResponseKey :: "string \<Rightarrow> string \<Rightarrow> string" where
  "storedResponseKey responseID ownerHash = TrimSpace ownerHash @ [CHR 0x00] @ TrimSpace responseID"

text \<open>The time to live the client library sends.\<close>

definition ttl_millis :: "duration \<Rightarrow> int" where
  "ttl_millis ttl = (if ttl < millisecond then 1 else ttl div millisecond)"

definition redis_put :: "string \<Rightarrow> StoredResponse \<Rightarrow> instant \<Rightarrow> duration \<Rightarrow> response_keys \<Rightarrow> response_keys" where
  "redis_put key r now ttl s = s(key \<mapsto> (r, now div millisecond + ttl_millis ttl))"

definition redis_SaveStoredResponse ::
    "(StoredResponse \<Rightarrow> StoredResponse option) \<Rightarrow> instant \<Rightarrow> StoredResponse option \<Rightarrow> duration \<Rightarrow> response_keys \<Rightarrow> store_error option \<times> response_keys" where
  "redis_SaveStoredResponse codec now response ttl0 s = (case response of
     None \<Rightarrow> (Some ErrStoredResponseIdentityRequired, s)
   | Some r \<Rightarrow> if unnamed (sr_ResponseID r) (sr_OwnerHash r) then (Some ErrStoredResponseIdentityRequired, s)
       else let ttl = (if ttl0 \<le> 0 then MemoryResponseTTL else ttl0); stored = stamped now ttl r in
         (case codec stored of
            None \<Rightarrow> (Some EncodeError, s)
          | Some row \<Rightarrow> (None, redis_put (storedResponseKey (sr_ResponseID stored) (sr_OwnerHash stored)) row now ttl s)))"

text \<open>\<^verbatim>\<open>getExpiringRedisJSON\<close>: the key must be there by the server's clock, and the row not expired by its own time.\<close>

definition redis_look :: "string \<Rightarrow> instant \<Rightarrow> response_keys \<Rightarrow> StoredResponse option \<times> response_keys" where
  "redis_look key now s = (case s key of
     None \<Rightarrow> (None, s)
   | Some (r, d) \<Rightarrow> if d \<le> now div millisecond then (None, s)
       else if expired now (sr_ExpiresAt r) then (None, s(key := None)) else (Some r, s))"

definition redis_GetStoredResponse :: "instant \<Rightarrow> string \<Rightarrow> string \<Rightarrow> response_keys \<Rightarrow> (store_error + StoredResponse) \<times> response_keys" where
  "redis_GetStoredResponse now responseID ownerHash s = (case redis_look (storedResponseKey responseID ownerHash) now s of
     (None, s1) \<Rightarrow> (Inl ErrNoRows, s1) | (Some r, s1) \<Rightarrow> (Inr r, s1))"

definition redis_drop :: "string \<Rightarrow> response_keys \<Rightarrow> response_keys" where
  "redis_drop key s = s(key := None)"

definition redis_DeleteStoredResponse :: "instant \<Rightarrow> string \<Rightarrow> string \<Rightarrow> response_keys \<Rightarrow> store_error option \<times> response_keys" where
  "redis_DeleteStoredResponse now responseID ownerHash s =
     (let key = storedResponseKey responseID ownerHash in
      (case s key of Some (r, d) \<Rightarrow> if d \<le> now div millisecond then Some ErrNoRows else None | None \<Rightarrow> Some ErrNoRows, redis_drop key s))"

section \<open>Both keep the contract\<close>

lemma expired_mono: "expired t e \<Longrightarrow> t \<le> t' \<Longrightarrow> expired t' e"
  by (auto simp: expired_def)

definition memory_live :: "MemoryResponseStore \<Rightarrow> instant \<Rightarrow> string \<Rightarrow> StoredResponse option" where
  "memory_live s t key = (case map_of (mr_entries s) key of Some (r, e) \<Rightarrow> if expired t e then None else Some r | None \<Rightarrow> None)"

definition memory_ok :: "MemoryResponseStore \<Rightarrow> bool" where
  "memory_ok s \<longleftrightarrow> distinct (map fst (mr_entries s)) \<and> 0 < mr_ttl s"

lemma map_of_swept:
  "distinct (map fst xs) \<Longrightarrow> map_of (filter (\<lambda>(k, r, e). \<not> expired now e) xs) key =
     (case map_of xs key of Some (r, e) \<Rightarrow> if expired now e then None else Some (r, e) | None \<Rightarrow> None)"
proof (induction xs)
  case (Cons x xs)
  obtain k r e where x: "x = (k, r, e)" by (cases x) auto
  have "map_of xs k = None" using Cons.prems by (simp add: x map_of_eq_None_iff)
  then show ?case using Cons by (auto simp: x)
qed simp

lemma swept_live: "memory_ok s \<Longrightarrow> now \<le> t \<Longrightarrow> memory_live (sweepLocked now s) t key = memory_live s t key"
  using expired_mono [of now _ t] by (auto simp: memory_live_def sweepLocked_def memory_ok_def map_of_swept split: option.split)

lemma swept_ok: "memory_ok s \<Longrightarrow> memory_ok (sweepLocked now s)"
  by (simp add: memory_ok_def sweepLocked_def distinct_map_filter)

lemma put_live:
  assumes "memory_ok s" "now \<le> t"
  shows "memory_live (memory_put key r now ttl s) t k = (if k = key then if expired t (now + ttl) then None else Some r else memory_live s t k)"
proof -
  have "memory_live (s1\<lparr>mr_entries := AList.update key (r, now + ttl) (mr_entries s1)\<rparr>) t k =
      (if k = key then if expired t (now + ttl) then None else Some r else memory_live s1 t k)" for s1
    by (simp add: memory_live_def update_conv')
  then show ?thesis using swept_live [OF assms] by (simp add: memory_put_def Let_def)
qed

interpretation memory_responses: expiring_store memory_ok memory_live memory_put "\<lambda>r now ttl. 0 < now + ttl" memory_look memory_drop 0
proof
  fix s :: MemoryResponseStore and k k' :: string and v :: StoredResponse and now t t' ttl :: int
  assume o: "memory_ok s"
  show "memory_ok (memory_put k v now ttl s)"
    using o swept_ok [OF o, of now] by (simp add: memory_put_def Let_def memory_ok_def distinct_update)
  show "memory_ok (snd (memory_look k t s))"
    using o by (auto simp: memory_look_def memory_ok_def distinct_delete split: option.split)
  show "memory_ok (memory_drop k s)" using o by (simp add: memory_drop_def memory_ok_def distinct_delete)
  show "0 < now + ttl \<Longrightarrow> now \<le> t \<Longrightarrow> t < now + ttl - 0 \<Longrightarrow> memory_live (memory_put k v now ttl s) t k = Some v"
    using put_live [OF o] by (simp add: expired_def)
  show "memory_live (memory_put k v now ttl s) t k = None" if "0 < now + ttl" "now + ttl \<le> t"
    using that by (cases "now \<le> t") (simp_all add: put_live [OF o] expired_def memory_live_def memory_put_def Let_def update_conv')
  show "now \<le> t \<Longrightarrow> k' \<noteq> k \<Longrightarrow> memory_live (memory_put k v now ttl s) t k' = memory_live s t k'" using put_live [OF o] by simp
  show "fst (memory_look k t s) = memory_live s t k" by (auto simp: memory_look_def memory_live_def split: option.split)
  show "t \<le> t' \<Longrightarrow> memory_live (snd (memory_look k t s)) t' k' = memory_live s t' k'"
    using expired_mono [of t _ t'] by (auto simp: memory_look_def memory_live_def delete_conv' split: option.split)
  show "memory_live (memory_drop k s) t k = None" by (simp add: memory_drop_def memory_live_def delete_conv')
  show "k' \<noteq> k \<Longrightarrow> memory_live (memory_drop k s) t k' = memory_live s t k'" by (simp add: memory_drop_def memory_live_def delete_conv')
qed

definition redis_live :: "response_keys \<Rightarrow> instant \<Rightarrow> string \<Rightarrow> StoredResponse option" where
  "redis_live s t key = (case s key of
     Some (r, d) \<Rightarrow> if d \<le> t div millisecond \<or> expired t (sr_ExpiresAt r) then None else Some r | None \<Rightarrow> None)"

lemma before_ttl: "t < now + ttl - 2 * millisecond \<Longrightarrow> now \<le> t \<Longrightarrow> t div millisecond < now div millisecond + ttl_millis ttl"
  by (auto simp: ttl_millis_def)

interpretation redis_responses: expiring_store "\<lambda>s. True" redis_live redis_put "\<lambda>r now ttl. 0 < now + ttl \<and> sr_ExpiresAt r = now + ttl"
  redis_look redis_drop "2 * millisecond"
proof (unfold_locales, goal_cases)
  case (4 s v now ttl t k)
  then show ?case using before_ttl [of t now ttl] by (auto simp: redis_live_def redis_put_def expired_def)
next
  case (8 s t t' k k')
  have "t div millisecond \<le> t' div millisecond" using 8 by (intro zdiv_mono1) auto
  then show ?case using 8 expired_mono [of t _ t'] by (auto simp: redis_live_def redis_look_def split: option.split)
qed (auto simp: redis_live_def redis_put_def redis_look_def redis_drop_def expired_def split: option.split)

section \<open>What a client of the stores relies on\<close>

lemma key_inj:
  assumes "CHR 0x00 \<notin> set o1" "CHR 0x00 \<notin> set o2" "memoryResponseKey i o1 = memoryResponseKey j o2"
  shows "i = j \<and> o1 = o2"
proof -
  have "takeWhile (\<lambda>c. c \<noteq> CHR 0x00) (memoryResponseKey i o1) = o1" if "CHR 0x00 \<notin> set o1" for i o1
    unfolding memoryResponseKey_def by (subst takeWhile_append2) (use that in auto)
  then have "o1 = o2" using assms by metis
  then show ?thesis using assms(3) by (simp add: memoryResponseKey_def)
qed

lemma memory_get:
  "\<not> unnamed responseID ownerHash \<Longrightarrow> fst (memory_GetStoredResponse t responseID ownerHash s) =
     (case fst (memory_look (memoryResponseKey (TrimSpace responseID) (TrimSpace ownerHash)) t s) of None \<Rightarrow> Inl ErrNoRows | Some r \<Rightarrow> Inr r)"
  by (auto simp: memory_GetStoredResponse_def split: prod.split option.split)

lemma memory_saved:
  assumes "memory_SaveStoredResponse now (Some r) ttl s = (None, s1)"
  shows "\<not> unnamed (sr_ResponseID r) (sr_OwnerHash r)"
    "s1 = memory_put (memoryResponseKey (TrimSpace (sr_ResponseID r)) (TrimSpace (sr_OwnerHash r)))
       (stamped now (if ttl \<le> 0 then mr_ttl s else ttl) r) now (if ttl \<le> 0 then mr_ttl s else ttl) s"
  using assms by (auto simp: memory_SaveStoredResponse_def Let_def stamped_def split: if_splits)

text \<open>Property C24: a response stored in the process is found by its owner under its id, with what was stored and its times set,
  exactly until its lifetime is over, whatever is stored, read, swept or deleted under other keys in between.\<close>

theorem stored_response_lives:
  assumes "memory_ok s" "0 < now" "memory_SaveStoredResponse now (Some r) ttl s = (None, s1)"
    "memory_responses.elsewhere (memoryResponseKey (TrimSpace (sr_ResponseID r)) (TrimSpace (sr_OwnerHash r))) now s1 t s2"
  shows "fst (memory_GetStoredResponse t (sr_ResponseID r) (sr_OwnerHash r) s2) =
    (let life = (if ttl \<le> 0 then mr_ttl s else ttl) in if t < now + life then Inr (stamped now life r) else Inl ErrNoRows)"
proof -
  define life where "life = (if ttl \<le> 0 then mr_ttl s else ttl)"
  have l: "0 < now + life" using assms(1,2) by (auto simp: life_def memory_ok_def)
  note m = memory_saved [OF assms(3), folded life_def]
  from memory_responses.saved_until [OF assms(1) l assms(4) [unfolded m(2)]]
  show ?thesis using memory_get [OF m(1), of t s2] by (cases "t < now + life") (simp_all flip: life_def)
qed

definition example_response :: StoredResponse where
  "example_response = \<lparr>sr_ResponseID = '' resp_1'', sr_OwnerHash = ''k1'', sr_AccountID = 7, sr_Model = ''m'', sr_Provider = ''build'',
     sr_PromptCacheKey = [], sr_ContentType = [], sr_Body = ''{}'', sr_InputItems = [], sr_PreviousResponseID = [],
     sr_ExpiresAt = 0, sr_CreatedAt = 0, sr_UpdatedAt = 0\<rparr>"

lemma example_named: "TrimSpace '' resp_1'' = ''resp_1''" "TrimSpace ''k1'' = ''k1''" "TrimSpace ''k2'' = ''k2''"
  by code_simp+

lemma example_saves:
  "memory_ok (NewMemoryResponseStore 0)"
  "\<exists>s1. memory_SaveStoredResponse 5 (Some example_response) 0 (NewMemoryResponseStore 0) = (None, s1)"
  by (simp_all add: memory_ok_def NewMemoryResponseStore_def MemoryResponseTTL_def memory_SaveStoredResponse_def example_response_def
      unnamed_def example_named Let_def)

theorem stored_response_lives_witness:
  "\<exists>s1 x. memory_SaveStoredResponse 5 (Some example_response) 0 (NewMemoryResponseStore 0) = (None, s1) \<and>
     fst (memory_GetStoredResponse 5 '' resp_1'' ''k1'' s1) = Inr x \<and> sr_Body x = ''{}''"
proof -
  obtain s1 where s1: "memory_SaveStoredResponse 5 (Some example_response) 0 (NewMemoryResponseStore 0) = (None, s1)" using example_saves(2) by blast
  from stored_response_lives [OF example_saves(1) _ s1 memory_responses.elsewhere.nothing] s1 show ?thesis
    by (simp add: NewMemoryResponseStore_def MemoryResponseTTL_def example_response_def stamped_def)
qed

text \<open>Stored responses are private. Storing, reading or deleting a response leaves what any other owner finds
  unchanged, under the same id too.\<close>

theorem responses_are_private:
  assumes "memory_ok s" "CHR 0x00 \<notin> set (TrimSpace (sr_OwnerHash r))" "CHR 0x00 \<notin> set (TrimSpace other)" "TrimSpace (sr_OwnerHash r) \<noteq> TrimSpace other" "now \<le> t"
  shows "fst (memory_GetStoredResponse t responseID other (snd (memory_SaveStoredResponse now (Some r) ttl s))) = fst (memory_GetStoredResponse t responseID other s) \<and>
    fst (memory_GetStoredResponse t responseID other (snd (memory_GetStoredResponse now (sr_ResponseID r) (sr_OwnerHash r) s))) = fst (memory_GetStoredResponse t responseID other s) \<and>
    fst (memory_GetStoredResponse t responseID other (snd (memory_DeleteStoredResponse (sr_ResponseID r) (sr_OwnerHash r) s))) = fst (memory_GetStoredResponse t responseID other s)"
proof (cases "unnamed responseID other")
  case True
  then show ?thesis by (simp add: memory_GetStoredResponse_def)
next
  case False
  let ?k = "memoryResponseKey (TrimSpace responseID) (TrimSpace other)" and ?j = "memoryResponseKey (TrimSpace (sr_ResponseID r)) (TrimSpace (sr_OwnerHash r))"
  have n: "?k \<noteq> ?j" using key_inj assms(2-4) by metis
  have eq: "fst (memory_GetStoredResponse t responseID other s') = fst (memory_GetStoredResponse t responseID other s)"
    if "memory_ok s'" "memory_live s' t ?k = memory_live s t ?k" for s'
    using that assms(1) memory_responses.look_value by (simp add: memory_get [OF False])
  have "fst (memory_GetStoredResponse t responseID other (snd (memory_SaveStoredResponse now (Some r) ttl s))) = fst (memory_GetStoredResponse t responseID other s)"
  proof (cases "unnamed (sr_ResponseID r) (sr_OwnerHash r)")
    case False
    then obtain s1 where s1: "memory_SaveStoredResponse now (Some r) ttl s = (None, s1)" by (simp add: memory_SaveStoredResponse_def Let_def)
    show ?thesis using memory_saved(2) [OF s1] memory_responses.put_ok [OF assms(1)] memory_responses.put_other [OF assms(1,5) n] by (simp add: s1 eq)
  qed (simp add: memory_SaveStoredResponse_def)
  moreover have "fst (memory_GetStoredResponse t responseID other (snd (memory_GetStoredResponse now (sr_ResponseID r) (sr_OwnerHash r) s))) = fst (memory_GetStoredResponse t responseID other s)"
  proof -
    have "snd (memory_GetStoredResponse now (sr_ResponseID r) (sr_OwnerHash r) s) = (if unnamed (sr_ResponseID r) (sr_OwnerHash r) then s else snd (memory_look ?j now s))"
      by (auto simp: memory_GetStoredResponse_def split: prod.split option.split)
    then show ?thesis using memory_responses.look_ok [OF assms(1)] memory_responses.look_keeps [OF assms(1,5)] by (simp add: eq)
  qed
  moreover have "fst (memory_GetStoredResponse t responseID other (snd (memory_DeleteStoredResponse (sr_ResponseID r) (sr_OwnerHash r) s))) = fst (memory_GetStoredResponse t responseID other s)"
    using memory_responses.drop_ok [OF assms(1)] memory_responses.drop_other [OF assms(1) n] by (auto simp: memory_DeleteStoredResponse_def Let_def eq)
  ultimately show ?thesis by blast
qed

theorem responses_are_private_witness:
  "fst (memory_GetStoredResponse 6 ''resp_1'' ''k2'' (snd (memory_SaveStoredResponse 5 (Some example_response) 0 (NewMemoryResponseStore 0)))) = Inl ErrNoRows"
proof -
  have "fst (memory_GetStoredResponse 6 ''resp_1'' ''k2'' (NewMemoryResponseStore 0)) = Inl ErrNoRows" by code_simp
  then show ?thesis
    using responses_are_private [OF example_saves(1), of example_response "''k2''" 5 6 "''resp_1''" 0] by (simp add: example_response_def example_named)
qed

text \<open>A response stored in Redis is found by every replica until two milliseconds before its lifetime is over, and by
  none from then on, whatever is stored, read or deleted under other keys in between.\<close>

theorem shared_response_lives:
  assumes "0 < now" "redis_SaveStoredResponse codec now (Some r) ttl s = (None, s1)"
    "\<And>x row. codec x = Some row \<Longrightarrow> sr_ExpiresAt row = sr_ExpiresAt x"
    "redis_responses.elsewhere (storedResponseKey (sr_ResponseID r) (sr_OwnerHash r)) now s1 t s2"
  shows "let life = (if ttl \<le> 0 then MemoryResponseTTL else ttl); found = fst (redis_GetStoredResponse t (sr_ResponseID r) (sr_OwnerHash r) s2) in
    (t < now + life - 2 * millisecond \<longrightarrow> (\<exists>row. codec (stamped now life r) = Some row \<and> found = Inr row)) \<and> (now + life \<le> t \<longrightarrow> found = Inl ErrNoRows)"
proof -
  define life where "life = (if ttl \<le> 0 then MemoryResponseTTL else ttl)"
  obtain row where row: "codec (stamped now life r) = Some row" "s1 = redis_put (storedResponseKey (sr_ResponseID r) (sr_OwnerHash r)) row now life s"
    using assms(2) by (auto simp: redis_SaveStoredResponse_def Let_def stamped_def life_def storedResponseKey_def split: if_splits option.splits)
  have l: "0 < now + life \<and> sr_ExpiresAt row = now + life" using assms(1,3) row(1) by (auto simp: life_def MemoryResponseTTL_def stamped_def)
  have "fst (redis_GetStoredResponse t (sr_ResponseID r) (sr_OwnerHash r) s2) =
      (case fst (redis_look (storedResponseKey (sr_ResponseID r) (sr_OwnerHash r)) t s2) of None \<Rightarrow> Inl ErrNoRows | Some x \<Rightarrow> Inr x)"
    by (auto simp: redis_GetStoredResponse_def split: prod.split option.split)
  then show ?thesis using redis_responses.saved_until [OF TrueI l assms(4) [unfolded row(2)]] row(1) by (simp flip: life_def)
qed

theorem shared_response_lives_witness:
  "\<exists>s1. redis_SaveStoredResponse Some 5 (Some example_response) second Map.empty = (None, s1) \<and>
     fst (redis_GetStoredResponse 5 '' resp_1'' ''k1'' s1) = Inr (stamped 5 second example_response)"
proof -
  obtain s1 where s1: "redis_SaveStoredResponse Some 5 (Some example_response) second Map.empty = (None, s1)"
    by (simp add: redis_SaveStoredResponse_def example_response_def unnamed_def example_named Let_def)
  from shared_response_lives [OF _ s1 _ redis_responses.elsewhere.nothing] s1 show ?thesis by (simp add: Let_def example_response_def)
qed

end
