(* ===== verification/Refresh_Lease.thy ===== *)
theory Refresh_Lease
  imports Prelude "HOL-Library.Multiset"
begin

text \<open>
  The refresh leases of accounts (\<^verbatim>\<open>src/internal/refreshqueue/refreshqueue.go\<close>). Each method of the hub runs under its mutex
  and is one step. \<^verbatim>\<open>WithLease\<close> is two: the acquisition, and the deferred release when the refresh has returned or panicked.
\<close>

section \<open>The hub\<close>

record Hub =
  hub_inFlight :: "int list"

definition NewHub :: Hub where "NewHub = \<lparr>hub_inFlight = []\<rparr>"

text \<open>A nil hub leases everything.\<close>

definition hub_TryAcquire :: "int \<Rightarrow> Hub option \<Rightarrow> bool \<times> Hub option" where
  "hub_TryAcquire accountID h = (case h of
     None \<Rightarrow> (True, h)
   | Some hub \<Rightarrow> if accountID = 0 then (True, h)
       else if accountID \<in> set (hub_inFlight hub) then (False, h)
       else (True, Some (hub\<lparr>hub_inFlight := accountID # hub_inFlight hub\<rparr>)))"

definition hub_Release :: "int \<Rightarrow> Hub option \<Rightarrow> Hub option" where
  "hub_Release accountID h = (case h of
     None \<Rightarrow> h
   | Some hub \<Rightarrow> if accountID = 0 then h else Some (hub\<lparr>hub_inFlight := removeAll accountID (hub_inFlight hub)\<rparr>))"

definition hub_Len :: "Hub option \<Rightarrow> nat" where
  "hub_Len h = (case h of None \<Rightarrow> 0 | Some hub \<Rightarrow> length (hub_inFlight hub))"

section \<open>Refreshes under leases\<close>

text \<open>The hub and the refreshes that are running, by account.\<close>

inductive lease_run :: "Hub option \<Rightarrow> int multiset \<Rightarrow> bool" where
  idle: "lease_run (Some NewHub) {#}"
| started: "lease_run h m \<Longrightarrow> hub_TryAcquire i h = (True, h') \<Longrightarrow> lease_run h' (add_mset i m)"
| refused: "lease_run h m \<Longrightarrow> hub_TryAcquire i h = (False, h') \<Longrightarrow> lease_run h' m"
| ended: "lease_run h m \<Longrightarrow> i \<in># m \<Longrightarrow> lease_run (hub_Release i h) (m - {#i#})"

definition leases_ok :: "Hub option \<Rightarrow> int multiset \<Rightarrow> bool" where
  "leases_ok h m \<longleftrightarrow> (\<exists>hub. h = Some hub \<and> mset (hub_inFlight hub) = filter_mset (\<lambda>i. i \<noteq> 0) m \<and> distinct (hub_inFlight hub))"

lemma run_leases: "lease_run h m \<Longrightarrow> leases_ok h m"
proof (induction rule: lease_run.induct)
  case idle
  then show ?case by (simp add: leases_ok_def NewHub_def)
next
  case (ended h m i)
  then obtain hub where h: "h = Some hub" "mset (hub_inFlight hub) = filter_mset (\<lambda>i. i \<noteq> 0) m" "distinct (hub_inFlight hub)"
    by (auto simp: leases_ok_def)
  have "mset (removeAll i (hub_inFlight hub)) = mset (hub_inFlight hub) - {#i#}"
    using h(3) by (metis distinct_remove1_removeAll mset_remove1)
  then show ?case using h by (auto simp: leases_ok_def hub_Release_def distinct_removeAll)
qed (auto simp: leases_ok_def hub_TryAcquire_def split: if_splits)

text \<open>An account is refreshed by one task at a time, over every entrance and interleaving of the process; a lease is
  refused only while a refresh of that account runs, and the number the hub reports is that of the leased refreshes.\<close>

theorem refresh_is_exclusive:
  assumes "lease_run h m" "i \<noteq> 0"
  shows "count m i \<le> 1 \<and> (fst (hub_TryAcquire i h) \<longleftrightarrow> i \<notin># m) \<and> hub_Len h = size (filter_mset (\<lambda>j. j \<noteq> 0) m)"
proof -
  obtain hub where h: "h = Some hub" "mset (hub_inFlight hub) = filter_mset (\<lambda>i. i \<noteq> 0) m" "distinct (hub_inFlight hub)"
    using run_leases [OF assms(1)] by (auto simp: leases_ok_def)
  have "count m i = count (mset (hub_inFlight hub)) i" using h(2) assms(2) by simp
  moreover have "count (mset (hub_inFlight hub)) i = (if i \<in> set (hub_inFlight hub) then 1 else 0)"
    using h(3) by (simp add: distinct_count_atmost_1 count_mset_0_iff)
  moreover have "hub_Len h = size (filter_mset (\<lambda>j. j \<noteq> 0) m)" using h(1,2) by (metis hub_Len_def option.case(2) size_mset)
  ultimately show ?thesis using assms(2) h(1) by (auto simp: hub_TryAcquire_def not_in_iff split: if_splits)
qed

theorem refresh_is_exclusive_witness:
  "\<not> fst (hub_TryAcquire 7 (snd (hub_TryAcquire 7 (Some NewHub))))"
proof -
  have "lease_run (snd (hub_TryAcquire 7 (Some NewHub))) (add_mset 7 {#})"
    by (rule lease_run.started [OF lease_run.idle]) (simp add: hub_TryAcquire_def NewHub_def)
  from refresh_is_exclusive [OF this, of 7] show ?thesis by simp
qed

end
