(* ===== verification/Egress.thy ===== *)
theory Egress
  imports Backoff "HOL-Library.Log_Nat"
begin

text \<open>
  The exits of the Grok channel (\<^verbatim>\<open>src/internal/grok/egress/node.go\<close>, \<^verbatim>\<open>manager.go\<close>): the nodes of a configuration, the
  choice of a node for an account, the feedback of a request and the probe of a node that is cooling down. A health score is
  a double; here it is a rational, rounded to 53 bits after every operation. Whether a proxy address is valid and whether a
  probe is answered are arguments. The health file and the diagnostics are left out.
\<close>

section \<open>Doubles\<close>

text \<open>The exponent of a positive rational: \<open>2 powi exponent y \<le> y\<close>.\<close>

definition exponent :: "rat \<Rightarrow> int" where
  "exponent y = (let (a, b) = quotient_of y; e = bitlen a - bitlen b in if 2 powi e \<le> y then e else e - 1)"

definition round_even :: "rat \<Rightarrow> int" where
  "round_even y = (let n = \<lfloor>y\<rfloor>; d = y - of_int n in if d < 1 / 2 \<or> (d = 1 / 2 \<and> even n) then n else n + 1)"

definition float64 :: "rat \<Rightarrow> rat" where
  "float64 x =
     (if x = 0 then 0
      else let k = 52 - exponent \<bar>x\<bar>; r = of_int (round_even (\<bar>x\<bar> * 2 powi k)) * 2 powi (- k) in if x < 0 then - r else r)"

section \<open>Nodes\<close>

record Node =
  nd_Name :: string
  nd_URL :: string
  nd_Weight :: int
  nd_Scope :: string
  nd_Proxied :: bool

text \<open>\<open>valid\<close>: \<^verbatim>\<open>parseProxyURL\<close> accepts the address; an invalid node is skipped.\<close>

definition node_of_config :: "(string \<Rightarrow> bool) \<Rightarrow> Node \<Rightarrow> Node option" where
  "node_of_config valid n =
     (let scope0 = ToLower (TrimSpace (nd_Scope n)); scope = (if scope0 = [] then ''all'' else scope0) in
      if \<not> valid (nd_URL n) then None
      else Some \<lparr>nd_Name = TrimSpace (nd_Name n), nd_URL = TrimSpace (nd_URL n), nd_Weight = (if nd_Weight n \<le> 0 then 1 else nd_Weight n),
        nd_Scope = scope, nd_Proxied = (nd_Proxied n \<or> TrimSpace (nd_URL n) \<noteq> [])\<rparr>)"

definition nodesFromConfig :: "(string \<Rightarrow> bool) \<Rightarrow> bool \<Rightarrow> Node list \<Rightarrow> Node list" where
  "nodesFromConfig valid enabled ns = (if enabled then List.map_filter (node_of_config valid) ns else [])"

definition nodeMatchesScope :: "Node \<Rightarrow> string \<Rightarrow> bool" where
  "nodeMatchesScope node scope \<longleftrightarrow>
     (let ns = ToLower (TrimSpace (nd_Scope node)) in ns = [] \<or> ns = ''all'' \<or> ns = ToLower (TrimSpace scope))"

section \<open>The manager\<close>

definition healthSkipThreshold :: rat where "healthSkipThreshold = float64 (2 / 10)"
definition nodeCooldown :: duration where "nodeCooldown = 30 * second"
definition nodeCooldownMax :: duration where "nodeCooldownMax = 10 * minute"

datatype FeedbackOutcome = OutcomeSuccess | OutcomeTransportError | OutcomeServerError | OutcomeRateLimited | OutcomeAccountBlock | OutcomeForbidden

text \<open>A missing entry of a map reads as zero: score 0, no failures, no node.\<close>

record Manager =
  mg_nodes :: "Node list"
  mg_health :: "string \<Rightarrow> rat"
  mg_unhealthy :: "string \<Rightarrow> instant option"
  mg_failures :: "string \<Rightarrow> int"
  mg_lastProbe :: "string \<Rightarrow> instant option"
  mg_usedCount :: "string \<Rightarrow> int"
  mg_sticky :: "string \<Rightarrow> string"

definition NewManager :: "Node list \<Rightarrow> Manager" where
  "NewManager ns = \<lparr>mg_nodes = ns, mg_health = (\<lambda>_. 0), mg_unhealthy = Map.empty, mg_failures = (\<lambda>_. 0), mg_lastProbe = Map.empty,
     mg_usedCount = (\<lambda>_. 0), mg_sticky = (\<lambda>_. [])\<rparr>"

definition degradedLocked :: "string \<Rightarrow> instant \<Rightarrow> Manager \<Rightarrow> bool" where
  "degradedLocked name now m \<longleftrightarrow>
     (let score = mg_health m name in score < healthSkipThreshold \<and> score \<noteq> 0 \<and> (case mg_unhealthy m name of Some u \<Rightarrow> now < u | None \<Rightarrow> False))"

definition node_candidates :: "string \<Rightarrow> instant \<Rightarrow> Manager \<Rightarrow> Node list" where
  "node_candidates scope now m = filter (\<lambda>n. nodeMatchesScope n scope \<and> \<not> degradedLocked (nd_Name n) now m) (mg_nodes m)"

definition stickyKey :: "string \<Rightarrow> string \<Rightarrow> string" where
  "stickyKey normalizedScope affinity =
     ''scope:'' @ normalizedScope @ '':'' @ (if TrimSpace affinity \<noteq> [] then affinity else ''default'')"

fun weighted :: "int \<Rightarrow> Node list \<Rightarrow> Node option" where
  "weighted threshold [] = None"
| "weighted threshold (n # ns) = (if threshold - nd_Weight n < 0 then Some n else weighted (threshold - nd_Weight n) ns)"

definition totalWeight :: "Node list \<Rightarrow> int" where
  "totalWeight ns = sum_list (map nd_Weight ns)"

definition pickNode :: "instant \<Rightarrow> string \<Rightarrow> string \<Rightarrow> Manager \<Rightarrow> Node option \<times> Manager" where
  "pickNode now scope affinity m =
     (let normalizedScope = ToLower (TrimSpace scope); cs = node_candidates normalizedScope now m; key = stickyKey normalizedScope affinity; prev = mg_sticky m key in
      if cs = [] then (None, m)
      else case (if prev \<noteq> [] then List.find (\<lambda>n. nd_Name n = prev) cs else None) of
        Some n \<Rightarrow> (Some n, m)
      | None \<Rightarrow>
          let seed = mg_usedCount m key;
              pick = (case weighted ((seed + 1) mod totalWeight cs) cs of Some n \<Rightarrow> n | None \<Rightarrow> last cs)
          in (Some pick, m\<lparr>mg_usedCount := (mg_usedCount m)(key := seed + 1), mg_sticky := (mg_sticky m)(key := nd_Name pick)\<rparr>))"

fun cooldown_loop :: "nat \<Rightarrow> duration \<Rightarrow> duration" where
  "cooldown_loop 0 cooldown = cooldown"
| "cooldown_loop (Suc k) cooldown = (if cooldown * 2 \<ge> nodeCooldownMax then nodeCooldownMax else cooldown_loop k (cooldown * 2))"

definition nodeCooldownFor :: "int \<Rightarrow> duration" where
  "nodeCooldownFor failures = (if failures \<le> 1 then nodeCooldown else cooldown_loop (nat (failures - 1)) nodeCooldown)"

text \<open>One more failure, of a request or of a probe; a probe leaves the score alone.\<close>

definition note_failure :: "instant \<Rightarrow> string \<Rightarrow> Manager \<Rightarrow> Manager" where
  "note_failure now name m =
     (let k = mg_failures m name + 1 in
      m\<lparr>mg_failures := (mg_failures m)(name := k), mg_unhealthy := (mg_unhealthy m)(name \<mapsto> now + nodeCooldownFor k)\<rparr>)"

definition tenth :: rat where "tenth = float64 (1 / 10)"

definition recovered_score :: "rat \<Rightarrow> rat" where
  "recovered_score score = float64 (score + float64 (float64 (1 - score) * tenth))"

definition failed_score :: "rat \<Rightarrow> rat" where
  "failed_score score = float64 (float64 (score * (1 / 2)) - tenth)"

definition Feedback :: "instant \<Rightarrow> string \<Rightarrow> FeedbackOutcome \<Rightarrow> Manager \<Rightarrow> Manager" where
  "Feedback now nodeID outcome m =
     (if nodeID = [] then m
      else let score = mg_health m nodeID; wasDegraded = (score < healthSkipThreshold \<and> score \<noteq> 0) in
        (case outcome of
           OutcomeSuccess \<Rightarrow> m\<lparr>mg_health := (mg_health m)(nodeID := recovered_score score), mg_failures := (mg_failures m)(nodeID := 0),
             mg_unhealthy := (if wasDegraded then (mg_unhealthy m)(nodeID := None) else mg_unhealthy m)\<rparr>
         | OutcomeTransportError \<Rightarrow> note_failure now nodeID (m\<lparr>mg_health := (mg_health m)(nodeID := failed_score score)\<rparr>)
         | OutcomeServerError \<Rightarrow> note_failure now nodeID (m\<lparr>mg_health := (mg_health m)(nodeID := failed_score score)\<rparr>)
         | _ \<Rightarrow> m))"

section \<open>Probing\<close>

text \<open>The node whose cooldown ends first among those not probed within the base cooldown.\<close>

definition earlier :: "Manager \<Rightarrow> Node option \<Rightarrow> Node \<Rightarrow> Node option" where
  "earlier m best n = (case best of None \<Rightarrow> Some n
   | Some b \<Rightarrow> if the (mg_unhealthy m (nd_Name n)) < the (mg_unhealthy m (nd_Name b)) then Some n else best)"

definition probe_candidates :: "string \<Rightarrow> instant \<Rightarrow> Manager \<Rightarrow> Node list" where
  "probe_candidates scope now m = filter (\<lambda>n. nodeMatchesScope n scope \<and> mg_unhealthy m (nd_Name n) \<noteq> None \<and>
     (case mg_lastProbe m (nd_Name n) of Some t \<Rightarrow> Sub now t \<ge> nodeCooldown | None \<Rightarrow> True)) (mg_nodes m)"

definition probe_choose :: "instant \<Rightarrow> string \<Rightarrow> Manager \<Rightarrow> Node option \<times> Manager" where
  "probe_choose now scope m = (case foldl (earlier m) None (probe_candidates (ToLower (TrimSpace scope)) now m) of
     None \<Rightarrow> (None, m)
   | Some n \<Rightarrow> (Some n, m\<lparr>mg_lastProbe := (mg_lastProbe m)(nd_Name n \<mapsto> now)\<rparr>))"

definition probe_result :: "instant \<Rightarrow> bool \<Rightarrow> Node \<Rightarrow> Manager \<Rightarrow> Manager" where
  "probe_result now answered n m =
     (if answered then m\<lparr>mg_unhealthy := (mg_unhealthy m)(nd_Name n := None), mg_health := (mg_health m)(nd_Name n := healthSkipThreshold),
        mg_failures := (mg_failures m)(nd_Name n := 0)\<rparr>
      else note_failure now (nd_Name n) m)"

text \<open>\<open>others\<close> is what other requests do to the manager while the probe is under way.\<close>

definition Acquire_node :: "(nat \<Rightarrow> instant) \<Rightarrow> (Node \<Rightarrow> bool) \<Rightarrow> (Manager \<Rightarrow> Manager) \<Rightarrow> string \<Rightarrow> string \<Rightarrow> Manager \<Rightarrow> Node option \<times> Manager" where
  "Acquire_node clock answered others scope affinity m =
     (case pickNode (clock 0) scope affinity m of
        (Some n, m1) \<Rightarrow> (Some n, m1)
      | (None, m1) \<Rightarrow> (case probe_choose (clock 1) scope m1 of
          (None, m2) \<Rightarrow> (None, m2)
        | (Some n, m2) \<Rightarrow> let m3 = probe_result (clock 2) (answered n) n (others m2) in
            if answered n then pickNode (clock 3) scope affinity m3 else (None, m3)))"

section \<open>Cooldowns and scores\<close>

lemma node_cooldown_loop: "1 \<le> n \<Longrightarrow> nodeCooldownFor n = cooldown_loop (nat (n - 1)) nodeCooldown"
  by (cases "n = 1") (simp_all add: nodeCooldownFor_def)

lemma cooldown_loop_again: "0 < c \<Longrightarrow> c \<le> nodeCooldownMax \<Longrightarrow> cooldown_loop (Suc k) c = min nodeCooldownMax (2 * cooldown_loop k c)"
proof (induction k arbitrary: c)
  case (Suc k)
  then show ?case using Suc.IH [of "c * 2"] by (cases "c * 2 \<ge> nodeCooldownMax") (auto simp: nodeCooldownMax_def)
qed (auto simp: nodeCooldownMax_def)

interpretation node_backoff: capped_doubling nodeCooldownFor nodeCooldown nodeCooldownMax
proof
  fix n :: int
  show "n \<le> 1 \<Longrightarrow> nodeCooldownFor n = nodeCooldown" by (simp add: nodeCooldownFor_def)
  assume n: "1 \<le> n"
  then have "nat (n + 1 - 1) = Suc (nat (n - 1))" by simp
  then show "nodeCooldownFor (n + 1) = min nodeCooldownMax (2 * nodeCooldownFor n)"
    using n cooldown_loop_again [of nodeCooldown] by (simp add: node_cooldown_loop nodeCooldown_def nodeCooldownMax_def)
qed (simp_all add: nodeCooldown_def nodeCooldownMax_def)

lemma exponent_below: "0 < y \<Longrightarrow> 2 powi exponent y \<le> y"
proof -
  assume y: "0 < y"
  obtain a b where ab: "quotient_of y = (a, b)" by fastforce
  have yab: "y = of_int a / of_int b" "0 < b" using quotient_of_div [OF ab] quotient_of_denom_pos [OF ab] by simp_all
  then have a: "0 < a" using y by (simp add: zero_less_divide_iff)
  have la: "2 ^ nat (bitlen a - 1) \<le> a" and lb: "b < 2 ^ nat (bitlen b)" using bitlen_bounds a yab(2) by blast+
  have "0 < n \<Longrightarrow> 0 < bitlen n" for n using bitlen_bounds [of n] by (cases "0 < bitlen n") auto
  then have pa: "0 < bitlen a" "0 < bitlen b" using a yab(2) by simp_all
  have "(2 :: rat) powi (bitlen a - bitlen b - 1) = 2 ^ nat (bitlen a - 1) / 2 ^ nat (bitlen b)"
  proof -
    obtain p q where pq: "bitlen a - 1 = int p" "bitlen b = int q" using pa zero_le_imp_eq_int [of "bitlen a - 1"] zero_le_imp_eq_int [of "bitlen b"] by auto
    then have "bitlen a - bitlen b - 1 = int p - int q" by simp
    moreover have "(2 :: rat) powi (int p - int q) = 2 ^ p / 2 ^ q" by (simp add: power_int_diff)
    ultimately show ?thesis by (metis pq nat_int)
  qed
  also have "\<dots> \<le> of_int a / of_int b"
  proof (rule frac_le)
    show "(2 :: rat) ^ nat (bitlen a - 1) \<le> of_int a" using la by (metis of_int_le_iff of_int_numeral of_int_power)
    show "of_int b \<le> (2 :: rat) ^ nat (bitlen b)" using lb by (metis less_imp_le of_int_le_iff of_int_numeral of_int_power)
  qed (use a yab(2) in auto)
  finally have "2 powi (bitlen a - bitlen b - 1) \<le> y" by (simp only: yab(1))
  then show ?thesis by (simp add: exponent_def ab Let_def)
qed

lemma round_even_pos: "1 \<le> y \<Longrightarrow> 1 \<le> round_even y"
  by (auto simp: round_even_def Let_def le_floor_iff)

lemma float64_neg: "x < 0 \<Longrightarrow> float64 x < 0"
proof -
  assume x: "x < 0"
  let ?k = "52 - exponent \<bar>x\<bar>"
  have "(1 :: rat) \<le> 2 powi 52" by simp
  also have "\<dots> = 2 powi exponent \<bar>x\<bar> * 2 powi ?k" by (simp flip: power_int_add)
  also have "\<dots> \<le> \<bar>x\<bar> * 2 powi ?k" using exponent_below [of "\<bar>x\<bar>"] x by (intro mult_right_mono) auto
  finally have "1 \<le> round_even (\<bar>x\<bar> * 2 powi ?k)" by (rule round_even_pos)
  then have "0 < of_int (round_even (\<bar>x\<bar> * 2 powi ?k)) * (2 :: rat) powi (- ?k)" by (intro mult_pos_pos) auto
  then show ?thesis using x by (simp add: float64_def Let_def)
qed

lemma tenth_pos: "0 < tenth"
  by code_simp

lemma threshold_pos: "0 < healthSkipThreshold"
  by code_simp

lemma failed_score_neg: "score \<le> 0 \<Longrightarrow> failed_score score < 0"
proof -
  assume s: "score \<le> 0"
  have "float64 (score * (1 / 2)) \<le> 0" using float64_neg [of "score * (1 / 2)"] s by (cases "score = 0") (auto simp: float64_def)
  then have "float64 (score * (1 / 2)) - tenth < 0" using tenth_pos by linarith
  then show ?thesis unfolding failed_score_def by (rule float64_neg)
qed

section \<open>What the pool promises\<close>

lemma weighted_in: "weighted t ns = Some n \<Longrightarrow> n \<in> set ns"
  by (induction t ns rule: weighted.induct) (auto split: if_splits)

lemma find_SomeD: "List.find P xs = Some x \<Longrightarrow> x \<in> set xs \<and> P x"
  by (auto simp: find_Some_iff)

lemma pick_candidate:
  "fst (pickNode now scope affinity m) = Some n \<Longrightarrow> n \<in> set (node_candidates (ToLower (TrimSpace scope)) now m)"
  "fst (pickNode now scope affinity m) = None \<longleftrightarrow> node_candidates (ToLower (TrimSpace scope)) now m = []"
  by (auto simp: pickNode_def Let_def dest!: find_SomeD dest: weighted_in split: option.splits if_splits)

lemma scope_normal [simp]: "nodeMatchesScope n (ToLower (TrimSpace scope)) = nodeMatchesScope n scope"
  by (simp add: nodeMatchesScope_def Let_def TrimSpace_ToLower)

text \<open>Property C23: a request leaves through an exit that serves its scope and is not held, or not at all. The pick fails exactly when
  every exit of the scope is in its failure cooldown; then a node is only used after it answered a probe.\<close>

theorem exit_is_available:
  "(\<forall>n. fst (pickNode now scope affinity m) = Some n \<longrightarrow> n \<in> set (mg_nodes m) \<and> nodeMatchesScope n scope \<and> \<not> degradedLocked (nd_Name n) now m) \<and>
   (fst (pickNode now scope affinity m) = None \<longleftrightarrow> (\<forall>n \<in> set (mg_nodes m). nodeMatchesScope n scope \<longrightarrow> degradedLocked (nd_Name n) now m)) \<and>
   (fst (pickNode (clock 0) scope affinity m) = None \<and> fst (Acquire_node clock answered others scope affinity m) \<noteq> None \<longrightarrow>
      (\<exists>n. fst (probe_choose (clock 1) scope m) = Some n \<and> answered n))"
proof -
  have "fst (pickNode (clock 0) scope affinity m) = None \<Longrightarrow> pickNode (clock 0) scope affinity m = (None, m)"
    by (auto simp: pickNode_def Let_def split: option.splits if_splits)
  then have "fst (pickNode (clock 0) scope affinity m) = None \<and> fst (Acquire_node clock answered others scope affinity m) \<noteq> None \<longrightarrow>
      (\<exists>n. fst (probe_choose (clock 1) scope m) = Some n \<and> answered n)"
    by (auto simp: Acquire_node_def Let_def split: option.splits prod.splits if_splits)
  moreover have "fst (pickNode now scope affinity m) = None \<longleftrightarrow> (\<forall>n \<in> set (mg_nodes m). nodeMatchesScope n scope \<longrightarrow> degradedLocked (nd_Name n) now m)"
    unfolding pick_candidate(2) by (auto simp: node_candidates_def filter_empty_conv)
  ultimately show ?thesis using pick_candidate(1) [of now scope affinity m] by (fastforce simp: node_candidates_def)
qed

definition two_exits :: Manager where
  "two_exits = NewManager [\<lparr>nd_Name = ''a'', nd_URL = [], nd_Weight = 1, nd_Scope = ''all'', nd_Proxied = False\<rparr>,
     \<lparr>nd_Name = ''b'', nd_URL = [], nd_Weight = 1, nd_Scope = ''all'', nd_Proxied = False\<rparr>]"

theorem exit_is_available_witness:
  "\<exists>n. fst (pickNode 5 ''cli'' ''k'' two_exits) = Some n \<and> n \<in> set (mg_nodes two_exits)"
proof -
  have "fst (pickNode 5 ''cli'' ''k'' two_exits) \<noteq> None" by code_simp
  then obtain n where n: "fst (pickNode 5 ''cli'' ''k'' two_exits) = Some n" by blast
  then show ?thesis using exit_is_available [of 5 "''cli''" "''k''" two_exits] by blast
qed

text \<open>An exit that fails while its score is not positive is held for the whole backoff of its failures in a row, thirty
  seconds doubled up to ten minutes, and no request is sent through it before that.\<close>

theorem failing_exit_is_held:
  assumes "name \<noteq> []" "mg_health m name \<le> 0" "outcome \<in> {OutcomeTransportError, OutcomeServerError}"
    "t < now + nodeCooldownFor (mg_failures m name + 1)"
  shows "degradedLocked name t (Feedback now name outcome m) \<and>
    (\<forall>n. fst (pickNode t scope affinity (Feedback now name outcome m)) = Some n \<longrightarrow> nd_Name n \<noteq> name) \<and>
    nodeCooldown \<le> nodeCooldownFor (mg_failures m name + 1) \<and> nodeCooldownFor (mg_failures m name + 1) \<le> nodeCooldownMax"
proof -
  have "degradedLocked name t (Feedback now name outcome m)"
    using failed_score_neg [OF assms(2)] threshold_pos assms(1,3,4) by (auto simp: degradedLocked_def Feedback_def note_failure_def Let_def)
  then show ?thesis using pick_candidate(1) [of t scope affinity] node_backoff.lower node_backoff.upper by (auto simp: node_candidates_def)
qed

theorem failing_exit_is_held_witness:
  "degradedLocked ''b'' 20 (Feedback 10 ''b'' OutcomeTransportError two_exits)"
proof -
  have "(20 :: int) < 10 + nodeCooldownFor (mg_failures two_exits ''b'' + 1)" "mg_health two_exits ''b'' \<le> 0" by code_simp+
  then show ?thesis using failing_exit_is_held [of "''b''" two_exits OutcomeTransportError 20 10] by simp
qed

text \<open>An account stays on its exit: as long as the exit it was given is a candidate, it is given one of the same name.\<close>

theorem account_keeps_exit:
  assumes "fst (pickNode now scope affinity m) = Some n" "nd_Name n \<noteq> []"
    "mg_sticky m2 (stickyKey (ToLower (TrimSpace scope)) affinity) = mg_sticky (snd (pickNode now scope affinity m)) (stickyKey (ToLower (TrimSpace scope)) affinity)"
    "n \<in> set (mg_nodes m2)" "\<not> degradedLocked (nd_Name n) t m2"
  shows "\<exists>n2. fst (pickNode t scope affinity m2) = Some n2 \<and> nd_Name n2 = nd_Name n"
proof -
  let ?key = "stickyKey (ToLower (TrimSpace scope)) affinity"
  have key: "mg_sticky m2 ?key = nd_Name n" unfolding assms(3)
    using assms(1) by (auto simp: pickNode_def Let_def dest!: find_SomeD split: option.splits if_splits)
  have c: "n \<in> set (node_candidates (ToLower (TrimSpace scope)) t m2)"
    using pick_candidate(1) [OF assms(1)] assms(4,5) by (auto simp: node_candidates_def)
  then obtain n2 where n2: "List.find (\<lambda>x. nd_Name x = nd_Name n) (node_candidates (ToLower (TrimSpace scope)) t m2) = Some n2"
    by (cases "List.find (\<lambda>x. nd_Name x = nd_Name n) (node_candidates (ToLower (TrimSpace scope)) t m2)") (auto simp: find_None_iff)
  then have "nd_Name n2 = nd_Name n" by (auto dest: find_SomeD)
  then show ?thesis using n2 c key assms(2) by (auto simp: pickNode_def Let_def)
qed

theorem account_keeps_exit_witness:
  "\<exists>n n2. fst (pickNode 5 ''cli'' ''k'' two_exits) = Some n \<and>
     fst (pickNode 6 ''cli'' ''k'' (snd (pickNode 5 ''cli'' ''k'' two_exits))) = Some n2 \<and> nd_Name n2 = nd_Name n"
proof -
  let ?m = "snd (pickNode 5 ''cli'' ''k'' two_exits)"
  have s: "case fst (pickNode 5 ''cli'' ''k'' two_exits) of Some n \<Rightarrow> nd_Name n \<noteq> [] \<and> n \<in> set (mg_nodes ?m) \<and> \<not> degradedLocked (nd_Name n) 6 ?m | None \<Rightarrow> False"
    by code_simp
  then obtain n where n: "fst (pickNode 5 ''cli'' ''k'' two_exits) = Some n" by (auto split: option.splits)
  then show ?thesis using account_keeps_exit [OF n _ refl, of 6] s by auto
qed

text \<open>The first failure after a recovery is free: the probe sets the score to exactly the threshold, and the failure brings it to
  exactly zero, which reads as never probed.\<close>

theorem recovered_exit_is_not_held:
  assumes "outcome \<in> {OutcomeTransportError, OutcomeServerError}" "nd_Name n \<noteq> []"
  shows "\<not> degradedLocked (nd_Name n) t (Feedback now (nd_Name n) outcome (probe_result now0 True n m)) \<and>
    mg_unhealthy (Feedback now (nd_Name n) outcome (probe_result now0 True n m)) (nd_Name n) = Some (now + nodeCooldown)"
proof -
  have "failed_score healthSkipThreshold = 0" by code_simp
  then show ?thesis using assms by (auto simp: degradedLocked_def Feedback_def probe_result_def note_failure_def nodeCooldownFor_def Let_def)
qed

text \<open>The rotation has a position of its own for every account, so all accounts that come to the same healthy pool start at the same
  exit.\<close>

theorem new_accounts_share_an_exit:
  assumes "mg_usedCount m (stickyKey (ToLower (TrimSpace scope)) a) = 0" "mg_sticky m (stickyKey (ToLower (TrimSpace scope)) a) = []"
    "mg_usedCount m (stickyKey (ToLower (TrimSpace scope)) b) = 0" "mg_sticky m (stickyKey (ToLower (TrimSpace scope)) b) = []"
  shows "fst (pickNode now scope a m) = fst (pickNode now scope b m)"
  using assms by (simp add: pickNode_def Let_def)

end
