(* ===== verification/Quality_Hold.thy ===== *)
theory Quality_Hold
  imports Prelude
begin

text \<open>
  The quality hold of the Grok channel (\<^verbatim>\<open>src/internal/grok/quality_hold.go\<close>, \<^verbatim>\<open>quality_guard.go\<close>, and the hold of a stream in
  \<^verbatim>\<open>native_chat_stream.go\<close>): the classification of a turn, the writer that withholds a response, and the turn of a stream
  under a hold. Token counts come from the upstream and wrap at 64 bits. The frames a stream writes and what it measures are
  the steps of a list; how they are made from upstream events is left out. A client is what \<^verbatim>\<open>net/http\<close> does for a handler:
  headers, one status line, a body, and writes that fail once the connection is gone.
\<close>

section \<open>Policy\<close>

definition qualityHoldMaxAttemptsDefault :: int where "qualityHoldMaxAttemptsDefault = 6"
definition qualityHoldTimeoutDefault :: duration where "qualityHoldTimeoutDefault = 30 * second"
definition qualityHoldMinOutputDefault :: int where "qualityHoldMinOutputDefault = 8"
definition qualityHoldMaxBytes :: int where "qualityHoldMaxBytes = 8388608"
definition qualityFakeEncFlushMS :: int where "qualityFakeEncFlushMS = 2000"
definition qualityCipherDroolVisible :: int where "qualityCipherDroolVisible = 1024"
definition qualityMinEncryptedChars :: int where "qualityMinEncryptedChars = 256"
definition qualityEncryptedCharsPerReasoningToken :: int where "qualityEncryptedCharsPerReasoningToken = 4"
definition qualityRetryFailOpen :: string where "qualityRetryFailOpen = ''fail_open''"
definition qualityRetryFailClosed :: string where "qualityRetryFailClosed = ''fail_closed''"

definition qualityCooldown :: duration where "qualityCooldown = 12 * hour"
definition qualityDisableThreshold :: int where "qualityDisableThreshold = 2"
definition qualityBurstVisible :: int where "qualityBurstVisible = 32"
definition qualityBurstReasoning :: int where "qualityBurstReasoning = 80"
definition qualityBurstFlushMS :: int where "qualityBurstFlushMS = 2000"
definition qualityMinVisible :: int where "qualityMinVisible = 8"

datatype qualityVerdict = qualityWait | qualityDeliver | qualityWithhold
datatype qualityRetryAction = qualityActionDeliver | qualityActionDeliverLast | qualityActionRetry | qualityActionReject

record qualityHoldPolicy =
  qp_Enabled :: bool
  qp_MaxAttempts :: int
  qp_HoldTimeout :: duration
  qp_MinOutput :: int
  qp_OnExhausted :: string
  qp_AccountCooldown :: duration

definition tokensFromChars :: "int \<Rightarrow> int" where
  "tokensFromChars chars = (if chars \<le> 0 then 0 else (chars + 3) div 4)"

definition normalizeQualityHoldPolicy :: "qualityHoldPolicy \<Rightarrow> qualityHoldPolicy" where
  "normalizeQualityHoldPolicy p =
     p\<lparr>qp_MaxAttempts := (if qp_MaxAttempts p \<le> 0 then qualityHoldMaxAttemptsDefault else qp_MaxAttempts p),
       qp_HoldTimeout := (if qp_HoldTimeout p \<le> 0 then qualityHoldTimeoutDefault else qp_HoldTimeout p),
       qp_MinOutput := (if qp_MinOutput p \<le> 0 then qualityHoldMinOutputDefault else qp_MinOutput p),
       qp_AccountCooldown := (if qp_AccountCooldown p \<le> 0 then qualityCooldown else qp_AccountCooldown p),
       qp_OnExhausted := (if EqualFold (TrimSpace (qp_OnExhausted p)) qualityRetryFailOpen then qualityRetryFailOpen else qualityRetryFailClosed)\<rparr>"

definition failOpen :: "string \<Rightarrow> bool" where
  "failOpen onExhausted \<longleftrightarrow>
     qp_OnExhausted (normalizeQualityHoldPolicy \<lparr>qp_Enabled = False, qp_MaxAttempts = 0, qp_HoldTimeout = 0, qp_MinOutput = 0,
       qp_OnExhausted = onExhausted, qp_AccountCooldown = 0\<rparr>) = qualityRetryFailOpen"

text \<open>The policy a deployment configures; an absent or zero value means the default.\<close>

record hold_config =
  QualityHoldEnabled :: "bool option"
  QualityHoldMaxAttempts :: int
  QualityHoldTimeoutMs :: int
  QualityHoldOnExhausted :: string

definition configured_policy :: "hold_config option \<Rightarrow> qualityHoldPolicy" where
  "configured_policy cfg =
     (let p = \<lparr>qp_Enabled = True, qp_MaxAttempts = 0, qp_HoldTimeout = 0, qp_MinOutput = 0, qp_OnExhausted = qualityRetryFailOpen, qp_AccountCooldown = 0\<rparr> in
      normalizeQualityHoldPolicy
        (case cfg of None \<Rightarrow> p
         | Some c \<Rightarrow> p\<lparr>qp_Enabled := (case QualityHoldEnabled c of Some b \<Rightarrow> b | None \<Rightarrow> True),
             qp_MaxAttempts := QualityHoldMaxAttempts c,
             qp_HoldTimeout := (if QualityHoldTimeoutMs c > 0 then wrap64 (QualityHoldTimeoutMs c * millisecond) else 0),
             qp_OnExhausted := (if TrimSpace (QualityHoldOnExhausted c) \<noteq> [] then QualityHoldOnExhausted c else qualityRetryFailOpen)\<rparr>))"

section \<open>Signals\<close>

text \<open>What a turn measured; \<open>completion_tokens\<close> and whether the upstream reported them are the outcome's usage.\<close>

record qualitySignals =
  qs_ExpectReasoning :: bool
  qs_SawReasoning :: bool
  qs_VisibleChars :: int
  qs_ReasoningChars :: int
  qs_EncryptedChars :: int
  qs_ReasoningTokens :: int
  qs_FirstVisibleMS :: int
  qs_Terminal :: bool
  qs_ToolCalls :: int

record chatOutcome =
  co_Quality :: qualitySignals
  co_completion_tokens :: int
  co_reported :: bool

record qualityStreamSignals =
  sg_HasThinking :: bool
  sg_HasReasoningDelta :: bool
  sg_ReasoningStarted :: bool
  sg_VisibleTokens :: int
  sg_ReasoningTokens :: int
  sg_OutputTokens :: int
  sg_EncryptedBytes :: int
  sg_EncryptedFloor :: int
  sg_UsageReported :: bool
  sg_FirstVisible :: bool
  sg_VisibleFlushMS :: int
  sg_Terminal :: bool
  sg_HoldExpired :: bool

definition max_int64 :: int where "max_int64 = 2 ^ 63 - 1"

definition encryptedThinkingFloor :: "int \<Rightarrow> int \<Rightarrow> int \<Rightarrow> int" where
  "encryptedThinkingFloor minChars0 charsPerToken0 reasoningTokens =
     (let minChars = (if minChars0 \<le> 0 then qualityMinEncryptedChars else minChars0);
          charsPerToken = (if charsPerToken0 \<le> 0 then qualityEncryptedCharsPerReasoningToken else charsPerToken0) in
      if reasoningTokens > 0
      then if reasoningTokens > max_int64 div charsPerToken then max_int64
        else let need = reasoningTokens * charsPerToken in if need > minChars then need else minChars
      else minChars)"

definition qualityFastFlush :: "qualityStreamSignals \<Rightarrow> int \<Rightarrow> bool" where
  "qualityFastFlush sig limitMS \<longleftrightarrow> sg_FirstVisible sig \<and> sg_VisibleFlushMS sig \<ge> 0 \<and> sg_VisibleFlushMS sig < limitMS"

definition qualityMeetsEncryptedFloor :: "qualityStreamSignals \<Rightarrow> bool" where
  "qualityMeetsEncryptedFloor sig \<longleftrightarrow>
     (if sg_EncryptedBytes sig \<le> 0 then False
      else let floor0 = sg_EncryptedFloor sig; floor' = (if floor0 \<le> 0 then encryptedThinkingFloor 0 0 (sg_ReasoningTokens sig) else floor0) in
        sg_EncryptedBytes sig \<ge> floor')"

definition qualityHasDumpBill :: "qualityStreamSignals \<Rightarrow> bool" where
  "qualityHasDumpBill sig \<longleftrightarrow> sg_ReasoningTokens sig \<ge> qualityBurstReasoning \<or> qualityMeetsEncryptedFloor sig"

definition qualityIsBurstDump :: "qualityStreamSignals \<Rightarrow> bool" where
  "qualityIsBurstDump sig \<longleftrightarrow>
     (if sg_HasReasoningDelta sig then False
      else let shortVisible = (sg_VisibleTokens sig > 0 \<and> sg_VisibleTokens sig < qualityBurstVisible) in
        if sg_HoldExpired sig \<and> shortVisible \<and> sg_ReasoningTokens sig \<ge> qualityBurstReasoning then True
        else qualityFastFlush sig qualityBurstFlushMS \<and> qualityHasDumpBill sig)"

definition qualityIsFakeEncryptedDump :: "qualityStreamSignals \<Rightarrow> bool" where
  "qualityIsFakeEncryptedDump sig \<longleftrightarrow>
     (if sg_HasReasoningDelta sig then False else qualityFastFlush sig qualityFakeEncFlushMS \<and> qualityHasDumpBill sig)"

definition qualityIsFastReasoningRatioDump :: "qualityStreamSignals \<Rightarrow> bool" where
  "qualityIsFastReasoningRatioDump sig \<longleftrightarrow>
     (if \<not> sg_HasReasoningDelta sig \<or> \<not> qualityFastFlush sig qualityFakeEncFlushMS then False
      else let output = (if sg_OutputTokens sig \<le> 0 then wrap64 (sg_VisibleTokens sig + sg_ReasoningTokens sig) else sg_OutputTokens sig) in
        if output \<le> 0 \<or> sg_ReasoningTokens sig \<le> 0 then False
        else wrap64 (sg_ReasoningTokens sig * 5) \<ge> wrap64 (output * 4))"

definition qualityIsCipherDrool :: "qualityStreamSignals \<Rightarrow> int \<Rightarrow> bool" where
  "qualityIsCipherDrool sig minOutput0 \<longleftrightarrow>
     (let minOutput = (if minOutput0 \<le> 0 then qualityHoldMinOutputDefault else minOutput0) in
      if sg_HasReasoningDelta sig \<or> sg_ReasoningTokens sig > 0 \<or> sg_EncryptedBytes sig \<le> 0 then False
      else if sg_VisibleTokens sig \<ge> qualityCipherDroolVisible then True
      else sg_Terminal sig \<and> sg_VisibleTokens sig \<ge> minOutput)"

definition quality_dump :: "qualityStreamSignals \<Rightarrow> int \<Rightarrow> bool" where
  "quality_dump sig minOutput \<longleftrightarrow> qualityIsBurstDump sig \<or> qualityIsCipherDrool sig minOutput \<or>
     qualityIsFakeEncryptedDump sig \<or> qualityIsFastReasoningRatioDump sig"

definition classifyQualityHold :: "qualityStreamSignals \<Rightarrow> int \<Rightarrow> qualityVerdict" where
  "classifyQualityHold sig minOutput0 =
     (let minOutput = (if minOutput0 \<le> 0 then qualityHoldMinOutputDefault else minOutput0) in
      if quality_dump sig minOutput then qualityWithhold
      else if sg_HasThinking sig
      then if sg_HasReasoningDelta sig then qualityDeliver
        else if sg_Terminal sig then qualityDeliver
        else if sg_VisibleTokens sig \<ge> minOutput \<and> sg_FirstVisible sig \<and> sg_VisibleFlushMS sig \<ge> qualityFakeEncFlushMS then qualityDeliver
        else qualityWait
      else
        let output = (if sg_VisibleTokens sig \<le> 0 then sg_OutputTokens sig else sg_VisibleTokens sig); enough = (output \<ge> minOutput) in
        if sg_ReasoningStarted sig \<and> \<not> sg_Terminal sig \<and> \<not> sg_HoldExpired sig then qualityWait
        else if sg_Terminal sig \<or> sg_HoldExpired sig
        then if output \<le> 0 then qualityWait else if enough then qualityWithhold else qualityDeliver
        else if enough then qualityWithhold
        else qualityWait)"

definition decideQualityRetry :: "qualityVerdict \<Rightarrow> int \<Rightarrow> int \<Rightarrow> string \<Rightarrow> qualityRetryAction" where
  "decideQualityRetry verdict attemptIndex0 maxAttempts0 onExhausted =
     (if verdict \<noteq> qualityWithhold then qualityActionDeliver
      else
        let maxAttempts = (if maxAttempts0 \<le> 0 then qualityHoldMaxAttemptsDefault else maxAttempts0);
            attemptIndex = (if attemptIndex0 < 0 then 0 else attemptIndex0) in
        if attemptIndex < maxAttempts - 1 then qualityActionRetry
        else if failOpen onExhausted then qualityActionDeliverLast
        else qualityActionReject)"

definition boundQualityRetry :: "qualityRetryAction \<Rightarrow> bool \<Rightarrow> string \<Rightarrow> qualityRetryAction" where
  "boundQualityRetry action hasNextRoutingAttempt onExhausted =
     (if action \<noteq> qualityActionRetry \<or> hasNextRoutingAttempt then action
      else if failOpen onExhausted then qualityActionDeliverLast
      else qualityActionReject)"

section \<open>The client\<close>

type_synonym header = "string \<Rightarrow> string list option"

record client =
  cl_header :: header
  cl_sent :: "(int \<times> header) option"
  cl_body :: string
  cl_flushed :: nat
  cl_gone :: bool

definition cl_WriteHeader :: "int \<Rightarrow> client \<Rightarrow> client" where
  "cl_WriteHeader status c = (if cl_sent c = None then c\<lparr>cl_sent := Some (status, cl_header c)\<rparr> else c)"

text \<open>A write reports whether it failed.\<close>

definition cl_Write :: "string \<Rightarrow> client \<Rightarrow> bool \<times> client" where
  "cl_Write p c = (let c1 = cl_WriteHeader 200 c in if cl_gone c then (True, c1) else (False, c1\<lparr>cl_body := cl_body c @ p\<rparr>))"

definition cl_Flush :: "client \<Rightarrow> client" where
  "cl_Flush c = c\<lparr>cl_flushed := length (cl_body c)\<rparr>"

text \<open>Every key of \<open>h\<close> replaces the one of the client.\<close>

definition copy_header :: "header \<Rightarrow> client \<Rightarrow> client" where
  "copy_header h c =
     c\<lparr>cl_header := (\<lambda>k. case h k of None \<Rightarrow> cl_header c k | Some values \<Rightarrow> if values = [] then None else Some values)\<rparr>"

section \<open>The deferred writer\<close>

record deferredResponseWriter =
  dw_target :: client
  dw_header :: header
  dw_status :: int
  dw_body :: string
  dw_committed :: bool
  dw_discarded :: bool

definition newDeferredResponseWriter :: "client \<Rightarrow> deferredResponseWriter" where
  "newDeferredResponseWriter target =
     \<lparr>dw_target = target, dw_header = Map.empty, dw_status = 200, dw_body = [], dw_committed = False, dw_discarded = False\<rparr>"

text \<open>\<^verbatim>\<open>Header().Set(k, v)\<close>.\<close>

definition dw_set_header :: "string \<Rightarrow> string \<Rightarrow> deferredResponseWriter \<Rightarrow> deferredResponseWriter" where
  "dw_set_header k v d =
     (if dw_committed d then d\<lparr>dw_target := (dw_target d)\<lparr>cl_header := (cl_header (dw_target d))(k \<mapsto> [v])\<rparr>\<rparr>
      else d\<lparr>dw_header := (dw_header d)(k \<mapsto> [v])\<rparr>)"

definition dw_WriteHeader :: "int \<Rightarrow> deferredResponseWriter \<Rightarrow> deferredResponseWriter" where
  "dw_WriteHeader status d = (if dw_committed d \<or> dw_discarded d then d else d\<lparr>dw_status := status\<rparr>)"

definition dw_Commit :: "deferredResponseWriter \<Rightarrow> bool \<times> deferredResponseWriter" where
  "dw_Commit d =
     (if dw_committed d then (False, d)
      else if dw_discarded d then (False, d)
      else
        let t = cl_WriteHeader (dw_status d) (copy_header (dw_header d) (dw_target d));
            (failed, t1) = (if dw_body d \<noteq> [] then cl_Write (dw_body d) t else (False, t)) in
        (failed, d\<lparr>dw_committed := True, dw_target := (if failed then t1 else cl_Flush t1)\<rparr>))"

definition dw_Write :: "string \<Rightarrow> deferredResponseWriter \<Rightarrow> bool \<times> deferredResponseWriter" where
  "dw_Write p d =
     (if dw_discarded d then (False, d)
      else if dw_committed d then (let (failed, t) = cl_Write p (dw_target d) in (failed, d\<lparr>dw_target := t\<rparr>))
      else if int (length (dw_body d)) + int (length p) > qualityHoldMaxBytes
      then (let (failed, d1) = dw_Commit d in
        if failed then (True, d1)
        else let (failed, t) = cl_Write p (dw_target d1) in (failed, d1\<lparr>dw_target := t\<rparr>))
      else (False, d\<lparr>dw_body := dw_body d @ p\<rparr>))"

definition dw_Flush :: "deferredResponseWriter \<Rightarrow> deferredResponseWriter" where
  "dw_Flush d = (if dw_committed d \<and> \<not> dw_discarded d then d\<lparr>dw_target := cl_Flush (dw_target d)\<rparr> else d)"

definition dw_Discard :: "deferredResponseWriter \<Rightarrow> deferredResponseWriter" where
  "dw_Discard d = d\<lparr>dw_discarded := True, dw_body := []\<rparr>"

definition dw_Buffered :: "deferredResponseWriter \<Rightarrow> int" where
  "dw_Buffered d = int (length (dw_body d))"

record parkedResponse =
  pk_header :: header
  pk_status :: int
  pk_body :: string

definition dw_Park :: "deferredResponseWriter \<Rightarrow> parkedResponse option \<times> deferredResponseWriter" where
  "dw_Park d =
     (if dw_committed d \<or> dw_discarded d then (None, d)
      else (Some \<lparr>pk_header = dw_header d, pk_status = dw_status d, pk_body = dw_body d\<rparr>, d\<lparr>dw_discarded := True, dw_body := []\<rparr>))"

definition CommitTo :: "parkedResponse option \<Rightarrow> client \<Rightarrow> bool \<times> client" where
  "CommitTo p c =
     (case p of None \<Rightarrow> (False, c)
      | Some r \<Rightarrow>
          let c1 = cl_WriteHeader (if pk_status r = 0 then 200 else pk_status r) (copy_header (pk_header r) c) in
          if pk_body r = [] then (False, c1) else cl_Write (pk_body r) c1)"

definition pk_isEmpty :: "parkedResponse option \<Rightarrow> bool" where
  "pk_isEmpty p \<longleftrightarrow> (case p of None \<Rightarrow> True | Some r \<Rightarrow> pk_body r = [])"

section \<open>The hold of a turn\<close>

record buildQualityHold =
  qh_writer :: deferredResponseWriter
  qh_policy :: qualityHoldPolicy
  qh_started :: instant
  qh_outcome :: chatOutcome
  qh_reasoningStarted :: bool
  qh_expired :: bool

text \<open>A fresh outcome is Go's zero value: in particular the first visible text counts as having come at 0 ms.\<close>

definition zero_quality :: qualitySignals where
  "zero_quality = \<lparr>qs_ExpectReasoning = False, qs_SawReasoning = False, qs_VisibleChars = 0, qs_ReasoningChars = 0, qs_EncryptedChars = 0,
     qs_ReasoningTokens = 0, qs_FirstVisibleMS = 0, qs_Terminal = False, qs_ToolCalls = 0\<rparr>"

definition zero_outcome :: chatOutcome where
  "zero_outcome = \<lparr>co_Quality = zero_quality, co_completion_tokens = 0, co_reported = False\<rparr>"

definition newBuildQualityHold :: "instant \<Rightarrow> client \<Rightarrow> qualityHoldPolicy \<Rightarrow> buildQualityHold" where
  "newBuildQualityHold now w policy =
     \<lparr>qh_writer = newDeferredResponseWriter w, qh_policy = normalizeQualityHoldPolicy policy, qh_started = now, qh_outcome = zero_outcome,
       qh_reasoningStarted = False, qh_expired = False\<rparr>"

definition hold_signals :: "bool \<Rightarrow> buildQualityHold \<Rightarrow> qualityStreamSignals" where
  "hold_signals terminal h =
     (let q = co_Quality (qh_outcome h);
          sig = \<lparr>sg_HasThinking = False, sg_HasReasoningDelta = (qs_ReasoningChars q > 0), sg_ReasoningStarted = qh_reasoningStarted h,
            sg_VisibleTokens = tokensFromChars (qs_VisibleChars q), sg_ReasoningTokens = qs_ReasoningTokens q,
            sg_OutputTokens = co_completion_tokens (qh_outcome h), sg_EncryptedBytes = qs_EncryptedChars q,
            sg_EncryptedFloor = encryptedThinkingFloor 0 0 (qs_ReasoningTokens q), sg_UsageReported = co_reported (qh_outcome h),
            sg_FirstVisible = (qs_VisibleChars q > 0 \<and> qs_FirstVisibleMS q \<ge> 0), sg_VisibleFlushMS = qs_FirstVisibleMS q,
            sg_Terminal = (terminal \<or> qs_Terminal q), sg_HoldExpired = qh_expired h\<rparr> in
      sig\<lparr>sg_HasThinking := (sg_HasReasoningDelta sig \<or> qualityMeetsEncryptedFloor sig)\<rparr>)"

definition hold_step :: "instant \<Rightarrow> bool \<Rightarrow> buildQualityHold \<Rightarrow> (qualityVerdict \<times> bool) \<times> buildQualityHold" where
  "hold_step now terminal h =
     (if dw_Buffered (qh_writer h) \<ge> qualityHoldMaxBytes then ((qualityDeliver, False), h)
      else
        let h1 = (if \<not> qh_expired h \<and> Sub now (qh_started h) \<ge> qp_HoldTimeout (qh_policy h) then h\<lparr>qh_expired := True\<rparr> else h);
            result = classifyQualityHold (hold_signals terminal h1) (qp_MinOutput (qh_policy h1)) in
        ((result, result = qualityWait), h1))"

text \<open>\<open>Inr ()\<close>: the stream goes on.\<close>

datatype stream_stop = errQualityWithheld | errWrite

definition checkHold :: "instant \<Rightarrow> bool \<Rightarrow> buildQualityHold \<Rightarrow> (stream_stop + unit) \<times> buildQualityHold" where
  "checkHold now terminalEvent h =
     (case hold_step now terminalEvent h of ((verdict, waiting), h1) \<Rightarrow>
        if waiting then (Inr (), h1)
        else if verdict = qualityWithhold then (Inl errQualityWithheld, h1)
        else let (failed, d) = dw_Commit (qh_writer h1) in (if failed then Inl errWrite else Inr (), h1\<lparr>qh_writer := d\<rparr>))"

definition emit_frame :: "instant \<Rightarrow> string \<Rightarrow> buildQualityHold \<Rightarrow> (stream_stop + unit) \<times> buildQualityHold" where
  "emit_frame now frame h =
     (case dw_Write frame (qh_writer h) of (failed, d) \<Rightarrow>
        if failed then (Inl errWrite, h\<lparr>qh_writer := d\<rparr>)
        else checkHold now False (h\<lparr>qh_writer := dw_Flush d\<rparr>))"


section \<open>A turn of a stream under a hold\<close>

text \<open>What an upstream event makes the stream do, with the frame it writes. \<open>Written\<close> is a frame that measures nothing: the role,
  arguments of a tool, a citation, a search, a refusal.\<close>

datatype turn_action =
    TextDelta string string
  | ThoughtDelta string string
  | ReasoningOpened
  | Signature string string
  | ToolOpened string
  | UsageSeen int
  | Written string

definition on_quality :: "(qualitySignals \<Rightarrow> qualitySignals) \<Rightarrow> buildQualityHold \<Rightarrow> buildQualityHold" where
  "on_quality f h = h\<lparr>qh_outcome := (qh_outcome h)\<lparr>co_Quality := f (co_Quality (qh_outcome h))\<rparr>\<rparr>"

definition see_text :: "instant \<Rightarrow> string \<Rightarrow> buildQualityHold \<Rightarrow> buildQualityHold" where
  "see_text now value h = on_quality (\<lambda>q. q\<lparr>qs_VisibleChars := qs_VisibleChars q + int (length value),
     qs_FirstVisibleMS := (if qs_FirstVisibleMS q < 0 then Sub now (qh_started h) div millisecond else qs_FirstVisibleMS q)\<rparr>) h"

definition see_thought :: "string \<Rightarrow> buildQualityHold \<Rightarrow> buildQualityHold" where
  "see_thought value = on_quality (\<lambda>q. q\<lparr>qs_SawReasoning := True, qs_ReasoningChars := qs_ReasoningChars q + int (length value)\<rparr>)"

fun turn_step :: "instant \<Rightarrow> turn_action \<Rightarrow> buildQualityHold \<Rightarrow> (stream_stop + unit) \<times> buildQualityHold" where
  "turn_step now (TextDelta value frame) h = (if value = [] then (Inr (), h) else emit_frame now frame (see_text now value h))"
| "turn_step now (ThoughtDelta value frame) h =
     (let h1 = h\<lparr>qh_reasoningStarted := True\<rparr> in if value = [] then (Inr (), h1) else emit_frame now frame (see_thought value h1))"
| "turn_step now ReasoningOpened h = (Inr (), h\<lparr>qh_reasoningStarted := True\<rparr>)"
| "turn_step now (Signature signature frame) h = emit_frame now frame (on_quality (\<lambda>q. q\<lparr>qs_EncryptedChars := int (length signature)\<rparr>) h)"
| "turn_step now (ToolOpened frame) h = emit_frame now frame (on_quality (\<lambda>q. q\<lparr>qs_ToolCalls := qs_ToolCalls q + 1\<rparr>) h)"
| "turn_step now (UsageSeen n) h = (Inr (), h\<lparr>qh_outcome := (qh_outcome h)\<lparr>co_completion_tokens := n, co_reported := True\<rparr>\<rparr>)"
| "turn_step now (Written frame) h = emit_frame now frame h"

fun run_steps :: "(instant \<times> turn_action) list \<Rightarrow> buildQualityHold \<Rightarrow> (stream_stop + unit) \<times> buildQualityHold" where
  "run_steps [] h = (Inr (), h)"
| "run_steps ((now, a) # as) h = (case turn_step now a h of (Inl stop, h1) \<Rightarrow> (Inl stop, h1) | (Inr _, h1) \<Rightarrow> run_steps as h1)"

text \<open>How a stream ends: it breaks, it is found to repeat itself, or it completes. After its end come the text held for a stop
  sequence, the arguments of tools that had none, the usage, and the end frame; the answer may still turn out to be unusable.\<close>

record stream_tail =
  st_flush :: "(instant \<times> turn_action) list"
  st_unusable :: bool
  st_error :: string
  st_estimate :: int
  st_now :: instant
  st_final :: string
  st_done :: string

datatype turn_end = Breaks string | Repeats string | Completes instant stream_tail

datatype turn_result = TurnWithheld | TurnEnded

definition fail_turn :: "string \<Rightarrow> buildQualityHold \<Rightarrow> buildQualityHold" where
  "fail_turn frame h =
     (let (failed, d) = dw_Commit (qh_writer h) in
      if failed then h\<lparr>qh_writer := d\<rparr> else h\<lparr>qh_writer := dw_Flush (snd (dw_Write frame d))\<rparr>)"

definition finish_turn :: "stream_tail \<Rightarrow> buildQualityHold \<Rightarrow> buildQualityHold" where
  "finish_turn t h =
     (case run_steps (st_flush t) h of
        (Inl stop, h1) \<Rightarrow> fail_turn (st_error t) h1
      | (Inr _, h1) \<Rightarrow>
          if st_unusable t then fail_turn (st_error t) h1
          else
            let h2 = (if co_reported (qh_outcome h1) then h1 else h1\<lparr>qh_outcome := (qh_outcome h1)\<lparr>co_completion_tokens := st_estimate t\<rparr>\<rparr>) in
            (case emit_frame (st_now t) (st_final t) h2 of
               (Inl stop, h3) \<Rightarrow> h3
             | (Inr _, h3) \<Rightarrow> (case dw_Write (st_done t) (qh_writer h3) of
                 (failed, d) \<Rightarrow> h3\<lparr>qh_writer := (if failed then d else dw_Flush d)\<rparr>)))"

definition end_stream :: "turn_end \<Rightarrow> buildQualityHold \<Rightarrow> turn_result \<times> buildQualityHold" where
  "end_stream e h =
     (case e of
        Breaks frame \<Rightarrow> (TurnEnded, fail_turn frame h)
      | Repeats frame \<Rightarrow> (TurnEnded, h\<lparr>qh_writer := dw_Flush (snd (dw_Write frame (qh_writer h)))\<rparr>)
      | Completes now t \<Rightarrow>
          (case checkHold now True h of
             (Inl errQualityWithheld, h1) \<Rightarrow> (TurnWithheld, h1)
           | (Inl errWrite, h1) \<Rightarrow> (TurnEnded, fail_turn (st_error t) h1)
           | (Inr _, h1) \<Rightarrow> (TurnEnded, finish_turn t h1)))"

definition stream_turn :: "instant \<Rightarrow> string \<Rightarrow> (instant \<times> turn_action) list \<Rightarrow> string \<Rightarrow> turn_end \<Rightarrow> buildQualityHold \<Rightarrow> turn_result \<times> buildQualityHold" where
  "stream_turn now role as read_error e h =
     (case emit_frame now role h of
        (Inl stop, h1) \<Rightarrow> (TurnEnded, h1)
      | (Inr _, h1) \<Rightarrow>
          (case run_steps as h1 of
             (Inl errQualityWithheld, h2) \<Rightarrow> (TurnWithheld, h2)
           | (Inl errWrite, h2) \<Rightarrow> (TurnEnded, fail_turn read_error h2)
           | (Inr _, h2) \<Rightarrow> end_stream e h2))"

text \<open>What the caller of a held stream, and of a collected answer, makes of it: a response to keep aside, and whether to retry.\<close>

definition held_stream :: "instant \<Rightarrow> string \<Rightarrow> (instant \<times> turn_action) list \<Rightarrow> string \<Rightarrow> turn_end \<Rightarrow> qualityHoldPolicy \<Rightarrow> client \<Rightarrow>
    (parkedResponse option \<times> bool) \<times> client" where
  "held_stream now role as read_error e policy w =
     (case stream_turn now role as read_error e (newBuildQualityHold now w policy) of
        (TurnWithheld, h) \<Rightarrow> let (p, d) = dw_Park (qh_writer h) in ((p, True), dw_target d)
      | (TurnEnded, h) \<Rightarrow> ((None, False), dw_target (qh_writer h)))"

text \<open>\<open>answer\<close> is what the collector wrote, or its error response when \<open>bad\<close>.\<close>

definition held_answer :: "instant \<Rightarrow> bool \<Rightarrow> (deferredResponseWriter \<Rightarrow> deferredResponseWriter) \<Rightarrow> chatOutcome \<Rightarrow> qualityHoldPolicy \<Rightarrow> client \<Rightarrow>
    (parkedResponse option \<times> bool) \<times> client" where
  "held_answer now bad answer outcome policy w =
     (let d = answer (newDeferredResponseWriter w) in
      if bad then ((None, False), dw_target (snd (dw_Commit d)))
      else
        let h = \<lparr>qh_writer = d, qh_policy = policy, qh_started = now, qh_outcome = outcome, qh_reasoningStarted = False, qh_expired = False\<rparr> in
        if fst (fst (hold_step now True h)) = qualityWithhold
        then (let (p, d1) = dw_Park d in ((p, True), dw_target d1))
        else ((None, False), dw_target (snd (dw_Commit d))))"

text \<open>A stream without a hold sets its headers first; a held one does not.\<close>

definition streamResponseHeaders :: "client \<Rightarrow> client" where
  "streamResponseHeaders w = w\<lparr>cl_header := (cl_header w)(''Content-Type'' \<mapsto> [''text/event-stream; charset=utf-8''],
     ''Cache-Control'' \<mapsto> [''no-cache''], ''X-Accel-Buffering'' \<mapsto> [''no''], ''Connection'' := None)\<rparr>"


section \<open>The writer\<close>

datatype dw_op = OpHeader string string | OpStatus int | OpWrite string | OpFlush | OpCommit

fun dw_do :: "dw_op \<Rightarrow> deferredResponseWriter \<Rightarrow> deferredResponseWriter" where
  "dw_do (OpHeader k v) d = dw_set_header k v d"
| "dw_do (OpStatus n) d = dw_WriteHeader n d"
| "dw_do (OpWrite p) d = snd (dw_Write p d)"
| "dw_do OpFlush d = dw_Flush d"
| "dw_do OpCommit d = snd (dw_Commit d)"

fun op_bytes :: "dw_op \<Rightarrow> string" where
  "op_bytes (OpWrite p) = p"
| "op_bytes _ = []"

definition dw_run :: "dw_op list \<Rightarrow> deferredResponseWriter \<Rightarrow> deferredResponseWriter" where
  "dw_run ops d = fold dw_do ops d"

lemmas client_defs = cl_WriteHeader_def cl_Write_def cl_Flush_def copy_header_def
lemmas writer_defs = dw_set_header_def dw_WriteHeader_def dw_Write_def dw_Flush_def dw_Commit_def dw_Park_def dw_Discard_def

text \<open>Held, the writer has the bytes and the client nothing; released, the client has the bytes.\<close>

definition dw_holds :: "client \<Rightarrow> string \<Rightarrow> deferredResponseWriter \<Rightarrow> bool" where
  "dw_holds w s d \<longleftrightarrow> \<not> dw_discarded d \<and>
     (if dw_committed d then cl_body (dw_target d) = cl_body w @ s \<and> \<not> cl_gone (dw_target d) else dw_target d = w \<and> dw_body d = s)"

lemma dw_holds_new: "dw_holds w [] (newDeferredResponseWriter w)"
  by (simp add: dw_holds_def newDeferredResponseWriter_def)

lemma dw_holds_do: "dw_holds w s d \<Longrightarrow> \<not> cl_gone w \<Longrightarrow> dw_holds w (s @ op_bytes x) (dw_do x d)"
  by (cases x) (auto simp: dw_holds_def writer_defs client_defs Let_def split: if_splits)

lemma dw_holds_run: "dw_holds w s d \<Longrightarrow> \<not> cl_gone w \<Longrightarrow> dw_holds w (s @ concat (map op_bytes ops)) (dw_run ops d)"
proof (induction ops arbitrary: s d)
  case (Cons x ops)
  then show ?case using Cons.IH [OF dw_holds_do [OF Cons.prems(1,2), of x]] by (simp add: dw_run_def)
qed (simp add: dw_run_def)

text \<open>The deferred writer is all or nothing: until it is released the client has seen no status, no header and no
  byte, and from then on it has every byte written, in order, however writes, header changes, flushes and releases are mixed and
  also when the buffer overflows.\<close>

theorem deferred_writer_exact:
  assumes "\<not> cl_gone w"
  shows "if dw_committed (dw_run ops (newDeferredResponseWriter w))
    then cl_body (dw_target (dw_run ops (newDeferredResponseWriter w))) = cl_body w @ concat (map op_bytes ops)
    else dw_target (dw_run ops (newDeferredResponseWriter w)) = w \<and> dw_body (dw_run ops (newDeferredResponseWriter w)) = concat (map op_bytes ops)"
  using dw_holds_run [OF dw_holds_new assms, of ops] by (simp add: dw_holds_def)

definition fresh_client :: client where
  "fresh_client = \<lparr>cl_header = Map.empty, cl_sent = None, cl_body = [], cl_flushed = 0, cl_gone = False\<rparr>"

theorem deferred_writer_exact_witness:
  "cl_body (dw_target (dw_run [OpWrite ''a'', OpCommit, OpWrite ''b''] (newDeferredResponseWriter fresh_client))) = ''ab''"
  using deferred_writer_exact [of fresh_client "[OpWrite ''a'', OpCommit, OpWrite ''b'']"]
  by (simp add: dw_run_def fresh_client_def newDeferredResponseWriter_def dw_Write_def dw_Commit_def client_defs qualityHoldMaxBytes_def)

text \<open>A parked or discarded turn stays invisible: whatever is written later is swallowed.\<close>

lemma discarded_is_silent: "dw_discarded d \<Longrightarrow> \<not> dw_committed d \<Longrightarrow> dw_discarded (dw_run ops d) \<and> \<not> dw_committed (dw_run ops d) \<and> dw_target (dw_run ops d) = dw_target d"
proof (induction ops arbitrary: d)
  case (Cons x ops)
  have "dw_discarded (dw_do x d) \<and> \<not> dw_committed (dw_do x d) \<and> dw_target (dw_do x d) = dw_target d"
    using Cons.prems by (cases x) (auto simp: writer_defs)
  then show ?case using Cons.IH [of "dw_do x d"] by (simp add: dw_run_def)
qed (simp add: dw_run_def)

text \<open>Delivering a parked response is releasing it, up to the final flush.\<close>

lemma parked_delivery:
  assumes "fst (dw_Park d) = Some p" "dw_status d \<noteq> 0"
  shows "cl_Flush (snd (CommitTo (Some p) (dw_target d))) = cl_Flush (dw_target (snd (dw_Commit d)))"
  using assms by (auto simp: writer_defs CommitTo_def client_defs Let_def split: if_splits)

section \<open>Verdicts\<close>

lemmas dump_defs = quality_dump_def qualityIsBurstDump_def qualityIsCipherDrool_def qualityIsFakeEncryptedDump_def qualityIsFastReasoningRatioDump_def

text \<open>Reasoning in plain text is proof: a turn that streamed some is delivered at once, unless the upstream bills
  reasoning for at least four fifths of an answer that came within two seconds.\<close>

theorem plain_reasoning_is_delivered:
  assumes "sg_HasThinking sig" "sg_HasReasoningDelta sig" "in_int64 (sg_ReasoningTokens sig * 5)"
    "in_int64 (sg_OutputTokens sig * 4)" "in_int64 ((sg_VisibleTokens sig + sg_ReasoningTokens sig) * 4)" "in_int64 (sg_VisibleTokens sig + sg_ReasoningTokens sig)"
  shows "classifyQualityHold sig m =
    (if sg_FirstVisible sig \<and> 0 \<le> sg_VisibleFlushMS sig \<and> sg_VisibleFlushMS sig < 2000 \<and> 0 < sg_ReasoningTokens sig \<and>
        (let output = (if sg_OutputTokens sig \<le> 0 then sg_VisibleTokens sig + sg_ReasoningTokens sig else sg_OutputTokens sig) in
          0 < output \<and> output * 4 \<le> sg_ReasoningTokens sig * 5)
     then qualityWithhold else qualityDeliver)"
  using assms by (auto simp: classifyQualityHold_def dump_defs qualityFastFlush_def qualityFakeEncFlushMS_def Let_def wrap64_id)

section \<open>A withheld turn\<close>

text \<open>A stream as long as the hold has not expired and its frames fit: the flush time it measures stays zero, the reasoning bill comes
  only with the end, and the turn is released exactly when reasoning has been streamed in plain text.\<close>

definition hold_inv :: "client \<Rightarrow> instant \<Rightarrow> duration \<Rightarrow> string \<Rightarrow> buildQualityHold \<Rightarrow> bool" where
  "hold_inv w t0 timeout s h \<longleftrightarrow>
     (let d = qh_writer h; q = co_Quality (qh_outcome h) in
      \<not> dw_discarded d \<and> dw_header d = Map.empty \<and> dw_status d = 200 \<and> length (dw_body d) \<le> length s \<and>
      qs_FirstVisibleMS q = 0 \<and> qs_ReasoningTokens q = 0 \<and> \<not> qs_Terminal q \<and> 0 \<le> qs_ReasoningChars q \<and>
      qh_started h = t0 \<and> qp_HoldTimeout (qh_policy h) = timeout \<and> \<not> qh_expired h \<and>
      (if dw_committed d then 0 < qs_ReasoningChars q else dw_target d = w \<and> dw_body d = s))"

definition withheld_with :: "client \<Rightarrow> string \<Rightarrow> buildQualityHold \<Rightarrow> bool" where
  "withheld_with w s h \<longleftrightarrow>
     (let d = qh_writer h in dw_target d = w \<and> dw_Park d = (Some \<lparr>pk_header = Map.empty, pk_status = 200, pk_body = s\<rparr>, d\<lparr>dw_discarded := True, dw_body := []\<rparr>))"

lemma withheld_unreasoned:
  "classifyQualityHold sig m = qualityWithhold \<Longrightarrow> sg_ReasoningTokens sig = 0 \<Longrightarrow> sg_HasReasoningDelta sig \<longrightarrow> sg_HasThinking sig \<Longrightarrow>
   \<not> sg_HasReasoningDelta sig"
  by (rule ccontr) (simp add: classifyQualityHold_def dump_defs Let_def split: if_splits)

lemma delivered_reasoned:
  "classifyQualityHold sig m = qualityDeliver \<Longrightarrow> \<not> sg_Terminal sig \<Longrightarrow> \<not> sg_HoldExpired sig \<Longrightarrow> sg_VisibleFlushMS sig = 0 \<Longrightarrow>
   sg_HasReasoningDelta sig"
  by (rule ccontr) (simp add: classifyQualityHold_def qualityFakeEncFlushMS_def Let_def split: if_splits)

lemma unexpired_verdict:
  assumes "hold_inv w t0 timeout s h" "int (length s) < qualityHoldMaxBytes" "Sub now t0 < timeout"
  shows "\<exists>v. hold_step now terminal h = ((v, v = qualityWait), h) \<and>
    (v = qualityWithhold \<longrightarrow> qs_ReasoningChars (co_Quality (qh_outcome h)) = 0) \<and>
    (v = qualityDeliver \<and> \<not> terminal \<longrightarrow> 0 < qs_ReasoningChars (co_Quality (qh_outcome h)))"
proof -
  let ?sig = "hold_signals terminal h"
  let ?v = "classifyQualityHold ?sig (qp_MinOutput (qh_policy h))"
  have sig: "sg_ReasoningTokens ?sig = 0" "sg_VisibleFlushMS ?sig = 0" "sg_Terminal ?sig = terminal" "\<not> sg_HoldExpired ?sig"
    "sg_HasReasoningDelta ?sig = (0 < qs_ReasoningChars (co_Quality (qh_outcome h)))" "sg_HasReasoningDelta ?sig \<longrightarrow> sg_HasThinking ?sig"
    using assms(1) by (auto simp: hold_inv_def hold_signals_def Let_def)
  have "hold_step now terminal h = ((?v, ?v = qualityWait), h)"
    using assms by (auto simp: hold_inv_def hold_step_def dw_Buffered_def Let_def)
  moreover have "?v = qualityWithhold \<longrightarrow> \<not> sg_HasReasoningDelta ?sig"
    using withheld_unreasoned [OF _ sig(1,6)] by blast
  moreover have "?v = qualityDeliver \<and> \<not> terminal \<longrightarrow> sg_HasReasoningDelta ?sig"
    using delivered_reasoned [OF _ _ sig(4,2)] sig(3) by blast
  moreover have "0 \<le> qs_ReasoningChars (co_Quality (qh_outcome h))" using assms(1) by (auto simp: hold_inv_def Let_def)
  ultimately show ?thesis using sig(5) by force
qed

lemma checked:
  assumes "hold_inv w t0 timeout s h" "int (length s) < qualityHoldMaxBytes" "Sub now t0 < timeout" "checkHold now terminal h = (r, h')"
  shows "(r = Inl errQualityWithheld \<longrightarrow> withheld_with w s h') \<and> (r = Inr () \<and> \<not> terminal \<longrightarrow> hold_inv w t0 timeout s h')"
proof -
  obtain v where v: "hold_step now terminal h = ((v, v = qualityWait), h)"
    and c: "v = qualityWithhold \<longrightarrow> qs_ReasoningChars (co_Quality (qh_outcome h)) = 0"
      "v = qualityDeliver \<and> \<not> terminal \<longrightarrow> 0 < qs_ReasoningChars (co_Quality (qh_outcome h))"
    using unexpired_verdict [OF assms(1-3)] by blast
  show ?thesis
  proof (cases v)
    case qualityWait
    then show ?thesis using v assms(1,4) by (auto simp: checkHold_def)
  next
    case qualityDeliver
    then show ?thesis using v c assms(1,4)
      by (auto simp: checkHold_def hold_inv_def dw_Commit_def Let_def split: prod.splits if_splits)
  next
    case qualityWithhold
    then show ?thesis using v c assms(1,4)
      by (auto simp: checkHold_def hold_inv_def withheld_with_def dw_Park_def Let_def split: if_splits)
  qed
qed

lemma emitted_frame:
  assumes "hold_inv w t0 timeout s h" "int (length s + length frame) < qualityHoldMaxBytes" "Sub now t0 < timeout" "emit_frame now frame h = (r, h')"
  shows "(r = Inl errQualityWithheld \<longrightarrow> withheld_with w (s @ frame) h') \<and> (r = Inr () \<longrightarrow> hold_inv w t0 timeout (s @ frame) h')"
proof (cases "dw_Write frame (qh_writer h)")
  case (Pair failed d)
  show ?thesis
  proof (cases failed)
    case True
    then show ?thesis using assms(4) Pair by (auto simp: emit_frame_def)
  next
    case False
    have "hold_inv w t0 timeout (s @ frame) (h\<lparr>qh_writer := dw_Flush d\<rparr>)"
      using assms(1,2) Pair by (auto simp: hold_inv_def dw_Write_def dw_Flush_def Let_def split: prod.splits if_splits)
    then show ?thesis using checked [of w t0 timeout "s @ frame" _ now False] assms(2-4) Pair False by (auto simp: emit_frame_def)
  qed
qed

fun action_frame :: "turn_action \<Rightarrow> string" where
  "action_frame (TextDelta value frame) = (if value = [] then [] else frame)"
| "action_frame (ThoughtDelta value frame) = (if value = [] then [] else frame)"
| "action_frame (Signature signature frame) = frame"
| "action_frame (ToolOpened frame) = frame"
| "action_frame (Written frame) = frame"
| "action_frame _ = []"

lemma seen_inv:
  assumes "hold_inv w t0 timeout s h"
  shows "hold_inv w t0 timeout s (see_text now v h)" "hold_inv w t0 timeout s (see_thought v h)"
    "hold_inv w t0 timeout s (h\<lparr>qh_reasoningStarted := b\<rparr>)" "hold_inv w t0 timeout s (on_quality (\<lambda>q. q\<lparr>qs_EncryptedChars := n\<rparr>) h)"
    "hold_inv w t0 timeout s (on_quality (\<lambda>q. q\<lparr>qs_ToolCalls := qs_ToolCalls q + 1\<rparr>) h)"
    "hold_inv w t0 timeout s (h\<lparr>qh_outcome := (qh_outcome h)\<lparr>co_completion_tokens := n, co_reported := r\<rparr>\<rparr>)"
  using assms by (auto simp: hold_inv_def see_text_def see_thought_def on_quality_def Let_def)

lemma step_held:
  assumes "hold_inv w t0 timeout s h" "int (length s + length (action_frame a)) < qualityHoldMaxBytes" "Sub now t0 < timeout" "turn_step now a h = (r, h')"
  shows "(r = Inl errQualityWithheld \<longrightarrow> withheld_with w (s @ action_frame a) h') \<and> (r = Inr () \<longrightarrow> hold_inv w t0 timeout (s @ action_frame a) h')"
proof -
  have emit: "hold_inv w t0 timeout s g \<Longrightarrow> emit_frame now (action_frame a) g = (r, h') \<Longrightarrow> ?thesis" for g
    using emitted_frame [of w t0 timeout s g "action_frame a" now r h'] assms(2,3) by blast
  show ?thesis
  proof (cases a)
    case (TextDelta v f)
    then show ?thesis using assms(1,4) emit [OF seen_inv(1) [OF assms(1)], of now v] by (auto split: if_splits)
  next
    case (ThoughtDelta v f)
    then show ?thesis using assms(4) seen_inv(3) [OF assms(1)] emit [OF seen_inv(2) [OF seen_inv(3) [OF assms(1)]]] by (auto simp: Let_def split: if_splits)
  next
    case (Signature g f)
    then show ?thesis using assms(4) emit [OF seen_inv(4) [OF assms(1)]] by auto
  next
    case (ToolOpened f)
    then show ?thesis using assms(4) emit [OF seen_inv(5) [OF assms(1)]] by auto
  next
    case (Written f)
    then show ?thesis using assms(4) emit [OF assms(1)] by auto
  qed (use assms(4) seen_inv(3,6) [OF assms(1)] in auto)
qed

definition frames :: "(instant \<times> turn_action) list \<Rightarrow> string" where
  "frames as = concat (map (action_frame \<circ> snd) as)"

lemma steps_held:
  assumes "hold_inv w t0 timeout s h" "int (length s + length (frames as)) < qualityHoldMaxBytes" "\<forall>x \<in> set as. Sub (fst x) t0 < timeout" "run_steps as h = (r, h')"
  shows "(r = Inl errQualityWithheld \<longrightarrow> (\<exists>k. withheld_with w (s @ frames (take k as)) h')) \<and> (r = Inr () \<longrightarrow> hold_inv w t0 timeout (s @ frames as) h')"
  using assms
proof (induction as arbitrary: s h)
  case Nil
  then show ?case by (auto simp: frames_def)
next
  case (Cons x as)
  obtain now a where x: "x = (now, a)" by fastforce
  obtain q g where q: "turn_step now a h = (q, g)" by fastforce
  have fr: "frames ((now, a) # as) = action_frame a @ frames as" by (simp add: frames_def)
  have len: "length (frames (x # as)) = length (action_frame a) + length (frames as)" by (simp only: x fr length_append)
  have step: "(q = Inl errQualityWithheld \<longrightarrow> withheld_with w (s @ action_frame a) g) \<and> (q = Inr () \<longrightarrow> hold_inv w t0 timeout (s @ action_frame a) g)"
    using step_held [OF Cons.prems(1) _ _ q] Cons.prems(2,3) by (simp add: x fr)
  show ?case
  proof (cases q)
    case (Inl stop)
    then have "r = Inl stop" "h' = g" using Cons.prems(4) q by (simp_all add: x)
    moreover have "frames (take 1 (x # as)) = action_frame a" by (simp add: frames_def x)
    ultimately show ?thesis using step Inl by (metis sum.sel(1) sum.simps(4))
  next
    case (Inr u)
    then have rest: "run_steps as g = (r, h')" using Cons.prems(4) q by (simp add: x)
    have inv: "hold_inv w t0 timeout (s @ action_frame a) g" using step Inr by simp
    have ih: "(r = Inl errQualityWithheld \<longrightarrow> (\<exists>k. withheld_with w ((s @ action_frame a) @ frames (take k as)) h')) \<and>
        (r = Inr () \<longrightarrow> hold_inv w t0 timeout ((s @ action_frame a) @ frames as) h')"
      using Cons.IH [OF inv _ _ rest] Cons.prems(2,3) by (simp add: len)
    moreover have "frames (take (Suc k) (x # as)) = action_frame a @ frames (take k as)" for k by (simp add: frames_def x)
    ultimately show ?thesis unfolding x fr by (metis append_assoc)
  qed
qed

lemma withheld_stream_kept:
  assumes "held_stream now role as read_error e policy w = ((p, True), c)"
    "int (length role + length (frames as)) < qualityHoldMaxBytes"
    "\<forall>x \<in> set as. Sub (fst x) now < qp_HoldTimeout (normalizeQualityHoldPolicy policy)"
    "case e of Completes t tail \<Rightarrow> Sub t now < qp_HoldTimeout (normalizeQualityHoldPolicy policy) | _ \<Rightarrow> True"
  shows "c = w \<and> (\<exists>k. p = Some \<lparr>pk_header = Map.empty, pk_status = 200, pk_body = role @ frames (take k as)\<rparr>)"
proof -
  let ?T = "qp_HoldTimeout (normalizeQualityHoldPolicy policy)"
  have fits: "length (frames (take k as)) \<le> length (frames as)" for k
    by (metis append_take_drop_id concat_append frames_def length_append le_add1 map_append)
  have T: "Sub now now < ?T" by (auto simp: Sub_def normalizeQualityHoldPolicy_def qualityHoldTimeoutDefault_def min_duration_def max_duration_def)
  obtain h where h: "stream_turn now role as read_error e (newBuildQualityHold now w policy) = (TurnWithheld, h)"
    using assms(1) by (auto simp: held_stream_def split: prod.splits turn_result.splits)
  have inv: "hold_inv w now ?T [] (newBuildQualityHold now w policy)"
    by (simp add: hold_inv_def newBuildQualityHold_def newDeferredResponseWriter_def zero_outcome_def zero_quality_def)
  obtain r1 h1 where e1: "emit_frame now role (newBuildQualityHold now w policy) = (r1, h1)" by fastforce
  then have r1: "r1 = Inr ()" using h by (cases r1) (auto simp: stream_turn_def)
  have inv1: "hold_inv w now ?T role h1" using emitted_frame [OF inv _ T e1] assms(2) r1 by simp
  obtain r2 h2 where e2: "run_steps as h1 = (r2, h2)" by fastforce
  have held: "(r2 = Inl errQualityWithheld \<longrightarrow> (\<exists>k. withheld_with w (role @ frames (take k as)) h2)) \<and> (r2 = Inr () \<longrightarrow> hold_inv w now ?T (role @ frames as) h2)"
    by (rule steps_held [OF inv1 assms(2,3) e2])
  have "\<exists>k. withheld_with w (role @ frames (take k as)) h"
  proof (cases r2)
    case (Inl stop)
    then have "stop = errQualityWithheld \<and> h = h2" using h by (cases stop) (simp_all add: stream_turn_def e1 e2 r1)
    then show ?thesis using held Inl by simp
  next
    case (Inr u)
    then have "end_stream e h2 = (TurnWithheld, h)" using h e1 e2 r1 by (simp add: stream_turn_def)
    then obtain t tail where e: "e = Completes t tail" and c: "checkHold t True h2 = (Inl errQualityWithheld, h)"
      by (auto simp: end_stream_def split: turn_end.splits prod.splits sum.splits stream_stop.splits)
    have "hold_inv w now ?T (role @ frames as) h2" using held Inr by simp
    moreover have "Sub t now < ?T" using assms(4) e by simp
    ultimately have "withheld_with w (role @ frames as) h" using checked [OF _ _ _ c, of w now ?T "role @ frames as"] assms(2) by simp
    then show ?thesis by (intro exI [of _ "length as"]) simp
  qed
  then show ?thesis using assms(1) h by (auto simp: held_stream_def withheld_with_def Let_def)
qed


section \<open>A stream that reasons\<close>

text \<open>Its writer holds or has delivered every frame; once reasoning was streamed, no check refuses the turn.\<close>

definition open_inv :: "client \<Rightarrow> string \<Rightarrow> buildQualityHold \<Rightarrow> bool" where
  "open_inv w s h \<longleftrightarrow> dw_holds w s (qh_writer h) \<and> \<not> cl_gone w \<and>
     (let q = co_Quality (qh_outcome h) in qs_ReasoningTokens q = 0 \<and> 0 \<le> qs_ReasoningChars q)"

abbreviation reasoned :: "buildQualityHold \<Rightarrow> bool" where
  "reasoned h \<equiv> 0 < qs_ReasoningChars (co_Quality (qh_outcome h))"

lemma reasoned_verdict:
  assumes "open_inv w s h" "reasoned h"
  shows "fst (hold_step now terminal h) = (qualityDeliver, False)"
proof -
  have "classifyQualityHold (hold_signals terminal h1) m = qualityDeliver"
    if "qh_outcome h1 = qh_outcome h" for h1 m
    using assms that by (simp add: classifyQualityHold_def dump_defs hold_signals_def open_inv_def Let_def)
  then show ?thesis by (simp add: hold_step_def Let_def)
qed

lemma held_commit:
  assumes "dw_holds w s d" "\<not> cl_gone w"
  shows "\<not> fst (dw_Commit d)" "dw_holds w s (snd (dw_Commit d))" "dw_committed (snd (dw_Commit d))"
    "\<not> fst (dw_Write p d)" "dw_holds w (s @ p) (snd (dw_Write p d))" "dw_holds w s (dw_Flush d)"
  using assms dw_holds_do [OF assms, of OpCommit] dw_holds_do [OF assms, of "OpWrite p"] dw_holds_do [OF assms, of OpFlush]
  by (auto simp: dw_holds_def dw_Commit_def dw_Write_def client_defs Let_def split: if_splits)

lemma hold_step_sel: "hold_step now terminal h = (v, h') \<Longrightarrow> qh_writer h' = qh_writer h \<and> qh_outcome h' = qh_outcome h \<and> qh_policy h' = qh_policy h"
  by (auto simp: hold_step_def Let_def split: if_splits)

lemma checked_open:
  assumes "open_inv w s h" "checkHold now terminal h = (r, h')"
  shows "open_inv w s h'" "qh_outcome h' = qh_outcome h" "r \<noteq> Inl errWrite" "reasoned h \<Longrightarrow> r = Inr () \<and> dw_committed (qh_writer h')"
proof -
  obtain v b h1 where st: "hold_step now terminal h = ((v, b), h1)" by (metis surj_pair)
  note sel = hold_step_sel [OF st]
  have commit: "\<not> fst (dw_Commit (qh_writer h))" "dw_holds w s (snd (dw_Commit (qh_writer h)))" "dw_committed (snd (dw_Commit (qh_writer h)))"
    using held_commit [of w s "qh_writer h"] assms(1) by (auto simp: open_inv_def)
  show "open_inv w s h'" "qh_outcome h' = qh_outcome h" "r \<noteq> Inl errWrite"
    using assms st sel commit by (auto simp: checkHold_def open_inv_def Let_def split: prod.splits if_splits)
  show "reasoned h \<Longrightarrow> r = Inr () \<and> dw_committed (qh_writer h')"
    using reasoned_verdict [OF assms(1), of now terminal] assms(2) st sel commit by (auto simp: checkHold_def Let_def split: prod.splits if_splits)
qed

lemma emitted_open:
  assumes "open_inv w s h" "emit_frame now frame h = (r, h')"
  shows "open_inv w (s @ frame) h'" "qh_outcome h' = qh_outcome h" "r \<noteq> Inl errWrite" "reasoned h \<Longrightarrow> r = Inr () \<and> dw_committed (qh_writer h')"
proof -
  obtain f d where wr: "dw_Write frame (qh_writer h) = (f, d)" by fastforce
  have g: "\<not> cl_gone w" "dw_holds w s (qh_writer h)" using assms(1) by (auto simp: open_inv_def)
  have d: "\<not> f" "dw_holds w (s @ frame) d" using held_commit(4,5) [OF g(2,1), of frame] wr by auto
  then have o1: "open_inv w (s @ frame) (h\<lparr>qh_writer := dw_Flush d\<rparr>)"
    using assms(1) held_commit(6) [OF d(2) g(1)] by (auto simp: open_inv_def)
  have c: "checkHold now False (h\<lparr>qh_writer := dw_Flush d\<rparr>) = (r, h')" using assms(2) wr d(1) by (simp add: emit_frame_def)
  show "open_inv w (s @ frame) h'" "qh_outcome h' = qh_outcome h" "r \<noteq> Inl errWrite" "reasoned h \<Longrightarrow> r = Inr () \<and> dw_committed (qh_writer h')"
    using checked_open [OF o1 c] by simp_all
qed

fun reasons :: "turn_action \<Rightarrow> bool" where
  "reasons (ThoughtDelta value frame) \<longleftrightarrow> value \<noteq> []"
| "reasons _ \<longleftrightarrow> False"

lemma see_sel:
  "qh_writer (see_text now v h) = qh_writer h" "qh_writer (see_thought v h) = qh_writer h" "qh_writer (on_quality f h) = qh_writer h"
  "qs_ReasoningTokens (co_Quality (qh_outcome (see_text now v h))) = qs_ReasoningTokens (co_Quality (qh_outcome h))"
  "qs_ReasoningTokens (co_Quality (qh_outcome (see_thought v h))) = qs_ReasoningTokens (co_Quality (qh_outcome h))"
  "qs_ReasoningChars (co_Quality (qh_outcome (see_text now v h))) = qs_ReasoningChars (co_Quality (qh_outcome h))"
  "qs_ReasoningChars (co_Quality (qh_outcome (see_thought v h))) = qs_ReasoningChars (co_Quality (qh_outcome h)) + int (length v)"
  by (simp_all add: see_text_def see_thought_def on_quality_def)

lemma step_open:
  assumes "open_inv w s h" "turn_step now a h = (r, h')"
  shows "open_inv w (s @ action_frame a) h' \<and> r \<noteq> Inl errWrite \<and> (reasoned h \<or> reasons a \<longrightarrow> reasoned h') \<and> (reasoned h \<longrightarrow> r = Inr ())"
proof -
  have emit: "turn_step now a h = emit_frame now (action_frame a) g \<Longrightarrow> open_inv w s g \<Longrightarrow> (reasoned h \<or> reasons a \<longrightarrow> reasoned g) \<Longrightarrow> ?thesis" for g
    using emitted_open [of w s g now "action_frame a" r h'] assms(2) by auto
  show ?thesis
  proof (cases a)
    case (TextDelta v f)
    then show ?thesis using assms emit [of "see_text now v h"] by (auto simp: open_inv_def see_sel Let_def split: if_splits)
  next
    case (ThoughtDelta v f)
    have "v \<noteq> [] \<Longrightarrow> 0 < qs_ReasoningChars (co_Quality (qh_outcome h)) + int (length v)"
      using assms(1) by (simp add: open_inv_def Let_def add_nonneg_pos)
    then show ?thesis using ThoughtDelta assms emit [of "see_thought v (h\<lparr>qh_reasoningStarted := True\<rparr>)"]
      by (cases "v = []") (auto simp: open_inv_def see_sel Let_def)
  next
    case (Signature g f)
    then show ?thesis using assms emit [of "on_quality (\<lambda>q. q\<lparr>qs_EncryptedChars := int (length g)\<rparr>) h"]
      by (auto simp: open_inv_def on_quality_def Let_def)
  next
    case (ToolOpened f)
    then show ?thesis using assms emit [of "on_quality (\<lambda>q. q\<lparr>qs_ToolCalls := qs_ToolCalls q + 1\<rparr>) h"]
      by (auto simp: open_inv_def on_quality_def Let_def)
  next
    case (Written f)
    then show ?thesis using assms emit [of h] by auto
  qed (use assms in \<open>auto simp: open_inv_def Let_def\<close>)
qed

lemma steps_open:
  assumes "open_inv w s h" "run_steps as h = (r, h')"
  shows "r \<noteq> Inl errWrite \<and> (r = Inr () \<longrightarrow> open_inv w (s @ frames as) h' \<and> (reasoned h \<or> (\<exists>x \<in> set as. reasons (snd x)) \<longrightarrow> reasoned h')) \<and>
    (reasoned h \<longrightarrow> r = Inr ())"
  using assms
proof (induction as arbitrary: s h)
  case (Cons x as)
  obtain now a q g where x: "x = (now, a)" and q: "turn_step now a h = (q, g)" by (metis surj_pair)
  note st = step_open [OF Cons.prems(1) q]
  show ?case
  proof (cases q)
    case (Inl stop)
    then show ?thesis using st Cons.prems(2) q by (auto simp: x)
  next
    case (Inr u)
    have "run_steps as g = (r, h')" using Cons.prems(2) q Inr by (simp add: x)
    then show ?thesis using Cons.IH [of "s @ action_frame a" g] st by (auto simp: x frames_def)
  qed
qed (auto simp: frames_def)

lemma role_is_held:
  assumes "\<not> cl_gone w" "emit_frame now role (newBuildQualityHold t0 w policy) = (r, h')"
  shows "r = Inr () \<and> open_inv w role h'"
proof -
  let ?h = "newBuildQualityHold t0 w policy"
  have o: "open_inv w [] ?h"
    using assms(1) by (simp add: open_inv_def newBuildQualityHold_def dw_holds_new zero_outcome_def zero_quality_def)
  have m: "0 < qp_MinOutput (normalizeQualityHoldPolicy policy)" by (simp add: normalizeQualityHoldPolicy_def qualityHoldMinOutputDefault_def)
  have "classifyQualityHold (hold_signals False h1) (qp_MinOutput (qh_policy h1)) \<noteq> qualityWithhold"
    if "qh_outcome h1 = zero_outcome" "qp_MinOutput (qh_policy h1) = qp_MinOutput (normalizeQualityHoldPolicy policy)" for h1
    using m that by (simp add: classifyQualityHold_def dump_defs hold_signals_def zero_outcome_def zero_quality_def tokensFromChars_def
        qualityMeetsEncryptedFloor_def qualityHasDumpBill_def qualityFastFlush_def Let_def)
  then have "fst (fst (hold_step now False (?h\<lparr>qh_writer := d\<rparr>))) \<noteq> qualityWithhold" for d
    by (simp add: hold_step_def newBuildQualityHold_def Let_def)
  then have "hold_step now False (?h\<lparr>qh_writer := d\<rparr>) \<noteq> ((qualityWithhold, b), g)" for d b g by (metis fst_conv)
  then have "r \<noteq> Inl errQualityWithheld" using assms(2)
    by (auto simp: emit_frame_def checkHold_def Let_def split: prod.splits if_splits)
  then show ?thesis using emitted_open [OF o assms(2)] by (cases r) (auto intro: stream_stop.exhaust)
qed

text \<open>Property C21: a stream that reasons in the open is delivered in full. When it completes and is not withheld, its client has
  every frame in order, the end of the stream included, whatever the times, the sizes and the verdicts on the way.\<close>

theorem reasoned_stream_is_complete:
  assumes "held_stream now role as read_error (Completes t tail) policy w = ((p, False), c)" "\<not> cl_gone w"
    "\<exists>x \<in> set as. reasons (snd x)" "\<not> st_unusable tail"
  shows "cl_body c = cl_body w @ role @ frames as @ frames (st_flush tail) @ st_final tail @ st_done tail"
proof -
  obtain h where h: "stream_turn now role as read_error (Completes t tail) (newBuildQualityHold now w policy) = (TurnEnded, h)" and c: "c = dw_target (qh_writer h)"
    using assms(1) by (auto simp: held_stream_def Let_def split: prod.splits turn_result.splits)
  obtain r1 h1 where e1: "emit_frame now role (newBuildQualityHold now w policy) = (r1, h1)" by fastforce
  have r1: "r1 = Inr ()" "open_inv w role h1" using role_is_held [OF assms(2) e1] by simp_all
  obtain r2 h2 where e2: "run_steps as h1 = (r2, h2)" by fastforce
  note st = steps_open [OF r1(2) e2]
  have r2: "r2 = Inr ()"
  proof (cases r2)
    case (Inl stop)
    then show ?thesis using h st by (cases stop) (simp_all add: stream_turn_def e1 e2 r1(1))
  qed simp
  then have o2: "open_inv w (role @ frames as) h2" "reasoned h2" using st assms(3) by simp_all
  obtain r3 h3 where e3: "checkHold t True h2 = (r3, h3)" by fastforce
  note o3 = checked_open [OF o2(1) e3]
  have f: "h = finish_turn tail h3" using h o3(4) [OF o2(2)] by (simp add: stream_turn_def e1 e2 r1(1) r2 end_stream_def e3)
  obtain r4 h4 where e4: "run_steps (st_flush tail) h3 = (r4, h4)" by fastforce
  have o4: "r4 = Inr ()" "open_inv w ((role @ frames as) @ frames (st_flush tail)) h4" "reasoned h4"
    using steps_open [OF o3(1) e4] o3(2) o2(2) by simp_all
  define h5 where "h5 = (if co_reported (qh_outcome h4) then h4 else h4\<lparr>qh_outcome := (qh_outcome h4)\<lparr>co_completion_tokens := st_estimate tail\<rparr>\<rparr>)"
  have o5: "open_inv w ((role @ frames as) @ frames (st_flush tail)) h5" "reasoned h5" using o4 by (auto simp: h5_def open_inv_def)
  obtain r6 h6 where e6: "emit_frame (st_now tail) (st_final tail) h5 = (r6, h6)" by fastforce
  note o6 = emitted_open [OF o5(1) e6]
  obtain b d where e7: "dw_Write (st_done tail) (qh_writer h6) = (b, d)" by fastforce
  have o6': "dw_holds w (((role @ frames as) @ frames (st_flush tail)) @ st_final tail) (qh_writer h6)" using o6(1) by (simp add: open_inv_def)
  have d: "\<not> b" "dw_holds w ((((role @ frames as) @ frames (st_flush tail)) @ st_final tail) @ st_done tail) d"
    using held_commit(4,5) [OF o6' assms(2), of "st_done tail"] e7 by auto
  have "dw_committed d" using o6(4) [OF o5(2)] e7 by (auto simp: dw_Write_def Let_def split: prod.splits if_splits)
  moreover have "qh_writer h = dw_Flush d" using o4(1) o6(4) [OF o5(2)] e7 d(1) assms(4)
    by (simp add: f finish_turn_def e4 flip: h5_def) (simp add: h5_def [symmetric] e6 Let_def)
  ultimately show ?thesis using d(2) by (simp add: c dw_holds_def dw_Flush_def cl_Flush_def)
qed

section \<open>Examples, and where the hold goes wrong\<close>

lemma reported:
  "snd (fst r) \<Longrightarrow> r = ((fst (fst r), True), snd r)"
  "\<not> snd (fst r) \<Longrightarrow> r = ((fst (fst r), False), snd r)"
  by (cases r; auto)+

definition default_policy :: qualityHoldPolicy where
  "default_policy = configured_policy None"

definition plain_tail :: stream_tail where
  "plain_tail = \<lparr>st_flush = [], st_unusable = False, st_error = ''error'', st_estimate = 20, st_now = 3 * second, st_final = '' end'', st_done = '' done''\<rparr>"


theorem reasoned_stream_is_complete_witness:
  "cl_body (snd (held_stream 0 ''role'' [(second, ThoughtDelta ''hm'' '' thought''), (second, TextDelta ''hi'' '' text'')] [] (Completes second plain_tail) default_policy fresh_client))
    = ''role thought text end done''"
proof -
  let ?as = "[(second, ThoughtDelta ''hm'' '' thought''), (second, TextDelta ''hi'' '' text'')]"
  let ?r = "held_stream 0 ''role'' ?as [] (Completes second plain_tail) default_policy fresh_client"
  have "\<not> snd (fst ?r)" by code_simp
  note r = reported(2) [OF this]
  show ?thesis using reasoned_stream_is_complete [OF r] by (simp add: fresh_client_def plain_tail_def frames_def)
qed

text \<open>Reasoning that arrives encrypted counts as a dump as soon as one visible character follows, whatever the time between the two:
  the flush time of a stream is never set, since its zero value already passes for a measurement.\<close>

lemma fake_dump_withheld: "qualityIsFakeEncryptedDump sig \<Longrightarrow> classifyQualityHold sig m = qualityWithhold"
  by (simp add: classifyQualityHold_def quality_dump_def Let_def)

lemma cipher_turn_withheld:
  assumes "256 \<le> qs_EncryptedChars (co_Quality (qh_outcome h))" "qs_ReasoningChars (co_Quality (qh_outcome h)) = 0"
    "qs_ReasoningTokens (co_Quality (qh_outcome h)) = 0" "0 < qs_VisibleChars (co_Quality (qh_outcome h))"
    "qs_FirstVisibleMS (co_Quality (qh_outcome h)) = 0" "dw_Buffered (qh_writer h) < qualityHoldMaxBytes"
  shows "fst (fst (hold_step now terminal h)) = qualityWithhold"
proof -
  have "qualityIsFakeEncryptedDump (hold_signals terminal h1)" if "qh_outcome h1 = qh_outcome h" for h1
    using assms(1-5) that by (simp add: qualityIsFakeEncryptedDump_def hold_signals_def qualityHasDumpBill_def qualityMeetsEncryptedFloor_def
        qualityFastFlush_def encryptedThinkingFloor_def qualityMinEncryptedChars_def qualityFakeEncFlushMS_def Let_def)
  then show ?thesis using assms(6) by (simp add: hold_step_def fake_dump_withheld Let_def)
qed

lemma flush_time_never_set: "qs_FirstVisibleMS (co_Quality (qh_outcome h)) = 0 \<Longrightarrow> qs_FirstVisibleMS (co_Quality (qh_outcome (snd (turn_step now a h)))) = 0"
proof -
  assume z: "qs_FirstVisibleMS (co_Quality (qh_outcome h)) = 0"
  have e: "qh_outcome (snd (emit_frame now f g)) = qh_outcome g" for f g
    by (auto simp: emit_frame_def checkHold_def hold_step_def Let_def split: prod.splits)
  show ?thesis using z by (cases a) (auto simp: e Let_def see_text_def see_thought_def on_quality_def)
qed

text \<open>A hold that expires releases a short text and then refuses the longer one: the turn is reported withheld, with nothing
  to keep aside, after its client has seen it; the caller sends the request again and the client gets a second answer.\<close>

lemma late_turn_is_seen_and_withheld:
  "case held_stream 0 ''role'' [(31 * second, TextDelta ''Hi'' '' Hi''), (32 * second, TextDelta (replicate 40 CHR ''x'') '' x'')] [] (Breaks []) default_policy fresh_client of
     ((p, withheld), c) \<Rightarrow> withheld \<and> p = None \<and> cl_body c = ''role Hi x''"
  by code_simp

text \<open>A turn of tool calls whose usage was not reported is neither released nor withheld: its client gets no byte.\<close>

lemma tool_turn_is_lost:
  "case held_stream 0 ''role'' [(second, ToolOpened '' call''), (second, Written '' arguments'')] [] (Completes second plain_tail) default_policy fresh_client of
     ((p, withheld), c) \<Rightarrow> \<not> withheld \<and> cl_body c = [] \<and> Option.is_none (cl_sent c)"
  by code_simp

text \<open>With its usage it is withheld, although the guard does not judge turns that only call tools.\<close>

lemma tool_turn_is_withheld:
  "case held_stream 0 ''role'' [(second, ToolOpened '' call''), (second, UsageSeen 20)] [] (Completes second plain_tail) default_policy fresh_client of
     ((p, withheld), c) \<Rightarrow> withheld"
  by code_simp

text \<open>The error frame of a stream that repeats itself stays in the buffer.\<close>

lemma repeat_error_is_lost:
  "case held_stream 0 ''role'' [] [] (Repeats '' loop'') default_policy fresh_client of ((p, withheld), c) \<Rightarrow> \<not> withheld \<and> cl_body c = []"
  by code_simp

text \<open>A stream that was held goes out without the headers of an event stream.\<close>

lemma held_stream_sets_no_header:
  "case snd (held_stream 0 ''role'' [(second, ThoughtDelta ''hm'' '' thought'')] [] (Completes second plain_tail) default_policy fresh_client) of
     c \<Rightarrow> (case cl_sent c of Some (status, hdr) \<Rightarrow> status = 200 \<and> Option.is_none (hdr ''Content-Type'') | None \<Rightarrow> False)"
  by code_simp

lemma plain_stream_sets_its_header: "cl_header (streamResponseHeaders w) ''Content-Type'' = Some [''text/event-stream; charset=utf-8'']"
  by (simp add: streamResponseHeaders_def)

end
