(* ===== verification/Quality_Retry.thy ===== *)
theory Quality_Retry
  imports Quality_Hold Account_Store
begin

text \<open>
  The retries of the Grok channel (\<^verbatim>\<open>src/internal/grok/native_chat.go\<close>) and the guard behind them (\<^verbatim>\<open>quality_guard.go\<close>): the switch to
  another account when an attempt fails, the retry of a withheld turn on another account, and the parking of the account.
  An attempt, the choice of the next account and the pause between two attempts are arguments that may answer differently each
  time. A session holds the slot of its account; what a request does to slots and upstreams is kept as a list of events.
\<close>

section \<open>The guard\<close>

definition qualityDegraded :: "qualitySignals \<Rightarrow> bool" where
  "qualityDegraded sig \<longleftrightarrow>
     (if \<not> qs_ExpectReasoning sig \<or> qs_SawReasoning sig \<or> \<not> qs_Terminal sig \<or> qs_ToolCalls sig > 0 then False
      else if qs_VisibleChars sig < qualityMinVisible \<and> qs_ReasoningChars sig \<le> 0 then False
      else if qs_ReasoningTokens sig \<ge> qualityBurstReasoning \<and> qs_VisibleChars sig > 0 \<and> qs_VisibleChars sig < qualityBurstVisible \<and>
        qs_FirstVisibleMS sig \<ge> 0 \<and> qs_FirstVisibleMS sig < qualityBurstFlushMS then True
      else qs_ReasoningChars sig \<le> 0)"

text \<open>The request's effort, if it names one, and whether a reasoning replay is active.\<close>

definition qualityExpectsReasoning :: "string option \<Rightarrow> bool \<Rightarrow> bool" where
  "qualityExpectsReasoning effort replay \<longleftrightarrow>
     (if replay then True else case effort of None \<Rightarrow> False | Some e \<Rightarrow> \<not> EqualFold (TrimSpace e) ''none'')"

text \<open>A hosted tool may have had its effect already; a client's own tool has not. A chat tool names its type itself or in its
  raw declaration.\<close>

record tool_declaration =
  td_Type :: string
  td_raw_type :: string
  td_environment :: string

definition replay_unsafe_tool :: "string \<Rightarrow> string \<Rightarrow> bool" where
  "replay_unsafe_tool kind environment =
     (let t = ToLower (TrimSpace kind) in
      if t \<in> {[], ''function'', ''custom'', ''local_shell'', ''apply_patch'', ''tool_search''} then False
      else if t = ''shell'' then ToLower (TrimSpace environment) \<noteq> ''local''
      else True)"

definition qualityRequestReplayUnsafe :: "bool \<Rightarrow> nat \<Rightarrow> tool_declaration list \<Rightarrow> tool_declaration list \<Rightarrow> bool" where
  "qualityRequestReplayUnsafe webSearch mcpServers responsesTools tools \<longleftrightarrow>
     (if webSearch \<or> mcpServers > 0 then True
      else (\<exists>t \<in> set responsesTools. replay_unsafe_tool (td_raw_type t) (td_environment t)) \<or>
        (\<exists>t \<in> set tools. replay_unsafe_tool (if TrimSpace (td_Type t) \<noteq> [] then td_Type t else td_raw_type t) (td_environment t)))"

definition shouldHoldQualityTurn :: "hold_config option \<Rightarrow> string option \<Rightarrow> bool \<Rightarrow> string \<Rightarrow> bool" where
  "shouldHoldQualityTurn cfg effort replay provider \<longleftrightarrow>
     (if \<not> qp_Enabled (configured_policy cfg) \<or> provider \<noteq> ''build'' then False else qualityExpectsReasoning effort replay)"

definition parked_account :: "instant \<Rightarrow> Account \<Rightarrow> Account" where
  "parked_account now acc =
     (let a = acc\<lparr>QualityFailures := QualityFailures acc + 1, QualityCooldownUntil := now + qualityCooldown\<rparr> in
      if QualityFailures a \<ge> qualityDisableThreshold
      then a\<lparr>Enabled := False, StatusMessage := ''disabled after repeated degraded responses without reasoning''\<rparr>
      else a\<lparr>StatusMessage := ''parked: upstream returned no reasoning for a reasoning request''\<rparr>)"

text \<open>Errors of the two writes are only logged. Other writers may come between them.\<close>

definition applyQualityGuard :: "credentialCipher option \<Rightarrow> instant \<Rightarrow> string \<Rightarrow> race list \<Rightarrow> race list \<Rightarrow> (redisStore \<Rightarrow> redisStore) \<Rightarrow>
    qualitySignals \<Rightarrow> Account \<times> redisStore \<Rightarrow> bool \<times> Account \<times> redisStore" where
  "applyQualityGuard c now origin races1 races2 others sig x =
     (case x of (acc, s) \<Rightarrow>
        if \<not> qualityDegraded sig then (False, acc, s)
        else
          let a = parked_account now acc;
              s1 = others (snd (UpdateAccountQuality c now origin (ID a) (QualityFailures a) (QualityCooldownUntil a) races1 s)) in
          (True, a, if ID a \<noteq> 0 then snd (UpdateAccount c now origin a races2 s1) else s1))"

definition clearQualityGuard :: "credentialCipher option \<Rightarrow> instant \<Rightarrow> string \<Rightarrow> race list \<Rightarrow> Account \<times> redisStore \<Rightarrow> Account \<times> redisStore" where
  "clearQualityGuard c now origin races x =
     (case x of (acc, s) \<Rightarrow>
        if QualityFailures acc = 0 then (acc, s)
        else (acc\<lparr>QualityFailures := 0, QualityCooldownUntil := 0\<rparr>, snd (UpdateAccountQuality c now origin (ID acc) 0 0 races s)))"

text \<open>\<open>failed\<close>: the turn ended with an error.\<close>

definition applyBuildQualityGuard :: "credentialCipher option \<Rightarrow> instant \<Rightarrow> string \<Rightarrow> race list \<Rightarrow> race list \<Rightarrow> (redisStore \<Rightarrow> redisStore) \<Rightarrow>
    bool \<Rightarrow> qualitySignals \<Rightarrow> Account \<times> redisStore \<Rightarrow> Account \<times> redisStore" where
  "applyBuildQualityGuard c now origin races1 races2 others failed sig x =
     (if failed \<or> \<not> qs_Terminal sig then x
      else if qualityDegraded sig then snd (applyQualityGuard c now origin races1 races2 others sig x)
      else clearQualityGuard c now origin races1 x)"

section \<open>Sessions\<close>

datatype session_event = Call int | Reserve int | Free int

record session =
  se_account :: int
  se_open :: bool

definition close_session :: "session \<Rightarrow> session \<times> session_event list" where
  "close_session s = (if se_open s then (s\<lparr>se_open := False\<rparr>, [Free (se_account s)]) else (s, []))"

definition defaultAccountSwitchBudget :: int where "defaultAccountSwitchBudget = 20"
definition maxAccountSwitchBudget :: int where "maxAccountSwitchBudget = 100"

text \<open>\<open>configured\<close>: \<^verbatim>\<open>AccountSwitchCount\<close>.\<close>

definition switch_budget :: "int \<Rightarrow> int \<Rightarrow> int" where
  "switch_budget configured hardLimit =
     (let m = (if configured > 0 then min configured maxAccountSwitchBudget else defaultAccountSwitchBudget) in
      if hardLimit > 0 \<and> m > hardLimit then hardLimit else m)"

text \<open>\<open>sw_next\<close> opens a session on an account outside the list; its slot is then reserved.\<close>

record ('r, 'e) switching =
  sw_request :: "int \<Rightarrow> int \<Rightarrow> 'e + 'r"
  sw_shouldSwitch :: "'e \<Rightarrow> bool"
  sw_sleep :: "int \<Rightarrow> 'e option"
  sw_next :: "int \<Rightarrow> int list \<Rightarrow> int option"
  sw_onSwitch :: "int \<Rightarrow> 'e option"

definition used_with :: "int list \<Rightarrow> int \<Rightarrow> int list" where
  "used_with used i = (if i \<noteq> 0 then used @ [i] else used)"

function retryWithAccountSwitchLimit :: "('r, 'e) switching \<Rightarrow> int \<Rightarrow> int \<Rightarrow> session \<Rightarrow> int list \<Rightarrow> ('e + 'r) \<times> session \<times> session_event list" where
  "retryWithAccountSwitchLimit w maxAttempts attempt0 s used0 =
     (let attempt = attempt0 + 1; used = used_with used0 (se_account s); call = Call (se_account s) in
      case sw_request w attempt (se_account s) of
        Inr resp \<Rightarrow> (Inr resp, s, [call])
      | Inl err \<Rightarrow>
          if \<not> sw_shouldSwitch w err \<or> attempt \<ge> maxAttempts then (Inl err, s, [call])
          else
            let (s1, freed) = close_session s in
            case sw_sleep w attempt of
              Some cancelled \<Rightarrow> (Inl cancelled, s1, call # freed)
            | None \<Rightarrow>
                (case sw_next w attempt used of
                   None \<Rightarrow> (Inl err, s1, call # freed)
                 | Some i \<Rightarrow>
                     let s2 = \<lparr>se_account = i, se_open = True\<rparr>; opened = call # freed @ [Reserve i] in
                     (case sw_onSwitch w attempt of
                        Some e \<Rightarrow> (Inl e, s2, opened)
                      | None \<Rightarrow>
                          let (r, s3, evs) = retryWithAccountSwitchLimit w maxAttempts attempt s2 used in (r, s3, opened @ evs))))"
  by pat_completeness auto
termination
  by (relation "measure (\<lambda>(w, m, attempt, s, used). nat (m - attempt))") auto

section \<open>Withheld turns\<close>

text \<open>\<open>encode\<close> is the JSON of an error response, of its type, code and message.\<close>

definition writeGrokErrorCode :: "(string \<Rightarrow> string \<Rightarrow> string \<Rightarrow> string) \<Rightarrow> int \<Rightarrow> string \<Rightarrow> string \<Rightarrow> client \<Rightarrow> client" where
  "writeGrokErrorCode encode status0 code message c =
     (let status = (if status0 < 400 then 502 else status0);
          errorType = (if status = 401 \<or> status = 403 then ''authentication_error'' else if status = 429 then ''rate_limit_error''
            else if status \<ge> 500 then ''server_error'' else ''invalid_request_error'') in
      snd (cl_Write (encode errorType (TrimSpace code) message)
        (cl_WriteHeader status (c\<lparr>cl_header := (cl_header c)(''Content-Type'' \<mapsto> [''application/json''])\<rparr>))))"

definition deliverParkedQualityTurn :: "(string \<Rightarrow> string \<Rightarrow> string \<Rightarrow> string) \<Rightarrow> parkedResponse option \<Rightarrow> qualityRetryAction \<Rightarrow> client \<Rightarrow> client" where
  "deliverParkedQualityTurn encode parked action w =
     (if action = qualityActionReject
      then writeGrokErrorCode encode 502 ''quality_degraded'' ''every candidate account returned a degraded response'' w
      else if pk_isEmpty parked
      then writeGrokErrorCode encode 502 ''quality_degraded'' ''the upstream response was withheld and could not be delivered'' w
      else snd (CommitTo parked w))"

text \<open>\<open>qe_turn\<close> is an attempt up to \<^verbatim>\<open>finishUpstreamChat\<close>: what it reports and its client. The transport retry inside it is limited to one
  attempt and keeps the session.\<close>

record quality_env =
  qe_turn :: "int \<Rightarrow> int \<Rightarrow> client \<Rightarrow> (parkedResponse option \<times> bool) \<times> client"
  qe_next :: "int \<Rightarrow> int list \<Rightarrow> int option"
  qe_encode :: "string \<Rightarrow> string \<Rightarrow> string \<Rightarrow> string"

function quality_loop :: "quality_env \<Rightarrow> qualityHoldPolicy \<Rightarrow> bool \<Rightarrow> int \<Rightarrow> session \<Rightarrow> int list \<Rightarrow> client \<Rightarrow> client \<times> session \<times> session_event list" where
  "quality_loop e policy replayUnsafe attempt s used0 w =
     (let used = used_with used0 (se_account s); call = Call (se_account s) in
      case qe_turn e attempt (se_account s) w of
        ((parked, withheld), w1) \<Rightarrow>
          if \<not> withheld then (w1, s, [call])
          else
            let action = boundQualityRetry (decideQualityRetry qualityWithhold attempt (qp_MaxAttempts policy) (qp_OnExhausted policy))
                  (attempt + 1 < qp_MaxAttempts policy \<and> \<not> replayUnsafe) (qp_OnExhausted policy) in
            if action \<noteq> qualityActionRetry then (deliverParkedQualityTurn (qe_encode e) parked action w1, s, [call])
            else
              (case qe_next e attempt used of
                 None \<Rightarrow> (deliverParkedQualityTurn (qe_encode e) parked qualityActionDeliverLast w1, s, [call])
               | Some i \<Rightarrow>
                   let (w2, s2, evs) = quality_loop e policy replayUnsafe (attempt + 1) \<lparr>se_account = i, se_open = True\<rparr> used w1 in
                   (w2, s2, call # Reserve i # evs)))"
  by pat_completeness auto
termination
  by (relation "measure (\<lambda>(e, policy, replayUnsafe, attempt, s, used, w). nat (qp_MaxAttempts policy - attempt))")
    (auto simp: boundQualityRetry_def split: if_splits)

text \<open>A chat request: the first session, the loop, and the deferred close of the session it ends with.\<close>

definition serve_chat :: "quality_env \<Rightarrow> qualityHoldPolicy \<Rightarrow> bool \<Rightarrow> int \<Rightarrow> client \<Rightarrow> client \<times> session_event list" where
  "serve_chat e policy replayUnsafe i w =
     (let (w1, s, evs) = quality_loop e policy replayUnsafe 0 \<lparr>se_account = i, se_open = True\<rparr> [] w in
      (w1, Reserve i # evs @ snd (close_session s)))"


declare retryWithAccountSwitchLimit.simps [simp del] quality_loop.simps [simp del]

section \<open>Slots and attempts\<close>

text \<open>The accounts called, and what a list of events leaves reserved.\<close>

definition calls :: "session_event list \<Rightarrow> int list" where
  "calls evs = concat (map (\<lambda>x. case x of Call i \<Rightarrow> [i] | _ \<Rightarrow> []) evs)"

fun slot_change :: "int \<Rightarrow> session_event \<Rightarrow> int" where
  "slot_change i (Reserve j) = (if i = j then 1 else 0)"
| "slot_change i (Free j) = (if i = j then - 1 else 0)"
| "slot_change i (Call j) = 0"

definition slots_kept :: "int \<Rightarrow> session_event list \<Rightarrow> int" where
  "slots_kept i evs = sum_list (map (slot_change i) evs)"

definition slot_of :: "int \<Rightarrow> session \<Rightarrow> int" where
  "slot_of i s = (if se_open s \<and> se_account s = i then 1 else 0)"

lemma calls_simps [simp]:
  "calls [] = []" "calls (Call i # evs) = i # calls evs" "calls (Reserve i # evs) = calls evs" "calls (Free i # evs) = calls evs"
  "calls (xs @ ys) = calls xs @ calls ys"
  by (simp_all add: calls_def)

lemma slots_simps [simp]:
  "slots_kept i [] = 0" "slots_kept i (x # evs) = slot_change i x + slots_kept i evs" "slots_kept i (xs @ ys) = slots_kept i xs + slots_kept i ys"
  by (simp_all add: slots_kept_def)

lemma closed_slots: "close_session s = (s1, freed) \<Longrightarrow> slots_kept i freed = - slot_of i s \<and> slot_of i s1 = 0 \<and> calls freed = [] \<and> se_account s1 = se_account s"
  by (auto simp: close_session_def slot_of_def split: if_splits)

lemma opened_slot [simp]: "slot_of i \<lparr>se_account = j, se_open = True\<rparr> = (if i = j then 1 else 0)"
  by (auto simp: slot_of_def)

text \<open>Switching accounts is bounded and keeps the books: a request is sent to at most as many accounts as the budget
  says, once at least, and the slots it has taken and not given back are exactly the one of the session it returns.\<close>

theorem switching_is_bounded_and_balanced:
  assumes "retryWithAccountSwitchLimit w maxAttempts attempt s used = (r, s', evs)"
  shows "1 \<le> length (calls evs) \<and> int (length (calls evs)) \<le> max 1 (maxAttempts - attempt) \<and> slot_of i s + slots_kept i evs = slot_of i s'"
  using assms
proof (induction w maxAttempts attempt s used arbitrary: r s' evs rule: retryWithAccountSwitchLimit.induct)
  case (1 w maxAttempts attempt0 s used0)
  let ?a = "attempt0 + 1" and ?used = "used_with used0 (se_account s)"
  obtain s1 freed where cl: "close_session s = (s1, freed)" by fastforce
  note cs = closed_slots [OF cl, of i]
  show ?case
  proof (cases "\<exists>err j. sw_request w ?a (se_account s) = Inl err \<and> sw_shouldSwitch w err \<and> ?a < maxAttempts \<and> sw_sleep w ?a = None \<and>
      sw_next w ?a ?used = Some j \<and> sw_onSwitch w ?a = None")
    case True
    then obtain err j where c: "sw_request w ?a (se_account s) = Inl err" "sw_shouldSwitch w err" "?a < maxAttempts" "sw_sleep w ?a = None"
      "sw_next w ?a ?used = Some j" "sw_onSwitch w ?a = None" by blast
    let ?s2 = "\<lparr>se_account = j, se_open = True\<rparr>"
    obtain r3 s3 evs3 where rec: "retryWithAccountSwitchLimit w maxAttempts ?a ?s2 ?used = (r3, s3, evs3)" by (metis surj_pair)
    have out: "s' = s3" "evs = Call (se_account s) # freed @ Reserve j # evs3"
      using 1(2) c rec cl by (simp_all add: retryWithAccountSwitchLimit.simps [of w maxAttempts attempt0] Let_def)
    have ih: "1 \<le> length (calls evs3) \<and> int (length (calls evs3)) \<le> max 1 (maxAttempts - ?a) \<and> slot_of i ?s2 + slots_kept i evs3 = slot_of i s3"
      using 1(1) [OF refl refl refl c(1) _ cl [symmetric] refl c(4,5) refl refl c(6) rec] c(2,3) by simp
    then show ?thesis using cs c(3) by (auto simp: out)
  next
    case False
    then have "calls evs = [se_account s] \<and> slot_of i s + slots_kept i evs = slot_of i s'"
      using 1(2) cl cs by (auto simp: retryWithAccountSwitchLimit.simps [of w maxAttempts attempt0] Let_def split: sum.splits option.splits if_splits)
    then show ?thesis by simp
  qed
qed

lemma switch_budget_bounds: "1 \<le> switch_budget configured hardLimit \<and> switch_budget configured hardLimit \<le> 100"
  by (auto simp: switch_budget_def maxAccountSwitchBudget_def defaultAccountSwitchBudget_def Let_def)

section \<open>The retry of withheld turns\<close>

lemma retry_bound:
  "boundQualityRetry (decideQualityRetry qualityWithhold attempt m x) (attempt + 1 < m \<and> \<not> u) x = qualityActionRetry \<Longrightarrow> attempt + 1 < m \<and> \<not> u"
  by (auto simp: boundQualityRetry_def split: if_splits)

lemma retry_actions:
  "boundQualityRetry (decideQualityRetry qualityWithhold attempt m x) b x \<in> {qualityActionRetry, if failOpen x then qualityActionDeliverLast else qualityActionReject}"
  by (auto simp: boundQualityRetry_def decideQualityRetry_def Let_def)

text \<open>What a client gets: the answer of one attempt, or the last response that was kept aside, or the error in its place.\<close>

definition answered_by :: "quality_env \<Rightarrow> client \<Rightarrow> client \<Rightarrow> bool" where
  "answered_by e w w' \<longleftrightarrow>
     (\<exists>n i p. qe_turn e n i w = ((p, False), w') \<or>
        qe_turn e n i w = ((p, True), w) \<and> (\<exists>action \<in> {qualityActionDeliverLast, qualityActionReject}. w' = deliverParkedQualityTurn (qe_encode e) p action w))"

definition invisible_turns :: "quality_env \<Rightarrow> client \<Rightarrow> bool" where
  "invisible_turns e w \<longleftrightarrow> (\<forall>n i p c. qe_turn e n i w = ((p, True), c) \<longrightarrow> c = w)"

definition fresh_choice :: "quality_env \<Rightarrow> bool" where
  "fresh_choice e \<longleftrightarrow> (\<forall>n used i. qe_next e n used = Some i \<longrightarrow> i \<noteq> 0 \<and> i \<notin> set used)"

lemma quality_loop_step:
  assumes "quality_loop e policy u attempt s used w = (w', s', evs)"
  obtains (over) "evs = [Call (se_account s)]" "s' = s" "invisible_turns e w \<longrightarrow> answered_by e w w'"
  | (again) j w1 evs1 where "evs = Call (se_account s) # Reserve j # evs1" "attempt + 1 < qp_MaxAttempts policy" "\<not> u"
      "quality_loop e policy u (attempt + 1) \<lparr>se_account = j, se_open = True\<rparr> (used_with used (se_account s)) w1 = (w', s', evs1)"
      "invisible_turns e w \<longrightarrow> w1 = w" "qe_next e attempt (used_with used (se_account s)) = Some j"
proof -
  obtain p withheld w1 where t: "qe_turn e attempt (se_account s) w = ((p, withheld), w1)" by (metis surj_pair)
  let ?action = "boundQualityRetry (decideQualityRetry qualityWithhold attempt (qp_MaxAttempts policy) (qp_OnExhausted policy))
    (attempt + 1 < qp_MaxAttempts policy \<and> \<not> u) (qp_OnExhausted policy)"
  note unfold = quality_loop.simps [of e policy u attempt s used w] t Let_def
  have kept: "withheld \<Longrightarrow> invisible_turns e w \<Longrightarrow> w1 = w" using t by (auto simp: invisible_turns_def)
  have delivered: "withheld \<Longrightarrow> w' = deliverParkedQualityTurn (qe_encode e) p action w1 \<Longrightarrow> action \<in> {qualityActionDeliverLast, qualityActionReject} \<Longrightarrow>
      invisible_turns e w \<longrightarrow> answered_by e w w'" for action
  proof
    assume "withheld" "w' = deliverParkedQualityTurn (qe_encode e) p action w1" "action \<in> {qualityActionDeliverLast, qualityActionReject}" "invisible_turns e w"
    moreover from this have "w1 = w" "qe_turn e attempt (se_account s) w = ((p, True), w)" using kept t by auto
    ultimately show "answered_by e w w'" unfolding answered_by_def by blast
  qed
  show ?thesis
  proof (cases "withheld \<and> ?action = qualityActionRetry \<and> qe_next e attempt (used_with used (se_account s)) \<noteq> None")
    case True
    then obtain j where j: "qe_next e attempt (used_with used (se_account s)) = Some j" by blast
    obtain w2 s2 evs1 where rec: "quality_loop e policy u (attempt + 1) \<lparr>se_account = j, se_open = True\<rparr> (used_with used (se_account s)) w1 = (w2, s2, evs1)"
      by (metis surj_pair)
    have "evs = Call (se_account s) # Reserve j # evs1" "w2 = w'" "s2 = s'" using assms True j rec by (simp_all add: unfold)
    then show ?thesis using again rec j kept True retry_bound by blast
  next
    case False
    then have "evs = [Call (se_account s)] \<and> s' = s" using assms by (auto simp: unfold split: if_splits option.splits)
    moreover have "invisible_turns e w \<longrightarrow> answered_by e w w'"
    proof (cases withheld)
      case False
      then show ?thesis using assms t by (auto simp: unfold answered_by_def)
    next
      case True
      then obtain action where "w' = deliverParkedQualityTurn (qe_encode e) p action w1" "action \<in> {qualityActionDeliverLast, qualityActionReject}"
        using assms \<open>\<not> (withheld \<and> _ \<and> _)\<close> retry_actions [of attempt "qp_MaxAttempts policy" "qp_OnExhausted policy" "attempt + 1 < qp_MaxAttempts policy \<and> \<not> u"]
        by (cases "?action = qualityActionRetry") (auto simp: unfold split: if_splits)
      then show ?thesis using delivered True by blast
    qed
    ultimately show ?thesis using over by blast
  qed
qed

lemma quality_loop_ends:
  assumes "quality_loop e policy u attempt s used w = (w', s', evs)"
  shows "1 \<le> length (calls evs) \<and> int (length (calls evs)) \<le> max 1 (qp_MaxAttempts policy - attempt) \<and> (u \<longrightarrow> length (calls evs) = 1) \<and>
    (invisible_turns e w \<longrightarrow> answered_by e w w') \<and>
    (fresh_choice e \<and> se_account s \<noteq> 0 \<and> se_account s \<notin> set used \<longrightarrow> distinct (calls evs) \<and> set (calls evs) \<inter> set used = {}) \<and>
    slots_kept k evs + (if se_account s = k then 1 else 0) = int (count_list (calls evs) k) \<and>
    se_account s' = last (calls evs) \<and> (se_open s \<longrightarrow> se_open s')"
  using assms
proof (induction "nat (qp_MaxAttempts policy - attempt)" arbitrary: attempt s used w w' s' evs rule: less_induct)
  case less
  from less.prems show ?case
  proof (cases rule: quality_loop_step)
    case over
    then show ?thesis by auto
  next
    case (again j w1 evs1)
    let ?used = "used_with used (se_account s)"
    have "nat (qp_MaxAttempts policy - (attempt + 1)) < nat (qp_MaxAttempts policy - attempt)" using again(2) by simp
    note ih = less.hyps [OF this again(4)]
    have "fresh_choice e \<Longrightarrow> j \<noteq> 0 \<and> j \<notin> set ?used" using again(6) unfolding fresh_choice_def by blast
    moreover have "se_account s \<noteq> 0 \<Longrightarrow> set ?used = insert (se_account s) (set used)" by (simp add: used_with_def)
    ultimately show ?thesis using ih again(1-3,5) by auto
  qed
qed


text \<open>Held streams whose frames fit and that end before their hold expires are invisible when withheld.\<close>

lemma timely_streams_invisible:
  assumes "\<And>n i w. qe_turn e n i w = held_stream (start n i) (role n i) (actions n i) (err n i) (fin n i) policy w"
    "\<And>n i. int (length (role n i) + length (frames (actions n i))) < qualityHoldMaxBytes"
    "\<And>n i. \<forall>x \<in> set (actions n i). Sub (fst x) (start n i) < qp_HoldTimeout (normalizeQualityHoldPolicy policy)"
    "\<And>n i. case fin n i of Completes t tail \<Rightarrow> Sub t (start n i) < qp_HoldTimeout (normalizeQualityHoldPolicy policy) | _ \<Rightarrow> True"
  shows "invisible_turns e w"
  using withheld_stream_kept [OF _ assms(2-4)] by (auto simp: invisible_turns_def assms(1))


definition example_env :: quality_env where
  "example_env = \<lparr>qe_turn = (\<lambda>n i w. if n = 0 then ((Some \<lparr>pk_header = Map.empty, pk_status = 200, pk_body = ''dump''\<rparr>, True), w)
       else ((None, False), snd (cl_Write ''answer'' w))),
     qe_next = (\<lambda>n used. if n = 0 then Some 2 else None), qe_encode = (\<lambda>t c m. m)\<rparr>"

lemma example_served: "serve_chat example_env default_policy False 1 fresh_client =
   (snd (cl_Write ''answer'' fresh_client), [Reserve 1, Call 1, Reserve 2, Call 2, Free 2])"
  by (simp add: serve_chat_def quality_loop.simps example_env_def default_policy_def configured_policy_def normalizeQualityHoldPolicy_def
      qualityHoldMaxAttemptsDefault_def boundQualityRetry_def decideQualityRetry_def used_with_def close_session_def Let_def)

lemma example_turns: "invisible_turns example_env w" "0 < qp_MaxAttempts default_policy"
  by (auto simp: invisible_turns_def example_env_def default_policy_def configured_policy_def normalizeQualityHoldPolicy_def
      qualityHoldMaxAttemptsDefault_def Let_def split: if_splits)


text \<open>A withheld turn that is retried keeps its slot: the session is overwritten without being closed, unlike in a switch, and only
  the last one is closed at the end of the request. Every account but the last has one connection less for good.\<close>

theorem withheld_retry_leaks_slots:
  assumes "serve_chat e policy replayUnsafe i w = (w', evs)"
  shows "slots_kept k evs = int (count_list (butlast (calls evs)) k)"
proof -
  obtain s evs1 where l: "quality_loop e policy replayUnsafe 0 \<lparr>se_account = i, se_open = True\<rparr> [] w = (w', s, evs1)"
    and evs: "evs = Reserve i # evs1 @ snd (close_session s)"
    using assms(1) by (auto simp: serve_chat_def Let_def split: prod.splits)
  note ends = quality_loop_ends [OF l, of k]
  have free: "snd (close_session s) = [Free (last (calls evs1))]" using ends by (simp add: close_session_def)
  obtain xs y where "calls evs1 = xs @ [y]" using ends by (cases "calls evs1" rule: rev_exhaust) auto
  then show ?thesis using ends by (auto simp: evs free)
qed

theorem withheld_retry_leaks_slots_witness: "slots_kept 1 [Reserve 1, Call 1, Reserve 2, Call 2, Free 2] = 1"
  using withheld_retry_leaks_slots [OF example_served, of 1] by simp

theorem switching_is_bounded_and_balanced_witness:
  "slots_kept 7 (snd (snd (retryWithAccountSwitchLimit
     \<lparr>sw_request = (\<lambda>n i. if i = 7 then Inl () else Inr ''ok''), sw_shouldSwitch = (\<lambda>_. True), sw_sleep = (\<lambda>_. None), sw_next = (\<lambda>n used. Some 8), sw_onSwitch = (\<lambda>_. None)\<rparr>
     20 0 \<lparr>se_account = 7, se_open = True\<rparr> []))) = - 1"
proof -
  let ?w = "\<lparr>sw_request = (\<lambda>n i. if i = 7 then Inl () else Inr ''ok''), sw_shouldSwitch = (\<lambda>_. True), sw_sleep = (\<lambda>_. None), sw_next = (\<lambda>n used. Some 8), sw_onSwitch = (\<lambda>_. None)\<rparr>"
  have r: "retryWithAccountSwitchLimit ?w 20 0 \<lparr>se_account = 7, se_open = True\<rparr> [] = (Inr ''ok'', \<lparr>se_account = 8, se_open = True\<rparr>, [Call 7, Free 7, Reserve 8, Call 8])"
    by (simp add: retryWithAccountSwitchLimit.simps close_session_def Let_def)
  show ?thesis using switching_is_bounded_and_balanced [OF r, of 7] by (simp add: r)
qed

text \<open>A deployment that fails closed still delivers a withheld response when the pool has no other account.\<close>

lemma closed_pool_is_delivered:
  assumes "qe_turn e 0 i w = ((Some p, True), w)" "qe_next e 0 (used_with [] i) = None" "1 < qp_MaxAttempts policy"
  shows "fst (serve_chat e policy False i w) = deliverParkedQualityTurn (qe_encode e) (Some p) qualityActionDeliverLast w"
  using assms by (simp add: serve_chat_def quality_loop.simps boundQualityRetry_def decideQualityRetry_def Let_def)

section \<open>Two strikes\<close>

text \<open>A second degraded turn in a row disables the account; a sound turn between two starts over.\<close>

lemma guarded_account:
  "fst (applyBuildQualityGuard c now origin r1 r2 others failed sig (acc, s)) =
    (if failed \<or> \<not> qs_Terminal sig then acc
     else if qualityDegraded sig then parked_account now acc
     else if QualityFailures acc = 0 then acc else acc\<lparr>QualityFailures := 0, QualityCooldownUntil := 0\<rparr>)"
  by (simp add: applyBuildQualityGuard_def applyQualityGuard_def clearQualityGuard_def Let_def)

theorem second_strike_disables:
  assumes "qualityDegraded sig1" "qualityDegraded sig2" "0 \<le> QualityFailures acc"
  shows "\<not> Enabled (fst (applyBuildQualityGuard c now2 origin2 r3 r4 others2 False sig2 (applyBuildQualityGuard c now1 origin1 r1 r2 others1 False sig1 (acc, s)))) \<and>
    (\<not> qualityDegraded sig \<and> qs_Terminal sig \<longrightarrow>
      QualityFailures (fst (applyBuildQualityGuard c now3 origin3 r5 r6 others3 False sig (acc, s))) = 0)"
proof -
  have t: "qs_Terminal sig1" "qs_Terminal sig2" using assms(1,2) by (auto simp: qualityDegraded_def split: if_splits)
  obtain b s1 where b: "applyBuildQualityGuard c now1 origin1 r1 r2 others1 False sig1 (acc, s) = (b, s1)" by fastforce
  then have "b = parked_account now1 acc" using guarded_account [of c now1 origin1 r1 r2 others1 False sig1 acc s] assms(1) t by simp
  then show ?thesis using assms t by (auto simp: b guarded_account parked_account_def qualityDisableThreshold_def Let_def)
qed

theorem second_strike_disables_witness:
  "\<not> Enabled (fst (applyBuildQualityGuard None 2 [] [] [] id False
      \<lparr>qs_ExpectReasoning = True, qs_SawReasoning = False, qs_VisibleChars = 40, qs_ReasoningChars = 0, qs_EncryptedChars = 0, qs_ReasoningTokens = 0,
        qs_FirstVisibleMS = 0, qs_Terminal = True, qs_ToolCalls = 0\<rparr>
      (applyBuildQualityGuard None 1 [] [] [] id False
        \<lparr>qs_ExpectReasoning = True, qs_SawReasoning = False, qs_VisibleChars = 40, qs_ReasoningChars = 0, qs_EncryptedChars = 0, qs_ReasoningTokens = 0,
          qs_FirstVisibleMS = 0, qs_Terminal = True, qs_ToolCalls = 0\<rparr> (zero_account, empty_store))))"
  by (rule second_strike_disables [THEN conjunct1]) (simp_all add: qualityDegraded_def qualityMinVisible_def zero_account_def)

lemma tool_turn_not_judged: "0 < qs_ToolCalls sig \<Longrightarrow> \<not> qualityDegraded sig"
  by (simp add: qualityDegraded_def)

end
