(* ===== verification/Spec2Isabelle.thy ===== *)
theory Spec2Isabelle
  imports Selection Pool_Answer Key_Admission Request_Outcome Client_Cache Team_Cooldown Response_Store Refresh_Lease Egress Quality_Retry
begin

text \<open>
  A model of the gateway and the theorems about it.

  \<^bold>\<open>The program.\<close> The gateway takes requests in the Anthropic and OpenAI formats, chooses an account of a pool that
  serves the model, sends the request to the provider of that account and relays the answer. A client key pays for it;
  accounts, keys and models are rows of a Redis store that several processes share. A request passes, in order: the key
  (authentication, concurrency, budget), the route of its model, the reservation of an account, the relay of one or more
  attempts, the settlement of its cost. The failures of an attempt go through one classification, which decides what the
  account's row records, whether the request is retried and what the client is told.

  \<^bold>\<open>Theories and code.\<close> Names of definitions are those of the source where HOL allows it.

  \<^item> \<^verbatim>\<open>Prelude\<close>: Go's strings (bytes), durations and instants (64-bit values as integers, saturation written out), and the
    lemmas on lists and strings that the others share. \<^verbatim>\<open>Backoff\<close>: the contract of an exponential backoff, a locale.
  \<^item> \<^verbatim>\<open>Json\<close>: what the code uses of \<^verbatim>\<open>encoding/json\<close>. \<^verbatim>\<open>Sse_Frame\<close>, \<^verbatim>\<open>Sse_Wire\<close>: \<^verbatim>\<open>handler/sse_frame.go\<close>, with the
    eight-byte words of the string scanner as \<^verbatim>\<open>64 word\<close>. \<^verbatim>\<open>Openai_Chunk\<close>: \<^verbatim>\<open>adapter/openai_sse.go\<close>.
    \<^verbatim>\<open>Token_Estimator\<close>: \<^verbatim>\<open>tiktoken/tokenizer.go\<close>.
  \<^item> \<^verbatim>\<open>Channel\<close>: \<^verbatim>\<open>channel/channel.go\<close>. \<^verbatim>\<open>Model_Catalog\<close>: \<^verbatim>\<open>modelcatalog/profile.go\<close>. \<^verbatim>\<open>Model_Store\<close>: \<^verbatim>\<open>store/model.go\<close>,
    \<^verbatim>\<open>store/redis_models.go\<close>, \<^verbatim>\<open>store/store_models.go\<close> and the publication script of \<^verbatim>\<open>store/redis_scripts.go\<close>.
    \<^verbatim>\<open>Model_Route\<close>: the route of a model name in \<^verbatim>\<open>handler/handler_helpers.go\<close>.
  \<^item> \<^verbatim>\<open>Account\<close>, \<^verbatim>\<open>Credential_Cipher\<close>, \<^verbatim>\<open>Account_Merge\<close>, \<^verbatim>\<open>Account_Store\<close>: the account row, its encryption, the merge of a
    snapshot into it, and the Redis store of accounts (\<^verbatim>\<open>store/store.go\<close>, \<^verbatim>\<open>account_cooldown.go\<close>, \<^verbatim>\<open>credential_cipher.go\<close>,
    \<^verbatim>\<open>account_merge.go\<close>, \<^verbatim>\<open>redis_store.go\<close>). The store is a record of maps; an optimistic update is a list of the writes
    other processes made between its read and its commit.
  \<^item> \<^verbatim>\<open>Error_Classify\<close>: \<^verbatim>\<open>errors/classify.go\<close>, \<^verbatim>\<open>public.go\<close>, \<^verbatim>\<open>errors.go\<close>. \<^verbatim>\<open>Pool_Answer\<close>: \<^verbatim>\<open>errors/pool.go\<close>.
    \<^verbatim>\<open>Account_Policy\<close>: \<^verbatim>\<open>accountpolicy/policy.go\<close>. \<^verbatim>\<open>Retry_Policy\<close>: the delays and the wait budget of
    \<^verbatim>\<open>handler/handler_helpers.go\<close>.
  \<^item> \<^verbatim>\<open>Conn_Tracker\<close>: \<^verbatim>\<open>loadbalancer/conn_tracker.go\<close>. \<^verbatim>\<open>Load_Balancer\<close>, \<^verbatim>\<open>Selection\<close>: \<^verbatim>\<open>loadbalancer/loadbalancer.go\<close>,
    the model and what it guarantees.
  \<^item> \<^verbatim>\<open>Pricing\<close>: \<^verbatim>\<open>pricing/pricing.go\<close>. \<^verbatim>\<open>Key_Ledger\<close>: the spending scripts of \<^verbatim>\<open>store/redis_scripts.go\<close>. \<^verbatim>\<open>Api_Keys\<close>:
    \<^verbatim>\<open>store/redis_api_keys.go\<close>. \<^verbatim>\<open>Key_Admission\<close>: \<^verbatim>\<open>middleware/session.go\<close>, \<^verbatim>\<open>billing.go\<close> and the policy checks of
    \<^verbatim>\<open>api/api_keys.go\<close>.
  \<^item> \<^verbatim>\<open>Tool_Name\<close>, \<^verbatim>\<open>Tool_Call\<close>: \<^verbatim>\<open>toolname/toolname.go\<close> and the tool calls of \<^verbatim>\<open>handler/stream_handler.go\<close>. \<^verbatim>\<open>Relay\<close>: the
    rest of that file, one function per method, on a record with the fields of \<^verbatim>\<open>streamHandler\<close>. \<^verbatim>\<open>Relay_Stream\<close>: the
    protocol a client reads. \<^verbatim>\<open>Relay_Content\<close>: the text and tool calls it carries. \<^verbatim>\<open>Relay_Answer\<close>: the collected answer
    of \<^verbatim>\<open>handler/handler.go\<close>.
  \<^item> \<^verbatim>\<open>Account_Choice\<close>: the filter, the choice and the reservation of an account for a request
    (\<^verbatim>\<open>handler/handler_helpers.go\<close>, the catalogs of \<^verbatim>\<open>qoder\<close>, \<^verbatim>\<open>workbuddy\<close> and \<^verbatim>\<open>cline\<close>). \<^verbatim>\<open>Request_Loop\<close>:
    \<^verbatim>\<open>HandleMessages\<close> from there to the answer. \<^verbatim>\<open>Request_Outcome\<close>: what a request comes to. \<^verbatim>\<open>Client_Cache\<close>:
    \<^verbatim>\<open>handler/client_cache.go\<close>.
  \<^item> \<^verbatim>\<open>Team_Cooldown\<close>: \<^verbatim>\<open>grok/team_cooldown.go\<close>, \<^verbatim>\<open>rate_limiter.go\<close> and \<^verbatim>\<open>distributed_limits.go\<close>. \<^verbatim>\<open>Response_Store\<close>:
    \<^verbatim>\<open>store/memory_response_store.go\<close> and the stored responses of \<^verbatim>\<open>redis_ephemeral.go\<close>, two interpretations of one
    locale. \<^verbatim>\<open>Refresh_Lease\<close>: \<^verbatim>\<open>refreshqueue/refreshqueue.go\<close>. \<^verbatim>\<open>Egress\<close>: \<^verbatim>\<open>grok/egress/node.go\<close>, \<^verbatim>\<open>manager.go\<close>.
    \<^verbatim>\<open>Quality_Hold\<close>: \<^verbatim>\<open>grok/quality_hold.go\<close> and the hold of a stream in \<^verbatim>\<open>native_chat_stream.go\<close>. \<^verbatim>\<open>Quality_Retry\<close>: the
    retries and account switches of \<^verbatim>\<open>native_chat.go\<close> and \<^verbatim>\<open>quality_guard.go\<close>.

  \<^bold>\<open>What the lemmas show.\<close>

  \<^item> A selected account is admissible, the selection is optimal and complete, and rotation reaches every account.
  \<^item> A key never spends more than its limit, under every interleaving of requests, settlements, expiries and rollovers;
    each event is booked once; a request is charged once and returns its slot.
  \<^item> Account rows are updated atomically, keep their usage totals, rotated credentials and cooldowns, and the enabled
    listing is exact; encryption round trips.
  \<^item> Every verdict is coherent, and the classes of errors and answers are closed lists.
  \<^item> A relayed stream is one the protocol accepts, with one end; its text is the upstream's, its tool calls are allowed
    and unique; the byte-level encoders equal their reference definitions.
  \<^item> A request ends, is answered once, retries only in silence and within its bounds, and returns what it took. A
    reservation ends although other requests take slots between its steps.
  \<^item> Publishing a catalog keeps what operators own and is otherwise exact; a served model is a published one.
  \<^item> The key of a cached client separates what the client is built from, and a client in use is open.
  \<^item> A team's rate limit holds all its accounts to its end, pacing spaces the requests of all replicas, stored responses
    live to their deadline and are private, and an account is refreshed by one task at a time.
  \<^item> A request leaves through an exit of its scope that is not held, a failing exit is held for a doubled time up to its
    bound, and an account keeps its exit.
  \<^item> A response that is held back is invisible until it is released and whole afterwards; a request whose turns are withheld
    is repeated within its bound and answered once, under conditions the lemmas on late and overlong turns show to be needed.

  \<^bold>\<open>Time and interleaving.\<close> Every operation takes the clock as an argument; one reading serves one step. A Redis script
  and a section under a mutex are one step. What others do in between is explicit: as a relation over runs (ledger, store,
  tracker, client cache), as a list of writes (optimistic updates), or as a function from the step number to a
  transformation of the shared state (\<^verbatim>\<open>e_others\<close> of \<^verbatim>\<open>Account_Choice\<close>); the theorems hold for all of them. The handler's
  keep-alive goroutine is a beat between two messages, two rounds, or during a wait.

  \<^bold>\<open>Bounds.\<close> No definition uses fuel. The loops over windows, retries and rounds have measures; the reservation loop, which
  ends only when the pool is finite, is a \<^theory_text>\<open>partial_function (option)\<close> and a theorem of \<^verbatim>\<open>Account_Choice\<close> shows that it returns.
  Costs, counters and token counts that can reach 64 bits are wrapped or saturated as in the code.

  \<^bold>\<open>Assumptions of the model.\<close> A write to a client that has failed keeps failing. Model rows are held decoded.
  The row a request holds is a pointer into the snapshot until that is reloaded; \<^verbatim>\<open>lc_aliased\<close> says at which steps it still
  is, and the theorems hold for every answer. In \<^verbatim>\<open>Request_Loop\<close> a client is taken in one step. The health scores of \<^verbatim>\<open>Egress\<close> are
  rationals rounded to 53 bits after each operation. Digests, AES-GCM, Redis's
  JSON number printing, the JSON round trip of a stored response, the printing of floats and Unicode's printable classes are
  parameters with named hypotheses.

  \<^bold>\<open>Not modelled.\<close> The provider clients and the wire formats of the Grok channel's own request path (the request loop takes
  the messages of a provider, the held stream its frames, as a parameter), the decoding of requests and the requests answered
  locally, the payload sent upstream, the operator interface and its pages, background refresh, change notices, audit and
  metrics, diagnostics, configuration loading, HTTP transports and the self-updater: input and output around the components
  above, or text handling without a contract. Network failures of Redis are left out where the code only passes them on.
\<close>

end
